(* ===== verification/Prelude.thy ===== *)
theory Prelude
  imports Complex_Main "HOL-Library.List_Lexorder" "HOL-Library.Char_ord"
begin

section \<open>Shared vocabulary of the Smartfire development\<close>

text \<open>
  The types, conventions and generic lemmas every component theory uses.

  \<^item> \<open>timestamp\<close> is \<^verbatim>\<open>campfire_db::Timestamp\<close> (microseconds since the epoch, a 512-bit integer
    in the source whose range no operation here approaches), so it is \<open>int\<close>;
  \<^item> \<open>duration\<close> is \<^verbatim>\<open>std::time::Duration\<close> in nanoseconds;
  \<^item> a table of the SQLite database is the list of its rows; an \<^verbatim>\<open>UPDATE ... WHERE\<close> is
    \<open>update_where\<close>, a \<^verbatim>\<open>DELETE ... WHERE\<close> is \<open>delete_where\<close>, and the count each
    statement reports is \<open>count_where\<close>.  Every write runs alone on the single writer
    connection, so a statement is a function from the table to the table.
\<close>

type_synonym timestamp = int
type_synonym duration = nat

named_theorems table_simps \<open>rewrite rules for table statements\<close>
named_theorems store_defs \<open>definitions of the job store's statements\<close>

subsection \<open>Durations and instants\<close>

text \<open>\<^verbatim>\<open>jiff::SignedDuration::MAX\<close> in nanoseconds, and the saturating conversion
  \<^verbatim>\<open>SignedDuration::try_from(d).unwrap_or(SignedDuration::MAX)\<close> every caller applies to a
  \<^verbatim>\<open>Duration\<close> (\<^verbatim>\<open>signed\<close> in \<^verbatim>\<open>crates/jobs/src/runner.rs\<close>).\<close>

definition signed_duration_max :: nat where
  "signed_duration_max = (2 ^ 63 - 1) * 10 ^ 9 + 999999999"

definition signed :: "duration \<Rightarrow> int" where
  "signed d = (if d div 10 ^ 9 \<le> 2 ^ 63 - 1 then int d else int signed_duration_max)"

text \<open>\<^verbatim>\<open>Timestamp::since\<close> and \<^verbatim>\<open>Timestamp::ago\<close>: the offset in nanoseconds is floored to whole
  microseconds (\<^verbatim>\<open>div_euclid(1000)\<close>).\<close>

definition since :: "timestamp \<Rightarrow> int \<Rightarrow> timestamp" where
  "since t nanos = t + nanos div 1000"

definition ago :: "timestamp \<Rightarrow> int \<Rightarrow> timestamp" where
  "ago t nanos = t + (- nanos) div 1000"

lemma signed_nonneg [simp]: "0 \<le> signed d"
  by (simp add: signed_def)

lemma since_signed_ge [simp]: "t \<le> since t (signed d)"
  by (simp add: since_def pos_imp_zdiv_nonneg_iff)

lemma since_mono: "a \<le> b \<Longrightarrow> since t a \<le> since t b"
  by (simp add: since_def zdiv_mono1)

lemma ago_le: "0 \<le> n \<Longrightarrow> ago t n \<le> t"
proof -
  assume "0 \<le> n"
  then have "(- n) div 1000 \<le> 0" by linarith
  then show ?thesis by (simp add: ago_def)
qed

subsection \<open>Computations that may panic\<close>

text \<open>Where a Rust expression can panic on a value the types allow, its model returns
  \<open>Panics\<close>.\<close>

datatype 'a eval_result = Panics | Returns 'a

fun eval_map :: "('a \<Rightarrow> 'b) \<Rightarrow> 'a eval_result \<Rightarrow> 'b eval_result" where
  "eval_map f Panics = Panics"
| "eval_map f (Returns x) = Returns (f x)"

lemma eval_map_eq_Returns: "eval_map f m = Returns y \<longleftrightarrow> (\<exists>x. m = Returns x \<and> y = f x)"
  by (cases m) auto

lemma eval_map_eq_Panics [simp]: "eval_map f m = Panics \<longleftrightarrow> m = Panics"
  by (cases m) auto

subsection \<open>Ordered maps and numerals\<close>

text \<open>\<^verbatim>\<open>BTreeMap\<close>: an association list in strictly increasing order of its keys.\<close>

fun btree_insert :: "'k::linorder \<Rightarrow> 'v \<Rightarrow> ('k \<times> 'v) list \<Rightarrow> ('k \<times> 'v) list" where
  "btree_insert k v [] = [(k, v)]"
| "btree_insert k v ((k', v') # m) =
     (if k < k' then (k, v) # (k', v') # m
      else if k = k' then (k, v) # m
      else (k', v') # btree_insert k v m)"

definition btree_remove :: "'k \<Rightarrow> ('k \<times> 'v) list \<Rightarrow> ('k \<times> 'v) list" where
  "btree_remove k m = filter (\<lambda>(k', _). k' \<noteq> k) m"

lemma set_btree_insert_fst: "fst ` set (btree_insert k v m) = insert k (fst ` set m)"
  by (induction k v m rule: btree_insert.induct) auto

lemma btree_insert_sorted:
  "sorted_wrt (<) (map fst m) \<Longrightarrow> sorted_wrt (<) (map fst (btree_insert k v m))"
proof (induction k v m rule: btree_insert.induct)
  case (2 k v k' v' m)
  then show ?case
    using set_btree_insert_fst[of k v m] by (auto simp: image_iff Ball_def)
qed simp

lemma map_of_btree_insert:
  "sorted_wrt (<) (map fst m) \<Longrightarrow> map_of (btree_insert k v m) = (map_of m)(k \<mapsto> v)"
  by (induction k v m rule: btree_insert.induct) (auto simp: fun_upd_twist)

lemma btree_insert_less: "\<forall>k' \<in> fst ` set m. k < k' \<Longrightarrow> btree_insert k v m = (k, v) # m"
  by (cases m) auto

lemma map_of_btree_remove: "map_of (btree_remove k m) = (map_of m)(k := None)"
  by (induction m) (auto simp: btree_remove_def fun_eq_iff)

lemma btree_remove_sorted:
  "sorted_wrt (<) (map fst m) \<Longrightarrow> sorted_wrt (<) (map fst (btree_remove k m))"
  by (induction m) (auto simp: btree_remove_def)

text \<open>The decimal digits of a number, as \<^verbatim>\<open>format!\<close> writes them.\<close>

fun string_of_nat :: "nat \<Rightarrow> string" where
  "string_of_nat n =
     (if n < 10 then [char_of (48 + n)] else string_of_nat (n div 10) @ [char_of (48 + n mod 10)])"

declare string_of_nat.simps [simp del]

text \<open>White space at the start of a text, for ASCII texts.\<close>

definition is_space :: "char \<Rightarrow> bool" where
  "is_space c \<longleftrightarrow> c \<in> {CHR 0x09, CHR 0x0A, CHR 0x0B, CHR 0x0C, CHR 0x0D, CHR '' ''}"

definition trim_start :: "string \<Rightarrow> string" where
  "trim_start = dropWhile is_space"

definition blank :: "string \<Rightarrow> bool" where
  "blank t \<longleftrightarrow> list_all is_space t"

text \<open>JSON values; the members of an object in order.\<close>

datatype json =
  JNull | JBool bool | JInt int | JFloat rat | JStr string | JArr "json list"
| JObj "(string \<times> json) list"

text \<open>\<^verbatim>\<open>chunks(max)\<close>, for a positive \<open>max\<close> (the caller takes at least 1).\<close>

function chunks :: "nat \<Rightarrow> 'a list \<Rightarrow> 'a list list" where
  "chunks n xs = (if xs = [] then [] else take (max n 1) xs # chunks n (drop (max n 1) xs))"
  by pat_completeness auto
termination by (relation "measure (\<lambda>(n, xs). length xs)") auto

declare chunks.simps [simp del]

lemma concat_chunks: "concat (chunks n xs) = xs"
  by (induction n xs rule: chunks.induct) (subst chunks.simps, simp)

lemma chunks_size: "ch \<in> set (chunks n xs) \<Longrightarrow> ch \<noteq> [] \<and> length ch \<le> max n 1"
proof (induction n xs rule: chunks.induct)
  case (1 n xs)
  then show ?case by (cases "xs = []") (subst (asm) (2) chunks.simps, auto)+
qed

subsection \<open>Tables\<close>

definition update_where :: "('r \<Rightarrow> bool) \<Rightarrow> ('r \<Rightarrow> 'r) \<Rightarrow> 'r list \<Rightarrow> 'r list" where
  "update_where P f rows = map (\<lambda>r. if P r then f r else r) rows"

definition delete_where :: "('r \<Rightarrow> bool) \<Rightarrow> 'r list \<Rightarrow> 'r list" where
  "delete_where P rows = filter (\<lambda>r. \<not> P r) rows"

definition count_where :: "('r \<Rightarrow> bool) \<Rightarrow> 'r list \<Rightarrow> nat" where
  "count_where P rows = length (filter P rows)"

lemma update_where_Nil [simp]: "update_where P f [] = []"
  by (simp add: update_where_def)

lemma update_where_Cons [simp]:
  "update_where P f (r # rows) = (if P r then f r else r) # update_where P f rows"
  by (simp add: update_where_def)

lemma set_update_where [table_simps]:
  "set (update_where P f rows) = f ` {r \<in> set rows. P r} \<union> {r \<in> set rows. \<not> P r}"
  by (auto simp: update_where_def)

lemma set_delete_where [table_simps]: "set (delete_where P rows) = {r \<in> set rows. \<not> P r}"
  by (auto simp: delete_where_def)

lemma count_where_Nil [simp]: "count_where P [] = 0"
  by (simp add: count_where_def)

lemma count_where_Cons [simp]:
  "count_where P (r # rows) = (if P r then 1 else 0) + count_where P rows"
  by (simp add: count_where_def)

lemma count_where_eq_0 [table_simps]: "count_where P rows = 0 \<longleftrightarrow> (\<forall>r \<in> set rows. \<not> P r)"
  by (induction rows) auto

lemma count_where_mono:
  "(\<And>r. r \<in> set rows \<Longrightarrow> P r \<Longrightarrow> Q r) \<Longrightarrow> count_where P rows \<le> count_where Q rows"
  by (induction rows) auto

lemma update_where_id:
  "(\<And>r. r \<in> set rows \<Longrightarrow> P r \<Longrightarrow> f r = r) \<Longrightarrow> update_where P f rows = rows"
  by (induction rows) auto

lemma update_where_none: "count_where P rows = 0 \<Longrightarrow> update_where P f rows = rows"
  by (rule update_where_id) (simp add: count_where_eq_0)

lemma delete_where_none: "count_where P rows = 0 \<Longrightarrow> delete_where P rows = rows"
  by (induction rows) (auto simp: delete_where_def split: if_splits)

lemma map_update_where: "(\<And>r. k (f r) = k r) \<Longrightarrow> map k (update_where P f rows) = map k rows"
  by (induction rows) auto

lemma image_update_where: "(\<And>r. k (f r) = k r) \<Longrightarrow> k ` set (update_where P f rows) = k ` set rows"
  by (metis list.set_map map_update_where)

lemma count_where_update_where:
  "count_where Q (update_where P f rows) =
     count_where (\<lambda>r. P r \<and> Q (f r)) rows + count_where (\<lambda>r. \<not> P r \<and> Q r) rows"
  by (induction rows) auto

lemma count_where_split:
  "count_where P rows = count_where (\<lambda>r. Q r \<and> P r) rows + count_where (\<lambda>r. \<not> Q r \<and> P r) rows"
  by (induction rows) auto

lemma count_where_cong:
  "(\<And>r. r \<in> set rows \<Longrightarrow> P r = Q r) \<Longrightarrow> count_where P rows = count_where Q rows"
  by (induction rows) auto

lemma find_append:
  "find P (xs @ ys) = (case find P xs of Some r \<Rightarrow> Some r | None \<Rightarrow> find P ys)"
  by (induction xs) auto

lemma count_where_delete_where:
  "count_where Q (delete_where P rows) = count_where (\<lambda>r. \<not> P r \<and> Q r) rows"
  by (induction rows) (auto simp: delete_where_def)

subsection \<open>Tables with a primary key\<close>

text \<open>
  A table whose rows carry an integer primary key.  \<open>key\<close> reads it; the laws of every
  single-row statement (\<^verbatim>\<open>WHERE "id" = ? AND ...\<close>) follow from the keys being distinct.
\<close>

locale keyed_table =
  fixes key :: "'r \<Rightarrow> int"
begin

definition find_row :: "int \<Rightarrow> 'r list \<Rightarrow> 'r option" where
  "find_row k rows = find (\<lambda>r. key r = k) rows"

definition keyed :: "'r list \<Rightarrow> bool" where
  "keyed rows \<longleftrightarrow> distinct (map key rows)"

lemma keyed_update:
  assumes "\<And>r. key (f r) = key r"
  shows "keyed (update_where P f rows) = keyed rows"
proof -
  have "map key (update_where P f rows) = map key rows"
    using assms by (induction rows) auto
  then show ?thesis by (simp add: keyed_def)
qed

lemma keyed_delete: "keyed rows \<Longrightarrow> keyed (delete_where P rows)"
  by (simp add: keyed_def delete_where_def distinct_map_filter)

lemma keyed_append: "keyed rows \<Longrightarrow> key r \<notin> key ` set rows \<Longrightarrow> keyed (rows @ [r])"
  by (simp add: keyed_def)

lemma keyed_unique: "keyed rows \<Longrightarrow> r \<in> set rows \<Longrightarrow> s \<in> set rows \<Longrightarrow> key r = key s \<Longrightarrow> r = s"
  by (auto simp: keyed_def distinct_map dest: inj_onD)

lemma find_row_key: "find_row k rows = Some r \<Longrightarrow> key r = k"
  by (auto simp: find_row_def find_Some_iff)

lemma find_row_Some_iff:
  "keyed rows \<Longrightarrow> find_row k rows = Some r \<longleftrightarrow> r \<in> set rows \<and> key r = k"
proof
  assume "keyed rows" and "find_row k rows = Some r"
  then show "r \<in> set rows \<and> key r = k"
    by (auto simp: find_row_def find_Some_iff)
next
  assume k: "keyed rows" and r: "r \<in> set rows \<and> key r = k"
  then have "find_row k rows \<noteq> None"
    by (auto simp: find_row_def find_None_iff)
  then obtain s where s: "find_row k rows = Some s" by auto
  then have "s \<in> set rows \<and> key s = k"
    by (auto simp: find_row_def find_Some_iff)
  with k r have "s = r" by (auto intro: keyed_unique)
  with s show "find_row k rows = Some r" by simp
qed

lemma find_row_None_iff: "find_row k rows = None \<longleftrightarrow> k \<notin> key ` set rows"
  by (auto simp: find_row_def find_None_iff)

lemma find_row_update:
  assumes "\<And>r. key (f r) = key r"
  shows "find_row k (update_where P f rows) =
    map_option (\<lambda>r. if P r then f r else r) (find_row k rows)"
  using assms by (induction rows) (auto simp: find_row_def)

lemma find_row_delete:
  "keyed rows \<Longrightarrow> find_row k (delete_where P rows) =
     (case find_row k rows of None \<Rightarrow> None | Some r \<Rightarrow> if P r then None else Some r)"
proof (induction rows)
  case Nil
  then show ?case by (simp add: find_row_def delete_where_def)
next
  case (Cons a rows)
  then have "keyed rows" and "key a \<notin> key ` set rows" by (auto simp: keyed_def)
  moreover from this have "key a = k \<Longrightarrow> find_row k (delete_where P rows) = None"
    by (auto simp: find_row_None_iff set_delete_where)
  ultimately show ?case
    using Cons.IH by (auto simp: find_row_def delete_where_def)
qed

lemma count_where_key_le_1:
  assumes "keyed rows" and "\<And>r. P r \<Longrightarrow> key r = k"
  shows "count_where P rows \<le> 1"
  using assms(1)
proof (induction rows)
  case (Cons a rows)
  then have IH: "count_where P rows \<le> 1" and a: "key a \<notin> key ` set rows"
    by (auto simp: keyed_def)
  have "count_where P rows = 0" if "P a"
    using that a assms(2) by (force simp: count_where_eq_0)
  with IH show ?case by auto
qed simp

lemma count_where_key_eq_1:
  assumes "keyed rows" and "\<And>r. P r \<Longrightarrow> key r = k"
  shows "count_where P rows = 1 \<longleftrightarrow> (\<exists>r \<in> set rows. P r)"
proof -
  have "count_where P rows \<le> 1" using assms by (rule count_where_key_le_1)
  moreover have "count_where P rows = 0 \<longleftrightarrow> \<not> (\<exists>r \<in> set rows. P r)"
    by (auto simp: count_where_eq_0)
  ultimately show ?thesis by linarith
qed

end

subsection \<open>Transition systems and invariants\<close>

text \<open>A system is its step relation; an invariant kept by every step is kept by every run.\<close>

locale invariant_system =
  fixes step :: "'s \<Rightarrow> 's \<Rightarrow> bool" and inv :: "'s \<Rightarrow> bool"
  assumes inv_step: "inv s \<Longrightarrow> step s t \<Longrightarrow> inv t"
begin

lemma inv_run: "step\<^sup>*\<^sup>* s t \<Longrightarrow> inv s \<Longrightarrow> inv t"
  by (induction rule: rtranclp_induct) (auto intro: inv_step)

end

end
