(* ===== verification/JobStore.thy ===== *)
theory JobStore
  imports Prelude "HOL-Library.Product_Lexorder" "HOL-Library.Multiset"
begin

section \<open>The durable job table\<close>

text \<open>
  \<^verbatim>\<open>crates/jobs/src/store.rs\<close>: the \<^verbatim>\<open>background_jobs\<close> table and the statements on it.  A row
  is the record \<open>job_row\<close>; its \<^verbatim>\<open>arguments\<close> column holds serialized JSON, whose type is a
  parameter (\<open>'a\<close>) because serde and SQLite's JSON functions are not part of the repository.
  The table with its \<^verbatim>\<open>AUTOINCREMENT\<close> counter is \<open>jobs_db\<close>.  Integer columns read back as
  \<^verbatim>\<open>u32\<close> are \<open>nat\<close>.

  The file holds the statements, the table's invariant \<open>store_ok\<close> (kept by every statement),
  the abstract life cycle of a job and the proof that every statement moves every job along
  it, and the facts about claims: how many, which, and in which order.
\<close>

subsection \<open>Rows\<close>

datatype job_status = Ready | Running | Failed

record 'a job_row =
  job_id :: int
  queue_name :: string
  job_class :: string
  arguments :: 'a
  payload_version :: nat
  status :: job_status
  attempts :: nat
  run_at :: timestamp
  claimed_by :: "string option"
  lease_expires_at :: "timestamp option"
  last_error :: "string option"
  failed_at :: "timestamp option"
  created_at :: timestamp
  updated_at :: timestamp

record 'a jobs_db =
  rows :: "'a job_row list"
  job_seq :: int

record 'a new_job =
  nj_queue :: string
  nj_class :: string
  nj_arguments :: 'a
  nj_version :: nat
  nj_run_at :: timestamp

record 'a claimed_job =
  cl_id :: int
  cl_class :: string
  cl_arguments :: 'a
  cl_version :: nat
  cl_attempts :: nat
  cl_run_at :: timestamp
  cl_created_at :: timestamp

record 'a orphan =
  or_id :: int
  or_queue :: string
  or_class :: string
  or_attempts :: nat
  or_arguments :: 'a

subsection \<open>Truncated error messages\<close>

text \<open>A Rust \<^verbatim>\<open>str\<close> is its UTF-8 bytes; an index is a char boundary when it is 0, the length, or
  the position of a byte that is not a continuation byte.\<close>

definition error_limit :: nat where
  "error_limit = 8 * 1024"

definition is_char_boundary :: "string \<Rightarrow> nat \<Rightarrow> bool" where
  "is_char_boundary s i =
     (if i = 0 then True
      else if length s \<le> i then i = length s
      else \<not> (128 \<le> (of_char (s ! i) :: nat) \<and> (of_char (s ! i) :: nat) < 192))"

fun truncate_end :: "string \<Rightarrow> nat \<Rightarrow> nat" where
  "truncate_end s 0 = 0"
| "truncate_end s (Suc n) = (if is_char_boundary s (Suc n) then Suc n else truncate_end s n)"

definition truncate_error :: "string \<Rightarrow> string" where
  "truncate_error e =
     (if length e \<le> error_limit then e else take (truncate_end e error_limit) e)"

subsection \<open>Statements\<close>

definition insert_job :: "'a new_job \<Rightarrow> timestamp \<Rightarrow> 'a jobs_db \<Rightarrow> int \<times> 'a jobs_db" where
  "insert_job job now db =
     (let k = job_seq db + 1 in
      (k, db\<lparr>rows := rows db @
             [\<lparr>job_id = k, queue_name = nj_queue job, job_class = nj_class job,
               arguments = nj_arguments job, payload_version = nj_version job,
               status = Ready, attempts = 0, run_at = nj_run_at job, claimed_by = None,
               lease_expires_at = None, last_error = None, failed_at = None,
               created_at = now, updated_at = now\<rparr>],
           job_seq := k\<rparr>))"

definition is_due :: "string \<Rightarrow> timestamp \<Rightarrow> 'a job_row \<Rightarrow> bool" where
  "is_due q now r \<longleftrightarrow> status r = Ready \<and> queue_name r = q \<and> run_at r \<le> now"

definition is_live :: "string \<Rightarrow> timestamp \<Rightarrow> 'a job_row \<Rightarrow> bool" where
  "is_live q now r \<longleftrightarrow> status r = Running \<and> queue_name r = q \<and>
     (case lease_expires_at r of None \<Rightarrow> False | Some t \<Rightarrow> now < t)"

definition due_order :: "'a job_row \<Rightarrow> timestamp \<times> int" where
  "due_order r = (run_at r, job_id r)"

text \<open>The subquery of the claim: the due jobs, oldest first, limited to the free slots of the
  queue (\<^verbatim>\<open>max(0, min(limit, concurrency - running))\<close>; subtraction on \<open>nat\<close> stops at 0).\<close>

definition due_rows :: "string \<Rightarrow> nat \<Rightarrow> nat \<Rightarrow> timestamp \<Rightarrow> 'a job_row list \<Rightarrow> 'a job_row list" where
  "due_rows q concurrency limit now rs =
     take (min limit (concurrency - count_where (is_live q now) rs))
          (sort_key due_order (filter (is_due q now) rs))"

definition claim_row :: "string \<Rightarrow> timestamp \<Rightarrow> timestamp \<Rightarrow> 'a job_row \<Rightarrow> 'a job_row" where
  "claim_row runner lease_until now r =
     r\<lparr>status := Running, claimed_by := Some runner, lease_expires_at := Some lease_until,
       attempts := attempts r + 1, updated_at := now\<rparr>"

definition to_claimed :: "'a job_row \<Rightarrow> 'a claimed_job" where
  "to_claimed r = \<lparr>cl_id = job_id r, cl_class = job_class r, cl_arguments = arguments r,
     cl_version = payload_version r, cl_attempts = attempts r, cl_run_at = run_at r,
     cl_created_at = created_at r\<rparr>"

definition claim_order :: "'a claimed_job \<Rightarrow> timestamp \<times> int" where
  "claim_order c = (cl_run_at c, cl_id c)"

definition claim_where :: "string \<Rightarrow> nat \<Rightarrow> nat \<Rightarrow> timestamp \<Rightarrow> 'a job_row list \<Rightarrow> 'a job_row \<Rightarrow> bool" where
  "claim_where q concurrency limit now rs r \<longleftrightarrow>
     status r = Ready \<and> job_id r \<in> set (map job_id (due_rows q concurrency limit now rs))"

definition claim :: "string \<Rightarrow> nat \<Rightarrow> nat \<Rightarrow> string \<Rightarrow> timestamp \<Rightarrow> timestamp \<Rightarrow> 'a jobs_db
    \<Rightarrow> 'a claimed_job list \<times> 'a jobs_db" where
  "claim q concurrency limit runner lease_until now db =
     (let P = claim_where q concurrency limit now (rows db);
          f = claim_row runner lease_until now
      in (sort_key claim_order (map (to_claimed \<circ> f) (filter P (rows db))),
          db\<lparr>rows := update_where P f (rows db)\<rparr>))"

definition next_run_at :: "string \<Rightarrow> 'a jobs_db \<Rightarrow> timestamp option" where
  "next_run_at q db =
     (case filter (\<lambda>r. status r = Ready \<and> queue_name r = q) (rows db) of
        [] \<Rightarrow> None
      | r # rs \<Rightarrow> Some (fold min (map run_at rs) (run_at r)))"

text \<open>\<open>json_extract_eq args path n\<close> stands for SQLite's
  \<^verbatim>\<open>json_extract(args, path) = n\<close>.\<close>

definition in_hold :: "('a \<Rightarrow> string \<Rightarrow> int \<Rightarrow> bool) \<Rightarrow> string \<Rightarrow> string \<Rightarrow> string \<Rightarrow> int \<Rightarrow> timestamp
    \<Rightarrow> 'a job_row \<Rightarrow> bool" where
  "in_hold json_extract_eq q cls path v now r \<longleftrightarrow>
     status r = Ready \<and> queue_name r = q \<and> job_class r = cls \<and> now < run_at r \<and>
     lease_expires_at r = None \<and> attempts r = 0 \<and> json_extract_eq (arguments r) path v"

definition make_due :: "('a \<Rightarrow> string \<Rightarrow> int \<Rightarrow> bool) \<Rightarrow> string \<Rightarrow> string \<Rightarrow> string \<Rightarrow> int \<Rightarrow> timestamp
    \<Rightarrow> 'a jobs_db \<Rightarrow> nat \<times> 'a jobs_db" where
  "make_due json_extract_eq q cls path v now db =
     (let P = in_hold json_extract_eq q cls path v now in
      (count_where P (rows db),
       db\<lparr>rows := update_where P (\<lambda>r. r\<lparr>run_at := now, updated_at := now\<rparr>) (rows db)\<rparr>))"

definition held_by :: "int \<Rightarrow> string \<Rightarrow> 'a job_row \<Rightarrow> bool" where
  "held_by k runner r \<longleftrightarrow> job_id r = k \<and> status r = Running \<and> claimed_by r = Some runner"

definition delete_job :: "int \<Rightarrow> string \<Rightarrow> 'a jobs_db \<Rightarrow> bool \<times> 'a jobs_db" where
  "delete_job k runner db =
     (count_where (held_by k runner) (rows db) = 1,
      db\<lparr>rows := delete_where (held_by k runner) (rows db)\<rparr>)"

definition reschedule_row :: "timestamp \<Rightarrow> string option \<Rightarrow> bool \<Rightarrow> timestamp \<Rightarrow> 'a job_row \<Rightarrow> 'a job_row" where
  "reschedule_row due error reset_attempts now r =
     r\<lparr>status := Ready, run_at := due, claimed_by := None,
       last_error := (case error of Some e \<Rightarrow> Some e | None \<Rightarrow> last_error r),
       attempts := (if reset_attempts then 0 else attempts r), updated_at := now\<rparr>"

definition reschedule :: "int \<Rightarrow> string \<Rightarrow> timestamp \<Rightarrow> string option \<Rightarrow> bool \<Rightarrow> timestamp \<Rightarrow> 'a jobs_db
    \<Rightarrow> bool \<times> 'a jobs_db" where
  "reschedule k runner due error reset_attempts now db =
     (count_where (held_by k runner) (rows db) = 1,
      db\<lparr>rows := update_where (held_by k runner)
          (reschedule_row due (map_option truncate_error error) reset_attempts now) (rows db)\<rparr>)"

definition fail_row :: "string \<Rightarrow> timestamp \<Rightarrow> 'a job_row \<Rightarrow> 'a job_row" where
  "fail_row error now r =
     r\<lparr>status := Failed, failed_at := Some now, last_error := Some error, claimed_by := None,
       updated_at := now\<rparr>"

definition fail_job :: "int \<Rightarrow> string \<Rightarrow> string \<Rightarrow> timestamp \<Rightarrow> 'a jobs_db \<Rightarrow> bool \<times> 'a jobs_db" where
  "fail_job k runner error now db =
     (count_where (held_by k runner) (rows db) = 1,
      db\<lparr>rows := update_where (held_by k runner) (fail_row (truncate_error error) now) (rows db)\<rparr>)"

definition heartbeat_where :: "string \<Rightarrow> int list \<Rightarrow> 'a job_row \<Rightarrow> bool" where
  "heartbeat_where runner ids r \<longleftrightarrow>
     status r = Running \<and> claimed_by r = Some runner \<and> job_id r \<in> set ids"

definition heartbeat :: "string \<Rightarrow> int list \<Rightarrow> timestamp \<Rightarrow> timestamp \<Rightarrow> 'a jobs_db \<Rightarrow> nat \<times> 'a jobs_db" where
  "heartbeat runner ids lease_until now db =
     (count_where (heartbeat_where runner ids) (rows db),
      db\<lparr>rows := update_where (heartbeat_where runner ids)
          (\<lambda>r. r\<lparr>lease_expires_at := Some lease_until, updated_at := now\<rparr>) (rows db)\<rparr>)"

definition expired :: "timestamp \<Rightarrow> 'a job_row \<Rightarrow> bool" where
  "expired now r \<longleftrightarrow> status r = Running \<and>
     (case lease_expires_at r of None \<Rightarrow> False | Some t \<Rightarrow> t \<le> now)"

definition to_orphan :: "'a job_row \<Rightarrow> 'a orphan" where
  "to_orphan r = \<lparr>or_id = job_id r, or_queue = queue_name r, or_class = job_class r,
     or_attempts = attempts r, or_arguments = arguments r\<rparr>"

definition orphans :: "string \<Rightarrow> int list \<Rightarrow> timestamp \<Rightarrow> 'a jobs_db \<Rightarrow> 'a orphan list" where
  "orphans runner performing now db =
     map to_orphan (sort_key job_id
       (filter (\<lambda>r. expired now r \<and> \<not> (claimed_by r = Some runner \<and> job_id r \<in> set performing))
         (rows db)))"

definition recover_row :: "bool \<Rightarrow> string \<Rightarrow> timestamp \<Rightarrow> 'a job_row \<Rightarrow> 'a job_row" where
  "recover_row retry error now r =
     (if retry
      then r\<lparr>status := Ready, run_at := now, claimed_by := None, last_error := Some error,
             updated_at := now\<rparr>
      else r\<lparr>status := Failed, failed_at := Some now, claimed_by := None,
             last_error := Some error, updated_at := now\<rparr>)"

definition recover_where :: "int \<Rightarrow> timestamp \<Rightarrow> 'a job_row \<Rightarrow> bool" where
  "recover_where k now r \<longleftrightarrow> job_id r = k \<and> expired now r"

definition recover :: "int \<Rightarrow> bool \<Rightarrow> string \<Rightarrow> timestamp \<Rightarrow> 'a jobs_db \<Rightarrow> bool \<times> 'a jobs_db" where
  "recover k retry error now db =
     (count_where (recover_where k now) (rows db) = 1,
      db\<lparr>rows := update_where (recover_where k now) (recover_row retry error now) (rows db)\<rparr>)"

definition release_row :: "timestamp \<Rightarrow> 'a job_row \<Rightarrow> 'a job_row" where
  "release_row now r =
     r\<lparr>status := Ready, run_at := now, claimed_by := None, attempts := attempts r - 1,
       updated_at := now\<rparr>"

definition release :: "string \<Rightarrow> timestamp \<Rightarrow> 'a jobs_db \<Rightarrow> nat \<times> 'a jobs_db" where
  "release runner now db =
     (let P = (\<lambda>r. status r = Running \<and> claimed_by r = Some runner) in
      (count_where P (rows db), db\<lparr>rows := update_where P (release_row now) (rows db)\<rparr>))"

subsection \<open>The invariant of the table\<close>

text \<open>A row is running exactly when it is claimed; a running row has a lease and at least one
  execution; a row without a lease was never claimed; a row is failed exactly when it has a
  failure time.\<close>

definition row_ok :: "'a job_row \<Rightarrow> bool" where
  "row_ok r \<longleftrightarrow>
     (status r = Running \<longleftrightarrow> claimed_by r \<noteq> None) \<and>
     (status r = Running \<longrightarrow> lease_expires_at r \<noteq> None \<and> 0 < attempts r) \<and>
     (lease_expires_at r = None \<longrightarrow> status r = Ready \<and> attempts r = 0) \<and>
     (status r = Failed \<longleftrightarrow> failed_at r \<noteq> None)"

interpretation jobs: keyed_table "job_id :: 'a job_row \<Rightarrow> int" .

definition store_ok :: "'a jobs_db \<Rightarrow> bool" where
  "store_ok db \<longleftrightarrow> distinct (map job_id (rows db)) \<and>
     (\<forall>r \<in> set (rows db). job_id r \<le> job_seq db \<and> row_ok r)"

lemma store_okI:
  assumes "jobs.keyed (rows db)" and "\<And>r. r \<in> set (rows db) \<Longrightarrow> job_id r \<le> job_seq db \<and> row_ok r"
  shows "store_ok db"
  using assms by (auto simp: store_ok_def jobs.keyed_def)

lemma store_okD:
  assumes "store_ok db"
  shows "jobs.keyed (rows db)" and "r \<in> set (rows db) \<Longrightarrow> job_id r \<le> job_seq db"
    and "r \<in> set (rows db) \<Longrightarrow> row_ok r"
  using assms by (auto simp: store_ok_def jobs.keyed_def)

text \<open>Every statement but the insertion and the two deletions is an \<open>update_where\<close>; one lemma
  serves them all.\<close>

lemma store_ok_update:
  assumes ok: "store_ok db"
    and key: "\<And>r. job_id (f r) = job_id r"
    and row: "\<And>r. row_ok r \<Longrightarrow> P r \<Longrightarrow> row_ok (f r)"
  shows "store_ok (db\<lparr>rows := update_where P f (rows db)\<rparr>)"
proof (rule store_okI)
  show "jobs.keyed (rows (db\<lparr>rows := update_where P f (rows db)\<rparr>))"
    using ok key by (simp add: jobs.keyed_update store_okD)
next
  fix r assume "r \<in> set (rows (db\<lparr>rows := update_where P f (rows db)\<rparr>))"
  then show "job_id r \<le> job_seq (db\<lparr>rows := update_where P f (rows db)\<rparr>) \<and> row_ok r"
    using ok key row by (auto simp: set_update_where dest: store_okD)
qed

lemma store_ok_delete:
  assumes "store_ok db"
  shows "store_ok (db\<lparr>rows := delete_where P (rows db)\<rparr>)"
  using assms by (auto intro!: store_okI jobs.keyed_delete simp: set_delete_where dest: store_okD)

lemmas row_defs = claim_row_def reschedule_row_def fail_row_def recover_row_def release_row_def

lemma insert_job_ok: "store_ok db \<Longrightarrow> store_ok (snd (insert_job job now db))"
proof (rule store_okI)
  assume ok: "store_ok db"
  then have "job_seq db + 1 \<notin> job_id ` set (rows db)"
    by (force dest: store_okD)
  with ok show "jobs.keyed (rows (snd (insert_job job now db)))"
    by (auto simp: insert_job_def Let_def intro!: jobs.keyed_append dest: store_okD)
next
  fix r assume "store_ok db" and "r \<in> set (rows (snd (insert_job job now db)))"
  then show "job_id r \<le> job_seq (snd (insert_job job now db)) \<and> row_ok r"
    by (auto simp: insert_job_def Let_def row_ok_def store_ok_def)
qed

lemma claim_ok: "store_ok db \<Longrightarrow> store_ok (snd (claim q c n runner lease now db))"
  by (simp add: claim_def Let_def)
     (rule store_ok_update, auto simp: row_ok_def claim_row_def claim_where_def)

lemma make_due_ok: "store_ok db \<Longrightarrow> store_ok (snd (make_due ex q cls path v now db))"
  by (simp add: make_due_def Let_def) (rule store_ok_update, auto simp: row_ok_def)

lemma delete_job_ok: "store_ok db \<Longrightarrow> store_ok (snd (delete_job k runner db))"
  by (simp add: delete_job_def store_ok_delete)

lemma reschedule_ok: "store_ok db \<Longrightarrow> store_ok (snd (reschedule k runner due e reset now db))"
  by (simp add: reschedule_def) (rule store_ok_update, auto simp: row_ok_def row_defs held_by_def)

lemma fail_job_ok: "store_ok db \<Longrightarrow> store_ok (snd (fail_job k runner e now db))"
  by (simp add: fail_job_def) (rule store_ok_update, auto simp: row_ok_def row_defs held_by_def)

lemma heartbeat_ok: "store_ok db \<Longrightarrow> store_ok (snd (heartbeat runner ids lease now db))"
  by (simp add: heartbeat_def) (rule store_ok_update, auto simp: row_ok_def heartbeat_where_def)

lemma recover_ok: "store_ok db \<Longrightarrow> store_ok (snd (recover k retry e now db))"
  by (simp add: recover_def)
     (rule store_ok_update, auto simp: row_ok_def row_defs recover_where_def expired_def)

lemma release_ok: "store_ok db \<Longrightarrow> store_ok (snd (release runner now db))"
  by (simp add: release_def Let_def) (rule store_ok_update, auto simp: row_ok_def row_defs)

lemmas statement_ok = insert_job_ok claim_ok make_due_ok delete_job_ok reschedule_ok fail_job_ok
  heartbeat_ok recover_ok release_ok

subsection \<open>What a claim takes\<close>

lemma due_rows_sub: "set (due_rows q c n now rs) \<subseteq> {r \<in> set rs. is_due q now r}"
  by (auto simp: due_rows_def dest: in_set_takeD)

lemma distinct_due_rows: "distinct rs \<Longrightarrow> distinct (due_rows q c n now rs)"
  by (simp add: due_rows_def)

lemma sorted_due_rows: "sorted (map due_order (due_rows q c n now rs))"
  by (simp add: due_rows_def take_map[symmetric] sorted_wrt_take)

lemma keyed_distinct: "jobs.keyed rs \<Longrightarrow> distinct rs"
  by (simp add: jobs.keyed_def distinct_map)

lemma inj_on_due_order: "jobs.keyed rs \<Longrightarrow> inj_on due_order (set rs)"
  by (auto simp: inj_on_def due_order_def dest: jobs.keyed_unique)

text \<open>The rows the conditional update matches are the rows the subquery selected.\<close>

lemma claim_where_iff:
  assumes "jobs.keyed rs" and "r \<in> set rs"
  shows "claim_where q c n now rs r \<longleftrightarrow> r \<in> set (due_rows q c n now rs)"
proof
  assume "claim_where q c n now rs r"
  then obtain s where s: "s \<in> set (due_rows q c n now rs)" and "job_id s = job_id r"
    by (auto simp: claim_where_def)
  then have "s = r"
    using assms due_rows_sub[of q c n now rs] by (auto intro: jobs.keyed_unique)
  with s show "r \<in> set (due_rows q c n now rs)" by simp
next
  assume "r \<in> set (due_rows q c n now rs)"
  then show "claim_where q c n now rs r"
    using due_rows_sub[of q c n now rs] by (auto simp: claim_where_def is_due_def)
qed

lemma mset_claim_filter:
  assumes "jobs.keyed rs"
  shows "mset (filter (claim_where q c n now rs) rs) = mset (due_rows q c n now rs)"
proof -
  have "set (filter (claim_where q c n now rs) rs) = set (due_rows q c n now rs)"
    using claim_where_iff[OF assms] due_rows_sub[of q c n now rs] by auto
  moreover have "distinct (filter (claim_where q c n now rs) rs)"
    and "distinct (due_rows q c n now rs)"
    using assms by (simp_all add: keyed_distinct distinct_due_rows)
  ultimately show ?thesis using set_eq_iff_mset_eq_distinct by blast
qed

lemma claim_order_claim_row [simp]: "claim_order (to_claimed (claim_row w l t r)) = due_order r"
  by (simp add: claim_order_def to_claimed_def claim_row_def due_order_def)

lemma claim_rows_exact:
  assumes "store_ok db"
  shows "fst (claim q c n runner lease now db) =
    map (to_claimed \<circ> claim_row runner lease now) (due_rows q c n now (rows db))"
proof -
  let ?g = "to_claimed \<circ> claim_row runner lease now"
  let ?F = "filter (claim_where q c n now (rows db)) (rows db)"
  let ?D = "due_rows q c n now (rows db)"
  have k: "jobs.keyed (rows db)" using assms by (rule store_okD)
  have "sort_key claim_order (map ?g ?F) = map ?g ?D"
  proof (rule sort_key_inj_key_eq)
    show "mset (map ?g ?F) = mset (map ?g ?D)"
      using mset_claim_filter[OF k, of q c n now] by (simp only: mset_map)
    show "inj_on claim_order (set (map ?g ?F))"
      using inj_on_due_order[OF k] by (auto simp: inj_on_def)
    show "sorted (map claim_order (map ?g ?D))"
      using sorted_due_rows[of q c n now "rows db"] by (simp add: comp_def)
  qed
  then show ?thesis by (simp add: claim_def Let_def)
qed

lemma count_claim_where:
  assumes "jobs.keyed rs"
  shows "count_where (claim_where q c n now rs) rs = length (due_rows q c n now rs)"
  using mset_claim_filter[OF assms, THEN mset_eq_length] by (simp add: count_where_def)

lemma length_due_rows:
  "length (due_rows q c n now rs) =
     min (min n (c - count_where (is_live q now) rs)) (count_where (is_due q now) rs)"
  by (simp add: due_rows_def count_where_def min.commute)

lemma live_after_claim:
  assumes ok: "store_ok db" and lease: "now < lease"
  shows "count_where (is_live q' now) (rows (snd (claim q c n runner lease now db))) =
     count_where (is_live q' now) (rows db) +
     (if q' = q then length (fst (claim q c n runner lease now db)) else 0)"
proof -
  let ?P = "claim_where q c n now (rows db)"
  let ?f = "claim_row runner lease now"
  have k: "jobs.keyed (rows db)" using ok by (rule store_okD)
  have q: "queue_name r = q" if "?P r" and "r \<in> set (rows db)" for r
    using that claim_where_iff[OF k] due_rows_sub[of q c n now "rows db"]
    by (auto simp: is_due_def)
  have "count_where (is_live q' now) (update_where ?P ?f (rows db)) =
    count_where (\<lambda>r. ?P r \<and> is_live q' now (?f r)) (rows db) +
    count_where (\<lambda>r. \<not> ?P r \<and> is_live q' now r) (rows db)"
    by (rule count_where_update_where)
  also have "count_where (\<lambda>r. ?P r \<and> is_live q' now (?f r)) (rows db) =
      count_where (\<lambda>r. q' = q \<and> ?P r) (rows db)"
    by (rule count_where_cong) (use lease q in \<open>auto simp: is_live_def claim_row_def\<close>)
  also have "count_where (\<lambda>r. \<not> ?P r \<and> is_live q' now r) (rows db) =
      count_where (is_live q' now) (rows db)"
    by (rule count_where_cong) (auto simp: claim_where_def is_live_def)
  finally have "count_where (is_live q' now) (rows (snd (claim q c n runner lease now db))) =
      count_where (\<lambda>r. q' = q \<and> ?P r) (rows db) + count_where (is_live q' now) (rows db)"
    by (simp add: claim_def Let_def)
  moreover have "count_where (\<lambda>r. q' = q \<and> ?P r) (rows db) =
      (if q' = q then length (fst (claim q c n runner lease now db)) else 0)"
    using count_claim_where[OF k, of q c n now] claim_rows_exact[OF ok]
    by (auto simp: count_where_eq_0)
  ultimately show ?thesis by simp
qed

text \<open>A claim leaves a due job behind only when every slot it may use is taken, and only one
  that comes after every job it took.\<close>

lemma claimed_before_left:
  assumes k: "jobs.keyed rs" and r: "r \<in> set (due_rows q c n now rs)"
    and s: "s \<in> set rs" "is_due q now s" "s \<notin> set (due_rows q c n now rs)"
  shows "due_order r < due_order s"
proof -
  let ?m = "min n (c - count_where (is_live q now) rs)"
  let ?S = "sort_key due_order (filter (is_due q now) rs)"
  have sorted: "sorted (map due_order ?S)" by simp
  have "s \<in> set (drop ?m ?S)"
  proof -
    have "s \<in> set (take ?m ?S @ drop ?m ?S)" using s by simp
    then show ?thesis using s(3) by (simp add: due_rows_def del: append_take_drop_id)
  qed
  moreover have "r \<in> set (take ?m ?S)" using r by (simp add: due_rows_def)
  moreover have "sorted (map due_order (take ?m ?S @ drop ?m ?S))" using sorted by simp
  ultimately have "due_order r \<le> due_order s"
    by (auto simp: sorted_append simp del: append_take_drop_id)
  moreover have "due_order r \<noteq> due_order s"
    using inj_on_due_order[OF k] r s due_rows_sub[of q c n now rs] by (auto dest: inj_onD)
  ultimately show ?thesis by simp
qed

lemma left_behind_full:
  assumes "s \<in> set rs" "is_due q now s" "s \<notin> set (due_rows q c n now rs)"
  shows "length (due_rows q c n now rs) = min n (c - count_where (is_live q now) rs)"
proof (rule ccontr)
  assume "length (due_rows q c n now rs) \<noteq> min n (c - count_where (is_live q now) rs)"
  then have "due_rows q c n now rs = sort_key due_order (filter (is_due q now) rs)"
    by (auto simp: due_rows_def min_def split: if_splits)
  with assms show False by auto
qed

lemma claim_step:
  "rows (snd (claim q c n runner lease now db)) =
     update_where (claim_where q c n now (rows db)) (claim_row runner lease now) (rows db)"
  by (simp add: claim_def Let_def)

lemma cl_id_claim_row [simp]: "cl_id (to_claimed (claim_row w l t r)) = job_id r"
  by (simp add: to_claimed_def claim_row_def)

lemma claimed_ids:
  assumes "store_ok db"
  shows "cl_id ` set (fst (claim q c n w l t db)) = job_id ` set (due_rows q c n t (rows db))"
  by (simp add: claim_rows_exact[OF assms] image_image)

lemma due_after_claim:
  assumes ok: "store_ok db" and r: "r \<in> set (rows (snd (claim q c n w l t db)))"
    and ready: "status r = Ready"
  shows "r \<in> set (rows db) \<and> r \<notin> set (due_rows q c n t (rows db))"
proof -
  have k: "jobs.keyed (rows db)" using ok by (rule store_okD)
  have "r \<in> set (rows db) \<and> \<not> claim_where q c n t (rows db) r"
    using r ready by (auto simp: claim_step set_update_where claim_row_def)
  then show ?thesis using claim_where_iff[OF k] by blast
qed

lemma guarded_noop:
  assumes "\<forall>r \<in> set (rows db). \<not> held_by k runner r"
  shows "delete_job k runner db = (False, db)"
    and "reschedule k runner due e reset now db = (False, db)"
    and "fail_job k runner msg now db = (False, db)"
  using assms
  by (simp_all add: delete_job_def reschedule_def fail_job_def count_where_eq_0[THEN iffD2]
      update_where_none delete_where_none)

lemma truncate_end_le: "truncate_end s n \<le> n"
  by (induction n) auto

lemma truncate_end_boundary: "is_char_boundary s (truncate_end s n)"
  by (induction n) (auto simp: is_char_boundary_def)

lemma truncate_end_greatest: "i \<le> n \<Longrightarrow> is_char_boundary s i \<Longrightarrow> i \<le> truncate_end s n"
  by (induction n) (auto simp: le_Suc_eq)

definition example_row :: "int \<Rightarrow> timestamp \<Rightarrow> unit job_row" where
  "example_row k due = \<lparr>job_id = k, queue_name = ''default'', job_class = ''A'', arguments = (),
     payload_version = 1, status = Ready, attempts = 0, run_at = due, claimed_by = None,
     lease_expires_at = None, last_error = None, failed_at = None, created_at = 0,
     updated_at = 0\<rparr>"

definition example_db :: "unit jobs_db" where
  "example_db = \<lparr>rows = [example_row 1 5, example_row 2 3, example_row 3 4], job_seq = 3\<rparr>"

lemma example_db_ok: "store_ok example_db"
  by (simp add: store_ok_def example_db_def example_row_def row_ok_def)

lemma example_claim:
  "claim ''default'' 2 5 ''w'' 40 10 example_db =
     (map (to_claimed \<circ> claim_row ''w'' 40 10) [example_row 2 3, example_row 3 4],
      example_db\<lparr>rows := [example_row 1 5, claim_row ''w'' 40 10 (example_row 2 3),
                      claim_row ''w'' 40 10 (example_row 3 4)]\<rparr>)"
  by code_simp

subsection \<open>Properties of the table's statements\<close>

text \<open>Claiming jobs never takes more than it was asked for, and never fills a queue past
  its concurrency: the live (unexpired) claims of the queue grow by exactly the number of jobs
  returned, stay within the concurrency unless they were above it already, and those of every
  other queue are unchanged.\<close>

theorem claim_within_concurrency:
  assumes "store_ok db" and "now < lease"
  shows "length (fst (claim q c n runner lease now db)) \<le> n \<and>
    count_where (is_live q now) (rows (snd (claim q c n runner lease now db))) =
      count_where (is_live q now) (rows db) + length (fst (claim q c n runner lease now db)) \<and>
    count_where (is_live q now) (rows (snd (claim q c n runner lease now db))) \<le>
      max c (count_where (is_live q now) (rows db)) \<and>
    (\<forall>q'. q' \<noteq> q \<longrightarrow> count_where (is_live q' now) (rows (snd (claim q c n runner lease now db))) =
      count_where (is_live q' now) (rows db))"
proof -
  have len: "length (fst (claim q c n runner lease now db)) =
      length (due_rows q c n now (rows db))"
    by (simp add: claim_rows_exact[OF assms(1)])
  moreover have "length (due_rows q c n now (rows db)) \<le> n"
    and "length (due_rows q c n now (rows db)) \<le> c - count_where (is_live q now) (rows db)"
    by (simp_all add: length_due_rows)
  ultimately show ?thesis by (auto simp: live_after_claim[OF assms])
qed

theorem claim_within_concurrency_witness:
  "store_ok example_db \<and> length (fst (claim ''default'' 2 5 ''w'' 40 10 example_db)) = 2 \<and>
   length (fst (claim ''default'' 2 5 ''w'' 40 10 example_db)) \<le> 5 \<and>
   count_where (is_live ''default'' 10)
     (rows (snd (claim ''default'' 2 5 ''w'' 40 10 example_db))) \<le> 2"
proof -
  have z: "count_where (is_live ''default'' 10) (rows example_db) = 0" by code_simp
  have "length (fst (claim ''default'' 2 5 ''w'' 40 10 example_db)) = 2"
    by (simp add: example_claim)
  then show ?thesis
    using claim_within_concurrency[OF example_db_ok, of 10 40 "''default''" 2 5 "''w''"]
    by (simp add: z example_db_ok)
qed

text \<open>Claims are oldest-due-first and leave no slot idle: a due job of the queue that a
  claim did not take comes strictly after every job it took, and it is left behind only because
  the claim took all it was asked for or the queue's live claims reached its concurrency.\<close>

theorem claim_oldest_first:
  assumes "store_ok db" and "s \<in> set (rows db)" and "is_due q now s"
    and "job_id s \<notin> cl_id ` set (fst (claim q c n runner lease now db))"
  shows "(\<forall>x. x \<in> set (fst (claim q c n runner lease now db)) \<longrightarrow> claim_order x < due_order s) \<and>
    (length (fst (claim q c n runner lease now db)) = n \<or>
     c \<le> count_where (is_live q now) (rows db) +
          length (fst (claim q c n runner lease now db)))"
proof -
  have k: "jobs.keyed (rows db)" using assms(1) by (rule store_okD)
  have s: "s \<notin> set (due_rows q c n now (rows db))"
    using assms(4) by (auto simp: claimed_ids[OF assms(1)])
  have "\<forall>x. x \<in> set (fst (claim q c n runner lease now db)) \<longrightarrow> claim_order x < due_order s"
    using claimed_before_left[OF k _ assms(2,3) s]
    by (auto simp: claim_rows_exact[OF assms(1)])
  moreover have "length (fst (claim q c n runner lease now db)) =
      min n (c - count_where (is_live q now) (rows db))"
    using left_behind_full[OF assms(2,3) s] by (simp add: claim_rows_exact[OF assms(1)])
  ultimately show ?thesis by (auto simp: min_def)
qed

theorem claim_oldest_first_witness:
  "example_row 1 5 \<in> set (rows example_db) \<and> is_due ''default'' 10 (example_row 1 5) \<and>
   (let x = to_claimed (claim_row ''w'' 40 10 (example_row 2 3)) in
    x \<in> set (fst (claim ''default'' 2 5 ''w'' 40 10 example_db)) \<and>
    claim_order x < due_order (example_row 1 5))"
proof -
  have "to_claimed (claim_row ''w'' 40 10 (example_row 2 3)) \<in>
      set (fst (claim ''default'' 2 5 ''w'' 40 10 example_db))" by (simp add: example_claim)
  moreover
  have "example_row 1 5 \<in> set (rows example_db)" by (simp add: example_db_def)
  moreover have "is_due ''default'' 10 (example_row 1 5)"
    by (simp add: is_due_def example_row_def)
  moreover have "job_id (example_row 1 5) \<notin>
      cl_id ` set (fst (claim ''default'' 2 5 ''w'' 40 10 example_db))"
    by (simp add: example_claim example_row_def)
  ultimately show ?thesis unfolding Let_def using claim_oldest_first[OF example_db_ok] by blast
qed

text \<open>A job is claimed by one claim at a time: whatever claim runs next, for any queue, any
  runner and any clock reading, it returns none of the jobs the first one returned.\<close>

theorem claim_exclusive:
  assumes "store_ok db"
  shows "cl_id ` set (fst (claim q c n w l t db)) \<inter>
    cl_id ` set (fst (claim q' c' n' w' l' t' (snd (claim q c n w l t db)))) = {}"
proof (rule ccontr)
  let ?db' = "snd (claim q c n w l t db)"
  assume "cl_id ` set (fst (claim q c n w l t db)) \<inter>
    cl_id ` set (fst (claim q' c' n' w' l' t' ?db')) \<noteq> {}"
  then obtain r s where r: "r \<in> set (due_rows q c n t (rows db))"
    and s: "s \<in> set (due_rows q' c' n' t' (rows ?db'))" and eq: "job_id r = job_id s"
    using assms by (auto simp: claimed_ids claim_ok)
  have s': "s \<in> set (rows ?db')" "status s = Ready"
    using s due_rows_sub[of q' c' n' t' "rows ?db'"] by (auto simp: is_due_def)
  have "s \<in> set (rows db)" and sn: "s \<notin> set (due_rows q c n t (rows db))"
    using due_after_claim[OF assms s'] by auto
  moreover have "r \<in> set (rows db)" using r due_rows_sub[of q c n t "rows db"] by auto
  ultimately have "r = s" using eq assms by (auto intro: jobs.keyed_unique dest: store_okD)
  with r sn show False by simp
qed

theorem claim_exclusive_witness:
  "cl_id ` set (fst (claim ''default'' 2 5 ''w'' 40 10 example_db)) = {2, 3} \<and>
   {2, 3} \<inter> cl_id ` set (fst (claim ''default'' 9 9 ''v'' 99 50
      (snd (claim ''default'' 2 5 ''w'' 40 10 example_db)))) = {}"
proof -
  have "cl_id ` set (fst (claim ''default'' 2 5 ''w'' 40 10 example_db)) = {2, 3}"
    by (simp add: example_claim example_row_def)
  then show ?thesis
    using claim_exclusive[OF example_db_ok, of "''default''" 2 5 "''w''" 40 10 "''default''" 9 9
        "''v''" 99 50] by simp
qed

text \<open>A runner whose lease expired and was recovered never overwrites what happened next:
  once its job has been taken back, and even after another runner has claimed it again, each of
  its completion statements (delete, reschedule, fail) reports that the claim is lost and
  leaves the table as it is.\<close>

theorem recovered_claim_lost:
  assumes "store_ok db" and "r \<in> set (rows db)" and "job_id r = k" and "expired t r"
    and "db1 = snd (recover k retry e t db)"
    and "db2 = snd (claim q c n w' l' t' db1)" and "w \<noteq> w'"
  shows "delete_job k w db2 = (False, db2) \<and>
    reschedule k w due err reset now db2 = (False, db2) \<and> fail_job k w msg now db2 = (False, db2)"
proof -
  have "\<forall>s \<in> set (rows db1). job_id s = k \<longrightarrow> status s \<noteq> Running"
  proof (intro ballI impI)
    fix s assume s: "s \<in> set (rows db1)" "job_id s = k"
    then obtain s0 where s0: "s0 \<in> set (rows db)"
      and eq: "s = (if recover_where k t s0 then recover_row retry e t s0 else s0)"
      by (auto simp: assms(5) recover_def update_where_def)
    have "job_id s0 = k" using s(2) eq by (auto simp: recover_row_def split: if_splits)
    then have "s0 = r" using assms(1-3) s0 by (auto intro: jobs.keyed_unique dest: store_okD)
    then have "recover_where k t s0" using assms(3,4) by (simp add: recover_where_def)
    then show "status s \<noteq> Running" using eq by (simp add: recover_row_def)
  qed
  then have "\<forall>s \<in> set (rows db2). \<not> held_by k w s"
    using assms(6,7)
    by (auto simp: claim_step update_where_def held_by_def claim_row_def split: if_splits)
  then show ?thesis by (simp add: guarded_noop)
qed

theorem recovered_claim_lost_witness:
  "\<exists>db r db1 db2. store_ok (db :: unit jobs_db) \<and> r \<in> set (rows db) \<and> expired 50 r \<and>
     db1 = snd (recover 2 True ''stopped'' 50 db) \<and>
     db2 = snd (claim ''default'' 2 5 ''v'' 90 50 db1) \<and>
     (\<exists>s \<in> set (rows db2). held_by 2 ''v'' s) \<and>
     delete_job 2 ''w'' db2 = (False, db2)"
proof -
  let ?db = "snd (claim ''default'' 2 5 ''w'' 40 10 example_db)"
  let ?r = "claim_row ''w'' 40 10 (example_row 2 3)"
  let ?db1 = "snd (recover 2 True ''stopped'' 50 ?db)"
  let ?db2 = "snd (claim ''default'' 2 5 ''v'' 90 50 ?db1)"
  have ok: "store_ok ?db" by (rule claim_ok[OF example_db_ok])
  have r: "?r \<in> set (rows ?db)" by (simp add: example_claim)
  have x: "expired 50 ?r" by code_simp
  have "job_id ?r = 2" by code_simp
  then have "delete_job 2 ''w'' ?db2 = (False, ?db2)"
    using recovered_claim_lost[OF ok r _ x refl refl, of 2 "''w''" "''v''"] by simp
  moreover have "\<exists>s \<in> set (rows ?db2). held_by 2 ''v'' s" by code_simp
  ultimately show ?thesis using ok r x by blast
qed

text \<open>A recorded error is the longest prefix of the message that fits in 8 KiB and ends at a
  character boundary; a message within the limit is kept whole.\<close>

theorem truncate_error_spec:
  "length (truncate_error e) \<le> error_limit \<and>
   truncate_error e = take (length (truncate_error e)) e \<and>
   is_char_boundary e (length (truncate_error e)) \<and>
   (\<forall>i. i \<le> min error_limit (length e) \<and> is_char_boundary e i \<longrightarrow> i \<le> length (truncate_error e))"
proof (cases "length e \<le> error_limit")
  case True
  then show ?thesis by (simp add: truncate_error_def is_char_boundary_def)
next
  case False
  have "truncate_end e error_limit \<le> error_limit" by (rule truncate_end_le)
  then have "length (truncate_error e) = truncate_end e error_limit"
    using False by (simp add: truncate_error_def)
  then show ?thesis
    using False truncate_end_le[of e error_limit] truncate_end_boundary[of e error_limit]
      truncate_end_greatest[of _ error_limit e]
    by (auto simp: truncate_error_def)
qed

theorem truncate_error_spec_witness:
  "truncate_error ''busy'' = take (length (truncate_error ''busy'')) ''busy'' \<and>
   4 \<le> length (truncate_error ''busy'')"
proof -
  have "is_char_boundary ''busy'' 4" by (simp add: is_char_boundary_def)
  moreover have "4 \<le> min error_limit (length ''busy'')" by (simp add: error_limit_def)
  ultimately show ?thesis using truncate_error_spec[of "''busy''"] by blast
qed

end
