(* ===== verification/JobRetry.thy ===== *)
theory JobRetry
  imports Prelude
begin

section \<open>Retry policies and retry counters\<close>

text \<open>
  \<^verbatim>\<open>crates/jobs/src/kind.rs\<close> (retry policies, waits, the result of a job) and
  \<^verbatim>\<open>crates/jobs/src/retry.rs\<close> (the per-exception counters kept inside a job's serialized
  arguments), with the decision \<^verbatim>\<open>decide\<close> of \<^verbatim>\<open>crates/jobs/src/runner.rs\<close> that turns a
  result into what becomes of the job.

  \<open>json\<close> is \<^verbatim>\<open>serde_json::Value\<close> (objects keep their order, as the crate's
  \<^verbatim>\<open>preserve_order\<close> feature has it).  Floating-point seconds are exact rationals, so a delay
  is the exact value the \<^verbatim>\<open>f64\<close> expression approximates, rounded to nanoseconds;
  \<^verbatim>\<open>Duration::from_secs_f64\<close> panics outside \<open>[0, 2\<^sup>6\<^sup>4)\<close> seconds and so does its model.  The error
  type \<open>'e\<close> is \<^verbatim>\<open>anyhow::Error\<close>; \<open>describe\<close> formats it.
\<close>

subsection \<open>Retry counters\<close>

abbreviation u32_max :: nat where
  "u32_max \<equiv> 4294967295"

definition saturating_add :: "nat \<Rightarrow> nat \<Rightarrow> nat" where
  "saturating_add a b = min u32_max (a + b)"

definition retry_key :: string where
  "retry_key = ''_campfire_retry_metadata_v1''"

record retry_state =
  rs_arguments :: json
  rs_counts :: "(string \<times> nat) list"

text \<open>serde's derived \<^verbatim>\<open>Deserialize\<close> for \<^verbatim>\<open>State\<close>: an object with both fields (others are
  ignored), or an array of exactly the two fields; a count is an integer that fits \<^verbatim>\<open>u32\<close>.\<close>

fun counts_from_entries :: "(string \<times> json) list \<Rightarrow> (string \<times> nat) list option" where
  "counts_from_entries [] = Some []"
| "counts_from_entries ((k, JInt n) # es) =
     (if 0 \<le> n \<and> n \<le> int u32_max
      then map_option (btree_insert k (nat n)) (counts_from_entries es) else None)"
| "counts_from_entries (_ # es) = None"

fun counts_from_json :: "json \<Rightarrow> (string \<times> nat) list option" where
  "counts_from_json (JObj es) = counts_from_entries es"
| "counts_from_json _ = None"

fun state_from_json :: "json \<Rightarrow> retry_state option" where
  "state_from_json (JObj es) =
     (case map_of es ''arguments'' of
        None \<Rightarrow> None
      | Some a \<Rightarrow>
         (case map_of es ''counts'' of
            None \<Rightarrow> None
          | Some c \<Rightarrow> map_option (\<lambda>m. \<lparr>rs_arguments = a, rs_counts = m\<rparr>) (counts_from_json c)))"
| "state_from_json (JArr [a, c]) =
     map_option (\<lambda>m. \<lparr>rs_arguments = a, rs_counts = m\<rparr>) (counts_from_json c)"
| "state_from_json _ = None"

definition state_from_value :: "json \<Rightarrow> retry_state" where
  "state_from_value v =
     (case (case v of JObj [(k, m)] \<Rightarrow> if k = retry_key then state_from_json m else None
                    | _ \<Rightarrow> None) of
        Some s \<Rightarrow> s
      | None \<Rightarrow> \<lparr>rs_arguments = v, rs_counts = []\<rparr>)"

definition increment :: "string \<Rightarrow> retry_state \<Rightarrow> nat \<times> retry_state" where
  "increment k s =
     (let c = saturating_add (case map_of (rs_counts s) k of None \<Rightarrow> 0 | Some n \<Rightarrow> n) 1
      in (c, s\<lparr>rs_counts := btree_insert k c (rs_counts s)\<rparr>))"

definition encode_state :: "retry_state \<Rightarrow> json" where
  "encode_state s = JObj [(retry_key,
     JObj [(''arguments'', rs_arguments s),
           (''counts'', JObj (map (\<lambda>(k, n). (k, JInt (int n))) (rs_counts s)))])]"

definition interrupted_executions :: "retry_state \<Rightarrow> nat \<Rightarrow> nat" where
  "interrupted_executions s executions = executions - fold (\<lambda>n acc. saturating_add acc n) (map snd (rs_counts s)) 0"

definition retry_arguments :: "json \<Rightarrow> json" where
  "retry_arguments v = rs_arguments (state_from_value v)"

subsection \<open>Waits and policies\<close>

datatype wait =
  PolynomiallyLonger rat
| Fixed duration rat
| Custom "nat \<Rightarrow> duration"

definition from_secs :: "rat \<Rightarrow> duration eval_result" where
  "from_secs x = (if x < 0 \<or> 2 ^ 64 \<le> x then Panics else Returns (nat (round (x * 10 ^ 9))))"

definition jittered :: "rat \<Rightarrow> rat \<Rightarrow> rat \<Rightarrow> rat" where
  "jittered random seconds jitter = seconds + random * seconds * jitter"

fun wait_delay :: "wait \<Rightarrow> nat \<Rightarrow> rat \<Rightarrow> duration eval_result" where
  "wait_delay (PolynomiallyLonger jitter) executions random =
     from_secs (jittered random (of_nat executions ^ 4) jitter + 2)"
| "wait_delay (Fixed w jitter) executions random =
     from_secs (jittered random (of_nat w / 10 ^ 9) jitter)"
| "wait_delay (Custom delay) executions random = Returns (delay executions)"

record 'e retry_policy =
  pol_attempts :: nat
  pol_wait :: wait
  pol_retry_on :: "'e \<Rightarrow> bool"
  pol_timeout :: "duration option"

definition retry_after_cap :: duration where
  "retry_after_cap = 60 * 60 * 10 ^ 9"

definition with_attempts :: "nat \<Rightarrow> 'e retry_policy \<Rightarrow> 'e retry_policy" where
  "with_attempts n p = p\<lparr>pol_attempts := max n 1\<rparr>"

definition retry_delay :: "'e retry_policy \<Rightarrow> nat \<Rightarrow> duration option \<Rightarrow> rat
    \<Rightarrow> duration option eval_result" where
  "retry_delay p executions retry_after random =
     (if max (pol_attempts p) 1 \<le> executions then Returns None
      else case retry_after of
             Some d \<Rightarrow> Returns (Some (min d retry_after_cap))
           | None \<Rightarrow> eval_map Some (wait_delay (pol_wait p) executions random))"

subsection \<open>Transient errors\<close>

text \<open>The causes an error's chain can hold, as \<^verbatim>\<open>is_transient\<close> tells them apart: a Tokio
  timeout, an I/O error (timed out or not), a \<^verbatim>\<open>campfire_db::Error\<close> (holding a SQLite error or
  not), a SQLite error of its own, anything else.\<close>

datatype sqlite_code = DatabaseBusy | DatabaseLocked | OtherCode
datatype sqlite_error = SqliteFailure sqlite_code | OtherSqlite
datatype cause =
  Elapsed | IoError bool | DbSqlite sqlite_error | DbOther | Rusqlite sqlite_error | OtherCause

fun sqlite_of :: "cause \<Rightarrow> sqlite_error option" where
  "sqlite_of (DbSqlite e) = Some e"
| "sqlite_of (Rusqlite e) = Some e"
| "sqlite_of _ = None"

definition cause_transient :: "cause \<Rightarrow> bool" where
  "cause_transient c =
     (case c of
        Elapsed \<Rightarrow> True
      | IoError timed_out \<Rightarrow> timed_out
      | _ \<Rightarrow> (case sqlite_of c of
                Some (SqliteFailure code) \<Rightarrow> code = DatabaseBusy \<or> code = DatabaseLocked
              | _ \<Rightarrow> False))"

definition is_transient :: "('e \<Rightarrow> cause list) \<Rightarrow> 'e \<Rightarrow> bool" where
  "is_transient chain e = list_ex cause_transient (chain e)"

definition application_job :: "('e \<Rightarrow> cause list) \<Rightarrow> 'e retry_policy" where
  "application_job chain = \<lparr>pol_attempts = 5, pol_wait = PolynomiallyLonger (15 / 100),
     pol_retry_on = is_transient chain, pol_timeout = None\<rparr>"

definition no_retries :: "('e \<Rightarrow> cause list) \<Rightarrow> 'e retry_policy" where
  "no_retries chain = with_attempts 1 (application_job chain)"

subsection \<open>Results and decisions\<close>

datatype outcome = Done | Again duration

datatype 'e job_error =
  JobError 'e
| JobRetry 'e "duration option"
| RetryGroup 'e string nat bool
| Discard 'e
| JobFail 'e

type_synonym 'e job_result = "'e job_error + outcome"

datatype decision =
  Delete
| Reschedule duration "string option" bool
| FailFor string

fun error_of :: "'e job_error \<Rightarrow> 'e" where
  "error_of (JobError e) = e"
| "error_of (JobRetry e _) = e"
| "error_of (RetryGroup e _ _ _) = e"
| "error_of (Discard e) = e"
| "error_of (JobFail e) = e"

definition retry_or_fail :: "string \<Rightarrow> decision \<Rightarrow> duration option \<Rightarrow> decision" where
  "retry_or_fail msg otherwise d =
     (case d of Some w \<Rightarrow> Reschedule w (Some msg) False | None \<Rightarrow> otherwise)"

fun decide :: "('e \<Rightarrow> string) \<Rightarrow> 'e retry_policy \<Rightarrow> nat \<Rightarrow> 'e job_result \<Rightarrow> rat
    \<Rightarrow> decision eval_result" where
  "decide describe p executions (Inr Done) random = Returns Delete"
| "decide describe p executions (Inr (Again w)) random = Returns (Reschedule w None True)"
| "decide describe p executions (Inl (Discard e)) random = Returns Delete"
| "decide describe p executions (Inl (JobFail e)) random = Returns (FailFor (describe e))"
| "decide describe p executions (Inl (RetryGroup e key n discard_exhausted)) random =
     eval_map (retry_or_fail (describe e) (if discard_exhausted then Delete else FailFor (describe e)))
       (retry_delay (with_attempts n p) executions None random)"
| "decide describe p executions (Inl (JobRetry e retry_after)) random =
     eval_map (retry_or_fail (describe e) (FailFor (describe e)))
       (retry_delay p executions retry_after random)"
| "decide describe p executions (Inl (JobError e)) random =
     (if pol_retry_on p e
      then eval_map (retry_or_fail (describe e) (FailFor (describe e)))
             (retry_delay p executions None random)
      else Returns (FailFor (describe e)))"

subsection \<open>The ordered map of counters\<close>

definition counts_ok :: "(string \<times> nat) list \<Rightarrow> bool" where
  "counts_ok m \<longleftrightarrow> sorted_wrt (<) (map fst m) \<and> (\<forall>e \<in> set m. snd e \<le> u32_max)"

lemma btree_insert_ok: "counts_ok m \<Longrightarrow> v \<le> u32_max \<Longrightarrow> counts_ok (btree_insert k v m)"
proof -
  assume ok: "counts_ok m" and v: "v \<le> u32_max"
  have "set (btree_insert k v m) \<subseteq> insert (k, v) (set m)"
    by (induction k v m rule: btree_insert.induct) auto
  with ok v btree_insert_sorted[of m k v] show ?thesis by (auto simp: counts_ok_def)
qed

lemma counts_from_entries_encoded:
  "counts_ok m \<Longrightarrow> counts_from_entries (map (\<lambda>(k, n). (k, JInt (int n))) m) = Some m"
proof (induction m)
  case (Cons e m)
  obtain k n where e: "e = (k, n)" by force
  from Cons.prems have "counts_ok m" and lt: "\<forall>k' \<in> fst ` set m. k < k'" and "n \<le> u32_max"
    by (auto simp: counts_ok_def e)
  then show ?case using Cons.IH btree_insert_less[OF lt] by (simp add: e)
qed simp

lemma counts_from_entries_ok: "counts_from_entries es = Some m \<Longrightarrow> counts_ok m"
  by (induction es arbitrary: m rule: counts_from_entries.induct)
     (auto simp: counts_ok_def intro!: btree_insert_ok[unfolded counts_ok_def] split: if_splits)

lemma state_from_value_ok: "counts_ok (rs_counts (state_from_value v))"
proof -
  have c: "counts_from_json c = Some m \<Longrightarrow> counts_ok m" for c m
    by (cases c) (auto intro: counts_from_entries_ok)
  have "state_from_json j = Some s \<Longrightarrow> counts_ok (rs_counts s)" for j s
    by (induction j rule: state_from_json.induct) (auto dest: c split: option.splits)
  then show ?thesis
    by (auto simp: state_from_value_def counts_ok_def split: json.splits list.splits option.splits)
qed

lemma increment_ok: "counts_ok (rs_counts s) \<Longrightarrow> counts_ok (rs_counts (snd (increment k s)))"
  by (simp add: increment_def Let_def btree_insert_ok saturating_add_def)

text \<open>The saturating fold over the counters is their sum, capped.\<close>

lemma fold_saturating:
  "acc \<le> u32_max \<Longrightarrow>
   fold (\<lambda>n acc. saturating_add acc n) ns acc = min u32_max (acc + sum_list ns)"
proof (induction ns arbitrary: acc)
  case (Cons n ns)
  have "saturating_add acc n \<le> u32_max" by (simp add: saturating_add_def)
  from Cons.IH[OF this] show ?case by (auto simp: saturating_add_def min_def)
qed (simp add: min_def)

lemma interrupted_eq:
  "interrupted_executions s t = t - min u32_max (sum_list (map snd (rs_counts s)))"
  using fold_saturating[of 0 "map snd (rs_counts s)"] by (simp add: interrupted_executions_def)

lemma sum_btree_insert:
  fixes m :: "(string \<times> nat) list"
  shows "sorted_wrt (<) (map fst m) \<Longrightarrow>
   sum_list (map snd (btree_insert k v m)) + (case map_of m k of None \<Rightarrow> 0 | Some n \<Rightarrow> n) =
   sum_list (map snd m) + v"
proof (induction k v m rule: btree_insert.induct)
  case (2 k v k' v' m)
  have "k < k' \<Longrightarrow> map_of m k = None"
    using "2.prems" by (force simp: map_of_eq_None_iff)
  with 2 show ?case by (auto split: option.splits)
qed simp

subsection \<open>Delays\<close>

lemma from_secs_mono:
  "from_secs x = Returns a \<Longrightarrow> from_secs y = Returns b \<Longrightarrow> x \<le> y \<Longrightarrow> a \<le> b"
  by (auto simp: from_secs_def intro!: nat_mono round_mono mult_right_mono split: if_splits)

lemma from_secs_of_nat: "n < 2 ^ 64 \<Longrightarrow> from_secs (of_nat n) = Returns (n * 10 ^ 9)"
proof -
  assume n: "n < 2 ^ 64"
  have "(of_nat n :: rat) < of_nat (2 ^ 64)" using n by (simp only: of_nat_less_iff)
  then have "\<not> (2 ^ 64 \<le> (of_nat n :: rat))" by simp
  moreover have "nat (round (of_nat n * 10 ^ 9 :: rat)) = n * 10 ^ 9"
  proof -
    have "(of_nat n * 10 ^ 9 :: rat) = of_int (int (n * 10 ^ 9))" by simp
    then show ?thesis by (simp only: round_of_int nat_int)
  qed
  ultimately show ?thesis by (simp add: from_secs_def)
qed

lemma retry_delay_None_iff:
  "retry_delay p n ra random = Returns None \<longleftrightarrow> max (pol_attempts p) 1 \<le> n"
  by (auto simp: retry_delay_def eval_map_eq_Returns split: option.splits)

lemma retry_delay_Some:
  "retry_delay p n ra random = Returns (Some w) \<Longrightarrow> n < max (pol_attempts p) 1 \<and>
     (case ra of Some d \<Rightarrow> w = min d retry_after_cap
      | None \<Rightarrow> wait_delay (pol_wait p) n random = Returns w)"
  by (auto simp: retry_delay_def eval_map_eq_Returns split: option.splits if_splits)

lemma retry_or_fail_Reschedule:
  "Reschedule w err reset = retry_or_fail msg otherwise d \<Longrightarrow>
     d = Some w \<and> err = Some msg \<and> \<not> reset \<or> d = None \<and> otherwise = Reschedule w err reset"
  by (auto simp: retry_or_fail_def split: option.splits)

lemma jittered_bounds:
  assumes "0 \<le> random" "random < 1" "0 \<le> x" "0 \<le> j"
  shows "x \<le> jittered random x j" and "jittered random x j \<le> x * (1 + j)"
proof -
  have "0 \<le> random * x * j" using assms by simp
  then show "x \<le> jittered random x j" by (simp add: jittered_def)
  have "random * (x * j) \<le> 1 * (x * j)" using assms by (intro mult_right_mono) auto
  then show "jittered random x j \<le> x * (1 + j)" by (simp add: jittered_def algebra_simps)
qed

text \<open>Below 60000 executions the polynomial wait stays inside the range of a \<^verbatim>\<open>Duration\<close>.\<close>

lemma polynomial_delay_total:
  assumes "0 \<le> random" "random < 1" "n \<le> 60000"
  shows "wait_delay (PolynomiallyLonger (15 / 100)) n random \<noteq> Panics"
proof -
  let ?x = "of_nat n ^ 4 :: rat"
  have "(of_nat n :: rat) \<le> of_nat 60000" using assms(3) by (simp only: of_nat_le_iff)
  then have n: "(of_nat n :: rat) \<le> 60000" by simp
  then have x: "?x \<le> 60000 ^ 4" by (rule power_mono) simp
  have x0: "0 \<le> ?x" and j0: "(0::rat) \<le> 15 / 100" by simp_all
  note b = jittered_bounds[OF assms(1,2) x0 j0]
  have "0 \<le> jittered random ?x (15 / 100) + 2" using b(1) x0 by linarith
  moreover have "jittered random ?x (15 / 100) + 2 < 2 ^ 64"
  proof -
    have "jittered random ?x (15 / 100) \<le> ?x * (1 + 15 / 100)" by (rule b(2))
    also have "\<dots> \<le> 60000 ^ 4 * (1 + 15 / 100)" by (intro mult_right_mono x) simp
    finally show ?thesis by simp
  qed
  ultimately show ?thesis by (simp add: from_secs_def)
qed

subsection \<open>Properties of retries\<close>

text \<open>A job's retry counters survive serialization: reading back the wrapped payload gives
  the same counters and the same original arguments, so a worker of a later process continues
  with the budget the earlier one left.\<close>

theorem retry_state_roundtrip:
  assumes "counts_ok (rs_counts s)"
  shows "state_from_value (encode_state s) = s"
  using assms
  by (simp add: state_from_value_def encode_state_def retry_key_def counts_from_entries_encoded)

theorem retry_state_roundtrip_witness:
  "state_from_value (encode_state (snd (increment ''Net::ReadTimeout''
     \<lparr>rs_arguments = JArr [JInt 7], rs_counts = [(''Faraday'', 2)]\<rparr>))) =
   \<lparr>rs_arguments = JArr [JInt 7], rs_counts = [(''Faraday'', 2), (''Net::ReadTimeout'', 1)]\<rparr>"
proof -
  let ?s = "\<lparr>rs_arguments = JArr [JInt 7], rs_counts = [(''Faraday'', 2), (''Net::ReadTimeout'', 1)]\<rparr>"
  have "snd (increment ''Net::ReadTimeout''
     \<lparr>rs_arguments = JArr [JInt 7], rs_counts = [(''Faraday'', 2)]\<rparr>) = ?s"
    by (simp add: increment_def saturating_add_def less_char_def)
  moreover have "counts_ok (rs_counts ?s)" by (simp add: counts_ok_def less_char_def)
  ultimately show ?thesis using retry_state_roundtrip[of ?s] by simp
qed

text \<open>An exception handler's counter grows by one (up to the 32-bit limit) and no other
  counter or argument changes; and an execution that ended in a classified exception is not
  counted a second time as a lost process: the executions attributed to process loss stay what
  they were.\<close>

theorem increment_accounting:
  assumes "counts_ok (rs_counts s)"
  shows "rs_arguments (snd (increment k s)) = rs_arguments s \<and>
    map_of (rs_counts (snd (increment k s))) = (map_of (rs_counts s))(k \<mapsto> fst (increment k s)) \<and>
    fst (increment k s) = min u32_max (Suc (case map_of (rs_counts s) k of None \<Rightarrow> 0 | Some n \<Rightarrow> n)) \<and>
    (sum_list (map snd (rs_counts s)) < u32_max \<longrightarrow>
      interrupted_executions (snd (increment k s)) (Suc n) = interrupted_executions s n)"
proof -
  let ?old = "case map_of (rs_counts s) k of None \<Rightarrow> 0 | Some n \<Rightarrow> n"
  have sorted: "sorted_wrt (<) (map fst (rs_counts s))" using assms by (simp add: counts_ok_def)
  have inc: "increment k s = (saturating_add ?old 1,
      s\<lparr>rs_counts := btree_insert k (saturating_add ?old 1) (rs_counts s)\<rparr>)"
    by (simp add: increment_def Let_def)
  have "interrupted_executions (snd (increment k s)) (Suc n) = interrupted_executions s n"
    if small: "sum_list (map snd (rs_counts s)) < u32_max"
  proof -
    have "?old \<le> sum_list (map snd (rs_counts s))"
      by (force split: option.splits dest!: map_of_SomeD intro!: member_le_sum_list)
    then have "saturating_add ?old 1 = Suc ?old" using small by (simp add: saturating_add_def)
    then have "sum_list (map snd (rs_counts (snd (increment k s)))) =
        Suc (sum_list (map snd (rs_counts s)))"
      using sum_btree_insert[OF sorted, of k "Suc ?old"] by (simp add: inc)
    moreover have "min u32_max (Suc (sum_list (map snd (rs_counts s)))) =
        Suc (sum_list (map snd (rs_counts s)))"
      and "min u32_max (sum_list (map snd (rs_counts s))) = sum_list (map snd (rs_counts s))"
      using small by simp_all
    ultimately show ?thesis by (simp only: interrupted_eq diff_Suc_Suc)
  qed
  then show ?thesis
    by (simp add: inc map_of_btree_insert[OF sorted] saturating_add_def)
qed

theorem increment_accounting_witness:
  "fst (increment ''a'' \<lparr>rs_arguments = JNull, rs_counts = [(''a'', 2)]\<rparr>) = 3 \<and>
   interrupted_executions (snd (increment ''a'' \<lparr>rs_arguments = JNull, rs_counts = [(''a'', 2)]\<rparr>)) 5 = 2"
proof -
  let ?s = "\<lparr>rs_arguments = JNull, rs_counts = [(''a'', 2)]\<rparr>"
  have "counts_ok (rs_counts ?s)" by (simp add: counts_ok_def)
  moreover have "interrupted_executions ?s 4 = 2" by (simp add: interrupted_eq)
  ultimately show ?thesis using increment_accounting[of ?s "''a''" 4] by simp
qed

lemma decide_Reschedule:
  assumes "decide describe p n res random = Returns (Reschedule w err reset)"
  shows "(if reset then res = Inr (Again w) \<and> err = None
     else \<exists>e. res = Inl e \<and> err = Some (describe (error_of e)) \<and>
       n < (case e of RetryGroup _ _ m _ \<Rightarrow> max m 1 | _ \<Rightarrow> max (pol_attempts p) 1) \<and>
       (case e of JobRetry _ (Some d) \<Rightarrow> w = min d retry_after_cap
        | _ \<Rightarrow> wait_delay (pol_wait p) n random = Returns w))"
proof (cases res)
  case (Inl e)
  show ?thesis
    using assms unfolding Inl
    by (cases e)
       (auto simp: eval_map_eq_Returns with_attempts_def dest!: retry_or_fail_Reschedule
          retry_delay_Some split: if_splits option.splits)
next
  case (Inr out)
  show ?thesis using assms unfolding Inr by (cases out) auto
qed

text \<open>What a retry may be: a job goes back to its queue with its attempts kept only after an
  error, recording that error, and only while the budget that governs the error (the policy's
  attempts, or the exception group's own) exceeds the executions so far; its attempts are reset
  only when the job itself asked to run again.\<close>

theorem decide_retry_budget:
  assumes "decide describe p n res random = Returns (Reschedule w err reset)"
  shows "(if reset then res = Inr (Again w) \<and> err = None
     else \<exists>e. res = Inl e \<and> err = Some (describe (error_of e)) \<and>
       n < (case e of RetryGroup _ _ m _ \<Rightarrow> max m 1 | _ \<Rightarrow> max (pol_attempts p) 1) \<and>
       (case e of JobRetry _ (Some d) \<Rightarrow> w = min d retry_after_cap
        | _ \<Rightarrow> wait_delay (pol_wait p) n random = Returns w))"
  using assms by (rule decide_Reschedule)

theorem decide_retry_budget_witness:
  "decide (\<lambda>_. ''busy'') (application_job (\<lambda>_. [Elapsed])) 2 (Inl (JobError ())) 0 =
     Returns (Reschedule 18000000000 (Some ''busy'') False) \<and>
   (2::nat) < max (pol_attempts (application_job (\<lambda>_::unit. [Elapsed]))) 1"
proof -
  have d: "decide (\<lambda>_. ''busy'') (application_job (\<lambda>_. [Elapsed])) 2 (Inl (JobError ())) 0 =
     Returns (Reschedule 18000000000 (Some ''busy'') False)"
    using from_secs_of_nat[of 18]
    by (simp add: application_job_def is_transient_def cause_transient_def retry_delay_def
        jittered_def retry_or_fail_def)
  show ?thesis using decide_retry_budget[OF d] d by simp
qed

text \<open>The default policy always decides: with a jitter draw in \<open>[0, 1)\<close> and exception-group
  budgets of at most 60000, the computed delay never leaves the range of a duration, so the
  decision never panics.\<close>

theorem application_job_decides:
  assumes "0 \<le> random" and "random < 1"
    and "\<And>e k m x. res = Inl (RetryGroup e k m x) \<Longrightarrow> m \<le> 60000"
  shows "decide describe (application_job chain) n res random \<noteq> Panics"
proof -
  have "retry_delay (with_attempts m (application_job chain)) n ra random \<noteq> Panics"
    if "m \<le> 60000" for m ra
    using that assms(1,2) polynomial_delay_total[of random n]
    by (auto simp: retry_delay_def with_attempts_def application_job_def split: option.splits)
  note this[of 5] and group = this
  then have five: "retry_delay (application_job chain) n ra random \<noteq> Panics" for ra
    by (simp add: with_attempts_def application_job_def)
  show ?thesis
    using assms(3) five group
    by (cases "(describe, application_job chain, n, res, random)" rule: decide.cases) auto
qed

theorem application_job_decides_witness:
  "decide (\<lambda>_. ''x'') (application_job (\<lambda>_. [Elapsed])) 4 (Inl (JobError ())) (1 / 2) \<noteq> Panics"
  by (rule application_job_decides) simp_all

end
