(* ===== verification/JobRunner.thy ===== *)
theory JobRunner
  imports JobStore JobRetry
begin

section \<open>Queues, handlers and the runner\<close>

text \<open>
  \<^verbatim>\<open>crates/jobs/src/queue.rs\<close> (routing and enqueueing), \<^verbatim>\<open>crates/jobs/src/registry.rs\<close>
  (decoding a job's payload), \<^verbatim>\<open>crates/jobs/src/runner.rs\<close> (claiming, performing, recording
  the outcome, heartbeats, recovery and shutdown) and \<^verbatim>\<open>crates/jobs/src/inspect.rs\<close> (the
  operator's view).

  What is not in the repository is a parameter: \<open>parse\<close> and \<open>print\<close> are serde's reader and
  writer of JSON text (type \<open>'a\<close>), \<open>mk_error\<close> and \<open>describe\<close> build and format an
  \<^verbatim>\<open>anyhow::Error\<close>, and a handler is known by how its run ends (\<open>handler_run\<close>).  A transaction
  works on the pair of the job table and the rest of the database (\<open>'w\<close>), and is \<open>None\<close>
  when it fails and is rolled back.

  Each asynchronous loop of the runner is the function of one iteration; the system of several
  runners over one table is the step relation \<open>job_step\<close> of theory \<open>JobSystem\<close>.
\<close>

subsection \<open>Kinds and the registry\<close>

record ('e, 'w) kind =
  kd_queue :: string
  kd_version :: nat
  kd_policy :: "'e retry_policy"
  kd_exhausted :: bool
  kd_exhausted_in :: "(json \<Rightarrow> nat \<Rightarrow> 'w \<Rightarrow> 'w option) option"

type_synonym ('e, 'w) registry = "(string \<times> ('e, 'w) kind) list"

definition registry_get :: "('e, 'w) registry \<Rightarrow> string \<Rightarrow> ('e, 'w) kind option" where
  "registry_get reg cls = map_of reg cls"

text \<open>\<^verbatim>\<open>Registry::register\<close> panics on a class registered twice.\<close>

definition register :: "string \<Rightarrow> ('e, 'w) kind \<Rightarrow> ('e, 'w) registry \<Rightarrow> ('e, 'w) registry eval_result" where
  "register cls k reg = (if map_of reg cls = None then Returns ((cls, k) # reg) else Panics)"

definition decode :: "(string \<Rightarrow> 'e) \<Rightarrow> (nat \<Rightarrow> json \<Rightarrow> string + json) \<Rightarrow> (json \<Rightarrow> string + 'j)
    \<Rightarrow> string \<Rightarrow> nat \<Rightarrow> json \<Rightarrow> nat \<Rightarrow> 'e job_error + 'j" where
  "decode mk_error upgrade deserialize cls current args version =
     (case (if version = current then Inr args else upgrade version args) of
        Inl e \<Rightarrow> Inl (Discard (mk_error (cls @ '': '' @ e)))
      | Inr a \<Rightarrow>
         (case deserialize a of
            Inl e \<Rightarrow> Inl (Discard (mk_error (cls @ '' arguments don't deserialize: '' @ e)))
          | Inr j \<Rightarrow> Inr j))"

subsection \<open>Enqueueing\<close>

record queue_config =
  qc_name :: string
  qc_concurrency :: nat

definition queue_config_new :: "string \<Rightarrow> nat \<Rightarrow> queue_config" where
  "queue_config_new name concurrency = \<lparr>qc_name = name, qc_concurrency = max concurrency 1\<rparr>"

record runner_config =
  rc_queues :: "queue_config list"
  rc_lease :: duration
  rc_heartbeat :: duration
  rc_poll :: duration
  rc_recovery :: duration

definition runner_config_new :: "queue_config list \<Rightarrow> runner_config" where
  "runner_config_new queues = \<lparr>rc_queues = queues, rc_lease = 30 * 10 ^ 9,
     rc_heartbeat = 10 * 10 ^ 9, rc_poll = 5 * 10 ^ 9, rc_recovery = 15 * 10 ^ 9\<rparr>"

record route =
  rt_queue :: string
  rt_version :: nat

record job_queue =
  jq_routes :: "string \<rightharpoonup> route"
  jq_wakers :: "string list"

definition unregistered_queue :: string where
  "unregistered_queue = ''default''"

text \<open>\<^verbatim>\<open>JobQueue::new\<close> fails (\<open>None\<close>) when a class runs on a queue that has no workers.\<close>

definition job_queue_new :: "('e, 'w) registry \<Rightarrow> runner_config \<Rightarrow> job_queue option" where
  "job_queue_new reg cfg =
     (let wakers = map qc_name (rc_queues cfg) in
      if list_all (\<lambda>(cls, k). kd_queue k \<in> set wakers) reg
      then Some \<lparr>jq_routes = map_of (map (\<lambda>(cls, k).
                    (cls, \<lparr>rt_queue = kd_queue k, rt_version = kd_version k\<rparr>)) reg),
                 jq_wakers = wakers\<rparr>
      else None)"

definition route_for :: "job_queue \<Rightarrow> string \<Rightarrow> route" where
  "route_for q cls =
     (case jq_routes q cls of
        Some r \<Rightarrow> r
      | None \<Rightarrow> \<lparr>rt_queue = unregistered_queue, rt_version = 1\<rparr>)"

record job_request =
  req_class :: string
  req_arguments :: json
  req_wait :: "duration option"

definition enqueue :: "(json \<Rightarrow> 'a) \<Rightarrow> job_queue \<Rightarrow> job_request \<Rightarrow> timestamp \<Rightarrow> 'a jobs_db
    \<Rightarrow> int \<times> 'a jobs_db" where
  "enqueue print q req now db =
     (let r = route_for q (req_class req);
          due = (case req_wait req of Some w \<Rightarrow> since now (signed w) | None \<Rightarrow> now)
      in insert_job \<lparr>nj_queue = rt_queue r, nj_class = req_class req,
           nj_arguments = print (req_arguments req), nj_version = rt_version r,
           nj_run_at = due\<rparr> now db)"

definition release_held :: "('a \<Rightarrow> string \<Rightarrow> int \<Rightarrow> bool) \<Rightarrow> job_queue \<Rightarrow> string \<Rightarrow> string \<Rightarrow> int
    \<Rightarrow> timestamp \<Rightarrow> 'a jobs_db \<Rightarrow> nat \<times> 'a jobs_db" where
  "release_held json_extract_eq q cls argument v now db =
     make_due json_extract_eq (rt_queue (route_for q cls)) cls (''$.'' @ argument) v now db"

subsection \<open>Claiming\<close>

definition runner_claim :: "string \<Rightarrow> runner_config \<Rightarrow> queue_config \<Rightarrow> nat \<Rightarrow> timestamp \<Rightarrow> 'a jobs_db
    \<Rightarrow> ('a claimed_job list \<times> timestamp option) \<times> 'a jobs_db" where
  "runner_claim runner cfg q free now db =
     (let (claimed, db') = claim (qc_name q) (qc_concurrency q) free runner
                             (since now (signed (rc_lease cfg))) now db
      in ((claimed, next_run_at (qc_name q) db'), db'))"

definition until :: "timestamp \<Rightarrow> timestamp \<Rightarrow> duration" where
  "until due now = nat (max 0 (due - now)) * 1000"

text \<open>One pass of \<^verbatim>\<open>queue_loop\<close>: with free slots it claims, marks each claimed job as being
  performed, and sleeps until the next job is due when it could not fill its slots; without
  free slots it only sleeps; when the claiming write fails (\<open>write_ok\<close> is false) it sleeps at
  most a second.  \<open>running\<close> is the number of the queue's jobs being performed.\<close>

definition queue_pass :: "bool \<Rightarrow> string \<Rightarrow> runner_config \<Rightarrow> queue_config \<Rightarrow> nat \<Rightarrow> int set
    \<Rightarrow> timestamp \<Rightarrow> timestamp \<Rightarrow> 'a jobs_db \<Rightarrow> 'a claimed_job list \<times> int set \<times> duration \<times> 'a jobs_db" where
  "queue_pass write_ok runner cfg q running performing now clock db =
     (let free = qc_concurrency q - running in
      if free = 0 then ([], performing, rc_poll cfg, db)
      else if \<not> write_ok then ([], performing, min (rc_poll cfg) (10 ^ 9), db)
      else (let ((claimed, next), db') = runner_claim runner cfg q free now db;
                performing' = performing \<union> cl_id ` set claimed;
                wait = (if length claimed = free then rc_poll cfg
                        else case next of None \<Rightarrow> rc_poll cfg
                                        | Some due \<Rightarrow> min (rc_poll cfg) (until due clock))
            in (claimed, performing', wait, db')))"

subsection \<open>Performing\<close>

record execution =
  ex_id :: int
  ex_executions :: nat
  ex_enqueued_at :: timestamp
  ex_scheduled_at :: timestamp

text \<open>How a handler's run ends: after how long, and with a result or a panic.\<close>

datatype 'e handler_end = Finished "'e job_result" | Panicked string
datatype 'e handler_run = Ends duration "'e handler_end"

definition finished :: "(string \<Rightarrow> 'e) \<Rightarrow> 'e \<Rightarrow> duration option \<Rightarrow> 'e handler_run \<Rightarrow> 'e job_result" where
  "finished mk_error elapsed_error timeout run =
     (case run of Ends took e \<Rightarrow>
       (case (case timeout of Some t \<Rightarrow> took \<le> t | None \<Rightarrow> True) of
          True \<Rightarrow> (case e of Finished r \<Rightarrow> r
                           | Panicked msg \<Rightarrow> Inl (JobFail (mk_error (''panicked: '' @ msg))))
        | False \<Rightarrow> Inl (JobRetry elapsed_error None)))"

definition perform :: "('a \<Rightarrow> string + json) \<Rightarrow> (string \<Rightarrow> 'e) \<Rightarrow> 'e \<Rightarrow> ('e, 'w) registry
    \<Rightarrow> (string \<Rightarrow> json \<Rightarrow> nat \<Rightarrow> execution \<Rightarrow> 'e handler_run) \<Rightarrow> 'a claimed_job \<Rightarrow> 'e job_result" where
  "perform parse mk_error elapsed_error reg run job =
     (case registry_get reg (cl_class job) of
        None \<Rightarrow> Inl (JobFail (mk_error (''no handler is registered for '' @ cl_class job)))
      | Some k \<Rightarrow>
         (case parse (cl_arguments job) of
            Inl e \<Rightarrow> Inl (Discard (mk_error (cl_class job @ '' arguments aren't JSON: '' @ e)))
          | Inr v \<Rightarrow> finished mk_error elapsed_error (pol_timeout (kd_policy k))
              (run (cl_class job) (retry_arguments v) (cl_version job)
                 \<lparr>ex_id = cl_id job, ex_executions = cl_attempts job,
                  ex_enqueued_at = cl_created_at job, ex_scheduled_at = cl_run_at job\<rparr>)))"

definition perform_policy :: "('e \<Rightarrow> cause list) \<Rightarrow> ('e, 'w) registry \<Rightarrow> string \<Rightarrow> 'e retry_policy" where
  "perform_policy chain reg cls =
     (case registry_get reg cls of None \<Rightarrow> no_retries chain | Some k \<Rightarrow> kd_policy k)"

subsection \<open>Recording the outcome\<close>

definition parse_or_null :: "('a \<Rightarrow> string + json) \<Rightarrow> 'a \<Rightarrow> json" where
  "parse_or_null parse t = (case parse t of Inl _ \<Rightarrow> JNull | Inr v \<Rightarrow> v)"

definition decision_with_metadata :: "('a \<Rightarrow> string + json) \<Rightarrow> (json \<Rightarrow> 'a) \<Rightarrow> ('e \<Rightarrow> string)
    \<Rightarrow> 'e retry_policy \<Rightarrow> 'a claimed_job \<Rightarrow> 'e job_result \<Rightarrow> rat \<Rightarrow> (decision \<times> 'a option) eval_result" where
  "decision_with_metadata parse print describe p job res random =
     (let s = state_from_value (parse_or_null parse (cl_arguments job)) in
      case res of
        Inl (RetryGroup e key n x) \<Rightarrow>
          (let (c, s') = increment key s in
           eval_map (\<lambda>d. (d, Some (print (encode_state s')))) (decide describe p c res random))
      | Inr (Again w) \<Rightarrow>
          eval_map (\<lambda>d. (d, if rs_counts s \<noteq> [] then Some (print (rs_arguments s)) else None))
            (decide describe p (cl_attempts job) res random)
      | _ \<Rightarrow> eval_map (\<lambda>d. (d, None)) (decide describe p (cl_attempts job) res random))"

definition terminal_retry :: "'e job_result \<Rightarrow> decision \<Rightarrow> bool" where
  "terminal_retry res d =
     (case (res, d) of
        (Inl (RetryGroup _ _ _ True), Delete) \<Rightarrow> True
      | (Inl (RetryGroup _ _ _ False), FailFor _) \<Rightarrow> True
      | _ \<Rightarrow> False)"

definition set_arguments :: "int \<Rightarrow> string \<Rightarrow> 'a \<Rightarrow> 'a jobs_db \<Rightarrow> 'a jobs_db" where
  "set_arguments k runner a db =
     db\<lparr>rows := update_where (held_by k runner) (\<lambda>r. r\<lparr>arguments := a\<rparr>) (rows db)\<rparr>"

fun apply_decision :: "int \<Rightarrow> string \<Rightarrow> decision \<Rightarrow> timestamp \<Rightarrow> 'a jobs_db \<Rightarrow> bool \<times> 'a jobs_db" where
  "apply_decision k runner Delete now db = delete_job k runner db"
| "apply_decision k runner (Reschedule w e reset) now db =
     reschedule k runner (since now (signed w)) e reset now db"
| "apply_decision k runner (FailFor e) now db = fail_job k runner e now db"

definition finish_write :: "int \<Rightarrow> string \<Rightarrow> decision \<Rightarrow> 'a option \<Rightarrow> ('w \<Rightarrow> 'w option) option
    \<Rightarrow> timestamp \<Rightarrow> 'a jobs_db \<times> 'w \<Rightarrow> (bool \<times> 'a jobs_db \<times> 'w) option" where
  "finish_write k runner d args cleanup now = (\<lambda>(db, w).
     (let db1 = (case args of None \<Rightarrow> db | Some a \<Rightarrow> set_arguments k runner a db);
          (owned, db2) = apply_decision k runner d now db1
      in case (if owned then cleanup else None) of
           None \<Rightarrow> Some (owned, db2, w)
         | Some f \<Rightarrow> map_option (\<lambda>w'. (owned, db2, w')) (f w)))"

definition exhausted_cleanup :: "('a \<Rightarrow> string + json) \<Rightarrow> ('e, 'w) registry \<Rightarrow> 'a claimed_job
    \<Rightarrow> 'e job_result \<Rightarrow> decision \<Rightarrow> ('w \<Rightarrow> 'w option) option" where
  "exhausted_cleanup parse reg job res d =
     (if terminal_retry res d
      then case registry_get reg (cl_class job) of
             None \<Rightarrow> None
           | Some k \<Rightarrow> map_option (\<lambda>f. f (retry_arguments (parse_or_null parse (cl_arguments job)))
                                      (cl_version job)) (kd_exhausted_in k)
      else None)"

text \<open>Whether the exhaustion block of \<^verbatim>\<open>Registry::on_exhausted\<close> is called after the write.\<close>

definition exhausted_callback :: "('e, 'w) registry \<Rightarrow> string \<Rightarrow> 'e job_result \<Rightarrow> decision \<Rightarrow> bool \<Rightarrow> bool" where
  "exhausted_callback reg cls res d owned \<longleftrightarrow> owned \<and> terminal_retry res d \<and>
     (case registry_get reg cls of None \<Rightarrow> False | Some k \<Rightarrow> kd_exhausted k)"

definition completion_backoff :: duration where
  "completion_backoff = 50 * 10 ^ 6"

definition completion_backoff_limit :: duration where
  "completion_backoff_limit = 10 ^ 9"

text \<open>The loop of \<^verbatim>\<open>finish\<close> that retries a failing write: \<open>tries\<close> lists, for each write made,
  the instant after it and what it gave (\<open>None\<close> for an error); it yields how many writes were
  made and the last one's result.  Running out of listed tries is \<open>None\<close>.\<close>

fun completion_loop :: "nat \<Rightarrow> duration \<Rightarrow> (nat \<times> 'r option) list \<Rightarrow> (nat \<times> 'r option) option" where
  "completion_loop deadline backoff [] = None"
| "completion_loop deadline backoff ((clock, written) # tries) =
     (if written = None \<and> clock + backoff < deadline
      then map_option (\<lambda>(n, r). (Suc n, r))
             (completion_loop deadline (min (backoff * 2) completion_backoff_limit) tries)
      else Some (1, written))"

subsection \<open>Heartbeats, recovery and shutdown\<close>

definition heartbeat_pass :: "string \<Rightarrow> runner_config \<Rightarrow> int list \<Rightarrow> timestamp \<Rightarrow> 'a jobs_db \<Rightarrow> 'a jobs_db" where
  "heartbeat_pass runner cfg ids now db =
     (if ids = [] then db
      else snd (heartbeat runner ids (since now (signed (rc_lease cfg))) now db))"

definition recovery_retry :: "('a \<Rightarrow> string + json) \<Rightarrow> ('e, 'w) registry \<Rightarrow> 'a orphan \<Rightarrow> bool \<times> string" where
  "recovery_retry parse reg o' =
     (let n = (case registry_get reg (or_class o') of None \<Rightarrow> 1 | Some k \<Rightarrow> pol_attempts (kd_policy k));
          i = interrupted_executions (state_from_value (parse_or_null parse (or_arguments o')))
                (or_attempts o')
      in (i < n, ''the process performing it stopped (execution '' @ string_of_nat i @ '' of '' @
                 string_of_nat n @ '')''))"

text \<open>The loop of \<^verbatim>\<open>recover\<close>: one write per orphan, each with the clock reading of its own
  transaction; the queues with jobs due again are collected.\<close>

fun recover_each :: "('a \<Rightarrow> string + json) \<Rightarrow> ('e, 'w) registry \<Rightarrow> (nat \<Rightarrow> timestamp) \<Rightarrow> 'a orphan list
    \<Rightarrow> 'a jobs_db \<Rightarrow> string list \<times> 'a jobs_db" where
  "recover_each parse reg clock [] db = ([], db)"
| "recover_each parse reg clock (o' # os) db =
     (let (retry, msg) = recovery_retry parse reg o';
          (taken, db1) = recover (or_id o') retry msg (clock 0) db;
          (due, db2) = recover_each parse reg (\<lambda>i. clock (Suc i)) os db1
      in (if taken \<and> retry then or_queue o' # due else due, db2))"

definition recover_pass :: "('a \<Rightarrow> string + json) \<Rightarrow> ('e, 'w) registry \<Rightarrow> string \<Rightarrow> int list
    \<Rightarrow> (nat \<Rightarrow> timestamp) \<Rightarrow> 'a jobs_db \<Rightarrow> string list \<times> 'a jobs_db" where
  "recover_pass parse reg runner performing clock db =
     (let (due, db') = recover_each parse reg (\<lambda>i. clock (Suc i))
                         (orphans runner performing (clock 0) db) db
      in (remdups (sort due), db'))"

definition shutdown_release :: "string \<Rightarrow> timestamp \<Rightarrow> 'a jobs_db \<Rightarrow> nat \<times> 'a jobs_db" where
  "shutdown_release runner now db = release runner now db"

subsection \<open>The operator's view\<close>

text \<open>\<^verbatim>\<open>from_row\<close>: the row with its arguments parsed (unparsable text becomes a JSON string, given
  by \<open>text\<close>) and unwrapped from the retry counters.\<close>

definition from_row :: "('a \<Rightarrow> string + json) \<Rightarrow> ('a \<Rightarrow> string) \<Rightarrow> 'a job_row \<Rightarrow> json job_row" where
  "from_row parse txt r =
     \<lparr>job_id = job_id r, queue_name = queue_name r, job_class = job_class r,
      arguments = retry_arguments
        (case parse (arguments r) of Inr v \<Rightarrow> v | Inl _ \<Rightarrow> JStr (txt (arguments r))),
      payload_version = payload_version r, status = status r, attempts = attempts r,
      run_at = run_at r, claimed_by = claimed_by r, lease_expires_at = lease_expires_at r,
      last_error = last_error r, failed_at = failed_at r, created_at = created_at r,
      updated_at = updated_at r\<rparr>"

definition find_job :: "('a \<Rightarrow> string + json) \<Rightarrow> ('a \<Rightarrow> string) \<Rightarrow> int \<Rightarrow> 'a jobs_db \<Rightarrow> json job_row option" where
  "find_job parse txt k db = map_option (from_row parse txt) (find (\<lambda>r. job_id r = k) (rows db))"

definition with_status :: "('a \<Rightarrow> string + json) \<Rightarrow> ('a \<Rightarrow> string) \<Rightarrow> job_status \<Rightarrow> 'a jobs_db \<Rightarrow> json job_row list" where
  "with_status parse txt st db =
     map (from_row parse txt) (sort_key job_id (filter (\<lambda>r. status r = st) (rows db)))"

definition all_jobs :: "('a \<Rightarrow> string + json) \<Rightarrow> ('a \<Rightarrow> string) \<Rightarrow> 'a jobs_db \<Rightarrow> json job_row list" where
  "all_jobs parse txt db = map (from_row parse txt) (sort_key job_id (rows db))"

definition retry_failed :: "('a \<Rightarrow> string + json) \<Rightarrow> ('a \<Rightarrow> string) \<Rightarrow> (json \<Rightarrow> 'a) \<Rightarrow> int \<Rightarrow> timestamp
    \<Rightarrow> 'a jobs_db \<Rightarrow> bool \<times> 'a jobs_db" where
  "retry_failed parse txt print k now db =
     (case find_job parse txt k db of
        None \<Rightarrow> (False, db)
      | Some job \<Rightarrow>
         if status job \<noteq> Failed then (False, db)
         else (let P = (\<lambda>r. job_id r = k \<and> status r = Failed) in
               (count_where P (rows db) = 1,
                db\<lparr>rows := update_where P (\<lambda>r. r\<lparr>status := Ready, attempts := 0, run_at := now,
                     failed_at := None, updated_at := now, arguments := print (arguments job)\<rparr>)
                     (rows db)\<rparr>)))"

definition delete_failed :: "int \<Rightarrow> 'a jobs_db \<Rightarrow> bool \<times> 'a jobs_db" where
  "delete_failed k db =
     (let P = (\<lambda>r. job_id r = k \<and> status r = Failed) in
      (count_where P (rows db) = 1, db\<lparr>rows := delete_where P (rows db)\<rparr>))"

subsection \<open>How long a queue sleeps\<close>

lemma fold_min_le: "fold min xs (m::int) \<le> m \<and> (\<forall>x \<in> set xs. fold min xs m \<le> x)"
proof (induction xs arbitrary: m)
  case (Cons x xs)
  show ?case using Cons.IH[of "min x m"] by auto
qed simp

lemma next_run_at_le:
  assumes "r \<in> set (rows db)" and "status r = Ready" and "queue_name r = q"
  shows "\<exists>m. next_run_at q db = Some m \<and> m \<le> run_at r"
proof -
  have "r \<in> set (filter (\<lambda>r. status r = Ready \<and> queue_name r = q) (rows db))"
    using assms by simp
  then obtain s rs where f: "filter (\<lambda>r. status r = Ready \<and> queue_name r = q) (rows db) = s # rs"
    and r: "r = s \<or> r \<in> set rs"
    by (cases "filter (\<lambda>r. status r = Ready \<and> queue_name r = q) (rows db)") auto
  have "fold min (map run_at rs) (run_at s) \<le> run_at r"
    using r fold_min_le[of "map run_at rs" "run_at s"] by auto
  then show ?thesis by (simp add: next_run_at_def f)
qed

lemma until_mono: "a \<le> b \<Longrightarrow> until a now \<le> until b now"
  by (simp add: until_def nat_mono max.mono)

subsection \<open>Recovery takes back every orphan\<close>

lemma recover_rows:
  assumes "r' \<in> set (rows (snd (recover k retry msg t db)))"
  shows "\<exists>r \<in> set (rows db). job_id r' = job_id r \<and>
    (r' = r \<and> \<not> (job_id r = k \<and> expired t r) \<or> status r' \<noteq> Running)"
  using assms
  by (auto simp: recover_def set_update_where recover_where_def recover_row_def)

lemma recover_each_rows:
  assumes "\<And>i. t \<le> clock i"
    and "r' \<in> set (rows (snd (recover_each parse reg clock os db)))"
  shows "\<exists>r \<in> set (rows db). job_id r' = job_id r \<and>
    (r' = r \<and> \<not> (job_id r \<in> or_id ` set os \<and> expired t r) \<or> status r' \<noteq> Running)"
  using assms
proof (induction os arbitrary: clock db r')
  case (Cons o' os)
  obtain retry msg where rm: "recovery_retry parse reg o' = (retry, msg)" by force
  let ?db1 = "snd (recover (or_id o') retry msg (clock 0) db)"
  have "r' \<in> set (rows (snd (recover_each parse reg (\<lambda>i. clock (Suc i)) os ?db1)))"
    using Cons.prems(2) by (simp add: rm Let_def split: prod.splits)
  from Cons.IH[OF _ this] Cons.prems(1) obtain r1 where r1: "r1 \<in> set (rows ?db1)"
    "job_id r' = job_id r1"
    "r' = r1 \<and> \<not> (job_id r1 \<in> or_id ` set os \<and> expired t r1) \<or> status r' \<noteq> Running" by auto
  from recover_rows[OF r1(1)] obtain r where r: "r \<in> set (rows db)" "job_id r1 = job_id r"
    "r1 = r \<and> \<not> (job_id r = or_id o' \<and> expired (clock 0) r) \<or> status r1 \<noteq> Running" by auto
  have later: "expired t r \<Longrightarrow> expired (clock 0) r"
    using Cons.prems(1)[of 0] by (auto simp: expired_def split: option.splits)
  show ?case using r1 r later by (intro bexI[OF _ r(1)]) auto
qed auto

lemma recover_each_keeps:
  assumes "r \<in> set (rows db)" and "job_id r \<notin> or_id ` set os"
  shows "r \<in> set (rows (snd (recover_each parse reg clock os db)))"
  using assms
proof (induction os arbitrary: clock db)
  case (Cons o' os)
  obtain retry msg where rm: "recovery_retry parse reg o' = (retry, msg)" by force
  have "r \<in> set (rows (snd (recover (or_id o') retry msg (clock 0) db)))"
    using Cons.prems by (auto simp: recover_def recover_where_def update_where_def image_iff)
  then have "r \<in> set (rows (snd (recover_each parse reg (\<lambda>i. clock (Suc i)) os
      (snd (recover (or_id o') retry msg (clock 0) db)))))"
    using Cons.prems(2) by (intro Cons.IH) auto
  then show ?case by (simp add: rm Let_def split_beta)
qed simp

lemma orphan_ids:
  "or_id ` set (orphans runner performing t db) =
     job_id ` {r \<in> set (rows db). expired t r \<and>
       \<not> (claimed_by r = Some runner \<and> job_id r \<in> set performing)}"
  by (simp add: orphans_def image_image to_orphan_def)

subsection \<open>The completion loop\<close>

text \<open>The instants of the successive writes: each comes at least the current backoff after the one
  before, since the loop slept that long between them.\<close>

fun spaced :: "duration \<Rightarrow> (nat \<times> 'r option) list \<Rightarrow> bool" where
  "spaced backoff ((c, x) # (c', y) # tries) \<longleftrightarrow>
     c + backoff \<le> c' \<and> spaced (min (backoff * 2) completion_backoff_limit) ((c', y) # tries)"
| "spaced backoff _ \<longleftrightarrow> True"

lemma completion_loop_bound:
  assumes "spaced b ((c, x) # tries)" and "completion_backoff \<le> b"
    and "(deadline - c) div completion_backoff \<le> length tries"
  shows "\<exists>n r. completion_loop deadline b ((c, x) # tries) = Some (n, r) \<and>
    n \<le> Suc ((deadline - c) div completion_backoff)"
  using assms
proof (induction tries arbitrary: b c x)
  case Nil
  have "\<not> c + b < deadline"
  proof
    assume "c + b < deadline"
    then have "completion_backoff \<le> deadline - c" using Nil.prems(2) by linarith
    then have "0 < (deadline - c) div completion_backoff"
      by (simp add: div_greater_zero_iff completion_backoff_def)
    with Nil.prems(3) show False by simp
  qed
  then show ?case by simp
next
  case (Cons w0 tries)
  obtain c' y where w0: "w0 = (c', y)" by force
  let ?b = "min (b * 2) completion_backoff_limit"
  let ?B = "completion_backoff"
  have B: "?B \<le> ?b" using Cons.prems(2) by (simp add: completion_backoff_def completion_backoff_limit_def)
  show ?case
  proof (cases "x = None \<and> c + b < deadline")
    case True
    have "c + ?B \<le> c'" using Cons.prems(1,2) by (simp add: w0)
    then have le: "deadline - c' \<le> deadline - c - ?B" by simp
    have "?B \<le> deadline - c" using True Cons.prems(2) by linarith
    then have one: "Suc ((deadline - c - ?B) div ?B) = (deadline - c) div ?B"
      by (simp add: le_div_geq completion_backoff_def)
    have bound: "Suc ((deadline - c') div ?B) \<le> (deadline - c) div ?B"
      using div_le_mono[OF le, of ?B] one by linarith
    then have "(deadline - c') div ?B \<le> length tries" using Cons.prems(3) by simp
    with Cons.IH[of ?b c' y] Cons.prems(1) B obtain n r where
      "completion_loop deadline ?b ((c', y) # tries) = Some (n, r)"
      "n \<le> Suc ((deadline - c') div ?B)" by (auto simp: w0)
    with True bound show ?thesis by (auto simp: w0)
  next
    case False
    then have "completion_loop deadline b ((c, x) # w0 # tries) = Some (1, x)"
      by (cases x) auto
    then show ?thesis by simp
  qed
qed

subsection \<open>Properties of the runner\<close>

text \<open>One pass of a queue's loop never performs more than the queue's concurrency, and never
  oversleeps: the wait is at most the poll interval and, when the claim left free slots, it ends
  no later than the moment any job still waiting in the queue is due.\<close>

theorem queue_pass_never_oversleeps:
  assumes "store_ok db" and "running \<le> qc_concurrency q"
    and "queue_pass True runner cfg q running performing now clock db = (claimed, performing', wait, db')"
  shows "running + length claimed \<le> qc_concurrency q \<and> wait \<le> rc_poll cfg \<and>
    performing' = performing \<union> cl_id ` set claimed \<and>
    (running + length claimed < qc_concurrency q \<longrightarrow>
      (\<forall>r. r \<in> set (rows db') \<and> status r = Ready \<and> queue_name r = qc_name q \<longrightarrow>
         wait \<le> until (run_at r) clock))"
proof (cases "qc_concurrency q - running = 0")
  case True
  then show ?thesis using assms by (auto simp: queue_pass_def)
next
  case False
  let ?free = "qc_concurrency q - running"
  let ?X = "claim (qc_name q) (qc_concurrency q) ?free runner (since now (signed (rc_lease cfg))) now db"
  have X: "claimed = fst ?X" "db' = snd ?X" "performing' = performing \<union> cl_id ` set claimed"
    "wait = (if length claimed = ?free then rc_poll cfg
       else case next_run_at (qc_name q) db' of None \<Rightarrow> rc_poll cfg
            | Some due \<Rightarrow> min (rc_poll cfg) (until due clock))"
    using assms(3) False by (auto simp: queue_pass_def runner_claim_def Let_def split: prod.splits)
  have len: "length claimed \<le> ?free"
    by (simp add: X(1) claim_rows_exact[OF assms(1)] length_due_rows)
  have "wait \<le> until (run_at r) clock"
    if "running + length claimed < qc_concurrency q" and r: "r \<in> set (rows db')" "status r = Ready"
      "queue_name r = qc_name q" for r
  proof -
    obtain m where "next_run_at (qc_name q) db' = Some m" "m \<le> run_at r"
      using next_run_at_le[OF r] by auto
    then show ?thesis
      using that(1) X(4) until_mono[of m "run_at r" clock] by (auto simp: min_le_iff_disj)
  qed
  then show ?thesis using len assms(2) X(3,4) by (auto split: option.splits if_splits)
qed

definition example_queue :: queue_config where
  "example_queue = queue_config_new ''default'' 4"

theorem queue_pass_never_oversleeps_witness:
  "\<exists>claimed performing' wait db'.
     queue_pass True ''w'' (runner_config_new [example_queue]) example_queue 1 {9} 4 4 example_db =
       (claimed, performing', wait, db') \<and> length claimed = 2 \<and>
     example_row 1 5 \<in> set (rows db') \<and> wait \<le> until 5 4 \<and> 1 + length claimed \<le> 4"
proof -
  let ?q = "queue_pass True ''w'' (runner_config_new [example_queue]) example_queue 1 {9} 4 4 example_db"
  obtain c p wt d where q: "?q = (c, p, wt, d)" by (metis prod_cases4)
  have conc: "qc_concurrency example_queue = 4" and name: "qc_name example_queue = ''default''"
    by (simp_all add: example_queue_def queue_config_new_def)
  have cd: "claim ''default'' 4 3 ''w'' (since 4 (signed (30 * 10 ^ 9))) 4 example_db = (c, d)"
    using q by (auto simp: queue_pass_def runner_claim_def Let_def conc name runner_config_new_def
        split: prod.splits)
  have due: "due_rows ''default'' 4 3 4 (rows example_db) = [example_row 2 3, example_row 3 4]"
    by code_simp
  have c: "c = map (to_claimed \<circ> claim_row ''w'' (since 4 (signed (30 * 10 ^ 9))) 4)
      [example_row 2 3, example_row 3 4]"
    using claim_rows_exact[OF example_db_ok, of "''default''" 4 3 "''w''" "since 4 (signed (30 * 10 ^ 9))" 4]
      cd due by simp
  have d: "example_row 1 5 \<in> set (rows d)"
  proof -
    have "d = snd (claim ''default'' 4 3 ''w'' (since 4 (signed (30 * 10 ^ 9))) 4 example_db)"
      using cd by simp
    then have "rows d = update_where (claim_where ''default'' 4 3 4 (rows example_db))
        (claim_row ''w'' (since 4 (signed (30 * 10 ^ 9))) 4) (rows example_db)"
      by (simp add: claim_step)
    moreover have "\<not> claim_where ''default'' 4 3 4 (rows example_db) (example_row 1 5)"
      by code_simp
    ultimately show ?thesis by (simp add: example_db_def)
  qed
  have row: "status (example_row 1 5) = Ready \<and> queue_name (example_row 1 5) = ''default'' \<and>
      run_at (example_row 1 5) = 5" by (simp add: example_row_def)
  have "1 \<le> qc_concurrency example_queue" by (simp add: conc)
  from queue_pass_never_oversleeps[OF example_db_ok this q] have "wt \<le> until 5 4"
    using d row c by (auto simp: conc name)
  then show ?thesis using q c d by auto
qed

text \<open>C20. Recovery leaves no orphan behind: once a recovery pass has run, with clock readings that
  do not go back, no job whose lease had expired when it started is still running, except the
  ones the recovering runner is itself performing.\<close>

theorem recover_pass_takes_back_orphans:
  assumes "store_ok db" and "\<And>i. clock 0 \<le> clock i"
    and "r' \<in> set (rows (snd (recover_pass parse reg runner performing clock db)))"
    and "status r' = Running" and "expired (clock 0) r'"
  shows "r' \<in> set (rows db) \<and> claimed_by r' = Some runner \<and> job_id r' \<in> set performing"
proof -
  have "r' \<in> set (rows (snd (recover_each parse reg (\<lambda>i. clock (Suc i))
      (orphans runner performing (clock 0) db) db)))"
    using assms(3) by (simp add: recover_pass_def Let_def split: prod.splits)
  from recover_each_rows[OF _ this, of "clock 0"] assms(2,4) obtain r where
    r: "r \<in> set (rows db)" "r' = r"
    "\<not> (job_id r \<in> or_id ` set (orphans runner performing (clock 0) db) \<and> expired (clock 0) r)"
    by auto
  with assms(5) have "job_id r \<notin> or_id ` set (orphans runner performing (clock 0) db)" by simp
  with r assms(5) show ?thesis by (auto simp: orphan_ids)
qed

theorem recover_pass_takes_back_orphans_witness:
  "\<exists>r'. r' \<in> set (rows (snd (recover_pass (\<lambda>_. Inr JNull) ([] :: (unit, unit) registry) ''w'' [3] (\<lambda>_. 50)
       (snd (claim ''default'' 2 5 ''w'' 40 10 example_db))))) \<and>
     status r' = Running \<and> expired 50 r' \<and> claimed_by r' = Some ''w'' \<and> job_id r' = 3"
proof -
  let ?r = "claim_row ''w'' 40 10 (example_row 3 4)"
  let ?db = "snd (claim ''default'' 2 5 ''w'' 40 10 example_db)"
  have ok: "store_ok ?db" by (rule claim_ok[OF example_db_ok])
  have s: "status ?r = Running" and e: "expired 50 ?r"
    by (simp_all add: claim_row_def example_row_def expired_def)
  have r: "?r \<in> set (rows (snd (recover_pass (\<lambda>_. Inr JNull) ([] :: (unit, unit) registry) ''w'' [3]
      (\<lambda>_. 50) ?db)))"
  proof -
    have "?r \<in> set (rows ?db)" by (simp add: example_claim)
    moreover have "job_id ?r \<notin> or_id ` set (orphans ''w'' [3] 50 ?db)"
      by (auto simp: orphan_ids example_claim claim_row_def example_row_def)
    ultimately show ?thesis
      using recover_each_keeps by (simp add: recover_pass_def Let_def split_beta)
  qed
  from recover_pass_takes_back_orphans[OF ok, of "\<lambda>_. 50", OF _ r s e]
  have "claimed_by ?r = Some ''w''" "job_id ?r = 3" by simp_all
  with r s e show ?thesis by blast
qed

text \<open>C29. Recording an outcome gives up in bounded time: however the writes fail, the completion
  loop ends after at most one write more than the lease holds 50-millisecond intervals.\<close>

theorem completion_loop_terminates:
  assumes "spaced completion_backoff ((start, x) # tries)"
    and "lease div completion_backoff \<le> length tries"
  shows "\<exists>n r. completion_loop (start + lease) completion_backoff ((start, x) # tries) = Some (n, r) \<and>
    n \<le> Suc (lease div completion_backoff)"
  using completion_loop_bound[OF assms(1), of "start + lease"] assms(2) by simp

theorem completion_loop_terminates_witness:
  "\<exists>n r. completion_loop (0 + 10 ^ 8) completion_backoff
      ((0, None) # [(6 * 10 ^ 7, None), (3 * 10 ^ 8, Some True)]) = Some (n, r) \<and> n \<le> 3"
proof -
  have "spaced completion_backoff ((0, None) # [(6 * 10 ^ 7, None), (3 * 10 ^ 8, Some True)])"
    by (simp add: completion_backoff_def completion_backoff_limit_def)
  from completion_loop_terminates[OF this, of "10 ^ 8"] show ?thesis
    by (simp add: completion_backoff_def)
qed

end
