(* ===== verification/WriteQueue.thy ===== *)
theory WriteQueue
  imports JobRunner "HOL-Library.Multiset" "HOL-Library.Sublist"
begin

section \<open>Write transactions and their after-commit work\<close>

text \<open>
  \<^verbatim>\<open>Tx\<close> and \<^verbatim>\<open>run_write\<close> of \<^verbatim>\<open>crates/db/src/database.rs\<close> with the events of
  \<^verbatim>\<open>crates/db/src/events.rs\<close>: what a write registers while its transaction is open, what is
  prepared before \<^verbatim>\<open>COMMIT\<close>, and what runs after it.

  The state is a \<open>world\<close>: the rows the writer connection sees (any type \<open>'d\<close>), the rows to
  restore when a transaction is open on the connection (\<open>None\<close> in autocommit mode), the settled
  broadcasts, and the log of what happened, in order.  A closure the code registers
  (\<^verbatim>\<open>AfterCommitHook\<close>) is a function: it runs after the commit with a \<^verbatim>\<open>Tx\<close> outside of any
  transaction, in which nothing is queued, so it takes a world to its result and the world after
  it.  A hook that runs just before the commit gets the transaction itself and may register more;
  it returns its registrations (\<open>prep\<close>).  A panic that unwinds is a value of \<open>result\<close>.

  The event sink is the interface \<^verbatim>\<open>EventSink\<close>, the database the connection: what they do is
  the record \<open>env\<close>.
\<close>

subsection \<open>Events\<close>

record broadcast_request =
  br_kind :: string
  br_arguments :: json

datatype event =
    PushMessage int int
  | DisconnectUser int bool
  | RemoveBannedContent int
  | DeliverWebhook int int
  | PurgeBlob int
  | JobEvent job_request
  | BroadcastEvent broadcast_request

text \<open>What is logged: transaction statements, \<^verbatim>\<open>emit\<close> and \<^verbatim>\<open>emit_committed\<close> of the sink, and a
  finalizer that ran.\<close>

datatype log_entry =
    Began | Committed | Rolled_back
  | Emitted event | Delivered event | Finalized nat

subsection \<open>The world, the sink and the connection\<close>

datatype ('x, 'v) result = Ok 'v | Err 'x | Panic

record 'd db_world =
  db_rows :: 'd
  snapshot :: "'d option"
  happened :: "log_entry list"
  settled :: "event list"

text \<open>\<open>persist\<close> returns the rows it leaves and its error; \<open>committed\<close> says whether the sink
  panicked; \<open>exists_row\<close> is \<^verbatim>\<open>SELECT EXISTS(SELECT 1 FROM table WHERE id=?)\<close>; \<open>begin_error\<close> and
  \<open>commit_error\<close> are SQLite refusing \<^verbatim>\<open>BEGIN IMMEDIATE\<close> (the first inside a transaction) and
  \<^verbatim>\<open>COMMIT\<close>.\<close>

record ('d, 'x) env =
  persist_rows :: "event \<Rightarrow> 'd \<Rightarrow> 'd \<times> 'x option"
  emit_panics :: "event \<Rightarrow> bool"
  committed :: "event \<Rightarrow> 'd db_world \<Rightarrow> bool \<times> 'd db_world"
  exists_row :: "string \<Rightarrow> int \<Rightarrow> 'd \<Rightarrow> 'x + bool"
  nested_error :: 'x
  begin_error :: "'d \<Rightarrow> 'x option"
  commit_error :: "'d \<Rightarrow> 'x option"

type_synonym ('d, 'x, 'v) after_hook = "'d db_world \<Rightarrow> ('x, 'v) result \<times> 'd db_world"

datatype ('d, 'x, 'v) after_commit_item =
    RecordHook string int "('d, 'x, 'v) after_hook"
  | RecordJob string int "event option" "('d \<Rightarrow> int \<Rightarrow> 'x + bool) option"
  | RecordBroadcast string int event
  | RecordHooks string int "('d, 'x, 'v) after_hook list"
  | Hook "('d, 'x, 'v) after_hook"
  | EventItem event
  | SettledBroadcast event

record ('d, 'x, 'v) write_tx =
  in_transaction :: bool
  after_commit :: "('d, 'x, 'v) after_commit_item list"
  commit_finalizers :: "nat list"
  persist_error :: "'x option"

definition new_tx :: "bool \<Rightarrow> ('d, 'x, 'v) write_tx" where
  "new_tx inside = \<lparr>in_transaction = inside, after_commit = [], commit_finalizers = [],
     persist_error = None\<rparr>"

datatype ('d, 'x, 'v) prep =
  Prep "'d db_world \<Rightarrow> ('d, 'x, 'v) write_tx
          \<Rightarrow> ('x, 'v) result \<times> 'd db_world \<times> ('d, 'x, 'v) write_tx \<times> (string \<times> int \<times> ('d, 'x, 'v) prep) list"

type_synonym ('d, 'x, 'v) registration = "string \<times> int \<times> ('d, 'x, 'v) prep"

definition note_log :: "log_entry \<Rightarrow> 'd db_world \<Rightarrow> 'd db_world" where
  "note_log x w = w\<lparr>happened := happened w @ [x]\<rparr>"

subsection \<open>Emitting\<close>

text \<open>\<^verbatim>\<open>Tx::persist\<close>: the first error inside a transaction is kept and fails it.\<close>

definition tx_persist :: "('d, 'x) env \<Rightarrow> event \<Rightarrow> 'd db_world \<Rightarrow> ('d, 'x, 'v) write_tx
    \<Rightarrow> bool \<times> 'd db_world \<times> ('d, 'x, 'v) write_tx" where
  "tx_persist E e w t =
     (case persist_rows E e (db_rows w) of
        (d, None) \<Rightarrow> (True, w\<lparr>db_rows := d\<rparr>, t)
      | (d, Some x) \<Rightarrow>
          (False, w\<lparr>db_rows := d\<rparr>,
           if in_transaction t
           then t\<lparr>persist_error := (case persist_error t of None \<Rightarrow> Some x | Some y \<Rightarrow> Some y)\<rparr>
           else t))"

text \<open>\<^verbatim>\<open>sink.emit\<close>, which panics for the events \<open>emit_panics\<close> says, and
  \<^verbatim>\<open>sink.emit_committed\<close>.\<close>

definition sink_emit :: "event \<Rightarrow> 'd db_world \<Rightarrow> 'd db_world" where
  "sink_emit e w = note_log (Emitted e) w"

definition deliver_event :: "('d, 'x) env \<Rightarrow> event \<Rightarrow> 'd db_world \<Rightarrow> bool \<times> 'd db_world" where
  "deliver_event E e w = committed E e (note_log (Delivered e) w)"

definition push_item :: "('d, 'x, 'v) after_commit_item \<Rightarrow> ('d, 'x, 'v) write_tx \<Rightarrow> ('d, 'x, 'v) write_tx" where
  "push_item i t = t\<lparr>after_commit := after_commit t @ [i]\<rparr>"

definition emit_now :: "('d, 'x) env \<Rightarrow> event \<Rightarrow> 'd db_world \<Rightarrow> ('d, 'x, 'v) write_tx
    \<Rightarrow> bool \<times> 'd db_world \<times> ('d, 'x, 'v) write_tx" where
  "emit_now E e w t =
     (let (ok, w1, t1) = tx_persist E e w t in
      (ok \<and> emit_panics E e, if ok then sink_emit e w1 else w1, t1))"

text \<open>The operations here return whether they panicked (only a sink can), the world and the
  transaction.\<close>

definition emit_after_commit :: "('d, 'x) env \<Rightarrow> event \<Rightarrow> 'd db_world \<Rightarrow> ('d, 'x, 'v) write_tx
    \<Rightarrow> bool \<times> 'd db_world \<times> ('d, 'x, 'v) write_tx" where
  "emit_after_commit E e w t =
     (let (ok, w1, t1) = tx_persist E e w t in
      if \<not> ok then (False, w1, t1)
      else if in_transaction t1 then (False, w1, push_item (EventItem e) t1)
      else (let (p, w2) = deliver_event E e w1 in (p, w2, t1)))"

fun queued_job :: "string \<Rightarrow> int \<Rightarrow> event \<Rightarrow> ('d, 'x, 'v) after_commit_item \<Rightarrow> bool" where
  "queued_job table i e (RecordJob table' i' (Some e') _) \<longleftrightarrow> table' = table \<and> i' = i \<and> e' = e"
| "queued_job table i e _ \<longleftrightarrow> False"

definition emit_record_job_once_if :: "('d, 'x) env \<Rightarrow> string \<Rightarrow> int \<Rightarrow> event
    \<Rightarrow> ('d \<Rightarrow> int \<Rightarrow> 'x + bool) option \<Rightarrow> 'd db_world \<Rightarrow> ('d, 'x, 'v) write_tx
    \<Rightarrow> bool \<times> 'd db_world \<times> ('d, 'x, 'v) write_tx" where
  "emit_record_job_once_if E table i e condition w t =
     (if \<not> in_transaction t then emit_after_commit E e w t
      else if list_ex (queued_job table i e) (after_commit t) then (False, w, t)
      else (False, w, push_item (RecordJob table i (Some e) condition) t))"

fun queued_broadcast :: "string \<Rightarrow> int \<Rightarrow> event \<Rightarrow> ('d, 'x, 'v) after_commit_item \<Rightarrow> bool" where
  "queued_broadcast table i e (RecordBroadcast table' i' e') \<longleftrightarrow> table' = table \<and> i' = i \<and> e' = e"
| "queued_broadcast table i e _ \<longleftrightarrow> False"

definition emit_broadcast_once :: "('d, 'x) env \<Rightarrow> string \<Rightarrow> int \<Rightarrow> broadcast_request \<Rightarrow> 'd db_world
    \<Rightarrow> ('d, 'x, 'v) write_tx \<Rightarrow> bool \<times> 'd db_world \<times> ('d, 'x, 'v) write_tx" where
  "emit_broadcast_once E table i b w t =
     (let e = BroadcastEvent b in
      if in_transaction t \<and> list_ex (queued_broadcast table i e) (after_commit t) then (False, w, t)
      else (let (ok, w1, t1) = tx_persist E e w t in
            if \<not> ok then (False, w1, t1)
            else if in_transaction t1 then (False, w1, push_item (RecordBroadcast table i e) t1)
            else (emit_panics E e, sink_emit e w1, t1)))"

fun queued_event :: "event \<Rightarrow> ('d, 'x, 'v) after_commit_item \<Rightarrow> bool" where
  "queued_event e (EventItem e') \<longleftrightarrow> e' = e"
| "queued_event e _ \<longleftrightarrow> False"

definition broadcast_after_commit_once :: "('d, 'x) env \<Rightarrow> broadcast_request \<Rightarrow> 'd db_world
    \<Rightarrow> ('d, 'x, 'v) write_tx \<Rightarrow> bool \<times> 'd db_world \<times> ('d, 'x, 'v) write_tx" where
  "broadcast_after_commit_once E b w t =
     (let e = BroadcastEvent b in
      if list_ex (queued_event e) (after_commit t) then (False, w, t)
      else emit_after_commit E e w t)"

fun queued_settled :: "event \<Rightarrow> ('d, 'x, 'v) after_commit_item \<Rightarrow> bool" where
  "queued_settled e (SettledBroadcast e') \<longleftrightarrow> e' = e"
| "queued_settled e _ \<longleftrightarrow> False"

definition collect_settled_broadcast :: "event \<Rightarrow> 'd db_world \<Rightarrow> 'd db_world" where
  "collect_settled_broadcast e w =
     (if e \<in> set (settled w) then w else w\<lparr>settled := settled w @ [e]\<rparr>)"

definition broadcast_after_commit_settled_once :: "('d, 'x) env \<Rightarrow> broadcast_request \<Rightarrow> 'd db_world
    \<Rightarrow> ('d, 'x, 'v) write_tx \<Rightarrow> bool \<times> 'd db_world \<times> ('d, 'x, 'v) write_tx" where
  "broadcast_after_commit_settled_once E b w t =
     (let e = BroadcastEvent b in
      if list_ex (queued_settled e) (after_commit t) then (False, w, t)
      else (let (ok, w1, t1) = tx_persist E e w t in
            if \<not> ok then (False, w1, t1)
            else if in_transaction t1 then (False, w1, push_item (SettledBroadcast e) t1)
            else (False, collect_settled_broadcast e w1, t1)))"

definition has_settled_broadcast :: "broadcast_request \<Rightarrow> 'd db_world \<Rightarrow> ('d, 'x, 'v) write_tx \<Rightarrow> bool" where
  "has_settled_broadcast b w t \<longleftrightarrow>
     list_ex (queued_settled (BroadcastEvent b)) (after_commit t) \<or> BroadcastEvent b \<in> set (settled w)"

subsection \<open>Registering hooks\<close>

fun queued_hook :: "string \<Rightarrow> int \<Rightarrow> ('d, 'x, 'v) after_commit_item \<Rightarrow> bool" where
  "queued_hook key i (RecordHook key' i' _) \<longleftrightarrow> key' = key \<and> i' = i"
| "queued_hook key i _ \<longleftrightarrow> False"

definition has_commit_record :: "string \<Rightarrow> int \<Rightarrow> ('d, 'x, 'v) write_tx \<Rightarrow> bool" where
  "has_commit_record key i t \<longleftrightarrow> list_ex (queued_hook key i) (after_commit t)"

text \<open>\<^verbatim>\<open>Tx::after_commit\<close>: outside a transaction the hook runs at once, and its error is only
  logged.\<close>

definition hook_now :: "('d, 'x, 'v) after_hook \<Rightarrow> 'd db_world \<Rightarrow> bool \<times> 'd db_world" where
  "hook_now h w = (case h w of (Panic, w1) \<Rightarrow> (True, w1) | (_, w1) \<Rightarrow> (False, w1))"

definition after_commit_hook :: "('d, 'x, 'v) after_hook \<Rightarrow> 'd db_world \<Rightarrow> ('d, 'x, 'v) write_tx
    \<Rightarrow> bool \<times> 'd db_world \<times> ('d, 'x, 'v) write_tx" where
  "after_commit_hook h w t =
     (if in_transaction t then (False, w, push_item (Hook h) t)
      else (let (p, w1) = hook_now h w in (p, w1, t)))"

definition after_commit_record_latest :: "string \<Rightarrow> int \<Rightarrow> ('d, 'x, 'v) after_hook \<Rightarrow> 'd db_world
    \<Rightarrow> ('d, 'x, 'v) write_tx \<Rightarrow> bool \<times> 'd db_world \<times> ('d, 'x, 'v) write_tx" where
  "after_commit_record_latest key i h w t =
     (if in_transaction t then (False, w, push_item (RecordHook key i h) t)
      else after_commit_hook h w t)"

fun record_slot :: "string \<Rightarrow> int \<Rightarrow> ('d, 'x, 'v) after_commit_item \<Rightarrow> bool" where
  "record_slot table i (RecordHooks table' i' _) \<longleftrightarrow> table' = table \<and> i' = i"
| "record_slot table i _ \<longleftrightarrow> False"

definition register_record :: "string \<Rightarrow> int \<Rightarrow> ('d, 'x, 'v) write_tx \<Rightarrow> ('d, 'x, 'v) write_tx" where
  "register_record table i t =
     (if in_transaction t \<and> \<not> list_ex (record_slot table i) (after_commit t)
      then push_item (RecordHooks table i []) t else t)"

text \<open>The first slot of the record takes the hook.\<close>

fun add_to_slot :: "string \<Rightarrow> int \<Rightarrow> ('d, 'x, 'v) after_hook \<Rightarrow> ('d, 'x, 'v) after_commit_item list
    \<Rightarrow> ('d, 'x, 'v) after_commit_item list" where
  "add_to_slot table i h [] = []"
| "add_to_slot table i h (RecordHooks table' i' hs # q) =
     (if table' = table \<and> i' = i then RecordHooks table' i' (hs @ [h]) # q
      else RecordHooks table' i' hs # add_to_slot table i h q)"
| "add_to_slot table i h (x # q) = x # add_to_slot table i h q"

definition after_commit_record :: "string \<Rightarrow> int \<Rightarrow> ('d, 'x, 'v) after_hook \<Rightarrow> 'd db_world
    \<Rightarrow> ('d, 'x, 'v) write_tx \<Rightarrow> bool \<times> 'd db_world \<times> ('d, 'x, 'v) write_tx" where
  "after_commit_record table i h w t =
     (if \<not> in_transaction t then after_commit_hook h w t
      else (let t1 = register_record table i t in
            (False, w, t1\<lparr>after_commit := add_to_slot table i h (after_commit t1)\<rparr>)))"

definition on_commit_success :: "nat \<Rightarrow> 'd db_world \<Rightarrow> ('d, 'x, 'v) write_tx
    \<Rightarrow> bool \<times> 'd db_world \<times> ('d, 'x, 'v) write_tx" where
  "on_commit_success f w t =
     (if in_transaction t then (False, w, t\<lparr>commit_finalizers := commit_finalizers t @ [f]\<rparr>)
      else (False, note_log (Finalized f) w, t))"

subsection \<open>Savepoints\<close>

text \<open>\<^verbatim>\<open>Tx::savepoint\<close> marks how much is registered, with the number of hooks of each record
  slot, and takes a failed operation back to the marks.  Outside a transaction \<^verbatim>\<open>SAVEPOINT\<close> opens
  one, which \<^verbatim>\<open>RELEASE\<close> ends.\<close>

fun hook_count :: "('d, 'x, 'v) after_commit_item \<Rightarrow> nat option" where
  "hook_count (RecordHooks _ _ hs) = Some (length hs)"
| "hook_count _ = None"

definition hook_marks :: "('d, 'x, 'v) after_commit_item list \<Rightarrow> nat option list" where
  "hook_marks q = map hook_count q"

fun cut_hooks :: "nat option \<Rightarrow> ('d, 'x, 'v) after_commit_item \<Rightarrow> ('d, 'x, 'v) after_commit_item" where
  "cut_hooks (Some n) (RecordHooks table i hs) = RecordHooks table i (take n hs)"
| "cut_hooks _ x = x"

definition restore_queue :: "nat option list \<Rightarrow> ('d, 'x, 'v) after_commit_item list
    \<Rightarrow> ('d, 'x, 'v) after_commit_item list" where
  "restore_queue marks q = map (\<lambda>(m, x). cut_hooks m x) (zip marks (take (length marks) q))"

definition open_savepoint :: "'d db_world \<Rightarrow> 'd db_world" where
  "open_savepoint w = w\<lparr>snapshot := (case snapshot w of None \<Rightarrow> Some (db_rows w) | s \<Rightarrow> s)\<rparr>"

text \<open>\<open>before\<close> is the world in which the savepoint was opened.\<close>

definition release_savepoint :: "'d db_world \<Rightarrow> 'd db_world \<Rightarrow> 'd db_world" where
  "release_savepoint before' w = w\<lparr>snapshot := (case snapshot before' of None \<Rightarrow> None | _ \<Rightarrow> snapshot w)\<rparr>"

definition rollback_savepoint :: "'d db_world \<Rightarrow> 'd db_world \<Rightarrow> 'd db_world" where
  "rollback_savepoint before' w = release_savepoint before' (w\<lparr>db_rows := db_rows before'\<rparr>)"

definition savepoint_failed :: "('d, 'x, 'v) write_tx \<Rightarrow> ('d, 'x, 'v) write_tx \<Rightarrow> ('d, 'x, 'v) write_tx" where
  "savepoint_failed t0 t =
     t\<lparr>after_commit := restore_queue (hook_marks (after_commit t0)) (after_commit t),
       commit_finalizers := take (length (commit_finalizers t0)) (commit_finalizers t)\<rparr>"

subsection \<open>Preparing the commit\<close>

text \<open>Among the registrations of one record the last wins, in the place of the first: for the
  preparations of \<^verbatim>\<open>prepare_commit\<close> and for the record hooks of the queue.\<close>

definition same_record :: "string \<times> int \<times> 'p \<Rightarrow> string \<times> int \<times> 'p \<Rightarrow> bool" where
  "same_record r r' \<longleftrightarrow> fst r = fst r' \<and> fst (snd r) = fst (snd r')"

definition put_latest :: "(string \<times> int \<times> 'p) list \<Rightarrow> string \<times> int \<times> 'p \<Rightarrow> (string \<times> int \<times> 'p) list" where
  "put_latest pending r =
     (if list_ex (same_record r) pending then map (\<lambda>p. if same_record r p then r else p) pending
      else pending @ [r])"

definition latest_registrations :: "(string \<times> int \<times> 'p) list \<Rightarrow> (string \<times> int \<times> 'p) list" where
  "latest_registrations rs = foldl put_latest [] rs"

fun run_preparations :: "('d, 'x, 'v) registration list \<Rightarrow> 'd db_world \<Rightarrow> ('d, 'x, 'v) write_tx
    \<Rightarrow> ('x, unit) result \<times> 'd db_world \<times> ('d, 'x, 'v) write_tx \<times> ('d, 'x, 'v) registration list" where
  "run_preparations [] w t = (Ok (), w, t, [])"
| "run_preparations ((key, i, Prep h) # rest) w t =
     (case h w t of
        (Ok _, w1, t1, new) \<Rightarrow>
          (let (r, w2, t2, new') = run_preparations rest w1 t1 in (r, w2, t2, new @ new'))
      | (Err x, w1, t1, new) \<Rightarrow> (Err x, w1, t1, new)
      | (Panic, w1, t1, new) \<Rightarrow> (Panic, w1, t1, new))"

text \<open>A preparation registered by a preparation is one of the trees it returns, so the loop of
  \<^verbatim>\<open>prepare_commit\<close> ends.\<close>

definition registers :: "(('d, 'x, 'v) prep \<times> ('d, 'x, 'v) prep) set" where
  "registers = {(p, Prep h) | p h. \<exists>w t key i. (key, i, p) \<in> set (snd (snd (snd (h w t))))}"

lemma wf_registers: "wf (registers :: (('d, 'x, 'v) prep \<times> _) set)"
proof (rule wfUNIVI)
  fix P :: "('d, 'x, 'v) prep \<Rightarrow> bool" and p
  assume step: "\<forall>x. (\<forall>y. (y, x) \<in> registers \<longrightarrow> P y) \<longrightarrow> P x"
  show "P p"
  proof (induction p)
    case (Prep h)
    have "P q" if "(q, Prep h) \<in> registers" for q
    proof -
      from that obtain w t key i where q: "(key, i, q) \<in> set (snd (snd (snd (h w t))))"
        unfolding registers_def by auto
        from q show ?thesis
        by (intro Prep.IH[of "h w" "h w t" "snd (h w t)" "snd (snd (h w t))" "snd (snd (snd (h w t)))" "(key, i, q)" "(i, q)" q])
           (auto intro: snds.intros)
    qed
    with step show ?case by blast
  qed
qed

lemma set_put_latest: "x \<in> set (put_latest pending r) \<Longrightarrow> x = r \<or> x \<in> set pending"
  by (auto simp: put_latest_def split: if_splits)

lemma set_foldl_put_latest: "x \<in> set (foldl put_latest acc rs) \<Longrightarrow> x \<in> set acc \<or> x \<in> set rs"
proof (induction rs arbitrary: acc)
  case (Cons r rs)
  then show ?case by (auto dest: set_put_latest)
qed simp

lemma set_latest_registrations: "set (latest_registrations rs) \<subseteq> set rs"
  using set_foldl_put_latest[of _ "[]" rs] by (auto simp: latest_registrations_def)

lemma run_preparations_registers:
  "\<lbrakk>run_preparations rs w t = (r, w', t', new); (key, i, p) \<in> set new\<rbrakk>
    \<Longrightarrow> \<exists>x \<in> set rs. (p, snd (snd x)) \<in> registers"
proof (induction rs arbitrary: w t r w' t' new)
  case (Cons x rest)
  obtain key' i' h where x: "x = (key', i', Prep h)" by (metis prep.exhaust prod_cases3)
  obtain r1 w1 t1 new1 where h: "h w t = (r1, w1, t1, new1)" by (cases "h w t")
  have own: "(p, Prep h) \<in> registers" if "(key, i, p) \<in> set new1"
    using that h unfolding registers_def by (force intro!: exI[of _ w] exI[of _ t] exI[of _ key] exI[of _ i])
  show ?case
  proof (cases r1)
    case (Ok v)
    obtain r2 w2 t2 new2 where rest: "run_preparations rest w1 t1 = (r2, w2, t2, new2)"
      by (cases "run_preparations rest w1 t1")
    from Cons.prems h Ok rest x have "(key, i, p) \<in> set new1 \<or> (key, i, p) \<in> set new2" by auto
    then show ?thesis
      using own Cons.IH[OF rest] x by auto
  qed (use Cons.prems h own x in auto)
qed simp

function prepare_commit :: "('d, 'x, 'v) registration list \<Rightarrow> 'd db_world \<Rightarrow> ('d, 'x, 'v) write_tx
    \<Rightarrow> ('x, unit) result \<times> 'd db_world \<times> ('d, 'x, 'v) write_tx" where
  "prepare_commit rs w t =
     (if rs = [] then (Ok (), w, t)
      else (case run_preparations (latest_registrations rs) w t of
              (Ok _, w1, t1, new) \<Rightarrow> prepare_commit new w1 t1
            | (Err x, w1, t1, _) \<Rightarrow> (Err x, w1, t1)
            | (Panic, w1, t1, _) \<Rightarrow> (Panic, w1, t1)))"
  by pat_completeness auto

text \<open>Every round replaces the preparations it runs by ones they registered: a smaller multiset.\<close>

termination
proof (relation "inv_image (mult registers) (\<lambda>(rs, w, t). mset (map (snd \<circ> snd) rs))")
  show "wf (inv_image (mult registers) (\<lambda>(rs, w, t). mset (map (snd \<circ> snd) rs)))"
    by (intro wf_inv_image wf_mult wf_registers)
next
  fix rs yb :: "('d, 'x, 'v) registration list" and w t x xb and y :: "_ \<times> _ \<times> ('d, 'x, 'v) registration list"
    and ya :: "_ \<times> ('d, 'x, 'v) registration list" and u v
  assume ne: "rs \<noteq> []"
    and run: "(x, y) = run_preparations (latest_registrations rs) w t" "x = Ok v" "(xb, ya) = y" "(u, yb) = ya"
  have new: "run_preparations (latest_registrations rs) w t = (Ok v, xb, u, yb)"
    using run by simp
  have "\<exists>j \<in># mset (map (snd \<circ> snd) rs). (k, j) \<in> registers"
    if k: "k \<in># mset (map (snd \<circ> snd) yb)" for k
  proof -
    from k obtain key i where "(key, i, k) \<in> set yb" by auto
    from run_preparations_registers[OF new this] set_latest_registrations[of rs]
    show ?thesis by force
  qed
  with ne have "({#} + mset (map (snd \<circ> snd) yb), {#} + mset (map (snd \<circ> snd) rs)) \<in> mult registers"
    by (intro one_step_implies_mult) auto
  then show "((yb, xb, u), rs, w, t) \<in> inv_image (mult registers) (\<lambda>(rs, w, t). mset (map (snd \<circ> snd) rs))"
    by simp
qed

declare prepare_commit.simps [simp del]

lemma prepare_commit_Nil [simp]: "prepare_commit [] w t = (Ok (), w, t)"
  by (subst prepare_commit.simps) simp

lemma prepare_commit_round:
  "\<lbrakk>rs \<noteq> []; run_preparations (latest_registrations rs) w t = (r, w1, t1, new)\<rbrakk>
    \<Longrightarrow> prepare_commit rs w t =
          (case r of Ok _ \<Rightarrow> prepare_commit new w1 t1 | Err x \<Rightarrow> (Err x, w1, t1) | Panic \<Rightarrow> (Panic, w1, t1))"
  by (subst prepare_commit.simps) (simp split: result.splits)

subsection \<open>The queue at commit\<close>

text \<open>Record hooks of one record are coalesced; every other item keeps its place.\<close>

fun hook_of :: "('d, 'x, 'v) after_commit_item \<Rightarrow> (string \<times> int \<times> ('d, 'x, 'v) after_hook) option" where
  "hook_of (RecordHook key i h) = Some (key, i, h)"
| "hook_of _ = None"

definition put_item :: "('d, 'x, 'v) after_commit_item list \<Rightarrow> ('d, 'x, 'v) after_commit_item
    \<Rightarrow> ('d, 'x, 'v) after_commit_item list" where
  "put_item q x =
     (case x of
        RecordHook key i h \<Rightarrow>
          (if list_ex (queued_hook key i) q
           then map (\<lambda>y. if queued_hook key i y then RecordHook key i h else y) q
           else q @ [x])
      | _ \<Rightarrow> q @ [x])"

definition coalesce_queue :: "('d, 'x, 'v) after_commit_item list \<Rightarrow> ('d, 'x, 'v) after_commit_item list" where
  "coalesce_queue q = foldl put_item [] q"

text \<open>The jobs of record callbacks are persisted if their row survived and their condition holds;
  the others are dropped from the queue.\<close>

definition job_due :: "('d, 'x) env \<Rightarrow> string \<Rightarrow> int \<Rightarrow> ('d \<Rightarrow> int \<Rightarrow> 'x + bool) option \<Rightarrow> 'd \<Rightarrow> 'x + bool" where
  "job_due E table i condition d =
     (case exists_row E table i d of
        Inl x \<Rightarrow> Inl x
      | Inr False \<Rightarrow> Inr False
      | Inr True \<Rightarrow> (case condition of None \<Rightarrow> Inr True | Some test \<Rightarrow> test d i))"

definition map_ok :: "('a \<Rightarrow> 'b) \<Rightarrow> ('x, 'a) result \<times> 'd db_world \<Rightarrow> ('x, 'b) result \<times> 'd db_world" where
  "map_ok f r = (case r of (Ok v, w) \<Rightarrow> (Ok (f v), w) | (Err x, w) \<Rightarrow> (Err x, w) | (Panic, w) \<Rightarrow> (Panic, w))"

lemma map_ok_simps [simp]:
  "fst (map_ok f r) = Panic \<longleftrightarrow> fst r = Panic"
  "snd (map_ok f r) = snd r"
  by (cases r; cases "fst r"; simp add: map_ok_def)+

fun persist_callbacks :: "('d, 'x) env \<Rightarrow> ('d, 'x, 'v) after_commit_item list \<Rightarrow> 'd db_world
    \<Rightarrow> ('x, ('d, 'x, 'v) after_commit_item list) result \<times> 'd db_world" where
  "persist_callbacks E [] w = (Ok [], w)"
| "persist_callbacks E (RecordJob table i ev condition # q) w =
     (case job_due E table i condition (db_rows w) of
        Inl x \<Rightarrow> (Err x, w)
      | Inr False \<Rightarrow> map_ok ((#) (RecordJob table i None condition)) (persist_callbacks E q w)
      | Inr True \<Rightarrow>
          (let (d, refused) = (case ev of None \<Rightarrow> (db_rows w, None) | Some e \<Rightarrow> persist_rows E e (db_rows w)) in
           case refused of
             Some x \<Rightarrow> (Err x, w\<lparr>db_rows := d\<rparr>)
           | None \<Rightarrow> map_ok ((#) (RecordJob table i ev condition)) (persist_callbacks E q (w\<lparr>db_rows := d\<rparr>))))"
| "persist_callbacks E (x # q) w = map_ok ((#) x) (persist_callbacks E q w)"

subsection \<open>Transactions of the connection\<close>

definition begin_immediate :: "('d, 'x) env \<Rightarrow> 'd db_world \<Rightarrow> 'x + 'd db_world" where
  "begin_immediate E w =
     (case snapshot w of
        Some _ \<Rightarrow> Inl (nested_error E)
      | None \<Rightarrow>
          (case begin_error E (db_rows w) of
             Some x \<Rightarrow> Inl x
           | None \<Rightarrow> Inr (note_log Began (w\<lparr>snapshot := Some (db_rows w)\<rparr>))))"

definition rollback_transaction :: "'d db_world \<Rightarrow> 'd db_world" where
  "rollback_transaction w =
     (case snapshot w of
        None \<Rightarrow> w
      | Some d \<Rightarrow> note_log Rolled_back (w\<lparr>db_rows := d, snapshot := None\<rparr>))"

definition commit_transaction :: "('d, 'x) env \<Rightarrow> 'd db_world \<Rightarrow> 'x + 'd db_world" where
  "commit_transaction E w =
     (case commit_error E (db_rows w) of
        Some x \<Rightarrow> Inl x
      | None \<Rightarrow> Inr (note_log Committed (w\<lparr>snapshot := None\<rparr>)))"

subsection \<open>After the commit\<close>

fun settled_event :: "('d, 'x, 'v) after_commit_item \<Rightarrow> event option" where
  "settled_event (SettledBroadcast e) = Some e"
| "settled_event _ = None"

definition collect_settled :: "('d, 'x, 'v) after_commit_item list \<Rightarrow> 'd db_world \<Rightarrow> 'd db_world" where
  "collect_settled q w = fold collect_settled_broadcast (List.map_filter settled_event q) w"

definition unsettled :: "('d, 'x, 'v) after_commit_item list \<Rightarrow> ('d, 'x, 'v) after_commit_item list" where
  "unsettled q = filter (\<lambda>x. settled_event x = None) q"

text \<open>Queue rows were persisted before \<^verbatim>\<open>COMMIT\<close>: their runner is woken even when a callback
  failed.\<close>

fun job_event :: "event \<Rightarrow> bool" where
  "job_event (JobEvent _) \<longleftrightarrow> True"
| "job_event (PushMessage _ _) \<longleftrightarrow> True"
| "job_event (RemoveBannedContent _) \<longleftrightarrow> True"
| "job_event (DeliverWebhook _ _) \<longleftrightarrow> True"
| "job_event (PurgeBlob _) \<longleftrightarrow> True"
| "job_event _ \<longleftrightarrow> False"

fun committed_job :: "('d, 'x, 'v) after_commit_item \<Rightarrow> event option" where
  "committed_job (RecordJob _ _ ev _) = ev"
| "committed_job (EventItem e) = (if job_event e then Some e else None)"
| "committed_job _ = None"

definition wake_committed_job :: "('d, 'x) env \<Rightarrow> ('d, 'x, 'v) after_commit_item \<Rightarrow> 'd db_world
    \<Rightarrow> bool \<times> 'd db_world" where
  "wake_committed_job E x w =
     (case committed_job x of Some e \<Rightarrow> (emit_panics E e, sink_emit e w) | None \<Rightarrow> (False, w))"

fun wake_committed_jobs :: "('d, 'x) env \<Rightarrow> ('d, 'x, 'v) after_commit_item list \<Rightarrow> 'd db_world
    \<Rightarrow> bool \<times> 'd db_world" where
  "wake_committed_jobs E [] w = (False, w)"
| "wake_committed_jobs E (x # q) w =
     (let (p, w1) = wake_committed_job E x w in if p then (True, w1) else wake_committed_jobs E q w1)"

definition deliver_item :: "('d, 'x) env \<Rightarrow> event \<Rightarrow> 'd db_world \<Rightarrow> ('x, unit) result \<times> 'd db_world" where
  "deliver_item E e w = (let (p, w1) = deliver_event E e w in (if p then Panic else Ok (), w1))"

fun run_hooks :: "('d, 'x, 'v) after_hook list \<Rightarrow> 'd db_world \<Rightarrow> ('x, unit) result \<times> 'd db_world" where
  "run_hooks [] w = (Ok (), w)"
| "run_hooks (h # hs) w =
     (case h w of
        (Ok _, w1) \<Rightarrow> run_hooks hs w1
      | (Err x, w1) \<Rightarrow> (Err x, w1)
      | (Panic, w1) \<Rightarrow> (Panic, w1))"

fun run_item :: "('d, 'x) env \<Rightarrow> ('d, 'x, 'v) after_commit_item \<Rightarrow> 'd db_world \<Rightarrow> ('x, unit) result \<times> 'd db_world" where
  "run_item E (RecordJob _ _ (Some e) _) w = deliver_item E e w"
| "run_item E (RecordJob _ _ None _) w = (Ok (), w)"
| "run_item E (EventItem e) w = deliver_item E e w"
| "run_item E (RecordBroadcast table i e) w =
     (case exists_row E table i (db_rows w) of
        Inr True \<Rightarrow> deliver_item E e w
      | _ \<Rightarrow> (Ok (), w))"
| "run_item E (RecordHook _ _ h) w = run_hooks [h] w"
| "run_item E (RecordHooks _ _ hs) w = run_hooks hs w"
| "run_item E (Hook h) w = run_hooks [h] w"
| "run_item E (SettledBroadcast _) w = (Panic, w)"

fun run_callbacks :: "('d, 'x) env \<Rightarrow> ('d, 'x, 'v) after_commit_item list \<Rightarrow> 'd db_world
    \<Rightarrow> ('x, unit) result \<times> 'd db_world" where
  "run_callbacks E [] w = (Ok (), w)"
| "run_callbacks E (x # q) w =
     (case run_item E x w of
        (Ok _, w1) \<Rightarrow> run_callbacks E q w1
      | (Err e, w1) \<Rightarrow> (let (p, w2) = wake_committed_jobs E q w1 in (if p then Panic else Err e, w2))
      | (Panic, w1) \<Rightarrow> (Panic, w1))"

subsection \<open>Running a write\<close>

type_synonym ('d, 'x, 'v) write_body =
  "'d db_world \<Rightarrow> ('d, 'x, 'v) write_tx
     \<Rightarrow> ('x, 'v) result \<times> 'd db_world \<times> ('d, 'x, 'v) write_tx \<times> ('d, 'x, 'v) registration list"

text \<open>The code's closure and the preparations, inside the transaction; a persistence error fails
  them.\<close>

definition prepared_write :: "('d, 'x, 'v) write_body \<Rightarrow> 'd db_world
    \<Rightarrow> ('x, 'v) result \<times> 'd db_world \<times> ('d, 'x, 'v) write_tx" where
  "prepared_write f w =
     (case f w (new_tx True) of
        (Ok v, w1, t1, new) \<Rightarrow>
          (case prepare_commit new w1 t1 of
             (Ok _, w2, t2) \<Rightarrow> (case persist_error t2 of Some x \<Rightarrow> (Err x, w2, t2) | None \<Rightarrow> (Ok v, w2, t2))
           | (Err x, w2, t2) \<Rightarrow> (Err x, w2, t2)
           | (Panic, w2, t2) \<Rightarrow> (Panic, w2, t2))
      | (Err x, w1, t1, _) \<Rightarrow> (Err x, w1, t1)
      | (Panic, w1, t1, _) \<Rightarrow> (Panic, w1, t1))"

text \<open>From \<^verbatim>\<open>BEGIN\<close> through \<^verbatim>\<open>COMMIT\<close>: the value, the queue to run and the finalizers.\<close>

definition commit_phase :: "('d, 'x) env \<Rightarrow> ('d, 'x, 'v) write_body \<Rightarrow> 'd db_world
    \<Rightarrow> ('x, 'v \<times> ('d, 'x, 'v) after_commit_item list \<times> nat list) result \<times> 'd db_world" where
  "commit_phase E f w =
     (case begin_immediate E w of
        Inl x \<Rightarrow> (Err x, w)
      | Inr w0 \<Rightarrow>
          (case prepared_write f w0 of
             (Panic, w1, _) \<Rightarrow> (Panic, w1)
           | (Err x, w1, _) \<Rightarrow> (Err x, rollback_transaction w1)
           | (Ok v, w1, t1) \<Rightarrow>
               (case persist_callbacks E (coalesce_queue (after_commit t1)) w1 of
                  (Panic, w2) \<Rightarrow> (Panic, w2)
                | (Err x, w2) \<Rightarrow> (Err x, rollback_transaction w2)
                | (Ok q, w2) \<Rightarrow>
                    (case commit_transaction E w2 of
                       Inl x \<Rightarrow> (Err x, rollback_transaction w2)
                     | Inr w3 \<Rightarrow> (Ok (v, q, commit_finalizers t1), w3)))))"

definition callback_phase :: "('d, 'x) env \<Rightarrow> ('d, 'x, 'v) after_commit_item list \<Rightarrow> nat list \<Rightarrow> 'd db_world
    \<Rightarrow> ('x, unit) result \<times> 'd db_world" where
  "callback_phase E q fs w =
     run_callbacks E (unsettled q) (fold (\<lambda>f. note_log (Finalized f)) fs (collect_settled q w))"

definition run_write_with_settled :: "('d, 'x) env \<Rightarrow> ('d, 'x, 'v) write_body \<Rightarrow> ('d, 'x, 'v) after_hook" where
  "run_write_with_settled E f w =
     (case commit_phase E f w of
        (Err x, w1) \<Rightarrow> (Err x, w1)
      | (Panic, w1) \<Rightarrow> (Panic, w1)
      | (Ok (v, q, fs), w1) \<Rightarrow>
          (case callback_phase E q fs w1 of
             (Ok _, w2) \<Rightarrow> (Ok v, w2)
           | (Err x, w2) \<Rightarrow> (Err x, w2)
           | (Panic, w2) \<Rightarrow> (Panic, w2)))"

text \<open>\<^verbatim>\<open>flush_settled_broadcasts\<close> takes the collected broadcasts until none is left; a sink that
  collects a new one at each would keep it going, so its result is optional.\<close>

fun deliver_all :: "('d, 'x) env \<Rightarrow> event list \<Rightarrow> 'd db_world \<Rightarrow> bool \<times> 'd db_world" where
  "deliver_all E [] w = (False, w)"
| "deliver_all E (e # es) w =
     (let (p, w1) = deliver_event E e w in if p then (True, w1) else deliver_all E es w1)"

partial_function (option) flush_settled :: "('d, 'x) env \<Rightarrow> 'd db_world \<Rightarrow> (bool \<times> 'd db_world) option" where
  "flush_settled E w =
     (if settled w = [] then Some (False, w)
      else let (p, w1) = deliver_all E (settled w) (w\<lparr>settled := []\<rparr>)
           in if p then Some (True, w1) else flush_settled E w1)"

text \<open>\<^verbatim>\<open>run_write\<close> starts with no settled broadcast, and rolls back what a panic left open.\<close>

definition run_write :: "('d, 'x) env \<Rightarrow> ('d, 'x, 'v) write_body \<Rightarrow> 'd db_world
    \<Rightarrow> (('x, 'v) result \<times> 'd db_world) option" where
  "run_write E f w =
     (case run_write_with_settled E f (w\<lparr>settled := []\<rparr>) of
        (Panic, w1) \<Rightarrow>
          (case flush_settled E (rollback_transaction w1) of
             None \<Rightarrow> None
           | Some (_, w2) \<Rightarrow> Some (Panic, w2))
      | (r, w1) \<Rightarrow>
          (case flush_settled E w1 of
             None \<Rightarrow> None
           | Some (p, w2) \<Rightarrow> Some (if p then Panic else r, w2)))"

end
