(* ===== verification/WriteCode.thy ===== *)
theory WriteCode
  imports WriteQueue
begin

section \<open>Code that runs in a write\<close>

text \<open>
  Model code gets a \<^verbatim>\<open>&mut Tx\<close> and can do nothing to the after-commit machinery but call its
  operations.  A program is what such code may do: run statements on the connection (\<open>Act\<close>: any
  change of the rows, then code chosen by what it read), call an operation of \<^verbatim>\<open>Tx\<close>, run a
  savepoint, return, fail or panic.  \<open>exec\<close> gives a program its meaning over the operations of
  theory \<open>WriteQueue\<close>; the theorems below hold for every program.
\<close>

datatype ('d, 'x, 'v) code =
    Return 'v
  | Fail 'x
  | Crash
  | Act "'d \<Rightarrow> 'd" "'d \<Rightarrow> ('d, 'x, 'v) code"
  | EmitNow event "('d, 'x, 'v) code"
  | EmitAfterCommit event "('d, 'x, 'v) code"
  | EmitRecordJob string int event "('d \<Rightarrow> int \<Rightarrow> 'x + bool) option" "('d, 'x, 'v) code"
  | EmitBroadcastOnce string int broadcast_request "('d, 'x, 'v) code"
  | BroadcastOnce broadcast_request "('d, 'x, 'v) code"
  | BroadcastSettled broadcast_request "('d, 'x, 'v) code"
  | IfSettled broadcast_request "('d, 'x, 'v) code" "('d, 'x, 'v) code"
  | IfRegistered string int "('d, 'x, 'v) code" "('d, 'x, 'v) code"
  | IfInTransaction "('d, 'x, 'v) code" "('d, 'x, 'v) code"
  | AfterCommit "('d, 'x, 'v) code" "('d, 'x, 'v) code"
  | AfterCommitLatest string int "('d, 'x, 'v) code" "('d, 'x, 'v) code"
  | AfterCommitRecord string int "('d, 'x, 'v) code" "('d, 'x, 'v) code"
  | RegisterRecord string int "('d, 'x, 'v) code"
  | BeforeCommit string int "('d, 'x, 'v) code" "('x, 'v) result \<Rightarrow> ('d, 'x, 'v) code"
  | OnCommitSuccess nat "('d, 'x, 'v) code"
  | Savepoint "('d, 'x, 'v) code" "('x, 'v) result \<Rightarrow> ('d, 'x, 'v) code"
  | WriteAfterCommit "('d, 'x, 'v) code" "('x, 'v) result \<Rightarrow> ('d, 'x, 'v) code"

text \<open>Goes on with \<open>f\<close> unless the operation panicked.\<close>

definition proceed :: "bool \<times> 'd db_world \<times> ('d, 'x, 'v) write_tx \<Rightarrow> ('d, 'x, 'v) write_body
    \<Rightarrow> ('x, 'v) result \<times> 'd db_world \<times> ('d, 'x, 'v) write_tx \<times> ('d, 'x, 'v) registration list" where
  "proceed r f = (let (p, w, t) = r in if p then (Panic, w, t, []) else f w t)"

definition register_more :: "('d, 'x, 'v) registration list
    \<Rightarrow> ('x, 'v) result \<times> 'd db_world \<times> ('d, 'x, 'v) write_tx \<times> ('d, 'x, 'v) registration list
    \<Rightarrow> ('x, 'v) result \<times> 'd db_world \<times> ('d, 'x, 'v) write_tx \<times> ('d, 'x, 'v) registration list" where
  "register_more new r = (let (o', w, t, new') = r in (o', w, t, new @ new'))"

text \<open>A closure run with a \<^verbatim>\<open>Tx\<close> outside any transaction; that \<^verbatim>\<open>Tx\<close> is dropped after it.\<close>

definition outside :: "('d, 'x, 'v) write_body \<Rightarrow> ('d, 'x, 'v) after_hook" where
  "outside f w = (let (r, w1, _, _) = f w (new_tx False) in (r, w1))"

text \<open>\<^verbatim>\<open>Tx::before_commit_record_latest\<close>: outside a transaction the hook runs at once, with the
  caller's \<^verbatim>\<open>Tx\<close>, and its error is the caller's.\<close>

definition before_commit_latest :: "string \<Rightarrow> int \<Rightarrow> ('d, 'x, 'v) write_body
    \<Rightarrow> (('x, 'v) result \<Rightarrow> ('d, 'x, 'v) write_body) \<Rightarrow> 'v \<Rightarrow> ('d, 'x, 'v) write_body" where
  "before_commit_latest key i h k unit w t =
     (if in_transaction t then register_more [(key, i, Prep h)] (k (Ok unit) w t)
      else (let (r, w1, t1, new) = h w t in
            case r of Panic \<Rightarrow> (Panic, w1, t1, new) | _ \<Rightarrow> register_more new (k r w1 t1)))"

definition run_savepoint :: "('d, 'x, 'v) write_body \<Rightarrow> (('x, 'v) result \<Rightarrow> ('d, 'x, 'v) write_body)
    \<Rightarrow> ('d, 'x, 'v) write_body" where
  "run_savepoint f k w t =
     (case f (open_savepoint w) t of
        (Ok v, w1, t1, new) \<Rightarrow> register_more new (k (Ok v) (release_savepoint w w1) t1)
      | (Err x, w1, t1, new) \<Rightarrow> k (Err x) (rollback_savepoint w w1) (savepoint_failed t t1)
      | (Panic, w1, t1, new) \<Rightarrow> (Panic, w1, t1, new))"

definition write_after_commit :: "('d, 'x) env \<Rightarrow> ('d, 'x, 'v) write_body
    \<Rightarrow> (('x, 'v) result \<Rightarrow> ('d, 'x, 'v) write_body) \<Rightarrow> ('d, 'x, 'v) write_body" where
  "write_after_commit E f k w t =
     (case run_write_with_settled E f w of
        (Panic, w1) \<Rightarrow> (Panic, w1, t, [])
      | (r, w1) \<Rightarrow> k r w1 t)"

primrec exec :: "('d, 'x) env \<Rightarrow> 'v \<Rightarrow> ('d, 'x, 'v) code \<Rightarrow> ('d, 'x, 'v) write_body" where
  "exec E u (Return v) = (\<lambda>w t. (Ok v, w, t, []))"
| "exec E u (Fail x) = (\<lambda>w t. (Err x, w, t, []))"
| "exec E u Crash = (\<lambda>w t. (Panic, w, t, []))"
| "exec E u (Act f k) = (\<lambda>w t. exec E u (k (db_rows w)) (w\<lparr>db_rows := f (db_rows w)\<rparr>) t)"
| "exec E u (EmitNow e k) = (\<lambda>w t. proceed (emit_now E e w t) (exec E u k))"
| "exec E u (EmitAfterCommit e k) = (\<lambda>w t. proceed (emit_after_commit E e w t) (exec E u k))"
| "exec E u (EmitRecordJob table i e c k) =
     (\<lambda>w t. proceed (emit_record_job_once_if E table i e c w t) (exec E u k))"
| "exec E u (EmitBroadcastOnce table i b k) =
     (\<lambda>w t. proceed (emit_broadcast_once E table i b w t) (exec E u k))"
| "exec E u (BroadcastOnce b k) = (\<lambda>w t. proceed (broadcast_after_commit_once E b w t) (exec E u k))"
| "exec E u (BroadcastSettled b k) =
     (\<lambda>w t. proceed (broadcast_after_commit_settled_once E b w t) (exec E u k))"
| "exec E u (IfSettled b k1 k2) =
     (\<lambda>w t. if has_settled_broadcast b w t then exec E u k1 w t else exec E u k2 w t)"
| "exec E u (IfRegistered key i k1 k2) =
     (\<lambda>w t. if has_commit_record key i t then exec E u k1 w t else exec E u k2 w t)"
| "exec E u (IfInTransaction k1 k2) =
     (\<lambda>w t. if in_transaction t then exec E u k1 w t else exec E u k2 w t)"
| "exec E u (AfterCommit h k) =
     (\<lambda>w t. proceed (after_commit_hook (outside (exec E u h)) w t) (exec E u k))"
| "exec E u (AfterCommitLatest key i h k) =
     (\<lambda>w t. proceed (after_commit_record_latest key i (outside (exec E u h)) w t) (exec E u k))"
| "exec E u (AfterCommitRecord table i h k) =
     (\<lambda>w t. proceed (after_commit_record table i (outside (exec E u h)) w t) (exec E u k))"
| "exec E u (RegisterRecord table i k) = (\<lambda>w t. exec E u k w (register_record table i t))"
| "exec E u (BeforeCommit key i h k) =
     before_commit_latest key i (exec E u h) (\<lambda>r. exec E u (k r)) u"
| "exec E u (OnCommitSuccess f k) = (\<lambda>w t. proceed (on_commit_success f w t) (exec E u k))"
| "exec E u (Savepoint p k) = run_savepoint (exec E u p) (\<lambda>r. exec E u (k r))"
| "exec E u (WriteAfterCommit p k) = write_after_commit E (exec E u p) (\<lambda>r. exec E u (k r))"

end
