(* ===== verification/WriteInside.thy ===== *)
theory WriteInside
  imports WriteCode
begin

section \<open>What code inside an open transaction can change\<close>

text \<open>
  Inside a transaction nothing leaves the write but what \<^verbatim>\<open>emit_now\<close> emits (an event the code
  names in a call of \<^verbatim>\<open>emit_now\<close>, never one it only registers for after the commit): the rows to restore and
  the settled broadcasts stay, the queue and the finalizers only grow.  This gives the two rollback
  properties: an aborted write and a failed savepoint leave no trace.
\<close>

subsection \<open>Registrations only grow\<close>

inductive later :: "('d, 'x, 'v) after_commit_item \<Rightarrow> ('d, 'x, 'v) after_commit_item \<Rightarrow> bool" where
  later_same [intro!, simp]: "later x x"
| later_hooks: "later (RecordHooks table i hs) (RecordHooks table i (hs @ gs))"

definition extends_queue :: "('d, 'x, 'v) after_commit_item list \<Rightarrow> ('d, 'x, 'v) after_commit_item list \<Rightarrow> bool" where
  "extends_queue q q' \<longleftrightarrow> (\<exists>q1 q2. q' = q1 @ q2 \<and> list_all2 later q q1)"

lemma later_trans: "\<lbrakk>later x y; later y z\<rbrakk> \<Longrightarrow> later x z"
  by (auto elim!: later.cases intro: later_hooks)

lemma extends_queue_push [simp]: "extends_queue q (q @ xs)"
  unfolding extends_queue_def by (intro exI[of _ q] exI[of _ xs]) (simp add: list_all2_refl)

lemma extends_queue_refl [simp]: "extends_queue q q"
  using extends_queue_push[of q "[]"] by simp

lemma extends_queue_trans: "\<lbrakk>extends_queue q q'; extends_queue q' q''\<rbrakk> \<Longrightarrow> extends_queue q q''"
proof -
  assume "extends_queue q q'" and "extends_queue q' q''"
  then obtain q1 q2 p1 p2 where q: "q' = q1 @ q2" "list_all2 later q q1"
    and p: "q'' = p1 @ p2" "list_all2 later (q1 @ q2) p1"
    by (auto simp: extends_queue_def)
  from p(2) obtain r1 r2 where r: "p1 = r1 @ r2" "list_all2 later q1 r1"
    by (auto simp: list_all2_append1)
  have "list_all2 later q r1"
    by (rule list_all2_trans[OF later_trans q(2) r(2)])
  with p(1) r(1) show ?thesis by (auto simp: extends_queue_def)
qed

lemma extends_queue_slot: "extends_queue q (add_to_slot table i h q)"
proof -
  have "list_all2 later q (add_to_slot table i h q)"
    by (induction table i h q rule: add_to_slot.induct) (auto intro: later_hooks list_all2_refl)
  then show ?thesis unfolding extends_queue_def by (metis append_Nil2)
qed

lemma cut_hooks_later: "later x y \<Longrightarrow> cut_hooks (hook_count x) y = x"
  by (induction rule: later.induct) (auto split: after_commit_item.splits, case_tac x, auto)

lemma restore_queue_extended: "extends_queue q q' \<Longrightarrow> restore_queue (hook_marks q) q' = q"
proof -
  assume "extends_queue q q'"
  then obtain q1 q2 where q': "q' = q1 @ q2" and l: "list_all2 later q q1"
    by (auto simp: extends_queue_def)
  from l have "map (\<lambda>(m, x). cut_hooks m x) (zip (hook_marks q) q1) = q"
    by (induction rule: list_all2_induct) (auto simp: hook_marks_def cut_hooks_later)
  moreover have "length q1 = length q" using l by (simp add: list_all2_lengthD)
  ultimately show ?thesis by (simp add: restore_queue_def q' hook_marks_def)
qed

subsection \<open>The effect of code on an open transaction\<close>

text \<open>The events a program may hand to \<^verbatim>\<open>emit_now\<close> while its transaction is open: in its own calls,
  those of its savepoints and those of its preparations; not what its callbacks, which run after the
  commit, or a nested write, which cannot begin, emit.\<close>

primrec at_once :: "('d, 'x, 'v) code \<Rightarrow> event set" where
  "at_once (Return v) = {}"
| "at_once (Fail x) = {}"
| "at_once Crash = {}"
| "at_once (Act f k) = (\<Union>d. at_once (k d))"
| "at_once (EmitNow e k) = insert e (at_once k)"
| "at_once (EmitAfterCommit e k) = at_once k"
| "at_once (EmitRecordJob table i e c k) = at_once k"
| "at_once (EmitBroadcastOnce table i b k) = at_once k"
| "at_once (BroadcastOnce b k) = at_once k"
| "at_once (BroadcastSettled b k) = at_once k"
| "at_once (IfSettled b k1 k2) = at_once k1 \<union> at_once k2"
| "at_once (IfRegistered key i k1 k2) = at_once k1 \<union> at_once k2"
| "at_once (IfInTransaction k1 k2) = at_once k1"
| "at_once (AfterCommit h k) = at_once k"
| "at_once (AfterCommitLatest key i h k) = at_once k"
| "at_once (AfterCommitRecord table i h k) = at_once k"
| "at_once (RegisterRecord table i k) = at_once k"
| "at_once (BeforeCommit key i h k) = at_once h \<union> (\<Union>r. at_once (k r))"
| "at_once (OnCommitSuccess f k) = at_once k"
| "at_once (Savepoint p k) = at_once p \<union> (\<Union>r. at_once (k r))"
| "at_once (WriteAfterCommit p k) = (\<Union>r. at_once (k r))"

definition kept_inside :: "event set \<Rightarrow> 'd db_world \<Rightarrow> ('d, 'x, 'v) write_tx \<Rightarrow> 'd db_world \<Rightarrow> ('d, 'x, 'v) write_tx \<Rightarrow> bool" where
  "kept_inside U w t w' t' \<longleftrightarrow>
     snapshot w' = snapshot w \<and> settled w' = settled w \<and>
     (\<exists>es. set es \<subseteq> U \<and> happened w' = happened w @ map Emitted es) \<and>
     in_transaction t' \<and> extends_queue (after_commit t) (after_commit t') \<and>
     prefix (commit_finalizers t) (commit_finalizers t')"

inductive prep_inside :: "event set \<Rightarrow> ('d, 'x, 'v) prep \<Rightarrow> bool" where
  "(\<And>w t r w' t' new. \<lbrakk>in_transaction t; snapshot w \<noteq> None; h w t = (r, w', t', new)\<rbrakk>
      \<Longrightarrow> kept_inside U w t w' t' \<and> (\<forall>x \<in> set new. prep_inside U (snd (snd x))))
   \<Longrightarrow> prep_inside U (Prep h)"

definition body_inside :: "event set \<Rightarrow> ('d, 'x, 'v) write_body \<Rightarrow> bool" where
  "body_inside U f \<longleftrightarrow> (\<forall>w t r w' t' new. in_transaction t \<longrightarrow> snapshot w \<noteq> None \<longrightarrow> f w t = (r, w', t', new)
     \<longrightarrow> kept_inside U w t w' t' \<and> (\<forall>x \<in> set new. prep_inside U (snd (snd x))))"

lemma body_insideI:
  assumes "\<And>w t r w' t' new. \<lbrakk>in_transaction t; snapshot w \<noteq> None; f w t = (r, w', t', new)\<rbrakk>
    \<Longrightarrow> kept_inside U w t w' t' \<and> (\<forall>x \<in> set new. prep_inside U (snd (snd x)))"
  shows "body_inside U f"
  using assms unfolding body_inside_def by blast

lemma body_insideD:
  assumes "body_inside U f" "in_transaction t" "snapshot w \<noteq> None" "f w t = (r, w', t', new)"
  shows "kept_inside U w t w' t'" "\<And>x. x \<in> set new \<Longrightarrow> prep_inside U (snd (snd x))"
  using assms unfolding body_inside_def by blast+

lemma prep_inside_iff: "prep_inside U (Prep h) \<longleftrightarrow> body_inside U h"
  by (subst prep_inside.simps) (auto simp: body_inside_def)

lemma kept_inside_refl: "in_transaction t \<Longrightarrow> kept_inside U w t w t"
  by (auto simp: kept_inside_def intro: exI[of _ "[]"])

lemma kept_inside_trans:
  "\<lbrakk>kept_inside U w t w1 t1; kept_inside U w1 t1 w2 t2\<rbrakk> \<Longrightarrow> kept_inside U w t w2 t2"
proof -
  assume a: "kept_inside U w t w1 t1" and b: "kept_inside U w1 t1 w2 t2"
  from a obtain es where "set es \<subseteq> U" "happened w1 = happened w @ map Emitted es" by (auto simp: kept_inside_def)
  moreover from b obtain fs where "set fs \<subseteq> U" "happened w2 = happened w1 @ map Emitted fs" by (auto simp: kept_inside_def)
  ultimately have "set (es @ fs) \<subseteq> U \<and> happened w2 = happened w @ map Emitted (es @ fs)" by simp
  then have "\<exists>gs. set gs \<subseteq> U \<and> happened w2 = happened w @ map Emitted gs" by blast
  with a b show ?thesis
    unfolding kept_inside_def by (metis extends_queue_trans prefix_order.trans)
qed

subsection \<open>Every operation keeps it\<close>

named_theorems tx_defs \<open>definitions of the operations of a transaction\<close>

lemmas [tx_defs] = emit_now_def emit_after_commit_def emit_record_job_once_if_def emit_broadcast_once_def
  broadcast_after_commit_once_def broadcast_after_commit_settled_once_def after_commit_hook_def
  after_commit_record_latest_def after_commit_record_def on_commit_success_def register_record_def

definition op_inside :: "event set \<Rightarrow> ('d db_world \<Rightarrow> ('d, 'x, 'v) write_tx \<Rightarrow> bool \<times> 'd db_world \<times> ('d, 'x, 'v) write_tx) \<Rightarrow> bool" where
  "op_inside U f \<longleftrightarrow> (\<forall>w t p w' t'. in_transaction t \<longrightarrow> f w t = (p, w', t') \<longrightarrow> kept_inside U w t w' t')"

lemma op_insideI:
  assumes "\<And>w t p w' t'. \<lbrakk>in_transaction t; f w t = (p, w', t')\<rbrakk> \<Longrightarrow> kept_inside U w t w' t'"
  shows "op_inside U f"
  using assms unfolding op_inside_def by blast

lemma op_insideD:
  "\<lbrakk>op_inside U f; in_transaction t; f w t = (p, w', t')\<rbrakk> \<Longrightarrow> kept_inside U w t w' t'"
  unfolding op_inside_def by blast

lemma persist_inside:
  assumes "in_transaction t" "tx_persist E e w t = (ok, w', t')"
  shows "kept_inside U w t w' t'" "in_transaction t'" "after_commit t' = after_commit t"
  using assms by (auto simp: tx_persist_def kept_inside_def split: prod.splits option.splits if_splits
      intro: exI[of _ "[]"])

lemma push_inside [simp]: "in_transaction t \<Longrightarrow> kept_inside U w t w (push_item x t)"
  by (auto simp: kept_inside_def push_item_def intro: exI[of _ "[]"])

lemma emit_inside [simp]: "in_transaction t \<Longrightarrow> e \<in> U \<Longrightarrow> kept_inside U w t (sink_emit e w) t"
  by (auto simp: kept_inside_def sink_emit_def note_log_def intro: exI[of _ "[e]"])

lemma kept_inside_in_transaction: "kept_inside U w t w' t' \<Longrightarrow> in_transaction t'"
  by (simp add: kept_inside_def)

lemma emit_now_inside: "e \<in> U \<Longrightarrow> op_inside U (emit_now E e)"
  by (rule op_insideI)
     (auto simp: emit_now_def split: prod.splits if_splits dest: persist_inside intro: kept_inside_trans[OF persist_inside(1) emit_inside])

lemma emit_after_commit_inside: "op_inside U (emit_after_commit E e)"
  by (rule op_insideI)
     (auto simp: emit_after_commit_def split: prod.splits if_splits dest: persist_inside
       intro: kept_inside_trans[OF persist_inside(1) push_inside])

lemma emit_record_job_inside: "op_inside U (emit_record_job_once_if E table i e c)"
  by (rule op_insideI) (auto simp: emit_record_job_once_if_def split: if_splits intro: kept_inside_refl)

lemma emit_broadcast_once_inside: "op_inside U (emit_broadcast_once E table i b)"
  by (rule op_insideI)
     (auto simp: emit_broadcast_once_def Let_def split: prod.splits if_splits dest: persist_inside
       intro: kept_inside_trans[OF persist_inside(1) push_inside] kept_inside_refl)

lemma broadcast_once_inside: "op_inside U (broadcast_after_commit_once E b)"
proof (rule op_insideI)
  fix w :: "'a db_world" and t p w' t'
  assume "in_transaction t" "broadcast_after_commit_once E b w t = (p, w', t')"
  then show "kept_inside U w t w' t'"
    by (auto simp: broadcast_after_commit_once_def Let_def kept_inside_refl split: if_splits
        dest: op_insideD[OF emit_after_commit_inside])
qed

lemma broadcast_settled_inside: "op_inside U (broadcast_after_commit_settled_once E b)"
  by (rule op_insideI)
     (auto simp: broadcast_after_commit_settled_once_def Let_def split: prod.splits if_splits dest: persist_inside
       intro: kept_inside_trans[OF persist_inside(1) push_inside] kept_inside_refl)

lemma after_commit_inside: "op_inside U (after_commit_hook h)"
  by (rule op_insideI) (auto simp: after_commit_hook_def)

lemma after_commit_latest_inside: "op_inside U (after_commit_record_latest key i h)"
  by (rule op_insideI) (auto simp: after_commit_record_latest_def)

lemma register_record_inside: "in_transaction t \<Longrightarrow> kept_inside U w t w (register_record table i t)"
  by (auto simp: register_record_def kept_inside_refl)

lemma after_commit_record_inside: "op_inside U (after_commit_record table i h)"
proof (rule op_insideI)
  fix w :: "'a db_world" and t p w' t'
  assume t: "in_transaction t" and run: "after_commit_record table i h w t = (p, w', t')"
  let ?t = "register_record table i t"
  have "kept_inside U w ?t w (?t\<lparr>after_commit := add_to_slot table i h (after_commit ?t)\<rparr>)"
    using kept_inside_in_transaction[OF register_record_inside[OF t]]
    by (auto simp: kept_inside_def extends_queue_slot intro: exI[of _ "[]"])
  with run t show "kept_inside U w t w' t'"
    by (auto simp: after_commit_record_def Let_def intro: kept_inside_trans[OF register_record_inside])
qed

lemma on_commit_success_inside: "op_inside U (on_commit_success f)"
  by (rule op_insideI) (auto simp: on_commit_success_def kept_inside_def intro: exI[of _ "[]"])

lemmas ops_inside = emit_now_inside emit_after_commit_inside emit_record_job_inside emit_broadcast_once_inside
  broadcast_once_inside broadcast_settled_inside after_commit_inside after_commit_latest_inside
  after_commit_record_inside on_commit_success_inside

subsection \<open>Every program keeps it\<close>

lemma proceed_inside:
  assumes "op_inside U f" "body_inside U k"
  shows "body_inside U (\<lambda>w t. proceed (f w t) k)"
proof (rule body_insideI)
  fix w t r w' t' new
  assume t: "in_transaction t" and s: "snapshot w \<noteq> None" and run: "proceed (f w t) k = (r, w', t', new)"
  obtain p w1 t1 where op: "f w t = (p, w1, t1)" by (cases "f w t")
  with assms(1) t have k1: "kept_inside U w t w1 t1" unfolding op_inside_def by blast
  show "kept_inside U w t w' t' \<and> (\<forall>x \<in> set new. prep_inside U (snd (snd x)))"
  proof (cases p)
    case True
    with op run k1 show ?thesis by (simp add: proceed_def)
  next
    case False
    with op run have "k w1 t1 = (r, w', t', new)" by (simp add: proceed_def)
    moreover have "in_transaction t1" "snapshot w1 \<noteq> None" using k1 s by (auto simp: kept_inside_def)
    ultimately show ?thesis
      using body_insideD[OF assms(2)] kept_inside_trans[OF k1] by blast
  qed
qed

lemma kept_inside_step:
  assumes "body_inside U k" "k w1 t1 = (r, w', t', new)" "kept_inside U w t w1 t1" "snapshot w \<noteq> None"
  shows "kept_inside U w t w' t' \<and> (\<forall>x \<in> set new. prep_inside U (snd (snd x)))"
  using body_insideD[OF assms(1) _ _ assms(2)] assms(3,4) kept_inside_trans[OF assms(3)]
  by (metis kept_inside_def)

lemma before_commit_inside:
  assumes "body_inside U h" "\<And>r. body_inside U (k r)"
  shows "body_inside U (before_commit_latest key i h k u)"
proof (rule body_insideI)
  fix w t r w' t' new
  assume t: "in_transaction t" and s: "snapshot w \<noteq> None"
    and run: "before_commit_latest key i h k u w t = (r, w', t', new)"
  then obtain new' where k: "k (Ok u) w t = (r, w', t', new')" and new: "new = (key, i, Prep h) # new'"
    by (auto simp: before_commit_latest_def register_more_def split: prod.splits)
  show "kept_inside U w t w' t' \<and> (\<forall>x \<in> set new. prep_inside U (snd (snd x)))"
    using kept_inside_step[OF assms(2) k kept_inside_refl[OF t] s] assms(1) new by (auto simp: prep_inside_iff)
qed

text \<open>After a failed savepoint the transaction is the one before it, but for a persistence error.\<close>

lemma savepoint_failed_restores:
  assumes "kept_inside U (open_savepoint w) t w1 t1" "snapshot w \<noteq> None" and t: "in_transaction t"
  shows "\<exists>es. set es \<subseteq> U \<and> rollback_savepoint w w1 = w\<lparr>happened := happened w @ map Emitted es\<rparr>"
    and "savepoint_failed t t1 = t\<lparr>persist_error := persist_error t1\<rparr>"
proof -
  from assms obtain es d where es: "set es \<subseteq> U" and w1: "happened w1 = happened w @ map Emitted es" "snapshot w1 = snapshot w"
      "settled w1 = settled w" "snapshot w = Some d"
    by (auto simp: kept_inside_def open_savepoint_def split: option.splits)
  with es show "\<exists>es. set es \<subseteq> U \<and> rollback_savepoint w w1 = w\<lparr>happened := happened w @ map Emitted es\<rparr>"
    by (intro exI[of _ es]) (cases w; cases w1; simp add: rollback_savepoint_def release_savepoint_def)
  from assms have "restore_queue (hook_marks (after_commit t)) (after_commit t1) = after_commit t"
    "take (length (commit_finalizers t)) (commit_finalizers t1) = commit_finalizers t"
    by (auto simp: kept_inside_def restore_queue_extended elim!: prefixE)
  then show "savepoint_failed t t1 = t\<lparr>persist_error := persist_error t1\<rparr>"
    using assms t by (cases t; cases t1) (simp add: savepoint_failed_def kept_inside_def)
qed

lemma open_savepoint_inside:
  "snapshot w \<noteq> None \<Longrightarrow> open_savepoint w = w"
  by (cases w) (auto simp: open_savepoint_def)

lemma release_savepoint_inside:
  "snapshot w \<noteq> None \<Longrightarrow> release_savepoint w w1 = w1"
  by (cases w1) (auto simp: release_savepoint_def)

lemma savepoint_inside:
  assumes f: "body_inside U f" and k: "\<And>r. body_inside U (k r)"
  shows "body_inside U (run_savepoint f k)"
proof (rule body_insideI)
  fix w t r w' t' new
  assume t: "in_transaction t" and s: "snapshot w \<noteq> None" and run: "run_savepoint f k w t = (r, w', t', new)"
  obtain r1 w1 t1 new1 where op: "f w t = (r1, w1, t1, new1)" by (cases "f w t")
  from body_insideD[OF f t s op] have k1: "kept_inside U w t w1 t1" and p1: "\<forall>x \<in> set new1. prep_inside U (snd (snd x))"
    by auto
  show "kept_inside U w t w' t' \<and> (\<forall>x \<in> set new. prep_inside U (snd (snd x)))"
  proof (cases r1)
    case (Ok v)
    with run op s obtain new2 where run2: "k (Ok v) w1 t1 = (r, w', t', new2)" and new: "new = new1 @ new2"
      by (auto simp: run_savepoint_def open_savepoint_inside release_savepoint_inside register_more_def
          split: prod.splits)
    show ?thesis unfolding new using kept_inside_step[OF k run2 k1 s] p1 by (simp add: ball_Un)
  next
    case (Err x)
    have "kept_inside U (open_savepoint w) t w1 t1" using k1 s by (simp add: open_savepoint_inside)
    note undone = savepoint_failed_restores[OF this s t]
    from undone(1) obtain es where "set es \<subseteq> U" "rollback_savepoint w w1 = w\<lparr>happened := happened w @ map Emitted es\<rparr>" by blast
    with undone(2) have "kept_inside U w t (rollback_savepoint w w1) (savepoint_failed t t1)"
      using t by (auto simp: kept_inside_def)
    moreover have "k (Err x) (rollback_savepoint w w1) (savepoint_failed t t1) = (r, w', t', new)"
      using run op Err s by (simp add: run_savepoint_def open_savepoint_inside)
    ultimately show ?thesis using kept_inside_step[OF k _ _ s] by blast
  next
    case Panic
    with run op s k1 p1 show ?thesis by (auto simp: run_savepoint_def open_savepoint_inside)
  qed
qed

text \<open>A write cannot be nested in a transaction: \<^verbatim>\<open>BEGIN\<close> fails.\<close>

lemma write_after_commit_inside:
  assumes k: "\<And>r. body_inside U (k r)"
  shows "body_inside U (write_after_commit E f k)"
proof (rule body_insideI)
  fix w t r w' t' new
  assume t: "in_transaction t" and s: "snapshot w \<noteq> None" and run: "write_after_commit E f k w t = (r, w', t', new)"
  then have "k (Err (nested_error E)) w t = (r, w', t', new)"
    by (auto simp: write_after_commit_def run_write_with_settled_def commit_phase_def begin_immediate_def)
  with kept_inside_step[OF k this kept_inside_refl[OF t] s]
  show "kept_inside U w t w' t' \<and> (\<forall>x \<in> set new. prep_inside U (snd (snd x)))" by simp
qed

lemma body_inside_if: "\<lbrakk>body_inside U f; body_inside U g\<rbrakk> \<Longrightarrow> body_inside U (\<lambda>w t. if b w t then f w t else g w t)"
  by (auto simp: body_inside_def)

lemma body_inside_in_transaction:
  "body_inside U f \<Longrightarrow> body_inside U (\<lambda>w t. if in_transaction t then f w t else g w t)"
  by (auto simp: body_inside_def)

lemma exec_inside_within: "at_once p \<subseteq> U \<Longrightarrow> body_inside U (exec E u p)"
proof (induction p)
  case (Act f k)
  show ?case
  proof (rule body_insideI)
    fix w t r w' t' new
    assume t: "in_transaction t" and s: "snapshot w \<noteq> None" and run: "exec E u (Act f k) w t = (r, w', t', new)"
    have kept: "kept_inside U w t (w\<lparr>db_rows := f (db_rows w)\<rparr>) t" using t by (auto simp: kept_inside_def)
    have go_on: "body_inside U (exec E u (k (db_rows w)))"
      by (rule Act.IH[OF rangeI]) (use Act.prems in auto)
    have "exec E u (k (db_rows w)) (w\<lparr>db_rows := f (db_rows w)\<rparr>) t = (r, w', t', new)" using run by simp
    then show "kept_inside U w t w' t' \<and> (\<forall>x \<in> set new. prep_inside U (snd (snd x)))"
      by (rule kept_inside_step[OF go_on _ kept s])
  qed
next
  case (RegisterRecord table i k)
  show ?case
  proof (rule body_insideI)
    fix w t r w' t' new
    assume t: "in_transaction t" and s: "snapshot w \<noteq> None"
      and run: "exec E u (RegisterRecord table i k) w t = (r, w', t', new)"
    have "body_inside U (exec E u k)" by (rule RegisterRecord.IH) (use RegisterRecord.prems in simp)
    from kept_inside_step[OF this _ register_record_inside[OF t] s] run
    show "kept_inside U w t w' t' \<and> (\<forall>x \<in> set new. prep_inside U (snd (snd x)))" by auto
  qed
next
  case (BeforeCommit key i h k)
  then show ?case by (simp, intro before_commit_inside) (auto simp: UN_subset_iff)
next
  case (Savepoint p k)
  then show ?case by (simp, intro savepoint_inside) (auto simp: UN_subset_iff)
next
  case (WriteAfterCommit p k)
  then show ?case by (simp, intro write_after_commit_inside) (auto simp: UN_subset_iff)
next
  case (IfInTransaction k1 k2)
  then show ?case by (simp add: body_inside_in_transaction)
next
  case (Return v)
  show ?case by (auto simp: body_inside_def kept_inside_refl)
next
  case (Fail x)
  show ?case by (auto simp: body_inside_def kept_inside_refl)
next
  case Crash
  show ?case by (auto simp: body_inside_def kept_inside_refl)
qed (simp; intro proceed_inside body_inside_if ops_inside; simp)+

lemma exec_inside: "body_inside (at_once p) (exec E u p)"
  by (rule exec_inside_within) simp

subsection \<open>Preparing and aborting\<close>

lemma latest_registrations_ball:
  "\<forall>x \<in> set rs. P x \<Longrightarrow> \<forall>x \<in> set (latest_registrations rs). P x"
  using set_latest_registrations by blast

lemma run_preparations_inside:
  assumes "run_preparations rs w t = (r, w', t', new)" "in_transaction t" "snapshot w \<noteq> None"
    "\<forall>x \<in> set rs. prep_inside U (snd (snd x))"
  shows "kept_inside U w t w' t' \<and> (\<forall>x \<in> set new. prep_inside U (snd (snd x)))"
  using assms
proof (induction rs arbitrary: w t r w' t' new)
  case (Cons x rest)
  obtain key i h where x: "x = (key, i, Prep h)" by (metis prep.exhaust prod_cases3)
  obtain r1 w1 t1 new1 where h: "h w t = (r1, w1, t1, new1)" by (cases "h w t")
  have b: "body_inside U h" using Cons.prems(4) x by (simp add: prep_inside_iff)
  note one = body_insideD[OF b Cons.prems(2,3) h]
  show ?case
  proof (cases r1)
    case (Ok v)
    obtain r2 w2 t2 new2 where rest: "run_preparations rest w1 t1 = (r2, w2, t2, new2)"
      by (cases "run_preparations rest w1 t1")
    have "in_transaction t1" "snapshot w1 \<noteq> None"
      using one(1) Cons.prems(3) by (auto simp: kept_inside_def)
    from Cons.IH[OF rest this] Cons.prems(4)
    have two: "kept_inside U w1 t1 w2 t2" "\<forall>x \<in> set new2. prep_inside U (snd (snd x))" by auto
    from Cons.prems(1) x h Ok rest have eqs: "w' = w2" "t' = t2" "new = new1 @ new2" by auto
    show ?thesis unfolding eqs using kept_inside_trans[OF one(1) two(1)] one(2) two(2) by (simp add: ball_Un)
  qed (use Cons.prems(1) x h one in auto)
qed (auto simp: kept_inside_refl)

lemma prepare_commit_inside:
  assumes "prepare_commit rs w t = (r, w', t')" "in_transaction t" "snapshot w \<noteq> None"
    "\<forall>x \<in> set rs. prep_inside U (snd (snd x))"
  shows "kept_inside U w t w' t'"
  using assms
proof (induction rs w t arbitrary: r w' t' rule: prepare_commit.induct)
  case (1 rs w t)
  show ?case
  proof (cases "rs = []")
    case False
    obtain r1 w1 t1 new where run: "run_preparations (latest_registrations rs) w t = (r1, w1, t1, new)"
      by (cases "run_preparations (latest_registrations rs) w t")
    from run_preparations_inside[OF run "1.prems"(2,3) latest_registrations_ball[OF "1.prems"(4)]]
    have one: "kept_inside U w t w1 t1" "\<forall>x \<in> set new. prep_inside U (snd (snd x))" by auto
    show ?thesis
    proof (cases r1)
      case (Ok v)
      have "in_transaction t1" "snapshot w1 \<noteq> None"
        using one(1) "1.prems"(3) by (auto simp: kept_inside_def)
      moreover have "prepare_commit new w1 t1 = (r, w', t')"
        using "1.prems"(1) False run Ok by (simp add: prepare_commit_round)
      ultimately show ?thesis
        using "1.IH"[OF False run[symmetric] Ok refl refl] one kept_inside_trans by blast
    qed (use "1.prems"(1) False run one in \<open>simp_all add: prepare_commit_round\<close>)
  qed (use "1.prems" in \<open>simp add: kept_inside_refl\<close>)
qed

lemma prepared_write_inside:
  assumes "prepared_write (exec E u p) w = (r, w', t')" "snapshot w \<noteq> None"
  shows "kept_inside (at_once p) w (new_tx True) w' t'"
proof -
  obtain r1 w1 t1 new where run: "exec E u p w (new_tx True) = (r1, w1, t1, new)"
    by (cases "exec E u p w (new_tx True)")
  have t: "in_transaction (new_tx True)" by (simp add: new_tx_def)
  note one = body_insideD[OF exec_inside t assms(2) run]
  show ?thesis
  proof (cases r1)
    case (Ok v)
    obtain r2 w2 t2 where prep: "prepare_commit new w1 t1 = (r2, w2, t2)"
      by (cases "prepare_commit new w1 t1")
    have "in_transaction t1" "snapshot w1 \<noteq> None"
      using one(1) assms(2) by (auto simp: kept_inside_def)
    with prepare_commit_inside[OF prep] one(2) have "kept_inside (at_once p) w1 t1 w2 t2" by auto
    moreover have "w' = w2" "t' = t2"
      using assms(1) run Ok prep by (auto simp: prepared_write_def split: result.splits option.splits)
    ultimately show ?thesis using kept_inside_trans[OF one(1)] by simp
  qed (use assms(1) run one in \<open>auto simp: prepared_write_def\<close>)
qed

lemma persist_callbacks_facts:
  "snapshot (snd (persist_callbacks E q w)) = snapshot w \<and> settled (snd (persist_callbacks E q w)) = settled w \<and>
   happened (snd (persist_callbacks E q w)) = happened w \<and> fst (persist_callbacks E q w) \<noteq> Panic"
proof (induction q arbitrary: w)
  case (Cons x q)
  then show ?case
    by (cases x) (simp_all add: Let_def case_prod_beta split: sum.split bool.split option.split)
qed simp

definition traceless :: "event set \<Rightarrow> log_entry list \<Rightarrow> bool" where
  "traceless U L \<longleftrightarrow> set L \<subseteq> {Began, Rolled_back} \<union> Emitted ` U"

lemma begin_immediate_world:
  "begin_immediate E w = Inr w0 \<Longrightarrow>
     w0 = note_log Began (w\<lparr>snapshot := Some (db_rows w)\<rparr>) \<and> snapshot w = None"
  by (auto simp: begin_immediate_def split: option.splits)

lemma commit_phase_aborted:
  assumes "commit_phase E (exec E u p) w = (r, w1)" "snapshot w = None" "\<And>c. r \<noteq> Ok c"
  shows "\<exists>L. traceless (at_once p) L \<and> happened w1 = happened w @ L \<and> settled w1 = settled w \<and>
    (if r = Panic then snapshot w1 = Some (db_rows w) else snapshot w1 = None \<and> db_rows w1 = db_rows w)"
proof (cases "begin_immediate E w")
  case (Inl x)
  with assms show ?thesis by (auto simp: commit_phase_def traceless_def intro: exI[of _ "[]"])
next
  case (Inr w0)
  obtain r2 w2 t2 where prep: "prepared_write (exec E u p) w0 = (r2, w2, t2)"
    by (cases "prepared_write (exec E u p) w0")
  from begin_immediate_world[OF Inr] prepared_write_inside[OF prep] obtain es where
    es: "set es \<subseteq> at_once p" and w2: "snapshot w2 = Some (db_rows w)" "settled w2 = settled w" "happened w2 = happened w @ Began # map Emitted es"
    by (auto simp: kept_inside_def note_log_def)
  obtain r3 w3 where pers: "persist_callbacks E (coalesce_queue (after_commit t2)) w2 = (r3, w3)"
    by (cases "persist_callbacks E (coalesce_queue (after_commit t2)) w2")
  have w3: "snapshot w3 = snapshot w2" "settled w3 = settled w2" "happened w3 = happened w2" "r3 \<noteq> Panic"
    using persist_callbacks_facts[of E "coalesce_queue (after_commit t2)" w2] pers by auto
  have undo: ?thesis if "w1 = rollback_transaction w'" "r \<noteq> Panic" "snapshot w' = Some (db_rows w)" "settled w' = settled w"
      "happened w' = happened w @ Began # map Emitted es" for w'
    using that by (intro exI[of _ "Began # map Emitted es @ [Rolled_back]"])
      (use es in \<open>auto simp: rollback_transaction_def note_log_def traceless_def\<close>)
  show ?thesis
  proof (cases r2)
    case Panic
    with assms(1) Inr prep w2 es show ?thesis
      by (intro exI[of _ "Began # map Emitted es"]) (auto simp: commit_phase_def traceless_def)
  next
    case (Err x)
    with assms(1) Inr prep w2 show ?thesis by (intro undo[of w2]) (auto simp: commit_phase_def)
  next
    case (Ok v)
    show ?thesis
    proof (cases r3)
      case (Ok q)
      with assms(1,3) Inr prep pers \<open>r2 = Ok v\<close> w2 w3 show ?thesis
        by (intro undo[of w3]) (auto simp: commit_phase_def split: sum.splits)
    next
      case (Err x)
      with assms(1) Inr prep pers Ok w2 w3 show ?thesis by (intro undo[of w3]) (auto simp: commit_phase_def)
    next
      case Panic
      with w3 show ?thesis by simp
    qed
  qed
qed

lemma flush_settled_none: "settled w = [] \<Longrightarrow> flush_settled E w = Some (False, w)"
  by (subst flush_settled.simps) simp

text \<open>The commits a write that did not commit left: none.\<close>

lemma run_write_with_settled_aborted:
  assumes "commit_phase E f w = (r, w1)" "\<And>c. r \<noteq> Ok c"
  shows "\<exists>r'. run_write_with_settled E f w = (r', w1) \<and> (\<forall>v. r' \<noteq> Ok v) \<and> (r' = Panic \<longleftrightarrow> r = Panic)"
  using assms by (cases r) (auto simp: run_write_with_settled_def)

text \<open>C7.  A write that does not commit (its code failed or panicked, a preparation failed, an event
  could not be persisted, \<^verbatim>\<open>COMMIT\<close> was refused) leaves no trace: the rows are the ones before it,
  the connection is out of the transaction, no callback, finalizer or committed event ran, and
  only events the code handed to \<^verbatim>\<open>emit_now\<close> itself got out: none that it registered for after the
  commit.  This holds for every program, with any sink.\<close>

theorem aborted_write_leaves_no_trace:
  assumes "snapshot w = None" "commit_phase E (exec E u p) (w\<lparr>settled := []\<rparr>) = (r, w1)" "\<And>c. r \<noteq> Ok c"
  shows "\<exists>r' w' L. run_write E (exec E u p) w = Some (r', w') \<and> (\<forall>v. r' \<noteq> Ok v) \<and>
    db_rows w' = db_rows w \<and> snapshot w' = None \<and> settled w' = [] \<and>
    happened w' = happened w @ L \<and> set L \<subseteq> {Began, Rolled_back} \<union> Emitted ` at_once p"
proof -
  from commit_phase_aborted[OF assms(2) _ assms(3)] assms(1) obtain L where
    L: "traceless (at_once p) L" "happened w1 = happened w @ L" "settled w1 = []"
    and rest: "if r = Panic then snapshot w1 = Some (db_rows w) else snapshot w1 = None \<and> db_rows w1 = db_rows w"
    by auto
  from run_write_with_settled_aborted[OF assms(2,3)] obtain r' where
    run: "run_write_with_settled E (exec E u p) (w\<lparr>settled := []\<rparr>) = (r', w1)" "\<forall>v. r' \<noteq> Ok v"
      "r' = Panic \<longleftrightarrow> r = Panic" by blast
  show ?thesis
  proof (cases "r = Panic")
    case True
    with run rest L show ?thesis
      by (intro exI[of _ Panic] exI[of _ "rollback_transaction w1"] exI[of _ "L @ [Rolled_back]"])
         (auto simp: run_write_def rollback_transaction_def note_log_def flush_settled_none traceless_def)
  next
    case False
    with run rest L show ?thesis
      by (intro exI[of _ r'] exI[of _ w1] exI[of _ L])
         (auto simp: run_write_def flush_settled_none traceless_def split: result.splits)
  qed
qed

text \<open>C8.  A failed savepoint leaves no trace either: the code after it sees the rows, the queue, the
  hooks of every record slot, the finalizers and the preparations as they were before it.  Only a
  persistence error, which fails the whole write, and events emitted at once remain.\<close>

theorem failed_savepoint_leaves_no_trace:
  assumes "in_transaction t" "snapshot w \<noteq> None" "exec E u p w t = (Err x, w1, t1, new)"
  shows "\<exists>es. set es \<subseteq> at_once p \<and> exec E u (Savepoint p k) w t =
    exec E u (k (Err x)) (w\<lparr>happened := happened w @ map Emitted es\<rparr>) (t\<lparr>persist_error := persist_error t1\<rparr>)"
proof -
  have "kept_inside (at_once p) (open_savepoint w) t w1 t1"
    using body_insideD(1)[OF exec_inside assms] by (simp add: open_savepoint_inside assms(2))
  note undone = savepoint_failed_restores[OF this assms(2,1)]
  from undone(1) obtain es where "set es \<subseteq> at_once p" "rollback_savepoint w w1 = w\<lparr>happened := happened w @ map Emitted es\<rparr>" by blast
  with undone(2) assms(2,3) show ?thesis
    by (intro exI[of _ es]) (simp add: run_savepoint_def open_savepoint_inside)
qed

subsection \<open>Two runs\<close>

text \<open>A write that inserts a row, registers a job and fails, and one whose savepoint does.\<close>

definition quiet_env :: "(nat list, string) env" where
  "quiet_env = \<lparr>persist_rows = (\<lambda>e d. (d, None)), emit_panics = (\<lambda>e. False), committed = (\<lambda>e w. (False, sink_emit e w)),
     exists_row = (\<lambda>table i d. Inr True), nested_error = ''nested'', begin_error = (\<lambda>d. None),
     commit_error = (\<lambda>d. None)\<rparr>"

definition empty_world :: "nat list db_world" where
  "empty_world = \<lparr>db_rows = [], snapshot = None, happened = [], settled = []\<rparr>"

definition failing_code :: "(nat list, string, unit) code" where
  "failing_code = Act (\<lambda>d. 7 # d) (\<lambda>_. AfterCommitRecord ''rooms'' 1 (Return ())
     (EmitAfterCommit (PurgeBlob 1) (Fail ''refused'')))"

lemmas run_defs = commit_phase_def begin_immediate_def prepared_write_def new_tx_def note_log_def proceed_def
  tx_persist_def push_item_def tx_defs rollback_transaction_def commit_transaction_def coalesce_queue_def put_item_def
  sink_emit_def

theorem aborted_write_leaves_no_trace_witness:
  "\<exists>r' w' L. run_write quiet_env (exec quiet_env () failing_code) empty_world = Some (r', w') \<and>
    (\<forall>v. r' \<noteq> Ok v) \<and> db_rows w' = [] \<and> snapshot w' = None \<and> settled w' = [] \<and>
    happened w' = L \<and> set L \<subseteq> {Began, Rolled_back}"
proof -
  have "\<exists>w1. commit_phase quiet_env (exec quiet_env () failing_code) (empty_world\<lparr>settled := []\<rparr>)
    = (Err ''refused'', w1)"
    by (simp add: quiet_env_def failing_code_def empty_world_def run_defs)
  then obtain w1 where run: "commit_phase quiet_env (exec quiet_env () failing_code) (empty_world\<lparr>settled := []\<rparr>)
    = (Err ''refused'', w1)" ..
  have "snapshot empty_world = None" "db_rows empty_world = []" "happened empty_world = []"
    by (simp_all add: empty_world_def)
  moreover have "at_once failing_code = {}" by (simp add: failing_code_def)
  ultimately show ?thesis using aborted_write_leaves_no_trace[OF _ run] by auto
qed

theorem failed_savepoint_leaves_no_trace_witness:
  "\<exists>es pe. exec quiet_env () (Savepoint failing_code (\<lambda>r. Return ())) (empty_world\<lparr>snapshot := Some []\<rparr>) (new_tx True)
    = (Ok (), empty_world\<lparr>snapshot := Some [], happened := map Emitted es\<rparr>, (new_tx True)\<lparr>persist_error := pe\<rparr>, [])"
proof -
  have "\<exists>w1 t1. exec quiet_env () failing_code (empty_world\<lparr>snapshot := Some []\<rparr>) (new_tx True)
    = (Err ''refused'', w1, t1, [])"
    by (simp add: quiet_env_def failing_code_def empty_world_def run_defs)
  then obtain w1 t1 where "exec quiet_env () failing_code (empty_world\<lparr>snapshot := Some []\<rparr>) (new_tx True)
    = (Err ''refused'', w1, t1, [])" by blast
  from failed_savepoint_leaves_no_trace[OF _ _ this, of "\<lambda>r. Return ()"] show ?thesis
    by (auto simp: new_tx_def empty_world_def)
qed

end
