(* ===== verification/WriteCommitted.thy ===== *)
theory WriteCommitted
  imports WriteInside
begin

section \<open>After-commit work\<close>

text \<open>
  Everything that happens is appended to the log, in the transaction and after it, and settled
  broadcasts are only collected, once each, until they are flushed.  The interface of the event
  sink (\<open>committed_sink\<close>) promises that handling a committed event does the same; with it every
  job of a committed write is woken unless a callback panics, and the settled broadcasts are
  delivered once, after everything else.
\<close>

fun sent :: "log_entry list \<Rightarrow> event set" where
  "sent [] = {}"
| "sent (Emitted e # L) = insert e (sent L)"
| "sent (Delivered e # L) = insert e (sent L)"
| "sent (_ # L) = sent L"

lemma sent_append [simp]: "sent (L @ M) = sent L \<union> sent M"
  by (induction L rule: sent.induct) auto

lemma sent_iff: "e \<in> sent L \<longleftrightarrow> Emitted e \<in> set L \<or> Delivered e \<in> set L"
  by (induction L rule: sent.induct) auto

text \<open>The events a program sends in any way but as settled broadcasts: in its own calls, its
  savepoints, preparations, callbacks and nested writes.\<close>

primrec sends :: "('d, 'x, 'v) code \<Rightarrow> event set" where
  "sends (Return v) = {}"
| "sends (Fail x) = {}"
| "sends Crash = {}"
| "sends (Act f k) = (\<Union>d. sends (k d))"
| "sends (EmitNow e k) = insert e (sends k)"
| "sends (EmitAfterCommit e k) = insert e (sends k)"
| "sends (EmitRecordJob table i e c k) = insert e (sends k)"
| "sends (EmitBroadcastOnce table i b k) = insert (BroadcastEvent b) (sends k)"
| "sends (BroadcastOnce b k) = insert (BroadcastEvent b) (sends k)"
| "sends (BroadcastSettled b k) = sends k"
| "sends (IfSettled b k1 k2) = sends k1 \<union> sends k2"
| "sends (IfRegistered key i k1 k2) = sends k1 \<union> sends k2"
| "sends (IfInTransaction k1 k2) = sends k1 \<union> sends k2"
| "sends (AfterCommit h k) = sends h \<union> sends k"
| "sends (AfterCommitLatest key i h k) = sends h \<union> sends k"
| "sends (AfterCommitRecord table i h k) = sends h \<union> sends k"
| "sends (RegisterRecord table i k) = sends k"
| "sends (BeforeCommit key i h k) = sends h \<union> (\<Union>r. sends (k r))"
| "sends (OnCommitSuccess f k) = sends k"
| "sends (Savepoint p k) = sends p \<union> (\<Union>r. sends (k r))"
| "sends (WriteAfterCommit p k) = sends p \<union> (\<Union>r. sends (k r))"

text \<open>From one world to a later one: only events of \<open>V\<close> were sent.\<close>

definition onward :: "event set \<Rightarrow> 'd db_world \<Rightarrow> 'd db_world \<Rightarrow> bool" where
  "onward V w w' \<longleftrightarrow> (\<exists>L. happened w' = happened w @ L \<and> sent L \<subseteq> V) \<and> prefix (settled w) (settled w') \<and>
     (distinct (settled w) \<longrightarrow> distinct (settled w'))"

lemma onward_refl [simp]: "onward V w w"
  by (simp add: onward_def)

lemma onward_trans: "\<lbrakk>onward V w1 w2; onward V w2 w3\<rbrakk> \<Longrightarrow> onward V w1 w3"
proof -
  assume a: "onward V w1 w2" and b: "onward V w2 w3"
  then obtain L M where "happened w2 = happened w1 @ L" "sent L \<subseteq> V" "happened w3 = happened w2 @ M" "sent M \<subseteq> V"
    by (auto simp: onward_def)
  then have "happened w3 = happened w1 @ (L @ M) \<and> sent (L @ M) \<subseteq> V" by simp
  then have "\<exists>L. happened w3 = happened w1 @ L \<and> sent L \<subseteq> V" by blast
  with a b show ?thesis unfolding onward_def by (meson prefix_order.trans)
qed

lemma onward_rows [simp]: "onward V w (w\<lparr>db_rows := d\<rparr>)" "onward V w (w\<lparr>snapshot := s\<rparr>)"
  by (simp_all add: onward_def)

lemma onward_log [simp]: "sent [x] \<subseteq> V \<Longrightarrow> onward V w (note_log x w)"
  by (simp add: onward_def note_log_def)

lemma onward_boundary [simp]:
  "onward V w (note_log Began (w\<lparr>snapshot := s\<rparr>))" "onward V w (note_log Committed (w\<lparr>snapshot := s\<rparr>))"
  by (simp_all add: onward_def note_log_def)

lemma onward_emit [simp]: "e \<in> V \<Longrightarrow> onward V w (sink_emit e w)"
  by (simp add: sink_emit_def)

lemma onward_collect [simp]: "onward V w (collect_settled_broadcast e w)"
  by (simp add: onward_def collect_settled_broadcast_def)

lemma onward_fold: "(\<And>x w. onward V w (f x w)) \<Longrightarrow> onward V w (fold f xs w)"
  by (induction xs arbitrary: w) (auto intro: onward_trans)

definition hook_onward :: "event set \<Rightarrow> ('d, 'x, 'v) after_hook \<Rightarrow> bool" where
  "hook_onward V h \<longleftrightarrow> (\<forall>w. onward V w (snd (h w)))"

fun item_onward :: "event set \<Rightarrow> ('d, 'x, 'v) after_commit_item \<Rightarrow> bool" where
  "item_onward V (RecordHook _ _ h) \<longleftrightarrow> hook_onward V h"
| "item_onward V (RecordHooks _ _ hs) \<longleftrightarrow> list_all (hook_onward V) hs"
| "item_onward V (Hook h) \<longleftrightarrow> hook_onward V h"
| "item_onward V (RecordJob _ _ ev _) \<longleftrightarrow> (\<forall>e. ev = Some e \<longrightarrow> e \<in> V)"
| "item_onward V (EventItem e) \<longleftrightarrow> e \<in> V"
| "item_onward V (RecordBroadcast _ _ e) \<longleftrightarrow> e \<in> V"
| "item_onward V (SettledBroadcast e) \<longleftrightarrow> True"

lemma wake_onward: "item_onward V x \<Longrightarrow> onward V w (snd (wake_committed_job E x w))"
  by (cases x) (auto simp: wake_committed_job_def split: option.splits)

lemma wake_all_onward: "list_all (item_onward V) q \<Longrightarrow> onward V w (snd (wake_committed_jobs E q w))"
proof (induction q arbitrary: w)
  case (Cons x q)
  then show ?case
    using wake_onward[of V x w E] by (auto simp: case_prod_beta Let_def intro: onward_trans)
qed simp

definition queue_onward :: "event set \<Rightarrow> ('d, 'x, 'v) write_tx \<Rightarrow> bool" where
  "queue_onward V t \<longleftrightarrow> list_all (item_onward V) (after_commit t)"

inductive prep_onward :: "event set \<Rightarrow> ('d, 'x, 'v) prep \<Rightarrow> bool" where
  "(\<And>w t r w' t' new. \<lbrakk>queue_onward V t; h w t = (r, w', t', new)\<rbrakk>
      \<Longrightarrow> onward V w w' \<and> queue_onward V t' \<and> (\<forall>x \<in> set new. prep_onward V (snd (snd x))))
   \<Longrightarrow> prep_onward V (Prep h)"

definition body_onward :: "event set \<Rightarrow> ('d, 'x, 'v) write_body \<Rightarrow> bool" where
  "body_onward V f \<longleftrightarrow> (\<forall>w t r w' t' new. queue_onward V t \<longrightarrow> f w t = (r, w', t', new)
     \<longrightarrow> onward V w w' \<and> queue_onward V t' \<and> (\<forall>x \<in> set new. prep_onward V (snd (snd x))))"

lemma body_onwardI:
  assumes "\<And>w t r w' t' new. \<lbrakk>queue_onward V t; f w t = (r, w', t', new)\<rbrakk>
    \<Longrightarrow> onward V w w' \<and> queue_onward V t' \<and> (\<forall>x \<in> set new. prep_onward V (snd (snd x)))"
  shows "body_onward V f"
  using assms unfolding body_onward_def by blast

lemma body_onwardD:
  assumes "body_onward V f" "queue_onward V t" "f w t = (r, w', t', new)"
  shows "onward V w w'" "queue_onward V t'" "\<forall>x \<in> set new. prep_onward V (snd (snd x))"
  using assms unfolding body_onward_def by blast+

lemma prep_onward_iff: "prep_onward V (Prep h) \<longleftrightarrow> body_onward V h"
  by (subst prep_onward.simps) (auto simp: body_onward_def)

lemma queue_onward_push [simp]: "queue_onward V (push_item x t) \<longleftrightarrow> queue_onward V t \<and> item_onward V x"
  by (auto simp: queue_onward_def push_item_def)

lemma queue_onward_new [simp]: "queue_onward V (new_tx b)"
  by (simp add: queue_onward_def new_tx_def)

lemma queue_onward_slot: "\<lbrakk>list_all (item_onward V) q; hook_onward V h\<rbrakk> \<Longrightarrow> list_all (item_onward V) (add_to_slot table i h q)"
  by (induction table i h q rule: add_to_slot.induct) auto

lemma queue_onward_register [simp]: "queue_onward V t \<Longrightarrow> queue_onward V (register_record table i t)"
  by (simp add: register_record_def)

lemma list_all_take: "list_all P xs \<Longrightarrow> list_all P (take n xs)"
  by (meson in_set_takeD list_all_iff)

lemma cut_hooks_onward: "item_onward V x \<Longrightarrow> item_onward V (cut_hooks m x)"
  by (cases "(m, x)" rule: cut_hooks.cases) (auto simp: list_all_take)

lemma restore_queue_onward: "list_all (item_onward V) q \<Longrightarrow> list_all (item_onward V) (restore_queue marks q)"
  by (auto simp: restore_queue_def list_all_iff cut_hooks_onward dest!: set_zip_rightD in_set_takeD)

lemma put_item_onward: "\<lbrakk>list_all (item_onward V) q; item_onward V x\<rbrakk> \<Longrightarrow> list_all (item_onward V) (put_item q x)"
  by (cases x) (auto simp: put_item_def list_all_iff)

lemma coalesce_queue_onward: "list_all (item_onward V) q \<Longrightarrow> list_all (item_onward V) (coalesce_queue q)"
proof -
  have "list_all (item_onward V) acc \<Longrightarrow> list_all (item_onward V) q \<Longrightarrow> list_all (item_onward V) (foldl put_item acc q)" for acc
    by (induction q arbitrary: acc) (auto simp: put_item_onward)
  then show "list_all (item_onward V) q \<Longrightarrow> ?thesis" by (simp add: coalesce_queue_def)
qed

lemma persist_callbacks_onward:
  "\<lbrakk>persist_callbacks E q w = (Ok q', w'); list_all (item_onward V) q\<rbrakk> \<Longrightarrow> list_all (item_onward V) q'"
proof (induction q arbitrary: w q' w')
  case (Cons x q)
  have "map_ok ((#) y) (persist_callbacks E q v) = (Ok q', w') \<Longrightarrow> item_onward V y \<Longrightarrow> list_all (item_onward V) q'" for y v
    using Cons.IH[of v] Cons.prems(2)
    by (cases "persist_callbacks E q v") (auto simp: map_ok_def split: result.splits)
  with Cons.prems show ?case
    by (cases x) (auto simp: Let_def case_prod_beta split: sum.splits bool.splits option.splits)
qed simp

subsection \<open>Transactions that only append\<close>

lemma run_preparations_onward:
  assumes "run_preparations rs w t = (r, w', t', new)" "queue_onward V t"
    "\<forall>x \<in> set rs. prep_onward V (snd (snd x))"
  shows "onward V w w' \<and> queue_onward V t' \<and> (\<forall>x \<in> set new. prep_onward V (snd (snd x)))"
  using assms
proof (induction rs arbitrary: w t r w' t' new)
  case (Cons x rest)
  obtain key i h where x: "x = (key, i, Prep h)" by (metis prep.exhaust prod_cases3)
  obtain r1 w1 t1 new1 where h: "h w t = (r1, w1, t1, new1)" by (cases "h w t")
  have "body_onward V h" using Cons.prems(3) x by (simp add: prep_onward_iff)
  note one = body_onwardD[OF this Cons.prems(2) h]
  show ?case
  proof (cases r1)
    case (Ok v)
    obtain r2 w2 t2 new2 where rest: "run_preparations rest w1 t1 = (r2, w2, t2, new2)"
      by (cases "run_preparations rest w1 t1")
    from Cons.IH[OF rest one(2)] Cons.prems(3)
    have two: "onward V w1 w2" "queue_onward V t2" "\<forall>x \<in> set new2. prep_onward V (snd (snd x))" by auto
    from Cons.prems(1) x h Ok rest have eqs: "w' = w2" "t' = t2" "new = new1 @ new2" by auto
    show ?thesis unfolding eqs using onward_trans[OF one(1) two(1)] one(3) two by (simp add: ball_Un)
  qed (use Cons.prems(1) x h one in auto)
qed auto

lemma prepare_commit_onward:
  assumes "prepare_commit rs w t = (r, w', t')" "queue_onward V t" "\<forall>x \<in> set rs. prep_onward V (snd (snd x))"
  shows "onward V w w' \<and> queue_onward V t'"
  using assms
proof (induction rs w t arbitrary: r w' t' rule: prepare_commit.induct)
  case (1 rs w t)
  show ?case
  proof (cases "rs = []")
    case False
    obtain r1 w1 t1 new where run: "run_preparations (latest_registrations rs) w t = (r1, w1, t1, new)"
      by (cases "run_preparations (latest_registrations rs) w t")
    from run_preparations_onward[OF run "1.prems"(2) latest_registrations_ball[OF "1.prems"(3)]]
    have one: "onward V w w1" "queue_onward V t1" "\<forall>x \<in> set new. prep_onward V (snd (snd x))" by auto
    show ?thesis
    proof (cases r1)
      case (Ok v)
      have "prepare_commit new w1 t1 = (r, w', t')"
        using "1.prems"(1) False run Ok by (simp add: prepare_commit_round)
      then show ?thesis
        using "1.IH"[OF False run[symmetric] Ok refl refl] one onward_trans by blast
    qed (use "1.prems"(1) False run one in \<open>simp_all add: prepare_commit_round\<close>)
  qed (use "1.prems" in simp)
qed

lemma prepared_write_onward:
  assumes "prepared_write f w = (r, w', t')" "body_onward V f"
  shows "onward V w w' \<and> queue_onward V t'"
proof -
  obtain r1 w1 t1 new where run: "f w (new_tx True) = (r1, w1, t1, new)" by (cases "f w (new_tx True)")
  note one = body_onwardD[OF assms(2) queue_onward_new run]
  show ?thesis
  proof (cases r1)
    case (Ok v)
    obtain r2 w2 t2 where prep: "prepare_commit new w1 t1 = (r2, w2, t2)" by (cases "prepare_commit new w1 t1")
    from prepare_commit_onward[OF prep one(2,3)] have "onward V w w2" "queue_onward V t2"
      using one(1) onward_trans by blast+
    moreover have "w' = w2" "t' = t2"
      using assms(1) run Ok prep by (auto simp: prepared_write_def split: result.splits option.splits)
    ultimately show ?thesis by simp
  qed (use assms(1) run one in \<open>auto simp: prepared_write_def\<close>)
qed

lemma onward_rollback [simp]: "onward V w (rollback_transaction w)"
  by (auto simp: onward_def rollback_transaction_def note_log_def split: option.splits)

lemma onward_persist: "persist_callbacks E q w = (r, w') \<Longrightarrow> onward V w w'"
  using persist_callbacks_facts[of E q w] by (auto simp: onward_def)

lemma commit_phase_onward:
  assumes "commit_phase E f w = (r, w')" "body_onward V f"
  shows "onward V w w' \<and> (\<forall>v q fs. r = Ok (v, q, fs) \<longrightarrow> list_all (item_onward V) q)"
proof (cases "begin_immediate E w")
  case (Inl x)
  with assms show ?thesis by (auto simp: commit_phase_def)
next
  case (Inr w0)
  have w0: "onward V w w0"
    using begin_immediate_world[OF Inr] by simp
  obtain r2 w2 t2 where prep: "prepared_write f w0 = (r2, w2, t2)" by (cases "prepared_write f w0")
  from prepared_write_onward[OF prep assms(2)] w0 have w2: "onward V w w2" "queue_onward V t2"
    by (auto intro: onward_trans)
  obtain r3 w3 where pers: "persist_callbacks E (coalesce_queue (after_commit t2)) w2 = (r3, w3)"
    by (cases "persist_callbacks E (coalesce_queue (after_commit t2)) w2")
  have w3: "onward V w w3" using onward_trans[OF w2(1) onward_persist[OF pers]] .
  have q: "list_all (item_onward V) q" if "r3 = Ok q" for q
    using persist_callbacks_onward[of E _ w2 q w3] pers that w2(2) by (auto simp: queue_onward_def coalesce_queue_onward)
  show ?thesis
  proof (cases r2)
    case (Ok v)
    then show ?thesis
      using assms(1) Inr prep pers w3 q onward_trans[OF w3 onward_rollback]
        onward_trans[OF w3 onward_boundary(2)]
      by (auto simp: commit_phase_def commit_transaction_def split: result.splits option.splits)
  qed (use assms(1) Inr prep w2 onward_trans[OF w2(1) onward_rollback] in \<open>auto simp: commit_phase_def\<close>)
qed

definition op_onward :: "event set \<Rightarrow> ('d db_world \<Rightarrow> ('d, 'x, 'v) write_tx \<Rightarrow> bool \<times> 'd db_world \<times> ('d, 'x, 'v) write_tx) \<Rightarrow> bool" where
  "op_onward V f \<longleftrightarrow> (\<forall>w t p w' t'. queue_onward V t \<longrightarrow> f w t = (p, w', t') \<longrightarrow> onward V w w' \<and> queue_onward V t')"

lemma op_onwardI:
  assumes "\<And>w t p w' t'. \<lbrakk>queue_onward V t; f w t = (p, w', t')\<rbrakk> \<Longrightarrow> onward V w w' \<and> queue_onward V t'"
  shows "op_onward V f"
  using assms unfolding op_onward_def by blast

lemma op_onwardD: "\<lbrakk>op_onward V f; queue_onward V t; f w t = (p, w', t')\<rbrakk> \<Longrightarrow> onward V w w' \<and> queue_onward V t'"
  unfolding op_onward_def by blast

subsection \<open>The event sink\<close>

text \<open>What \<^verbatim>\<open>emit_committed\<close> promises its caller: it may write rows and log more, but leaves the
  settled broadcasts of the write alone and no transaction open, and for an event of \<open>V\<close> it sends
  only events of \<open>V\<close> (with \<open>UNIV\<close> that says nothing).\<close>

locale committed_sink =
  fixes V :: "event set" and E :: "('d, 'x) env"
  assumes sink_sent: "e \<in> V \<Longrightarrow> happened (snd (committed E e w)) = happened w @ L \<Longrightarrow> sent L \<subseteq> V"
    and sink_log: "prefix (happened w) (happened (snd (committed E e w)))"
    and sink_settled: "settled (snd (committed E e w)) = settled w"
    and sink_autocommit: "snapshot w = None \<Longrightarrow> snapshot (snd (committed E e w)) = None"
begin

lemma deliver_log: "prefix (happened w @ [Delivered e]) (happened (snd (deliver_event E e w)))"
  using sink_log[of "note_log (Delivered e) w"] by (simp add: deliver_event_def note_log_def)

lemma deliver_onward:
  assumes "e \<in> V"
  shows "onward V w (snd (deliver_event E e w))"
proof -
  obtain L where L: "happened (snd (deliver_event E e w)) = happened w @ Delivered e # L"
    using deliver_log[of w e] by (auto elim!: prefixE)
  then have "sent L \<subseteq> V"
    using sink_sent[OF assms, of "note_log (Delivered e) w" L] by (simp add: deliver_event_def note_log_def)
  with L assms have "\<exists>L. happened (snd (deliver_event E e w)) = happened w @ L \<and> sent L \<subseteq> V"
    by (intro exI[of _ "Delivered e # L"]) simp
  then show ?thesis
    using sink_settled by (auto simp: onward_def deliver_event_def note_log_def)
qed

lemma deliver_item_onward: "e \<in> V \<Longrightarrow> onward V w (snd (deliver_item E e w))"
  using deliver_onward[of e w] by (simp add: deliver_item_def case_prod_beta)

lemma run_hooks_onward: "list_all (hook_onward V) hs \<Longrightarrow> onward V w (snd (run_hooks hs w))"
proof (induction hs arbitrary: w)
  case (Cons h hs)
  then have "onward V w (snd (h w))" "\<And>w. onward V w (snd (run_hooks hs w))" by (auto simp: hook_onward_def)
  then show ?case
    by (cases "h w"; cases "fst (h w)") (auto intro: onward_trans)
qed simp

lemma run_item_onward: "item_onward V x \<Longrightarrow> onward V w (snd (run_item E x w))"
  by (cases "(E, x, w)" rule: run_item.cases)
     (auto simp: deliver_item_onward simp del: run_hooks.simps intro!: run_hooks_onward split: sum.splits bool.splits)

lemma run_callbacks_onward: "list_all (item_onward V) q \<Longrightarrow> onward V w (snd (run_callbacks E q w))"
proof (induction q arbitrary: w)
  case (Cons x q)
  then have x: "onward V w (snd (run_item E x w))" and q: "\<And>w. onward V w (snd (run_callbacks E q w))"
    by (auto intro: run_item_onward)
  have "onward V w1 (snd (wake_committed_jobs E q w1))" for w1
    using Cons.prems by (intro wake_all_onward) simp
  with x q show ?case
    by (cases "run_item E x w"; cases "fst (run_item E x w)") (auto simp: case_prod_beta Let_def intro: onward_trans)
qed simp

lemma callback_phase_onward:
  "list_all (item_onward V) q \<Longrightarrow> onward V w (snd (callback_phase E q fs w))"
proof -
  assume q: "list_all (item_onward V) q"
  let ?w1 = "collect_settled q w" and ?w2 = "fold (\<lambda>f. note_log (Finalized f)) fs (collect_settled q w)"
  have "onward V w ?w1" unfolding collect_settled_def by (rule onward_fold) simp
  moreover have "onward V ?w1 ?w2" by (rule onward_fold) simp
  moreover have "onward V ?w2 (snd (run_callbacks E (unsettled q) ?w2))"
    using q by (intro run_callbacks_onward) (auto simp: unsettled_def list_all_iff)
  ultimately show ?thesis unfolding callback_phase_def by (blast intro: onward_trans)
qed

lemma run_write_with_settled_onward: "body_onward V f \<Longrightarrow> hook_onward V (run_write_with_settled E f)"
  unfolding hook_onward_def
proof
  fix w
  assume f: "body_onward V f"
  obtain r w1 where c: "commit_phase E f w = (r, w1)" by (cases "commit_phase E f w")
  note one = commit_phase_onward[OF c f]
  show "onward V w (snd (run_write_with_settled E f w))"
  proof (cases r)
    case (Ok v)
    then obtain v' q fs where r: "r = Ok (v', q, fs)" by (cases v) auto
    with one have "onward V w1 (snd (callback_phase E q fs w1))" by (intro callback_phase_onward) auto
    with one c r show ?thesis
      by (cases "callback_phase E q fs w1"; cases "fst (callback_phase E q fs w1)")
         (auto simp: run_write_with_settled_def intro: onward_trans)
  qed (use c one in \<open>auto simp: run_write_with_settled_def\<close>)
qed

subsection \<open>Every program only appends\<close>

lemma persist_onward:
  "tx_persist E e w t = (ok, w', t') \<Longrightarrow> onward V w w' \<and> (queue_onward V t' \<longleftrightarrow> queue_onward V t)"
  by (auto simp: tx_persist_def queue_onward_def split: prod.splits option.splits if_splits)

lemma deliver_event_onward: "deliver_event E e w = (p, w') \<Longrightarrow> e \<in> V \<Longrightarrow> onward V w w'"
  using deliver_onward[of e w] by simp

lemma hook_now_onward: "\<lbrakk>hook_onward V h; hook_now h w = (p, w')\<rbrakk> \<Longrightarrow> onward V w w'"
proof -
  assume "hook_onward V h" and run: "hook_now h w = (p, w')"
  then have "onward V w (snd (h w))" by (simp add: hook_onward_def)
  with run show ?thesis
    by (cases "h w"; cases "fst (h w)") (auto simp: hook_now_def)
qed

lemma emit_now_onward: "e \<in> V \<Longrightarrow> op_onward V (emit_now E e)"
  by (rule op_onwardI)
     (auto simp: emit_now_def split: prod.splits if_splits dest: persist_onward intro: onward_trans[OF _ onward_emit])

lemma emit_after_commit_onward: "e \<in> V \<Longrightarrow> op_onward V (emit_after_commit E e)"
  by (rule op_onwardI)
     (auto simp: emit_after_commit_def split: prod.splits if_splits dest!: persist_onward deliver_event_onward
       intro: onward_trans)

lemma emit_record_job_onward: "e \<in> V \<Longrightarrow> op_onward V (emit_record_job_once_if E table i e c)"
  by (rule op_onwardI)
     (auto simp: emit_record_job_once_if_def split: if_splits dest: op_onwardD[OF emit_after_commit_onward])

lemma emit_broadcast_once_onward: "BroadcastEvent b \<in> V \<Longrightarrow> op_onward V (emit_broadcast_once E table i b)"
  by (rule op_onwardI)
     (auto simp: emit_broadcast_once_def Let_def split: prod.splits if_splits dest!: persist_onward
       intro: onward_trans[OF _ onward_emit])

lemma broadcast_once_onward: "BroadcastEvent b \<in> V \<Longrightarrow> op_onward V (broadcast_after_commit_once E b)"
  by (rule op_onwardI)
     (auto simp: broadcast_after_commit_once_def Let_def split: if_splits dest: op_onwardD[OF emit_after_commit_onward])

lemma broadcast_settled_onward: "op_onward V (broadcast_after_commit_settled_once E b)"
  by (rule op_onwardI)
     (auto simp: broadcast_after_commit_settled_once_def Let_def split: prod.splits if_splits dest!: persist_onward
       intro: onward_trans[OF _ onward_collect])

lemma after_commit_onward: "hook_onward V h \<Longrightarrow> op_onward V (after_commit_hook h)"
  by (rule op_onwardI) (auto simp: after_commit_hook_def split: if_splits prod.splits dest: hook_now_onward)

lemma after_commit_latest_onward: "hook_onward V h \<Longrightarrow> op_onward V (after_commit_record_latest key i h)"
  by (rule op_onwardI)
     (auto simp: after_commit_record_latest_def split: if_splits dest: op_onwardD[OF after_commit_onward])

lemma after_commit_record_onward: "hook_onward V h \<Longrightarrow> op_onward V (after_commit_record table i h)"
proof (rule op_onwardI)
  fix w t p w' t'
  assume h: "hook_onward V h" and t: "queue_onward V t" and run: "after_commit_record table i h w t = (p, w', t')"
  have "list_all (item_onward V) (add_to_slot table i h (after_commit (register_record table i t)))"
    using queue_onward_register[OF t] h by (auto simp: queue_onward_def intro: queue_onward_slot)
  with h t run show "onward V w w' \<and> queue_onward V t'"
    by (auto simp: after_commit_record_def Let_def queue_onward_def split: if_splits
        dest: op_onwardD[OF after_commit_onward, unfolded queue_onward_def])
qed

lemma on_commit_success_onward: "op_onward V (on_commit_success f)"
  by (rule op_onwardI) (auto simp: on_commit_success_def queue_onward_def split: if_splits)

lemmas ops_onward = emit_now_onward emit_after_commit_onward emit_record_job_onward emit_broadcast_once_onward
  broadcast_once_onward broadcast_settled_onward after_commit_onward after_commit_latest_onward
  after_commit_record_onward on_commit_success_onward

lemma onward_step:
  assumes "body_onward V k" "queue_onward V t1" "onward V w w1" "k w1 t1 = (r, w', t', new)"
  shows "onward V w w' \<and> queue_onward V t' \<and> (\<forall>x \<in> set new. prep_onward V (snd (snd x)))"
  using body_onwardD[OF assms(1,2,4)] onward_trans[OF assms(3)] by blast

lemma proceed_onward:
  assumes "op_onward V f" "body_onward V k"
  shows "body_onward V (\<lambda>w t. proceed (f w t) k)"
proof (rule body_onwardI)
  fix w t r w' t' new
  assume t: "queue_onward V t" and run: "proceed (f w t) k = (r, w', t', new)"
  obtain p w1 t1 where op: "f w t = (p, w1, t1)" by (cases "f w t")
  from op_onwardD[OF assms(1) t op] have one: "onward V w w1" "queue_onward V t1" by auto
  show "onward V w w' \<and> queue_onward V t' \<and> (\<forall>x \<in> set new. prep_onward V (snd (snd x)))"
  proof (cases p)
    case True
    with op run one show ?thesis by (simp add: proceed_def)
  next
    case False
    with op run have "k w1 t1 = (r, w', t', new)" by (simp add: proceed_def)
    from onward_step[OF assms(2) one(2,1) this] show ?thesis .
  qed
qed

lemma outside_onward: "body_onward V f \<Longrightarrow> hook_onward V (outside f)"
proof -
  assume f: "body_onward V f"
  have "onward V w (snd (outside f w))" for w
  proof -
    obtain r w1 t1 new where run: "f w (new_tx False) = (r, w1, t1, new)" by (cases "f w (new_tx False)")
    from body_onwardD(1)[OF f queue_onward_new run] run show ?thesis by (simp add: outside_def)
  qed
  then show ?thesis by (simp add: hook_onward_def)
qed

lemma before_commit_onward:
  assumes h: "body_onward V h" and k: "\<And>r. body_onward V (k r)"
  shows "body_onward V (before_commit_latest key i h k u)"
proof (rule body_onwardI)
  fix w t r w' t' new
  assume t: "queue_onward V t" and run: "before_commit_latest key i h k u w t = (r, w', t', new)"
  show "onward V w w' \<and> queue_onward V t' \<and> (\<forall>x \<in> set new. prep_onward V (snd (snd x)))"
  proof (cases "in_transaction t")
    case True
    with run obtain new' where "k (Ok u) w t = (r, w', t', new')" "new = (key, i, Prep h) # new'"
      by (auto simp: before_commit_latest_def register_more_def split: prod.splits)
    with onward_step[OF k t onward_refl] h show ?thesis by (auto simp: prep_onward_iff)
  next
    case False
    obtain r1 w1 t1 new1 where op: "h w t = (r1, w1, t1, new1)" by (cases "h w t")
    note one = body_onwardD[OF h t op]
    show ?thesis
    proof (cases "r1 = Panic")
      case True
      with run op False one show ?thesis by (simp add: before_commit_latest_def)
    next
      case panic: False
      with run op False obtain new2 where run2: "k r1 w1 t1 = (r, w', t', new2)" and new: "new = new1 @ new2"
        by (cases r1) (auto simp: before_commit_latest_def register_more_def split: prod.splits)
      from onward_step[OF k one(2,1) run2] one(3) show ?thesis unfolding new by (simp add: ball_Un)
    qed
  qed
qed

lemma savepoint_world_onward: "onward V w w1 \<Longrightarrow> onward V w (rollback_savepoint w0 w1) \<and> onward V w (release_savepoint w0 w1)"
  by (auto simp: onward_def rollback_savepoint_def release_savepoint_def)

lemma savepoint_onward:
  assumes f: "body_onward V f" and k: "\<And>r. body_onward V (k r)"
  shows "body_onward V (run_savepoint f k)"
proof (rule body_onwardI)
  fix w t r w' t' new
  assume t: "queue_onward V t" and run: "run_savepoint f k w t = (r, w', t', new)"
  obtain r1 w1 t1 new1 where op: "f (open_savepoint w) t = (r1, w1, t1, new1)" by (cases "f (open_savepoint w) t")
  note one = body_onwardD[OF f t op]
  have w1: "onward V w w1" using onward_trans[OF _ one(1)] by (simp add: open_savepoint_def)
  show "onward V w w' \<and> queue_onward V t' \<and> (\<forall>x \<in> set new. prep_onward V (snd (snd x)))"
  proof (cases r1)
    case (Ok v)
    with run op obtain new2 where run2: "k (Ok v) (release_savepoint w w1) t1 = (r, w', t', new2)"
      and new: "new = new1 @ new2"
      by (auto simp: run_savepoint_def register_more_def split: prod.splits)
    from onward_step[OF k one(2) savepoint_world_onward[OF w1, THEN conjunct2] run2] one(3)
    show ?thesis unfolding new by (simp add: ball_Un)
  next
    case (Err x)
    have "queue_onward V (savepoint_failed t t1)"
      using one(2) by (simp add: savepoint_failed_def queue_onward_def restore_queue_onward)
    moreover have "k (Err x) (rollback_savepoint w w1) (savepoint_failed t t1) = (r, w', t', new)"
      using run op Err by (simp add: run_savepoint_def)
    ultimately show ?thesis using onward_step[OF k _ savepoint_world_onward[OF w1, THEN conjunct1]] by blast
  next
    case Panic
    with run op w1 one show ?thesis by (simp add: run_savepoint_def)
  qed
qed

lemma write_after_commit_onward:
  assumes f: "body_onward V f" and k: "\<And>r. body_onward V (k r)"
  shows "body_onward V (write_after_commit E f k)"
proof (rule body_onwardI)
  fix w t r w' t' new
  assume t: "queue_onward V t" and run: "write_after_commit E f k w t = (r, w', t', new)"
  obtain r1 w1 where op: "run_write_with_settled E f w = (r1, w1)" by (cases "run_write_with_settled E f w")
  have w1: "onward V w w1"
    using run_write_with_settled_onward[OF f] op unfolding hook_onward_def by (metis snd_conv)
  show "onward V w w' \<and> queue_onward V t' \<and> (\<forall>x \<in> set new. prep_onward V (snd (snd x)))"
  proof (cases "r1 = Panic")
    case True
    with run op w1 t show ?thesis by (auto simp: write_after_commit_def)
  next
    case False
    with run op have "k r1 w1 t = (r, w', t', new)" by (cases r1) (auto simp: write_after_commit_def)
    from onward_step[OF k t w1 this] show ?thesis .
  qed
qed

lemma body_onward_if: "\<lbrakk>body_onward V f; body_onward V g\<rbrakk> \<Longrightarrow> body_onward V (\<lambda>w t. if b w t then f w t else g w t)"
  by (rule body_onwardI) (simp split: if_splits, (metis body_onwardD)+)

lemma exec_onward: "sends p \<subseteq> V \<Longrightarrow> body_onward V (exec E u p)"
proof (induction p)
  case (Act f k)
  show ?case
  proof (rule body_onwardI)
    fix w t r w' t' new
    assume t: "queue_onward V t" and run: "exec E u (Act f k) w t = (r, w', t', new)"
    then have "exec E u (k (db_rows w)) (w\<lparr>db_rows := f (db_rows w)\<rparr>) t = (r, w', t', new)" by simp
    moreover have "body_onward V (exec E u (k (db_rows w)))"
      by (rule Act.IH[OF rangeI]) (use Act.prems in auto)
    ultimately have "exec E u (k (db_rows w)) (w\<lparr>db_rows := f (db_rows w)\<rparr>) t = (r, w', t', new)"
      and k: "body_onward V (exec E u (k (db_rows w)))" by simp_all
    from onward_step[OF k t onward_rows(1) this(1)]
    show "onward V w w' \<and> queue_onward V t' \<and> (\<forall>x \<in> set new. prep_onward V (snd (snd x)))" .
  qed
next
  case (RegisterRecord table i k)
  show ?case
  proof (rule body_onwardI)
    fix w t r w' t' new
    assume t: "queue_onward V t" and run: "exec E u (RegisterRecord table i k) w t = (r, w', t', new)"
    then have "exec E u k w (register_record table i t) = (r, w', t', new)" by simp
    moreover have k: "body_onward V (exec E u k)" by (rule RegisterRecord.IH) (use RegisterRecord.prems in simp)
    ultimately have "exec E u k w (register_record table i t) = (r, w', t', new)" by simp
    from onward_step[OF k queue_onward_register[OF t] onward_refl this]
    show "onward V w w' \<and> queue_onward V t' \<and> (\<forall>x \<in> set new. prep_onward V (snd (snd x)))" .
  qed
next
  case (BeforeCommit key i h k)
  then show ?case by (simp, intro before_commit_onward) (auto simp: UN_subset_iff)
next
  case (Savepoint p k)
  then show ?case by (simp, intro savepoint_onward) (auto simp: UN_subset_iff)
next
  case (WriteAfterCommit p k)
  then show ?case by (simp, intro write_after_commit_onward) (auto simp: UN_subset_iff)
next
  case (Return v)
  show ?case by (auto simp: body_onward_def)
next
  case (Fail x)
  show ?case by (auto simp: body_onward_def)
next
  case Crash
  show ?case by (auto simp: body_onward_def)
qed (simp; intro proceed_onward body_onward_if ops_onward outside_onward; simp)+

end

end
