(* ===== verification/WriteSystem.thy ===== *)
theory WriteSystem
  imports WriteCommitted
begin

section \<open>What a committed write delivers\<close>

text \<open>
  The default methods of \<^verbatim>\<open>EventSink\<close> and the sink of the job queue as sinks of a write, and
  the properties of a write that commits: record callbacks run once, jobs are woken although a
  callback fails, and settled broadcasts come last.
\<close>

subsection \<open>Sinks\<close>

text \<open>The trait's defaults (\<^verbatim>\<open>crates/db/src/events.rs\<close>): nothing is persisted, a committed event is
  emitted.  Whether emitting panics, and what SQLite does, are parameters.\<close>

definition default_persist :: "event \<Rightarrow> 'd \<Rightarrow> 'd \<times> 'x option" where
  "default_persist e d = (d, None)"

definition default_committed :: "(event \<Rightarrow> bool) \<Rightarrow> event \<Rightarrow> 'd db_world \<Rightarrow> bool \<times> 'd db_world" where
  "default_committed panics e w = (panics e, sink_emit e w)"

definition default_env :: "(event \<Rightarrow> bool) \<Rightarrow> (string \<Rightarrow> int \<Rightarrow> 'd \<Rightarrow> 'x + bool) \<Rightarrow> 'x \<Rightarrow> ('d \<Rightarrow> 'x option) \<Rightarrow> ('d \<Rightarrow> 'x option)
    \<Rightarrow> ('d, 'x) env" where
  "default_env panics ex nested bg cm = \<lparr>persist_rows = default_persist, emit_panics = panics,
     committed = default_committed panics,
     exists_row = ex, nested_error = nested, begin_error = bg, commit_error = cm\<rparr>"

interpretation default_sink: committed_sink V "default_env panics ex nested bg cm" for V panics ex nested bg cm
  by unfold_locales (auto simp: default_env_def default_committed_def sink_emit_def note_log_def)

text \<open>The sink of the job queue (\<^verbatim>\<open>crates/app/src/queue.rs\<close>): an event that is a job becomes a row
  when it is persisted and wakes its queue's workers when it is emitted.  The arguments of the four
  built-in jobs are encoded by \<open>built_in\<close>.\<close>

fun request_for :: "(event \<Rightarrow> job_request) \<Rightarrow> event \<Rightarrow> job_request option" where
  "request_for built_in (JobEvent r) = Some r"
| "request_for built_in (DisconnectUser _ _) = None"
| "request_for built_in (BroadcastEvent _) = None"
| "request_for built_in e = Some (built_in e)"

lemma request_for_job: "request_for b e \<noteq> None \<longleftrightarrow> job_event e"
  by (cases e) auto

definition jobs_persist :: "(event \<Rightarrow> job_request) \<Rightarrow> (json \<Rightarrow> 'a) \<Rightarrow> job_queue \<Rightarrow> timestamp
    \<Rightarrow> event \<Rightarrow> 'a jobs_db \<times> 'o \<Rightarrow> ('a jobs_db \<times> 'o) \<times> 'x option" where
  "jobs_persist built_in print q now e d =
     (case request_for built_in e of
        None \<Rightarrow> (d, None)
      | Some r \<Rightarrow> ((snd (enqueue print q r now (fst d)), snd d), None))"

subsection \<open>Record callbacks\<close>

text \<open>The reference for \<^verbatim>\<open>run_write\<close>'s queue: of the hooks registered for one record only the first
  place stays, with the hook registered last.\<close>

definition first_places :: "('d, 'x, 'v) after_commit_item list \<Rightarrow> ('d, 'x, 'v) after_commit_item list" where
  "first_places q = map snd (filter (\<lambda>(n, x). case hook_of x of None \<Rightarrow> True
     | Some (key, i, _) \<Rightarrow> \<not> list_ex (queued_hook key i) (take n q)) (enumerate 0 q))"

definition last_registered :: "('d, 'x, 'v) after_commit_item list \<Rightarrow> ('d, 'x, 'v) after_commit_item
    \<Rightarrow> ('d, 'x, 'v) after_commit_item" where
  "last_registered q x =
     (case hook_of x of None \<Rightarrow> x | Some (key, i, _) \<Rightarrow> last (filter (queued_hook key i) q))"

lemma first_places_snoc:
  "first_places (q @ [x]) = first_places q @
     (case hook_of x of None \<Rightarrow> [x] | Some (key, i, _) \<Rightarrow> if list_ex (queued_hook key i) q then [] else [x])"
proof -
  have "filter (\<lambda>(n, y). case hook_of y of None \<Rightarrow> True
      | Some (key, i, _) \<Rightarrow> \<not> list_ex (queued_hook key i) (take n (q @ [x]))) (enumerate 0 q) =
    filter (\<lambda>(n, y). case hook_of y of None \<Rightarrow> True
      | Some (key, i, _) \<Rightarrow> \<not> list_ex (queued_hook key i) (take n q)) (enumerate 0 q)"
    by (rule filter_cong) (auto simp: in_set_enumerate_eq split: option.splits)
  then show ?thesis
    by (simp add: first_places_def enumerate_append_eq split: option.splits)
qed

lemma queued_hook_iff: "queued_hook key i x \<longleftrightarrow> (\<exists>h. x = RecordHook key i h)"
  by (cases x) auto

lemma first_places_set: "x \<in> set (first_places q) \<Longrightarrow> x \<in> set q"
  by (auto simp: first_places_def in_set_enumerate_eq)

lemma first_places_hooks:
  "list_ex (queued_hook key i) q \<longleftrightarrow> list_ex (queued_hook key i) (first_places q)"
proof (induction q rule: rev_induct)
  case (snoc x q)
  then show ?case
    by (cases x) (auto simp: first_places_snoc)
qed (simp add: first_places_def)

text \<open>C11.  After-commit hooks registered with \<^verbatim>\<open>after_commit_record_latest\<close> run once per record: the
  queue \<^verbatim>\<open>run_write\<close> works off has them in the place of the record's first registration with the
  last one's closure, and everything else stays where it was registered.\<close>

theorem record_callbacks_run_once:
  "coalesce_queue q = map (last_registered q) (first_places q)"
proof (induction q rule: rev_induct)
  case Nil
  show ?case by (simp add: coalesce_queue_def first_places_def)
next
  case (snoc x q)
  have other: "last_registered (q @ [x]) y = last_registered q y"
    if "\<And>key i h. x = RecordHook key i h \<Longrightarrow> \<not> queued_hook key i y" for y
    using that by (cases y; cases x) (auto simp: last_registered_def)
  show ?case
  proof (cases "hook_of x")
    case None
    then have "put_item c x = c @ [x]" for c by (cases x) (auto simp: put_item_def)
    moreover have "map (last_registered (q @ [x])) (first_places q) = map (last_registered q) (first_places q)"
      using None by (intro map_cong refl other) auto
    ultimately show ?thesis
      using snoc None by (simp add: coalesce_queue_def first_places_snoc last_registered_def)
  next
    case (Some khi)
    then obtain key i h where x: "x = RecordHook key i h" by (cases x) auto
    have same: "list_ex (queued_hook key i) (map (last_registered q) ys) \<longleftrightarrow> list_ex (queued_hook key i) ys"
      if "set ys \<subseteq> set q" for ys
    proof -
      have "queued_hook key i (last_registered q y) \<longleftrightarrow> queued_hook key i y" if y: "y \<in> set q" for y
      proof (cases "hook_of y")
        case None
        then show ?thesis by (simp add: last_registered_def)
      next
        case (Some kh)
        then obtain key' i' h' where y': "y = RecordHook key' i' h'" by (cases y) auto
        with y have "filter (queued_hook key' i') q \<noteq> []"
          by (auto simp: filter_empty_conv queued_hook_iff)
        then have "last (filter (queued_hook key' i') q) \<in> set (filter (queued_hook key' i') q)" by (rule last_in_set)
        then show ?thesis by (auto simp: y' last_registered_def queued_hook_iff)
      qed
      with that show ?thesis by (auto simp: list_ex_iff)
    qed
    have sub: "set (first_places q) \<subseteq> set q" using first_places_set by blast
    have upd: "last_registered (q @ [x]) y =
        (if queued_hook key i (last_registered q y) then RecordHook key i h else last_registered q y)"
      if y: "y \<in> set (first_places q)" for y
      using same[of "[y]"] sub y other[of y]
      by (cases y) (auto simp: x last_registered_def queued_hook_iff)
    have "coalesce_queue (q @ [x]) = put_item (map (last_registered q) (first_places q)) x"
      using snoc by (simp add: coalesce_queue_def)
    also have "\<dots> = map (last_registered (q @ [x])) (first_places (q @ [x]))"
    proof (cases "list_ex (queued_hook key i) q")
      case True
      then have "list_ex (queued_hook key i) (map (last_registered q) (first_places q))"
        using same[OF sub] first_places_hooks by blast
      with True show ?thesis
        by (simp add: put_item_def x first_places_snoc) (simp add: x[symmetric] upd)
    next
      case False
      then have no: "\<not> list_ex (queued_hook key i) (map (last_registered q) (first_places q))"
        using same[OF sub] first_places_hooks by blast
      then have "map (last_registered (q @ [x])) (first_places q) = map (last_registered q) (first_places q)"
        by (intro map_cong refl) (auto simp: upd list_ex_iff)
      moreover have "last_registered (q @ [x]) x = x"
        using False by (simp add: last_registered_def x)
      ultimately show ?thesis
        using no False by (simp add: put_item_def x first_places_snoc)
    qed
    finally show ?thesis .
  qed
qed

subsection \<open>Waking jobs\<close>

definition woken :: "event \<Rightarrow> 'd db_world \<Rightarrow> 'd db_world \<Rightarrow> bool" where
  "woken e w w' \<longleftrightarrow> (\<exists>L. happened w' = happened w @ L \<and> (Delivered e \<in> set L \<or> Emitted e \<in> set L))"

lemma woken_before: "\<lbrakk>woken e w w1; onward V w1 w2\<rbrakk> \<Longrightarrow> woken e w w2"
  by (auto simp: woken_def onward_def)

lemma woken_after: "\<lbrakk>onward V w w1; woken e w1 w2\<rbrakk> \<Longrightarrow> woken e w w2"
  by (auto simp: woken_def onward_def)

lemma wake_all:
  "\<lbrakk>wake_committed_jobs E q w = (False, w'); list_all (item_onward V) q; x \<in> set q; committed_job x = Some e\<rbrakk>
    \<Longrightarrow> woken e w w'"
proof (induction q arbitrary: w)
  case (Cons y q)
  obtain w1 where y: "wake_committed_job E y w = (False, w1)" and rest: "wake_committed_jobs E q w1 = (False, w')"
    using Cons.prems(1) by (auto split: prod.splits if_splits)
  have one: "onward V w w1" using wake_onward[of V y w E] Cons.prems(2) y by simp
  have two: "onward V w1 w'" using wake_all_onward[of V q w1 E] Cons.prems(2) rest by simp
  show ?case
  proof (cases "x = y")
    case True
    then have "woken e w w1"
      using y Cons.prems(4) by (auto simp: woken_def wake_committed_job_def sink_emit_def note_log_def)
    then show ?thesis using two by (rule woken_before)
  next
    case False
    then have "woken e w1 w'" using Cons.IH[OF rest _ _ Cons.prems(4)] Cons.prems(2,3) by simp
    with one show ?thesis by (rule woken_after)
  qed
qed simp

lemma settled_collected: "set (List.map_filter settled_event q) \<subseteq> set (settled (collect_settled q w))"
proof -
  have "set es \<subseteq> set (settled (fold collect_settled_broadcast es w))" for es
  proof (induction es rule: rev_induct)
    case (snoc e es)
    then show ?case by (auto simp: collect_settled_broadcast_def)
  qed simp
  then show ?thesis by (simp add: collect_settled_def)
qed

context committed_sink
begin

lemma deliver_woken: "woken e w (snd (deliver_item E e w))"
  using deliver_log[of w e] by (auto simp: woken_def deliver_item_def case_prod_beta elim!: prefixE)

lemma run_item_woken: "committed_job x = Some e \<Longrightarrow> woken e w (snd (run_item E x w))"
  by (cases "(E, x, w)" rule: run_item.cases) (auto simp: deliver_woken split: if_splits)

lemma run_callbacks_woken:
  "\<lbrakk>list_all (item_onward V) q; run_callbacks E q w = (r, w'); r \<noteq> Panic; x \<in> set q; committed_job x = Some e\<rbrakk>
    \<Longrightarrow> woken e w w'"
proof (induction q arbitrary: w)
  case (Cons y q)
  obtain r1 w1 where y: "run_item E y w = (r1, w1)" by (cases "run_item E y w")
  have on: "onward V w w1" using run_item_onward[of y w] Cons.prems(1) y by simp
  have own: "woken e w w1" if "x = y" using run_item_woken[of x e w] that Cons.prems(5) y by simp
  show ?case
  proof (cases r1)
    case (Ok v)
    then have rest: "run_callbacks E q w1 = (r, w')" using Cons.prems(2) y by simp
    show ?thesis
    proof (cases "x = y")
      case True
      have "onward V w1 w'" using run_callbacks_onward[of q w1] Cons.prems(1) rest by simp
      with own True show ?thesis by (auto intro: woken_before)
    next
      case False
      with Cons.IH[OF _ rest Cons.prems(3) _ Cons.prems(5)] Cons.prems(1,4) on
      show ?thesis by (auto intro: woken_after)
    qed
  next
    case (Err z)
    then have w': "wake_committed_jobs E q w1 = (False, w')"
      using Cons.prems(2,3) y by (auto split: prod.splits if_splits)
    show ?thesis
    proof (cases "x = y")
      case True
      have "onward V w1 w'" using wake_all_onward[of V q w1 E] Cons.prems(1) w' by simp
      with own True show ?thesis by (auto intro: woken_before)
    next
      case False
      then have "woken e w1 w'" using Cons.prems(1,4,5) by (intro wake_all[OF w', of V x]) auto
      with on show ?thesis by (rule woken_after)
    qed
  qed (use Cons.prems y in simp)
qed simp

lemma callback_phase_woken:
  assumes "list_all (item_onward V) q" "callback_phase E q fs w = (r, w')" "r \<noteq> Panic" "x \<in> set q"
    "committed_job x = Some e"
  shows "woken e w w'"
proof -
  let ?w2 = "fold (\<lambda>f. note_log (Finalized f)) fs (collect_settled q w)"
  have "onward V w (collect_settled q w)" unfolding collect_settled_def by (rule onward_fold) simp
  moreover have "onward V (collect_settled q w) ?w2" by (rule onward_fold) simp
  moreover have "settled_event x = None" using assms(5) by (cases x) auto
  then have "x \<in> set (unsettled q)" using assms(4) by (simp add: unsettled_def)
  then have "woken e ?w2 w'"
    using run_callbacks_woken[of "unsettled q" ?w2 r w' x e] assms by (auto simp: callback_phase_def unsettled_def list_all_iff)
  ultimately show ?thesis by (blast intro: woken_after)
qed

subsection \<open>Settled broadcasts\<close>

lemma deliver_all_quiet:
  assumes "\<And>e w. \<not> fst (committed E e w)"
  shows "\<exists>w' Ls. deliver_all E es w = (False, w') \<and> settled w' = settled w \<and> length Ls = length es \<and>
    happened w' = happened w @ concat (map2 (\<lambda>e L. Delivered e # L) es Ls)"
proof (induction es arbitrary: w)
  case (Cons e es)
  obtain w1 where w1: "deliver_event E e w = (False, w1)"
    using assms[of e "note_log (Delivered e) w"] by (cases "deliver_event E e w") (auto simp: deliver_event_def)
  obtain L where L: "happened w1 = happened w @ Delivered e # L"
    using deliver_log[of w e] w1 by (auto elim!: prefixE)
  have s: "settled w1 = settled w"
    using sink_settled[of e "note_log (Delivered e) w"] w1 by (auto simp: deliver_event_def note_log_def)
  from Cons.IH[of w1] obtain w2 Ls where "deliver_all E es w1 = (False, w2)" "settled w2 = settled w1"
    "length Ls = length es" "happened w2 = happened w1 @ concat (map2 (\<lambda>e L. Delivered e # L) es Ls)" by blast
  with w1 L s show ?case by (intro exI[of _ w2] exI[of _ "L # Ls"]) auto
qed auto

lemma flush_settled_quiet:
  assumes "\<And>e w. \<not> fst (committed E e w)"
  shows "\<exists>w' Ls. flush_settled E w = Some (False, w') \<and> settled w' = [] \<and> length Ls = length (settled w) \<and>
    happened w' = happened w @ concat (map2 (\<lambda>e L. Delivered e # L) (settled w) Ls)"
proof (cases "settled w = []")
  case True
  then show ?thesis by (auto simp: flush_settled_none)
next
  case False
  from deliver_all_quiet[OF assms, of "settled w" "w\<lparr>settled := []\<rparr>"] obtain w1 Ls where
    one: "deliver_all E (settled w) (w\<lparr>settled := []\<rparr>) = (False, w1)" "settled w1 = []"
      "length Ls = length (settled w)" "happened w1 = happened w @ concat (map2 (\<lambda>e L. Delivered e # L) (settled w) Ls)"
    by auto
  then have "flush_settled E w = Some (False, w1)"
    using False by (subst flush_settled.simps) (simp add: flush_settled_none)
  with one show ?thesis by blast
qed

lemma committed_settled:
  assumes "body_onward V f" "commit_phase E f w = (Ok (v, q, fs), w0)" "run_write_with_settled E f w = (r, w1)"
  shows "set (List.map_filter settled_event q) \<subseteq> set (settled w1)"
proof -
  let ?w2 = "fold (\<lambda>f. note_log (Finalized f)) fs (collect_settled q w0)"
  have q: "list_all (item_onward V) q" using commit_phase_onward[OF assms(2,1)] by auto
  have "onward V (collect_settled q w0) ?w2" by (rule onward_fold) simp
  moreover have "onward V ?w2 (snd (run_callbacks E (unsettled q) ?w2))"
    using q by (intro run_callbacks_onward) (auto simp: unsettled_def list_all_iff)
  moreover have "w1 = snd (run_callbacks E (unsettled q) ?w2)"
    using assms(2,3) by (auto simp: run_write_with_settled_def callback_phase_def split: prod.splits result.splits)
  ultimately have "onward V (collect_settled q w0) w1" by (auto intro: onward_trans)
  with settled_collected[of q w0] show ?thesis by (auto simp: onward_def dest: set_mono_prefix)
qed

end

subsection \<open>Properties of every committed write\<close>



subsection \<open>Two runs\<close>

text \<open>A callback fails before a job of the same write is delivered; and a broadcast that a write
  and the follow-up write of its callback both make.\<close>

definition waking_code :: "(nat list, string, unit) code" where
  "waking_code = AfterCommit (Fail ''callback'') (EmitAfterCommit (PurgeBlob 1) (Return ()))"

definition example_broadcast :: broadcast_request where
  "example_broadcast = \<lparr>br_kind = ''ThreadWork#change'', br_arguments = JInt 1\<rparr>"

definition settling_code :: "(nat list, string, unit) code" where
  "settling_code = BroadcastSettled example_broadcast
     (AfterCommit (WriteAfterCommit (BroadcastSettled example_broadcast (Return ())) (\<lambda>r. Return ()))
       (EmitAfterCommit (PurgeBlob 13) (Return ())))"

lemma quiet_env_default: "quiet_env = default_env (\<lambda>_. False) (\<lambda>table i d. Inr True) ''nested'' (\<lambda>d. None) (\<lambda>d. None)"
  by (auto simp: quiet_env_def default_env_def default_persist_def default_committed_def fun_eq_iff)

lemma quiet_env_sink: "committed_sink V quiet_env"
  unfolding quiet_env_default by (rule default_sink.committed_sink_axioms)



end
