(* ===== verification/Texts.thy ===== *)
theory Texts
  imports Prelude "HOL-Library.Sublist"
begin

section \<open>Text functions of the standard library\<close>

text \<open>
  The functions on \<^verbatim>\<open>str\<close> and \<^verbatim>\<open>char\<close> several components use.  A text is the list of its
  characters; the functions here treat every character outside ASCII as itself, so the bytes of
  an encoded text serve as well.
\<close>

subsection \<open>Characters\<close>

definition is_upper :: "char \<Rightarrow> bool" where
  "is_upper c \<longleftrightarrow> 65 \<le> (of_char c :: nat) \<and> (of_char c :: nat) \<le> 90"

definition is_lower :: "char \<Rightarrow> bool" where
  "is_lower c \<longleftrightarrow> 97 \<le> (of_char c :: nat) \<and> (of_char c :: nat) \<le> 122"

definition is_digit :: "char \<Rightarrow> bool" where
  "is_digit c \<longleftrightarrow> 48 \<le> (of_char c :: nat) \<and> (of_char c :: nat) \<le> 57"

definition to_lower :: "char \<Rightarrow> char" where
  "to_lower c = (if is_upper c then char_of (of_char c + 32 :: nat) else c)"

text \<open>\<^verbatim>\<open>char::to_digit\<close>, for a radix up to 36.\<close>

definition to_digit :: "nat \<Rightarrow> char \<Rightarrow> nat option" where
  "to_digit radix c =
     (let d = (if is_digit c then of_char c - 48
               else if is_lower c then of_char c - 87
               else if is_upper c then of_char c - 55
               else radix)
      in if d < radix then Some d else None)"

definition is_alphabetic :: "char \<Rightarrow> bool" where
  "is_alphabetic c \<longleftrightarrow> is_upper c \<or> is_lower c"

definition is_alphanumeric :: "char \<Rightarrow> bool" where
  "is_alphanumeric c \<longleftrightarrow> is_alphabetic c \<or> is_digit c"

definition is_hexdigit :: "char \<Rightarrow> bool" where
  "is_hexdigit c \<longleftrightarrow> to_digit 16 c \<noteq> None"

definition is_ascii :: "char \<Rightarrow> bool" where
  "is_ascii c \<longleftrightarrow> (of_char c :: nat) < 128"

subsection \<open>Pieces of texts\<close>

definition trim :: "string \<Rightarrow> string" where
  "trim t = rev (dropWhile is_space (rev (trim_start t)))"

definition ruby_strip_char :: "char \<Rightarrow> bool" where
  "ruby_strip_char c \<longleftrightarrow> c \<in> {CHR '' '', CHR 0x09, CHR 0x0A, CHR 0x0B, CHR 0x0C, CHR 0x0D, CHR 0x00}"

definition ruby_strip :: "string \<Rightarrow> string" where
  "ruby_strip t = rev (dropWhile ruby_strip_char (rev (dropWhile ruby_strip_char t)))"

fun split_on :: "char \<Rightarrow> string \<Rightarrow> string list" where
  "split_on s [] = [[]]"
| "split_on s (c # cs) =
     (if c = s then [] # split_on s cs
      else (case split_on s cs of [] \<Rightarrow> [[c]] | p # ps \<Rightarrow> (c # p) # ps))"

fun join_with :: "string \<Rightarrow> string list \<Rightarrow> string" where
  "join_with sep [] = []"
| "join_with sep [x] = x"
| "join_with sep (x # y # ys) = x @ sep @ join_with sep (y # ys)"

definition split_once :: "char \<Rightarrow> string \<Rightarrow> (string \<times> string) option" where
  "split_once s t = (case dropWhile (\<lambda>c. c \<noteq> s) t of [] \<Rightarrow> None | _ # r \<Rightarrow> Some (takeWhile (\<lambda>c. c \<noteq> s) t, r))"

definition same_ignoring_case :: "string \<Rightarrow> string \<Rightarrow> bool" where
  "same_ignoring_case a b \<longleftrightarrow> map to_lower a = map to_lower b"

definition strip_prefix :: "string \<Rightarrow> string \<Rightarrow> string option" where
  "strip_prefix p t = (if prefix p t then Some (drop (length p) t) else None)"

definition strip_suffix :: "string \<Rightarrow> string \<Rightarrow> string option" where
  "strip_suffix p t = (if suffix p t then Some (take (length t - length p) t) else None)"

subsection \<open>Numbers\<close>

definition digits_value :: "nat \<Rightarrow> string \<Rightarrow> nat" where
  "digits_value radix t = foldl (\<lambda>acc c. acc * radix + the (to_digit radix c)) 0 t"

subsection \<open>Facts\<close>

lemma split_on_nonempty [simp]: "split_on s t \<noteq> []"
  by (induction t) (auto split: list.splits)

lemma split_on_none: "s \<notin> set t \<Longrightarrow> split_on s t = [t]"
  by (induction t) auto

lemma split_on_append: "s \<notin> set t \<Longrightarrow> split_on s (t @ s # u) = t # split_on s u"
  by (induction t) auto

lemma split_on_join:
  "ps \<noteq> [] \<Longrightarrow> list_all (\<lambda>p. s \<notin> set p) ps \<Longrightarrow> split_on s (join_with [s] ps) = ps"
  by (induction "[s]" ps rule: join_with.induct) (auto simp: split_on_none split_on_append)

lemma join_split_on: "join_with [s] (split_on s t) = t"
proof (induction t)
  case (Cons c t)
  obtain p ps where "split_on s t = p # ps" by (cases "split_on s t") auto
  with Cons show ?case by (cases ps) auto
qed simp

lemma split_on_pieces: "list_all (\<lambda>p. s \<notin> set p) (split_on s t)"
  by (induction t) (auto split: list.splits)

lemma to_digit_of_nat: "d < 10 \<Longrightarrow> to_digit 10 (char_of (48 + d :: nat)) = Some d"
  by (simp add: to_digit_def is_digit_def of_char_of)

lemma digits_value_snoc: "digits_value r (t @ [c]) = digits_value r t * r + the (to_digit r c)"
  by (simp add: digits_value_def)

lemma string_of_nat_digits: "list_all is_digit (string_of_nat n)"
proof (induction n rule: string_of_nat.induct)
  case (1 n)
  have "is_digit (char_of (48 + d))" if "d < 10" for d :: nat
    using that by (simp add: is_digit_def of_char_of)
  with 1 show ?case by (subst string_of_nat.simps) auto
qed

lemma string_of_nat_nonempty [simp]: "string_of_nat n \<noteq> []"
  by (subst string_of_nat.simps) simp

lemma digits_value_string_of_nat [simp]: "digits_value 10 (string_of_nat n) = n"
proof (induction n rule: string_of_nat.induct)
  case (1 n)
  show ?case
  proof (cases "n < 10")
    case True
    then show ?thesis by (subst string_of_nat.simps) (simp add: digits_value_def to_digit_of_nat)
  next
    case False
    then show ?thesis using 1
      by (subst string_of_nat.simps) (simp add: digits_value_snoc to_digit_of_nat)
  qed
qed

lemma string_of_nat_no_leading_zero: "n \<noteq> 0 \<Longrightarrow> hd (string_of_nat n) \<noteq> CHR ''0''"
proof (induction n rule: string_of_nat.induct)
  case (1 n)
  have "char_of (48 + n) \<noteq> CHR ''0''" if "n < 10"
  proof
    assume "char_of (48 + n) = CHR ''0''"
    then have "(of_char (char_of (48 + n) :: char) :: nat) = of_char CHR ''0''" by simp
    with that 1 show False by (simp add: of_char_of)
  qed
  then show ?case using 1 by (subst string_of_nat.simps) (auto simp: hd_append)
qed

end
