(* ===== verification/RateLimit.thy ===== *)
theory RateLimit
  imports Texts "HOL-Library.Word"
begin

section \<open>Rate limits\<close>

text \<open>
  \<^verbatim>\<open>crates/kit/src/rate_limit.rs\<close> and the rate limits of \<^verbatim>\<open>crates/kit/src/ctx.rs\<close>: counters with a
  fixed window each.  Stores are shared by reference: a limit without a store of its own counts in
  the application's, so the stores are a heap and a limit holds an address.  The addition of a
  duration to a time, of the time library, is a parameter \<open>add_time\<close>; \<open>None\<close> is its panic, after
  which the store has lost its expired counters.
\<close>

subsection \<open>The store\<close>

type_synonym counters = "string \<rightharpoonup> 64 word \<times> int"

definition retain :: "int \<Rightarrow> counters \<Rightarrow> counters" where
  "retain now m = (\<lambda>k. case m k of None \<Rightarrow> None | Some (c, expires_at) \<Rightarrow> if now < expires_at then Some (c, expires_at) else None)"

definition increment_counter :: "(int \<Rightarrow> int \<Rightarrow> int option) \<Rightarrow> string \<Rightarrow> int \<Rightarrow> int \<Rightarrow> counters \<Rightarrow> 64 word option \<times> counters" where
  "increment_counter add_time key period now m =
     (let kept = retain now m in
      case add_time now period of
        None \<Rightarrow> (None, kept)
      | Some expires_at \<Rightarrow>
          let (c, until) = (case kept key of Some v \<Rightarrow> v | None \<Rightarrow> (0, expires_at))
          in (Some (c + 1), kept(key \<mapsto> (c + 1, until))))"

definition clear_counters :: "counters \<Rightarrow> counters" where
  "clear_counters m = Map.empty"

subsection \<open>Limits\<close>

record rate_limit =
  rl_to :: "64 word"
  rl_within :: int
  rl_scope :: string
  rl_name :: "string option"
  rl_store :: "nat option"

definition rate_limit_new :: "string \<Rightarrow> 64 word \<Rightarrow> int \<Rightarrow> rate_limit" where
  "rate_limit_new scope to period = \<lparr>rl_to = to, rl_within = period, rl_scope = scope, rl_name = None, rl_store = None\<rparr>"

definition rate_limit_named :: "string \<Rightarrow> rate_limit \<Rightarrow> rate_limit" where
  "rate_limit_named name l = l\<lparr>rl_name := Some name\<rparr>"

definition rate_limit_store :: "nat \<Rightarrow> rate_limit \<Rightarrow> rate_limit" where
  "rate_limit_store s l = l\<lparr>rl_store := Some s\<rparr>"

definition cache_key :: "rate_limit \<Rightarrow> string \<Rightarrow> string" where
  "cache_key l by_whom = join_with '':'' (concat (map (case_option [] (\<lambda>t. [t])) [Some ''rate-limit'', Some (rl_scope l), rl_name l, Some by_whom]))"

definition store_of :: "rate_limit \<Rightarrow> nat \<Rightarrow> nat" where
  "store_of l app = (case rl_store l of Some s \<Rightarrow> s | None \<Rightarrow> app)"

definition exceeded :: "(int \<Rightarrow> int \<Rightarrow> int option) \<Rightarrow> nat \<Rightarrow> rate_limit \<Rightarrow> string \<Rightarrow> int \<Rightarrow> (nat \<Rightarrow> counters) \<Rightarrow> bool option \<times> (nat \<Rightarrow> counters)" where
  "exceeded add_time app l by_whom now stores =
     (let s = store_of l app;
          (c, m) = increment_counter add_time (cache_key l by_whom) (rl_within l) now (stores s)
      in (map_option (\<lambda>c. rl_to l < c) c, stores(s := m)))"

text \<open>\<^verbatim>\<open>Ctx::rate_limited\<close> and \<^verbatim>\<open>Ctx::rate_limit\<close>: by default a request counts under its address, which
  it may fail to have; a request over the limit is answered by 429.\<close>

datatype rate_error = NoAddress string | TooManyRequests

definition rate_limited :: "(int \<Rightarrow> int \<Rightarrow> int option) \<Rightarrow> nat \<Rightarrow> string + string \<Rightarrow> rate_limit \<Rightarrow> string option \<Rightarrow> int \<Rightarrow> (nat \<Rightarrow> counters) \<Rightarrow>
    (rate_error + bool) option \<times> (nat \<Rightarrow> counters)" where
  "rate_limited add_time app remote_ip l by_whom now stores =
     (case (case by_whom of Some b \<Rightarrow> Inr b | None \<Rightarrow> remote_ip) of
        Inl e \<Rightarrow> (Some (Inl (NoAddress e)), stores)
      | Inr b \<Rightarrow> let (r, stores') = exceeded add_time app l b now stores in (map_option Inr r, stores'))"

definition rate_limit_check :: "(int \<Rightarrow> int \<Rightarrow> int option) \<Rightarrow> nat \<Rightarrow> string + string \<Rightarrow> rate_limit \<Rightarrow> int \<Rightarrow> (nat \<Rightarrow> counters) \<Rightarrow>
    (rate_error + unit) option \<times> (nat \<Rightarrow> counters)" where
  "rate_limit_check add_time app remote_ip l now stores =
     (let (r, stores') = rate_limited add_time app remote_ip l None now stores
      in (map_option (\<lambda>r. case r of Inl e \<Rightarrow> Inl e | Inr True \<Rightarrow> Inl TooManyRequests | Inr False \<Rightarrow> Inr ()) r, stores'))"

text \<open>A sequence of requests, each with the limit it is checked against, whom it counts for and its time.\<close>

fun limit_run :: "(int \<Rightarrow> int \<Rightarrow> int option) \<Rightarrow> nat \<Rightarrow> (rate_limit \<times> string \<times> int) list \<Rightarrow> (nat \<Rightarrow> counters) \<Rightarrow> bool option list" where
  "limit_run add_time app [] stores = []"
| "limit_run add_time app ((l, by_whom, now) # reqs) stores =
     (let (r, stores') = exceeded add_time app l by_whom now stores in r # limit_run add_time app reqs stores')"

subsection \<open>Reference: one fixed window\<close>

text \<open>A single counter: how many requests its window has seen and when the window ends.\<close>

fun window_step :: "int \<Rightarrow> (nat \<times> int) option \<Rightarrow> int \<Rightarrow> nat \<times> int" where
  "window_step period None now = (1, now + period)"
| "window_step period (Some (c, until)) now = (if now < until then (c + 1, until) else (1, now + period))"

fun fixed_window :: "int \<Rightarrow> (nat \<times> int) option \<Rightarrow> int list \<Rightarrow> nat list" where
  "fixed_window period st [] = []"
| "fixed_window period st (now # ts) = (let st' = window_step period st now in fst st' # fixed_window period (Some st') ts)"

text \<open>The times of the requests that a limit admits.\<close>

fun admitted :: "nat \<Rightarrow> int list \<Rightarrow> nat list \<Rightarrow> int list" where
  "admitted n (t # ts) (c # cs) = (if c \<le> n then t # admitted n ts cs else admitted n ts cs)"
| "admitted n _ _ = []"

definition hits_in :: "int \<Rightarrow> int \<Rightarrow> int list \<Rightarrow> nat" where
  "hits_in period t ts = length (filter (\<lambda>x. t \<le> x \<and> x < t + period) ts)"

text \<open>What is known of the admitted times \<open>hist\<close> when the current window began at \<open>s\<close> and has seen \<open>c\<close>
  requests.\<close>

definition history_ok :: "nat \<Rightarrow> int \<Rightarrow> int list \<Rightarrow> int \<Rightarrow> nat \<Rightarrow> bool" where
  "history_ok n period hist s c \<longleftrightarrow>
     length (filter (\<lambda>x. s \<le> x) hist) \<le> min c n \<and>
     (\<forall>t > s - period. length (filter (\<lambda>x. t \<le> x \<and> x < s) hist) \<le> n) \<and>
     (\<forall>t. hits_in period t hist \<le> 2 * n) \<and> (\<forall>x \<in> set hist. x < s + period)"

lemma length_filter_split:
  "length (filter P xs) = length (filter (\<lambda>x. P x \<and> Q x) xs) + length (filter (\<lambda>x. P x \<and> \<not> Q x) xs)"
  by (induction xs) auto

lemma length_filter_le: "(\<And>x. x \<in> set xs \<Longrightarrow> P x \<Longrightarrow> Q x) \<Longrightarrow> length (filter P xs) \<le> length (filter Q xs)"
  by (induction xs) (auto simp: le_Suc_eq)

lemma history_same_window:
  assumes ok: "history_ok n period hist s c" and now: "s \<le> now" "now < s + period"
  shows "history_ok n period (hist @ (if c + 1 \<le> n then [now] else [])) s (c + 1)"
proof (cases "c + 1 \<le> n")
  case False
  then show ?thesis using ok by (auto simp: history_ok_def)
next
  case True
  have cur: "length (filter (\<lambda>x. s \<le> x) hist) \<le> c" using ok by (simp add: history_ok_def)
  have "hits_in period t (hist @ [now]) \<le> 2 * n" for t
  proof (cases "t \<le> now \<and> now < t + period")
    case False
    then show ?thesis using ok by (auto simp: history_ok_def hits_in_def)
  next
    case In: True
    have "length (filter (\<lambda>x. (t \<le> x \<and> x < t + period) \<and> x < s) hist) \<le> length (filter (\<lambda>x. t \<le> x \<and> x < s) hist)"
      by (rule length_filter_le) auto
    also have "\<dots> \<le> n" using ok In now by (auto simp: history_ok_def)
    finally have before_s: "length (filter (\<lambda>x. (t \<le> x \<and> x < t + period) \<and> x < s) hist) \<le> n" .
    have "length (filter (\<lambda>x. (t \<le> x \<and> x < t + period) \<and> \<not> x < s) hist) \<le> length (filter (\<lambda>x. s \<le> x) hist)"
      by (rule length_filter_le) auto
    then show ?thesis
      using before_s cur True In length_filter_split[of "\<lambda>x. t \<le> x \<and> x < t + period" hist "\<lambda>x. x < s"]
      by (simp add: hits_in_def)
  qed
  then show ?thesis using ok cur True now by (auto simp: history_ok_def)
qed

lemma history_new_window:
  assumes ok: "history_ok n period hist s c" and now: "s + period \<le> now" and pos: "0 < period"
  shows "history_ok n period (hist @ (if 1 \<le> n then [now] else [])) now 1"
proof -
  have old: "x < now" if "x \<in> set hist" for x using ok that now by (auto simp: history_ok_def)
  have none: "filter (\<lambda>x. now \<le> x) hist = []" using old by (fastforce simp: filter_empty_conv)
  have recent: "length (filter (\<lambda>x. t \<le> x \<and> x < now) hist) \<le> n" if t: "now - period < t" for t
  proof -
    have "length (filter (\<lambda>x. t \<le> x \<and> x < now) hist) \<le> length (filter (\<lambda>x. s \<le> x) hist)"
      using t now by (intro length_filter_le) auto
    then show ?thesis using ok by (simp add: history_ok_def)
  qed
  have "hits_in period t (hist @ [now]) \<le> 2 * n" if n: "1 \<le> n" for t
  proof (cases "t \<le> now \<and> now < t + period")
    case False
    then show ?thesis using ok by (auto simp: history_ok_def hits_in_def)
  next
    case True
    have "length (filter (\<lambda>x. t \<le> x \<and> x < t + period) hist) \<le> length (filter (\<lambda>x. t \<le> x \<and> x < now) hist)"
      using old by (intro length_filter_le) auto
    then show ?thesis using recent[of t] True n by (simp add: hits_in_def)
  qed
  moreover have "x < now + period" if "x \<in> set hist" for x using old[OF that] pos by simp
  ultimately show ?thesis using ok none recent pos by (auto simp: history_ok_def)
qed

lemma fixed_window_bounded:
  assumes "history_ok n period hist s c" and "sorted ts" and "\<forall>t \<in> set ts. s \<le> t" and "0 < period"
  shows "hits_in period t (hist @ admitted n ts (fixed_window period (Some (c, s + period)) ts)) \<le> 2 * n"
  using assms
proof (induction ts arbitrary: hist s c)
  case Nil
  then show ?case by (simp add: history_ok_def)
next
  case (Cons now ts)
  show ?case
  proof (cases "now < s + period")
    case True
    then have "history_ok n period (hist @ (if c + 1 \<le> n then [now] else [])) s (c + 1)"
      using Cons.prems by (intro history_same_window) auto
    from Cons.IH[OF this] Cons.prems show ?thesis using True by (simp split: if_splits)
  next
    case False
    then have "history_ok n period (hist @ (if 1 \<le> n then [now] else [])) now 1"
      using Cons.prems by (intro history_new_window) auto
    from Cons.IH[OF this] Cons.prems show ?thesis using False by (simp split: if_splits)
  qed
qed

lemma first_window_bounded:
  assumes "sorted ts" and "0 < period"
  shows "hits_in period t (admitted n ts (fixed_window period None ts)) \<le> 2 * n"
proof (cases ts)
  case Nil
  then show ?thesis by (simp add: hits_in_def)
next
  case (Cons now rest)
  have "history_ok n period (if 1 \<le> n then [now] else []) now 1"
    using assms(2) by (auto simp: history_ok_def hits_in_def)
  from fixed_window_bounded[OF this, of rest t] assms Cons show ?thesis by (simp split: if_splits)
qed

subsection \<open>Every counter is a fixed window of its own\<close>

definition tracked :: "int \<Rightarrow> counters \<Rightarrow> string \<Rightarrow> (nat \<times> int) option \<Rightarrow> bool" where
  "tracked now m key st =
     (case st of None \<Rightarrow> m key = None
      | Some (c, until) \<Rightarrow> m key = Some (word_of_nat c, until) \<or> m key = None \<and> until \<le> now)"

lemma tracked_other:
  "tracked now m key st \<Longrightarrow> now \<le> now' \<Longrightarrow> key' \<noteq> key \<Longrightarrow>
   tracked now' (snd (increment_counter add_time key' period now' m)) key st"
  by (auto simp: tracked_def increment_counter_def retain_def Let_def split: option.splits prod.splits if_splits)

lemma tracked_own:
  assumes "tracked now m key st" and "now \<le> now'" and "add_time now' period = Some (now' + period)"
  shows "increment_counter add_time key period now' m =
    (Some (word_of_nat (fst (window_step period st now'))),
     (retain now' m)(key \<mapsto> (word_of_nat (fst (window_step period st now')), snd (window_step period st now'))))"
proof (cases st)
  case None
  then show ?thesis using assms by (simp add: tracked_def increment_counter_def retain_def)
next
  case (Some v)
  obtain c until where v: "v = (c, until)" by force
  have "m key = Some (word_of_nat c, until) \<or> m key = None \<and> until \<le> now" using assms(1) Some v by (simp add: tracked_def)
  then show ?thesis using Some v assms(2,3)
    by (auto simp: increment_counter_def retain_def Let_def add.commute)
qed

abbreviation target :: "nat \<Rightarrow> rate_limit \<Rightarrow> string \<Rightarrow> nat \<times> string" where
  "target app l by_whom \<equiv> (store_of l app, cache_key l by_whom)"

definition request_time :: "(rate_limit \<times> string \<times> int) \<times> bool option \<Rightarrow> int" where
  "request_time p = snd (snd (fst p))"

text \<open>The requests of a run that count for one counter, with their outcomes.\<close>

definition mine :: "nat \<Rightarrow> nat \<times> string \<Rightarrow> (rate_limit \<times> string \<times> int) list \<Rightarrow> bool option list \<Rightarrow>
    ((rate_limit \<times> string \<times> int) \<times> bool option) list" where
  "mine app tg reqs rs = filter (\<lambda>((l, by_whom, _), _). target app l by_whom = tg) (zip reqs rs)"

lemma limit_run_refines:
  assumes "sorted (now # map (\<lambda>(_, _, t). t) reqs)"
    and "\<forall>(l, _, t) \<in> set reqs. add_time t (rl_within l) = Some (t + rl_within l)"
    and "\<forall>(l, by_whom, _) \<in> set reqs. target app l by_whom = tg \<longrightarrow> rl_to l = to \<and> rl_within l = period"
    and "tracked now (stores (fst tg)) (snd tg) st" and "(case st of None \<Rightarrow> 0 | Some (c, _) \<Rightarrow> c) + length reqs < 2 ^ 64"
  shows "map snd (mine app tg reqs (limit_run add_time app reqs stores)) =
    map (\<lambda>c. Some (unat to < c)) (fixed_window period st (map request_time (mine app tg reqs (limit_run add_time app reqs stores))))"
  using assms
proof (induction reqs arbitrary: now stores st)
  case Nil
  then show ?case by (simp add: mine_def)
next
  case (Cons req reqs)
  obtain l b t where req: "req = (l, b, t)" by (cases req) auto
  let ?s = "store_of l app" and ?k = "cache_key l b"
  let ?inc = "increment_counter add_time ?k (rl_within l) t (stores ?s)"
  let ?stores = "stores(?s := snd ?inc)"
  have run: "limit_run add_time app (req # reqs) stores = map_option (\<lambda>c. rl_to l < c) (fst ?inc) # limit_run add_time app reqs ?stores"
    by (simp add: req exceeded_def Let_def split: prod.splits)
  have late: "now \<le> t" and rest: "sorted (t # map (\<lambda>(_, _, t). t) reqs)" using Cons.prems(1) by (auto simp: req)
  show ?case
  proof (cases "target app l b = tg")
    case False
    have "tracked t (?stores (fst tg)) (snd tg) st"
    proof (cases "?s = fst tg")
      case True
      then have "?k \<noteq> snd tg" using False by auto
      with True show ?thesis using tracked_other Cons.prems(4) late by auto
    next
      case other: False
      with Cons.prems(4) late show ?thesis by (auto simp: tracked_def split: option.splits)
    qed
    then have ih: "map snd (mine app tg reqs (limit_run add_time app reqs ?stores)) =
      map (\<lambda>c. Some (unat to < c)) (fixed_window period st (map request_time (mine app tg reqs (limit_run add_time app reqs ?stores))))"
      using Cons.prems(2,3,5) by (intro Cons.IH[of t ?stores st, OF rest]) simp_all
    have head: "mine app tg (req # reqs) (r # rs) = mine app tg reqs rs" for r rs
      using False by (simp add: req mine_def)
    show ?thesis unfolding run head by (rule ih)
  next
    case True
    then have tg: "?s = fst tg" "?k = snd tg" by auto
    have lim: "rl_to l = to" "rl_within l = period" "add_time t period = Some (t + period)"
      using Cons.prems(2,3) True by (auto simp: req)
    let ?st = "window_step period st t"
    have inc: "?inc = (Some (word_of_nat (fst ?st)), (retain t (stores ?s))(?k \<mapsto> (word_of_nat (fst ?st), snd ?st)))"
      using tracked_own[of now "stores ?s" ?k st t add_time period] late lim(2,3) Cons.prems(4) tg by simp
    have small: "fst ?st \<le> (case st of None \<Rightarrow> 0 | Some (c, _) \<Rightarrow> c) + 1" by (cases "(period, st, t)" rule: window_step.cases) auto
    then have cmp: "(to < (word_of_nat (fst ?st) :: 64 word)) = (unat to < fst ?st)"
      using Cons.prems(5) by (simp add: word_less_nat_alt unat_of_nat take_bit_nat_eq_self)
    have "tracked t (?stores (fst tg)) (snd tg) (Some ?st)"
      using tg inc by (auto simp: tracked_def split: prod.splits)
    moreover have "(case Some ?st of None \<Rightarrow> 0 | Some (c, _) \<Rightarrow> c) + length reqs < 2 ^ 64"
      using small Cons.prems(5) by (cases ?st) simp
    ultimately have ih: "map snd (mine app tg reqs (limit_run add_time app reqs ?stores)) =
      map (\<lambda>c. Some (unat to < c)) (fixed_window period (Some ?st) (map request_time (mine app tg reqs (limit_run add_time app reqs ?stores))))"
      using Cons.prems(2,3) by (intro Cons.IH[of t ?stores "Some ?st", OF rest]) simp_all
    have head: "mine app tg (req # reqs) (r # rs) = (req, r) # mine app tg reqs rs" "request_time (req, r) = t" for r rs
      using True by (simp_all add: req mine_def request_time_def)
    have outcome: "map_option (\<lambda>c. rl_to l < c) (fst ?inc) = Some (unat to < fst ?st)"
      unfolding inc using lim(1) cmp by simp
    show ?thesis
      unfolding run head outcome list.map fixed_window.simps Let_def snd_conv ih by (rule refl)
  qed
qed

lemma admitted_outcomes:
  "map snd ps = map (\<lambda>c. Some (n < c)) cs \<Longrightarrow>
   map request_time (filter (\<lambda>(_, r). r = Some False) ps) = admitted n (map request_time ps) cs"
proof (induction ps arbitrary: cs)
  case (Cons p ps)
  then obtain c cs' where "cs = c # cs'" by (cases cs) auto
  with Cons show ?case by (cases p) auto
qed simp

lemma sorted_mine:
  "sorted (map (\<lambda>(_, _, t). t) reqs) \<Longrightarrow> length rs = length reqs \<Longrightarrow> sorted (map request_time (mine app tg reqs rs))"
proof (induction reqs rs rule: list_induct2')
  case (4 req reqs r rs)
  obtain l b t where req: "req = (l, b, t)" by (cases req) auto
  have "t \<le> request_time p" if "p \<in> set (mine app tg reqs rs)" for p
  proof -
    have "fst p \<in> set reqs" using that by (auto simp: mine_def dest: set_zip_leftD)
    then show ?thesis using 4(2) by (cases p) (auto simp: req request_time_def)
  qed
  then show ?case using 4 by (simp add: mine_def req request_time_def)
qed (simp_all add: mine_def)

lemma length_limit_run: "length (limit_run add_time app reqs stores) = length reqs"
  by (induction reqs arbitrary: stores) (auto split: prod.splits)

text \<open>C28.  Whatever requests count in the stores, the requests of one counter are answered as by a fixed
  window of their own: a window begins with a request and lasts its time, and exactly the first
  requests of a window, as many as allowed, pass.  So in any stretch of time as long as the window at most
  twice the allowed number pass.\<close>

theorem rate_limit_fixed_windows:
  assumes "sorted (map (\<lambda>(_, _, t). t) reqs)"
    and "\<forall>(l, _, t) \<in> set reqs. add_time t (rl_within l) = Some (t + rl_within l)"
    and "\<forall>(l, by_whom, _) \<in> set reqs. target app l by_whom = tg \<longrightarrow> rl_to l = to \<and> rl_within l = period"
    and "0 < period" and "length reqs < 2 ^ 64"
    and "ps = mine app tg reqs (limit_run add_time app reqs (\<lambda>_. Map.empty))"
  shows "map snd ps = map (\<lambda>c. Some (unat to < c)) (fixed_window period None (map request_time ps)) \<and>
    hits_in period t (map request_time (filter (\<lambda>(_, r). r = Some False) ps)) \<le> 2 * unat to"
proof -
  obtain now where "sorted (now # map (\<lambda>(_, _, t). t) reqs)"
  proof (cases reqs)
    case Nil
    then show ?thesis using that[of 0] by simp
  next
    case (Cons r rs)
    then show ?thesis using that[of "snd (snd r)"] assms(1) by (cases r) auto
  qed
  then have counts: "map snd ps = map (\<lambda>c. Some (unat to < c)) (fixed_window period None (map request_time ps))"
    using limit_run_refines[OF _ assms(2,3), of now "\<lambda>_. Map.empty" None] assms(5,6) by (simp add: tracked_def)
  have "sorted (map request_time ps)" using assms(1,6) by (simp add: sorted_mine length_limit_run)
  then show ?thesis
    using counts first_window_bounded[OF _ assms(4)] by (simp add: admitted_outcomes[OF counts])
qed

theorem rate_limit_fixed_windows_witness:
  "limit_run (\<lambda>t d. Some (t + d)) 0 [(rate_limit_new ''s'' 1 10, ''a'', 0), (rate_limit_new ''s'' 1 10, ''b'', 5),
     (rate_limit_new ''s'' 1 10, ''a'', 9), (rate_limit_new ''s'' 1 10, ''a'', 10)] (\<lambda>_. Map.empty) =
     [Some False, Some False, Some True, Some False] \<and>
   fixed_window 10 None [0, 9, 10] = [1, 2, 1]"
proof -
  let ?l = "rate_limit_new ''s'' 1 10"
  let ?reqs = "[(?l, ''a'', 0), (?l, ''b'', 5), (?l, ''a'', 9), (?l, ''a'', 10)] :: (rate_limit \<times> string \<times> int) list"
  let ?run = "limit_run (\<lambda>t d. Some (t + d)) 0 ?reqs (\<lambda>_. Map.empty)"
  have keys: "cache_key ?l [c] = ''rate-limit:s:'' @ [c]" for c by (simp add: cache_key_def rate_limit_new_def)
  have run: "?run = [Some False, Some False, Some True, Some False]"
    by (simp add: exceeded_def increment_counter_def retain_def store_of_def keys Let_def)
      (simp add: rate_limit_new_def)
  have "mine 0 (target 0 ?l ''a'') ?reqs ?run = [((?l, ''a'', 0), Some False), ((?l, ''a'', 9), Some True), ((?l, ''a'', 10), Some False)]"
    unfolding run by (simp add: mine_def keys)
  with run show ?thesis
    using rate_limit_fixed_windows[of ?reqs "\<lambda>t d. Some (t + d)" 0 "target 0 ?l ''a''" 1 10 _ 0]
    by (simp add: request_time_def keys rate_limit_new_def)
qed

end
