(* ===== verification/Bytes.thy ===== *)
theory Bytes
  imports Main "HOL-Library.Word"
begin

section \<open>Bytes and big-endian integers\<close>

text \<open>Bytes are 8-bit words; a list of bytes stands for the number it writes, most significant byte
  first.\<close>

type_synonym byte = "8 word"

text \<open>Big-endian integers; a byte takes the value's low eight bits.\<close>

fun to_be_bytes :: "nat \<Rightarrow> nat \<Rightarrow> byte list" where
  "to_be_bytes 0 v = []"
| "to_be_bytes (Suc n) v = word_of_nat (v div 256 ^ n) # to_be_bytes n v"

definition from_be_bytes :: "byte list \<Rightarrow> nat" where
  "from_be_bytes bs = foldl (\<lambda>acc b. acc * 256 + unat b) 0 bs"

text \<open>The standard library's test for UTF-8.\<close>

definition cont_byte :: "byte \<Rightarrow> bool" where
  "cont_byte b \<longleftrightarrow> 0x80 \<le> b \<and> b \<le> 0xBF"

fun valid_utf8 :: "byte list \<Rightarrow> bool" where
  "valid_utf8 [] = True"
| "valid_utf8 (b # bs) =
     (if b < 0x80 then valid_utf8 bs
      else if 0xC2 \<le> b \<and> b \<le> 0xDF then
        (case bs of c # r \<Rightarrow> cont_byte c \<and> valid_utf8 r | _ \<Rightarrow> False)
      else if 0xE0 \<le> b \<and> b \<le> 0xEF then
        (case bs of c # d # r \<Rightarrow>
           (if b = 0xE0 then 0xA0 \<le> c \<and> c \<le> 0xBF else if b = 0xED then 0x80 \<le> c \<and> c \<le> 0x9F else cont_byte c) \<and>
           cont_byte d \<and> valid_utf8 r
         | _ \<Rightarrow> False)
      else if 0xF0 \<le> b \<and> b \<le> 0xF4 then
        (case bs of c # d # e # r \<Rightarrow>
           (if b = 0xF0 then 0x90 \<le> c \<and> c \<le> 0xBF else if b = 0xF4 then 0x80 \<le> c \<and> c \<le> 0x8F else cont_byte c) \<and>
           cont_byte d \<and> cont_byte e \<and> valid_utf8 r
         | _ \<Rightarrow> False)
      else False)"

lemma length_to_be_bytes [simp]: "length (to_be_bytes n v) = n"
  by (induction n) auto

lemma from_be_bytes_acc:
  "foldl (\<lambda>acc b. acc * 256 + unat b) a (bs :: byte list) = a * 256 ^ length bs + from_be_bytes bs"
proof (induction bs arbitrary: a)
  case (Cons b bs)
  show ?case unfolding from_be_bytes_def using Cons.IH[of "a * 256 + unat b"] Cons.IH[of "unat b"]
    by (simp add: from_be_bytes_def algebra_simps)
qed (simp add: from_be_bytes_def)

lemma from_be_bytes_Cons: "from_be_bytes (b # bs) = unat b * 256 ^ length bs + from_be_bytes bs"
  using from_be_bytes_acc[of "unat b" bs] by (simp add: from_be_bytes_def)

lemma from_to_be_bytes: "from_be_bytes (to_be_bytes n v) = v mod 256 ^ n"
proof (induction n)
  case 0 then show ?case by (simp add: from_be_bytes_def)
next
  case (Suc n)
  have "unat (word_of_nat (v div 256 ^ n) :: byte) = (v div 256 ^ n) mod 256"
    by (simp add: unat_of_nat)
  then have "from_be_bytes (to_be_bytes (Suc n) v) = (v div 256 ^ n) mod 256 * 256 ^ n + v mod 256 ^ n"
    using Suc by (simp add: from_be_bytes_Cons)
  also have "\<dots> = v mod (256 * 256 ^ n)" by (metis mod_mult2_eq mult.commute add.commute)
  finally show ?case by simp
qed

lemma to_be_bytes_snoc: "to_be_bytes (Suc n) v = to_be_bytes n (v div 256) @ [word_of_nat v]"
proof (induction n arbitrary: v)
  case (Suc n)
  have "to_be_bytes (Suc (Suc n)) v = word_of_nat (v div 256 ^ Suc n) # to_be_bytes (Suc n) v" by simp
  also have "\<dots> = word_of_nat (v div 256 div 256 ^ n) # to_be_bytes n (v div 256) @ [word_of_nat v]"
    using Suc by (simp add: div_mult2_eq)
  finally show ?case by simp
qed simp

lemma bit_word_of_nat: "bit (word_of_nat m :: 'a::len word) n \<longleftrightarrow> n < LENGTH('a) \<and> bit m n"
  by transfer (simp add: bit_take_bit_iff bit_of_nat_iff)

end
