(* ===== verification/Encoding.thy ===== *)
theory Encoding
  imports Texts Bytes
begin

section \<open>Base64 as the application uses it\<close>

text \<open>
  \<^verbatim>\<open>crates/rails_compat/src/encoding.rs\<close>: lenient reading over strict codecs.  The codecs of the Base64
  library are a parameter; \<open>base64_laws\<close> is what the library documents of them: its standard
  alphabet has neither \<^verbatim>\<open>-\<close> nor \<^verbatim>\<open>_\<close>, its padding fills the last group of four, nothing encodes nothing, and the URL-safe
  encoders write the same text in their alphabet, with or without the padding.  Texts are the
  bytes of their encoding.
\<close>

text \<open>The bytes of a text, and the text of some bytes.\<close>

definition text_bytes :: "string \<Rightarrow> byte list" where
  "text_bytes t = map (\<lambda>c. word_of_nat (of_char c)) t"

definition bytes_text :: "byte list \<Rightarrow> string" where
  "bytes_text bs = map (\<lambda>b. char_of (unat b)) bs"

lemma bytes_text_of [simp]: "bytes_text (text_bytes t) = t"
  by (simp add: bytes_text_def text_bytes_def unat_of_nat of_char_mod_256 map_idI)

lemma text_bytes_of [simp]: "text_bytes (bytes_text bs) = bs"
proof -
  have "unat b < 2 ^ LENGTH(8)" for b :: byte by (rule unsigned_less)
  then have "unat b mod 256 = unat b" for b :: byte by simp
  then show ?thesis by (simp add: bytes_text_def text_bytes_def of_char_of comp_def)
qed

record base64_engine =
  std_encode :: "byte list \<Rightarrow> string"
  std_decode :: "string \<Rightarrow> byte list option"
  url_encode_padded :: "byte list \<Rightarrow> string"
  url_encode_unpadded :: "byte list \<Rightarrow> string"

definition url_char :: "char \<Rightarrow> char" where
  "url_char c = (if c = CHR ''+'' then CHR ''-'' else if c = CHR ''/'' then CHR ''_'' else c)"

definition std_char :: "char \<Rightarrow> char" where
  "std_char c = (if c = CHR ''-'' then CHR ''+'' else if c = CHR ''_'' then CHR ''/'' else c)"

definition base64_laws :: "base64_engine \<Rightarrow> bool" where
  "base64_laws e \<longleftrightarrow> std_encode e [] = [] \<and>
     (\<forall>bs. std_decode e (std_encode e bs) = Some bs \<and> length (std_encode e bs) mod 4 = 0 \<and>
       (\<exists>body n. std_encode e bs = body @ replicate n (CHR ''='') \<and> n < 4 \<and> set body \<inter> {CHR ''='', CHR ''-'', CHR ''_''} = {}) \<and>
       url_encode_padded e bs = map url_char (std_encode e bs) \<and>
       url_encode_unpadded e bs = filter (\<lambda>c. c \<noteq> CHR ''='') (map url_char (std_encode e bs)))"

definition pad_to_four :: "string \<Rightarrow> string" where
  "pad_to_four t = t @ replicate ((4 - length t mod 4) mod 4) (CHR ''='')"

definition urlsafe_decode :: "base64_engine \<Rightarrow> string \<Rightarrow> byte list option" where
  "urlsafe_decode e encoded =
     (let translated = map std_char encoded
      in std_decode e (if \<not> suffix ''='' encoded \<and> length encoded mod 4 \<noteq> 0 then pad_to_four translated else translated))"

subsection \<open>Reading back what was written\<close>

lemma std_url_char: "c \<noteq> CHR ''-'' \<Longrightarrow> c \<noteq> CHR ''_'' \<Longrightarrow> std_char (url_char c) = c"
  by (simp add: std_char_def url_char_def)

lemma url_char_pad [simp]: "(url_char c = CHR ''='') = (c = CHR ''='')" "url_char (CHR ''='') = CHR ''=''" "std_char (CHR ''='') = CHR ''=''"
  by (simp_all add: url_char_def std_char_def)

text \<open>What the laws give for one list of bytes: the characters of its encoding and the padding.\<close>

definition encoded_as :: "base64_engine \<Rightarrow> byte list \<Rightarrow> string \<Rightarrow> nat \<Rightarrow> bool" where
  "encoded_as e bs body n \<longleftrightarrow>
     std_encode e bs = body @ replicate n (CHR ''='') \<and> n < 4 \<and> CHR ''='' \<notin> set body \<and> map std_char body = body \<and>
     map std_char (map url_char body) = body \<and> (length body + n) mod 4 = 0 \<and>
     std_decode e (body @ replicate n (CHR ''='')) = Some bs \<and>
     url_encode_padded e bs = map url_char body @ replicate n (CHR ''='') \<and> url_encode_unpadded e bs = map url_char body"

lemma base64_laws_encoded:
  assumes "base64_laws e" shows "\<exists>body n. encoded_as e bs body n"
proof -
  obtain body n where b: "std_encode e bs = body @ replicate n (CHR ''='')" "n < 4" "set body \<inter> {CHR ''='', CHR ''-'', CHR ''_''} = {}"
    using assms unfolding base64_laws_def by meson
  have laws: "std_decode e (std_encode e bs) = Some bs" "length (std_encode e bs) mod 4 = 0"
    "url_encode_padded e bs = map url_char (std_encode e bs)"
    "url_encode_unpadded e bs = filter (\<lambda>c. c \<noteq> CHR ''='') (map url_char (std_encode e bs))"
    using assms unfolding base64_laws_def by blast+
  have plain: "c \<noteq> CHR ''=''" "c \<noteq> CHR ''-''" "c \<noteq> CHR ''_''" if "c \<in> set body" for c using b(3) that by auto
  have round: "map std_char (map url_char body) = body" using plain by (simp add: map_idI std_url_char)
  have same: "map std_char body = body" using plain by (simp add: map_idI std_char_def)
  have kept: "filter (\<lambda>c. c \<noteq> CHR ''='') (map url_char body) = map url_char body"
    using plain by (simp add: filter_id_conv)
  have "encoded_as e bs body n"
    unfolding encoded_as_def
  proof (intro conjI)
    show "CHR ''='' \<notin> set body" using plain by blast
    show "(length body + n) mod 4 = 0" using laws(2) b(1) by simp
    show "std_decode e (body @ replicate n (CHR ''='')) = Some bs" using laws(1) b(1) by simp
    show "url_encode_padded e bs = map url_char body @ replicate n (CHR ''='')" using laws(3) b(1) by simp
    show "url_encode_unpadded e bs = map url_char body" unfolding laws(4) b(1) map_append filter_append kept by simp
  qed (use b round same in simp_all)
  then show ?thesis by blast
qed

lemma encoded_as_no_pad:
  assumes "encoded_as e bs body n" shows "CHR ''='' \<notin> set (map url_char body)"
proof
  assume "CHR ''='' \<in> set (map url_char body)"
  then obtain c where "c \<in> set body" "url_char c = CHR ''=''" unfolding set_map image_iff by metis
  then show False using assms by (simp add: encoded_as_def)
qed

lemma url_encode_unpadded_eq_Nil:
  assumes e: "base64_laws e" and empty: "url_encode_unpadded e bs = []" shows "bs = []"
proof -
  obtain body n where b: "encoded_as e bs body n" using base64_laws_encoded[OF e] by blast
  with empty have "n mod 4 = 0" "n < 4" "body = []" by (auto simp: encoded_as_def)
  then have "std_decode e [] = Some bs" using b by (simp add: encoded_as_def)
  moreover have "std_decode e (std_encode e []) = Some []" "std_encode e [] = []" using e unfolding base64_laws_def by blast+
  ultimately show ?thesis by simp
qed

lemma pad_needed:
  assumes "(m + n) mod 4 = 0" and "n < 4" shows "(4 - m mod 4) mod 4 = (n :: nat)"
proof -
  define r where "r = m mod 4"
  have "(r + n) mod 4 = 0" using assms(1) by (simp add: r_def mod_add_left_eq)
  moreover have "r = 0 \<or> r = 1 \<or> r = 2 \<or> r = 3" using mod_less_divisor[of 4 m] unfolding r_def by linarith
  moreover have "n = 0 \<or> n = 1 \<or> n = 2 \<or> n = 3" using assms(2) by linarith
  ultimately show ?thesis unfolding r_def[symmetric] by (elim disjE) simp_all
qed

lemma pad_to_four_fills:
  assumes "(length body + n) mod 4 = 0" and "n < 4"
  shows "pad_to_four body = body @ replicate n (CHR ''='')"
  using pad_needed[OF assms] by (simp add: pad_to_four_def)

lemma suffix_pad: "c \<notin> set body \<Longrightarrow> suffix [c] (body @ replicate n c) = (n \<noteq> 0)"
proof (cases n)
  case (Suc k)
  have "body @ replicate (Suc k) c = (body @ replicate k c) @ [c]" using replicate_append_same[of k c] by simp
  then show ?thesis unfolding Suc suffix_def by blast
qed (auto simp: suffix_def)

lemma urlsafe_decode_reads_back:
  assumes "base64_laws e"
  shows "urlsafe_decode e (std_encode e bs) = Some bs" and "urlsafe_decode e (url_encode_padded e bs) = Some bs"
    and "urlsafe_decode e (url_encode_unpadded e bs) = Some bs"
proof -
  obtain body n where b: "encoded_as e bs body n" using base64_laws_encoded[OF assms] by blast
  have whole: "urlsafe_decode e (enc @ replicate n (CHR ''='')) = Some bs"
    if "map std_char enc = body" "length enc = length body" for enc
    using b that by (simp add: urlsafe_decode_def encoded_as_def)
  have no_pad: "urlsafe_decode e enc = Some bs"
    if "map std_char enc = body" "CHR ''='' \<notin> set enc" for enc
  proof -
    have "\<not> suffix ''='' enc" using suffix_pad[OF that(2), of 0] by simp
    moreover have "length enc = length body" using that(1) by auto
    moreover have "(length enc + n) mod 4 = 0" "n < 4" using b that(1) by (auto simp: encoded_as_def)
    moreover have "n = 0" if "length enc mod 4 = 0" using pad_needed[OF calculation(3,4)] that by simp
    ultimately show ?thesis
      using b that(1) pad_to_four_fills[of body n] by (auto simp: urlsafe_decode_def encoded_as_def Let_def)
  qed
  show "urlsafe_decode e (std_encode e bs) = Some bs" using b whole[of body] by (simp add: encoded_as_def)
  show "urlsafe_decode e (url_encode_padded e bs) = Some bs" using b whole[of "map url_char body"] by (simp add: encoded_as_def)
  have "CHR ''='' \<notin> set (map url_char body)" using b by (rule encoded_as_no_pad)
  then show "urlsafe_decode e (url_encode_unpadded e bs) = Some bs"
    using b no_pad[of "map url_char body"] by (simp add: encoded_as_def)
qed

subsection \<open>A codec to evaluate with\<close>

definition letter :: "nat \<Rightarrow> char" where "letter n = char_of (65 + n)"

definition letters_of :: "byte list \<Rightarrow> string" where
  "letters_of bs = concat (map (\<lambda>b. [letter (unat b div 16), letter (unat b mod 16), CHR ''A'', CHR ''A'']) bs)"

fun bytes_of_letters :: "string \<Rightarrow> byte list option" where
  "bytes_of_letters [] = Some []"
| "bytes_of_letters (a # b # _ # _ # r) =
     map_option (Cons (word_of_nat ((of_char a - 65) * 16 + (of_char b - 65)))) (bytes_of_letters r)"
| "bytes_of_letters _ = None"

definition letter_engine :: base64_engine where
  "letter_engine = \<lparr>std_encode = letters_of, std_decode = bytes_of_letters, url_encode_padded = letters_of, url_encode_unpadded = letters_of\<rparr>"

lemma of_letter: "n < 16 \<Longrightarrow> of_char (letter n) = 65 + (n :: nat)"
  by (simp add: letter_def)

lemma unat_div_16: "unat (b :: byte) div 16 < 16"
proof -
  have "unat b < 2 ^ LENGTH(8)" by (rule unsigned_less)
  then show ?thesis by (simp add: less_mult_imp_div_less)
qed

lemma bytes_of_letters_of: "bytes_of_letters (letters_of bs) = Some bs"
proof (induction bs)
  case (Cons b bs)
  then show ?case
    by (simp add: letters_of_def of_letter unat_div_16 mult.commute[of _ 16] add.commute)
qed (simp add: letters_of_def)

lemma letter_engine_laws: "base64_laws letter_engine"
proof -
  have letter: "letter n \<notin> {CHR ''='', CHR ''-'', CHR ''_'', CHR ''+'', CHR ''/''}" if "n < 16" for n
  proof
    assume "letter n \<in> {CHR ''='', CHR ''-'', CHR ''_'', CHR ''+'', CHR ''/''}"
    then have "(of_char (letter n) :: nat) \<in> of_char ` {CHR ''='', CHR ''-'', CHR ''_'', CHR ''+'', CHR ''/''}" by blast
    then show False using that by (auto simp: of_letter)
  qed
  have plain: "c \<notin> {CHR ''='', CHR ''-'', CHR ''_'', CHR ''+'', CHR ''/''}" if "c \<in> set (letters_of bs)" for c bs
    using that letter[of "unat _ div 16"] letter[of "unat _ mod 16"] unat_div_16 by (auto simp: letters_of_def)
  have "length (letters_of bs) mod 4 = 0" for bs by (induction bs) (simp_all add: letters_of_def)
  moreover have "map url_char (letters_of bs) = letters_of bs" for bs
    using plain by (intro map_idI) (auto simp: url_char_def)
  moreover have "filter (\<lambda>c. c \<noteq> CHR ''='') (letters_of bs) = letters_of bs" for bs using plain by (auto simp: filter_id_conv)
  moreover have "\<exists>body n. letters_of bs = body @ replicate n (CHR ''='') \<and> n < 4 \<and> set body \<inter> {CHR ''='', CHR ''-'', CHR ''_''} = {}" for bs
    using plain by (intro exI[of _ "letters_of bs"] exI[of _ 0]) auto
  moreover have "letters_of [] = []" by (simp add: letters_of_def)
  ultimately show ?thesis by (simp add: base64_laws_def letter_engine_def bytes_of_letters_of)
qed

end
