(* ===== verification/IpAddress.thy ===== *)
theory IpAddress
  imports Texts "HOL-Library.Word"
begin

unbundle bit_operations_syntax

section \<open>Internet addresses of the standard library\<close>

text \<open>
  \<^verbatim>\<open>std::net::IpAddr\<close> and its parser, which the address checks and the URI parser call.  An IPv4
  address is its 32 bits, an IPv6 address its 128 bits.  The parser is a group of functions that
  consume a prefix of the text and return the rest, as the methods of the library's \<^verbatim>\<open>Parser\<close> do;
  a method that fails restores the text, so its result is \<open>None\<close>.
\<close>

datatype ip_addr = V4 "32 word" | V6 "128 word"

fun is_ipv4 :: "ip_addr \<Rightarrow> bool" where
  "is_ipv4 (V4 _) = True"
| "is_ipv4 (V6 _) = False"

definition octets_word :: "8 word \<Rightarrow> 8 word \<Rightarrow> 8 word \<Rightarrow> 8 word \<Rightarrow> 32 word" where
  "octets_word a b c d =
     push_bit 24 (ucast a) OR push_bit 16 (ucast b) OR push_bit 8 (ucast c) OR ucast d"

definition segments_word :: "16 word list \<Rightarrow> 128 word" where
  "segments_word ss = foldl (\<lambda>v s. push_bit 16 v OR ucast s) 0 ss"

subsection \<open>Parsing\<close>

text \<open>\<^verbatim>\<open>read_number\<close>: the digits of the radix, at most \<open>max_digits\<close> of them, within \<open>limit\<close>; a
  leading zero only when it is allowed or alone.\<close>

definition read_number :: "nat \<Rightarrow> nat \<Rightarrow> bool \<Rightarrow> nat \<Rightarrow> string \<Rightarrow> (nat \<times> string) option" where
  "read_number radix max_digits zero_prefix limit t =
     (let ds = takeWhile (\<lambda>c. to_digit radix c \<noteq> None) t; v = digits_value radix ds in
      if ds = [] \<or> max_digits < length ds \<or> limit < v \<or>
         \<not> zero_prefix \<and> hd ds = CHR ''0'' \<and> 1 < length ds
      then None else Some (v, drop (length ds) t))"

text \<open>\<^verbatim>\<open>read_separator\<close>: the separator before every item but the first.\<close>

definition read_separator :: "char \<Rightarrow> nat \<Rightarrow> (string \<Rightarrow> ('a \<times> string) option) \<Rightarrow> string \<Rightarrow> ('a \<times> string) option" where
  "read_separator sep index inner t =
     (if index = 0 then inner t
      else case t of [] \<Rightarrow> None | c # r \<Rightarrow> if c = sep then inner r else None)"

definition read_octet :: "nat \<Rightarrow> string \<Rightarrow> (8 word \<times> string) option" where
  "read_octet i t = map_option (map_prod word_of_nat id)
     (read_separator (CHR ''.'') i (read_number 10 3 False 255) t)"

definition read_ipv4_addr :: "string \<Rightarrow> (32 word \<times> string) option" where
  "read_ipv4_addr t =
     (case read_octet 0 t of None \<Rightarrow> None | Some (a, t1) \<Rightarrow>
     (case read_octet 1 t1 of None \<Rightarrow> None | Some (b, t2) \<Rightarrow>
     (case read_octet 2 t2 of None \<Rightarrow> None | Some (c, t3) \<Rightarrow>
     (case read_octet 3 t3 of None \<Rightarrow> None | Some (d, t4) \<Rightarrow> Some (octets_word a b c d, t4)))))"

text \<open>\<^verbatim>\<open>read_groups\<close> from group \<open>i\<close> on, with \<open>room\<close> groups left: the groups read, whether they end
  with an embedded IPv4 address, and the rest of the text.\<close>

fun read_groups :: "nat \<Rightarrow> nat \<Rightarrow> string \<Rightarrow> 16 word list \<times> bool \<times> string" where
  "read_groups i 0 t = ([], False, t)"
| "read_groups i (Suc room) t =
     (case (if 0 < room then read_separator (CHR '':'') i read_ipv4_addr t else None) of
        Some (v, r) \<Rightarrow> ([ucast (drop_bit 16 v), ucast v], True, r)
      | None \<Rightarrow>
          (case read_separator (CHR '':'') i (read_number 16 4 True 65535) t of
             None \<Rightarrow> ([], False, t)
           | Some (g, r) \<Rightarrow>
               (case read_groups (Suc i) room r of (gs, v4, r') \<Rightarrow> (word_of_nat g # gs, v4, r'))))"

definition read_ipv6_addr :: "string \<Rightarrow> (128 word \<times> string) option" where
  "read_ipv6_addr t =
     (case read_groups 0 8 t of (head, head_v4, r) \<Rightarrow>
        if length head = 8 then Some (segments_word head, r)
        else if head_v4 then None
        else (case r of
            a # b # r' \<Rightarrow>
              if a = CHR '':'' \<and> b = CHR '':'' then
                (case read_groups 0 (8 - (length head + 1)) r' of (tail, _, r'') \<Rightarrow>
                   Some (segments_word (head @ replicate (8 - length head - length tail) 0 @ tail), r''))
              else None
          | _ \<Rightarrow> None))"

text \<open>\<^verbatim>\<open>FromStr\<close>: the whole text; an IPv4 address is never longer than 15 characters.\<close>

definition parse_ipv4 :: "string \<Rightarrow> 32 word option" where
  "parse_ipv4 t =
     (if 15 < length t then None
      else case read_ipv4_addr t of Some (v, []) \<Rightarrow> Some v | _ \<Rightarrow> None)"

definition parse_ipv6 :: "string \<Rightarrow> 128 word option" where
  "parse_ipv6 t = (case read_ipv6_addr t of Some (v, []) \<Rightarrow> Some v | _ \<Rightarrow> None)"

text \<open>\<^verbatim>\<open>parse::<IpAddr>\<close>\<close>

definition parse_ip :: "string \<Rightarrow> ip_addr option" where
  "parse_ip t = (case parse_ipv4 t of Some v \<Rightarrow> Some (V4 v) | None \<Rightarrow> map_option V6 (parse_ipv6 t))"

text \<open>\<^verbatim>\<open>Display\<close> of an IPv4 address.\<close>

definition ipv4_octets :: "32 word \<Rightarrow> nat list" where
  "ipv4_octets v = map (\<lambda>k. unat v div 2 ^ k mod 256) [24, 16, 8, 0]"

definition ipv4_text :: "32 word \<Rightarrow> string" where
  "ipv4_text v = join_with ''.'' (map string_of_nat (ipv4_octets v))"

text \<open>\<^verbatim>\<open>Display\<close> of an IPv6 address: an embedded IPv4 address in dotted form, the longest run of at least
  two zero segments (the first of the longest) as \<^verbatim>\<open>::\<close>, segments in lower-case hexadecimal.\<close>

definition ipv6_segments :: "128 word \<Rightarrow> nat list" where
  "ipv6_segments v = map (\<lambda>k. unat v div 2 ^ k mod 65536) [112, 96, 80, 64, 48, 32, 16, 0]"

definition hex_digit :: "nat \<Rightarrow> char" where
  "hex_digit d = char_of (if d < 10 then 48 + d else 87 + d)"

fun hex_text :: "nat \<Rightarrow> string" where
  "hex_text n = (if n < 16 then [hex_digit n] else hex_text (n div 16) @ [hex_digit (n mod 16)])"

declare hex_text.simps [simp del]

text \<open>Start and length of the longest run of zeros, from a position on, with the best run so far.\<close>

fun zero_run :: "nat list \<Rightarrow> nat" where
  "zero_run (0 # ss) = Suc (zero_run ss)"
| "zero_run _ = 0"

definition longest_zeros :: "nat list \<Rightarrow> nat \<times> nat" where
  "longest_zeros ss = foldl (\<lambda>(at_best, n) i. if n < zero_run (drop i ss) then (i, zero_run (drop i ss)) else (at_best, n)) (0, 0) [0..<length ss]"

definition ipv6_text :: "128 word \<Rightarrow> string" where
  "ipv6_text v =
     (let ss = ipv6_segments v in
      if take 6 ss = [0, 0, 0, 0, 0, 65535] then ''::ffff:'' @ ipv4_text (ucast v)
      else case longest_zeros ss of (i, n) \<Rightarrow>
        if 1 < n
        then join_with '':'' (map hex_text (take i ss)) @ ''::'' @ join_with '':'' (map hex_text (drop (i + n) ss))
        else join_with '':'' (map hex_text ss))"

fun ip_text :: "ip_addr \<Rightarrow> string" where
  "ip_text (V4 v) = ipv4_text v"
| "ip_text (V6 v) = ipv6_text v"

text \<open>For the evaluation of parsers on literals.\<close>

lemmas read_groups_numeral = read_groups.simps(2)[where room = "pred_numeral k" for k, folded numeral_eq_Suc]

lemma replicate_numeral: "replicate (numeral k) x = x # replicate (pred_numeral k) x"
  by (simp only: numeral_eq_Suc replicate_Suc)

lemmas ip_parse_defs = parse_ip_def parse_ipv4_def parse_ipv6_def read_ipv4_addr_def read_ipv6_addr_def read_octet_def
  read_separator_def read_number_def to_digit_def is_digit_def is_lower_def is_upper_def digits_value_def octets_word_def
  segments_word_def Let_def read_groups_numeral replicate_numeral

subsection \<open>Membership in a network\<close>

text \<open>Comparing the first bits of two addresses, as \<^verbatim>\<open>(ip ^ network) >> bits == 0\<close>, is membership in
  the interval of addresses that the network's prefix spans.\<close>

lemma word_xor_eq_0_iff: "a XOR b = 0 \<longleftrightarrow> a = b" for a b :: "'a::len word"
  by (metis bit.xor_self xor.assoc xor.left_neutral xor.right_neutral)

lemma xor_shift_zero_iff:
  fixes a b :: "'a::len word"
  shows "drop_bit k (a XOR b) = 0 \<longleftrightarrow> unat a div 2 ^ k = unat b div 2 ^ k"
proof -
  have "drop_bit k (a XOR b) = 0 \<longleftrightarrow> drop_bit k a = drop_bit k b"
    by (simp add: drop_bit_xor word_xor_eq_0_iff)
  also have "\<dots> \<longleftrightarrow> unat (drop_bit k a) = unat (drop_bit k b)"
    by (simp add: word_unat_eq_iff)
  finally show ?thesis by (simp only: unat_drop_bit_eq drop_bit_nat_def)
qed

lemma div_eq_interval:
  fixes a c m :: nat
  assumes "0 < m"
  shows "a div m = c \<longleftrightarrow> c * m \<le> a \<and> a < c * m + m"
proof
  assume "a div m = c"
  moreover have "a div m * m \<le> a" "a < a div m * m + m"
    using dividend_less_div_times[OF assms, of a] by simp_all
  ultimately show "c * m \<le> a \<and> a < c * m + m" by simp
next
  assume "c * m \<le> a \<and> a < c * m + m"
  then show "a div m = c" by (intro div_nat_eqI) (auto simp: mult.commute)
qed

end
