(* ===== verification/Totp.thy ===== *)
theory Totp
  imports Texts Bytes
begin

unbundle bit_operations_syntax

section \<open>One-time passwords\<close>

text \<open>
  \<^verbatim>\<open>crates/rails_compat/src/totp.rs\<close>: time-based one-time passwords.  The keyed hash of the
  library is a parameter \<open>hmac_sha1\<close>, whose digest has twenty bytes (\<open>digest_law\<close>); random choices
  are arguments.  Secrets are ASCII texts: a generated secret is, and one that is stored in
  another form is refused before it comes here.  Times are seconds in a 64-bit signed integer,
  and arithmetic that would leave its range is an error, as in the source.
\<close>

datatype invalid_totp = SecretInvalid | TimeInvalid

type_synonym keyed_hash = "byte list \<Rightarrow> byte list \<Rightarrow> byte list"

definition digest_law :: "keyed_hash \<Rightarrow> bool" where
  "digest_law hmac_sha1 \<longleftrightarrow> (\<forall>key input. length (hmac_sha1 key input) = 20)"

definition base32 :: string where
  "base32 = ''ABCDEFGHIJKLMNOPQRSTUVWXYZ234567''"

definition issuer :: string where "issuer = ''Smartfire''"

definition step_seconds :: int where "step_seconds = 30"

text \<open>The random choices are the list \<open>choices\<close> of thirty-two numbers below thirty-two.\<close>

definition generate_secret :: "nat list \<Rightarrow> string" where
  "generate_secret choices = map (\<lambda>r. base32 ! r) choices"

subsection \<open>Secrets\<close>

definition ascii_upper :: "char \<Rightarrow> char" where
  "ascii_upper c = (if is_lower c then char_of (of_char c - 32 :: nat) else c)"

definition base32_value :: "char \<Rightarrow> nat option" where
  "base32_value c = (if c \<in> set base32 then Some (length (takeWhile (\<lambda>b. b \<noteq> c) base32)) else None)"

fun decode_from :: "32 word \<Rightarrow> nat \<Rightarrow> byte list \<Rightarrow> string \<Rightarrow> invalid_totp + byte list" where
  "decode_from buffer bits output [] = Inr output"
| "decode_from buffer bits output (c # cs) =
     (case base32_value c of
        None \<Rightarrow> Inl SecretInvalid
      | Some v \<Rightarrow>
          let buffer' = push_bit 5 buffer OR word_of_nat v in
          if 8 \<le> bits + 5 then
            decode_from buffer' (bits + 5 - 8) (output @ [ucast (drop_bit (bits + 5 - 8) buffer')]) cs
          else decode_from buffer' (bits + 5) output cs)"

definition decode_base32 :: "string \<Rightarrow> invalid_totp + byte list" where
  "decode_base32 secret =
     decode_from 0 0 [] (map ascii_upper (filter (\<lambda>c. c \<noteq> CHR ''='') secret))"

subsection \<open>Codes\<close>

definition pad_six :: "nat \<Rightarrow> string" where
  "pad_six n = replicate (6 - length (string_of_nat n)) (CHR ''0'') @ string_of_nat n"

definition code_for_step :: "keyed_hash \<Rightarrow> byte list \<Rightarrow> int \<Rightarrow> invalid_totp + string" where
  "code_for_step hmac_sha1 key step =
     (if step < 0 then Inl TimeInvalid
      else
        let digest = hmac_sha1 key (to_be_bytes 8 (nat step));
            offset = unat (digest ! 19 AND 0x0f);
            truncated = from_be_bytes (take 4 (drop offset digest)) mod 2 ^ 31
        in Inr (pad_six (truncated mod 1000000)))"

definition totp_at :: "keyed_hash \<Rightarrow> string \<Rightarrow> int \<Rightarrow> invalid_totp + string" where
  "totp_at hmac_sha1 secret unix_seconds =
     (case decode_base32 secret of
        Inl e \<Rightarrow> Inl e
      | Inr key \<Rightarrow> code_for_step hmac_sha1 key (unix_seconds div step_seconds))"

definition ruby_code_whitespace :: "char \<Rightarrow> bool" where
  "ruby_code_whitespace c \<longleftrightarrow> c \<in> {CHR '' '', CHR 0x09, CHR 0x0A, CHR 0x0D, CHR 0x0B, CHR 0x0C}"

definition checked_i64 :: "int \<Rightarrow> invalid_totp + int" where
  "checked_i64 v = (if - (2 ^ 63) \<le> v \<and> v < 2 ^ 63 then Inr v else Inl TimeInvalid)"

definition excluded :: "int option \<Rightarrow> int \<Rightarrow> bool" where
  "excluded after step = (case after of None \<Rightarrow> False | Some a \<Rightarrow> step \<le> a div step_seconds)"

fun match_steps :: "keyed_hash \<Rightarrow> byte list \<Rightarrow> string \<Rightarrow> int option \<Rightarrow> int option \<Rightarrow> int list \<Rightarrow> invalid_totp + int option" where
  "match_steps hmac_sha1 key code after matched [] = Inr matched"
| "match_steps hmac_sha1 key code after matched (step # steps) =
     (if excluded after step then match_steps hmac_sha1 key code after matched steps
      else case code_for_step hmac_sha1 key step of
          Inl e \<Rightarrow> Inl e
        | Inr generated \<Rightarrow>
            if code = generated then
              (case checked_i64 (step * step_seconds) of
                 Inl e \<Rightarrow> Inl e
               | Inr at_time \<Rightarrow> match_steps hmac_sha1 key code after (Some at_time) steps)
            else match_steps hmac_sha1 key code after matched steps)"

definition verify_code :: "keyed_hash \<Rightarrow> string \<Rightarrow> string \<Rightarrow> int \<Rightarrow> int option \<Rightarrow> invalid_totp + int option" where
  "verify_code hmac_sha1 secret code_text unix_seconds after =
     (let code = filter (\<lambda>c. \<not> ruby_code_whitespace c) code_text in
      if code = [] then Inr None
      else case decode_base32 secret of
          Inl e \<Rightarrow> Inl e
        | Inr key \<Rightarrow>
            (case checked_i64 (unix_seconds - step_seconds) of
               Inl e \<Rightarrow> Inl e
             | Inr earliest \<Rightarrow>
                 (case checked_i64 (unix_seconds + step_seconds) of
                    Inl e \<Rightarrow> Inl e
                  | Inr latest \<Rightarrow>
                      match_steps hmac_sha1 key code after None
                        [earliest div step_seconds .. latest div step_seconds])))"

subsection \<open>Provisioning\<close>

definition hex_char :: "nat \<Rightarrow> char" where
  "hex_char d = (if d < 10 then char_of (48 + d) else char_of (55 + d))"

definition uri_component :: "string \<Rightarrow> string" where
  "uri_component t = concat (map (\<lambda>c.
     if is_upper c \<or> is_lower c \<or> is_digit c \<or> c \<in> {CHR ''-'', CHR ''_'', CHR ''.'', CHR ''~''} then [c]
     else [CHR ''%'', hex_char (of_char c div 16), hex_char (of_char c mod 16)]) t)"

definition provisioning_uri :: "string \<Rightarrow> string \<Rightarrow> string" where
  "provisioning_uri secret email_address =
     (let label = map (\<lambda>c. if c = CHR '':'' then CHR ''_'' else c)
            (rev (dropWhile (\<lambda>c. ruby_code_whitespace c \<or> c = CHR 0x00) (rev email_address)))
      in ''otpauth://totp/'' @ issuer @ '':'' @ uri_component label @ ''?secret='' @ uri_component secret @
         ''&issuer='' @ issuer)"

subsection \<open>Decoding is exact\<close>

text \<open>The number that base-32 digits write.\<close>

definition base32_number :: "nat \<Rightarrow> nat list \<Rightarrow> nat" where
  "base32_number n vs = foldl (\<lambda>acc v. acc * 32 + v) n vs"

lemma base32_value_less: "base32_value c = Some v \<Longrightarrow> v < 32"
proof -
  assume "base32_value c = Some v"
  then have "c \<in> set base32" "v = length (takeWhile (\<lambda>b. b \<noteq> c) base32)"
    by (auto simp: base32_value_def split: if_splits)
  moreover have "c \<in> set xs \<Longrightarrow> length (takeWhile (\<lambda>b. b \<noteq> c) xs) < length xs" for xs
    by (induction xs) auto
  ultimately have "v < length base32" by simp
  then show "v < 32" by (simp add: base32_def)
qed

lemma bit_nat_iff_odd: "bit (m :: nat) i \<longleftrightarrow> odd (m div 2 ^ i)"
  by (simp add: bit_iff_odd)

lemma shift_in_digit:
  assumes "v < 32"
  shows "push_bit 5 (word_of_nat n :: 32 word) OR word_of_nat v = word_of_nat (n * 32 + v)"
proof -
  have "\<not> bit (word_of_nat v :: 32 word) i" if "5 \<le> i" for i
  proof -
    have "v < 2 ^ 5" using assms by simp
    also have "(2 :: nat) ^ 5 \<le> 2 ^ i" using that by (rule power_increasing) simp
    finally show ?thesis unfolding bit_word_of_nat bit_nat_iff_odd by simp
  qed
  then have "\<not> bit (push_bit 5 (word_of_nat n :: 32 word)) i \<or> \<not> bit (word_of_nat v :: 32 word) i" for i
    by (auto simp: bit_push_bit_iff not_less)
  then have "push_bit 5 (word_of_nat n :: 32 word) OR word_of_nat v = push_bit 5 (word_of_nat n) + word_of_nat v"
    by (simp add: disjunctive_add)
  then show ?thesis by (simp add: push_bit_eq_mult)
qed

lemma take_byte:
  assumes "b + 8 \<le> 32"
  shows "(ucast (drop_bit b (word_of_nat n :: 32 word)) :: byte) = word_of_nat (n div 2 ^ b)"
proof (rule bit_eqI)
  fix i assume "possible_bit TYPE(byte) i"
  then have "i < 8" by (simp add: possible_bit_def)
  with assms show "bit (ucast (drop_bit b (word_of_nat n :: 32 word)) :: byte) i = bit (word_of_nat (n div 2 ^ b) :: byte) i"
    by (simp add: bit_unsigned_iff bit_drop_bit_eq bit_word_of_nat bit_nat_iff_odd div_mult2_eq[symmetric] power_add[symmetric])
qed

lemma next_group:
  "8 \<le> m mod 8 + 5 \<Longrightarrow> (m + 5) mod 8 = m mod 8 + 5 - 8 \<and> (m + 5) div 8 = Suc (m div 8)"
  "\<not> 8 \<le> m mod 8 + 5 \<Longrightarrow> (m + 5) mod 8 = m mod 8 + 5 \<and> (m + 5) div 8 = m div 8" for m :: nat
proof -
  have eq: "(8 * q + r) mod 8 = r \<and> (8 * q + r) div 8 = q" if "r < 8" for q r :: nat
    using that by (simp add: mod_mult_self4 div_mult_self4)
  obtain q r where m: "m = 8 * q + r" and r: "r < 8"
    using that[of "m div 8" "m mod 8"] by simp
  show "(m + 5) mod 8 = m mod 8 + 5 - 8 \<and> (m + 5) div 8 = Suc (m div 8)" if g: "8 \<le> m mod 8 + 5"
  proof -
    have "m + 5 = 8 * Suc q + (r + 5 - 8)" using m g eq[OF r, of q] by simp
    then show ?thesis using eq[of "r + 5 - 8" "Suc q"] eq[OF r, of q] r m by (simp add: add.commute)
  qed
  show "(m + 5) mod 8 = m mod 8 + 5 \<and> (m + 5) div 8 = m div 8" if g: "\<not> 8 \<le> m mod 8 + 5"
  proof -
    have "m + 5 = 8 * q + (r + 5)" "r + 5 < 8" using m g eq[OF r, of q] by auto
    then show ?thesis using eq[of "r + 5" q] eq[OF r, of q] m by (simp add: add.assoc)
  qed
qed

lemma decode_from_exact:
  "decode_from (word_of_nat n) (5 * k mod 8) (to_be_bytes (5 * k div 8) (n div 2 ^ (5 * k mod 8))) cs =
     (case those (map base32_value cs) of
        None \<Rightarrow> Inl SecretInvalid
      | Some vs \<Rightarrow> Inr (to_be_bytes (5 * (k + length vs) div 8)
          (base32_number n vs div 2 ^ (5 * (k + length vs) mod 8))))"
proof (induction cs arbitrary: n k)
  case Nil
  show ?case by (simp add: base32_number_def)
next
  case (Cons c cs)
  show ?case
  proof (cases "base32_value c")
    case None
    then show ?thesis by simp
  next
    case (Some v)
    then have v: "v < 32" by (rule base32_value_less)
    let ?b = "5 * k mod 8" and ?n = "n * 32 + v"
    have low: "?n div 2 ^ (?b + 5) = n div 2 ^ ?b"
      using v by (simp add: power_add div_mult2_eq mult.commute[of "2 ^ ?b"])
    have step: "decode_from (word_of_nat n) ?b (to_be_bytes (5 * k div 8) (n div 2 ^ ?b)) (c # cs) =
        decode_from (word_of_nat ?n) (5 * Suc k mod 8) (to_be_bytes (5 * Suc k div 8) (?n div 2 ^ (5 * Suc k mod 8))) cs"
    proof (cases "8 \<le> ?b + 5")
      case True
      then have k: "5 * Suc k mod 8 = ?b + 5 - 8" "5 * Suc k div 8 = Suc (5 * k div 8)"
        using next_group(1)[of "5 * k"] by (simp_all add: add.commute)
      have "?n div 2 ^ (?b + 5 - 8) div 256 = n div 2 ^ ?b"
      proof -
        have "(2 :: nat) ^ (?b + 5) = 2 ^ (?b + 5 - 8) * 256"
          using True power_add[of "2 :: nat" "?b + 5 - 8" 8] by (simp add: add.commute)
        then show ?thesis using low by (simp add: div_mult2_eq)
      qed
      moreover have "?b + 5 - 8 + 8 \<le> 32" by (simp add: less_imp_le_nat)
      ultimately show ?thesis using Some True v
        by (simp only: decode_from.simps option.case Let_def if_True shift_in_digit take_byte k to_be_bytes_snoc)
    next
      case False
      then have k: "5 * Suc k mod 8 = ?b + 5" "5 * Suc k div 8 = 5 * k div 8"
        using next_group(2)[of "5 * k"] by (simp_all add: add.commute)
      show ?thesis using Some False v low
        by (simp only: decode_from.simps option.case Let_def if_False shift_in_digit k)
    qed
    show ?thesis unfolding step using Cons.IH[of ?n "Suc k"] Some
      by (cases "those (map base32_value cs)") (simp_all add: base32_number_def)
  qed
qed

text \<open> The decoder, whose 32-bit accumulator loses the high bits as it goes, returns exactly the
  whole bytes of the number that the secret writes in base 32, and refuses every text with a
  character outside the alphabet.\<close>

theorem decode_base32_exact:
  "decode_base32 secret =
     (case those (map base32_value (map ascii_upper (filter (\<lambda>c. c \<noteq> CHR ''='') secret))) of
        None \<Rightarrow> Inl SecretInvalid
      | Some vs \<Rightarrow> Inr (to_be_bytes (5 * length vs div 8) (base32_number 0 vs div 2 ^ (5 * length vs mod 8))))"
  using decode_from_exact[of 0 0 "map ascii_upper (filter (\<lambda>c. c \<noteq> CHR ''='') secret)"]
  by (simp add: decode_base32_def split: option.splits)

subsection \<open>Which codes are accepted\<close>

text \<open>A step a code matches: one that is not excluded and whose code it is.\<close>

definition matches_step :: "keyed_hash \<Rightarrow> byte list \<Rightarrow> string \<Rightarrow> int option \<Rightarrow> int \<Rightarrow> bool" where
  "matches_step hmac_sha1 key code after step \<longleftrightarrow>
     \<not> excluded after step \<and> code_for_step hmac_sha1 key step = Inr code"

lemma match_steps_newest:
  "match_steps hmac_sha1 key code after matched steps = Inr r \<Longrightarrow>
   r = (case filter (matches_step hmac_sha1 key code after) steps of
     [] \<Rightarrow> matched | found \<Rightarrow> Some (List.last found * step_seconds))"
proof (induction steps arbitrary: matched)
  case (Cons step steps)
  show ?case
  proof (cases "matches_step hmac_sha1 key code after step")
    case True
    with Cons.prems have "match_steps hmac_sha1 key code after (Some (step * step_seconds)) steps = Inr r"
      by (auto simp: matches_step_def checked_i64_def split: if_splits)
    from Cons.IH[OF this] True show ?thesis by (auto split: list.splits)
  next
    case False
    with Cons.prems have "match_steps hmac_sha1 key code after matched steps = Inr r"
      by (auto simp: matches_step_def split: if_splits sum.splits)
    from Cons.IH[OF this] False show ?thesis by simp
  qed
qed simp

lemma match_steps_total:
  assumes "\<And>step. step \<in> set steps \<Longrightarrow> 0 \<le> step \<and> step * step_seconds < 2 ^ 63"
  shows "\<exists>r. match_steps hmac_sha1 key code after matched steps = Inr r"
  using assms
proof (induction hmac_sha1 key code after matched steps rule: match_steps.induct)
  case (2 hmac_sha1 key code after matched step steps)
  have "0 \<le> step" "step * step_seconds < 2 ^ 63" using 2(4)[of step] by simp_all
  then have "code_for_step hmac_sha1 key step \<noteq> Inl e" "checked_i64 (step * step_seconds) = Inr (step * step_seconds)" for e
    by (simp_all add: code_for_step_def checked_i64_def Let_def step_seconds_def)
  then show ?case using 2 by (cases "code_for_step hmac_sha1 key step") auto
qed simp

text \<open>The code without its white space, the window of steps around a time.\<close>

definition plain_code :: "string \<Rightarrow> string" where
  "plain_code t = filter (\<lambda>c. \<not> ruby_code_whitespace c) t"

definition window :: "int \<Rightarrow> int list" where
  "window t = [(t - step_seconds) div step_seconds .. (t + step_seconds) div step_seconds]"

lemma verify_code_eq:
  "verify_code hmac_sha1 secret code t after =
     (if plain_code code = [] then Inr None
      else case decode_base32 secret of Inl e \<Rightarrow> Inl e | Inr key \<Rightarrow>
        if - (2 ^ 63) \<le> t - step_seconds \<and> t - step_seconds < 2 ^ 63 \<and> - (2 ^ 63) \<le> t + step_seconds \<and> t + step_seconds < 2 ^ 63
        then match_steps hmac_sha1 key (plain_code code) after None (window t) else Inl TimeInvalid)"
  by (auto simp: verify_code_def plain_code_def window_def checked_i64_def Let_def split: sum.splits)

text \<open>C24.  A code is accepted exactly when it is, without white space, the code of a step at most thirty
  seconds away that lies after the whole step of \<open>after\<close>; the newest such step is the one
  reported.  For every time from 1970 that fits with its window, and a secret that decodes, there
  is an answer.\<close>

theorem verify_code_exact:
  assumes "decode_base32 secret = Inr key" and "plain_code code \<noteq> []"
    and "step_seconds \<le> t" and "t + step_seconds < 2 ^ 63"
  shows "verify_code hmac_sha1 secret code t after =
    Inr (case filter (matches_step hmac_sha1 key (plain_code code) after) (window t) of
      [] \<Rightarrow> None | found \<Rightarrow> Some (List.last found * step_seconds))"
proof -
  have "0 \<le> step \<and> step * step_seconds < 2 ^ 63" if "step \<in> set (window t)" for step
  proof -
    from that have lo: "(t - 30) div 30 \<le> step" and hi: "step \<le> (t + 30) div 30"
      by (auto simp: window_def step_seconds_def)
    have "0 \<le> (t - 30) div 30" using assms(3) by (simp add: step_seconds_def)
    moreover have "step * 30 \<le> t + 30" using hi by linarith
    ultimately show ?thesis using lo assms(4) by (auto simp: step_seconds_def)
  qed
  then obtain r where r: "match_steps hmac_sha1 key (plain_code code) after None (window t) = Inr r"
    using match_steps_total by blast
  have "verify_code hmac_sha1 secret code t after = Inr r"
    using assms r by (auto simp: verify_code_eq step_seconds_def)
  with match_steps_newest[OF r] show ?thesis by simp
qed

text \<open>A hash that is always zero, for evaluation.\<close>

definition zero_hash :: keyed_hash where
  "zero_hash key input = replicate 20 0"

lemma zero_secret: "decode_base32 ''AAAAAAAA'' = Inr [0, 0, 0, 0, 0]"
  by code_simp

lemma zero_code:
  assumes "0 \<le> step" shows "code_for_step zero_hash key step = Inr ''000000''"
proof -
  have six: "pad_six 0 = ''000000''" by code_simp
  have "from_be_bytes (replicate k 0) = 0" for k
    by (induction k) (simp_all add: from_be_bytes_def)
  then show ?thesis using assms by (simp add: code_for_step_def zero_hash_def six)
qed

theorem verify_code_exact_witness:
  "digest_law zero_hash \<and> verify_code zero_hash ''AAAAAAAA'' ''000 000'' 59 (Some 29) = Inr (Some 60)"
proof -
  have w: "window 59 = [0, 1, 2]" by (simp add: window_def step_seconds_def upto.simps)
  have "plain_code ''000 000'' = ''000000''" by code_simp
  moreover from this have "filter (matches_step zero_hash [0, 0, 0, 0, 0] (plain_code ''000 000'') (Some 29)) (window 59) = [1, 2]"
    by (simp add: w matches_step_def zero_code excluded_def step_seconds_def)
  ultimately show ?thesis
    using verify_code_exact[OF zero_secret, of "''000 000''" 59 zero_hash "Some 29"]
    by (simp add: step_seconds_def digest_law_def zero_hash_def)
qed

text \<open>What an acceptance means for the caller.\<close>

lemma verify_code_Some:
  assumes "verify_code hmac_sha1 secret code t after = Inr (Some m)"
  shows "m = m div step_seconds * step_seconds" and "\<not> excluded after (m div step_seconds)"
    and "m div step_seconds \<in> set (window t)"
    and "\<exists>key. decode_base32 secret = Inr key \<and> code_for_step hmac_sha1 key (m div step_seconds) = Inr (plain_code code)"
proof -
  obtain key where key: "decode_base32 secret = Inr key"
    and m: "match_steps hmac_sha1 key (plain_code code) after None (window t) = Inr (Some m)"
    using assms by (auto simp: verify_code_eq split: if_splits sum.splits)
  let ?found = "filter (matches_step hmac_sha1 key (plain_code code) after) (window t)"
  from match_steps_newest[OF m] have ne: "?found \<noteq> []" and eq: "m = List.last ?found * step_seconds"
    by (auto split: list.splits)
  have "List.last ?found \<in> set ?found" using ne by (rule last_in_set)
  moreover have "m div step_seconds = List.last ?found" using eq by (simp add: step_seconds_def)
  ultimately show "m = m div step_seconds * step_seconds" and "\<not> excluded after (m div step_seconds)"
    and "m div step_seconds \<in> set (window t)"
    and "\<exists>key. decode_base32 secret = Inr key \<and> code_for_step hmac_sha1 key (m div step_seconds) = Inr (plain_code code)"
    using eq key by (auto simp: matches_step_def)
qed

end
