(* ===== verification/Forgery.thy ===== *)
theory Forgery
  imports Encoding Request Totp
begin

unbundle bit_operations_syntax

section \<open>Forgery protection\<close>

text \<open>
  \<^verbatim>\<open>crates/kit/src/csrf.rs\<close> and the forgery protection of \<^verbatim>\<open>crates/kit/src/ctx.rs\<close>: a session's token,
  the tokens derived from it, their masking, and the check of requests that may change something.
  The keyed hash and the Base64 codecs are parameters; random bytes are arguments.
\<close>

definition token_length :: nat where "token_length = 32"

definition global_identifier :: string where "global_identifier = ''!real_csrf_token''"

text \<open>\<^verbatim>\<open>urlsafe_decode\<close> of this file pads every text that does not end with a padding character.\<close>

definition csrf_decode :: "base64_engine \<Rightarrow> string \<Rightarrow> byte list option" where
  "csrf_decode e encoded =
     (let translated = map std_char encoded
      in std_decode e (if \<not> suffix ''='' encoded then pad_to_four translated else translated))"

definition csrf_generate :: "base64_engine \<Rightarrow> byte list \<Rightarrow> string" where
  "csrf_generate e fresh = url_encode_unpadded e fresh"

subsection \<open>Tokens\<close>

definition token_hmac :: "keyed_hash \<Rightarrow> byte list \<Rightarrow> string \<Rightarrow> byte list" where
  "token_hmac h own identifier = h own (text_bytes identifier)"

definition global_token :: "keyed_hash \<Rightarrow> byte list \<Rightarrow> byte list" where
  "global_token h own = token_hmac h own global_identifier"

definition per_form :: "keyed_hash \<Rightarrow> byte list \<Rightarrow> string \<Rightarrow> string \<Rightarrow> byte list" where
  "per_form h own action_path verb = token_hmac h own (action_path @ ''#'' @ map to_lower verb)"

definition xor_bytes :: "byte list \<Rightarrow> byte list \<Rightarrow> byte list" where
  "xor_bytes a b = map (\<lambda>(x, y). x XOR y) (zip a b)"

definition mask_token :: "base64_engine \<Rightarrow> byte list \<Rightarrow> byte list \<Rightarrow> string" where
  "mask_token e raw pad = url_encode_unpadded e (pad @ xor_bytes pad raw)"

definition masked :: "base64_engine \<Rightarrow> keyed_hash \<Rightarrow> byte list \<Rightarrow> (string \<times> string) option \<Rightarrow> byte list \<Rightarrow> string" where
  "masked e h own form pad =
     mask_token e (case form of Some (action_path, verb) \<Rightarrow> per_form h own action_path verb | None \<Rightarrow> global_token h own) pad"

definition fixed_length_secure_compare :: "byte list \<Rightarrow> byte list \<Rightarrow> bool" where
  "fixed_length_secure_compare a b \<longleftrightarrow> length a = length b \<and> a = b"

definition without_slash :: "string \<Rightarrow> string" where
  "without_slash path = (case strip_suffix ''/'' path of Some p \<Rightarrow> p | None \<Rightarrow> path)"

definition is_valid_token :: "base64_engine \<Rightarrow> keyed_hash \<Rightarrow> byte list \<Rightarrow> string \<Rightarrow> string \<Rightarrow> string \<Rightarrow> bool" where
  "is_valid_token e h own encoded path verb =
     (if encoded = [] then False
      else case csrf_decode e encoded of None \<Rightarrow> False
      | Some token \<Rightarrow>
          if length token = token_length then fixed_length_secure_compare token own
          else if length token = token_length * 2 then
            (let unmasked = xor_bytes (take token_length token) (drop token_length token) in
             fixed_length_secure_compare unmasked (global_token h own) \<or> fixed_length_secure_compare unmasked own \<or>
             fixed_length_secure_compare unmasked (per_form h own (without_slash path) verb))
          else False)"

subsection \<open>The path a form is bound to\<close>

definition has_scheme :: "string \<Rightarrow> bool" where
  "has_scheme u =
     (case split_once (CHR '':'') u of
        None \<Rightarrow> False
      | Some (scheme, _) \<Rightarrow>
          (case scheme of [] \<Rightarrow> False | c # _ \<Rightarrow> is_alphabetic c) \<and>
          list_all (\<lambda>c. is_alphanumeric c \<or> c \<in> {CHR ''+'', CHR ''-'', CHR ''.''}) scheme \<and>
          \<not> list_ex (\<lambda>c. c \<in> {CHR ''/'', CHR ''?'', CHR ''#''}) scheme)"

definition uri_path :: "string \<Rightarrow> string" where
  "uri_path u =
     (let rest = (if has_scheme u then tl (dropWhile (\<lambda>c. c \<noteq> CHR '':'') u) else u);
          rest = (case strip_prefix ''//'' rest of Some authority_and_path \<Rightarrow> dropWhile (\<lambda>c. c \<noteq> CHR ''/'') authority_and_path
                  | None \<Rightarrow> rest)
      in takeWhile (\<lambda>c. c \<notin> {CHR ''?'', CHR ''#''}) rest)"

text \<open>\<^verbatim>\<open>replace("/./", "/")\<close>: from left to right, without overlaps.\<close>

fun replace_dot :: "string \<Rightarrow> string" where
  "replace_dot (a # b # c # r) =
     (if a = CHR ''/'' \<and> b = CHR ''.'' \<and> c = CHR ''/'' then CHR ''/'' # replace_dot r else a # replace_dot (b # c # r))"
| "replace_dot t = t"

definition normalize_action_path :: "string \<Rightarrow> string \<Rightarrow> string" where
  "normalize_action_path action request_path =
     (let path = uri_path action;
          relative = (\<not> has_scheme action \<and> \<not> prefix ''/'' action)
      in without_slash (if relative then replace_dot (uri_path request_path @ ''/'' @ path) else path))"

subsection \<open>The tokens of a page\<close>

record page_tokens =
  pt_real :: "byte list"
  pt_request_path :: string

definition page_global :: "base64_engine \<Rightarrow> keyed_hash \<Rightarrow> page_tokens \<Rightarrow> byte list \<Rightarrow> string" where
  "page_global e h t pad = masked e h (pt_real t) None pad"

definition page_for_form :: "base64_engine \<Rightarrow> keyed_hash \<Rightarrow> page_tokens \<Rightarrow> string \<Rightarrow> string \<Rightarrow> byte list \<Rightarrow> string" where
  "page_for_form e h t action verb pad =
     masked e h (pt_real t) (Some (normalize_action_path action (pt_request_path t), verb)) pad"

subsection \<open>The check\<close>

datatype null_origin = NullOrigin

definition valid_request_origin :: "string option \<Rightarrow> string \<Rightarrow> null_origin + bool" where
  "valid_request_origin given base =
     (case given of
        Some o' \<Rightarrow> if o' = ''null'' then Inl NullOrigin else Inr (o' = base)
      | None \<Rightarrow> Inr True)"

text \<open>The state of a request's forgery protection: the token it has read or made, the token of the
  session, and whether it is marked for the same-origin check.\<close>

record forgery_state =
  fs_csrf_token :: "string option"
  fs_session_token :: "string option"
  fs_marked :: bool
  fs_session_bound :: bool

text \<open>\<^verbatim>\<open>real_csrf_token\<close>: \<open>None\<close> is the panic of \<^verbatim>\<open>expect\<close>.  A stored token that does not decode is replaced.\<close>

definition real_csrf_token :: "base64_engine \<Rightarrow> byte list \<Rightarrow> byte list \<Rightarrow> forgery_state \<Rightarrow> byte list option \<times> forgery_state" where
  "real_csrf_token e fresh again st =
     (let token = (case fs_csrf_token st of Some t \<Rightarrow> t
            | None \<Rightarrow> (case fs_session_token st of Some t \<Rightarrow> t | None \<Rightarrow> csrf_generate e fresh));
          st' = st\<lparr>fs_csrf_token := Some token\<rparr>
      in case csrf_decode e token of
           Some own \<Rightarrow> (Some own, st')
         | None \<Rightarrow> (csrf_decode e (csrf_generate e again), st'\<lparr>fs_csrf_token := Some (csrf_generate e again)\<rparr>))"

text \<open>The commit at the end of a request stores the token in the session.\<close>

definition commit_csrf_token :: "forgery_state \<Rightarrow> forgery_state" where
  "commit_csrf_token st = (case fs_csrf_token st of Some t \<Rightarrow> st\<lparr>fs_session_token := Some t\<rparr> | None \<Rightarrow> st)"

definition authenticity_tokens :: "base64_engine \<Rightarrow> byte list \<Rightarrow> byte list \<Rightarrow> web_request \<Rightarrow> forgery_state \<Rightarrow> page_tokens option \<times> forgery_state" where
  "authenticity_tokens e fresh again r st =
     (case real_csrf_token e fresh again (st\<lparr>fs_session_bound := True\<rparr>) of
        (own, st') \<Rightarrow> (map_option (\<lambda>b. \<lparr>pt_real = b, pt_request_path = up_path (wr_uri r)\<rparr>) own, st'))"

text \<open>The candidates are the parameter and the header.\<close>

definition any_token_valid :: "base64_engine \<Rightarrow> keyed_hash \<Rightarrow> byte list \<Rightarrow> byte list \<Rightarrow> web_request \<Rightarrow> string option \<Rightarrow> forgery_state \<Rightarrow>
    bool option \<times> forgery_state" where
  "any_token_valid e h fresh again r param st =
     (let candidates = filter (\<lambda>t. t \<noteq> []) (concat (map (case_option [] (\<lambda>t. [t])) [param, header (wr_headers r) ''x-csrf-token'']))
      in if candidates = [] then (Some False, st)
         else case real_csrf_token e fresh again st of
             (own, st') \<Rightarrow>
               (map_option (\<lambda>b. list_ex (\<lambda>t. is_valid_token e h b t (up_path (wr_uri r)) (wr_method r)) candidates) own, st'))"

datatype forgery_error = InvalidAuthenticityToken string

definition origin_check :: "bool \<Rightarrow> web_request \<Rightarrow> forgery_error + bool" where
  "origin_check enabled_check r =
     (if \<not> enabled_check then Inr True
      else case valid_request_origin (origin r) (base_url r) of
          Inl _ \<Rightarrow> Inl (InvalidAuthenticityToken ''The browser returned a 'null' origin'')
        | Inr b \<Rightarrow> Inr b)"

definition verify_authenticity_token :: "base64_engine \<Rightarrow> keyed_hash \<Rightarrow> bool \<Rightarrow> byte list \<Rightarrow> byte list \<Rightarrow> web_request \<Rightarrow> string option \<Rightarrow>
    forgery_state \<Rightarrow> (forgery_error + unit) option \<times> forgery_state" where
  "verify_authenticity_token e h enabled_check fresh again r param st0 =
     (let st = st0\<lparr>fs_marked := is_get r\<rparr> in
      if is_get r \<or> is_head r then (Some (Inr ()), st)
      else case origin_check enabled_check r of
          Inl err \<Rightarrow> (Some (Inl err), st)
        | Inr False \<Rightarrow>
            (Some (Inl (InvalidAuthenticityToken (''HTTP Origin header ('' @ (case origin r of Some t \<Rightarrow> t | None \<Rightarrow> []) @
               '') didn't match request.base_url ('' @ base_url r @ '')''))), st)
        | Inr True \<Rightarrow>
            (case any_token_valid e h fresh again r param st of
               (None, st') \<Rightarrow> (None, st')
             | (Some True, st') \<Rightarrow> (Some (Inr ()), st')
             | (Some False, st') \<Rightarrow> (Some (Inl (InvalidAuthenticityToken ''Can't verify CSRF token authenticity.'')), st')))"

subsection \<open>Which tokens are accepted\<close>

definition token_hash_law :: "keyed_hash \<Rightarrow> bool" where
  "token_hash_law h \<longleftrightarrow> (\<forall>key input. length (h key input) = token_length)"

lemma xor_bytes_twice: "length a = length b \<Longrightarrow> xor_bytes a (xor_bytes a b) = b"
  by (induction a b rule: list_induct2) (simp_all add: xor_bytes_def xor.assoc[symmetric])

lemma length_xor_bytes [simp]: "length (xor_bytes a b) = min (length a) (length b)"
  by (simp add: xor_bytes_def)

text \<open>The tokens a session stands for: its own bytes, or a pad and one of three tokens under the pad.\<close>

definition token_of_session :: "keyed_hash \<Rightarrow> byte list \<Rightarrow> string \<Rightarrow> string \<Rightarrow> byte list \<Rightarrow> bool" where
  "token_of_session h own path verb token \<longleftrightarrow>
     token = own \<and> length own = token_length \<or>
     (\<exists>pad raw. length pad = token_length \<and> length raw = token_length \<and> token = pad @ xor_bytes pad raw \<and>
        raw \<in> {global_token h own, own, per_form h own (without_slash path) verb})"

lemma is_valid_token_iff:
  "is_valid_token e h own encoded path verb \<longleftrightarrow>
     encoded \<noteq> [] \<and> (\<exists>token. csrf_decode e encoded = Some token \<and> token_of_session h own path verb token)"
proof (cases "encoded = []")
  case False
  have "(if length token = token_length then fixed_length_secure_compare token own
      else if length token = token_length * 2 then
        (let unmasked = xor_bytes (take token_length token) (drop token_length token) in
         fixed_length_secure_compare unmasked (global_token h own) \<or> fixed_length_secure_compare unmasked own \<or>
         fixed_length_secure_compare unmasked (per_form h own (without_slash path) verb))
      else False) \<longleftrightarrow> token_of_session h own path verb token" (is "?l \<longleftrightarrow> ?r") for token
  proof
    assume l: ?l
    show ?r
    proof (cases "length token = token_length")
      case True
      with l show ?thesis by (auto simp: fixed_length_secure_compare_def token_of_session_def)
    next
      case other: False
      let ?pad = "take token_length token" and ?rest = "drop token_length token"
      have two: "length token = token_length * 2" using l other by (simp split: if_splits)
      then have len: "length ?pad = token_length" "length ?rest = token_length" by simp_all
      then have whole: "token = ?pad @ xor_bytes ?pad (xor_bytes ?pad ?rest)" by (simp add: xor_bytes_twice)
      have one: "xor_bytes ?pad ?rest \<in> {global_token h own, own, per_form h own (without_slash path) verb}"
        using l other two by (auto simp: fixed_length_secure_compare_def Let_def)
      have "length (xor_bytes ?pad ?rest) = token_length" using len by simp
      with len(1) whole one show ?thesis unfolding token_of_session_def by blast
    qed
  next
    assume ?r
    then show ?l
      unfolding token_of_session_def
    proof
      assume "\<exists>pad raw. length pad = token_length \<and> length raw = token_length \<and> token = pad @ xor_bytes pad raw \<and>
        raw \<in> {global_token h own, own, per_form h own (without_slash path) verb}"
      then obtain pad raw where len: "length pad = token_length" "length raw = token_length" and eq: "token = pad @ xor_bytes pad raw"
        and raw: "raw \<in> {global_token h own, own, per_form h own (without_slash path) verb}" by blast
      have two: "length token = token_length * 2" "take token_length token = pad" "drop token_length token = xor_bytes pad raw"
        using len unfolding eq by simp_all
      have unmasked: "xor_bytes pad (xor_bytes pad raw) = raw" using len by (simp add: xor_bytes_twice)
      have "token_length \<noteq> token_length * 2" by (simp add: token_length_def)
      then show ?thesis
        unfolding two(2,3) unmasked Let_def using two(1) raw by (auto simp: fixed_length_secure_compare_def)
    qed (simp add: fixed_length_secure_compare_def)
  qed
  note judged = this
  show ?thesis
  proof (cases "csrf_decode e encoded")
    case None
    then show ?thesis by (simp add: is_valid_token_def)
  next
    case (Some token)
    have "is_valid_token e h own encoded path verb = token_of_session h own path verb token"
      unfolding is_valid_token_def Some option.case judged using False by simp
    then show ?thesis using False Some by simp
  qed
qed (simp add: is_valid_token_def)

lemma csrf_decode_reads_back:
  assumes "base64_laws e"
  shows "csrf_decode e (url_encode_unpadded e bs) = Some bs"
proof -
  obtain body n where b: "encoded_as e bs body n" using base64_laws_encoded[OF assms] by blast
  let ?enc = "map url_char body"
  have no_pad: "CHR ''='' \<notin> set ?enc" using b by (rule encoded_as_no_pad)
  have "\<not> suffix ''='' ?enc" using suffix_pad[OF no_pad, of 0] by simp
  moreover have "map std_char ?enc = body" "(length body + n) mod 4 = 0" "n < 4" using b by (simp_all add: encoded_as_def)
  ultimately show ?thesis
    using b pad_to_four_fills[of body n] by (simp add: csrf_decode_def encoded_as_def del: map_map)
qed

lemma csrf_generate_decodes: "base64_laws e \<Longrightarrow> csrf_decode e (csrf_generate e bs) = Some bs"
  by (simp add: csrf_generate_def csrf_decode_reads_back)

lemma masked_accepted:
  assumes "base64_laws e" and "token_hash_law h" and "length pad = token_length"
    and "form = None \<or> form = Some (without_slash path, verb') \<and> map to_lower verb' = map to_lower verb"
  shows "is_valid_token e h own (masked e h own form pad) path verb"
proof -
  define raw where "raw = (case form of Some (p, v) \<Rightarrow> per_form h own p v | None \<Rightarrow> global_token h own)"
  have raw: "length raw = token_length" "raw \<in> {global_token h own, own, per_form h own (without_slash path) verb}"
    using assms(2,4) by (auto simp: raw_def token_hash_law_def global_token_def per_form_def token_hmac_def split: option.splits)
  have "pad @ xor_bytes pad raw \<noteq> []" using assms(3) by (auto simp: token_length_def)
  then have "url_encode_unpadded e (pad @ xor_bytes pad raw) \<noteq> []" using url_encode_unpadded_eq_Nil[OF assms(1)] by blast
  moreover have "csrf_decode e (url_encode_unpadded e (pad @ xor_bytes pad raw)) = Some (pad @ xor_bytes pad raw)"
    by (rule csrf_decode_reads_back[OF assms(1)])
  moreover have "masked e h own form pad = url_encode_unpadded e (pad @ xor_bytes pad raw)"
    by (simp add: masked_def mask_token_def raw_def)
  ultimately show ?thesis
    using raw assms(3) unfolding is_valid_token_iff token_of_session_def by auto
qed

subsection \<open>What a request needs\<close>

lemma real_csrf_token_stored:
  assumes "fs_csrf_token st = None" and "fs_session_token st = Some t" and "csrf_decode e t = Some own"
  shows "real_csrf_token e fresh again st = (Some own, st\<lparr>fs_csrf_token := Some t\<rparr>)"
  using assms by (simp add: real_csrf_token_def)

text \<open>The origin a request must not have: one that differs from its own address.\<close>

definition same_origin :: "web_request \<Rightarrow> bool" where
  "same_origin r \<longleftrightarrow> origin r \<noteq> Some ''null'' \<and> (origin r = None \<or> origin r = Some (base_url r))"

definition candidate_tokens :: "web_request \<Rightarrow> string option \<Rightarrow> string set" where
  "candidate_tokens r param = {t. t \<noteq> [] \<and> (param = Some t \<or> header (wr_headers r) ''x-csrf-token'' = Some t)}"

lemma any_token_valid_stored:
  assumes "fs_csrf_token st = None" and "fs_session_token st = Some t" and "csrf_decode e t = Some own"
  shows "fst (any_token_valid e h fresh again r param st) =
    Some (\<exists>c \<in> candidate_tokens r param. is_valid_token e h own c (up_path (wr_uri r)) (wr_method r))"
proof -
  let ?cs = "filter (\<lambda>t. t \<noteq> []) (concat (map (case_option [] (\<lambda>t. [t])) [param, header (wr_headers r) ''x-csrf-token'']))"
  have "set ?cs = candidate_tokens r param" by (auto simp: candidate_tokens_def split: option.splits)
  then have "list_ex P ?cs = (\<exists>c \<in> candidate_tokens r param. P c)" for P by (simp add: list_ex_iff)
  moreover have "?cs = [] \<Longrightarrow> candidate_tokens r param = {}" using \<open>set ?cs = _\<close> by (metis empty_set)
  ultimately show ?thesis
    unfolding any_token_valid_def Let_def real_csrf_token_stored[OF assms] prod.case by simp
qed

text \<open>C25.  In a session with a token, a request other than \<^verbatim>\<open>GET\<close> and \<^verbatim>\<open>HEAD\<close> passes the check exactly when it
  comes from no other origin (where origins are checked) and brings, in its parameter or its
  header, the session's token or a pad with one of the tokens derived from the session's: the
  global one or the one of its own path and method.\<close>

theorem forgery_check_exact:
  assumes "fs_csrf_token st = None" and "fs_session_token st = Some t" and "csrf_decode e t = Some own"
  shows "fst (verify_authenticity_token e h enabled_check fresh again r param st) = Some (Inr ()) \<longleftrightarrow>
    is_get r \<or> is_head r \<or>
    (enabled_check \<longrightarrow> same_origin r) \<and>
    (\<exists>c \<in> candidate_tokens r param. \<exists>token. csrf_decode e c = Some token \<and>
       token_of_session h own (up_path (wr_uri r)) (wr_method r) token)"
proof (cases "is_get r \<or> is_head r")
  case False
  let ?st = "st\<lparr>fs_marked := is_get r\<rparr>"
  have any: "fst (any_token_valid e h fresh again r param ?st) =
    Some (\<exists>c \<in> candidate_tokens r param. \<exists>token. csrf_decode e c = Some token \<and>
       token_of_session h own (up_path (wr_uri r)) (wr_method r) token)" (is "_ = Some ?ok")
    using any_token_valid_stored[of ?st t e own h fresh again r param] assms
    by (auto simp: is_valid_token_iff candidate_tokens_def)
  have origins: "origin_check enabled_check r = Inr True \<longleftrightarrow> (enabled_check \<longrightarrow> same_origin r)"
    by (auto simp: origin_check_def valid_request_origin_def same_origin_def split: option.splits)
  obtain st' where st': "any_token_valid e h fresh again r param ?st = (Some ?ok, st')" using any by (metis surjective_pairing)
  show ?thesis
  proof (cases "origin_check enabled_check r = Inr True")
    case True
    then show ?thesis using False origins st'
      by (cases ?ok) (simp_all add: verify_authenticity_token_def Let_def)
  next
    case other: False
    then show ?thesis using False origins
      by (auto simp: verify_authenticity_token_def Let_def split: sum.splits bool.splits)
  qed
qed (auto simp: verify_authenticity_token_def)

lemma real_csrf_token_kept:
  assumes "base64_laws e" and "real_csrf_token e fresh again st = (Some own, st')"
  shows "\<exists>t. fs_csrf_token st' = Some t \<and> csrf_decode e t = Some own"
  using assms csrf_generate_decodes[OF assms(1)]
  by (auto simp: real_csrf_token_def Let_def split: option.splits)

text \<open>C26.  A token that a page of the session carries, the global one or the one of a form, is accepted from
  the page's next request from the same origin; a form's token, when the request goes to the form's
  action (with or without a final slash) with the form's method.\<close>

theorem page_tokens_accepted:
  assumes "base64_laws e" and "token_hash_law h" and "length pad = token_length"
    and "authenticity_tokens e fresh again page_request st = (Some page, st1)"
    and "fs_csrf_token next_state = None" and "fs_session_token next_state = fs_session_token (commit_csrf_token st1)"
    and "enabled_check \<longrightarrow> same_origin r"
    and "param = Some token \<or> header (wr_headers r) ''x-csrf-token'' = Some token"
    and "token = page_global e h page pad \<or>
      token = page_for_form e h page action verb pad \<and> map to_lower verb = map to_lower (wr_method r) \<and>
      without_slash (up_path (wr_uri r)) = normalize_action_path action (up_path (wr_uri page_request))"
  shows "fst (verify_authenticity_token e h enabled_check fresh' again' r param next_state) = Some (Inr ())"
proof -
  obtain own where own: "real_csrf_token e fresh again (st\<lparr>fs_session_bound := True\<rparr>) = (Some own, st1)"
    and page: "page = \<lparr>pt_real = own, pt_request_path = up_path (wr_uri page_request)\<rparr>"
    using assms(4) by (auto simp: authenticity_tokens_def split: prod.splits)
  obtain t where t: "fs_csrf_token st1 = Some t" "csrf_decode e t = Some own"
    using real_csrf_token_kept[OF assms(1) own] by blast
  obtain form where tok: "token = masked e h own form pad"
    and form: "form = None \<or> form = Some (without_slash (up_path (wr_uri r)), verb) \<and> map to_lower verb = map to_lower (wr_method r)"
    using assms(9) by (auto simp: page page_global_def page_for_form_def)
  have valid: "is_valid_token e h own token (up_path (wr_uri r)) (wr_method r)"
    unfolding tok by (rule masked_accepted[OF assms(1-3) form])
  then have "token \<in> candidate_tokens r param" using assms(8) by (auto simp: candidate_tokens_def is_valid_token_iff)
  moreover let ?st = "next_state\<lparr>fs_marked := is_get r\<rparr>"
  have "fst (any_token_valid e h fresh' again' r param ?st) =
    Some (\<exists>c \<in> candidate_tokens r param. is_valid_token e h own c (up_path (wr_uri r)) (wr_method r))"
    using t assms(5,6) by (intro any_token_valid_stored[of _ t]) (simp_all add: commit_csrf_token_def)
  ultimately have any: "fst (any_token_valid e h fresh' again' r param ?st) = Some True" using valid by auto
  then obtain st' where any': "any_token_valid e h fresh' again' r param ?st = (Some True, st')" by (metis surjective_pairing)
  have "origin_check enabled_check r = Inr True"
    using assms(7) by (auto simp: origin_check_def valid_request_origin_def same_origin_def split: option.splits)
  then show ?thesis using any' by (cases "is_get r \<or> is_head r") (auto simp: verify_authenticity_token_def Let_def)
qed

subsection \<open>An example\<close>

text \<open>A hash that depends on the text alone, for evaluation.\<close>

definition example_hash :: keyed_hash where
  "example_hash key input = take 32 (input @ replicate 32 0)"

definition form_request :: web_request where
  "form_request = \<lparr>wr_method = ''POST'', wr_original_method = ''POST'',
     wr_uri = \<lparr>up_path = ''/rooms/'', up_query = None, up_authority = None, up_scheme = None\<rparr>,
     wr_headers = [(''host'', ''chat''), (''origin'', ''http://chat'')], wr_peer = None, wr_body = [], wr_ssl = False, wr_remote_ip = Inr []\<rparr>"

definition fresh_forgery :: forgery_state where
  "fresh_forgery = \<lparr>fs_csrf_token = None, fs_session_token = None, fs_marked = False, fs_session_bound = False\<rparr>"

lemma form_request_origin: "same_origin form_request"
  by (simp add: same_origin_def form_request_def origin_def base_url_def header_def header_text_def protocol_def host_with_port_def port_def
      host_def host_port_def raw_host_with_port_def rsplit_once_def split_once_def standard_port_def)

lemma form_request_fields:
  "up_path (wr_uri form_request) = ''/rooms/''" "wr_method form_request = ''POST''" "\<not> is_get form_request" "\<not> is_head form_request"
  by (simp_all add: form_request_def is_get_def is_head_def)

lemma example_hash_law: "token_hash_law example_hash"
  by (simp add: token_hash_law_def example_hash_def token_length_def min_def)

theorem page_tokens_accepted_witness:
  "\<exists>page st1. authenticity_tokens letter_engine [7] [8] form_request fresh_forgery = (Some page, st1) \<and>
     fst (verify_authenticity_token letter_engine example_hash True [] [] form_request
       (Some (page_for_form letter_engine example_hash page ''/rooms'' ''post'' (replicate 32 5)))
       (fresh_forgery\<lparr>fs_session_token := fs_session_token (commit_csrf_token st1)\<rparr>)) = Some (Inr ())"
proof -
  let ?t = "csrf_generate letter_engine [7]"
  let ?page = "\<lparr>pt_real = [7], pt_request_path = ''/rooms/''\<rparr>"
  let ?st1 = "fresh_forgery\<lparr>fs_csrf_token := Some ?t, fs_session_bound := True\<rparr>"
  have a: "authenticity_tokens letter_engine [7] [8] form_request fresh_forgery = (Some ?page, ?st1)"
    using csrf_generate_decodes[OF letter_engine_laws]
    by (simp add: authenticity_tokens_def real_csrf_token_def fresh_forgery_def form_request_fields)
  have "normalize_action_path ''/rooms'' ''/rooms/'' = without_slash ''/rooms/''" by code_simp
  moreover have "map to_lower ''post'' = map to_lower ''POST''" by code_simp
  moreover define token where "token = page_for_form letter_engine example_hash ?page ''/rooms'' ''post'' (replicate 32 5)"
  ultimately have "fst (verify_authenticity_token letter_engine example_hash True [] [] form_request (Some token)
       (fresh_forgery\<lparr>fs_session_token := fs_session_token (commit_csrf_token ?st1)\<rparr>)) = Some (Inr ())"
    by (intro page_tokens_accepted[OF letter_engine_laws example_hash_law _ a, where action = "''/rooms''" and verb = "''post''" and pad = "replicate 32 5" and token = token])
      (simp_all add: token_length_def form_request_origin form_request_fields fresh_forgery_def)
  with a show ?thesis unfolding token_def by blast
qed

theorem forgery_check_exact_witness:
  "fst (verify_authenticity_token letter_engine example_hash True [] [] form_request None
     (fresh_forgery\<lparr>fs_session_token := Some (csrf_generate letter_engine [7])\<rparr>)) \<noteq> Some (Inr ())"
proof -
  have "candidate_tokens form_request None = {}"
    by (auto simp: candidate_tokens_def form_request_def header_def)
  then show ?thesis
    using forgery_check_exact[of "fresh_forgery\<lparr>fs_session_token := Some (csrf_generate letter_engine [7])\<rparr>" _ letter_engine "[7]"
        example_hash True "[]" "[]" form_request None] csrf_generate_decodes[OF letter_engine_laws]
    by (simp add: fresh_forgery_def form_request_fields)
qed

end
