(* ===== verification/TwoFactor.thy ===== *)
theory TwoFactor
  imports Totp
begin

section \<open>Two-factor authentication\<close>

text \<open>
  \<^verbatim>\<open>crates/db/src/models/two_factor.rs\<close> and the challenges of \<^verbatim>\<open>crates/runtime/src/authentication.rs\<close>
  and \<^verbatim>\<open>crates/app/src/state/sudo.rs\<close>: credentials with their failure counters and lockouts, backup
  codes, setup secrets and remembered devices.

  The four tables are lists of rows with the next id of each.  A method takes the transaction
  (its time and whether one is open), the rows and its arguments, and returns an error or its
  result with the rows after it; after an error the transaction is rolled back.  The hash functions and
  the cipher are parameters, and random values are arguments.  What the operations leave to other
  parts of the program (audit records, activity items, mail, remote disconnects) is a list of
  effects.
\<close>

datatype db_error = Invalid "(string \<times> string) list" | NotFound string | Other string

record credential =
  cr_id :: int
  cr_user_id :: int
  cr_secret :: string
  cr_confirmed_at :: "timestamp option"
  cr_last_totp_at :: "int option"
  cr_consecutive_failures :: int
  cr_lockout_count :: int
  cr_locked_until :: "timestamp option"
  cr_created_at :: timestamp
  cr_updated_at :: timestamp

record backup_code =
  bc_id :: int
  bc_credential_id :: int
  bc_code_digest :: string
  bc_used_at :: "timestamp option"
  bc_created_at :: timestamp
  bc_updated_at :: timestamp

record setup_secret =
  ss_id :: int
  ss_session_id :: int
  ss_secret :: string
  ss_expires_at :: timestamp
  ss_created_at :: timestamp
  ss_updated_at :: timestamp

record remembered_device =
  rd_id :: int
  rd_user_id :: int
  rd_token_digest :: string
  rd_user_agent :: "string option"
  rd_ip_address :: "string option"
  rd_expires_at :: timestamp
  rd_last_used_at :: "timestamp option"
  rd_created_at :: timestamp
  rd_updated_at :: timestamp

record user =
  us_id :: int
  us_active :: bool
  us_bot :: bool

datatype tf_effect =
  Audited string string
| LockoutItem int int
| LockoutMail int
| HiddenItems int
| RemoteReset int

record tf_db =
  credentials :: "credential list"
  next_credential :: int
  backup_codes :: "backup_code list"
  next_backup_code :: int
  setup_secrets :: "setup_secret list"
  next_setup_secret :: int
  remembered_devices :: "remembered_device list"
  next_remembered_device :: int
  tf_users :: "user list"
  tf_sessions :: "(int \<times> int \<times> timestamp option) list"
  tf_effects :: "tf_effect list"

record tx =
  tx_now :: timestamp
  tx_in_transaction :: bool

text \<open>The parameters: the keyed hash of the codes, the digest of tokens in hexadecimal, and the cipher
  of stored secrets, which decrypts to a text, or to bytes with the name of their encoding.\<close>

record security =
  sec_hmac :: keyed_hash
  sec_sha256_hex :: "string \<Rightarrow> string"
  sec_encrypt :: "string \<Rightarrow> string"
  sec_decrypt :: "string \<Rightarrow> string option"
  sec_decrypt_bytes :: "string \<Rightarrow> (string \<times> byte list) option"

definition backup_code_count :: nat where "backup_code_count = 10"
definition failures_before_lockout :: int where "failures_before_lockout = 5"
definition setup_ttl :: int where "setup_ttl = 30 * 60 * 10 ^ 9"
definition remember_for :: int where "remember_for = 30 * 24 * 60 * 60 * 10 ^ 9"

definition i64_max :: int where "i64_max = 2 ^ 63 - 1"

definition as_second :: "timestamp \<Rightarrow> int" where "as_second t = t div 1000000"

definition require_transaction :: "tx \<Rightarrow> db_error + unit" where
  "require_transaction tx =
     (if tx_in_transaction tx then Inr () else Inl (Other ''two-factor writes require a transaction''))"

definition user_exists :: "tf_db \<Rightarrow> int \<Rightarrow> bool" where
  "user_exists db uid = list_ex (\<lambda>u. us_id u = uid) (tf_users db)"

definition decrypt_totp_secret :: "security \<Rightarrow> string \<Rightarrow> db_error + string" where
  "decrypt_totp_secret sec ciphertext =
     (case sec_decrypt_bytes sec ciphertext of
        None \<Rightarrow> Inl (Other ''two-factor secret can't be decrypted'')
      | Some (enc, bytes) \<Rightarrow>
          if enc \<noteq> ''UTF-8'' \<and> \<not> list_all (\<lambda>b. b < 0x80) bytes then Inl (Other ''invalid TOTP secret'')
          else if \<not> valid_utf8 bytes then Inl (Other ''invalid TOTP secret'')
          else Inr (map (\<lambda>b. char_of (unat b)) bytes))"

subsection \<open>Credentials\<close>

definition find_credential :: "tf_db \<Rightarrow> int \<Rightarrow> db_error + credential" where
  "find_credential db cid =
     (case find (\<lambda>c. cr_id c = cid) (credentials db) of
        Some c \<Rightarrow> Inr c | None \<Rightarrow> Inl (NotFound ''TwoFactorCredential''))"

definition credential_for_user :: "tf_db \<Rightarrow> int \<Rightarrow> credential option" where
  "credential_for_user db uid = find (\<lambda>c. cr_user_id c = uid) (credentials db)"

definition credentials_for_ids :: "tf_db \<Rightarrow> int list \<Rightarrow> credential list" where
  "credentials_for_ids db ids = (if ids = [] then [] else filter (\<lambda>c. cr_id c \<in> set ids) (credentials db))"

definition create_credential :: "security \<Rightarrow> tx \<Rightarrow> int \<Rightarrow> string \<Rightarrow> tf_db \<Rightarrow> db_error + credential \<times> tf_db" where
  "create_credential sec tx uid secret db =
     (case require_transaction tx of Inl e \<Rightarrow> Inl e | Inr _ \<Rightarrow>
        let errors = (if user_exists db uid then [] else [(''user'', ''must exist'')]) @
                     (if credential_for_user db uid \<noteq> None then [(''user_id'', ''has already been taken'')] else []) @
                     (if blank secret then [(''secret'', ''can't be blank'')] else [])
        in if errors \<noteq> [] then Inl (Invalid errors)
           else
             let c = \<lparr>cr_id = next_credential db, cr_user_id = uid, cr_secret = sec_encrypt sec secret,
                   cr_confirmed_at = None, cr_last_totp_at = None, cr_consecutive_failures = 0, cr_lockout_count = 0,
                   cr_locked_until = None, cr_created_at = tx_now tx, cr_updated_at = tx_now tx\<rparr>
             in Inr (c, db\<lparr>credentials := credentials db @ [c], next_credential := next_credential db + 1\<rparr>))"

definition enabled :: "credential \<Rightarrow> bool" where
  "enabled c \<longleftrightarrow> cr_confirmed_at c \<noteq> None"

definition credential_secret :: "security \<Rightarrow> credential \<Rightarrow> db_error + string" where
  "credential_secret sec c =
     (case sec_decrypt sec (cr_secret c) of
        None \<Rightarrow> Inl (Other ''two-factor secret can't be decrypted'') | Some t \<Rightarrow> Inr t)"

definition formatted_secret :: "security \<Rightarrow> credential \<Rightarrow> db_error + string" where
  "formatted_secret sec c =
     map_sum id (\<lambda>secret. join_with '' '' (concat (map (chunks 4) (split_on (CHR 0x0A) secret)))) (credential_secret sec c)"

definition update_credential :: "int \<Rightarrow> (credential \<Rightarrow> credential) \<Rightarrow> tf_db \<Rightarrow> tf_db" where
  "update_credential cid f db = db\<lparr>credentials := update_where (\<lambda>c. cr_id c = cid) f (credentials db)\<rparr>"

definition matched_step :: "security \<Rightarrow> string \<Rightarrow> string \<Rightarrow> timestamp \<Rightarrow> int option \<Rightarrow> db_error + int option" where
  "matched_step sec secret code now after =
     (case verify_code (sec_hmac sec) secret code (as_second now) after of
        Inr r \<Rightarrow> Inr r
      | Inl TimeInvalid \<Rightarrow> Inr None
      | Inl SecretInvalid \<Rightarrow> Inl (Other ''invalid TOTP secret''))"

text \<open>\<^verbatim>\<open>TwoFactorCredential::verify_code\<close>: the credential the caller holds may be stale; only its id is
  used.\<close>

definition verify_credential_code :: "security \<Rightarrow> tx \<Rightarrow> credential \<Rightarrow> string \<Rightarrow> tf_db \<Rightarrow> db_error + bool \<times> credential \<times> tf_db" where
  "verify_credential_code sec tx held code db =
     (case require_transaction tx of Inl e \<Rightarrow> Inl e | Inr _ \<Rightarrow>
        if list_all ruby_code_whitespace code then Inr (False, held, db)
        else case find_credential db (cr_id held) of Inl e \<Rightarrow> Inl e | Inr c \<Rightarrow>
          (case decrypt_totp_secret sec (cr_secret c) of Inl e \<Rightarrow> Inl e | Inr secret \<Rightarrow>
             (case matched_step sec secret code (tx_now tx) (cr_last_totp_at c) of
                Inl e \<Rightarrow> Inl e
              | Inr None \<Rightarrow> Inr (False, c, db)
              | Inr (Some at_time) \<Rightarrow>
                  let db' = update_credential (cr_id c)
                        (\<lambda>r. r\<lparr>cr_last_totp_at := Some at_time, cr_updated_at := tx_now tx\<rparr>) db
                  in map_sum id (\<lambda>c'. (True, c', db')) (find_credential db' (cr_id c)))))"

definition confirm_with_setup_secret :: "security \<Rightarrow> tx \<Rightarrow> credential \<Rightarrow> setup_secret \<Rightarrow> string \<Rightarrow> tf_db \<Rightarrow> db_error + bool \<times> credential \<times> tf_db" where
  "confirm_with_setup_secret sec tx held setup code db =
     (case require_transaction tx of Inl e \<Rightarrow> Inl e | Inr _ \<Rightarrow>
        if list_all ruby_code_whitespace code then Inr (False, held, db)
        else case find_credential db (cr_id held) of Inl e \<Rightarrow> Inl e | Inr c \<Rightarrow>
          (case decrypt_totp_secret sec (ss_secret setup) of Inl e \<Rightarrow> Inl e | Inr secret \<Rightarrow>
             (case matched_step sec secret code (tx_now tx) (cr_last_totp_at c) of
                Inl e \<Rightarrow> Inl e
              | Inr None \<Rightarrow> Inr (False, c, db)
              | Inr (Some at_time) \<Rightarrow>
                  let db1 = update_credential (cr_id c)
                        (\<lambda>r. r\<lparr>cr_secret := sec_encrypt sec secret, cr_confirmed_at := Some (tx_now tx),
                               cr_last_totp_at := Some at_time, cr_updated_at := tx_now tx\<rparr>) db;
                      db2 = db1\<lparr>setup_secrets := delete_where (\<lambda>s. ss_id s = ss_id setup) (setup_secrets db1)\<rparr>
                  in map_sum id (\<lambda>c'. (True, c', db2)) (find_credential db2 (cr_id c)))))"

definition locked_out :: "credential \<Rightarrow> timestamp \<Rightarrow> bool" where
  "locked_out c now = (case cr_locked_until c of None \<Rightarrow> False | Some until \<Rightarrow> now < until)"

definition lockout_duration_for :: "int \<Rightarrow> int" where
  "lockout_duration_for level =
     (if level = 1 \<or> level = - 2 then 60 else if level = 2 \<or> level = - 1 then 300 else 900) * 10 ^ 9"

datatype challenge_failure = Failed | Locked

definition register_challenge_failure :: "tx \<Rightarrow> credential \<Rightarrow> tf_db \<Rightarrow> db_error + challenge_failure \<times> credential \<times> tf_db" where
  "register_challenge_failure tx held db =
     (case require_transaction tx of Inl e \<Rightarrow> Inl e | Inr _ \<Rightarrow>
      (case find_credential db (cr_id held) of Inl e \<Rightarrow> Inl e | Inr c \<Rightarrow>
        if locked_out c (tx_now tx) then Inr (Failed, c, db)
        else if i64_max < cr_consecutive_failures c + 1 then Inl (Other ''two-factor failure counter out of range'')
        else if failures_before_lockout \<le> cr_consecutive_failures c + 1 then
          (if i64_max < cr_lockout_count c + 1 then Inl (Other ''two-factor lockout counter out of range'')
           else
             let level = cr_lockout_count c + 1;
                 db' = update_credential (cr_id c)
                   (\<lambda>r. r\<lparr>cr_consecutive_failures := 0, cr_lockout_count := level,
                          cr_locked_until := Some (since (tx_now tx) (lockout_duration_for level)),
                          cr_updated_at := tx_now tx\<rparr>) db
             in map_sum id (\<lambda>c'. (Locked, c', db')) (find_credential db' (cr_id c)))
        else
          let db' = update_credential (cr_id c)
                (\<lambda>r. r\<lparr>cr_consecutive_failures := cr_consecutive_failures c + 1, cr_updated_at := tx_now tx\<rparr>) db
          in map_sum id (\<lambda>c'. (Failed, c', db')) (find_credential db' (cr_id c))))"

definition register_challenge_success :: "tx \<Rightarrow> credential \<Rightarrow> tf_db \<Rightarrow> db_error + credential \<times> tf_db" where
  "register_challenge_success tx held db =
     (case require_transaction tx of Inl e \<Rightarrow> Inl e | Inr _ \<Rightarrow>
        let db' = update_credential (cr_id held)
              (\<lambda>r. r\<lparr>cr_consecutive_failures := 0, cr_lockout_count := 0, cr_locked_until := None,
                     cr_updated_at := tx_now tx\<rparr>) db
        in map_sum id (\<lambda>c'. (c', db')) (find_credential db' (cr_id held)))"

definition destroy_credential :: "tx \<Rightarrow> credential \<Rightarrow> tf_db \<Rightarrow> db_error + tf_db" where
  "destroy_credential tx c db =
     (case require_transaction tx of Inl e \<Rightarrow> Inl e | Inr _ \<Rightarrow>
        Inr (db\<lparr>tf_effects := tf_effects db @ [HiddenItems (cr_id c)],
               backup_codes := delete_where (\<lambda>b. bc_credential_id b = cr_id c) (backup_codes db),
               credentials := delete_where (\<lambda>r. cr_id r = cr_id c) (credentials db)\<rparr>))"

subsection \<open>Backup codes\<close>

definition normalize_code :: "string \<Rightarrow> string" where
  "normalize_code code = map to_lower (filter (\<lambda>c. \<not> ruby_code_whitespace c \<and> c \<noteq> CHR ''-'') code)"

definition code_digest :: "security \<Rightarrow> string \<Rightarrow> string" where
  "code_digest sec code = sec_sha256_hex sec (normalize_code code)"

definition backup_codes_for :: "tf_db \<Rightarrow> int \<Rightarrow> backup_code list" where
  "backup_codes_for db cid = filter (\<lambda>b. bc_credential_id b = cid) (backup_codes db)"

definition create_backup_code :: "tx \<Rightarrow> int \<Rightarrow> string \<Rightarrow> tf_db \<Rightarrow> db_error + backup_code \<times> tf_db" where
  "create_backup_code tx cid digest db =
     (case require_transaction tx of Inl e \<Rightarrow> Inl e | Inr _ \<Rightarrow>
        let errors = (if list_ex (\<lambda>c. cr_id c = cid) (credentials db) then [] else [(''two_factor_credential'', ''must exist'')]) @
                     (if blank digest then [(''code_digest'', ''can't be blank'')] else []) @
                     (if list_ex (\<lambda>b. bc_code_digest b = digest) (backup_codes db)
                      then [(''code_digest'', ''has already been taken'')] else [])
        in if errors \<noteq> [] then Inl (Invalid errors)
           else
             let b = \<lparr>bc_id = next_backup_code db, bc_credential_id = cid, bc_code_digest = digest, bc_used_at = None,
                   bc_created_at = tx_now tx, bc_updated_at = tx_now tx\<rparr>
             in Inr (b, db\<lparr>backup_codes := backup_codes db @ [b], next_backup_code := next_backup_code db + 1\<rparr>))"

fun create_backup_codes :: "security \<Rightarrow> tx \<Rightarrow> int \<Rightarrow> string list \<Rightarrow> tf_db \<Rightarrow> db_error + tf_db" where
  "create_backup_codes sec tx cid [] db = Inr db"
| "create_backup_codes sec tx cid (code # codes) db =
     (case create_backup_code tx cid (code_digest sec code) db of
        Inl e \<Rightarrow> Inl e | Inr (_, db') \<Rightarrow> create_backup_codes sec tx cid codes db')"

text \<open>The codes are random (ten of them).\<close>

definition regenerate_set :: "security \<Rightarrow> tx \<Rightarrow> int \<Rightarrow> string list \<Rightarrow> tf_db \<Rightarrow> db_error + string list \<times> tf_db" where
  "regenerate_set sec tx cid codes db =
     (case require_transaction tx of Inl e \<Rightarrow> Inl e | Inr _ \<Rightarrow>
        map_sum id (\<lambda>db'. (codes, db'))
          (create_backup_codes sec tx cid codes
            (db\<lparr>backup_codes := delete_where (\<lambda>b. bc_credential_id b = cid) (backup_codes db)\<rparr>)))"

definition unspent :: "int \<Rightarrow> string \<Rightarrow> backup_code \<Rightarrow> bool" where
  "unspent cid digest b \<longleftrightarrow> bc_credential_id b = cid \<and> bc_code_digest b = digest \<and> bc_used_at b = None"

definition consume :: "security \<Rightarrow> tx \<Rightarrow> int \<Rightarrow> string \<Rightarrow> tf_db \<Rightarrow> db_error + bool \<times> tf_db" where
  "consume sec tx cid code db =
     (case require_transaction tx of Inl e \<Rightarrow> Inl e | Inr _ \<Rightarrow>
        if blank (normalize_code code) then Inr (False, db)
        else
          let hit = unspent cid (code_digest sec code)
          in Inr (count_where hit (backup_codes db) = 1,
               db\<lparr>backup_codes := update_where hit
                    (\<lambda>b. b\<lparr>bc_used_at := Some (tx_now tx), bc_updated_at := tx_now tx\<rparr>) (backup_codes db)\<rparr>))"

subsection \<open>Setup secrets\<close>

definition setup_for_session :: "tf_db \<Rightarrow> int \<Rightarrow> setup_secret option" where
  "setup_for_session db sid = find (\<lambda>s. ss_session_id s = sid) (setup_secrets db)"

text \<open>The secret is random; the row of a session is replaced in place, keeping its id.\<close>

definition issue_for :: "security \<Rightarrow> tx \<Rightarrow> int \<Rightarrow> string \<Rightarrow> tf_db \<Rightarrow> db_error + setup_secret \<times> tf_db" where
  "issue_for sec tx sid secret db =
     (case require_transaction tx of Inl e \<Rightarrow> Inl e | Inr _ \<Rightarrow>
        if \<not> list_ex (\<lambda>(s, _). s = sid) (tf_sessions db) then Inl (Invalid [(''session'', ''must exist'')])
        else
          let until = since (tx_now tx) setup_ttl; encrypted = sec_encrypt sec secret;
              db' = (if setup_for_session db sid \<noteq> None
                     then db\<lparr>setup_secrets := update_where (\<lambda>s. ss_session_id s = sid)
                            (\<lambda>s. s\<lparr>ss_secret := encrypted, ss_expires_at := until, ss_updated_at := tx_now tx\<rparr>)
                            (setup_secrets db)\<rparr>
                     else db\<lparr>setup_secrets := setup_secrets db @ [\<lparr>ss_id = next_setup_secret db, ss_session_id = sid,
                              ss_secret = encrypted, ss_expires_at = until, ss_created_at = tx_now tx, ss_updated_at = tx_now tx\<rparr>],
                            next_setup_secret := next_setup_secret db + 1\<rparr>)
          in case setup_for_session db' sid of
               None \<Rightarrow> Inl (NotFound ''TwoFactorSetupSecret'') | Some s \<Rightarrow> Inr (s, db'))"

definition setup_expired :: "setup_secret \<Rightarrow> timestamp \<Rightarrow> bool" where
  "setup_expired s now \<longleftrightarrow> ss_expires_at s \<le> now"

definition valid_for :: "tf_db \<Rightarrow> int \<Rightarrow> timestamp \<Rightarrow> setup_secret option" where
  "valid_for db sid now =
     (case setup_for_session db sid of None \<Rightarrow> None | Some s \<Rightarrow> if setup_expired s now then None else Some s)"

definition extend_expiry :: "tx \<Rightarrow> setup_secret \<Rightarrow> tf_db \<Rightarrow> db_error + setup_secret \<times> tf_db" where
  "extend_expiry tx s db =
     (case require_transaction tx of Inl e \<Rightarrow> Inl e | Inr _ \<Rightarrow>
        let until = since (tx_now tx) setup_ttl in
        if ss_expires_at s = until then Inr (s, db)
        else
          let s' = s\<lparr>ss_expires_at := until, ss_updated_at := tx_now tx\<rparr>
          in Inr (s', db\<lparr>setup_secrets := update_where (\<lambda>r. ss_id r = ss_id s)
                 (\<lambda>r. r\<lparr>ss_expires_at := until, ss_updated_at := tx_now tx\<rparr>) (setup_secrets db)\<rparr>))"

subsection \<open>Remembered devices\<close>

definition truncate_user_agent :: "string \<Rightarrow> string" where
  "truncate_user_agent ua = (if length ua \<le> 512 then ua else take 509 ua @ ''...'')"

definition create_device :: "tx \<Rightarrow> int \<Rightarrow> string \<Rightarrow> string option \<Rightarrow> string option \<Rightarrow> timestamp \<Rightarrow> tf_db \<Rightarrow>
    db_error + remembered_device \<times> tf_db" where
  "create_device tx uid digest user_agent ip_address until db =
     (case require_transaction tx of Inl e \<Rightarrow> Inl e | Inr _ \<Rightarrow>
        let errors = (if user_exists db uid then [] else [(''user'', ''must exist'')]) @
                     (if blank digest then [(''token_digest'', ''can't be blank'')] else []) @
                     (if list_ex (\<lambda>d. rd_token_digest d = digest) (remembered_devices db)
                      then [(''token_digest'', ''has already been taken'')] else [])
        in if errors \<noteq> [] then Inl (Invalid errors)
           else
             let d = \<lparr>rd_id = next_remembered_device db, rd_user_id = uid, rd_token_digest = digest,
                   rd_user_agent = map_option truncate_user_agent user_agent, rd_ip_address = ip_address,
                   rd_expires_at = until, rd_last_used_at = Some (tx_now tx),
                   rd_created_at = tx_now tx, rd_updated_at = tx_now tx\<rparr>
             in Inr (d, db\<lparr>remembered_devices := remembered_devices db @ [d],
                        next_remembered_device := next_remembered_device db + 1\<rparr>))"

text \<open>The token is random.\<close>

definition create_device_for :: "security \<Rightarrow> tx \<Rightarrow> int \<Rightarrow> string option \<Rightarrow> string option \<Rightarrow> string \<Rightarrow> tf_db \<Rightarrow>
    db_error + (remembered_device \<times> string) \<times> tf_db" where
  "create_device_for sec tx uid user_agent ip_address token db =
     (case require_transaction tx of Inl e \<Rightarrow> Inl e | Inr _ \<Rightarrow>
        map_sum id (\<lambda>(d, db'). ((d, token), db'))
          (create_device tx uid (sec_sha256_hex sec token) user_agent ip_address (since (tx_now tx) remember_for) db))"

definition device_expired :: "remembered_device \<Rightarrow> timestamp \<Rightarrow> bool" where
  "device_expired d now \<longleftrightarrow> rd_expires_at d \<le> now"

definition trim_token :: "string \<Rightarrow> string" where
  "trim_token t = (let strip = dropWhile (\<lambda>c. ruby_code_whitespace c \<or> c = CHR 0x00) in rev (strip (rev (strip t))))"

definition find_valid_device :: "security \<Rightarrow> tx \<Rightarrow> string option \<Rightarrow> int option \<Rightarrow> tf_db \<Rightarrow>
    db_error + remembered_device option \<times> tf_db" where
  "find_valid_device sec tx token uid db =
     (case require_transaction tx of Inl e \<Rightarrow> Inl e | Inr _ \<Rightarrow>
      (case (token, uid) of
         (Some t, Some u) \<Rightarrow>
           if blank t then Inr (None, db)
           else
             let digest = sec_sha256_hex sec (trim_token t) in
             (case find (\<lambda>d. rd_token_digest d = digest \<and> rd_user_id d = u) (remembered_devices db) of
                None \<Rightarrow> Inr (None, db)
              | Some d \<Rightarrow>
                  if device_expired d (tx_now tx) then Inr (None, db)
                  else
                    let touch_device = (\<lambda>r. r\<lparr>rd_last_used_at := Some (tx_now tx), rd_updated_at := tx_now tx\<rparr>)
                    in Inr (Some (touch_device d),
                         db\<lparr>remembered_devices := update_where (\<lambda>r. rd_id r = rd_id d) touch_device (remembered_devices db)\<rparr>))
       | _ \<Rightarrow> Inr (None, db)))"

text \<open>\<^verbatim>\<open>ORDER BY last_used_at DESC, id DESC\<close>; a missing time comes last.\<close>

definition device_before :: "remembered_device \<Rightarrow> remembered_device \<Rightarrow> bool" where
  "device_before a b =
     (case (rd_last_used_at a, rd_last_used_at b) of
        (Some x, Some y) \<Rightarrow> y < x \<or> x = y \<and> rd_id b \<le> rd_id a
      | (Some _, None) \<Rightarrow> True
      | (None, Some _) \<Rightarrow> False
      | (None, None) \<Rightarrow> rd_id b \<le> rd_id a)"

fun insert_device :: "remembered_device \<Rightarrow> remembered_device list \<Rightarrow> remembered_device list" where
  "insert_device d [] = [d]"
| "insert_device d (e # es) = (if device_before d e then d # e # es else e # insert_device d es)"

definition devices_for_user :: "tf_db \<Rightarrow> int \<Rightarrow> remembered_device list" where
  "devices_for_user db uid = foldr insert_device (filter (\<lambda>d. rd_user_id d = uid) (remembered_devices db)) []"

definition revoke_device :: "tx \<Rightarrow> int \<Rightarrow> int \<Rightarrow> tf_db \<Rightarrow> db_error + tf_db" where
  "revoke_device tx uid did db =
     (case require_transaction tx of Inl e \<Rightarrow> Inl e | Inr _ \<Rightarrow>
        Inr (db\<lparr>remembered_devices := delete_where (\<lambda>d. rd_user_id d = uid \<and> rd_id d = did) (remembered_devices db)\<rparr>))"

definition revoke_all_devices :: "tx \<Rightarrow> int \<Rightarrow> tf_db \<Rightarrow> db_error + tf_db" where
  "revoke_all_devices tx uid db =
     (case require_transaction tx of Inl e \<Rightarrow> Inl e | Inr _ \<Rightarrow>
        Inr (db\<lparr>remembered_devices := delete_where (\<lambda>d. rd_user_id d = uid) (remembered_devices db)\<rparr>))"

subsection \<open>Users\<close>

definition requires_two_factor :: "user \<Rightarrow> bool" where
  "requires_two_factor u \<longleftrightarrow> us_active u \<and> \<not> us_bot u"

definition two_factor_enabled :: "tf_db \<Rightarrow> int \<Rightarrow> bool" where
  "two_factor_enabled db uid = (case credential_for_user db uid of None \<Rightarrow> False | Some c \<Rightarrow> enabled c)"

definition reset_two_factor :: "tx \<Rightarrow> int \<Rightarrow> tf_db \<Rightarrow> db_error + tf_db" where
  "reset_two_factor tx uid db =
     (case require_transaction tx of Inl e \<Rightarrow> Inl e | Inr _ \<Rightarrow>
      (case (case credential_for_user db uid of None \<Rightarrow> Inr db | Some c \<Rightarrow> destroy_credential tx c db) of
         Inl e \<Rightarrow> Inl e | Inr db' \<Rightarrow> revoke_all_devices tx uid db'))"

subsection \<open>Challenges\<close>

text \<open>The first transaction of an enrollment: the credential, made when the user has none, and the
  setup secret of the session while it is valid.\<close>

definition enroll_prepare :: "security \<Rightarrow> tx \<Rightarrow> int \<Rightarrow> int \<Rightarrow> string \<Rightarrow> tf_db \<Rightarrow>
    db_error + (credential \<times> setup_secret option) \<times> tf_db" where
  "enroll_prepare sec tx uid sid new_secret db =
     (let setup = valid_for db sid (tx_now tx) in
      case credential_for_user db uid of
        Some c \<Rightarrow> if enabled c then Inr ((c, None), db) else Inr ((c, setup), db)
      | None \<Rightarrow> map_sum id (\<lambda>(c, db'). ((c, setup), db')) (create_credential sec tx uid new_secret db))"

datatype challenge_result = Gone | Accepted string | Wrong | LockedFor int

definition lock_minutes :: "credential \<Rightarrow> timestamp \<Rightarrow> int" where
  "lock_minutes c now = (the (cr_locked_until c) - now + 59999999) div 60000000"

definition challenge :: "security \<Rightarrow> tx \<Rightarrow> int \<Rightarrow> string \<Rightarrow> string \<Rightarrow> bool \<Rightarrow> tf_db \<Rightarrow> db_error + challenge_result \<times> tf_db" where
  "challenge sec tx uid code verb notify db =
     (if \<not> list_ex (\<lambda>u. us_id u = uid \<and> us_active u) (tf_users db) then Inr (Gone, db)
      else case credential_for_user db uid of None \<Rightarrow> Inr (Gone, db) | Some c \<Rightarrow>
        if \<not> enabled c then Inr (Gone, db)
        else if locked_out c (tx_now tx) then Inr (LockedFor (lock_minutes c (tx_now tx)), db)
        else case verify_credential_code sec tx c code db of Inl e \<Rightarrow> Inl e
          | Inr (True, c1, db1) \<Rightarrow>
              map_sum id (\<lambda>(_, db2). (Accepted ''totp'', db2)) (register_challenge_success tx c1 db1)
          | Inr (False, c1, db1) \<Rightarrow>
              (case consume sec tx (cr_id c1) code db1 of Inl e \<Rightarrow> Inl e
               | Inr (True, db2) \<Rightarrow>
                   map_sum id (\<lambda>(_, db3). (Accepted ''backup_code'', db3)) (register_challenge_success tx c1 db2)
               | Inr (False, db2) \<Rightarrow>
                   (case register_challenge_failure tx c1 db2 of Inl e \<Rightarrow> Inl e
                    | Inr (failure, c2, db3) \<Rightarrow>
                        let db4 = db3\<lparr>tf_effects := tf_effects db3 @ [Audited ''sign_in.two_factor.failure'' verb]\<rparr> in
                        if failure = Locked then
                          Inr (LockedFor (lock_minutes c2 (tx_now tx)),
                            db4\<lparr>tf_effects := tf_effects db4 @ [Audited ''sign_in.two_factor.lockout'' verb, LockoutItem uid (cr_id c2)] @
                              (if notify then [LockoutMail uid] else [])\<rparr>)
                        else Inr (Wrong, db4))))"

text \<open>\<^verbatim>\<open>State::verify_totp\<close> of the sudo mode.\<close>

definition sudo_verify :: "security \<Rightarrow> tx \<Rightarrow> int \<Rightarrow> string \<Rightarrow> tf_db \<Rightarrow> db_error + bool option \<times> tf_db" where
  "sudo_verify sec tx uid code db =
     (case credential_for_user db uid of None \<Rightarrow> Inr (None, db) | Some c \<Rightarrow>
        if \<not> enabled c then Inr (None, db)
        else if locked_out c (tx_now tx) then Inr (Some False, db)
        else case verify_credential_code sec tx c code db of Inl e \<Rightarrow> Inl e
          | Inr (True, c1, db1) \<Rightarrow> map_sum id (\<lambda>(_, db2). (Some True, db2)) (register_challenge_success tx c1 db1)
          | Inr (False, c1, db1) \<Rightarrow> map_sum id (\<lambda>(_, _, db2). (Some False, db2)) (register_challenge_failure tx c1 db1))"

definition regenerate_backups :: "security \<Rightarrow> tx \<Rightarrow> int \<Rightarrow> string list \<Rightarrow> tf_db \<Rightarrow> db_error + string list \<times> tf_db" where
  "regenerate_backups sec tx uid codes db =
     (case credential_for_user db uid of None \<Rightarrow> Inl (NotFound ''TwoFactorCredential'') | Some c \<Rightarrow>
        if \<not> enabled c then Inl (NotFound ''TwoFactorCredential'')
        else map_sum id (\<lambda>(cs, db'). (cs, db'\<lparr>tf_effects := tf_effects db' @
               [RemoteReset uid, Audited ''two_factor.backup_codes.regenerate'' []]\<rparr>)) (regenerate_set sec tx (cr_id c) codes db))"

end
