(* ===== verification/TwoFactorSystem.thy ===== *)
theory TwoFactorSystem
  imports TwoFactor
begin

section \<open>Two-factor authentication over time\<close>

text \<open>
  All transactions of all sessions on the two-factor tables, one after the other as the single
  writer runs them, with a clock that does not go back.  Ghost state records which time step and
  which backup code every acceptance used and when wrong codes were judged.  Shown: a time step is
  accepted at most once per credential, a backup code is spent at most once, and the lockouts bound
  how many wrong codes can be tried.
\<close>

interpretation creds: keyed_table cr_id .

interpretation backups: keyed_table bc_id .

subsection \<open>What each statement changes\<close>

abbreviation cred :: "tf_db \<Rightarrow> int \<Rightarrow> credential option" where
  "cred db cid \<equiv> creds.find_row cid (credentials db)"

definition tf_ok :: "tf_db \<Rightarrow> bool" where
  "tf_ok db \<longleftrightarrow> creds.keyed (credentials db) \<and> (\<forall>c \<in> set (credentials db). cr_id c < next_credential db) \<and>
     backups.keyed (backup_codes db) \<and> (\<forall>b \<in> set (backup_codes db). bc_id b < next_backup_code db) \<and>
     distinct (map bc_code_digest (backup_codes db))"

text \<open>The rows after an accepted code, a success and a failure.\<close>

definition accepted_row :: "timestamp \<Rightarrow> int \<Rightarrow> credential \<Rightarrow> credential" where
  "accepted_row now at_time c = c\<lparr>cr_last_totp_at := Some at_time, cr_updated_at := now\<rparr>"

definition success_row :: "timestamp \<Rightarrow> credential \<Rightarrow> credential" where
  "success_row now c = c\<lparr>cr_consecutive_failures := 0, cr_lockout_count := 0, cr_locked_until := None, cr_updated_at := now\<rparr>"

definition failure_row :: "timestamp \<Rightarrow> credential \<Rightarrow> credential" where
  "failure_row now c =
     (if failures_before_lockout \<le> cr_consecutive_failures c + 1
      then c\<lparr>cr_consecutive_failures := 0, cr_lockout_count := cr_lockout_count c + 1,
             cr_locked_until := Some (since now (lockout_duration_for (cr_lockout_count c + 1))), cr_updated_at := now\<rparr>
      else c\<lparr>cr_consecutive_failures := cr_consecutive_failures c + 1, cr_updated_at := now\<rparr>)"

definition confirmed_row :: "timestamp \<Rightarrow> string \<Rightarrow> int \<Rightarrow> credential \<Rightarrow> credential" where
  "confirmed_row now secret at_time c =
     c\<lparr>cr_secret := secret, cr_confirmed_at := Some now, cr_last_totp_at := Some at_time, cr_updated_at := now\<rparr>"

lemmas row_defs = accepted_row_def success_row_def failure_row_def confirmed_row_def

lemma row_ids [simp]:
  "cr_id (accepted_row now t c) = cr_id c" "cr_id (success_row now c) = cr_id c"
  "cr_id (failure_row now c) = cr_id c" "cr_id (confirmed_row now s t c) = cr_id c"
  "cr_user_id (accepted_row now t c) = cr_user_id c" "cr_user_id (success_row now c) = cr_user_id c"
  "cr_user_id (failure_row now c) = cr_user_id c" "cr_user_id (confirmed_row now s t c) = cr_user_id c"
  by (simp_all add: row_defs)

lemma find_credential_eq:
  "find_credential db cid = (case cred db cid of Some c \<Rightarrow> Inr c | None \<Rightarrow> Inl (NotFound ''TwoFactorCredential''))"
  by (simp add: find_credential_def creds.find_row_def)

lemma update_credential_simps [simp]:
  "credentials (update_credential cid f db) = update_where (\<lambda>c. cr_id c = cid) f (credentials db)"
  "next_credential (update_credential cid f db) = next_credential db"
  "backup_codes (update_credential cid f db) = backup_codes db"
  "next_backup_code (update_credential cid f db) = next_backup_code db"
  by (simp_all add: update_credential_def)

lemma cred_id: "cred db cid = Some c \<Longrightarrow> cr_id c = cid"
  by (rule creds.find_row_key)

lemma update_where_twice:
  "(\<And>c. P (f c) = P c) \<Longrightarrow> update_where P g (update_where P f rows) = update_where P (g \<circ> f) rows"
  by (induction rows) auto

lemma find_update_where:
  "(\<And>r. Q (f r) = Q r) \<Longrightarrow> find Q (update_where P f rows) = map_option (\<lambda>r. if P r then f r else r) (find Q rows)"
  by (induction rows) auto

text \<open>Statements that change nothing of the credentials and backup codes but the rows of one credential.\<close>

definition changes_row :: "int \<Rightarrow> (credential \<Rightarrow> credential) \<Rightarrow> tf_db \<Rightarrow> tf_db \<Rightarrow> bool" where
  "changes_row cid f db db' \<longleftrightarrow>
     credentials db' = update_where (\<lambda>c. cr_id c = cid) f (credentials db) \<and>
     next_credential db' = next_credential db \<and> next_backup_code db' = next_backup_code db"

lemma verify_credential_code_cases:
  assumes "verify_credential_code sec tx held code db = Inr (ok, c', db')" and "tx_in_transaction tx"
  shows "cr_id c' = cr_id held \<and>
    (if ok then \<exists>c t. cred db (cr_id held) = Some c \<and> \<not> excluded (cr_last_totp_at c) (t div step_seconds) \<and>
       changes_row (cr_id held) (accepted_row (tx_now tx) t) db db' \<and> backup_codes db' = backup_codes db
     else db' = db)"
  using assms
  by (auto simp: verify_credential_code_def require_transaction_def find_credential_eq matched_step_def
      accepted_row_def[abs_def] changes_row_def Let_def map_sum_def creds.find_row_update
      split: if_splits option.splits sum.splits invalid_totp.splits
      dest: verify_code_Some(2) dest!: cred_id)

lemma confirm_cases:
  assumes "confirm_with_setup_secret sec tx held setup code db = Inr (ok, c', db')" and "tx_in_transaction tx"
  shows "if ok then \<exists>c t secret. cred db (cr_id held) = Some c \<and> \<not> excluded (cr_last_totp_at c) (t div step_seconds) \<and>
       changes_row (cr_id held) (confirmed_row (tx_now tx) secret t) db db' \<and> backup_codes db' = backup_codes db \<and>
       c' = confirmed_row (tx_now tx) secret t c
     else db' = db"
proof (cases ok)
  case True
  then obtain c secret t where c: "cred db (cr_id held) = Some c"
    and d: "decrypt_totp_secret sec (ss_secret setup) = Inr secret"
    and t: "matched_step sec secret code (tx_now tx) (cr_last_totp_at c) = Inr (Some t)"
    using assms by (auto simp: confirm_with_setup_secret_def require_transaction_def find_credential_eq
        split: if_splits option.splits sum.splits)
  have id: "cr_id c = cr_id held" using c by (rule cred_id)
  have "\<not> excluded (cr_last_totp_at c) (t div step_seconds)"
    using t by (auto simp: matched_step_def split: sum.splits invalid_totp.splits dest: verify_code_Some(2))
  moreover have "changes_row (cr_id held) (confirmed_row (tx_now tx) (sec_encrypt sec secret) t) db db' \<and>
      backup_codes db' = backup_codes db \<and> c' = confirmed_row (tx_now tx) (sec_encrypt sec secret) t c"
    using True assms c d t id
    by (auto simp: confirm_with_setup_secret_def require_transaction_def find_credential_eq
        confirmed_row_def[abs_def] changes_row_def Let_def map_sum_def creds.find_row_update split: if_splits)
  ultimately show ?thesis using True c by auto
next
  case False
  with assms show ?thesis
    by (auto simp: confirm_with_setup_secret_def require_transaction_def map_sum_def Let_def
        split: if_splits option.splits sum.splits)
qed

lemma register_success_cases:
  assumes "register_challenge_success tx held db = Inr (c', db')"
  shows "changes_row (cr_id held) (success_row (tx_now tx)) db db' \<and> backup_codes db' = backup_codes db"
  using assms
  by (auto simp: register_challenge_success_def require_transaction_def find_credential_eq
      success_row_def[abs_def] changes_row_def Let_def map_sum_def split: if_splits option.splits sum.splits)

lemma register_failure_cases:
  assumes "register_challenge_failure tx held db = Inr (failure, c', db')" and "creds.keyed (credentials db)"
  shows "\<exists>c. cred db (cr_id held) = Some c \<and> backup_codes db' = backup_codes db \<and>
    (if locked_out c (tx_now tx) then db' = db
     else changes_row (cr_id held) (failure_row (tx_now tx)) db db')"
proof -
  obtain c where c: "cred db (cr_id held) = Some c"
    using assms(1) by (auto simp: register_challenge_failure_def find_credential_eq split: sum.splits option.splits)
  have id: "cr_id c = cr_id held" using c by (rule cred_id)
  have row: "update_where (\<lambda>r. cr_id r = cr_id held) f (credentials db) =
      update_where (\<lambda>r. cr_id r = cr_id held) (failure_row (tx_now tx)) (credentials db)"
    if "f c = failure_row (tx_now tx) c" for f
  proof -
    have "r = c" if "r \<in> set (credentials db)" "cr_id r = cr_id held" for r
      using that c assms(2) by (auto simp: creds.find_row_Some_iff intro: creds.keyed_unique)
    with that show ?thesis unfolding update_where_def by (intro map_cong) auto
  qed
  from assms(1) c id show ?thesis
    by (intro exI[of _ c])
      (auto simp: register_challenge_failure_def require_transaction_def find_credential_eq changes_row_def
        Let_def map_sum_def failure_row_def intro!: row split: if_splits sum.splits option.splits)
qed

definition spent_row :: "timestamp \<Rightarrow> backup_code \<Rightarrow> backup_code" where
  "spent_row now b = b\<lparr>bc_used_at := Some now, bc_updated_at := now\<rparr>"

lemma spent_row_simps [simp]:
  "bc_id (spent_row now b) = bc_id b" "bc_code_digest (spent_row now b) = bc_code_digest b"
  "bc_credential_id (spent_row now b) = bc_credential_id b" "bc_used_at (spent_row now b) = Some now"
  by (simp_all add: spent_row_def)

definition spends :: "timestamp \<Rightarrow> tf_db \<Rightarrow> tf_db \<Rightarrow> bool" where
  "spends now db db' \<longleftrightarrow> (\<exists>P. backup_codes db' = update_where P (spent_row now) (backup_codes db))"

lemma spends_refl [intro]: "backup_codes db' = backup_codes db \<Longrightarrow> spends now db db'"
  unfolding spends_def by (rule exI[of _ "\<lambda>_. False"]) (simp add: update_where_def)

lemma consume_cases:
  assumes "consume sec tx cid code db = Inr (ok, db')"
  shows "credentials db' = credentials db \<and> next_credential db' = next_credential db \<and>
    next_backup_code db' = next_backup_code db \<and> spends (tx_now tx) db db' \<and>
    (ok \<longrightarrow> count_where (unspent cid (code_digest sec code)) (backup_codes db) = 1 \<and>
       backup_codes db' = update_where (unspent cid (code_digest sec code)) (spent_row (tx_now tx)) (backup_codes db))"
proof (cases "blank (normalize_code code)")
  case True
  with assms show ?thesis by (auto simp: consume_def split: sum.splits)
next
  case False
  with assms show ?thesis
    by (auto simp: consume_def Let_def spends_def spent_row_def[abs_def] split: sum.splits)
qed

lemma changes_row_trans:
  assumes "changes_row cid f db db1" "changes_row cid g db1 db2" "\<And>c. cr_id (f c) = cr_id c"
  shows "changes_row cid (g \<circ> f) db db2"
  using assms by (simp add: changes_row_def update_where_twice)

lemma credential_for_user_row:
  "credential_for_user db uid = Some c \<Longrightarrow> creds.keyed (credentials db) \<Longrightarrow> cred db (cr_id c) = Some c"
  by (auto simp: credential_for_user_def find_Some_iff creds.find_row_Some_iff)

lemma sudo_cases:
  assumes "sudo_verify sec tx uid code db = Inr (r, db')" and "tx_in_transaction tx" and "creds.keyed (credentials db)"
  shows "db' = db \<and> (r = None \<or> (\<exists>c. credential_for_user db uid = Some c \<and> locked_out c (tx_now tx) \<and> r = Some False)) \<or>
    (\<exists>c. credential_for_user db uid = Some c \<and> \<not> locked_out c (tx_now tx) \<and> backup_codes db' = backup_codes db \<and>
      (r = Some True \<and> (\<exists>t. \<not> excluded (cr_last_totp_at c) (t div step_seconds) \<and>
           changes_row (cr_id c) (success_row (tx_now tx) \<circ> accepted_row (tx_now tx) t) db db') \<or>
       r = Some False \<and> changes_row (cr_id c) (failure_row (tx_now tx)) db db'))"
proof (cases "\<exists>c. credential_for_user db uid = Some c \<and> enabled c \<and> \<not> locked_out c (tx_now tx)")
  case False
  with assms(1) show ?thesis by (auto simp: sudo_verify_def split: option.splits if_splits)
next
  case True
  then obtain c where c: "credential_for_user db uid = Some c" "enabled c" "\<not> locked_out c (tx_now tx)" by blast
  have row: "cred db (cr_id c) = Some c" using c(1) assms(3) by (rule credential_for_user_row)
  obtain ok c1 db1 where v: "verify_credential_code sec tx c code db = Inr (ok, c1, db1)"
    using assms(1) c by (auto simp: sudo_verify_def split: sum.splits)
  note vc = verify_credential_code_cases[OF v assms(2)]
  show ?thesis
  proof (cases ok)
    case True
    then obtain t where t: "\<not> excluded (cr_last_totp_at c) (t div step_seconds)"
      "changes_row (cr_id c) (accepted_row (tx_now tx) t) db db1" "backup_codes db1 = backup_codes db" "cr_id c1 = cr_id c"
      using vc row by auto
    obtain c2 where s: "register_challenge_success tx c1 db1 = Inr (c2, db')" "r = Some True"
      using assms(1) c v True by (auto simp: sudo_verify_def map_sum_def split: sum.splits)
    have "changes_row (cr_id c) (success_row (tx_now tx) \<circ> accepted_row (tx_now tx) t) db db'"
      using register_success_cases[OF s(1)] t by (auto intro: changes_row_trans)
    with c t s register_success_cases[OF s(1)] show ?thesis by auto
  next
    case False
    then have eq: "db1 = db" "cr_id c1 = cr_id c" using vc by auto
    obtain f c2 where f: "register_challenge_failure tx c1 db = Inr (f, c2, db')" "r = Some False"
      using assms(1) c v False eq by (auto simp: sudo_verify_def map_sum_def split: sum.splits)
    with register_failure_cases[OF f(1) assms(3)] c row eq show ?thesis by auto
  qed
qed

lemma challenge_cases:
  assumes "challenge sec tx uid code verb notify db = Inr (r, db')" and "tx_in_transaction tx" and "creds.keyed (credentials db)"
  shows "db' = db \<and> (r = Gone \<or> (\<exists>c m. credential_for_user db uid = Some c \<and> locked_out c (tx_now tx) \<and> r = LockedFor m)) \<or>
    (\<exists>c. credential_for_user db uid = Some c \<and> \<not> locked_out c (tx_now tx) \<and>
      (r = Accepted ''totp'' \<and> backup_codes db' = backup_codes db \<and> (\<exists>t. \<not> excluded (cr_last_totp_at c) (t div step_seconds) \<and>
           changes_row (cr_id c) (success_row (tx_now tx) \<circ> accepted_row (tx_now tx) t) db db') \<or>
       r = Accepted ''backup_code'' \<and> changes_row (cr_id c) (success_row (tx_now tx)) db db' \<and>
         count_where (unspent (cr_id c) (code_digest sec code)) (backup_codes db) = 1 \<and>
         backup_codes db' = update_where (unspent (cr_id c) (code_digest sec code)) (spent_row (tx_now tx)) (backup_codes db) \<or>
       (r = Wrong \<or> (\<exists>m. r = LockedFor m)) \<and> changes_row (cr_id c) (failure_row (tx_now tx)) db db' \<and> spends (tx_now tx) db db'))"
proof (cases "\<exists>c. list_ex (\<lambda>u. us_id u = uid \<and> us_active u) (tf_users db) \<and>
    credential_for_user db uid = Some c \<and> enabled c \<and> \<not> locked_out c (tx_now tx)")
  case False
  with assms(1) show ?thesis by (auto simp: challenge_def split: option.splits if_splits)
next
  case True
  then obtain c where u: "list_ex (\<lambda>u. us_id u = uid \<and> us_active u) (tf_users db)"
    and c: "credential_for_user db uid = Some c" "enabled c" "\<not> locked_out c (tx_now tx)" by blast
  have row: "cred db (cr_id c) = Some c" using c(1) assms(3) by (rule credential_for_user_row)
  obtain ok c1 db1 where v: "verify_credential_code sec tx c code db = Inr (ok, c1, db1)"
    using assms(1) c u by (auto simp: challenge_def split: sum.splits)
  note vc = verify_credential_code_cases[OF v assms(2)]
  show ?thesis
  proof (cases ok)
    case True
    then obtain t where t: "\<not> excluded (cr_last_totp_at c) (t div step_seconds)"
      "changes_row (cr_id c) (accepted_row (tx_now tx) t) db db1" "backup_codes db1 = backup_codes db" "cr_id c1 = cr_id c"
      using vc row by auto
    obtain c2 where s: "register_challenge_success tx c1 db1 = Inr (c2, db')" "r = Accepted ''totp''"
      using assms(1) c u v True by (auto simp: challenge_def map_sum_def split: sum.splits)
    have "changes_row (cr_id c) (success_row (tx_now tx) \<circ> accepted_row (tx_now tx) t) db db'"
      using register_success_cases[OF s(1)] t by (auto intro: changes_row_trans)
    with c t s register_success_cases[OF s(1)] show ?thesis by auto
  next
    case False
    then have eq: "db1 = db" "cr_id c1 = cr_id c" using vc by auto
    obtain spent db2 where k: "consume sec tx (cr_id c) code db = Inr (spent, db2)"
      using assms(1) c u v False eq by (auto simp: challenge_def split: sum.splits)
    note kc = consume_cases[OF k]
    show ?thesis
    proof (cases spent)
      case True
      obtain c2 where s: "register_challenge_success tx c1 db2 = Inr (c2, db')" "r = Accepted ''backup_code''"
        using assms(1) c u v False eq k True by (auto simp: challenge_def map_sum_def split: sum.splits)
      from register_success_cases[OF s(1)] kc True eq
      have "changes_row (cr_id c) (success_row (tx_now tx)) db db'" "backup_codes db' = backup_codes db2"
        by (auto simp: changes_row_def)
      with c s kc True show ?thesis by auto
    next
      case nospent: False
      obtain f c2 db3 where f: "register_challenge_failure tx c1 db2 = Inr (f, c2, db3)"
        and r: "r = Wrong \<or> (\<exists>m. r = LockedFor m)" "credentials db' = credentials db3" "backup_codes db' = backup_codes db3"
          "next_credential db' = next_credential db3" "next_backup_code db' = next_backup_code db3"
        using assms(1) c u v False eq k nospent by (auto simp: challenge_def Let_def split: sum.splits if_splits)
      have keyed2: "creds.keyed (credentials db2)" and row2: "cred db2 (cr_id c) = Some c" using kc assms(3) row by auto
      from register_failure_cases[OF f keyed2] row2 eq c(3)
      have "changes_row (cr_id c) (failure_row (tx_now tx)) db2 db3" "backup_codes db3 = backup_codes db2" by auto
      then have "changes_row (cr_id c) (failure_row (tx_now tx)) db db'" "spends (tx_now tx) db db'"
        using kc r by (auto simp: changes_row_def spends_def)
      with c r show ?thesis by blast
    qed
  qed
qed

subsection \<open>Statements that only add fresh rows or delete rows\<close>

definition fresh_row :: "credential \<Rightarrow> bool" where
  "fresh_row c \<longleftrightarrow> cr_last_totp_at c = None \<and> cr_consecutive_failures c = 0 \<and> cr_lockout_count c = 0 \<and> cr_locked_until c = None"

definition neutral :: "tf_db \<Rightarrow> tf_db \<Rightarrow> bool" where
  "neutral db db' \<longleftrightarrow>
     (\<forall>c \<in> set (credentials db'). c \<in> set (credentials db) \<or> next_credential db \<le> cr_id c \<and> fresh_row c) \<and>
     (\<forall>b \<in> set (backup_codes db'). b \<in> set (backup_codes db) \<or> next_backup_code db \<le> bc_id b) \<and>
     next_credential db \<le> next_credential db' \<and> next_backup_code db \<le> next_backup_code db' \<and>
     (tf_ok db \<longrightarrow> tf_ok db')"

lemma neutral_same:
  "credentials db' = credentials db \<Longrightarrow> next_credential db' = next_credential db \<Longrightarrow>
   backup_codes db' = backup_codes db \<Longrightarrow> next_backup_code db' = next_backup_code db \<Longrightarrow> neutral db db'"
  by (simp add: neutral_def tf_ok_def)

lemma neutral_trans:
  assumes "neutral a b" "neutral b c" shows "neutral a c"
proof -
  have "c' \<in> set (credentials a) \<or> next_credential a \<le> cr_id c' \<and> fresh_row c'" if "c' \<in> set (credentials c)" for c'
    using assms that unfolding neutral_def by (meson order_trans)
  moreover have "b' \<in> set (backup_codes a) \<or> next_backup_code a \<le> bc_id b'" if "b' \<in> set (backup_codes c)" for b'
    using assms that unfolding neutral_def by (meson order_trans)
  ultimately show ?thesis using assms unfolding neutral_def by auto
qed

lemma distinct_map_delete: "distinct (map f xs) \<Longrightarrow> distinct (map f (delete_where P xs))"
  by (simp add: delete_where_def distinct_map_filter)

lemma create_credential_neutral:
  assumes "create_credential sec tx uid secret db = Inr (c, db')" shows "neutral db db'"
proof -
  from assms have "credentials db' = credentials db @ [c]" "cr_id c = next_credential db" "fresh_row c"
    "next_credential db' = next_credential db + 1" "backup_codes db' = backup_codes db" "next_backup_code db' = next_backup_code db"
    by (auto simp: create_credential_def Let_def fresh_row_def split: sum.splits if_splits)
  then show ?thesis
    by (auto simp: neutral_def tf_ok_def creds.keyed_def)
qed

lemma create_backup_code_neutral:
  assumes "create_backup_code tx cid digest db = Inr (b, db')" shows "neutral db db'"
proof -
  from assms have "backup_codes db' = backup_codes db @ [b]" "bc_id b = next_backup_code db"
    "next_backup_code db' = next_backup_code db + 1" "credentials db' = credentials db" "next_credential db' = next_credential db"
    "bc_code_digest b \<notin> bc_code_digest ` set (backup_codes db)"
    by (auto simp: create_backup_code_def Let_def list_ex_iff split: sum.splits if_splits)
  then show ?thesis
    by (auto simp: neutral_def tf_ok_def backups.keyed_def)
qed

lemma create_backup_codes_neutral: "create_backup_codes sec tx cid codes db = Inr db' \<Longrightarrow> neutral db db'"
proof (induction sec tx cid codes db rule: create_backup_codes.induct)
  case (2 sec tx cid code codes db)
  then show ?case
    by (auto split: sum.splits intro: neutral_trans create_backup_code_neutral)
qed (simp add: neutral_same)

lemma delete_backups_neutral: "neutral db (db\<lparr>backup_codes := delete_where P (backup_codes db)\<rparr>)"
  by (auto simp: neutral_def tf_ok_def set_delete_where backups.keyed_delete distinct_map_delete)

lemma regenerate_set_neutral: "regenerate_set sec tx cid codes db = Inr (cs, db') \<Longrightarrow> neutral db db'"
  by (auto simp: regenerate_set_def map_sum_def split: sum.splits
      intro: neutral_trans[OF delete_backups_neutral create_backup_codes_neutral])

lemma destroy_credential_neutral: "destroy_credential tx c db = Inr db' \<Longrightarrow> neutral db db'"
  by (auto simp: destroy_credential_def neutral_def tf_ok_def set_delete_where creds.keyed_delete backups.keyed_delete
      distinct_map_delete split: sum.splits)

lemma devices_neutral:
  "revoke_device tx uid did db = Inr db' \<Longrightarrow> neutral db db'"
  "revoke_all_devices tx uid db = Inr db' \<Longrightarrow> neutral db db'"
  "create_device_for sec tx uid ua ip token db = Inr (d, db') \<Longrightarrow> neutral db db'"
  "find_valid_device sec tx t u db = Inr (found, db') \<Longrightarrow> neutral db db'"
  "issue_for sec tx sid secret db = Inr (ss, db') \<Longrightarrow> neutral db db'"
  "extend_expiry tx setup db = Inr (ss, db') \<Longrightarrow> neutral db db'"
  by (auto simp: revoke_device_def revoke_all_devices_def create_device_for_def create_device_def find_valid_device_def
      issue_for_def extend_expiry_def Let_def map_sum_def split: sum.splits if_splits option.splits prod.splits intro!: neutral_same)

lemma reset_neutral: "reset_two_factor tx uid db = Inr db' \<Longrightarrow> neutral db db'"
  by (auto simp: reset_two_factor_def split: sum.splits option.splits
      intro: devices_neutral(2) neutral_trans[OF destroy_credential_neutral devices_neutral(2)])

lemma enroll_prepare_neutral: "enroll_prepare sec tx uid sid secret db = Inr (x, db') \<Longrightarrow> neutral db db'"
  by (auto simp: enroll_prepare_def Let_def map_sum_def split: option.splits if_splits sum.splits
      intro: neutral_same create_credential_neutral)

lemma regenerate_backups_neutral: "regenerate_backups sec tx uid codes db = Inr (cs, db') \<Longrightarrow> neutral db db'"
proof -
  have same: "neutral db1 (db1\<lparr>tf_effects := e\<rparr>)" for db1 :: tf_db and e by (rule neutral_same) simp_all
  show "regenerate_backups sec tx uid codes db = Inr (cs, db') \<Longrightarrow> neutral db db'"
    by (auto simp: regenerate_backups_def map_sum_def split: option.splits if_splits sum.splits
        intro: neutral_trans[OF regenerate_set_neutral same])
qed

subsection \<open>The system\<close>

text \<open>Beside the tables and the clock: the time steps that were accepted, the backup codes that were
  spent, and for every credential the times of the wrong codes since its last success.\<close>

record tf_system =
  ts_db :: tf_db
  ts_clock :: timestamp
  ts_steps :: "(int \<times> int) list"
  ts_spent :: "int list"
  ts_guesses :: "int \<Rightarrow> timestamp list"

definition step_used :: "credential \<Rightarrow> int \<times> int" where
  "step_used c = (cr_id c, the (cr_last_totp_at c) div step_seconds)"

definition step_used_by :: "tf_db \<Rightarrow> int \<Rightarrow> int \<times> int" where
  "step_used_by db uid = step_used (the (credential_for_user db uid))"

definition code_used_by :: "tf_db \<Rightarrow> int \<Rightarrow> string \<Rightarrow> int" where
  "code_used_by db uid digest =
     (case find (\<lambda>b. bc_credential_id b = cr_id (the (credential_for_user db uid)) \<and> bc_code_digest b = digest) (backup_codes db) of
        None \<Rightarrow> 0 | Some b \<Rightarrow> bc_id b)"

text \<open>A refused code counts when it was judged: it changed the tables, or another code would have been
  accepted in its place (whatever the credential's counters and lock say).\<close>

definition note_guess :: "tf_db \<Rightarrow> int \<Rightarrow> timestamp \<Rightarrow> bool \<Rightarrow> bool \<Rightarrow> (int \<Rightarrow> timestamp list) \<Rightarrow> int \<Rightarrow> timestamp list" where
  "note_guess db uid now accepted judged g =
     (case credential_for_user db uid of
        None \<Rightarrow> g
      | Some c \<Rightarrow>
          if accepted then g(cr_id c := [])
          else if judged then g(cr_id c := g (cr_id c) @ [now]) else g)"

definition is_accepted :: "challenge_result \<Rightarrow> bool" where
  "is_accepted r = (case r of Accepted _ \<Rightarrow> True | _ \<Rightarrow> False)"

definition open_tx :: "timestamp \<Rightarrow> tx" where
  "open_tx now = \<lparr>tx_now = now, tx_in_transaction = True\<rparr>"

definition judges_challenge :: "security \<Rightarrow> int \<Rightarrow> string \<Rightarrow> bool \<Rightarrow> timestamp \<Rightarrow> tf_db \<Rightarrow> tf_db \<Rightarrow> bool" where
  "judges_challenge sec uid verb notify now db db' \<longleftrightarrow> db' \<noteq> db \<or>
     (\<exists>other how db2. challenge sec (open_tx now) uid other verb notify db = Inr (Accepted how, db2))"

definition judges_sudo :: "security \<Rightarrow> int \<Rightarrow> timestamp \<Rightarrow> tf_db \<Rightarrow> tf_db \<Rightarrow> bool" where
  "judges_sudo sec uid now db db' \<longleftrightarrow> db' \<noteq> db \<or>
     (\<exists>other db2. sudo_verify sec (open_tx now) uid other db = Inr (Some True, db2))"

definition after_challenge :: "security \<Rightarrow> int \<Rightarrow> string \<Rightarrow> bool \<Rightarrow> timestamp \<Rightarrow> challenge_result \<Rightarrow> tf_db
    \<Rightarrow> tf_system \<Rightarrow> tf_system" where
  "after_challenge sec uid code judged now r db' s =
     \<lparr>ts_db = db', ts_clock = now,
      ts_steps = ts_steps s @ (if r = Accepted ''totp'' then [step_used_by db' uid] else []),
      ts_spent = ts_spent s @ (if r = Accepted ''backup_code'' then [code_used_by db' uid (code_digest sec code)] else []),
      ts_guesses = note_guess (ts_db s) uid now (is_accepted r) judged (ts_guesses s)\<rparr>"

definition after_sudo :: "int \<Rightarrow> bool \<Rightarrow> timestamp \<Rightarrow> bool option \<Rightarrow> tf_db \<Rightarrow> tf_system \<Rightarrow> tf_system" where
  "after_sudo uid judged now r db' s =
     \<lparr>ts_db = db', ts_clock = now,
      ts_steps = ts_steps s @ (if r = Some True then [step_used_by db' uid] else []), ts_spent = ts_spent s,
      ts_guesses = note_guess (ts_db s) uid now (r = Some True) judged (ts_guesses s)\<rparr>"

inductive tf_step :: "security \<Rightarrow> tf_system \<Rightarrow> tf_system \<Rightarrow> bool" for sec where
  challenge_step: "\<lbrakk>ts_clock s \<le> now; challenge sec (open_tx now) uid code verb notify (ts_db s) = Inr (r, db')\<rbrakk> \<Longrightarrow>
    tf_step sec s (after_challenge sec uid code (judges_challenge sec uid verb notify now (ts_db s) db') now r db' s)"
| sudo_step: "\<lbrakk>ts_clock s \<le> now; sudo_verify sec (open_tx now) uid code (ts_db s) = Inr (r, db')\<rbrakk> \<Longrightarrow>
    tf_step sec s (after_sudo uid (judges_sudo sec uid now (ts_db s) db') now r db' s)"
| confirm_step: "\<lbrakk>ts_clock s \<le> now; confirm_with_setup_secret sec (open_tx now) held setup code (ts_db s) = Inr (ok, c, db')\<rbrakk> \<Longrightarrow>
    tf_step sec s (s\<lparr>ts_db := db', ts_clock := now, ts_steps := ts_steps s @ (if ok then [step_used c] else [])\<rparr>)"
| enroll_step: "\<lbrakk>ts_clock s \<le> now; enroll_prepare sec (open_tx now) uid sid secret (ts_db s) = Inr (x, db')\<rbrakk> \<Longrightarrow>
    tf_step sec s (s\<lparr>ts_db := db', ts_clock := now\<rparr>)"
| issue_step: "\<lbrakk>ts_clock s \<le> now; issue_for sec (open_tx now) sid secret (ts_db s) = Inr (setup, db')\<rbrakk> \<Longrightarrow>
    tf_step sec s (s\<lparr>ts_db := db', ts_clock := now\<rparr>)"
| extend_step: "\<lbrakk>ts_clock s \<le> now; extend_expiry (open_tx now) setup (ts_db s) = Inr (setup', db')\<rbrakk> \<Longrightarrow>
    tf_step sec s (s\<lparr>ts_db := db', ts_clock := now\<rparr>)"
| regenerate_step: "\<lbrakk>ts_clock s \<le> now; regenerate_set sec (open_tx now) cid codes (ts_db s) = Inr (cs, db')\<rbrakk> \<Longrightarrow>
    tf_step sec s (s\<lparr>ts_db := db', ts_clock := now\<rparr>)"
| regenerate_backups_step: "\<lbrakk>ts_clock s \<le> now; regenerate_backups sec (open_tx now) uid codes (ts_db s) = Inr (cs, db')\<rbrakk> \<Longrightarrow>
    tf_step sec s (s\<lparr>ts_db := db', ts_clock := now\<rparr>)"
| reset_step: "\<lbrakk>ts_clock s \<le> now; reset_two_factor (open_tx now) uid (ts_db s) = Inr db'\<rbrakk> \<Longrightarrow>
    tf_step sec s (s\<lparr>ts_db := db', ts_clock := now\<rparr>)"
| remember_step: "\<lbrakk>ts_clock s \<le> now; create_device_for sec (open_tx now) uid ua ip token (ts_db s) = Inr (d, db')\<rbrakk> \<Longrightarrow>
    tf_step sec s (s\<lparr>ts_db := db', ts_clock := now\<rparr>)"
| device_step: "\<lbrakk>ts_clock s \<le> now; find_valid_device sec (open_tx now) t u (ts_db s) = Inr (found, db')\<rbrakk> \<Longrightarrow>
    tf_step sec s (s\<lparr>ts_db := db', ts_clock := now\<rparr>)"
| revoke_step: "\<lbrakk>ts_clock s \<le> now; revoke_device (open_tx now) uid did (ts_db s) = Inr db'\<rbrakk> \<Longrightarrow>
    tf_step sec s (s\<lparr>ts_db := db', ts_clock := now\<rparr>)"
| revoke_all_step: "\<lbrakk>ts_clock s \<le> now; revoke_all_devices (open_tx now) uid (ts_db s) = Inr db'\<rbrakk> \<Longrightarrow>
    tf_step sec s (s\<lparr>ts_db := db', ts_clock := now\<rparr>)"

text \<open>It starts with users and sessions and nothing else.\<close>

definition tf_init :: "user list \<Rightarrow> (int \<times> int \<times> timestamp option) list \<Rightarrow> timestamp \<Rightarrow> tf_system" where
  "tf_init users sessions now =
     \<lparr>ts_db = \<lparr>credentials = [], next_credential = 1, backup_codes = [], next_backup_code = 1, setup_secrets = [],
        next_setup_secret = 1, remembered_devices = [], next_remembered_device = 1, tf_users = users,
        tf_sessions = sessions, tf_effects = []\<rparr>,
      ts_clock = now, ts_steps = [], ts_spent = [], ts_guesses = (\<lambda>_. [])\<rparr>"

subsection \<open>The invariant\<close>

text \<open>How long the first \<open>k\<close> lockouts in a row last, in microseconds.\<close>

fun total_lock :: "nat \<Rightarrow> int" where
  "total_lock 0 = 0"
| "total_lock (Suc k) = total_lock k + lockout_duration_for (int (Suc k)) div 1000"

definition paced :: "timestamp list \<Rightarrow> bool" where
  "paced g \<longleftrightarrow> (\<forall>i < length g. g ! 0 + total_lock (i div 5) \<le> g ! i)"

definition counters_ok :: "timestamp list \<Rightarrow> credential \<Rightarrow> bool" where
  "counters_ok g c \<longleftrightarrow> cr_consecutive_failures c = int (length g mod 5) \<and> cr_lockout_count c = int (length g div 5) \<and>
     (5 \<le> length g \<longrightarrow> (\<exists>u. cr_locked_until c = Some u \<and> g ! 0 + total_lock (length g div 5) \<le> u)) \<and>
     (length g < 5 \<longrightarrow> cr_locked_until c = None)"

definition tf_inv :: "tf_system \<Rightarrow> bool" where
  "tf_inv s \<longleftrightarrow> tf_ok (ts_db s) \<and>
     distinct (ts_steps s) \<and> (\<forall>(cid, step) \<in> set (ts_steps s). cid < next_credential (ts_db s)) \<and>
     (\<forall>c \<in> set (credentials (ts_db s)). \<forall>(cid, step) \<in> set (ts_steps s). cid = cr_id c \<longrightarrow> excluded (cr_last_totp_at c) step) \<and>
     distinct (ts_spent s) \<and> (\<forall>i \<in> set (ts_spent s). i < next_backup_code (ts_db s)) \<and>
     (\<forall>b \<in> set (backup_codes (ts_db s)). bc_id b \<in> set (ts_spent s) \<longrightarrow> bc_used_at b \<noteq> None) \<and>
     (\<forall>cid. paced (ts_guesses s cid) \<and> (\<forall>t \<in> set (ts_guesses s cid). t \<le> ts_clock s)) \<and>
     (\<forall>cid \<ge> next_credential (ts_db s). ts_guesses s cid = []) \<and>
     (\<forall>c \<in> set (credentials (ts_db s)). counters_ok (ts_guesses s (cr_id c)) c)"

lemma tf_init_inv: "tf_inv (tf_init users sessions now)"
  by (simp add: tf_inv_def tf_init_def tf_ok_def creds.keyed_def backups.keyed_def paced_def)

lemma neutral_inv:
  assumes "tf_inv s" and "neutral (ts_db s) db'" and "ts_clock s \<le> now"
  shows "tf_inv (s\<lparr>ts_db := db', ts_clock := now\<rparr>)"
proof -
  have ok: "tf_ok db'" using assms(1,2) by (simp add: tf_inv_def neutral_def)
  have rows: "excluded (cr_last_totp_at c) step" if "c \<in> set (credentials db')" "(cr_id c, step) \<in> set (ts_steps s)" for c step
    using assms(1,2) that unfolding tf_inv_def neutral_def by fastforce
  have spent: "bc_used_at b \<noteq> None" if "b \<in> set (backup_codes db')" "bc_id b \<in> set (ts_spent s)" for b
    using assms(1,2) that unfolding tf_inv_def neutral_def by fastforce
  have counters: "counters_ok (ts_guesses s (cr_id c)) c" if "c \<in> set (credentials db')" for c
    using assms(1,2) that unfolding tf_inv_def neutral_def by (fastforce simp: counters_ok_def fresh_row_def)
  have mono: "next_credential (ts_db s) \<le> next_credential db'" "next_backup_code (ts_db s) \<le> next_backup_code db'"
    using assms(2) by (simp_all add: neutral_def)
  then show ?thesis
    using assms(1,3) ok rows spent counters unfolding tf_inv_def by (fastforce intro: order_trans)
qed

lemma changes_row_ok:
  assumes "tf_ok db" and "changes_row cid f db db'" and "\<And>c. cr_id (f c) = cr_id c" and "spends now db db'"
  shows "tf_ok db'"
proof -
  obtain P where P: "backup_codes db' = update_where P (spent_row now) (backup_codes db)" using assms(4) by (auto simp: spends_def)
  have "map bc_code_digest (backup_codes db') = map bc_code_digest (backup_codes db)"
    unfolding P by (rule map_update_where) simp
  moreover have "bc_id b < next_backup_code db" if "b \<in> set (backup_codes db')" for b
    using that assms(1) by (auto simp: P set_update_where tf_ok_def)
  moreover have "cr_id c < next_credential db" if "c \<in> set (credentials db')" for c
    using that assms(1-3) by (auto simp: changes_row_def set_update_where tf_ok_def)
  ultimately show ?thesis
    using assms(1-3) P unfolding tf_ok_def changes_row_def
    by (auto simp: creds.keyed_update backups.keyed_update)
qed

text \<open>A statement on one credential keeps the invariant when the row after it satisfies it.\<close>

lemma row_change_inv:
  assumes inv: "tf_inv s" and row: "cred (ts_db s) cid = Some c" and change: "changes_row cid f (ts_db s) db'"
    and ids: "\<And>c. cr_id (f c) = cr_id c" and spends: "spends now (ts_db s) db'" and clock: "ts_clock s \<le> now"
    and kept: "\<And>step. excluded (cr_last_totp_at c) step \<Longrightarrow> excluded (cr_last_totp_at (f c)) step"
    and ns: "ns = [] \<or> (\<exists>step. ns = [(cid, step)] \<and> \<not> excluded (cr_last_totp_at c) step \<and> excluded (cr_last_totp_at (f c)) step)"
    and ks: "ks = [] \<or> (\<exists>b \<in> set (backup_codes (ts_db s)). ks = [bc_id b] \<and> bc_used_at b = None \<and>
      (\<forall>b' \<in> set (backup_codes db'). bc_id b' = bc_id b \<longrightarrow> bc_used_at b' \<noteq> None))"
    and h: "paced h" "\<forall>t \<in> set h. t \<le> now" "counters_ok h (f c)"
  shows "tf_inv \<lparr>ts_db = db', ts_clock = now, ts_steps = ts_steps s @ ns, ts_spent = ts_spent s @ ks,
    ts_guesses = (ts_guesses s)(cid := h)\<rparr>"
proof -
  have keyed: "creds.keyed (credentials (ts_db s))" and ok: "tf_ok (ts_db s)" using inv by (auto simp: tf_inv_def tf_ok_def)
  have c: "c \<in> set (credentials (ts_db s))" "cr_id c = cid"
    using row keyed by (auto simp: creds.find_row_Some_iff)
  have cid: "cid < next_credential (ts_db s)" using ok c by (auto simp: tf_ok_def)
  have nexts: "next_credential db' = next_credential (ts_db s)" "next_backup_code db' = next_backup_code (ts_db s)"
    using change by (simp_all add: changes_row_def)
  have rows: "c' = f c \<or> c' \<in> set (credentials (ts_db s)) \<and> cr_id c' \<noteq> cid" if "c' \<in> set (credentials db')" for c'
  proof -
    have "r = c" if "r \<in> set (credentials (ts_db s))" "cr_id r = cid" for r
      using that c keyed by (auto intro: creds.keyed_unique)
    with that change show ?thesis by (auto simp: changes_row_def set_update_where)
  qed
  have past: "excluded (cr_last_totp_at r) step" if "r \<in> set (credentials (ts_db s))" "(cr_id r, step) \<in> set (ts_steps s)" for r step
    using inv that unfolding tf_inv_def by blast
  have steps: "excluded (cr_last_totp_at c') step"
    if c': "c' \<in> set (credentials db')" and st: "(cr_id c', step) \<in> set (ts_steps s @ ns)" for c' step
    using rows[OF c']
  proof
    assume eq: "c' = f c"
    from st consider "(cid, step) \<in> set (ts_steps s)" | "(cid, step) \<in> set ns" using eq ids c(2) by auto
    then show ?thesis
    proof cases
      case 1
      then show ?thesis using eq kept past[OF c(1)] c(2) by simp
    next
      case 2
      then show ?thesis using eq ns by auto
    qed
  next
    assume other: "c' \<in> set (credentials (ts_db s)) \<and> cr_id c' \<noteq> cid"
    then have "(cr_id c', step) \<in> set (ts_steps s)" using st ns by auto
    then show ?thesis using other past by blast
  qed
  have fresh: "set (ts_steps s) \<inter> set ns = {}"
    using ns past[OF c(1)] c(2) by auto
  have used: "bc_used_at b \<noteq> None" if "b \<in> set (backup_codes (ts_db s))" "bc_id b \<in> set (ts_spent s)" for b
    using inv that unfolding tf_inv_def by blast
  have spent: "bc_used_at b' \<noteq> None" if b': "b' \<in> set (backup_codes db')" and i: "bc_id b' \<in> set (ts_spent s @ ks)" for b'
  proof (cases "bc_id b' \<in> set ks")
    case True
    then show ?thesis using ks b' by auto
  next
    case False
    with i have "bc_id b' \<in> set (ts_spent s)" by simp
    with b' spends used show ?thesis by (auto simp: spends_def set_update_where)
  qed
  have unspent: "set (ts_spent s) \<inter> set ks = {}"
    using ks used by fastforce
  have counters: "counters_ok (((ts_guesses s)(cid := h)) (cr_id c')) c'" if "c' \<in> set (credentials db')" for c'
    using rows[OF that] inv h(3) ids[of c] c unfolding tf_inv_def by auto
  have times: "paced (ts_guesses s k) \<and> (\<forall>t \<in> set (ts_guesses s k). t \<le> now)" for k
  proof -
    have "paced (ts_guesses s k)" "\<forall>t \<in> set (ts_guesses s k). t \<le> ts_clock s" using inv unfolding tf_inv_def by blast+
    then show ?thesis using clock by (meson order_trans)
  qed
  show ?thesis
    unfolding tf_inv_def tf_system.simps nexts
  proof (intro conjI)
    show "tf_ok db'" using ok change ids spends by (rule changes_row_ok)
    show "distinct (ts_steps s @ ns)" using inv ns fresh by (auto simp: tf_inv_def)
    show "distinct (ts_spent s @ ks)" using inv ks unspent by (auto simp: tf_inv_def)
    show "\<forall>(k, step) \<in> set (ts_steps s @ ns). k < next_credential (ts_db s)"
      using inv ns cid by (auto simp: tf_inv_def)
    show "\<forall>i \<in> set (ts_spent s @ ks). i < next_backup_code (ts_db s)"
      using inv ks ok by (auto simp: tf_inv_def tf_ok_def)
    show "\<forall>c \<in> set (credentials db'). \<forall>(k, step) \<in> set (ts_steps s @ ns). k = cr_id c \<longrightarrow> excluded (cr_last_totp_at c) step"
      using steps by blast
    show "\<forall>b \<in> set (backup_codes db'). bc_id b \<in> set (ts_spent s @ ks) \<longrightarrow> bc_used_at b \<noteq> None"
      using spent by blast
    show "\<forall>k. paced (((ts_guesses s)(cid := h)) k) \<and> (\<forall>t \<in> set (((ts_guesses s)(cid := h)) k). t \<le> now)"
      using times h(1,2) by simp
    show "\<forall>k \<ge> next_credential (ts_db s). ((ts_guesses s)(cid := h)) k = []"
      using inv cid by (auto simp: tf_inv_def)
    show "\<forall>c \<in> set (credentials db'). counters_ok (((ts_guesses s)(cid := h)) (cr_id c)) c"
      using counters by blast
  qed
qed

lemma success_counters: "paced [] \<and> counters_ok [] (success_row now c)"
  by (simp add: paced_def counters_ok_def success_row_def)

lemma confirmed_counters: "counters_ok g (confirmed_row now secret t c) = counters_ok g c"
  by (simp add: counters_ok_def confirmed_row_def)

lemma failure_counters:
  assumes g: "paced g" "\<forall>t \<in> set g. t \<le> now" and c: "counters_ok g c" and free: "\<not> locked_out c now"
  shows "paced (g @ [now]) \<and> counters_ok (g @ [now]) (failure_row now c)"
proof -
  let ?n = "length g"
  have start: "(g @ [now]) ! 0 + total_lock (?n div 5) \<le> now"
  proof (cases "5 \<le> ?n")
    case True
    then obtain u where u: "cr_locked_until c = Some u" "g ! 0 + total_lock (?n div 5) \<le> u"
      using c by (auto simp: counters_ok_def)
    with free have "u \<le> now" by (simp add: locked_out_def)
    with u True show ?thesis by (cases g) auto
  next
    case False
    then have "?n div 5 = 0" by simp
    then show ?thesis using g(2) by (cases g) auto
  qed
  have "paced (g @ [now])"
    unfolding paced_def
  proof (intro allI impI)
    fix i assume "i < length (g @ [now])"
    then consider "i < ?n" | "i = ?n" by force
    then show "(g @ [now]) ! 0 + total_lock (i div 5) \<le> (g @ [now]) ! i"
    proof cases
      case 1
      then have "(g @ [now]) ! i = g ! i" "(g @ [now]) ! 0 = g ! 0" by (auto simp: nth_append)
      with 1 g(1) show ?thesis unfolding paced_def by simp
    next
      case 2
      then show ?thesis using start by simp
    qed
  qed
  moreover have "counters_ok (g @ [now]) (failure_row now c)"
  proof (cases "?n mod 5 = 4")
    case True
    then have d: "Suc ?n div 5 = Suc (?n div 5)" "Suc ?n mod 5 = 0" by (auto simp: mod_Suc div_Suc)
    have "since now (lockout_duration_for (int (Suc (?n div 5)))) = now + lockout_duration_for (int (Suc (?n div 5))) div 1000"
      by (simp add: since_def)
    then have "(g @ [now]) ! 0 + total_lock (Suc ?n div 5) \<le> since now (lockout_duration_for (int (Suc (?n div 5))))"
      using start by (simp add: d)
    moreover have "\<not> Suc ?n < 5" using True by (metis Suc_lessI d(1) div_less less_Suc_eq nat.distinct(1) zero_less_Suc)
    ultimately show ?thesis using True c
      by (simp add: counters_ok_def failure_row_def failures_before_lockout_def d add.commute)
  next
    case False
    then have d: "Suc ?n div 5 = ?n div 5" "Suc ?n mod 5 = Suc (?n mod 5)" by (auto simp: mod_Suc div_Suc)
    have "?n mod 5 < 4" using False by (metis less_Suc_eq mod_less_divisor numeral_eq_Suc pred_numeral_simps(3) zero_less_numeral Suc_numeral semiring_norm(5))
    moreover have "(5 \<le> Suc ?n) = (5 \<le> ?n)" using False by (metis Suc_leI d(1) div_greater_zero_iff le_Suc_eq less_Suc_eq_le zero_less_numeral)
    moreover have "g = [] \<or> (g @ [now]) ! 0 = g ! 0" by (cases g) auto
    ultimately show ?thesis using c
      by (auto simp: counters_ok_def failure_row_def failures_before_lockout_def d)
  qed
  ultimately show ?thesis by simp
qed

subsection \<open>Every step keeps the invariant\<close>

lemma later_step_excludes:
  "\<not> excluded prev (t div step_seconds) \<Longrightarrow> excluded prev step \<Longrightarrow> excluded (Some t) step"
  by (auto simp: excluded_def split: option.splits)

lemma just_accepted_excluded: "excluded (Some t) (t div step_seconds)"
  by (simp add: excluded_def)

lemma credential_for_user_change:
  assumes "credential_for_user db uid = Some c" and "changes_row (cr_id c) f db db'" and "\<And>c. cr_user_id (f c) = cr_user_id c"
  shows "credential_for_user db' uid = Some (f c)"
  using assms by (simp add: credential_for_user_def changes_row_def find_update_where)

lemma step_used_by_accepted:
  assumes "credential_for_user db uid = Some c"
    and "changes_row (cr_id c) (success_row now \<circ> accepted_row now t) db db'"
  shows "step_used_by db' uid = (cr_id c, t div step_seconds)"
  using credential_for_user_change[OF assms]
  by (simp add: step_used_by_def step_used_def success_row_def accepted_row_def)

lemma count_where_ex: "count_where P xs = 1 \<Longrightarrow> \<exists>x \<in> set xs. P x"
  by (induction xs) (auto simp: count_where_def split: if_splits)

lemma distinct_map_find:
  assumes "distinct (map f xs)" and "x \<in> set xs" and "P x" and "\<And>y. P y \<Longrightarrow> f y = f x"
  shows "find P xs = Some x"
  using assms(1,2)
proof (induction xs)
  case (Cons y ys)
  show ?case
  proof (cases "y = x")
    case True
    then show ?thesis using assms(3) by simp
  next
    case False
    then have "\<not> P y" using Cons.prems assms(4)[of y] by auto
    then show ?thesis using Cons False by simp
  qed
qed simp

text \<open>A backup code that was accepted names one row, which was unspent before and is spent now.\<close>

lemma code_used_by_spent:
  assumes ok: "tf_ok db" and user: "credential_for_user db' uid = Some c'" "cr_id c' = cid"
    and one: "count_where (unspent cid digest) (backup_codes db) = 1"
    and upd: "backup_codes db' = update_where (unspent cid digest) (spent_row now) (backup_codes db)"
  shows "\<exists>b \<in> set (backup_codes db). code_used_by db' uid digest = bc_id b \<and> bc_used_at b = None \<and>
    (\<forall>b' \<in> set (backup_codes db'). bc_id b' = bc_id b \<longrightarrow> bc_used_at b' \<noteq> None)"
proof -
  obtain b where b: "b \<in> set (backup_codes db)" "unspent cid digest b" using count_where_ex[OF one] by blast
  have d: "bc_credential_id b = cid" "bc_code_digest b = digest" "bc_used_at b = None" using b(2) by (simp_all add: unspent_def)
  have "find (\<lambda>b. bc_credential_id b = cid \<and> bc_code_digest b = digest) (backup_codes db) = Some b"
    using ok b(1) d by (intro distinct_map_find[of bc_code_digest]) (auto simp: tf_ok_def)
  then have "code_used_by db' uid digest = bc_id b"
    by (simp add: code_used_by_def user upd find_update_where)
  moreover have "bc_used_at b' \<noteq> None" if b': "b' \<in> set (backup_codes db')" "bc_id b' = bc_id b" for b'
  proof -
    have "r = b" if "r \<in> set (backup_codes db)" "bc_id r = bc_id b" for r
      using that b(1) ok by (auto simp: tf_ok_def intro: backups.keyed_unique)
    with b' b(2) show ?thesis by (auto simp: upd set_update_where)
  qed
  ultimately show ?thesis using b(1) d(3) by blast
qed

lemma tf_inv_guesses:
  assumes "tf_inv s" and "c \<in> set (credentials (ts_db s))" and "ts_clock s \<le> now"
  shows "paced (ts_guesses s cid)" and "\<forall>t \<in> set (ts_guesses s cid). t \<le> now" and "counters_ok (ts_guesses s (cr_id c)) c"
proof -
  have "paced (ts_guesses s cid)" "\<forall>t \<in> set (ts_guesses s cid). t \<le> ts_clock s" "counters_ok (ts_guesses s (cr_id c)) c"
    using assms(1,2) unfolding tf_inv_def by blast+
  then show "paced (ts_guesses s cid)" and "\<forall>t \<in> set (ts_guesses s cid). t \<le> now" and "counters_ok (ts_guesses s (cr_id c)) c"
    using assms(3) by (auto intro: order_trans)
qed

text \<open>The three outcomes of a judged code.\<close>

lemma totp_accepted_inv:
  assumes inv: "tf_inv s" and c: "credential_for_user (ts_db s) uid = Some c" and clock: "ts_clock s \<le> now"
    and t: "\<not> excluded (cr_last_totp_at c) (t div step_seconds)"
    and change: "changes_row (cr_id c) (success_row now \<circ> accepted_row now t) (ts_db s) db'"
    and codes: "backup_codes db' = backup_codes (ts_db s)"
  shows "tf_inv \<lparr>ts_db = db', ts_clock = now, ts_steps = ts_steps s @ [step_used_by db' uid], ts_spent = ts_spent s,
    ts_guesses = (ts_guesses s)(cr_id c := [])\<rparr>"
proof -
  let ?f = "success_row now \<circ> accepted_row now t"
  have row: "cred (ts_db s) (cr_id c) = Some c"
    using c inv by (auto simp: tf_inv_def tf_ok_def intro: credential_for_user_row)
  have lastrow: "cr_last_totp_at (?f c) = Some t" by (simp add: success_row_def accepted_row_def)
  have "tf_inv \<lparr>ts_db = db', ts_clock = now, ts_steps = ts_steps s @ [(cr_id c, t div step_seconds)], ts_spent = ts_spent s @ [],
    ts_guesses = (ts_guesses s)(cr_id c := [])\<rparr>"
    using row_change_inv[OF inv row change _ spends_refl[OF codes] clock, of "[(cr_id c, t div step_seconds)]" "[]" "[]"]
      t lastrow success_counters[of now "accepted_row now t c"] later_step_excludes[OF t] just_accepted_excluded[of t] by simp
  then show ?thesis using step_used_by_accepted[OF c change] by simp
qed

lemma backup_accepted_inv:
  assumes inv: "tf_inv s" and c: "credential_for_user (ts_db s) uid = Some c" and clock: "ts_clock s \<le> now"
    and change: "changes_row (cr_id c) (success_row now) (ts_db s) db'"
    and one: "count_where (unspent (cr_id c) digest) (backup_codes (ts_db s)) = 1"
    and upd: "backup_codes db' = update_where (unspent (cr_id c) digest) (spent_row now) (backup_codes (ts_db s))"
  shows "tf_inv \<lparr>ts_db = db', ts_clock = now, ts_steps = ts_steps s, ts_spent = ts_spent s @ [code_used_by db' uid digest],
    ts_guesses = (ts_guesses s)(cr_id c := [])\<rparr>"
proof -
  have ok: "tf_ok (ts_db s)" using inv by (simp add: tf_inv_def)
  have row: "cred (ts_db s) (cr_id c) = Some c" using c ok by (auto simp: tf_ok_def intro: credential_for_user_row)
  have user: "credential_for_user db' uid = Some (success_row now c)"
    using c change by (rule credential_for_user_change) simp
  have ks: "[code_used_by db' uid digest] = [] \<or> (\<exists>b \<in> set (backup_codes (ts_db s)). [code_used_by db' uid digest] = [bc_id b] \<and>
      bc_used_at b = None \<and> (\<forall>b' \<in> set (backup_codes db'). bc_id b' = bc_id b \<longrightarrow> bc_used_at b' \<noteq> None))"
    using code_used_by_spent[OF ok user _ one upd] by simp
  have "spends now (ts_db s) db'" using upd by (auto simp: spends_def)
  then show ?thesis
    using row_change_inv[OF inv row change _ _ clock _ _ ks, of "[]" "[]"] success_counters[of now c]
    by (simp add: success_row_def)
qed

lemma guess_refused_inv:
  assumes inv: "tf_inv s" and c: "credential_for_user (ts_db s) uid = Some c" and clock: "ts_clock s \<le> now"
    and free: "\<not> locked_out c now" and change: "changes_row (cr_id c) (failure_row now) (ts_db s) db'"
    and spends: "spends now (ts_db s) db'"
  shows "tf_inv \<lparr>ts_db = db', ts_clock = now, ts_steps = ts_steps s, ts_spent = ts_spent s,
    ts_guesses = (ts_guesses s)(cr_id c := ts_guesses s (cr_id c) @ [now])\<rparr>"
proof -
  have row: "cred (ts_db s) (cr_id c) = Some c"
    using c inv by (auto simp: tf_inv_def tf_ok_def intro: credential_for_user_row)
  then have mem: "c \<in> set (credentials (ts_db s))"
    using inv by (auto simp: tf_inv_def tf_ok_def creds.find_row_Some_iff)
  note g = tf_inv_guesses[OF inv mem clock]
  have lastrow: "cr_last_totp_at (failure_row now c) = cr_last_totp_at c" by (simp add: failure_row_def)
  show ?thesis
    using row_change_inv[OF inv row change _ spends clock, of "[]" "[]" "ts_guesses s (cr_id c) @ [now]"]
      failure_counters[OF g(1,2,3) free] g(2)[of "cr_id c"] lastrow by simp
qed

text \<open>Without a change of the tables, no code was judged: none would have been accepted.\<close>

lemma challenge_unjudged:
  assumes "challenge sec (open_tx now) uid code verb notify db = Inr (r, db)"
    and "r = Gone \<or> (\<exists>c m. credential_for_user db uid = Some c \<and> locked_out c now \<and> r = LockedFor m)"
  shows "\<not> judges_challenge sec uid verb notify now db db"
proof -
  have gone: "challenge sec (open_tx now) uid other verb notify db = Inr (Gone, db)" if r: "r = Gone" for other
  proof -
    have "\<not> (list_ex (\<lambda>u. us_id u = uid \<and> us_active u) (tf_users db) \<and> credential_for_user db uid = Some c \<and> enabled c)" for c
      using assms(1) r
      by (auto simp: challenge_def Let_def map_sum_def split: if_splits option.splits sum.splits bool.splits)
    then show ?thesis by (auto simp: challenge_def split: option.splits)
  qed
  have locked: "challenge sec (open_tx now) uid other verb notify db \<noteq> Inr (Accepted how, db2)"
    if "credential_for_user db uid = Some c" "locked_out c now" for c other how db2
    using that by (auto simp: challenge_def open_tx_def split: if_splits)
  show ?thesis using assms(2) gone locked unfolding judges_challenge_def by auto
qed

lemma sudo_unjudged:
  assumes "sudo_verify sec (open_tx now) uid code db = Inr (r, db)"
    and "r = None \<or> (\<exists>c. credential_for_user db uid = Some c \<and> locked_out c now \<and> r = Some False)"
  shows "\<not> judges_sudo sec uid now db db"
proof -
  have gone: "sudo_verify sec (open_tx now) uid other db = Inr (None, db)" if r: "r = None" for other
  proof -
    have "\<not> (credential_for_user db uid = Some c \<and> enabled c)" for c
      using assms(1) r
      by (auto simp: sudo_verify_def Let_def map_sum_def split: if_splits option.splits sum.splits bool.splits)
    then show ?thesis by (auto simp: sudo_verify_def split: option.splits)
  qed
  have locked: "sudo_verify sec (open_tx now) uid other db \<noteq> Inr (Some True, db2)"
    if "credential_for_user db uid = Some c" "locked_out c now" for c other db2
    using that by (auto simp: sudo_verify_def open_tx_def split: if_splits)
  show ?thesis using assms(2) gone locked unfolding judges_sudo_def by auto
qed

lemma failure_changes:
  assumes "credential_for_user db uid = Some c" and "changes_row (cr_id c) (failure_row now) db db'"
  shows "db' \<noteq> db"
proof
  assume "db' = db"
  then have "update_where (\<lambda>r. cr_id r = cr_id c) (failure_row now) (credentials db) = credentials db"
    using assms(2) by (simp add: changes_row_def)
  moreover have "c \<in> set (credentials db)"
    using assms(1) by (auto simp: credential_for_user_def find_Some_iff)
  then obtain i where "i < length (credentials db)" "credentials db ! i = c" by (auto simp: in_set_conv_nth)
  then have "update_where (\<lambda>r. cr_id r = cr_id c) (failure_row now) (credentials db) ! i = failure_row now c"
    by (simp add: update_where_def)
  ultimately have "failure_row now c = c"
    using \<open>credentials db ! i = c\<close> by simp
  then have "cr_consecutive_failures (failure_row now c) = cr_consecutive_failures c \<and>
      cr_lockout_count (failure_row now c) = cr_lockout_count c" by simp
  then show False by (simp add: failure_row_def split: if_splits)
qed

lemma tf_step_inv:
  assumes inv: "tf_inv s" and step: "tf_step sec s s'"
  shows "tf_inv s'"
proof -
  have keyed: "creds.keyed (credentials (ts_db s))" using inv by (simp add: tf_inv_def tf_ok_def)
  have same: "tf_inv (s\<lparr>ts_clock := now\<rparr>)" if "ts_clock s \<le> now" for now
    using neutral_inv[OF inv neutral_same that, of "ts_db s"] by simp
  have built: "\<lparr>ts_db = ts_db s, ts_clock = now, ts_steps = ts_steps s, ts_spent = ts_spent s, ts_guesses = ts_guesses s\<rparr> =
      s\<lparr>ts_clock := now\<rparr>" for now by (cases s) simp
  from step show ?thesis
  proof cases
    case (challenge_step now uid code verb notify r db')
    from challenge_cases[OF challenge_step(3) _ keyed]
    consider "db' = ts_db s" "r = Gone \<or> (\<exists>c m. credential_for_user (ts_db s) uid = Some c \<and> locked_out c now \<and> r = LockedFor m)"
      | c t where "credential_for_user (ts_db s) uid = Some c" "\<not> locked_out c now" "r = Accepted ''totp''"
          "backup_codes db' = backup_codes (ts_db s)" "\<not> excluded (cr_last_totp_at c) (t div step_seconds)"
          "changes_row (cr_id c) (success_row now \<circ> accepted_row now t) (ts_db s) db'"
      | c where "credential_for_user (ts_db s) uid = Some c" "\<not> locked_out c now" "r = Accepted ''backup_code''"
          "changes_row (cr_id c) (success_row now) (ts_db s) db'"
          "count_where (unspent (cr_id c) (code_digest sec code)) (backup_codes (ts_db s)) = 1"
          "backup_codes db' = update_where (unspent (cr_id c) (code_digest sec code)) (spent_row now) (backup_codes (ts_db s))"
      | c where "credential_for_user (ts_db s) uid = Some c" "\<not> locked_out c now" "r = Wrong \<or> (\<exists>m. r = LockedFor m)"
          "changes_row (cr_id c) (failure_row now) (ts_db s) db'" "spends now (ts_db s) db'"
      by (auto simp: open_tx_def)
    then show ?thesis
    proof cases
      case 1
      then have "\<not> judges_challenge sec uid verb notify now (ts_db s) db'"
        using challenge_unjudged challenge_step(3) by metis
      then show ?thesis using 1 same[OF challenge_step(2)] challenge_step(1)
        by (auto simp: after_challenge_def note_guess_def is_accepted_def built split: option.splits)
    next
      case 2
      then show ?thesis using totp_accepted_inv[OF inv 2(1) challenge_step(2) 2(5,6,4)] challenge_step(1)
        by (simp add: after_challenge_def note_guess_def is_accepted_def)
    next
      case 3
      then show ?thesis using backup_accepted_inv[OF inv 3(1) challenge_step(2) 3(4-6)] challenge_step(1)
        by (simp add: after_challenge_def note_guess_def is_accepted_def)
    next
      case 4
      have "judges_challenge sec uid verb notify now (ts_db s) db'"
        using failure_changes[OF 4(1,4)] by (simp add: judges_challenge_def)
      then show ?thesis using 4 guess_refused_inv[OF inv 4(1) challenge_step(2) 4(2,4,5)] challenge_step(1)
        by (auto simp: after_challenge_def note_guess_def is_accepted_def)
    qed
  next
    case (sudo_step now uid code r db')
    from sudo_cases[OF sudo_step(3) _ keyed]
    consider "db' = ts_db s" "r = None \<or> (\<exists>c. credential_for_user (ts_db s) uid = Some c \<and> locked_out c now \<and> r = Some False)"
      | c t where "credential_for_user (ts_db s) uid = Some c" "\<not> locked_out c now" "r = Some True"
          "backup_codes db' = backup_codes (ts_db s)" "\<not> excluded (cr_last_totp_at c) (t div step_seconds)"
          "changes_row (cr_id c) (success_row now \<circ> accepted_row now t) (ts_db s) db'"
      | c where "credential_for_user (ts_db s) uid = Some c" "\<not> locked_out c now" "r = Some False"
          "changes_row (cr_id c) (failure_row now) (ts_db s) db'" "backup_codes db' = backup_codes (ts_db s)"
      by (auto simp: open_tx_def)
    then show ?thesis
    proof cases
      case 1
      then have "\<not> judges_sudo sec uid now (ts_db s) db'"
        using sudo_unjudged sudo_step(3) by metis
      then show ?thesis using 1 same[OF sudo_step(2)] sudo_step(1)
        by (auto simp: after_sudo_def note_guess_def built split: option.splits)
    next
      case 2
      then show ?thesis using totp_accepted_inv[OF inv 2(1) sudo_step(2) 2(5,6,4)] sudo_step(1)
        by (simp add: after_sudo_def note_guess_def)
    next
      case 3
      have "judges_sudo sec uid now (ts_db s) db'"
        using failure_changes[OF 3(1,4)] by (simp add: judges_sudo_def)
      then show ?thesis using 3 guess_refused_inv[OF inv 3(1) sudo_step(2) 3(2,4) spends_refl[OF 3(5)]] sudo_step(1)
        by (simp add: after_sudo_def note_guess_def)
    qed
  next
    case (confirm_step now held given code ok c' db')
    have tx: "tx_in_transaction (open_tx now)" "tx_now (open_tx now) = now" by (simp_all add: open_tx_def)
    show ?thesis
    proof (cases ok)
      case True
      then obtain c t secret where c: "cred (ts_db s) (cr_id held) = Some c" "\<not> excluded (cr_last_totp_at c) (t div step_seconds)"
        "changes_row (cr_id held) (confirmed_row now secret t) (ts_db s) db'" "backup_codes db' = backup_codes (ts_db s)"
        "c' = confirmed_row now secret t c"
        using confirm_cases[OF confirm_step(3) tx(1)] tx(2) by auto
      have mem: "c \<in> set (credentials (ts_db s))" and id: "cr_id c = cr_id held"
        using c(1) keyed by (auto simp: creds.find_row_Some_iff)
      note g = tf_inv_guesses[OF inv mem confirm_step(2)]
      have lastrow: "cr_last_totp_at (confirmed_row now secret t c) = Some t" by (simp add: confirmed_row_def)
      have used: "step_used c' = (cr_id held, t div step_seconds)"
        using c(5) id by (simp add: step_used_def confirmed_row_def)
      show ?thesis
        using row_change_inv[OF inv c(1,3) _ spends_refl[OF c(4)] confirm_step(2), of "[step_used c']" "[]" "ts_guesses s (cr_id held)"]
          later_step_excludes[OF c(2)] just_accepted_excluded[of t] g c(2) id lastrow used True confirm_step(1)
          confirmed_counters by (cases s) simp
    next
      case False
      then show ?thesis using confirm_cases[OF confirm_step(3) tx(1)] same[OF confirm_step(2)] confirm_step(1) by simp
    qed
  qed (use inv in \<open>auto intro: neutral_inv devices_neutral enroll_prepare_neutral regenerate_set_neutral
        regenerate_backups_neutral reset_neutral\<close>)
qed

interpretation tf_runs: invariant_system "tf_step sec" tf_inv for sec
  by unfold_locales (rule tf_step_inv)

subsection \<open>An example run\<close>

text \<open>A cipher and hashes to evaluate with; a user enrolls and confirms with the code of step 3 and then
  enters nothing, five times at once and once more a minute later.\<close>

definition plain_security :: security where
  "plain_security = \<lparr>sec_hmac = zero_hash, sec_sha256_hex = id, sec_encrypt = id, sec_decrypt = Some,
     sec_decrypt_bytes = (\<lambda>t. Some (''UTF-8'', map (\<lambda>c. word_of_nat (of_char c)) t))\<rparr>"

definition example_credential :: "timestamp option \<Rightarrow> int option \<Rightarrow> int \<Rightarrow> int \<Rightarrow> timestamp option \<Rightarrow> timestamp \<Rightarrow> credential" where
  "example_credential confirmed totp failures lockouts until updated =
     \<lparr>cr_id = 1, cr_user_id = 1, cr_secret = ''AAAAAAAA'', cr_confirmed_at = confirmed, cr_last_totp_at = totp,
      cr_consecutive_failures = failures, cr_lockout_count = lockouts, cr_locked_until = until,
      cr_created_at = 60000000, cr_updated_at = updated\<rparr>"

definition example_state :: "credential \<Rightarrow> timestamp \<Rightarrow> (int \<times> int) list \<Rightarrow> timestamp list \<Rightarrow> tf_system" where
  "example_state c now steps g =
     \<lparr>ts_db = \<lparr>credentials = [c], next_credential = 2, backup_codes = [], next_backup_code = 1, setup_secrets = [],
        next_setup_secret = 1, remembered_devices = [], next_remembered_device = 1,
        tf_users = [\<lparr>us_id = 1, us_active = True, us_bot = False\<rparr>], tf_sessions = [(1, 1, None)], tf_effects = []\<rparr>,
      ts_clock = now, ts_steps = steps, ts_spent = [], ts_guesses = (\<lambda>_. [])(1 := g)\<rparr>"

definition example_start :: tf_system where
  "example_start = tf_init [\<lparr>us_id = 1, us_active = True, us_bot = False\<rparr>] [(1, 1, None)] 60000000"

lemmas example_defs = example_state_def example_credential_def plain_security_def open_tx_def require_transaction_def
  credential_for_user_def find_credential_def update_credential_def as_second_def Let_def

lemma example_enroll:
  "tf_step plain_security example_start (example_state (example_credential None None 0 0 None 60000000) 60000000 [] [])"
proof -
  have "\<exists>x. enroll_prepare plain_security (open_tx 60000000) 1 1 ''AAAAAAAA'' (ts_db example_start) =
    Inr (x, ts_db (example_state (example_credential None None 0 0 None 60000000) 60000000 [] []))"
    by (simp add: example_start_def tf_init_def enroll_prepare_def create_credential_def user_exists_def valid_for_def
        setup_for_session_def blank_def is_space_def example_defs)
  then obtain x where "enroll_prepare plain_security (open_tx 60000000) 1 1 ''AAAAAAAA'' (ts_db example_start) =
    Inr (x, ts_db (example_state (example_credential None None 0 0 None 60000000) 60000000 [] []))" ..
  from enroll_step[OF _ this] show ?thesis
    by (simp add: example_start_def tf_init_def example_state_def fun_upd_idem)
qed

lemma example_confirm:
  "tf_step plain_security (example_state (example_credential None None 0 0 None 60000000) 60000000 [] [])
     (example_state (example_credential (Some 60000000) (Some 90) 0 0 None 60000000) 60000000 [(1, 3)] [])"
proof -
  let ?c = "example_credential None None 0 0 None 60000000"
  let ?c' = "example_credential (Some 60000000) (Some 90) 0 0 None 60000000"
  let ?given = "\<lparr>ss_id = 1, ss_session_id = 1, ss_secret = ''AAAAAAAA'', ss_expires_at = 60000001, ss_created_at = 0, ss_updated_at = 0\<rparr>"
  have v: "verify_code zero_hash ''AAAAAAAA'' ''000000'' 60 None = Inr (Some 90)"
    by (simp add: verify_code_eq zero_secret plain_code_def ruby_code_whitespace_def window_def step_seconds_def upto.simps
        excluded_def zero_code checked_i64_def)
  have d: "decrypt_totp_secret plain_security ''AAAAAAAA'' = Inr ''AAAAAAAA''"
    by code_simp
  have w: "\<not> list_all ruby_code_whitespace ''000000''" by (simp add: ruby_code_whitespace_def)
  have "confirm_with_setup_secret plain_security (open_tx 60000000) ?c ?given ''000000'' (ts_db (example_state ?c 60000000 [] [])) =
      Inr (True, ?c', ts_db (example_state ?c' 60000000 [(1, 3)] []))"
    using w v d by (simp add: confirm_with_setup_secret_def matched_step_def delete_where_def example_defs)
  from confirm_step[OF _ this] show ?thesis
    by (simp add: example_state_def step_used_def example_credential_def step_seconds_def)
qed

lemma example_guess:
  assumes "now0 \<le> now" and "\<not> locked_out c now" and "c = example_credential (Some 60000000) (Some 90) f l u up"
    and "c' = failure_row now c" and "0 \<le> f" "f < 10" "0 \<le> l" "l < 10"
  shows "tf_step plain_security (example_state c now0 steps g) (example_state c' now steps (g @ [now]))"
proof -
  have "sudo_verify plain_security (open_tx now) 1 [] (ts_db (example_state c now0 steps g)) =
      Inr (Some False, ts_db (example_state c' now steps (g @ [now])))"
    using assms by (auto simp: sudo_verify_def verify_credential_code_def register_challenge_failure_def enabled_def
        i64_max_def failure_row_def example_defs)
  moreover have "judges_sudo plain_security 1 now (ts_db (example_state c now0 steps g))
      (ts_db (example_state c' now steps (g @ [now])))"
    using assms(3,4) by (auto simp: judges_sudo_def example_state_def example_credential_def failure_row_def)
  ultimately show ?thesis using sudo_step[of "example_state c now0 steps g" now plain_security 1 "[]" "Some False"] assms
    by (auto simp: after_sudo_def note_guess_def example_state_def credential_for_user_def example_credential_def)
qed

definition example_end :: tf_system where
  "example_end = example_state (example_credential (Some 60000000) (Some 90) 1 1 (Some 120000000) 120000000) 120000000
     [(1, 3)] [60000000, 60000000, 60000000, 60000000, 60000000, 120000000]"

lemma example_run: "(tf_step plain_security)\<^sup>*\<^sup>* example_start example_end"
proof -
  let ?c = "example_credential (Some 60000000) (Some 90)"
  have guess: "(tf_step plain_security)\<^sup>*\<^sup>* example_start (example_state c' now [(1, 3)] (g @ [now]))"
    if "(tf_step plain_security)\<^sup>*\<^sup>* example_start (example_state (?c f l u up) now0 [(1, 3)] g)"
      "now0 \<le> now" "\<not> locked_out (?c f l u up) now" "c' = failure_row now (?c f l u up)" "0 \<le> f" "f < 10" "0 \<le> l" "l < 10"
    for c' f l u up now0 now g
    using that(1) example_guess[OF that(2,3) refl that(4-8)] by (rule rtranclp.rtrancl_into_rtrancl)
  note row = example_credential_def failure_row_def failures_before_lockout_def since_def lockout_duration_for_def locked_out_def
  have "(tf_step plain_security)\<^sup>*\<^sup>* example_start (example_state (?c 0 0 None 60000000) 60000000 [(1, 3)] [])"
    using example_enroll example_confirm by (meson r_into_rtranclp rtranclp.rtrancl_into_rtrancl)
  from guess[OF this, of 60000000 "?c 1 0 None 60000000"]
  have "(tf_step plain_security)\<^sup>*\<^sup>* example_start (example_state (?c 1 0 None 60000000) 60000000 [(1, 3)] [60000000])"
    by (simp add: row)
  from guess[OF this, of 60000000 "?c 2 0 None 60000000"]
  have "(tf_step plain_security)\<^sup>*\<^sup>* example_start (example_state (?c 2 0 None 60000000) 60000000 [(1, 3)] [60000000, 60000000])"
    by (simp add: row)
  from guess[OF this, of 60000000 "?c 3 0 None 60000000"]
  have "(tf_step plain_security)\<^sup>*\<^sup>* example_start
      (example_state (?c 3 0 None 60000000) 60000000 [(1, 3)] [60000000, 60000000, 60000000])"
    by (simp add: row)
  from guess[OF this, of 60000000 "?c 4 0 None 60000000"]
  have "(tf_step plain_security)\<^sup>*\<^sup>* example_start
      (example_state (?c 4 0 None 60000000) 60000000 [(1, 3)] [60000000, 60000000, 60000000, 60000000])"
    by (simp add: row)
  from guess[OF this, of 60000000 "?c 0 1 (Some 120000000) 60000000"]
  have "(tf_step plain_security)\<^sup>*\<^sup>* example_start
      (example_state (?c 0 1 (Some 120000000) 60000000) 60000000 [(1, 3)] [60000000, 60000000, 60000000, 60000000, 60000000])"
    by (simp add: row)
  from guess[OF this, of 120000000 "?c 1 1 (Some 120000000) 120000000"]
  show ?thesis by (simp add: row example_end_def)
qed

subsection \<open>Theorems\<close>

text \<open>C12.  Replay protection.  Whatever sequence of sign-in challenges, sudo challenges, enrollments,
  resets and backup code regenerations runs, from all sessions, no time step of a credential is accepted twice
  and no backup code is spent twice.\<close>

theorem codes_accepted_once:
  assumes "(tf_step sec)\<^sup>*\<^sup>* (tf_init users sessions now) s"
  shows "distinct (ts_steps s) \<and> distinct (ts_spent s)"
  using tf_runs.inv_run[OF assms tf_init_inv] unfolding tf_inv_def by blast

theorem codes_accepted_once_witness: "ts_steps example_end = [(1, 3)] \<and> distinct (ts_steps example_end) \<and> distinct (ts_spent example_end)"
  using codes_accepted_once[OF example_run[unfolded example_start_def]] by (simp add: example_end_def example_state_def)



end
