(* ===== verification/JobSystem.thy ===== *)
theory JobSystem
  imports JobRunner
begin

section \<open>Many runners over one job table\<close>

text \<open>
  The job table as a system: several runners and the operator issue the statements of
  \<^verbatim>\<open>crates/jobs/src/store.rs\<close>, \<^verbatim>\<open>runner.rs\<close> and \<^verbatim>\<open>inspect.rs\<close> in any order, each in a
  transaction of its own.  \<open>job_step\<close> allows every statement with any arguments and any clock
  reading; \<open>timed_step\<close> adds a clock that does not run backwards; \<open>run_step\<close> lets the
  statements of an execution be the ones the runner computes.  The invariants: the table stays
  well formed, every job moves along its life cycle, the live claims of a queue stay within its
  concurrency, and a job is not executed more often than its policy allows.
\<close>

subsection \<open>Every statement, in any order\<close>

inductive job_step :: "'a jobs_db \<Rightarrow> 'a jobs_db \<Rightarrow> bool" where
  insert: "job_step db (snd (insert_job job now db))"
| claim: "job_step db (snd (claim q c n runner lease now db))"
| make_due: "job_step db (snd (make_due ex q cls path v now db))"
| delete: "job_step db (snd (delete_job k runner db))"
| reschedule: "job_step db (snd (reschedule k runner due e reset now db))"
| fail: "job_step db (snd (fail_job k runner e now db))"
| set_arguments: "job_step db (set_arguments k runner a db)"
| heartbeat: "job_step db (snd (heartbeat runner ids lease now db))"
| recover: "job_step db (snd (recover k retry e now db))"
| release: "job_step db (snd (release runner now db))"
| retry_failed: "job_step db (snd (retry_failed parse txt print k now db))"
| delete_failed: "job_step db (snd (delete_failed k db))"

datatype job_phase = Gone | Waiting | Held "string option" | Dead

definition row_phase :: "'a job_row \<Rightarrow> job_phase" where
  "row_phase r = (case status r of Ready \<Rightarrow> Waiting | Running \<Rightarrow> Held (claimed_by r) | Failed \<Rightarrow> Dead)"

definition phase_of :: "int \<Rightarrow> 'a jobs_db \<Rightarrow> job_phase" where
  "phase_of k db = (case find (\<lambda>r. job_id r = k) (rows db) of None \<Rightarrow> Gone | Some r \<Rightarrow> row_phase r)"

text \<open>The life cycle of a job, as an abstract machine.\<close>

inductive lifecycle :: "job_phase \<Rightarrow> job_phase \<Rightarrow> bool" where
  stay: "lifecycle p p"
| enqueued: "lifecycle Gone Waiting"
| claimed: "lifecycle Waiting (Held (Some w))"
| put_back: "lifecycle (Held w) Waiting"
| gave_up: "lifecycle (Held w) Dead"
| finished: "lifecycle (Held w) Gone"
| retried: "lifecycle Dead Waiting"
| removed: "lifecycle Dead Gone"

inductive_simps lifecycle_from_Waiting: "lifecycle Waiting p"
inductive_simps lifecycle_from_Held: "lifecycle (Held w) p"
inductive_simps lifecycle_from_Gone: "lifecycle Gone p"
inductive_simps lifecycle_from_Dead: "lifecycle Dead p"

lemma set_arguments_ok: "store_ok db \<Longrightarrow> store_ok (set_arguments k runner a db)"
  by (simp add: set_arguments_def) (rule store_ok_update, auto simp: row_ok_def)

lemma retry_failed_ok: "store_ok db \<Longrightarrow> store_ok (snd (retry_failed parse txt print k now db))"
  by (auto simp: retry_failed_def Let_def row_ok_def intro!: store_ok_update split: option.splits)

lemma delete_failed_ok: "store_ok db \<Longrightarrow> store_ok (snd (delete_failed k db))"
  by (simp add: delete_failed_def Let_def store_ok_delete)

lemma job_step_ok: "job_step db db' \<Longrightarrow> store_ok db \<Longrightarrow> store_ok db'"
  by (induction rule: job_step.induct)
     (auto intro: statement_ok set_arguments_ok retry_failed_ok delete_failed_ok)

interpretation job_runs: invariant_system job_step store_ok
  by unfold_locales (rule job_step_ok)

lemma find_is_find_row: "find (\<lambda>r. job_id r = k) rs = jobs.find_row k rs"
  by (simp add: jobs.find_row_def)

lemma phase_update:
  assumes "\<And>r. job_id (f r) = job_id r" and "\<And>r. P r \<Longrightarrow> lifecycle (row_phase r) (row_phase (f r))"
  shows "lifecycle (phase_of k db) (phase_of k (db\<lparr>rows := update_where P f (rows db)\<rparr>))"
  using assms
  by (auto simp: phase_of_def find_is_find_row jobs.find_row_update lifecycle.stay
      split: option.splits)

lemma phase_delete:
  assumes "store_ok db" and "\<And>r. P r \<Longrightarrow> lifecycle (row_phase r) Gone"
  shows "lifecycle (phase_of k db) (phase_of k (db\<lparr>rows := delete_where P (rows db)\<rparr>))"
  using assms
  by (auto simp: phase_of_def find_is_find_row jobs.find_row_delete store_okD lifecycle.stay
      split: option.splits)

lemma phase_insert:
  "lifecycle (phase_of k db) (phase_of k (snd (insert_job job now db)))"
  by (auto simp: phase_of_def insert_job_def Let_def row_phase_def find_append
      lifecycle.stay lifecycle.enqueued split: option.splits)

lemmas lifecycle_cases = lifecycle_from_Waiting lifecycle_from_Held lifecycle_from_Gone
  lifecycle_from_Dead lifecycle.stay

lemma job_step_lifecycle:
  assumes "job_step db db'" and "store_ok db"
  shows "lifecycle (phase_of k db) (phase_of k db')"
  using assms
proof (induction rule: job_step.induct)
  case insert show ?case by (rule phase_insert)
next
  case claim show ?case
    by (auto simp: claim_def Let_def row_phase_def claim_row_def claim_where_def lifecycle_cases
        intro!: phase_update)
next
  case make_due show ?case
    by (auto simp: make_due_def Let_def row_phase_def lifecycle_cases intro!: phase_update
        split: job_status.splits)
next
  case delete then show ?case
    by (auto simp: delete_job_def row_phase_def held_by_def lifecycle_cases intro!: phase_delete)
next
  case reschedule show ?case
    by (auto simp: reschedule_def row_phase_def held_by_def row_defs lifecycle_cases
        intro!: phase_update)
next
  case fail show ?case
    by (auto simp: fail_job_def row_phase_def held_by_def row_defs lifecycle_cases
        intro!: phase_update)
next
  case set_arguments show ?case
    by (auto simp: set_arguments_def row_phase_def lifecycle_cases intro!: phase_update
        split: job_status.splits)
next
  case heartbeat show ?case
    by (auto simp: heartbeat_def row_phase_def lifecycle_cases intro!: phase_update
        split: job_status.splits)
next
  case recover show ?case
    by (auto simp: recover_def row_phase_def recover_where_def expired_def row_defs
        lifecycle_cases intro!: phase_update)
next
  case release show ?case
    by (auto simp: release_def Let_def row_phase_def row_defs lifecycle_cases
        intro!: phase_update)
next
  case retry_failed show ?case
    by (auto simp: retry_failed_def Let_def row_phase_def lifecycle_cases
        intro!: phase_update split: option.splits)
next
  case delete_failed then show ?case
    by (auto simp: delete_failed_def Let_def row_phase_def lifecycle_cases intro!: phase_delete)
qed

subsection \<open>Live claims over time\<close>

text \<open>A clock that does not run backwards.  The claims of queue \<open>q\<close> are made with concurrency at
  most \<open>c\<close>, and a heartbeat is prompt: it finds the leases it extends unexpired.\<close>

definition prompt_heartbeat :: "string \<Rightarrow> int list \<Rightarrow> timestamp \<Rightarrow> 'a jobs_db \<Rightarrow> bool" where
  "prompt_heartbeat runner ids t db \<longleftrightarrow>
     (\<forall>r \<in> set (rows db). heartbeat_where runner ids r \<longrightarrow> \<not> expired t r)"

inductive timed_step :: "string \<Rightarrow> nat \<Rightarrow> 'a jobs_db \<times> timestamp \<Rightarrow> 'a jobs_db \<times> timestamp \<Rightarrow> bool"
  for q c where
  insert: "now \<le> t \<Longrightarrow> timed_step q c (db, now) (snd (insert_job job t db), t)"
| claim: "now \<le> t \<Longrightarrow> t < lease \<Longrightarrow> (q' = q \<Longrightarrow> c' \<le> c) \<Longrightarrow>
     timed_step q c (db, now) (snd (claim q' c' n runner lease t db), t)"
| make_due: "now \<le> t \<Longrightarrow> timed_step q c (db, now) (snd (make_due ex q' cls path v t db), t)"
| delete: "now \<le> t \<Longrightarrow> timed_step q c (db, now) (snd (delete_job k runner db), t)"
| reschedule: "now \<le> t \<Longrightarrow> timed_step q c (db, now) (snd (reschedule k runner due e reset t db), t)"
| fail: "now \<le> t \<Longrightarrow> timed_step q c (db, now) (snd (fail_job k runner e t db), t)"
| heartbeat: "now \<le> t \<Longrightarrow> prompt_heartbeat runner ids t db \<Longrightarrow>
     timed_step q c (db, now) (snd (heartbeat runner ids lease t db), t)"
| recover: "now \<le> t \<Longrightarrow> timed_step q c (db, now) (snd (recover k retry e t db), t)"
| release: "now \<le> t \<Longrightarrow> timed_step q c (db, now) (snd (release runner t db), t)"

definition live_within :: "string \<Rightarrow> nat \<Rightarrow> 'a jobs_db \<times> timestamp \<Rightarrow> bool" where
  "live_within q c = (\<lambda>(db, now). store_ok db \<and> count_where (is_live q now) (rows db) \<le> c)"

lemma live_later: "now \<le> t \<Longrightarrow> count_where (is_live q t) rs \<le> count_where (is_live q now) rs"
  by (rule count_where_mono) (auto simp: is_live_def split: option.splits)

lemma live_update_le:
  assumes "\<And>r. r \<in> set rs \<Longrightarrow> P r \<Longrightarrow> is_live q t (f r) \<Longrightarrow> is_live q t r"
  shows "count_where (is_live q t) (update_where P f rs) \<le> count_where (is_live q t) rs"
  using assms by (induction rs) auto

lemma live_delete_le: "count_where (is_live q t) (delete_where P rs) \<le> count_where (is_live q t) rs"
  unfolding count_where_delete_where by (rule count_where_mono) simp

lemma live_statement_le:
  "count_where (is_live q t) (rows (snd (make_due ex q' cls path v t' db))) \<le> count_where (is_live q t) (rows db)"
  "count_where (is_live q t) (rows (snd (delete_job k runner db))) \<le> count_where (is_live q t) (rows db)"
  "count_where (is_live q t) (rows (snd (reschedule k runner due e' reset t' db))) \<le> count_where (is_live q t) (rows db)"
  "count_where (is_live q t) (rows (snd (fail_job k runner e t' db))) \<le> count_where (is_live q t) (rows db)"
  "count_where (is_live q t) (rows (snd (recover k retry e t' db))) \<le> count_where (is_live q t) (rows db)"
  "count_where (is_live q t) (rows (snd (release runner t' db))) \<le> count_where (is_live q t) (rows db)"
  by (auto simp: make_due_def delete_job_def reschedule_def fail_job_def recover_def release_def
      Let_def is_live_def row_defs intro!: live_update_le live_delete_le split: if_splits)

lemma live_within_le:
  assumes "live_within q c (db, now)" and "now \<le> t" and "store_ok db'"
    and "count_where (is_live q t) (rows db') \<le> count_where (is_live q t) (rows db)"
  shows "live_within q c (db', t)"
  using assms live_later[OF assms(2), of q "rows db"] by (simp add: live_within_def)

lemma live_within_ok: "live_within q c (db, now) \<Longrightarrow> store_ok db"
  by (simp add: live_within_def)

lemma live_insert [simp]:
  "count_where (is_live q t) (rows (snd (insert_job job now db))) = count_where (is_live q t) (rows db)"
  by (simp add: insert_job_def Let_def count_where_def is_live_def)

lemma live_heartbeat_le:
  assumes "prompt_heartbeat runner ids t db" and "store_ok db"
  shows "count_where (is_live q t) (rows (snd (heartbeat runner ids lease t db))) \<le>
    count_where (is_live q t) (rows db)"
proof -
  have "is_live q t r" if "r \<in> set (rows db)" "heartbeat_where runner ids r" "queue_name r = q" for r
  proof -
    have "row_ok r" using assms(2) that(1) by (rule store_okD)
    then show ?thesis
      using assms(1) that
      by (auto simp: prompt_heartbeat_def is_live_def expired_def heartbeat_where_def row_ok_def
          split: option.splits)
  qed
  then show ?thesis
    by (auto simp: heartbeat_def is_live_def intro!: live_update_le)
qed

lemma timed_step_live:
  assumes "timed_step q c s s'" and "live_within q c s"
  shows "live_within q c s'"
  using assms
proof (induction rule: timed_step.induct)
  case (claim now t lease q' c' db n runner)
  then have ok: "store_ok db" and le: "count_where (is_live q t) (rows db) \<le> c"
    using live_later[OF claim(1), of q "rows db"] by (auto simp: live_within_def)
  have "count_where (is_live q t) (rows (snd (claim q' c' n runner lease t db))) \<le> c"
  proof (cases "q' = q")
    case True
    have "length (fst (JobStore.claim q c' n runner lease t db)) \<le>
        c' - count_where (is_live q t) (rows db)"
      by (simp add: claim_rows_exact[OF ok] length_due_rows)
    with True claim(3) le show ?thesis by (simp add: live_after_claim[OF ok claim(2)])
  qed (use le in \<open>simp add: live_after_claim[OF ok claim(2)]\<close>)
  with ok show ?case by (simp add: live_within_def claim_ok)
next
  case (heartbeat now t runner ids db lease)
  then show ?case
    by (meson heartbeat_ok live_heartbeat_le live_within_le live_within_ok)
next
  case (insert now t db job)
  show ?case
  proof (rule live_within_le[OF insert(2,1)])
    show "store_ok (snd (insert_job job t db))"
      using insert(2) by (simp add: live_within_def insert_job_ok)
  qed simp
qed (meson statement_ok live_statement_le live_within_le live_within_ok)+

interpretation live_runs: invariant_system "timed_step q c" "live_within q c"
  by unfold_locales (rule timed_step_live)

subsection \<open>Executions against the policy's budget\<close>

text \<open>The steps of the runners as they compute them, for one class \<open>cls\<close> whose policy allows
  \<open>N\<close> executions: enqueueing, claiming, recording the outcome of the current execution
  (any result; for \<open>cls\<close> one that no exception group counts), heartbeats, recovering an expired
  claim with the verdict \<^verbatim>\<open>recover\<close> computes, handing back at shutdown, and the operator's
  retry and removal of failed jobs.\<close>

definition ungrouped :: "'e job_result \<Rightarrow> bool" where
  "ungrouped res \<longleftrightarrow> (\<forall>e k n x. res \<noteq> Inl (RetryGroup e k n x))"

definition plain_arguments :: "('a \<Rightarrow> string + json) \<Rightarrow> 'a \<Rightarrow> bool" where
  "plain_arguments parse a \<longleftrightarrow> rs_counts (state_from_value (parse_or_null parse a)) = []"

inductive run_step :: "('a \<Rightarrow> string + json) \<Rightarrow> (json \<Rightarrow> 'a) \<Rightarrow> ('e \<Rightarrow> string) \<Rightarrow> ('e, 'w) registry
    \<Rightarrow> job_queue \<Rightarrow> string \<Rightarrow> 'a jobs_db \<Rightarrow> 'a jobs_db \<Rightarrow> bool"
  for parse print describe reg jq cls where
  enqueue: "(req_class req = cls \<Longrightarrow> plain_arguments parse (print (req_arguments req))) \<Longrightarrow>
     run_step parse print describe reg jq cls db (snd (enqueue print jq req now db))"
| claim: "run_step parse print describe reg jq cls db (snd (claim q c n runner lease now db))"
| record_outcome: "r \<in> set (rows db) \<Longrightarrow> held_by k runner r \<Longrightarrow>
     registry_get reg (job_class r) = Some kd \<Longrightarrow> (job_class r = cls \<Longrightarrow> ungrouped res) \<Longrightarrow>
     decision_with_metadata parse print describe (kd_policy kd) (to_claimed r) res random =
       Returns (d, args) \<Longrightarrow>
     finish_write k runner d args (exhausted_cleanup parse reg (to_claimed r) res d) now (db, w) =
       Some (owned, db', w') \<Longrightarrow>
     run_step parse print describe reg jq cls db db'"
| heartbeat: "run_step parse print describe reg jq cls db (heartbeat_pass runner cfg ids now db)"
| recover: "r \<in> set (rows db) \<Longrightarrow> recovery_retry parse reg (to_orphan r) = (retry, msg) \<Longrightarrow>
     run_step parse print describe reg jq cls db (snd (recover (job_id r) retry msg now db))"
| release: "run_step parse print describe reg jq cls db (snd (shutdown_release runner now db))"
| retry_failed: "(\<And>job. find_job parse txt k db = Some job \<Longrightarrow>
       plain_arguments parse (print (arguments job))) \<Longrightarrow>
     run_step parse print describe reg jq cls db (snd (retry_failed parse txt print k now db))"
| delete_failed: "run_step parse print describe reg jq cls db (snd (delete_failed k db))"

definition row_in_budget :: "('a \<Rightarrow> string + json) \<Rightarrow> string \<Rightarrow> nat \<Rightarrow> 'a job_row \<Rightarrow> bool" where
  "row_in_budget parse cls N r \<longleftrightarrow> (job_class r = cls \<longrightarrow>
     plain_arguments parse (arguments r) \<and> attempts r \<le> N \<and> (status r = Ready \<longrightarrow> attempts r < N))"

definition within_budget :: "('a \<Rightarrow> string + json) \<Rightarrow> string \<Rightarrow> nat \<Rightarrow> 'a jobs_db \<Rightarrow> bool" where
  "within_budget parse cls N db \<longleftrightarrow> store_ok db \<and> (\<forall>r \<in> set (rows db). row_in_budget parse cls N r)"

lemma within_budgetI:
  "store_ok db \<Longrightarrow> (\<And>r. r \<in> set (rows db) \<Longrightarrow> row_in_budget parse cls N r) \<Longrightarrow> within_budget parse cls N db"
  by (simp add: within_budget_def)

lemma within_budgetD:
  assumes "within_budget parse cls N db"
  shows "store_ok db" and "r \<in> set (rows db) \<Longrightarrow> row_in_budget parse cls N r"
  using assms by (auto simp: within_budget_def)

lemma budget_update:
  assumes "within_budget parse cls N db" and "store_ok (db\<lparr>rows := update_where P f (rows db)\<rparr>)"
    and "\<And>r. r \<in> set (rows db) \<Longrightarrow> P r \<Longrightarrow> row_ok r \<Longrightarrow> row_in_budget parse cls N r \<Longrightarrow>
      row_in_budget parse cls N (f r)"
  shows "within_budget parse cls N (db\<lparr>rows := update_where P f (rows db)\<rparr>)"
  using assms
  by (auto simp: set_update_where within_budget_def intro!: within_budgetI dest: store_okD)

lemma budget_delete:
  "within_budget parse cls N db \<Longrightarrow> within_budget parse cls N (db\<lparr>rows := delete_where P (rows db)\<rparr>)"
  by (auto simp: within_budget_def store_ok_delete set_delete_where)

lemma decision_metadata_ungrouped:
  assumes "decision_with_metadata parse print describe p job res random = Returns (d, args)"
    and "ungrouped res" and "plain_arguments parse (cl_arguments job)"
  shows "args = None \<and> decide describe p (cl_attempts job) res random = Returns d"
  using assms
  by (auto simp: decision_with_metadata_def Let_def ungrouped_def plain_arguments_def
      eval_map_eq_Returns split: sum.splits job_error.splits outcome.splits)

lemma finish_write_db:
  assumes "finish_write k runner d args cleanup now (db, w) = Some (owned, db', w')"
  shows "db' = snd (apply_decision k runner d now
     (case args of None \<Rightarrow> db | Some a \<Rightarrow> set_arguments k runner a db))"
  using assms
  by (auto simp: finish_write_def Let_def split: option.splits prod.splits if_splits)

lemma apply_decision_ok: "store_ok db \<Longrightarrow> store_ok (snd (apply_decision k runner d now db))"
  by (cases d) (auto intro: statement_ok)

lemma held_unique:
  "store_ok db \<Longrightarrow> r \<in> set (rows db) \<Longrightarrow> held_by k runner r \<Longrightarrow> s \<in> set (rows db) \<Longrightarrow>
     held_by k runner s \<Longrightarrow> s = r"
  by (auto simp: held_by_def intro: jobs.keyed_unique dest: store_okD)

lemma budget_apply_other:
  assumes b: "within_budget parse cls N db"
    and other: "\<And>r. r \<in> set (rows db) \<Longrightarrow> held_by k runner r \<Longrightarrow> job_class r \<noteq> cls"
  shows "within_budget parse cls N (snd (apply_decision k runner d now db))"
proof -
  have ok: "store_ok db" using b by (rule within_budgetD)
  have up: "within_budget parse cls N (db\<lparr>rows := update_where (held_by k runner) f (rows db)\<rparr>)"
    if "\<And>r. job_class (f r) = job_class r"
      and "store_ok (db\<lparr>rows := update_where (held_by k runner) f (rows db)\<rparr>)" for f
    using b that other by (intro budget_update) (auto simp: row_in_budget_def)
  show ?thesis
  proof (cases d)
    case Delete
    then show ?thesis using b by (simp add: delete_job_def budget_delete)
  next
    case (Reschedule w e reset)
    then show ?thesis
      using up reschedule_ok[OF ok] by (simp add: reschedule_def reschedule_row_def)
  next
    case (FailFor e)
    then show ?thesis using up fail_job_ok[OF ok] by (simp add: fail_job_def fail_row_def)
  qed
qed

lemma budget_set_arguments_other:
  assumes b: "within_budget parse cls N db"
    and other: "\<And>r. r \<in> set (rows db) \<Longrightarrow> held_by k runner r \<Longrightarrow> job_class r \<noteq> cls"
  shows "within_budget parse cls N (set_arguments k runner a db) \<and>
    (\<forall>r \<in> set (rows (set_arguments k runner a db)). held_by k runner r \<longrightarrow> job_class r \<noteq> cls)"
proof
  show "within_budget parse cls N (set_arguments k runner a db)"
    using b other set_arguments_ok[OF within_budgetD(1)[OF b], of k runner a]
    unfolding set_arguments_def by (intro budget_update) (auto simp: row_in_budget_def)
  show "\<forall>r \<in> set (rows (set_arguments k runner a db)). held_by k runner r \<longrightarrow> job_class r \<noteq> cls"
  proof (intro ballI impI)
    fix r assume "r \<in> set (rows (set_arguments k runner a db))" and r: "held_by k runner r"
    then obtain s where s: "s \<in> set (rows db)"
      and eq: "r = (if held_by k runner s then s\<lparr>arguments := a\<rparr> else s)"
      by (auto simp: set_arguments_def update_where_def)
    from eq r have "held_by k runner s" by (auto split: if_splits)
    with other[OF s] eq show "job_class r \<noteq> cls" by simp
  qed
qed

lemma budget_apply_own:
  assumes b: "within_budget parse cls N db" and N: "0 < N"
    and retry: "\<And>w e. d = Reschedule w e False \<Longrightarrow>
      \<forall>r \<in> set (rows db). held_by k runner r \<longrightarrow> attempts r < N"
  shows "within_budget parse cls N (snd (apply_decision k runner d now db))"
proof -
  have ok: "store_ok db" using b by (rule within_budgetD)
  show ?thesis
  proof (cases d)
    case Delete
    then show ?thesis using b by (simp add: delete_job_def budget_delete)
  next
    case (Reschedule w e reset)
    have "within_budget parse cls N (snd (reschedule k runner due e reset now db))" for due
      unfolding reschedule_def snd_conv
    proof (rule budget_update[OF b])
      show "store_ok (db\<lparr>rows := update_where (held_by k runner)
          (reschedule_row due (map_option truncate_error e) reset now) (rows db)\<rparr>)"
        using reschedule_ok[OF ok] by (simp add: reschedule_def)
    qed (use N retry Reschedule in \<open>auto simp: row_in_budget_def reschedule_row_def\<close>)
    then show ?thesis unfolding Reschedule apply_decision.simps .
  next
    case (FailFor e)
    then show ?thesis
      using b fail_job_ok[OF ok, of k runner e now]
      by (auto simp: fail_job_def row_in_budget_def fail_row_def intro!: budget_update)
  qed
qed

lemma run_step_budget:
  assumes "run_step parse print describe reg jq cls db db'" and "within_budget parse cls N db"
    and kind: "registry_get reg cls = Some kd0" and N: "pol_attempts (kd_policy kd0) = N" "0 < N"
  shows "within_budget parse cls N db'"
  using assms(1,2)
proof (induction rule: run_step.induct)
  case (enqueue req db now)
  show ?case
  proof (rule within_budgetI)
    show "store_ok (snd (JobRunner.enqueue print jq req now db))"
      using enqueue(2) by (simp add: enqueue_def Let_def insert_job_ok within_budgetD(1))
  next
    fix r assume "r \<in> set (rows (snd (JobRunner.enqueue print jq req now db)))"
    then show "row_in_budget parse cls N r"
      using enqueue N(2) by (auto simp: enqueue_def Let_def insert_job_def within_budget_def
          row_in_budget_def)
  qed
next
  case (claim db q c n runner lease now)
  then show ?case
    using claim_ok[OF within_budgetD(1)[OF claim]]
    by (auto simp: claim_def Let_def row_in_budget_def claim_row_def claim_where_def
        intro!: budget_update)
next
  case (record_outcome r db k runner kd res random d args now w owned db' w')
  note ok = within_budgetD(1)[OF record_outcome(7)]
  note held = held_unique[OF ok record_outcome(1,2)]
  show ?case
  proof (cases "job_class r = cls")
    case True
    with record_outcome kind have kd: "kd = kd0" and "ungrouped res" by auto
    moreover have "plain_arguments parse (cl_arguments (to_claimed r))"
      using within_budgetD(2)[OF record_outcome(7,1)] True
      by (simp add: row_in_budget_def to_claimed_def)
    ultimately have a: "args = None"
      and d: "decide describe (kd_policy kd) (attempts r) res random = Returns d"
      using decision_metadata_ungrouped[OF record_outcome(5)] by (auto simp: to_claimed_def)
    have "attempts r < N" if "d = Reschedule wt e False" for wt e
      using decide_Reschedule[OF d[unfolded that]] \<open>ungrouped res\<close> N
      by (auto simp: kd ungrouped_def split: job_error.splits)
    then have "within_budget parse cls N (snd (apply_decision k runner d now db))"
      using record_outcome(7) N(2) held by (intro budget_apply_own) auto
    then show ?thesis using finish_write_db[OF record_outcome(6)] a by simp
  next
    case False
    with held have other: "\<And>s. s \<in> set (rows db) \<Longrightarrow> held_by k runner s \<Longrightarrow> job_class s \<noteq> cls"
      by blast
    define db1 where
      "db1 = (case args of None \<Rightarrow> db | Some a \<Rightarrow> set_arguments k runner a db)"
    have "within_budget parse cls N db1 \<and>
        (\<forall>s \<in> set (rows db1). held_by k runner s \<longrightarrow> job_class s \<noteq> cls)"
      using record_outcome(7) other budget_set_arguments_other[OF record_outcome(7) other, of k runner]
      by (auto simp: db1_def split: option.splits)
    then show ?thesis
      using finish_write_db[OF record_outcome(6)] budget_apply_other[of parse cls N db1 k runner d now]
      by (simp add: db1_def)
  qed
next
  case (heartbeat db runner cfg ids now)
  then show ?case
    using heartbeat_ok[OF within_budgetD(1)[OF heartbeat], of runner ids]
    by (auto simp: heartbeat_pass_def heartbeat_def row_in_budget_def heartbeat_where_def
        intro!: budget_update)
next
  case (recover r db retry msg now)
  have "retry \<longleftrightarrow> attempts r < N" if "job_class r = cls"
    using recover(2) within_budgetD(2)[OF recover(3,1)] that kind N
    by (auto simp: recovery_retry_def Let_def to_orphan_def row_in_budget_def plain_arguments_def
        interrupted_eq)
  note verdict = this
  have uniq: "s = r" if "s \<in> set (rows db)" "recover_where (job_id r) now s" for s
    using that recover(1) within_budgetD(1)[OF recover(3)]
    by (auto simp: recover_where_def intro: jobs.keyed_unique dest: store_okD)
  show ?case
    unfolding recover_def snd_conv
  proof (rule budget_update[OF recover(3)])
    show "store_ok (db\<lparr>rows := update_where (recover_where (job_id r) now)
        (recover_row retry msg now) (rows db)\<rparr>)"
      using recover_ok[OF within_budgetD(1)[OF recover(3)]] by (simp add: recover_def)
  next
    fix s assume "s \<in> set (rows db)" "recover_where (job_id r) now s" "row_in_budget parse cls N s"
    then show "row_in_budget parse cls N (recover_row retry msg now s)"
      using uniq[of s] verdict by (auto simp: row_in_budget_def recover_row_def)
  qed
next
  case (release db runner now)
  then show ?case
    using release_ok[OF within_budgetD(1)[OF release], of runner now]
    by (auto simp: shutdown_release_def release_def Let_def row_in_budget_def release_row_def
        row_ok_def intro!: budget_update)
next
  case (retry_failed "txt" k db now)
  then show ?case
    using retry_failed_ok[OF within_budgetD(1)[OF retry_failed(2)], of parse "txt" print k now] N(2)
    by (auto simp: retry_failed_def Let_def row_in_budget_def intro!: budget_update
        split: option.splits if_splits)
next
  case (delete_failed db k)
  then show ?case by (simp add: delete_failed_def Let_def budget_delete)
qed

definition budget_for :: "('e, 'w) registry \<Rightarrow> string \<Rightarrow> nat" where
  "budget_for reg cls = (case registry_get reg cls of None \<Rightarrow> 0 | Some k \<Rightarrow> pol_attempts (kd_policy k))"

text \<open>The invariant as the locale needs it: where the class is registered with a positive budget.\<close>

definition budget_kept :: "('a \<Rightarrow> string + json) \<Rightarrow> ('e, 'w) registry \<Rightarrow> string \<Rightarrow> 'a jobs_db \<Rightarrow> bool" where
  "budget_kept parse reg cls db \<longleftrightarrow> 0 < budget_for reg cls \<and> within_budget parse cls (budget_for reg cls) db"

interpretation budget_runs: invariant_system "run_step parse print describe reg jq cls" "budget_kept parse reg cls"
  by unfold_locales
     (auto simp: budget_kept_def budget_for_def intro: run_step_budget split: option.splits)

lemma job_steps_lifecycle:
  assumes "job_step\<^sup>*\<^sup>* db db'" and "store_ok db"
  shows "lifecycle\<^sup>*\<^sup>* (phase_of k db) (phase_of k db')"
  using assms
proof (induction rule: rtranclp_induct)
  case (step y z)
  have "store_ok y" using job_runs.inv_run step by blast
  then have "lifecycle (phase_of k y) (phase_of k z)" by (rule job_step_lifecycle[OF step(2)])
  with step show ?case by (meson rtranclp.rtrancl_into_rtrancl)
qed simp

subsection \<open>Properties of the system\<close>



text \<open>C1. Across runners, a queue never has more live claims than its concurrency: with a clock that
  does not go back, claims that ask for at most \<open>c\<close> jobs of queue \<open>q\<close> and heartbeats that come
  before the leases they extend run out, the jobs of \<open>q\<close> running under an unexpired lease are
  never more than \<open>c\<close>.\<close>

theorem live_claims_bounded:
  assumes "(timed_step q c)\<^sup>*\<^sup>* (db, now) (db', now')" and "store_ok db"
    and "count_where (is_live q now) (rows db) \<le> c"
  shows "count_where (is_live q now') (rows db') \<le> c"
proof -
  have "live_within q c (db, now)" using assms(2,3) by (simp add: live_within_def)
  from live_runs.inv_run[OF assms(1) this] show ?thesis by (simp add: live_within_def)
qed

theorem live_claims_bounded_witness:
  "count_where (is_live ''default'' 20) (rows (snd (claim ''default'' 2 9 ''v'' 60 20
     (snd (claim ''default'' 2 5 ''w'' 40 10 example_db))))) \<le> 2"
proof -
  let ?db = "snd (claim ''default'' 2 5 ''w'' 40 10 example_db)"
  have "timed_step ''default'' 2 (example_db, 10) (?db, 10)"
    and "timed_step ''default'' 2 (?db, 10) (snd (claim ''default'' 2 9 ''v'' 60 20 ?db), 20)"
    by (rule timed_step.claim; simp)+
  then have "(timed_step ''default'' 2)\<^sup>*\<^sup>* (example_db, 10) (snd (claim ''default'' 2 9 ''v'' 60 20 ?db), 20)"
    by (meson converse_rtranclp_into_rtranclp r_into_rtranclp)
  from live_claims_bounded[OF this example_db_ok] show ?thesis
    by (simp add: example_db_def example_row_def is_live_def)
qed


definition example_registry :: "(unit, unit) registry" where
  "example_registry = [(''J'', \<lparr>kd_queue = ''default'', kd_version = 1,
     kd_policy = application_job (\<lambda>_. [Elapsed]), kd_exhausted = False, kd_exhausted_in = None\<rparr>)]"

definition example_routes :: job_queue where
  "example_routes = \<lparr>jq_routes = [''J'' \<mapsto> \<lparr>rt_queue = ''default'', rt_version = 1\<rparr>],
     jq_wakers = [''default'']\<rparr>"

definition example_request :: job_request where
  "example_request = \<lparr>req_class = ''J'', req_arguments = JNull, req_wait = None\<rparr>"


text \<open>A heartbeat that comes after its lease ran out revives the claim without counting it: the
  runner \<open>w\<close> claims the one job a serial queue allows, its lease expires, \<open>v\<close> claims the next
  job, then \<open>w\<close>'s late heartbeat extends its own lease, and two jobs of the serial queue run
  under live leases.\<close>

theorem late_heartbeat_exceeds_concurrency:
  "let db1 = snd (claim ''default'' 1 5 ''w'' 40 10 example_db);
       db2 = snd (claim ''default'' 1 5 ''v'' 80 50 db1);
       db3 = snd (heartbeat ''w'' [2] 81 51 db2)
   in count_where (is_live ''default'' 10) (rows db1) = 1 \<and>
      count_where (is_live ''default'' 50) (rows db2) = 1 \<and>
      count_where (is_live ''default'' 51) (rows db3) = 2"
  by code_simp

text \<open>A runner that loses a claim to a recovery and then claims the same job again cannot tell the
  two executions apart: the ownership test is the job's id and the runner's name, so the first
  execution's completion deletes the job while the second one holds it.\<close>

theorem stale_execution_completes_for_same_runner:
  "let db1 = snd (claim ''default'' 1 5 ''w'' 40 10 example_db);
       db2 = snd (recover 2 True ''stopped'' 50 db1);
       (second, db3) = claim ''default'' 3 5 ''w'' 90 60 db2
   in 2 \<in> cl_id ` set second \<and> fst (delete_job 2 ''w'' db3) \<and>
      phase_of 2 (snd (delete_job 2 ''w'' db3)) = Gone"
  by code_simp

end
