(* ===== verification/JobClaims.thy ===== *)
theory JobClaims
  imports Prelude
begin

section \<open>Conditional claims and JSON leases\<close>

text \<open>
  \<^verbatim>\<open>crates/jobs/src/claims.rs\<close>: the conditional UPDATE that domain code claims rows with, the
  stuck-claim sweep, and the lease kept in a JSON column.

  A SQL fragment is modelled by its meaning: a condition is the set of rows it is true of, an
  expression the value it has on the row before the update.  A row is its id and its columns.
  The members of a JSON object that a lease reads are strings, so a JSON cell is a map from
  paths to strings.  \<open>stamp\<close> and \<open>to_db\<close> stand for the formatting of an instant by the
  time library; the theorems about leases assume of \<open>stamp\<close> that its texts sort like the
  instants, which the source relies on.
\<close>

datatype cell = CNull | CInt int | CText string | CJson "string \<rightharpoonup> string"

record table_row =
  tr_id :: int
  tr_cols :: "string \<Rightarrow> cell"

interpretation claim_rows: keyed_table tr_id .

subsection \<open>The conditional UPDATE\<close>

record conditional_update =
  cu_sets :: "(string \<times> (table_row \<Rightarrow> cell)) list"
  cu_conditions :: "(table_row \<Rightarrow> bool) list"

definition cu_table :: conditional_update where
  "cu_table = \<lparr>cu_sets = [], cu_conditions = []\<rparr>"

definition set_sql :: "string \<Rightarrow> (table_row \<Rightarrow> cell) \<Rightarrow> conditional_update \<Rightarrow> conditional_update" where
  "set_sql column expression u = u\<lparr>cu_sets := cu_sets u @ [(column, expression)]\<rparr>"

definition cu_set :: "string \<Rightarrow> cell \<Rightarrow> conditional_update \<Rightarrow> conditional_update" where
  "cu_set column v u = set_sql column (\<lambda>_. v) u"

definition cu_condition :: "(table_row \<Rightarrow> bool) \<Rightarrow> conditional_update \<Rightarrow> conditional_update" where
  "cu_condition c u = u\<lparr>cu_conditions := cu_conditions u @ [c]\<rparr>"

definition cu_id :: "int \<Rightarrow> conditional_update \<Rightarrow> conditional_update" where
  "cu_id k u = cu_condition (\<lambda>r. tr_id r = k) u"

definition cu_matches :: "conditional_update \<Rightarrow> table_row \<Rightarrow> bool" where
  "cu_matches u r = list_all (\<lambda>c. c r) (cu_conditions u)"

text \<open>Every expression is evaluated on the row before the update; of two assignments to one
  column the last stands.\<close>

definition cu_apply :: "conditional_update \<Rightarrow> table_row \<Rightarrow> table_row" where
  "cu_apply u r = r\<lparr>tr_cols := fold (\<lambda>(c, e) cols. cols(c := e r)) (cu_sets u) (tr_cols r)\<rparr>"

definition cu_execute :: "conditional_update \<Rightarrow> table_row list \<Rightarrow> (nat \<times> table_row list) eval_result" where
  "cu_execute u rs =
     (if cu_sets u = [] then Panics
      else Returns (count_where (cu_matches u) rs, update_where (cu_matches u) (cu_apply u) rs))"

definition cu_claim :: "conditional_update \<Rightarrow> table_row list \<Rightarrow> (bool \<times> table_row list) eval_result" where
  "cu_claim u rs = eval_map (\<lambda>(n, rs'). (n = 1, rs')) (cu_execute u rs)"

definition returning_ids :: "conditional_update \<Rightarrow> table_row list \<Rightarrow> (int list \<times> table_row list) eval_result" where
  "returning_ids u rs =
     (if cu_sets u = [] then Panics
      else Returns (sort (map tr_id (filter (cu_matches u) rs)),
                    update_where (cu_matches u) (cu_apply u) rs))"

text \<open>A comparison with text, as SQLite orders values: no value is smaller than NULL or
  compares with it, numbers come before text, and JSON text starts with a brace, which sorts
  after every digit.\<close>

fun cell_less :: "cell \<Rightarrow> string \<Rightarrow> bool" where
  "cell_less CNull t = False"
| "cell_less (CInt _) t = True"
| "cell_less (CText s) t = (s < t)"
| "cell_less (CJson _) t = False"

definition unclaimed_before :: "(timestamp \<Rightarrow> string) \<Rightarrow> string \<Rightarrow> timestamp \<Rightarrow> table_row \<Rightarrow> bool" where
  "unclaimed_before to_db column cutoff r \<longleftrightarrow>
     tr_cols r column = CNull \<or> cell_less (tr_cols r column) (to_db cutoff)"

subsection \<open>The JSON lease\<close>

record json_lease =
  jl_column :: string
  jl_stamp_path :: string
  jl_token_path :: string
  jl_heartbeat_column :: "string option"
  jl_stale_after :: int

definition json_extract :: "json_lease \<Rightarrow> string \<Rightarrow> table_row \<Rightarrow> string option" where
  "json_extract l path r = (case tr_cols r (jl_column l) of CJson m \<Rightarrow> m path | _ \<Rightarrow> None)"

fun json_set :: "(string \<times> string) list \<Rightarrow> cell \<Rightarrow> cell" where
  "json_set kvs (CJson m) = CJson (m ++ map_of (rev kvs))"
| "json_set kvs c = c"

fun json_remove :: "string list \<Rightarrow> cell \<Rightarrow> cell" where
  "json_remove ks (CJson m) = CJson (\<lambda>k. if k \<in> set ks then None else m k)"
| "json_remove ks c = c"

definition touch :: "(timestamp \<Rightarrow> string) \<Rightarrow> json_lease \<Rightarrow> timestamp \<Rightarrow> conditional_update \<Rightarrow> conditional_update" where
  "touch to_db l now u =
     cu_set ''updated_at'' (CText (to_db now))
       (case jl_heartbeat_column l of Some c \<Rightarrow> cu_set c (CText (to_db now)) u | None \<Rightarrow> u)"

definition acquire :: "(timestamp \<Rightarrow> string) \<Rightarrow> (timestamp \<Rightarrow> string) \<Rightarrow> json_lease \<Rightarrow> int \<Rightarrow> (table_row \<Rightarrow> bool)
    \<Rightarrow> string \<Rightarrow> timestamp \<Rightarrow> table_row list \<Rightarrow> (string option \<times> table_row list) eval_result" where
  "acquire to_db stamp l k cond token now rs =
     eval_map (\<lambda>(won, rs'). (if won then Some token else None, rs'))
       (cu_claim
         (cu_condition cond
           (cu_condition (\<lambda>r. case json_extract l (jl_stamp_path l) r of None \<Rightarrow> True
                             | Some s \<Rightarrow> s \<le> stamp (ago now (jl_stale_after l)))
             (cu_id k
               (set_sql (jl_column l)
                 (\<lambda>r. json_set [(jl_stamp_path l, stamp now), (jl_token_path l, token)]
                        (tr_cols r (jl_column l)))
                 (touch to_db l now cu_table))))) rs)"

definition refresh :: "(timestamp \<Rightarrow> string) \<Rightarrow> (timestamp \<Rightarrow> string) \<Rightarrow> json_lease \<Rightarrow> int \<Rightarrow> string
    \<Rightarrow> timestamp \<Rightarrow> table_row list \<Rightarrow> (bool \<times> table_row list) eval_result" where
  "refresh to_db stamp l k token now rs =
     (if blank token then Returns (False, rs)
      else cu_claim
        (cu_condition (\<lambda>r. json_extract l (jl_token_path l) r = Some token)
          (cu_id k
            (set_sql (jl_column l)
              (\<lambda>r. json_set [(jl_stamp_path l, stamp now)] (tr_cols r (jl_column l)))
              (touch to_db l now cu_table)))) rs)"

definition release_lease :: "(timestamp \<Rightarrow> string) \<Rightarrow> json_lease \<Rightarrow> int \<Rightarrow> string \<Rightarrow> timestamp
    \<Rightarrow> table_row list \<Rightarrow> (bool \<times> table_row list) eval_result" where
  "release_lease to_db l k token now rs =
     (if blank token then Returns (False, rs)
      else cu_claim
        (cu_condition (\<lambda>r. json_extract l (jl_token_path l) r = Some token)
          (cu_id k
            (cu_set ''updated_at'' (CText (to_db now))
              (set_sql (jl_column l)
                (\<lambda>r. json_remove [jl_stamp_path l, jl_token_path l] (tr_cols r (jl_column l)))
                cu_table)))) rs)"

definition fresh :: "(timestamp \<Rightarrow> string) \<Rightarrow> json_lease \<Rightarrow> timestamp \<Rightarrow> table_row \<Rightarrow> bool" where
  "fresh stamp l now r \<longleftrightarrow>
     (case json_extract l (jl_stamp_path l) r of None \<Rightarrow> False
      | Some s \<Rightarrow> stamp (ago now (jl_stale_after l)) < s)"

definition is_fresh :: "(timestamp \<Rightarrow> string) \<Rightarrow> json_lease \<Rightarrow> int \<Rightarrow> timestamp \<Rightarrow> table_row list \<Rightarrow> bool" where
  "is_fresh stamp l k now rs = list_ex (\<lambda>r. tr_id r = k \<and> fresh stamp l now r) rs"

subsection \<open>Claims by id\<close>

lemma cu_id_apply [simp]: "tr_id (cu_apply u r) = tr_id r"
  by (simp add: cu_apply_def)

lemma cu_claim_by_id:
  assumes "claim_rows.keyed rs" and "cu_sets u \<noteq> []" and "\<And>r. cu_matches u r \<Longrightarrow> tr_id r = k"
  shows "cu_claim u rs = Returns (case claim_rows.find_row k rs of
      None \<Rightarrow> (False, rs)
    | Some r \<Rightarrow> if cu_matches u r then (True, update_where (\<lambda>s. tr_id s = k) (cu_apply u) rs)
               else (False, rs))"
proof (cases "\<exists>r \<in> set rs. cu_matches u r")
  case True
  then obtain r where r: "r \<in> set rs" "cu_matches u r" by auto
  have k: "tr_id r = k" using assms(3) r(2) by simp
  then have f: "claim_rows.find_row k rs = Some r"
    using claim_rows.find_row_Some_iff[OF assms(1)] r by simp
  have "s = r" if "s \<in> set rs" "tr_id s = k" for s
    using claim_rows.keyed_unique[OF assms(1) that(1) r(1)] k that by simp
  then have "cu_matches u s \<longleftrightarrow> tr_id s = k" if "s \<in> set rs" for s
    using that assms(3) r(2) by auto
  then have "update_where (cu_matches u) (cu_apply u) rs = update_where (\<lambda>s. tr_id s = k) (cu_apply u) rs"
    by (simp add: update_where_def)
  moreover have "count_where (cu_matches u) rs = 1"
    using True claim_rows.count_where_key_eq_1[OF assms(1,3)] by simp
  ultimately show ?thesis using f r(2) assms(2) by (simp add: cu_claim_def cu_execute_def)
next
  case False
  then have z: "count_where (cu_matches u) rs = 0" by (simp add: count_where_eq_0)
  have "\<not> cu_matches u r" if "claim_rows.find_row k rs = Some r" for r
    using that False claim_rows.find_row_Some_iff[OF assms(1)] by auto
  then show ?thesis
    using z assms(2) update_where_none[OF z]
    by (auto simp: cu_claim_def cu_execute_def split: option.splits)
qed

text \<open>The builder's parts, as rewrite rules.\<close>

lemma cu_build [simp]:
  "cu_sets (cu_condition c u) = cu_sets u" "cu_sets (cu_id k u) = cu_sets u"
  "cu_sets (set_sql col e u) = cu_sets u @ [(col, e)]"
  "cu_sets (cu_set col v u) = cu_sets u @ [(col, \<lambda>_. v)]"
  "cu_sets cu_table = []"
  "cu_matches (cu_condition c u) r \<longleftrightarrow> cu_matches u r \<and> c r"
  "cu_matches (cu_id k u) r \<longleftrightarrow> cu_matches u r \<and> tr_id r = k"
  "cu_matches (set_sql col e u) r = cu_matches u r"
  "cu_matches (cu_set col v u) r = cu_matches u r"
  "cu_matches cu_table r"
  by (auto simp: cu_condition_def cu_id_def set_sql_def cu_set_def cu_table_def cu_matches_def)

lemma touch_build [simp]:
  "cu_sets (touch to_db l now u) = cu_sets u @
     (case jl_heartbeat_column l of Some c \<Rightarrow> [(c, \<lambda>_. CText (to_db now))] | None \<Rightarrow> []) @
     [(''updated_at'', \<lambda>_. CText (to_db now))]"
  "cu_matches (touch to_db l now u) r = cu_matches u r"
  by (auto simp: touch_def split: option.splits)

lemma cu_apply_col:
  "tr_cols (cu_apply u r) c =
     (case map_of (rev (cu_sets u)) c of Some e \<Rightarrow> e r | None \<Rightarrow> tr_cols r c)"
proof -
  have "fold (\<lambda>(c, e) cols. cols(c := e r)) ss cols c =
      (case map_of (rev ss) c of Some e \<Rightarrow> e r | None \<Rightarrow> cols c)" for ss cols
    by (induction ss arbitrary: cols) (auto simp: map_add_def split: option.splits)
  then show ?thesis by (simp add: cu_apply_def)
qed

subsection \<open>The lease of a row\<close>

text \<open>What the lease assumes of its description: its columns and paths are different.\<close>

definition lease_described :: "json_lease \<Rightarrow> bool" where
  "lease_described l \<longleftrightarrow> jl_column l \<noteq> ''updated_at'' \<and> jl_heartbeat_column l \<noteq> Some (jl_column l) \<and>
     jl_stamp_path l \<noteq> jl_token_path l"

definition json_members :: "json_lease \<Rightarrow> table_row \<Rightarrow> (string \<rightharpoonup> string) option" where
  "json_members l r = (case tr_cols r (jl_column l) of CJson m \<Rightarrow> Some m | _ \<Rightarrow> None)"

lemma json_extract_members: "json_extract l p r = (case json_members l r of None \<Rightarrow> None | Some m \<Rightarrow> m p)"
  by (simp add: json_extract_def json_members_def split: cell.splits)

lemma json_members_set [simp]:
  "json_members l (r\<lparr>tr_cols := c\<rparr>) = (case c (jl_column l) of CJson m \<Rightarrow> Some m | _ \<Rightarrow> None)"
  by (simp add: json_members_def)

definition members_at :: "json_lease \<Rightarrow> int \<Rightarrow> table_row list \<Rightarrow> (string \<rightharpoonup> string) option" where
  "members_at l k rs = (case claim_rows.find_row k rs of None \<Rightarrow> None | Some r \<Rightarrow> json_members l r)"

text \<open>An UPDATE of row \<open>k\<close> that assigns the JSON column.\<close>

lemma members_at_update:
  assumes "members_at l k rs = Some m"
    and "map_of (rev (cu_sets u)) (jl_column l) = Some (\<lambda>r. e (tr_cols r (jl_column l)))"
    and "e (CJson m) = CJson m'"
  shows "members_at l k (update_where (\<lambda>s. tr_id s = k) (cu_apply u) rs) = Some m'"
  using assms
  by (auto simp: members_at_def claim_rows.find_row_update json_members_def cu_apply_col
      dest: claim_rows.find_row_key split: option.splits cell.splits)

definition claimable :: "(timestamp \<Rightarrow> string) \<Rightarrow> json_lease \<Rightarrow> timestamp \<Rightarrow> (string \<rightharpoonup> string) \<Rightarrow> bool" where
  "claimable stamp l now m \<longleftrightarrow>
     (case m (jl_stamp_path l) of None \<Rightarrow> True | Some s \<Rightarrow> s \<le> stamp (ago now (jl_stale_after l)))"

lemma json_set_one [simp]: "json_set [(p, v)] (CJson m) = CJson (m(p \<mapsto> v))"
  by simp

lemma json_set_two: "json_set [(p, v), (q, w)] (CJson m) = CJson (m(p \<mapsto> v, q \<mapsto> w))"
  by simp

text \<open>The three statements on the members of the row, for a lease on a JSON object.\<close>

lemma acquire_members:
  assumes l: "lease_described l" and k: "claim_rows.keyed rs"
    and r: "claim_rows.find_row k rs = Some r" and m: "json_members l r = Some m"
  shows "acquire to_db stamp l k cond token now rs =
      Returns (None, rs) \<and> \<not> (claimable stamp l now m \<and> cond r) \<or>
    (\<exists>rs'. acquire to_db stamp l k cond token now rs = Returns (Some token, rs') \<and>
       claimable stamp l now m \<and> cond r \<and> claim_rows.keyed rs' \<and>
       members_at l k rs' = Some (m(jl_stamp_path l \<mapsto> stamp now, jl_token_path l \<mapsto> token)))"
proof -
  let ?u = "cu_condition cond
           (cu_condition (\<lambda>r. case json_extract l (jl_stamp_path l) r of None \<Rightarrow> True
                             | Some s \<Rightarrow> s \<le> stamp (ago now (jl_stale_after l)))
             (cu_id k
               (set_sql (jl_column l)
                 (\<lambda>r. json_set [(jl_stamp_path l, stamp now), (jl_token_path l, token)]
                        (tr_cols r (jl_column l)))
                 (touch to_db l now cu_table))))"
  have match: "cu_matches ?u r \<longleftrightarrow> claimable stamp l now m \<and> cond r"
    using claim_rows.find_row_key[OF r] m by (auto simp: claimable_def json_extract_members)
  have "members_at l k (update_where (\<lambda>s. tr_id s = k) (cu_apply ?u) rs) =
      Some (m(jl_stamp_path l \<mapsto> stamp now, jl_token_path l \<mapsto> token))"
    by (rule members_at_update[where e = "json_set [(jl_stamp_path l, stamp now), (jl_token_path l, token)]"])
       (use r m in \<open>simp_all add: members_at_def\<close>)
  then show ?thesis
    using cu_claim_by_id[OF k, of ?u k] r match
    by (auto simp: acquire_def claim_rows.keyed_update k)
qed

lemma refresh_members:
  assumes l: "lease_described l" and k: "claim_rows.keyed rs" and m: "members_at l k rs = Some m"
  shows "refresh to_db stamp l k token now rs =
      Returns (False, rs) \<and> \<not> (\<not> blank token \<and> m (jl_token_path l) = Some token) \<or>
    (\<exists>rs'. refresh to_db stamp l k token now rs = Returns (True, rs') \<and>
       \<not> blank token \<and> m (jl_token_path l) = Some token \<and> claim_rows.keyed rs' \<and>
       members_at l k rs' = Some (m(jl_stamp_path l \<mapsto> stamp now)))"
proof -
  obtain r where r: "claim_rows.find_row k rs = Some r" and mr: "json_members l r = Some m"
    using m by (auto simp: members_at_def split: option.splits)
  let ?u = "cu_condition (\<lambda>r. json_extract l (jl_token_path l) r = Some token)
          (cu_id k
            (set_sql (jl_column l)
              (\<lambda>r. json_set [(jl_stamp_path l, stamp now)] (tr_cols r (jl_column l)))
              (touch to_db l now cu_table)))"
  have match: "cu_matches ?u r \<longleftrightarrow> m (jl_token_path l) = Some token"
    using claim_rows.find_row_key[OF r] mr by (auto simp: json_extract_members)
  have "members_at l k (update_where (\<lambda>s. tr_id s = k) (cu_apply ?u) rs) =
      Some (m(jl_stamp_path l \<mapsto> stamp now))"
    by (rule members_at_update[where e = "json_set [(jl_stamp_path l, stamp now)]"]) (use m in simp_all)
  then show ?thesis
    using cu_claim_by_id[OF k, of ?u k] r match
    by (auto simp: refresh_def claim_rows.keyed_update k)
qed

lemma release_members:
  assumes l: "lease_described l" and k: "claim_rows.keyed rs" and m: "members_at l k rs = Some m"
  shows "release_lease to_db l k token now rs =
      Returns (False, rs) \<and> \<not> (\<not> blank token \<and> m (jl_token_path l) = Some token) \<or>
    (\<exists>rs'. release_lease to_db l k token now rs = Returns (True, rs') \<and>
       \<not> blank token \<and> m (jl_token_path l) = Some token \<and> claim_rows.keyed rs' \<and>
       members_at l k rs' = Some (m(jl_stamp_path l := None, jl_token_path l := None)))"
proof -
  obtain r where r: "claim_rows.find_row k rs = Some r" and mr: "json_members l r = Some m"
    using m by (auto simp: members_at_def split: option.splits)
  let ?u = "cu_condition (\<lambda>r. json_extract l (jl_token_path l) r = Some token)
          (cu_id k
            (cu_set ''updated_at'' (CText (to_db now))
              (set_sql (jl_column l)
                (\<lambda>r. json_remove [jl_stamp_path l, jl_token_path l] (tr_cols r (jl_column l)))
                cu_table)))"
  have match: "cu_matches ?u r \<longleftrightarrow> m (jl_token_path l) = Some token"
    using claim_rows.find_row_key[OF r] mr by (auto simp: json_extract_members)
  have col: "jl_column l \<noteq> ''updated_at''" using l by (simp add: lease_described_def)
  have "members_at l k (update_where (\<lambda>s. tr_id s = k) (cu_apply ?u) rs) =
      Some (m(jl_stamp_path l := None, jl_token_path l := None))"
    by (rule members_at_update[where e = "json_remove [jl_stamp_path l, jl_token_path l]"])
       (use m col in \<open>auto simp: fun_eq_iff\<close>)
  then show ?thesis
    using cu_claim_by_id[OF k, of ?u k] r match
    by (auto simp: release_lease_def claim_rows.keyed_update k)
qed

lemma is_fresh_members:
  assumes "claim_rows.keyed rs" and "members_at l k rs = Some m"
  shows "is_fresh stamp l k now rs \<longleftrightarrow> (case m (jl_stamp_path l) of None \<Rightarrow> False
      | Some s \<Rightarrow> stamp (ago now (jl_stale_after l)) < s)"
proof -
  obtain r where r: "r \<in> set rs" "tr_id r = k" "json_members l r = Some m"
    using assms claim_rows.find_row_Some_iff[OF assms(1)]
    by (auto simp: members_at_def split: option.splits)
  then have "is_fresh stamp l k now rs = fresh stamp l now r"
    using claim_rows.keyed_unique[OF assms(1)] by (auto simp: is_fresh_def list_ex_iff)
  with r(3) show ?thesis by (simp add: fresh_def json_extract_members)
qed

text \<open>The instants whose stamps sort like them: from the epoch to the end of the year 9999, the
  last with a four-digit year.\<close>

definition stamp_range :: "timestamp \<Rightarrow> bool" where
  "stamp_range t \<longleftrightarrow> 0 \<le> t \<and> t < 253402300800000000"

definition stamps_sort :: "(timestamp \<Rightarrow> string) \<Rightarrow> bool" where
  "stamps_sort stamp \<longleftrightarrow>
     (\<forall>a b. stamp_range a \<and> stamp_range b \<longrightarrow> (stamp a < stamp b \<longleftrightarrow> a < b))"

subsection \<open>Properties of leases\<close>

text \<open>A lease is single-flight: once \<open>token\<close> has acquired or renewed the lease of a row at
  instant \<open>t\<close>, no other job acquires it before it has gone stale, and a failed acquisition
  changes nothing.\<close>

theorem lease_single_flight:
  assumes sorted: "stamps_sort stamp"
    and range: "stamp_range t" "stamp_range now" "stamp_range (ago now (jl_stale_after l))"
    and l: "lease_described l" and k: "claim_rows.keyed rs"
    and row: "claim_rows.find_row k rs = Some r" and m: "json_members l r = Some m"
    and held: "m (jl_stamp_path l) = Some (stamp t)"
    and won: "acquire to_db stamp l k cond token now rs = Returns (Some tok, rs')"
  shows "t \<le> ago now (jl_stale_after l) \<and> \<not> is_fresh stamp l k now rs \<and>
    is_fresh stamp l k now rs' = (now > ago now (jl_stale_after l)) \<and>
    members_at l k rs' = Some (m(jl_stamp_path l \<mapsto> stamp now, jl_token_path l \<mapsto> tok))"
proof -
  let ?stale = "ago now (jl_stale_after l)"
  have c: "claimable stamp l now m"
    and rs': "tok = token" "claim_rows.keyed rs'"
      "members_at l k rs' = Some (m(jl_stamp_path l \<mapsto> stamp now, jl_token_path l \<mapsto> token))"
    using acquire_members[OF l k row m, of to_db stamp cond token now] won by auto
  have "\<not> stamp ?stale < stamp t" using c held by (auto simp: claimable_def)
  then have "t \<le> ?stale" and later: "stamp ?stale < stamp now \<longleftrightarrow> ?stale < now"
    using sorted range by (auto simp: stamps_sort_def)
  moreover have "\<not> is_fresh stamp l k now rs"
    using is_fresh_members[OF k, of l k m] row m held c by (auto simp: members_at_def claimable_def)
  moreover have "jl_stamp_path l \<noteq> jl_token_path l" using l by (simp add: lease_described_def)
  ultimately show ?thesis using is_fresh_members[OF rs'(2,3)] rs' by simp
qed

definition example_lease :: json_lease where
  "example_lease = \<lparr>jl_column = ''state'', jl_stamp_path = ''$.at'', jl_token_path = ''$.token'',
     jl_heartbeat_column = Some ''heartbeat_at'', jl_stale_after = 5000\<rparr>"

definition example_stamp :: "timestamp \<Rightarrow> string" where
  "example_stamp t = replicate (nat t) (CHR ''a'')"

definition example_leased :: "table_row" where
  "example_leased = \<lparr>tr_id = 7, tr_cols = (\<lambda>_. CNull)(''state'' :=
     CJson [''$.at'' \<mapsto> example_stamp 3, ''$.token'' \<mapsto> ''t1'', ''$.step'' \<mapsto> ''users''])\<rparr>"

lemma example_stamps_sort: "stamps_sort example_stamp"
proof -
  have "replicate i (CHR ''a'') < replicate j (CHR ''a'') \<longleftrightarrow> i < j" for i j
  proof (induction i arbitrary: j)
    case 0 show ?case by (cases j) simp_all
  next
    case (Suc i) then show ?case by (cases j) simp_all
  qed
  then show ?thesis by (auto simp: stamps_sort_def stamp_range_def example_stamp_def)
qed

lemma example_lease_facts:
  "lease_described example_lease" "claim_rows.keyed [example_leased]"
  "claim_rows.find_row 7 [example_leased] = Some example_leased"
  "json_members example_lease example_leased =
     Some [''$.at'' \<mapsto> example_stamp 3, ''$.token'' \<mapsto> ''t1'', ''$.step'' \<mapsto> ''users'']"
  by (simp_all add: lease_described_def example_lease_def claim_rows.keyed_def
      claim_rows.find_row_def example_leased_def json_members_def)

lemma example_acquire:
  "\<exists>rs'. acquire (\<lambda>_. ''now'') example_stamp example_lease 7 (\<lambda>_. True) ''t2'' 8 [example_leased] =
     Returns (Some ''t2'', rs')"
proof -
  have "example_stamp 3 \<le> example_stamp (ago 8 5000)"
    by (simp add: example_stamp_def ago_def numeral_eq_Suc)
  then have "claimable example_stamp example_lease 8
      [''$.at'' \<mapsto> example_stamp 3, ''$.token'' \<mapsto> ''t1'', ''$.step'' \<mapsto> ''users'']"
    by (simp add: claimable_def example_lease_def)
  with acquire_members[OF example_lease_facts, of "\<lambda>_. ''now''" example_stamp "\<lambda>_. True" "''t2''" 8]
  show ?thesis by auto
qed

theorem lease_single_flight_witness:
  "\<exists>rs'. acquire (\<lambda>_. ''now'') example_stamp example_lease 7 (\<lambda>_. True) ''t2'' 8 [example_leased] =
       Returns (Some ''t2'', rs') \<and> (3::int) \<le> ago 8 5000 \<and> is_fresh example_stamp example_lease 7 8 rs'"
proof -
  obtain rs' where a: "acquire (\<lambda>_. ''now'') example_stamp example_lease 7 (\<lambda>_. True) ''t2'' 8
      [example_leased] = Returns (Some ''t2'', rs')" using example_acquire by blast
  have range: "stamp_range 3" "stamp_range 8" "stamp_range (ago 8 (jl_stale_after example_lease))"
    by (simp_all add: stamp_range_def example_lease_def ago_def)
  show ?thesis
    using lease_single_flight[OF example_stamps_sort range example_lease_facts _ a] a
    by (simp add: example_lease_def ago_def)
qed

text \<open>A lease taken over is lost: after another job acquired the lease, the earlier holder's
  renewal and release change nothing and report failure, while the new holder's release frees the
  row for an acquisition at any later instant.\<close>

theorem lease_taken_over:
  assumes l: "lease_described l" and k: "claim_rows.keyed rs"
    and row: "claim_rows.find_row k rs = Some r" and m: "json_members l r = Some m"
    and won: "acquire to_db stamp l k cond token now rs = Returns (Some token, rs')"
    and other: "old \<noteq> token" and real_token: "\<not> blank token"
  shows "refresh to_db stamp l k old t rs' = Returns (False, rs') \<and>
    release_lease to_db l k old t rs' = Returns (False, rs') \<and>
    (\<exists>rs''. release_lease to_db l k token t rs' = Returns (True, rs'') \<and>
       (\<exists>rs3. acquire to_db stamp l k (\<lambda>_. True) token2 t2 rs'' = Returns (Some token2, rs3)))"
proof -
  let ?m = "m(jl_stamp_path l \<mapsto> stamp now, jl_token_path l \<mapsto> token)"
  have k': "claim_rows.keyed rs'" and m': "members_at l k rs' = Some ?m"
    using acquire_members[OF l k row m, of to_db stamp cond token now] won by auto
  have "refresh to_db stamp l k old t rs' = Returns (False, rs')"
    using refresh_members[OF l k' m', of to_db stamp old t] other by auto
  moreover have "release_lease to_db l k old t rs' = Returns (False, rs')"
    using release_members[OF l k' m', of to_db old t] other by auto
  moreover obtain rs'' where rel: "release_lease to_db l k token t rs' = Returns (True, rs'')"
    and k'': "claim_rows.keyed rs''"
    and m'': "members_at l k rs'' = Some (?m(jl_stamp_path l := None, jl_token_path l := None))"
    using release_members[OF l k' m', of to_db token t] real_token by auto
  moreover obtain r2 where "claim_rows.find_row k rs'' = Some r2"
    and "json_members l r2 = Some (?m(jl_stamp_path l := None, jl_token_path l := None))"
    using m'' by (auto simp: members_at_def split: option.splits)
  from acquire_members[OF l k'' this, of to_db stamp "\<lambda>_. True" token2 t2]
  have "\<exists>rs3. acquire to_db stamp l k (\<lambda>_. True) token2 t2 rs'' = Returns (Some token2, rs3)"
    by (auto simp: claimable_def split: if_splits)
  ultimately show ?thesis by blast
qed

theorem lease_taken_over_witness:
  "\<exists>rs'. acquire (\<lambda>_. ''now'') example_stamp example_lease 7 (\<lambda>_. True) ''t2'' 8 [example_leased] =
       Returns (Some ''t2'', rs') \<and>
     refresh (\<lambda>_. ''now'') example_stamp example_lease 7 ''t1'' 9 rs' = Returns (False, rs')"
proof -
  obtain rs' where a: "acquire (\<lambda>_. ''now'') example_stamp example_lease 7 (\<lambda>_. True) ''t2'' 8
      [example_leased] = Returns (Some ''t2'', rs')" using example_acquire by blast
  have "\<not> blank ''t2''" by (simp add: blank_def is_space_def)
  with lease_taken_over[OF example_lease_facts a, of "''t1''" 9] a show ?thesis by auto
qed

end
