(* ===== verification/Periodic.thy ===== *)
theory Periodic
  imports JobRetry
begin

section \<open>Periodic tasks\<close>

text \<open>
  \<^verbatim>\<open>crates/jobs/src/periodic.rs\<close>: named tasks, each with an interval, run by one loop.  A task's
  callable is not part of the crate, so a tick is given, for every task name, how its callable
  would end (\<open>task_end\<close>); a task made by \<^verbatim>\<open>Task::once\<close> carries its \<open>done\<close> flag.  \<open>tick\<close>
  also reports which callables it really called, which the source does not return.
\<close>

datatype task_end = TaskOk | TaskErr string | TaskPanic string

record task =
  tk_name :: string
  tk_interval :: duration
  tk_once :: "bool option"

definition task_new :: "string \<Rightarrow> duration \<Rightarrow> task" where
  "task_new name interval = \<lparr>tk_name = name, tk_interval = interval, tk_once = None\<rparr>"

definition task_once :: "string \<Rightarrow> duration \<Rightarrow> task" where
  "task_once name interval = \<lparr>tk_name = name, tk_interval = interval, tk_once = Some False\<rparr>"

text \<open>One call of a task's closure: how it ends, whether the callable was called, and the task
  afterwards.\<close>

definition call_task :: "task \<Rightarrow> task_end \<Rightarrow> task_end \<times> bool \<times> task" where
  "call_task t e =
     (case tk_once t of
        None \<Rightarrow> (e, True, t)
      | Some True \<Rightarrow> (TaskOk, False, t)
      | Some False \<Rightarrow> (e, True, if e = TaskOk then t\<lparr>tk_once := Some True\<rparr> else t))"

record periodic =
  pd_tasks :: "task list"
  pd_last_run :: "string \<rightharpoonup> timestamp"

definition periodic_new :: periodic where
  "periodic_new = \<lparr>pd_tasks = [], pd_last_run = Map.empty\<rparr>"

definition add_task :: "task \<Rightarrow> periodic \<Rightarrow> periodic eval_result" where
  "add_task t p =
     (if list_all (\<lambda>t'. tk_name t' \<noteq> tk_name t) (pd_tasks p)
      then Returns (p\<lparr>pd_tasks := pd_tasks p @ [t]\<rparr>) else Panics)"

definition tick_interval :: "periodic \<Rightarrow> duration option" where
  "tick_interval p =
     (case map tk_interval (pd_tasks p) of [] \<Rightarrow> None | i # is \<Rightarrow> Some (fold min is i))"

definition due :: "timestamp option \<Rightarrow> duration \<Rightarrow> timestamp \<Rightarrow> bool" where
  "due prev interval now =
     (case prev of None \<Rightarrow> True | Some t \<Rightarrow> since t (signed interval) \<le> now)"

definition run_task :: "task \<Rightarrow> task_end \<Rightarrow> bool \<times> bool \<times> task" where
  "run_task t e = (case call_task t e of (r, called, t') \<Rightarrow> (r = TaskOk, called, t'))"

text \<open>The loop of \<^verbatim>\<open>tick\<close> over the remaining tasks.\<close>

fun tick_tasks :: "(string \<Rightarrow> task_end) \<Rightarrow> timestamp \<Rightarrow> task list \<Rightarrow> (string \<rightharpoonup> timestamp)
    \<Rightarrow> string list \<times> string list \<times> task list \<times> (string \<rightharpoonup> timestamp)" where
  "tick_tasks res now [] prev = ([], [], [], prev)"
| "tick_tasks res now (t # ts) prev =
     (if \<not> due (prev (tk_name t)) (tk_interval t) now
      then (let (names, called, ts', prev') = tick_tasks res now ts prev in (names, called, t # ts', prev'))
      else (let (ok, c, t') = run_task t (res (tk_name t));
                (names, called, ts', prev') =
                  tick_tasks res now ts (if ok then prev(tk_name t \<mapsto> now) else prev)
            in (tk_name t # names, (if c then tk_name t # called else called), t' # ts', prev')))"

definition tick :: "(string \<Rightarrow> task_end) \<Rightarrow> timestamp \<Rightarrow> periodic \<Rightarrow> string list \<times> string list \<times> periodic" where
  "tick res now p =
     (let (names, called, ts, prev) = tick_tasks res now (pd_tasks p) (pd_last_run p)
      in (names, called, p\<lparr>pd_tasks := ts, pd_last_run := prev\<rparr>))"

text \<open>The spawned loop up to its stop: the clock reading and the callables' ends of each tick.  A
  loop without tasks ends at once.\<close>

fun ticks :: "(timestamp \<times> (string \<Rightarrow> task_end)) list \<Rightarrow> periodic
    \<Rightarrow> (timestamp \<times> string list \<times> string list) list \<times> periodic" where
  "ticks [] p = ([], p)"
| "ticks ((now, res) # rest) p =
     (let (names, called, p') = tick res now p;
          (trace, p'') = ticks rest p'
      in ((now, names, called) # trace, p''))"

definition spawn_loop :: "(timestamp \<times> (string \<Rightarrow> task_end)) list \<Rightarrow> periodic
    \<Rightarrow> (timestamp \<times> string list \<times> string list) list" where
  "spawn_loop env p = (case tick_interval p of None \<Rightarrow> [] | Some _ \<Rightarrow> fst (ticks env p))"

text \<open>\<^verbatim>\<open>parse_interval\<close>: \<open>parsed\<close> is what the trimmed text parses to as a float, \<open>Some None\<close>
  for an infinity or a NaN; \<open>None\<close> is the error.\<close>

definition parse_interval :: "rat option option \<Rightarrow> duration option" where
  "parse_interval parsed =
     (case parsed of
        Some (Some secs) \<Rightarrow> if 0 < secs then (case from_secs secs of Returns d \<Rightarrow> Some d | Panics \<Rightarrow> None)
                            else None
      | _ \<Rightarrow> None)"

definition interval_from_env :: "(string \<Rightarrow> string option) \<Rightarrow> (string \<Rightarrow> rat option option) \<Rightarrow> string
    \<Rightarrow> duration \<Rightarrow> duration option" where
  "interval_from_env lookup parse name fallback =
     (case lookup name of Some v \<Rightarrow> parse_interval (parse v) | None \<Rightarrow> Some fallback)"

subsection \<open>One tick\<close>

definition tasks_ok :: "task list \<Rightarrow> bool" where
  "tasks_ok ts \<longleftrightarrow> distinct (map tk_name ts)"

definition succeeds :: "(string \<Rightarrow> task_end) \<Rightarrow> task \<Rightarrow> bool" where
  "succeeds res t \<longleftrightarrow> tk_once t = Some True \<or> res (tk_name t) = TaskOk"

definition marked :: "(string \<Rightarrow> task_end) \<Rightarrow> timestamp \<Rightarrow> (string \<rightharpoonup> timestamp) \<Rightarrow> task \<Rightarrow> task" where
  "marked res now prev t =
     (if due (prev (tk_name t)) (tk_interval t) now \<and> tk_once t = Some False \<and>
         res (tk_name t) = TaskOk then t\<lparr>tk_once := Some True\<rparr> else t)"

lemma marked_same [simp]:
  "tk_name (marked res now prev t) = tk_name t" "tk_interval (marked res now prev t) = tk_interval t"
  by (simp_all add: marked_def)

lemma run_task_ok: "fst (run_task t (res (tk_name t))) = succeeds res t"
  by (auto simp: run_task_def call_task_def succeeds_def split: option.splits bool.splits)

lemma run_task_called: "fst (snd (run_task t e)) \<longleftrightarrow> tk_once t \<noteq> Some True"
  by (auto simp: run_task_def call_task_def split: option.splits bool.splits)

lemma run_task_task: "snd (snd (run_task t e)) =
  (if tk_once t = Some False \<and> e = TaskOk then t\<lparr>tk_once := Some True\<rparr> else t)"
  by (auto simp: run_task_def call_task_def split: option.splits bool.splits)

lemma tick_tasks_spec:
  assumes "tasks_ok ts"
  shows "tick_tasks res now ts prev =
    (let D = filter (\<lambda>t. due (prev (tk_name t)) (tk_interval t) now) ts
     in (map tk_name D,
         map tk_name (filter (\<lambda>t. tk_once t \<noteq> Some True) D),
         map (marked res now prev) ts,
         (\<lambda>n. if \<exists>t \<in> set D. tk_name t = n \<and> succeeds res t then Some now else prev n)))"
  using assms
proof (induction ts arbitrary: prev)
  case (Cons t ts)
  obtain ok c t' where run: "run_task t (res (tk_name t)) = (ok, c, t')" by (metis prod_cases3)
  have r: "ok = succeeds res t" "c = (tk_once t \<noteq> Some True)"
    "t' = (if tk_once t = Some False \<and> res (tk_name t) = TaskOk then t\<lparr>tk_once := Some True\<rparr> else t)"
    using run_task_ok[of t res] run_task_called[of t "res (tk_name t)"]
      run_task_task[of t "res (tk_name t)"] unfolding run by auto
  have fresh: "tk_name t \<notin> tk_name ` set ts" and ok': "tasks_ok ts"
    using Cons.prems by (auto simp: tasks_ok_def)
  define prev1 where "prev1 = (if ok then prev(tk_name t \<mapsto> now) else prev)"
  have same: "prev1 (tk_name x) = prev (tk_name x)" if "x \<in> set ts" for x
  proof -
    have "tk_name x \<noteq> tk_name t" using that fresh by (metis image_eqI)
    then show ?thesis by (simp add: prev1_def)
  qed
  have m: "map (marked res now prev1) ts = map (marked res now prev) ts"
    by (rule map_cong[OF refl]) (simp only: marked_def same)
  have f: "filter (\<lambda>x. due (prev1 (tk_name x)) (tk_interval x) now) ts =
      filter (\<lambda>x. due (prev (tk_name x)) (tk_interval x) now) ts" (is "_ = ?D")
    by (rule filter_cong) (simp_all only: same)
  have IH: "tick_tasks res now ts prev1 = (map tk_name ?D, map tk_name (filter (\<lambda>t. tk_once t \<noteq> Some True) ?D),
      map (marked res now prev) ts,
      (\<lambda>n. if \<exists>t \<in> set ?D. tk_name t = n \<and> succeeds res t then Some now else prev1 n))"
    using Cons.IH[OF ok', of prev1] unfolding f m Let_def .
  show ?case
  proof (cases "due (prev (tk_name t)) (tk_interval t) now")
    case True
    have step: "tick_tasks res now (t # ts) prev =
        (let (names, called, ts', prev') = tick_tasks res now ts prev1
         in (tk_name t # names, (if c then tk_name t # called else called), t' # ts', prev'))"
      using True by (simp add: run prev1_def)
    have "t' = marked res now prev t" using True by (simp add: r marked_def)
    then show ?thesis
      unfolding step IH using True by (auto simp: Let_def fun_eq_iff prev1_def r(1,2))
  next
    case False
    then show ?thesis using Cons.IH[OF ok', of prev] by (simp add: Let_def fun_eq_iff marked_def[of _ _ _ t])
  qed
qed (simp add: Let_def)

lemma tick_spec:
  assumes "tasks_ok (pd_tasks p)" and "tick res now p = (names, called, p')"
  shows "names = map tk_name (filter (\<lambda>t. due (pd_last_run p (tk_name t)) (tk_interval t) now) (pd_tasks p))"
    and "called = map tk_name (filter (\<lambda>t. due (pd_last_run p (tk_name t)) (tk_interval t) now \<and>
           tk_once t \<noteq> Some True) (pd_tasks p))"
    and "pd_tasks p' = map (marked res now (pd_last_run p)) (pd_tasks p)"
    and "pd_last_run p' n = (if \<exists>t \<in> set (pd_tasks p). tk_name t = n \<and> succeeds res t \<and>
           due (pd_last_run p n) (tk_interval t) now then Some now else pd_last_run p n)"
  using assms(2)
  by (auto simp: tick_def tick_tasks_spec[OF assms(1)] Let_def conj_commute)

lemma tick_ok: "tasks_ok (pd_tasks p) \<Longrightarrow> tick res now p = (names, called, p') \<Longrightarrow> tasks_ok (pd_tasks p')"
  by (simp add: tick_spec(3) tasks_ok_def comp_def)

lemma tick_keeps_intervals:
  assumes "tasks_ok (pd_tasks p)" and "tick res now p = (names, called, p')"
  shows "(\<exists>t \<in> set (pd_tasks p'). tk_name t = n \<and> tk_interval t = i) \<longleftrightarrow>
    (\<exists>t \<in> set (pd_tasks p). tk_name t = n \<and> tk_interval t = i)"
  by (auto simp: tick_spec(3)[OF assms])

subsection \<open>Runs of the loop\<close>

text \<open>When task \<open>n\<close> names successfully, from the loop's environment and trace: the instants at
  which its last run was recorded.\<close>

fun recorded :: "string \<Rightarrow> (timestamp \<times> (string \<Rightarrow> task_end)) list \<Rightarrow> periodic \<Rightarrow> timestamp list" where
  "recorded n [] p = []"
| "recorded n ((now, res) # rest) p =
     (let p' = snd (snd (tick res now p)) in
      (if \<exists>t \<in> set (pd_tasks p). tk_name t = n \<and> succeeds res t \<and>
            due (pd_last_run p n) (tk_interval t) now
       then [now] else []) @ recorded n rest p')"

fun called_ok :: "string \<Rightarrow> (timestamp \<times> (string \<Rightarrow> task_end)) list \<Rightarrow> periodic \<Rightarrow> nat" where
  "called_ok n [] p = 0"
| "called_ok n ((now, res) # rest) p =
     (case tick res now p of (names, called, p') \<Rightarrow>
        (if n \<in> set called \<and> res n = TaskOk then 1 else 0) + called_ok n rest p')"

lemma same_task:
  "tasks_ok ts \<Longrightarrow> t \<in> set ts \<Longrightarrow> t' \<in> set ts \<Longrightarrow> tk_name t = tk_name t' \<Longrightarrow> t = t'"
  by (auto simp: tasks_ok_def distinct_map dest: inj_onD)

lemma recorded_spaced:
  assumes "tasks_ok (pd_tasks p)" and "\<exists>t \<in> set (pd_tasks p). tk_name t = n \<and> tk_interval t = i"
  shows "sorted_wrt (\<lambda>a b. since a (signed i) \<le> b)
    ((case pd_last_run p n of None \<Rightarrow> [] | Some t \<Rightarrow> [t]) @ recorded n env p)"
  using assms
proof (induction env arbitrary: p)
  case Nil
  then show ?case by (simp split: option.splits)
next
  case (Cons e env)
  obtain now res where e: "e = (now, res)" by force
  obtain names called p' where tk: "tick res now p = (names, called, p')" by (metis prod_cases3)
  have IH: "sorted_wrt (\<lambda>a b. since a (signed i) \<le> b)
      ((case pd_last_run p' n of None \<Rightarrow> [] | Some t \<Rightarrow> [t]) @ recorded n env p')"
    using Cons tk tick_ok tick_keeps_intervals by blast
  let ?fires = "\<exists>t \<in> set (pd_tasks p). tk_name t = n \<and> succeeds res t \<and> due (pd_last_run p n) (tk_interval t) now"
  note last_run = tick_spec(4)[OF Cons.prems(1) tk, of n]
  show ?case
  proof (cases ?fires)
    case True
    then have new: "pd_last_run p' n = Some now" by (simp add: last_run)
    have d: "due (pd_last_run p n) i now"
      using True Cons.prems same_task[OF Cons.prems(1)] by blast
    have "since t (signed i) \<le> x" if "pd_last_run p n = Some t" "x \<in> set (now # recorded n env p')" for t x
    proof -
      have t: "since t (signed i) \<le> now" using d that(1) by (simp add: due_def)
      have "now \<le> x"
        using IH that(2) by (auto simp: new intro: order_trans[OF since_signed_ge])
      with t show ?thesis by simp
    qed
    then show ?thesis using IH True by (auto simp: e tk new split: option.splits)
  next
    case False
    then have "pd_last_run p' n = pd_last_run p n" unfolding last_run by (rule if_not_P)
    then show ?thesis using IH False by (simp only: e tk recorded.simps Let_def if_not_P snd_conv) simp
  qed
qed

lemma called_once_bound:
  assumes "tasks_ok (pd_tasks p)" and "t \<in> set (pd_tasks p)" and "tk_name t = n" and "tk_once t = Some d"
  shows "called_ok n env p \<le> (if d then 0 else 1)"
  using assms
proof (induction env arbitrary: p t d)
  case (Cons e env)
  obtain now res where e: "e = (now, res)" by force
  obtain names called p' where tk: "tick res now p = (names, called, p')" by (metis prod_cases3)
  let ?f = "marked res now (pd_last_run p)"
  have in': "?f t \<in> set (pd_tasks p')" using Cons.prems by (simp add: tick_spec(3)[OF Cons.prems(1) tk])
  have called: "n \<in> set called \<longleftrightarrow> due (pd_last_run p n) (tk_interval t) now \<and> \<not> d"
  proof -
    have "x = t" if "x \<in> set (pd_tasks p)" "tk_name x = n" for x
      using same_task[OF Cons.prems(1) that(1) Cons.prems(2)] that(2) Cons.prems(3) by simp
    moreover have "n \<in> set called \<longleftrightarrow> (\<exists>x \<in> set (pd_tasks p). tk_name x = n \<and>
        due (pd_last_run p (tk_name x)) (tk_interval x) now \<and> tk_once x \<noteq> Some True)"
      unfolding tick_spec(2)[OF Cons.prems(1) tk] by auto
    ultimately have "n \<in> set called \<longleftrightarrow> due (pd_last_run p (tk_name t)) (tk_interval t) now \<and> tk_once t \<noteq> Some True"
      using Cons.prems(2,3) by metis
    then show ?thesis using Cons.prems(3,4) by simp
  qed
  have ok: "tasks_ok (pd_tasks p')" using tick_ok[OF Cons.prems(1) tk] .
  show ?case
  proof (cases "n \<in> set called \<and> res n = TaskOk")
    case True
    then have "called_ok n env p' \<le> 0"
      using Cons.IH[OF ok in', of True] Cons.prems called by (simp add: marked_def)
    with True called show ?thesis by (simp add: e tk)
  next
    case False
    then have "tk_once (?f t) = Some d" "tk_name (?f t) = n" using Cons.prems called by (auto simp: marked_def)
    with Cons.IH[OF ok in'] False show ?thesis by (cases d) (auto simp: e tk)
  qed
qed simp

subsection \<open>Properties of periodic tasks\<close>


definition example_periodic :: periodic where
  "example_periodic = \<lparr>pd_tasks = [task_new ''sweep'' 5000, task_once ''clear'' 9000],
     pd_last_run = [''sweep'' \<mapsto> 1]\<rparr>"


text \<open>The successful runs of a task are at least its interval apart, whatever the clock and the
  callables do.\<close>

theorem periodic_runs_spaced:
  assumes "tasks_ok (pd_tasks p)" and "t \<in> set (pd_tasks p)"
  shows "sorted_wrt (\<lambda>a b. since a (signed (tk_interval t)) \<le> b) (recorded (tk_name t) env p)"
proof -
  have "\<exists>s \<in> set (pd_tasks p). tk_name s = tk_name t \<and> tk_interval s = tk_interval t"
    using assms(2) by blast
  from recorded_spaced[OF assms(1) this, of env] show ?thesis by (simp add: sorted_wrt_append)
qed

theorem periodic_runs_spaced_witness:
  "recorded ''sweep'' [(3, \<lambda>_. TaskOk), (6, \<lambda>_. TaskOk), (8, \<lambda>_. TaskOk), (20, \<lambda>_. TaskOk)] example_periodic = [6, 20] \<and>
   sorted_wrt (\<lambda>a b. since a (signed 5000) \<le> b)
     (recorded ''sweep'' [(3, \<lambda>_. TaskOk), (6, \<lambda>_. TaskOk), (8, \<lambda>_. TaskOk), (20, \<lambda>_. TaskOk)] example_periodic)"
proof -
  have ok: "tasks_ok (pd_tasks example_periodic)"
    by (simp add: tasks_ok_def example_periodic_def task_new_def task_once_def)
  have t: "task_new ''sweep'' 5000 \<in> set (pd_tasks example_periodic)" by (simp add: example_periodic_def)
  have "recorded ''sweep'' [(3, \<lambda>_. TaskOk), (6, \<lambda>_. TaskOk), (8, \<lambda>_. TaskOk), (20, \<lambda>_. TaskOk)]
      example_periodic = [6, 20]"
    by (simp add: example_periodic_def task_new_def task_once_def tick_def run_task_def call_task_def
        succeeds_def due_def since_def signed_def Let_def)
  moreover have "tk_name (task_new ''sweep'' 5000) = ''sweep''" "tk_interval (task_new ''sweep'' 5000) = 5000"
    by (simp_all add: task_new_def)
  ultimately show ?thesis
    using periodic_runs_spaced[OF ok t, of "[(3, \<lambda>_. TaskOk), (6, \<lambda>_. TaskOk), (8, \<lambda>_. TaskOk), (20, \<lambda>_. TaskOk)]"]
    by presburger
qed

text \<open>A task made to run once succeeds at most once: over any number of ticks its callable is
  called to success at most one time.\<close>

theorem once_succeeds_at_most_once:
  assumes "tasks_ok (pd_tasks p)" and "task_once n i \<in> set (pd_tasks p)"
  shows "called_ok n env p \<le> 1"
  using called_once_bound[OF assms, of n False env] by (simp add: task_once_def)

theorem once_succeeds_at_most_once_witness:
  "called_ok ''clear'' [(3, \<lambda>_. TaskPanic ''x''), (6, \<lambda>_. TaskOk), (80, \<lambda>_. TaskOk)] example_periodic \<le> 1"
proof (rule once_succeeds_at_most_once)
  show "tasks_ok (pd_tasks example_periodic)"
    by (simp add: tasks_ok_def example_periodic_def task_new_def task_once_def)
  show "task_once ''clear'' 9000 \<in> set (pd_tasks example_periodic)" by (simp add: example_periodic_def)
qed

end
