(* ===== verification/SyncRing.thy ===== *)
theory SyncRing
  imports Prelude
begin

section \<open>The replay ring of the sync socket\<close>

text \<open>
  \<^verbatim>\<open>crates/cable/src/sync.rs\<close>: the bounded ring of sequenced events that the connections of the
  single-page app's sync socket read with a cursor of their own, and the fences that refuse
  stale publications.

  Sequence numbers (\<^verbatim>\<open>u64\<close>, one per publication) and instants (nanoseconds of a monotonic
  clock) are \<open>nat\<close>.  \<open>json_string\<close> stands for serde's writer of a JSON string.
\<close>

subsection \<open>Settings, audiences and events\<close>

record sync_config =
  ring_capacity :: nat
  ring_max_age :: duration
  flush_interval :: duration
  flush_max :: nat
  ping_after :: duration
  hello_timeout :: duration
  client_timeout :: duration
  max_topics :: nat

definition default_sync_config :: sync_config where
  "default_sync_config = \<lparr>ring_capacity = 20000, ring_max_age = 900 * 10 ^ 9,
     flush_interval = 25 * 10 ^ 6, flush_max = 64, ping_after = 15 * 10 ^ 9,
     hello_timeout = 10 * 10 ^ 9, client_timeout = 90 * 10 ^ 9, max_topics = 256\<rparr>"

datatype audience = User int | Everyone | Topic string

definition user_topic :: string where
  "user_topic = ''user''"

fun audience_topic :: "audience \<Rightarrow> string" where
  "audience_topic (User _) = user_topic"
| "audience_topic Everyone = user_topic"
| "audience_topic (Topic t) = t"

record sync_publication =
  pb_audience :: audience
  pb_payload :: string
  pb_personalized :: "(int set \<times> string) option"
  pb_except_user :: "int option"
  pb_coalesce :: "string option"
  pb_unsubscribe :: "string option"
  pb_ephemeral :: bool

definition publication_new :: "audience \<Rightarrow> string \<Rightarrow> sync_publication" where
  "publication_new a payload = \<lparr>pb_audience = a, pb_payload = payload, pb_personalized = None,
     pb_except_user = None, pb_coalesce = None, pb_unsubscribe = None, pb_ephemeral = False\<rparr>"

record entry =
  en_seq :: nat
  en_audience :: audience
  en_except_user :: "int option"
  en_coalesce :: "string option"
  en_unsubscribe :: "string option"
  en_ephemeral :: bool
  en_at :: nat
  en_json :: string
  en_personalized :: "(int set \<times> string) option"
  en_gap :: bool

definition delivered_to :: "entry \<Rightarrow> int \<Rightarrow> (string \<Rightarrow> bool) \<Rightarrow> bool" where
  "delivered_to e user follows \<longleftrightarrow>
     (if en_except_user e = Some user then False
      else case en_audience e of User k \<Rightarrow> k = user | Everyone \<Rightarrow> True | Topic t \<Rightarrow> follows t)"

definition json_for :: "entry \<Rightarrow> int \<Rightarrow> string" where
  "json_for e user =
     (case en_personalized e of
        Some (users, json) \<Rightarrow> if user \<in> users then json else en_json e
      | None \<Rightarrow> en_json e)"

text \<open>\<^verbatim>\<open>encode_event\<close> panics on a payload that is no JSON object.\<close>

definition encode_event :: "(string \<Rightarrow> string) \<Rightarrow> nat \<Rightarrow> string \<Rightarrow> string \<Rightarrow> string eval_result" where
  "encode_event json_string seq topic payload =
     (case trim_start payload of
        [] \<Rightarrow> Panics
      | c # members \<Rightarrow>
          if c \<noteq> CHR ''{'' then Panics
          else (let separator = (case trim_start members of
                        [] \<Rightarrow> '','' | d # _ \<Rightarrow> if d = CHR ''}'' then '''' else '','')
                in Returns (CHR ''{'' # [CHR 0x22] @ ''seq'' @ [CHR 0x22] @ '':'' @ string_of_nat seq @
                     '','' @ [CHR 0x22] @ ''topic'' @ [CHR 0x22] @ '':'' @ json_string topic @
                     separator @ members)))"

subsection \<open>The ring\<close>

record ring =
  rg_config :: sync_config
  rg_epoch :: string
  rg_entries :: "entry list"
  rg_head :: nat
  rg_evicted_through :: nat
  rg_handed_out :: bool

datatype ring_read = Events "entry list" nat | Lost nat

definition ring_new :: "sync_config \<Rightarrow> string \<Rightarrow> ring" where
  "ring_new cfg epoch = \<lparr>rg_config = cfg, rg_epoch = epoch, rg_entries = [], rg_head = 0,
     rg_evicted_through = 0, rg_handed_out = False\<rparr>"

fun evict_entries :: "nat \<Rightarrow> duration \<Rightarrow> nat \<Rightarrow> entry list \<Rightarrow> nat \<Rightarrow> entry list \<times> nat" where
  "evict_entries capacity age now [] through = ([], through)"
| "evict_entries capacity age now (front # es) through =
     (if length (front # es) \<le> capacity \<and> \<not> age < now - en_at front then (front # es, through)
      else evict_entries capacity age now es (en_seq front))"

definition evict :: "nat \<Rightarrow> ring \<Rightarrow> ring" where
  "evict now r =
     (let (es, through) = evict_entries (ring_capacity (rg_config r)) (ring_max_age (rg_config r)) now
                            (rg_entries r) (rg_evicted_through r)
      in r\<lparr>rg_entries := es, rg_evicted_through := through\<rparr>)"

definition append_entry :: "entry \<Rightarrow> nat \<Rightarrow> ring \<Rightarrow> ring" where
  "append_entry e now r = evict now (r\<lparr>rg_entries := rg_entries r @ [e], rg_head := en_seq e\<rparr>)"

definition entry_of :: "(string \<Rightarrow> string) \<Rightarrow> nat \<Rightarrow> nat \<Rightarrow> sync_publication \<Rightarrow> entry eval_result" where
  "entry_of json_string now seq p =
     (case encode_event json_string seq (audience_topic (pb_audience p)) (pb_payload p) of
        Panics \<Rightarrow> Panics
      | Returns json \<Rightarrow>
         (case (case pb_personalized p of
                  None \<Rightarrow> Returns None
                | Some (users, payload) \<Rightarrow>
                    eval_map (\<lambda>j. Some (users, j))
                      (encode_event json_string seq (audience_topic (pb_audience p)) payload)) of
            Panics \<Rightarrow> Panics
          | Returns pers \<Rightarrow>
              Returns \<lparr>en_seq = seq, en_audience = pb_audience p, en_except_user = pb_except_user p,
                en_coalesce = pb_coalesce p, en_unsubscribe = pb_unsubscribe p,
                en_ephemeral = pb_ephemeral p, en_at = now, en_json = json,
                en_personalized = pers, en_gap = False\<rparr>))"

definition push :: "(string \<Rightarrow> string) \<Rightarrow> nat \<Rightarrow> nat \<Rightarrow> sync_publication \<Rightarrow> ring \<Rightarrow> ring eval_result" where
  "push json_string now seq p r = eval_map (\<lambda>e. append_entry e now r) (entry_of json_string now seq p)"

definition gap_entry :: "nat \<Rightarrow> nat \<Rightarrow> int \<Rightarrow> entry" where
  "gap_entry now seq user = \<lparr>en_seq = seq, en_audience = User user, en_except_user = None,
     en_coalesce = None, en_unsubscribe = None, en_ephemeral = False, en_at = now, en_json = '''',
     en_personalized = None, en_gap = True\<rparr>"

definition push_gap :: "nat \<Rightarrow> nat \<Rightarrow> int \<Rightarrow> ring \<Rightarrow> ring" where
  "push_gap now seq user r = append_entry (gap_entry now seq user) now r"

definition ring_read :: "nat \<Rightarrow> nat \<Rightarrow> ring \<Rightarrow> ring_read \<times> ring" where
  "ring_read now cursor r =
     (let r' = evict now r in
      (if cursor < rg_evicted_through r' then Lost (rg_head r')
       else Events (dropWhile (\<lambda>e. en_seq e \<le> cursor) (rg_entries r')) (rg_head r'), r'))"

definition gap_needed :: "ring \<Rightarrow> bool" where
  "gap_needed r \<longleftrightarrow> rg_handed_out r \<or> rg_entries r \<noteq> []"

definition skip :: "nat \<Rightarrow> ring \<Rightarrow> ring" where
  "skip seq r = r\<lparr>rg_entries := [], rg_head := seq, rg_evicted_through := seq, rg_handed_out := False\<rparr>"

definition resume :: "nat \<Rightarrow> (string \<times> int) option \<Rightarrow> ring \<Rightarrow> (nat \<times> bool) \<times> ring" where
  "resume now point r =
     (let r' = (evict now r)\<lparr>rg_handed_out := True\<rparr> in
      (case point of
         Some (epoch, seq) \<Rightarrow>
           if epoch = rg_epoch r' \<and> 0 \<le> seq \<and> nat seq \<le> rg_head r' \<and> rg_evicted_through r' \<le> nat seq
           then (nat seq, True) else (rg_head r', False)
       | None \<Rightarrow> (rg_head r', False), r'))"

subsection \<open>Fences\<close>

record fences =
  fn_latest :: "(string \<times> nat) list"
  fn_forgotten_through :: nat

definition fences_empty :: fences where
  "fences_empty = \<lparr>fn_latest = [], fn_forgotten_through = 0\<rparr>"

definition fence_limit :: nat where
  "fence_limit = 4096"

text \<open>\<^verbatim>\<open>select_nth_unstable(LIMIT / 2)\<close> yields the element at that position of the sorted values;
  the hash map is an association list without repeated keys.\<close>

definition fence_record :: "string \<Rightarrow> nat \<Rightarrow> fences \<Rightarrow> fences" where
  "fence_record key seq f =
     (let f' = (if fence_limit \<le> length (fn_latest f) \<and> map_of (fn_latest f) key = None
                then (let cutoff = sort (map snd (fn_latest f)) ! (fence_limit div 2)
                      in f\<lparr>fn_latest := filter (\<lambda>(_, s). cutoff < s) (fn_latest f),
                           fn_forgotten_through := cutoff\<rparr>)
                else f)
      in f'\<lparr>fn_latest := (key, seq) # btree_remove key (fn_latest f')\<rparr>)"

definition crossed :: "string \<Rightarrow> nat \<Rightarrow> fences \<Rightarrow> bool" where
  "crossed key at_seq f \<longleftrightarrow> at_seq < fn_forgotten_through f \<or>
     (case map_of (fn_latest f) key of None \<Rightarrow> False | Some s \<Rightarrow> at_seq < s)"

subsection \<open>What was published, and what the ring keeps of it\<close>

text \<open>The ghost history of a ring: every event and gap marker appended, and every skip, in order.\<close>

datatype past = Published entry | Skipped nat

fun past_seq :: "past \<Rightarrow> nat" where
  "past_seq (Published e) = en_seq e"
| "past_seq (Skipped s) = s"

definition last_seq :: "past list \<Rightarrow> nat" where
  "last_seq h = (if h = [] then 0 else past_seq (last h))"

text \<open>Why the newest dropped item was dropped: a skip, too many events after it, or its age.\<close>

fun rightly_dropped :: "sync_config \<Rightarrow> nat \<Rightarrow> nat \<Rightarrow> past \<Rightarrow> bool" where
  "rightly_dropped cfg clock kept (Skipped s) \<longleftrightarrow> True"
| "rightly_dropped cfg clock kept (Published e) \<longleftrightarrow>
     ring_capacity cfg \<le> kept \<or> ring_max_age cfg < clock - en_at e"

definition ring_keeps :: "past list \<Rightarrow> nat \<Rightarrow> past list \<Rightarrow> ring \<Rightarrow> bool" where
  "ring_keeps hist clock dropped r \<longleftrightarrow>
     hist = dropped @ map Published (rg_entries r) \<and>
     sorted_wrt (<) (map past_seq hist) \<and> (\<forall>p \<in> set hist. 0 < past_seq p) \<and>
     rg_head r = last_seq hist \<and> rg_evicted_through r = last_seq dropped \<and>
     (dropped \<noteq> [] \<longrightarrow>
        rightly_dropped (rg_config r) clock (length (rg_entries r)) (last dropped))"

definition ring_ok :: "past list \<Rightarrow> nat \<Rightarrow> ring \<Rightarrow> bool" where
  "ring_ok hist clock r \<longleftrightarrow> (\<exists>dropped. ring_keeps hist clock dropped r)"

lemma ring_keepsI:
  assumes "hist = dropped @ map Published (rg_entries r)" and "sorted_wrt (<) (map past_seq hist)"
    and "\<forall>p \<in> set hist. 0 < past_seq p" and "rg_head r = last_seq hist"
    and "rg_evicted_through r = last_seq dropped"
    and "dropped \<noteq> [] \<Longrightarrow> rightly_dropped (rg_config r) clock (length (rg_entries r)) (last dropped)"
  shows "ring_keeps hist clock dropped r"
  unfolding ring_keeps_def using assms by blast

lemma ring_okI: "ring_keeps hist clock dropped r \<Longrightarrow> ring_ok hist clock r"
  by (auto simp: ring_ok_def)

lemma ring_new_ok: "ring_ok [] clock (ring_new cfg epoch)"
  by (rule ring_okI[of _ _ "[]"]) (simp add: ring_keeps_def ring_new_def last_seq_def)

lemma last_seq_snoc [simp]: "last_seq (h @ [p]) = past_seq p"
  by (simp add: last_seq_def)

lemma rightly_dropped_mono:
  "rightly_dropped cfg clock kept p \<Longrightarrow> clock \<le> now \<Longrightarrow> kept \<le> kept' \<Longrightarrow> rightly_dropped cfg now kept' p"
  by (cases p) auto

lemma evict_entries_keeps:
  assumes "hist = dropped @ map Published es" and "through = last_seq dropped"
    and "dropped \<noteq> [] \<Longrightarrow> rightly_dropped cfg clock (length es) (last dropped)" and "clock \<le> now"
    and "evict_entries (ring_capacity cfg) (ring_max_age cfg) now es through = (es', through')"
  shows "\<exists>dropped'. hist = dropped' @ map Published es' \<and> through' = last_seq dropped' \<and>
    (dropped' \<noteq> [] \<longrightarrow> rightly_dropped cfg now (length es') (last dropped'))"
  using assms
proof (induction es arbitrary: dropped through clock)
  case Nil
  then show ?case
    by (intro exI[of _ dropped]) (auto intro: rightly_dropped_mono)
next
  case (Cons e es)
  show ?case
  proof (cases "length (e # es) \<le> ring_capacity cfg \<and> \<not> ring_max_age cfg < now - en_at e")
    case True
    then have "es' = e # es" "through' = through" using Cons.prems(5) by simp_all
    with Cons.prems show ?thesis
      by (intro exI[of _ dropped]) (auto intro: rightly_dropped_mono)
  next
    case False
    then have "rightly_dropped cfg now (length es) (Published e)" by auto
    with False Cons.prems Cons.IH[of "dropped @ [Published e]" "en_seq e" now] show ?thesis
      by auto
  qed
qed

lemma ring_okD:
  assumes "ring_ok hist clock r"
  shows "sorted_wrt (<) (map past_seq hist)" and "\<forall>p \<in> set hist. 0 < past_seq p"
    and "rg_head r = last_seq hist"
  using assms unfolding ring_ok_def ring_keeps_def by blast+

lemma past_le_head:
  assumes "ring_ok hist clock r" and "p \<in> set hist"
  shows "past_seq p \<le> rg_head r"
proof -
  obtain a b where "hist = a @ p # b" using assms(2) by (meson split_list)
  with ring_okD(1)[OF assms(1)] show ?thesis
    unfolding ring_okD(3)[OF assms(1)]
    by (cases b rule: rev_cases) (auto simp: last_seq_def sorted_wrt_append)
qed

lemma evict_ok:
  assumes "ring_ok hist clock r" and "clock \<le> now"
  shows "ring_ok hist now (evict now r)"
proof -
  obtain dropped where k: "ring_keeps hist clock dropped r" using assms(1) by (auto simp: ring_ok_def)
  obtain es through where e: "evict_entries (ring_capacity (rg_config r)) (ring_max_age (rg_config r)) now
      (rg_entries r) (rg_evicted_through r) = (es, through)" by force
  note hist = ring_okD[OF assms(1)]
  from evict_entries_keeps[OF _ _ _ assms(2) e] k obtain dropped' where
    d: "hist = dropped' @ map Published es" "through = last_seq dropped'"
    "dropped' \<noteq> [] \<longrightarrow> rightly_dropped (rg_config r) now (length es) (last dropped')"
    by (auto simp: ring_keeps_def)
  have r': "evict now r = r\<lparr>rg_entries := es, rg_evicted_through := through\<rparr>"
    by (simp add: evict_def e)
  show ?thesis
    by (rule ring_okI[of _ _ dropped'], rule ring_keepsI) (use hist d in \<open>simp_all add: r'\<close>)
qed

lemma evict_same [simp]:
  "rg_head (evict now r) = rg_head r" "rg_config (evict now r) = rg_config r"
  "rg_epoch (evict now r) = rg_epoch r" "rg_handed_out (evict now r) = rg_handed_out r"
  by (simp_all add: evict_def Let_def split: prod.splits)

lemma append_ok:
  assumes "ring_ok hist clock r" and "clock \<le> now" and "rg_head r < en_seq e"
  shows "ring_ok (hist @ [Published e]) now (append_entry e now r)"
proof -
  obtain dropped where k: "ring_keeps hist clock dropped r" using assms(1) by (auto simp: ring_ok_def)
  let ?r = "r\<lparr>rg_entries := rg_entries r @ [e], rg_head := en_seq e\<rparr>"
  have lt: "past_seq p < en_seq e" if "p \<in> set hist" for p
    using past_le_head[OF assms(1) that] assms(3) by simp
  have "ring_keeps (hist @ [Published e]) clock dropped ?r"
  proof (rule ring_keepsI)
    show "sorted_wrt (<) (map past_seq (hist @ [Published e]))"
      using ring_okD(1)[OF assms(1)] lt by (simp add: sorted_wrt_append)
    show "\<forall>p \<in> set (hist @ [Published e]). 0 < past_seq p"
      using ring_okD(2)[OF assms(1)] assms(3) by simp
    show "dropped \<noteq> [] \<Longrightarrow> rightly_dropped (rg_config ?r) clock (length (rg_entries ?r)) (last dropped)"
      using k by (auto simp: ring_keeps_def intro: rightly_dropped_mono)
  qed (use k in \<open>simp_all add: ring_keeps_def last_seq_def\<close>)
  from evict_ok[OF ring_okI[OF this] assms(2)] show ?thesis by (simp add: append_entry_def)
qed

lemma skip_ok:
  assumes "ring_ok hist clock r" and "rg_head r < seq"
  shows "ring_ok (hist @ [Skipped seq]) clock (skip seq r)"
proof -
  have "past_seq p < seq" if "p \<in> set hist" for p
    using past_le_head[OF assms(1) that] assms(2) by simp
  with ring_okD[OF assms(1)] assms(2) show ?thesis
    by (intro ring_okI[of _ _ "hist @ [Skipped seq]"] ring_keepsI)
       (simp_all add: skip_def sorted_wrt_append)
qed

lemma gap_entry_simps [simp]:
  "en_seq (gap_entry now seq user) = seq" "en_gap (gap_entry now seq user)"
  "en_audience (gap_entry now seq user) = User user" "en_except_user (gap_entry now seq user) = None"
  by (simp_all add: gap_entry_def)

lemma entry_of_seq: "entry_of js now seq p = Returns e \<Longrightarrow> en_seq e = seq \<and> \<not> en_gap e"
  by (auto simp: entry_of_def split: eval_result.splits)

lemma ring_read_ring [simp]: "snd (ring_read now cursor r) = evict now r"
  by (simp add: ring_read_def Let_def)

lemma resume_ring [simp]: "snd (resume now point r) = (evict now r)\<lparr>rg_handed_out := True\<rparr>"
  by (simp add: resume_def Let_def)

lemma handed_out_ok: "ring_ok hist clock (r\<lparr>rg_handed_out := b\<rparr>) = ring_ok hist clock r"
  by (simp add: ring_ok_def ring_keeps_def)

subsection \<open>A ring in use\<close>

text \<open>Publishers append events and gap markers and record skips, connections read and resume, in any
  order, with a clock that does not run backwards and sequence numbers above the head (the hub
  assigns them under its lock).\<close>

inductive ring_step :: "ring \<times> past list \<times> nat \<Rightarrow> ring \<times> past list \<times> nat \<Rightarrow> bool" where
  push: "clock \<le> now \<Longrightarrow> rg_head r < seq \<Longrightarrow> entry_of js now seq p = Returns e \<Longrightarrow>
     push js now seq p r = Returns r' \<Longrightarrow>
     ring_step (r, hist, clock) (r', hist @ [Published e], now)"
| push_gap: "clock \<le> now \<Longrightarrow> rg_head r < seq \<Longrightarrow>
     ring_step (r, hist, clock) (push_gap now seq user r, hist @ [Published (gap_entry now seq user)], now)"
| skip: "rg_head r < seq \<Longrightarrow> ring_step (r, hist, clock) (skip seq r, hist @ [Skipped seq], clock)"
| read: "clock \<le> now \<Longrightarrow> ring_step (r, hist, clock) (snd (ring_read now cursor r), hist, now)"
| resume: "clock \<le> now \<Longrightarrow> ring_step (r, hist, clock) (snd (resume now point r), hist, now)"

definition ring_inv :: "ring \<times> past list \<times> nat \<Rightarrow> bool" where
  "ring_inv = (\<lambda>(r, hist, clock). ring_ok hist clock r)"

lemma ring_step_inv: "ring_step s s' \<Longrightarrow> ring_inv s \<Longrightarrow> ring_inv s'"
proof (induction rule: ring_step.induct)
  case (push clock now r seq js p e r' hist)
  then have "r' = append_entry e now r" "en_seq e = seq"
    using entry_of_seq by (auto simp: push_def)
  with push show ?case by (auto simp: ring_inv_def intro: append_ok)
qed (auto simp: ring_inv_def push_gap_def handed_out_ok intro: append_ok skip_ok evict_ok)

interpretation ring_runs: invariant_system ring_step ring_inv
  by unfold_locales (rule ring_step_inv)

lemma read_exact:
  assumes "ring_ok hist clock r" and "clock \<le> now"
  shows "case fst (ring_read now cursor r) of
      Events es head \<Rightarrow> map Published es = filter (\<lambda>p. cursor < past_seq p) hist \<and> head = last_seq hist
    | Lost head \<Rightarrow> head = last_seq hist \<and>
        (\<exists>p \<in> set hist. cursor < past_seq p \<and> p \<notin> Published ` set (rg_entries (evict now r)) \<and>
           rightly_dropped (rg_config r) now (length (rg_entries (evict now r))) p)"
proof -
  obtain dropped where k: "ring_keeps hist now dropped (evict now r)"
    using evict_ok[OF assms] by (auto simp: ring_ok_def)
  let ?es = "rg_entries (evict now r)"
  have hist: "hist = dropped @ map Published ?es" and through: "rg_evicted_through (evict now r) = last_seq dropped"
    and s: "sorted_wrt (<) (map past_seq hist)"
    using k unfolding ring_keeps_def by blast+
  have head: "rg_head (evict now r) = last_seq hist" using k unfolding ring_keeps_def by blast
  have drop: "dropWhile (\<lambda>e. en_seq e \<le> cursor) es = filter (\<lambda>e. cursor < en_seq e) es"
    if "sorted_wrt (<) (map en_seq es)" for es
    using that
  proof (induction es)
    case (Cons a es)
    then have "cursor < en_seq a \<Longrightarrow> filter (\<lambda>e. cursor < en_seq e) es = es"
      by (force simp: filter_id_conv)
    with Cons show ?case by simp
  qed simp
  have "sorted_wrt (<) (map en_seq ?es)"
    using s by (subst (asm) hist) (simp add: sorted_wrt_append comp_def)
  note drop = drop[OF this]
  show ?thesis
  proof (cases "cursor < last_seq dropped")
    case True
    then have ne: "dropped \<noteq> []" and "cursor < past_seq (last dropped)"
      by (auto simp: last_seq_def split: if_splits)
    moreover have "last dropped \<notin> Published ` set ?es"
    proof
      assume "last dropped \<in> Published ` set ?es"
      with ne s show False
        by (subst (asm) hist) (force simp: sorted_wrt_append dest: last_in_set)
    qed
    moreover have "rightly_dropped (rg_config r) now (length ?es) (last dropped)"
      using k ne unfolding ring_keeps_def by simp
    moreover have "last dropped \<in> set hist" using ne by (subst hist) simp
    ultimately show ?thesis
      using True by (auto simp: ring_read_def Let_def through head simp del: evict_same)
  next
    case False
    have "past_seq p \<le> cursor" if p: "p \<in> set dropped" for p
    proof -
      obtain a b where "dropped = a @ p # b" using p by (meson split_list)
      moreover have "sorted_wrt (<) (map past_seq dropped)"
        using s by (subst (asm) hist) (simp add: sorted_wrt_append)
      ultimately show ?thesis
        using False by (cases b rule: rev_cases) (auto simp: last_seq_def sorted_wrt_append)
    qed
    then have "filter (\<lambda>p. cursor < past_seq p) dropped = []" by (force simp: filter_empty_conv)
    then have "filter (\<lambda>p. cursor < past_seq p) hist = map Published (filter (\<lambda>e. cursor < en_seq e) ?es)"
      by (subst hist) (simp add: filter_map comp_def)
    with False show ?thesis
      by (simp add: ring_read_def Let_def through head drop del: evict_same)
  qed
qed

subsection \<open>Fences over a run\<close>

definition fences_after :: "(string \<times> nat) list \<Rightarrow> fences" where
  "fences_after evs = fold (\<lambda>(k, s). fence_record k s) evs fences_empty"

definition fences_ok :: "(string \<times> nat) list \<Rightarrow> fences \<Rightarrow> bool" where
  "fences_ok evs f \<longleftrightarrow> distinct (map fst (fn_latest f)) \<and> length (fn_latest f) \<le> fence_limit \<and>
     (\<forall>k s. (k, s) \<in> set (fn_latest f) \<longrightarrow> fn_forgotten_through f < s \<and> s \<in> snd ` set evs) \<and>
     (fn_forgotten_through f = 0 \<or> fn_forgotten_through f \<in> snd ` set evs) \<and>
     (\<forall>k s. (k, s) \<in> set evs \<longrightarrow> s \<le> fn_forgotten_through f \<or>
        (\<exists>t. map_of (fn_latest f) k = Some t \<and> s \<le> t))"

lemma fences_okD:
  assumes "fences_ok evs f"
  shows "distinct (map fst (fn_latest f))" and "length (fn_latest f) \<le> fence_limit"
    and "(k, s) \<in> set (fn_latest f) \<Longrightarrow> fn_forgotten_through f < s"
    and "fn_forgotten_through f = 0 \<or> fn_forgotten_through f \<in> snd ` set evs"
    and "(k, s) \<in> set (fn_latest f) \<Longrightarrow> s \<in> snd ` set evs"
    and "(k, s) \<in> set evs \<Longrightarrow> s \<le> fn_forgotten_through f \<or>
        (\<exists>t. map_of (fn_latest f) k = Some t \<and> s \<le> t)"
  using assms unfolding fences_ok_def by blast+

lemma fences_okI:
  assumes "distinct (map fst (fn_latest f))" and "length (fn_latest f) \<le> fence_limit"
    and "\<And>k s. (k, s) \<in> set (fn_latest f) \<Longrightarrow> fn_forgotten_through f < s \<and> s \<in> snd ` set evs"
    and "fn_forgotten_through f = 0 \<or> fn_forgotten_through f \<in> snd ` set evs"
    and "\<And>k s. (k, s) \<in> set evs \<Longrightarrow> s \<le> fn_forgotten_through f \<or>
        (\<exists>t. map_of (fn_latest f) k = Some t \<and> s \<le> t)"
  shows "fences_ok evs f"
  using assms unfolding fences_ok_def by blast

text \<open>Forgetting the older half keeps the invariant and makes room.\<close>

lemma fences_forget:
  assumes ok: "fences_ok evs f" and full: "fence_limit \<le> length (fn_latest f)"
    and cutoff: "cutoff = sort (map snd (fn_latest f)) ! (fence_limit div 2)"
    and f': "f' = f\<lparr>fn_latest := filter (\<lambda>(_, s). cutoff < s) (fn_latest f), fn_forgotten_through := cutoff\<rparr>"
  shows "fences_ok evs f' \<and> length (fn_latest f') < fence_limit"
proof -
  have "cutoff \<in> set (sort (map snd (fn_latest f)))"
    using full unfolding cutoff by (intro nth_mem) (simp add: fence_limit_def)
  then obtain k0 where k0: "(k0, cutoff) \<in> set (fn_latest f)" by force
  have old: "fn_forgotten_through f < cutoff" and cut: "cutoff \<in> snd ` set evs"
    using fences_okD(3,5)[OF ok k0] by auto
  have "length (filter (\<lambda>(_, s). cutoff < s) (fn_latest f)) < length (fn_latest f)"
    by (rule length_filter_less[OF k0]) simp
  then have less: "length (fn_latest f') < fence_limit" using fences_okD(2)[OF ok] by (simp add: f')
  have "fences_ok evs f'"
  proof (rule fences_okI)
    show "distinct (map fst (fn_latest f'))"
      using fences_okD(1)[OF ok] by (simp add: f' distinct_map_filter)
    show "fn_forgotten_through f' = 0 \<or> fn_forgotten_through f' \<in> snd ` set evs" using cut by (simp add: f')
    show "s \<le> fn_forgotten_through f' \<or> (\<exists>t. map_of (fn_latest f') k = Some t \<and> s \<le> t)"
      if ev: "(k, s) \<in> set evs" for k s
    proof (cases "s \<le> cutoff")
      case False
      then obtain t where t: "map_of (fn_latest f) k = Some t" "s \<le> t"
        using fences_okD(6)[OF ok ev] old by auto
      then have "(k, t) \<in> set (fn_latest f')" using False by (auto simp: f' dest: map_of_SomeD)
      then have "map_of (fn_latest f') k = Some t"
        using fences_okD(1)[OF ok] by (intro map_of_is_SomeI) (simp_all add: f' distinct_map_filter)
      with t show ?thesis by blast
    qed (simp add: f')
  qed (use less fences_okD(5)[OF ok] in \<open>auto simp: f'\<close>)
  with less show ?thesis by simp
qed

lemma fences_insert:
  assumes ok: "fences_ok evs f" and new: "\<And>t. t \<in> snd ` set evs \<Longrightarrow> t < s" and "0 < s"
    and room: "length (fn_latest f) < fence_limit \<or> map_of (fn_latest f) k \<noteq> None"
  shows "fences_ok (evs @ [(k, s)]) (f\<lparr>fn_latest := (k, s) # btree_remove k (fn_latest f)\<rparr>)" (is "fences_ok _ ?f")
proof (rule fences_okI)
  show "distinct (map fst (fn_latest ?f))"
    using fences_okD(1)[OF ok] by (auto simp: btree_remove_def distinct_map_filter)
  have "length (btree_remove k (fn_latest f)) < length (fn_latest f)" if "map_of (fn_latest f) k = Some t" for t
    using that unfolding btree_remove_def by (intro length_filter_less[of "(k, t)"]) (auto dest: map_of_SomeD)
  moreover have "length (btree_remove k (fn_latest f)) \<le> length (fn_latest f)"
    by (simp add: btree_remove_def)
  ultimately show "length (fn_latest ?f) \<le> fence_limit"
    using room fences_okD(2)[OF ok] by (auto simp: not_None_eq)
  show "fn_forgotten_through ?f = 0 \<or> fn_forgotten_through ?f \<in> snd ` set (evs @ [(k, s)])"
    using fences_okD(4)[OF ok] by auto
  show "fn_forgotten_through ?f < u \<and> u \<in> snd ` set (evs @ [(k, s)])" if "(j, u) \<in> set (fn_latest ?f)" for j u
    using that fences_okD(3,5)[OF ok] fences_okD(4)[OF ok] new[of "fn_forgotten_through f"] \<open>0 < s\<close>
    by (auto simp: btree_remove_def)
  show "u \<le> fn_forgotten_through ?f \<or> (\<exists>t. map_of (fn_latest ?f) j = Some t \<and> u \<le> t)"
    if "(j, u) \<in> set (evs @ [(k, s)])" for j u
  proof (cases "(j, u) \<in> set evs")
    case True
    then have "u < s" by (intro new) force
    then show ?thesis using fences_okD(6)[OF ok True] by (auto simp: map_of_btree_remove)
  next
    case False
    then show ?thesis using that by simp
  qed
qed

lemma fence_record_ok:
  assumes ok: "fences_ok evs f" and new: "\<And>t. t \<in> snd ` set evs \<Longrightarrow> t < s" and "0 < s"
  shows "fences_ok (evs @ [(k, s)]) (fence_record k s f)"
proof (cases "fence_limit \<le> length (fn_latest f) \<and> map_of (fn_latest f) k = None")
  case True
  define cutoff where "cutoff = sort (map snd (fn_latest f)) ! (fence_limit div 2)"
  define f1 where "f1 = f\<lparr>fn_latest := filter (\<lambda>(_, s). cutoff < s) (fn_latest f), fn_forgotten_through := cutoff\<rparr>"
  have "fences_ok evs f1" and "length (fn_latest f1) < fence_limit"
    using fences_forget[OF ok conjunct1[OF True] cutoff_def f1_def] by auto
  then have "fences_ok (evs @ [(k, s)]) (f1\<lparr>fn_latest := (k, s) # btree_remove k (fn_latest f1)\<rparr>)"
    by (intro fences_insert[OF _ new \<open>0 < s\<close>]) simp_all
  moreover have "fence_record k s f = f1\<lparr>fn_latest := (k, s) # btree_remove k (fn_latest f1)\<rparr>"
    using True by (simp add: fence_record_def Let_def f1_def cutoff_def)
  ultimately show ?thesis by simp
next
  case False
  then show ?thesis using fences_insert[OF ok new \<open>0 < s\<close>] by (auto simp: fence_record_def Let_def)
qed

lemma fences_after_ok:
  assumes "sorted_wrt (<) (map snd evs)" and "\<forall>(k, s) \<in> set evs. 0 < s"
  shows "fences_ok evs (fences_after evs)"
  using assms
proof (induction evs rule: rev_induct)
  case Nil
  show ?case by (rule fences_okI) (simp_all add: fences_after_def fences_empty_def)
next
  case (snoc e evs)
  obtain k s where e: "e = (k, s)" by force
  have "fences_ok (evs @ [(k, s)]) (fence_record k s (fences_after evs))"
    using snoc by (intro fence_record_ok) (auto simp: e sorted_wrt_append)
  then show ?case by (simp add: e fences_after_def)
qed

subsection \<open>Properties of the ring\<close>

text \<open>C3. A reader misses nothing silently: however events, gap markers and skips were published and
  read before, a read from a cursor either returns exactly what was published after the cursor, in
  order, with none of it skipped, or reports a loss because something after the cursor is really
  gone: skipped, pushed out by as many events as the ring holds, or too old.\<close>

theorem ring_read_exact:
  assumes "ring_step\<^sup>*\<^sup>* (ring_new cfg epoch, [], t0) (r, hist, clock)" and "clock \<le> now"
  shows "case fst (ring_read now cursor r) of
      Events es head \<Rightarrow> map Published es = filter (\<lambda>p. cursor < past_seq p) hist \<and> head = last_seq hist
    | Lost head \<Rightarrow> head = last_seq hist \<and>
        (\<exists>p \<in> set hist. cursor < past_seq p \<and> p \<notin> Published ` set (rg_entries (evict now r)) \<and>
           rightly_dropped (rg_config r) now (length (rg_entries (evict now r))) p)"
proof -
  have "ring_inv (ring_new cfg epoch, [], t0)" by (simp add: ring_inv_def ring_new_ok)
  from ring_runs.inv_run[OF assms(1) this] show ?thesis
    using read_exact assms(2) by (simp add: ring_inv_def)
qed

definition example_config :: sync_config where
  "example_config = default_sync_config\<lparr>ring_capacity := 2\<rparr>"

text \<open>A ring of two events after gap markers 1, 2 and 3: the first fell out.\<close>

definition example_ring :: ring where
  "example_ring = push_gap 12 3 7 (push_gap 11 2 7 (push_gap 10 1 7 (ring_new example_config ''e'')))"

definition example_past :: "past list" where
  "example_past = [Published (gap_entry 10 1 7), Published (gap_entry 11 2 7), Published (gap_entry 12 3 7)]"

lemma example_ring_entries:
  "rg_entries example_ring = [gap_entry 11 2 7, gap_entry 12 3 7]" "rg_evicted_through example_ring = 1"
  "rg_head example_ring = 3" "rg_config example_ring = example_config" "rg_epoch example_ring = ''e''"
  by (simp_all add: example_ring_def push_gap_def append_entry_def evict_def ring_new_def
      example_config_def default_sync_config_def gap_entry_def)

lemma example_ring_run: "ring_step\<^sup>*\<^sup>* (ring_new example_config ''e'', [], 0) (example_ring, example_past, 12)"
proof -
  let ?r0 = "ring_new example_config ''e''"
  let ?r1 = "push_gap 10 1 7 ?r0"
  let ?r2 = "push_gap 11 2 7 ?r1"
  have head: "rg_head ?r0 = 0" "rg_head ?r1 = 1" "rg_head ?r2 = 2"
    by (simp_all add: ring_new_def push_gap_def append_entry_def)
  have "ring_step (?r0, [], 0) (?r1, [] @ [Published (gap_entry 10 1 7)], 10)"
    and "ring_step (?r1, [Published (gap_entry 10 1 7)], 10)
      (?r2, [Published (gap_entry 10 1 7)] @ [Published (gap_entry 11 2 7)], 11)"
    and "ring_step (?r2, [Published (gap_entry 10 1 7), Published (gap_entry 11 2 7)], 11)
      (push_gap 12 3 7 ?r2, [Published (gap_entry 10 1 7), Published (gap_entry 11 2 7)] @
         [Published (gap_entry 12 3 7)], 12)"
    by (rule ring_step.push_gap; simp only: head; simp)+
  then show ?thesis
    by (simp add: example_ring_def example_past_def converse_rtranclp_into_rtranclp)
qed

theorem ring_read_exact_witness:
  "fst (ring_read 20 1 example_ring) = Events [gap_entry 11 2 7, gap_entry 12 3 7] 3 \<and>
   map Published [gap_entry 11 2 7, gap_entry 12 3 7] = filter (\<lambda>p. 1 < past_seq p) example_past \<and>
   fst (ring_read 20 0 example_ring) = Lost 3 \<and> last_seq example_past = 3"
proof -
  have e: "evict 20 example_ring = example_ring"
    by (simp add: evict_def example_ring_entries example_config_def default_sync_config_def
        gap_entry_def)
  have r: "fst (ring_read 20 1 example_ring) = Events [gap_entry 11 2 7, gap_entry 12 3 7] 3"
    "fst (ring_read 20 0 example_ring) = Lost 3"
    unfolding ring_read_def e by (simp_all add: example_ring_entries)
  show ?thesis
    using ring_read_exact[OF example_ring_run, of 20 1] ring_read_exact[OF example_ring_run, of 20 0]
    by (simp add: r del: One_nat_def)
qed

text \<open>A resume point is honoured only while it is complete: when a \<^verbatim>\<open>hello\<close> is answered with a
  resumed cursor, the point was of this ring's epoch, and reading on from it at once yields every
  event published after it, none lost.\<close>

theorem resume_is_complete:
  assumes "ring_step\<^sup>*\<^sup>* (ring_new cfg epoch, [], t0) (r, hist, clock)" and "clock \<le> now"
    and "resume now point r = ((cursor, True), r')"
  shows "point = Some (rg_epoch r, int cursor) \<and>
    (\<exists>es head. fst (ring_read now cursor r') = Events es head \<and>
       map Published es = filter (\<lambda>p. cursor < past_seq p) hist)"
proof -
  have "ring_inv (ring_new cfg epoch, [], t0)" by (simp add: ring_inv_def ring_new_ok)
  then have ok: "ring_ok hist clock r" using ring_runs.inv_run[OF assms(1)] by (simp add: ring_inv_def)
  have r': "r' = (evict now r)\<lparr>rg_handed_out := True\<rparr>" using resume_ring[of now point r] assms(3) by simp
  have ok': "ring_ok hist now r'" using evict_ok[OF ok assms(2)] by (simp add: r' handed_out_ok)
  have p: "point = Some (rg_epoch r, int cursor)" and through: "rg_evicted_through r' \<le> cursor"
    using assms(3) by (auto simp: resume_def r' Let_def split: option.splits if_splits)
  have idem: "rg_evicted_through (evict now r') = rg_evicted_through r'"
  proof -
    have "evict_entries c a now (fst (evict_entries c a now es th)) (snd (evict_entries c a now es th)) =
        evict_entries c a now es th" for c a es th
      by (induction c a now es th rule: evict_entries.induct) auto
    then show ?thesis by (simp add: r' evict_def split_beta)
  qed
  have "fst (ring_read now cursor r') = Events (dropWhile (\<lambda>e. en_seq e \<le> cursor)
      (rg_entries (evict now r'))) (rg_head (evict now r'))"
    using through by (simp add: ring_read_def Let_def idem)
  with read_exact[OF ok', of now cursor] p show ?thesis by simp
qed

theorem resume_is_complete_witness:
  "\<exists>r'. resume 20 (Some (''e'', 2)) example_ring = ((2, True), r') \<and>
     (\<exists>es head. fst (ring_read 20 2 r') = Events es head \<and>
        map Published es = filter (\<lambda>p. 2 < past_seq p) example_past)"
proof -
  have "fst (resume 20 (Some (''e'', 2)) example_ring) = (2, True)"
    by (simp add: resume_def Let_def example_ring_entries evict_def example_config_def
        default_sync_config_def gap_entry_def)
  then obtain r' where r: "resume 20 (Some (''e'', 2)) example_ring = ((2, True), r')"
    by (metis prod.collapse)
  from resume_is_complete[OF example_ring_run _ r] r show ?thesis by auto
qed

text \<open>Fences never let a stale publication through: if an event was published under a key after
  \<open>at_seq\<close>, the key is crossed, however many other keys have been recorded and forgotten since,
  and at most 4096 keys are remembered.\<close>

theorem fences_never_miss:
  assumes "sorted_wrt (<) (map snd evs)" and "\<forall>(k, s) \<in> set evs. 0 < s"
    and "(key, seq) \<in> set evs" and "at_seq < seq"
  shows "crossed key at_seq (fences_after evs) \<and> length (fn_latest (fences_after evs)) \<le> 4096"
  using fences_okD(2)[OF fences_after_ok[OF assms(1,2)]] fences_okD(6)[OF fences_after_ok[OF assms(1,2)] assms(3)]
    assms(4) by (auto simp: crossed_def fence_limit_def)

theorem fences_never_miss_witness:
  "crossed ''a'' 4 (fences_after [(''a'', 5), (''b'', 9)]) \<and>
   length (fn_latest (fences_after [(''a'', 5), (''b'', 9)])) \<le> 4096"
  by (rule fences_never_miss[of _ "''a''" 5]) auto

end
