(* ===== verification/SyncConnection.thy ===== *)
theory SyncConnection
  imports SyncRing "HOL-Library.Sublist"
begin

section \<open>One sync socket\<close>

text \<open>
  \<^verbatim>\<open>crates/cable/src/sync/connection.rs\<close>: what one sync connection keeps (the topics it
  follows, the events read and not yet written, its cursor in the ring) and every operation on
  it, the \<^verbatim>\<open>hello\<close> phase and one turn of its loop, with the engine it shares with the others
  (\<^verbatim>\<open>Engine\<close>, \<^verbatim>\<open>People\<close>, \<^verbatim>\<open>OpenPerson\<close>, \<^verbatim>\<open>SyncObserver\<close>).

  The application's session is a parameter: \<open>viewer\<close> is its \<^verbatim>\<open>events_for_viewer\<close>, its answers to
  \<^verbatim>\<open>authorize\<close> come with the topics (with the ring's head when each was asked), its answer to a
  heartbeat with the frame.  A turn is given the event \<^verbatim>\<open>select!\<close> chose; its writes succeed (a
  failed write ends the connection).  The presence type is a parameter too.
\<close>

subsection \<open>The engine\<close>

record 'p engine =
  eg_ring :: ring
  eg_observers :: nat
  eg_last_presence :: "int \<rightharpoonup> 'p"
  eg_open :: "int \<rightharpoonup> nat"
  eg_gapped :: "int set"
  eg_fences :: fences

definition engine_new :: "sync_config \<Rightarrow> string \<Rightarrow> 'p engine" where
  "engine_new cfg epoch = \<lparr>eg_ring = ring_new cfg epoch, eg_observers = 0,
     eg_last_presence = Map.empty, eg_open = Map.empty, eg_gapped = {}, eg_fences = fences_empty\<rparr>"

definition gap_needed_for :: "int \<Rightarrow> 'p engine \<Rightarrow> bool \<times> 'p engine" where
  "gap_needed_for user eg = (user \<notin> eg_gapped eg, eg\<lparr>eg_gapped := insert user (eg_gapped eg)\<rparr>)"

definition refetched :: "int \<Rightarrow> 'p engine \<Rightarrow> 'p engine" where
  "refetched user eg = eg\<lparr>eg_gapped := eg_gapped eg - {user}\<rparr>"

definition observer_new :: "'p engine \<Rightarrow> 'p engine" where
  "observer_new eg = eg\<lparr>eg_observers := eg_observers eg + 1\<rparr>"

text \<open>Dropping an observer that was never counted would underflow, which a debug build traps.\<close>

definition observer_drop :: "'p engine \<Rightarrow> 'p engine eval_result" where
  "observer_drop eg =
     (if eg_observers eg = 0 then Panics
      else Returns (let n = eg_observers eg - 1 in
        eg\<lparr>eg_observers := n, eg_last_presence := (if n = 0 then Map.empty else eg_last_presence eg)\<rparr>))"

definition open_person :: "int \<Rightarrow> 'p engine \<Rightarrow> 'p engine" where
  "open_person user eg =
     eg\<lparr>eg_open := (eg_open eg)(user \<mapsto> (case eg_open eg user of None \<Rightarrow> 0 | Some n \<Rightarrow> n) + 1),
        eg_gapped := eg_gapped eg - {user}\<rparr>"

definition close_person :: "int \<Rightarrow> 'p engine \<Rightarrow> 'p engine eval_result" where
  "close_person user eg =
     (case eg_open eg user of
        None \<Rightarrow> Returns eg
      | Some 0 \<Rightarrow> Panics
      | Some (Suc n) \<Rightarrow> Returns (eg\<lparr>eg_open := (if n = 0 then (eg_open eg)(user := None)
                                              else (eg_open eg)(user \<mapsto> n))\<rparr>))"

subsection \<open>Frames\<close>

datatype server_frame =
  Welcome string nat bool nat int
| Resync "string list" string
| ByeFrame bool string
| PingFrame
| Batch "string list"

datatype bye = Bye bool string

fun bye_frame :: "bye \<Rightarrow> server_frame" where
  "bye_frame (Bye reconnect reason) = ByeFrame reconnect reason"

text \<open>A client's frame; a \<^verbatim>\<open>sub\<close> carries, for each topic, the ring's head when the application was
  asked about it and its answer, a heartbeat whether the session goes on.\<close>

datatype client_frame =
  Hello nat "(string \<times> int) option" "(string \<times> nat \<times> bool) list"
| Sub "(string \<times> nat \<times> bool) list"
| Unsub "string list"
| Typing string bool
| Present int
| Absent int
| Hb bool bool

datatype session_call =
  CallTyping string bool | CallPresent int | CallAbsent int | CallHeartbeat bool

subsection \<open>The connection\<close>

record connection =
  cn_user :: int
  cn_topics :: "(string \<times> nat) list"
  cn_pending :: "entry list"
  cn_flush_at :: "nat option"
  cn_cursor :: nat
  cn_last_sent :: nat

definition connection_new :: "int \<Rightarrow> nat \<Rightarrow> connection" where
  "connection_new user now = \<lparr>cn_user = user, cn_topics = [], cn_pending = [], cn_flush_at = None,
     cn_cursor = 0, cn_last_sent = now\<rparr>"

definition u64_max :: nat where
  "u64_max = 2 ^ 64 - 1"

definition lost :: "nat \<Rightarrow> string \<Rightarrow> connection \<times> 'p engine \<Rightarrow> server_frame \<times> connection \<times> 'p engine" where
  "lost head reason = (\<lambda>(c, eg).
     (Resync (user_topic # map fst (cn_topics c)) reason,
      c\<lparr>cn_cursor := head\<rparr>, refetched (cn_user c) eg))"

definition add_entry :: "nat \<Rightarrow> sync_config \<Rightarrow> entry \<Rightarrow> connection \<Rightarrow> connection" where
  "add_entry now cfg e c =
     (if \<not> delivered_to e (cn_user c) (\<lambda>t. map_of (cn_topics c) t \<noteq> None) then c
      else (let topics = (case en_unsubscribe e of
                  None \<Rightarrow> cn_topics c
                | Some t \<Rightarrow> (case map_of (cn_topics c) t of
                     None \<Rightarrow> cn_topics c
                   | Some authorized_at \<Rightarrow> if authorized_at < en_seq e then btree_remove t (cn_topics c)
                                          else cn_topics c))
            in c\<lparr>cn_topics := topics, cn_pending := cn_pending c @ [e],
                 cn_flush_at := (case cn_flush_at c of None \<Rightarrow> Some (now + flush_interval cfg)
                                                     | Some t \<Rightarrow> Some t)\<rparr>))"

definition catch_up_before :: "nat \<Rightarrow> nat \<Rightarrow> bool \<Rightarrow> connection \<times> 'p engine
    \<Rightarrow> server_frame option \<times> connection \<times> 'p engine" where
  "catch_up_before now before replay = (\<lambda>(c, eg).
     (case ring_read now (cn_cursor c) (eg_ring eg) of
        (Events events head, r) \<Rightarrow>
          (let eg1 = eg\<lparr>eg_ring := r\<rparr>;
               events = filter (\<lambda>e. en_seq e < before) events;
               head = max (min head (before - 1)) (cn_cursor c)
           in if list_ex (\<lambda>e. en_gap e \<and> delivered_to e (cn_user c) (\<lambda>_. False)) events
              then (case lost head ''skipped'' (c, eg1) of (f, c', eg') \<Rightarrow> (Some f, c', eg'))
              else (None,
                    fold (\<lambda>e c. if replay \<and> en_ephemeral e then c
                                else add_entry now (rg_config r) e c)
                      events (c\<lparr>cn_cursor := head\<rparr>),
                    eg1))
      | (Lost head, r) \<Rightarrow>
          (case lost head ''ring_rolled_over'' (c, eg\<lparr>eg_ring := r\<rparr>) of
             (f, c', eg') \<Rightarrow> (Some f, c', eg'))))"

definition catch_up :: "nat \<Rightarrow> bool \<Rightarrow> connection \<times> 'p engine \<Rightarrow> server_frame option \<times> connection \<times> 'p engine" where
  "catch_up now replay = catch_up_before now u64_max replay"

definition welcome_client :: "nat \<Rightarrow> nat \<times> bool \<Rightarrow> connection \<times> 'p engine \<Rightarrow> server_frame \<times> connection \<times> 'p engine" where
  "welcome_client now start = (\<lambda>(c, eg).
     (let (cursor, resumed) = start;
          c1 = c\<lparr>cn_cursor := cursor\<rparr>;
          (resumed, c2, eg2) =
            (if resumed then (case catch_up now True (c1, eg) of (f, c2, eg2) \<Rightarrow> (f = None, c2, eg2))
             else (False, c1, eg));
          (c3, eg3) = (if resumed then (c2\<lparr>cn_flush_at := map_option (\<lambda>_. now) (cn_flush_at c2)\<rparr>, eg2)
                       else (c2, refetched (cn_user c2) eg2))
      in (Welcome (rg_epoch (eg_ring eg3)) (if resumed then cursor else cn_cursor c3) resumed
            (cn_cursor c3) (cn_user c3), c3, eg3)))"

text \<open>\<open>seen\<close> is the disconnect this turn received, \<open>polled\<close> the one waiting on the internal
  channel otherwise.\<close>

definition disconnect :: "nat \<Rightarrow> (nat \<times> bool) option \<Rightarrow> (nat \<times> bool) option \<Rightarrow> bool \<Rightarrow> connection \<times> 'p engine
    \<Rightarrow> bye option \<times> connection \<times> 'p engine" where
  "disconnect now seen polled gapped = (\<lambda>(c, eg).
     (case (case seen of Some d \<Rightarrow> Some d | None \<Rightarrow> polled) of
        None \<Rightarrow> (None, c, eg)
      | Some (sequence, reconnect) \<Rightarrow>
          (let (c1, eg1) = (if gapped then (c, eg)
                            else (case catch_up_before now sequence False (c, eg) of (_, c1, eg1) \<Rightarrow> (c1, eg1)))
           in (Some (Bye reconnect ''remote''),
               c1\<lparr>cn_pending := filter (\<lambda>e. en_seq e < sequence) (cn_pending c1)\<rparr>, eg1))))"

text \<open>The pending events that go out, going through them from the latest: the keys seen so far are
  those of later events.\<close>

fun keep_latest :: "string set \<Rightarrow> entry list \<Rightarrow> entry list" where
  "keep_latest keys [] = []"
| "keep_latest keys (e # es) =
     (case en_coalesce e of
        None \<Rightarrow> e # keep_latest keys es
      | Some k \<Rightarrow> if k \<in> keys then keep_latest keys es else e # keep_latest (insert k keys) es)"

definition outgoing :: "connection \<Rightarrow> entry list" where
  "outgoing c = rev (keep_latest {} (rev (cn_pending c)))"

definition full :: "sync_config \<Rightarrow> connection \<Rightarrow> bool" where
  "full cfg c \<longleftrightarrow> flush_max cfg \<le> length (cn_pending c) \<and> flush_max cfg \<le> length (outgoing c)"

definition take_batches :: "(string list \<Rightarrow> string list) \<Rightarrow> sync_config \<Rightarrow> connection
    \<Rightarrow> server_frame list \<times> connection" where
  "take_batches viewer cfg c =
     (map Batch (chunks (max (flush_max cfg) 1) (viewer (map (\<lambda>e. json_for e (cn_user c)) (outgoing c)))),
      c\<lparr>cn_flush_at := None, cn_pending := []\<rparr>)"

text \<open>The text of a \<^verbatim>\<open>batch\<close> frame, written by hand in the source.\<close>

fun batch_text :: "string list \<Rightarrow> string" where
  "batch_text events = ''{'' @ [CHR 0x22] @ ''t'' @ [CHR 0x22] @ '':'' @ [CHR 0x22] @ ''batch'' @ [CHR 0x22] @
     '','' @ [CHR 0x22] @ ''events'' @ [CHR 0x22] @ '':['' @
     (case events of [] \<Rightarrow> '''' | e # es \<Rightarrow> e @ concat (map (\<lambda>e. '','' @ e) es)) @ '']}''"

definition conversation_topic :: "string \<Rightarrow> bool" where
  "conversation_topic topic \<longleftrightarrow>
     (case (if take 5 topic = ''room:'' then Some (drop 5 topic)
            else if take 7 topic = ''thread:'' then Some (drop 7 topic) else None) of
        None \<Rightarrow> False
      | Some k \<Rightarrow> k \<noteq> [] \<and> length k \<le> 18 \<and> list_all (\<lambda>c. CHR ''0'' \<le> c \<and> c \<le> CHR ''9'') k)"

fun follow :: "sync_config \<Rightarrow> (string \<times> nat \<times> bool) list \<Rightarrow> connection \<Rightarrow> connection" where
  "follow cfg [] c = c"
| "follow cfg ((topic, head, allowed) # rest) c =
     (if map_of (cn_topics c) topic \<noteq> None \<or> \<not> conversation_topic topic then follow cfg rest c
      else if max_topics cfg \<le> length (cn_topics c) then c
      else follow cfg rest
        (if allowed then c\<lparr>cn_topics := btree_insert topic head (cn_topics c)\<rparr> else c))"

text \<open>An unreadable frame (\<open>None\<close>) is ignored.\<close>

fun dispatch :: "sync_config \<Rightarrow> client_frame option \<Rightarrow> connection \<Rightarrow> bye option \<times> session_call list \<times> connection" where
  "dispatch cfg None c = (None, [], c)"
| "dispatch cfg (Some (Hello _ _ _)) c = (None, [], c)"
| "dispatch cfg (Some (Sub topics)) c = (None, [], follow cfg topics c)"
| "dispatch cfg (Some (Unsub topics)) c =
     (None, [], c\<lparr>cn_topics := fold btree_remove topics (cn_topics c)\<rparr>)"
| "dispatch cfg (Some (Typing conv on)) c =
     (None, if map_of (cn_topics c) conv \<noteq> None then [CallTyping conv on] else [], c)"
| "dispatch cfg (Some (Present room)) c = (None, [CallPresent room], c)"
| "dispatch cfg (Some (Absent room)) c = (None, [CallAbsent room], c)"
| "dispatch cfg (Some (Hb active goes_on)) c =
     (if goes_on then None else Some (Bye False ''session_expired''), [CallHeartbeat active], c)"

subsection \<open>Before the hello\<close>

datatype incoming =
  TextFrame "client_frame option" | WsPing | BinaryOrPong | CloseFrame nat | InvalidFrame | Disconnected

datatype hello_event = Received incoming | HelloTimeout

datatype hello_result =
  Greeted "(string \<times> int) option" "(string \<times> nat \<times> bool) list"
| Refused bye
| GoneBefore

text \<open>The loop that waits for \<^verbatim>\<open>hello\<close>, over the events it sees; a list that ends stands for a
  connection still waiting.\<close>

fun hello_phase :: "hello_event list \<Rightarrow> hello_result option" where
  "hello_phase [] = None"
| "hello_phase (HelloTimeout # _) = Some (Refused (Bye True ''hello_timeout''))"
| "hello_phase (Received (TextFrame (Some (Hello v point topics))) # _) =
     Some (if v = 1 then Greeted point topics else Refused (Bye False ''unsupported_version''))"
| "hello_phase (Received (TextFrame _) # es) = hello_phase es"
| "hello_phase (Received WsPing # es) = hello_phase es"
| "hello_phase (Received BinaryOrPong # es) = hello_phase es"
| "hello_phase (Received _ # _) = Some GoneBefore"

subsection \<open>One turn of the loop\<close>

datatype turn_event =
  Internal "(nat \<times> bool) option"
| Restart
| Incoming incoming
| HeadChanged
| FlushDue
| PingDue
| ClientTimeout

record 'p turn_result =
  tn_frames :: "server_frame list"
  tn_calls :: "session_call list"
  tn_ended :: bool
  tn_state :: "connection \<times> 'p engine"

definition ends_turn :: "turn_event \<Rightarrow> bool" where
  "ends_turn ev \<longleftrightarrow>
     (case ev of Incoming (CloseFrame _) \<Rightarrow> True | Incoming InvalidFrame \<Rightarrow> True
      | Incoming Disconnected \<Rightarrow> True | _ \<Rightarrow> False)"

definition turn :: "(string list \<Rightarrow> string list) \<Rightarrow> nat \<Rightarrow> (nat \<times> bool) option \<Rightarrow> turn_event
    \<Rightarrow> connection \<times> 'p engine \<Rightarrow> 'p turn_result" where
  "turn viewer now polled ev = (\<lambda>(c, eg).
     (if ends_turn ev
      then \<lparr>tn_frames = [], tn_calls = [], tn_ended = True, tn_state = (c, eg)\<rparr>
      else
       (let cfg = rg_config (eg_ring eg);
            (bye0, calls, c0) =
              (case ev of
                 Incoming (TextFrame f) \<Rightarrow> dispatch cfg f c
               | Restart \<Rightarrow> (Some (Bye True ''server_restart''), [], c)
               | ClientTimeout \<Rightarrow> (Some (Bye True ''timeout''), [], c)
               | _ \<Rightarrow> (None, [], c));
            seen = (case ev of Internal d \<Rightarrow> d | _ \<Rightarrow> None);
            (resync0, c1, eg1) =
              (if ev = HeadChanged then catch_up now False (c0, eg) else (None, c0, eg));
            frames0 = (if ev = PingDue then [PingFrame] else []);
            (remote, c2, eg2) = disconnect now seen polled (resync0 \<noteq> None) (c1, eg1);
            resync = (if remote = None then resync0 else None);
            bye = (case bye0 of Some b \<Rightarrow> Some b | None \<Rightarrow> remote);
            (frames1, c3) =
              (case resync of
                 None \<Rightarrow> ([], c2)
               | Some f \<Rightarrow> (case take_batches viewer cfg c2 of (bs, c3) \<Rightarrow> (bs @ [f], c3)));
            is_due = (case cn_flush_at c3 of None \<Rightarrow> False | Some t \<Rightarrow> t \<le> now);
            (frames2, c4) =
              (if is_due \<or> full cfg c3 \<or> bye \<noteq> None then take_batches viewer cfg c3 else ([], c3));
            frames = frames0 @ frames1 @ frames2
        in \<lparr>tn_frames = frames @ (case bye of None \<Rightarrow> [] | Some b \<Rightarrow> [bye_frame b]), tn_calls = calls, tn_ended = (bye \<noteq> None),
            tn_state = ((if frames = [] then c4 else c4\<lparr>cn_last_sent := now\<rparr>), eg2)\<rparr>)))"

subsection \<open>Reading the ring\<close>

text \<open>The events for a person whatever conversations they follow.\<close>

definition personal :: "int \<Rightarrow> entry \<Rightarrow> bool" where
  "personal user e \<longleftrightarrow> delivered_to e user (\<lambda>_. False)"

lemma personal_delivered: "personal user e \<Longrightarrow> delivered_to e user follows"
  by (auto simp: personal_def delivered_to_def split: if_splits audience.splits)

lemma personal_gap_entry [simp]: "personal user (gap_entry now seq user') \<longleftrightarrow> user = user'"
  by (auto simp: personal_def delivered_to_def)

lemma add_entry_same [simp]:
  "cn_user (add_entry now cfg e c) = cn_user c" "cn_cursor (add_entry now cfg e c) = cn_cursor c"
  by (simp_all add: add_entry_def Let_def)

lemma add_entry_pending:
  "cn_pending (add_entry now cfg e c) = cn_pending c @
     (if delivered_to e (cn_user c) (\<lambda>t. map_of (cn_topics c) t \<noteq> None) then [e] else [])"
  by (simp add: add_entry_def Let_def)

definition add_all :: "nat \<Rightarrow> sync_config \<Rightarrow> bool \<Rightarrow> entry list \<Rightarrow> connection \<Rightarrow> connection" where
  "add_all now cfg replay es c =
     fold (\<lambda>e c. if replay \<and> en_ephemeral e then c else add_entry now cfg e c) es c"

lemma add_all_same [simp]:
  "cn_user (add_all now cfg replay es c) = cn_user c" "cn_cursor (add_all now cfg replay es c) = cn_cursor c"
  by (induction es arbitrary: c) (simp_all add: add_all_def)

text \<open>What a connection is owed, told without its operations: the person is in the event's audience and
  is not the one left out of it.  A topic counts while the connection still follows it: it was
  authorized, and no later event owed to the person has unsubscribed them since (\<open>earlier\<close> are the
  events before, the latest first).  A replay owes no live-only event.\<close>

definition in_audience :: "int \<Rightarrow> (string \<Rightarrow> bool) \<Rightarrow> entry \<Rightarrow> bool" where
  "in_audience user follows e \<longleftrightarrow> en_except_user e \<noteq> Some user \<and>
     (en_audience e = Everyone \<or> en_audience e = User user \<or>
      (\<exists>t. en_audience e = Topic t \<and> follows t))"

fun still_follows :: "int \<Rightarrow> bool \<Rightarrow> (string \<Rightarrow> nat option) \<Rightarrow> entry list \<Rightarrow> string \<Rightarrow> bool" where
  "still_follows user replay authorized [] t \<longleftrightarrow> authorized t \<noteq> None"
| "still_follows user replay authorized (e # earlier) t \<longleftrightarrow>
     still_follows user replay authorized earlier t \<and>
     \<not> (en_unsubscribe e = Some t \<and> (\<exists>n. authorized t = Some n \<and> n < en_seq e) \<and>
        \<not> (replay \<and> en_ephemeral e) \<and>
        in_audience user (still_follows user replay authorized earlier) e)"

definition owed :: "int \<Rightarrow> bool \<Rightarrow> (string \<Rightarrow> nat option) \<Rightarrow> entry list \<Rightarrow> entry \<Rightarrow> bool" where
  "owed user replay authorized events e \<longleftrightarrow> \<not> (replay \<and> en_ephemeral e) \<and>
     in_audience user (still_follows user replay authorized
       (rev (filter (\<lambda>e'. en_seq e' < en_seq e) events))) e"

lemma delivered_in_audience: "delivered_to e user follows \<longleftrightarrow> in_audience user follows e"
  by (auto simp: delivered_to_def in_audience_def split: audience.splits)

lemma personal_in_audience: "personal user e \<longleftrightarrow> in_audience user (\<lambda>_. False) e"
  by (simp add: personal_def delivered_in_audience)

lemma owed_snoc:
  assumes "sorted_wrt (<) (map en_seq (es @ [e]))"
  shows "filter (owed user replay au (es @ [e])) (es @ [e]) =
    filter (owed user replay au es) es @
    (if \<not> (replay \<and> en_ephemeral e) \<and> in_audience user (still_follows user replay au (rev es)) e then [e] else [])"
proof -
  have lt: "en_seq e' < en_seq e" if "e' \<in> set es" for e'
    using assms that by (auto simp: sorted_wrt_append)
  then have all: "filter (\<lambda>e'. en_seq e' < en_seq e) es = es" by simp
  have "owed user replay au (es @ [e]) e' = owed user replay au es e'" if "e' \<in> set es" for e'
    using lt[OF that] by (simp add: owed_def)
  then have "filter (owed user replay au (es @ [e])) es = filter (owed user replay au es) es"
    by (intro filter_cong) auto
  then show ?thesis by (simp add: owed_def all)
qed

lemma add_entry_topics:
  "map_of (cn_topics (add_entry now cfg e c)) t =
     (if in_audience (cn_user c) (\<lambda>t. map_of (cn_topics c) t \<noteq> None) e \<and> en_unsubscribe e = Some t \<and>
         (\<exists>n. map_of (cn_topics c) t = Some n \<and> n < en_seq e) then None
      else map_of (cn_topics c) t)"
  by (auto simp: add_entry_def delivered_in_audience Let_def map_of_btree_remove split: option.splits)

lemma still_follows_authorized: "still_follows user replay au earlier t \<Longrightarrow> au t \<noteq> None"
  by (induction earlier) auto

lemma add_all_owed:
  assumes "sorted_wrt (<) (map en_seq es)"
  shows "cn_pending (add_all now cfg replay es c) =
      cn_pending c @ filter (owed (cn_user c) replay (map_of (cn_topics c)) es) es \<and>
    map_of (cn_topics (add_all now cfg replay es c)) =
      (\<lambda>t. if still_follows (cn_user c) replay (map_of (cn_topics c)) (rev es) t
           then map_of (cn_topics c) t else None)"
  using assms
proof (induction es rule: rev_induct)
  case Nil
  show ?case by (auto simp: add_all_def)
next
  case (snoc e es)
  let ?c = "add_all now cfg replay es c"
  let ?f = "still_follows (cn_user c) replay (map_of (cn_topics c)) (rev es)"
  have IH: "cn_pending ?c = cn_pending c @ filter (owed (cn_user c) replay (map_of (cn_topics c)) es) es"
    "map_of (cn_topics ?c) = (\<lambda>t. if ?f t then map_of (cn_topics c) t else None)"
    using snoc by (auto simp: sorted_wrt_append)
  have au: "?f t \<Longrightarrow> map_of (cn_topics c) t \<noteq> None" for t by (rule still_follows_authorized)
  then have f: "(\<lambda>t. map_of (cn_topics ?c) t \<noteq> None) = ?f" by (auto simp: IH(2))
  have step: "add_all now cfg replay (es @ [e]) c =
      (if replay \<and> en_ephemeral e then ?c else add_entry now cfg e ?c)"
    by (simp add: add_all_def)
  show ?case
  proof
    show "cn_pending (add_all now cfg replay (es @ [e]) c) =
        cn_pending c @ filter (owed (cn_user c) replay (map_of (cn_topics c)) (es @ [e])) (es @ [e])"
      unfolding owed_snoc[OF snoc.prems] step if_distrib[of cn_pending] add_entry_pending
        delivered_in_audience add_all_same f IH(1) by simp
    show "map_of (cn_topics (add_all now cfg replay (es @ [e]) c)) =
      (\<lambda>t. if still_follows (cn_user c) replay (map_of (cn_topics c)) (rev (es @ [e])) t
           then map_of (cn_topics c) t else None)"
    proof
      fix t
      show "map_of (cn_topics (add_all now cfg replay (es @ [e]) c)) t =
        (if still_follows (cn_user c) replay (map_of (cn_topics c)) (rev (es @ [e])) t
         then map_of (cn_topics c) t else None)"
        using add_entry_topics[of now cfg e ?c t, unfolded f add_all_same, unfolded IH(2)]
        unfolding step if_distrib[of cn_topics] if_distrib[of "\<lambda>m. map_of m t"] IH(2) by auto
    qed
  qed
qed

lemma catch_up_before_add_all:
  "catch_up_before now before replay (c, eg) =
     (case ring_read now (cn_cursor c) (eg_ring eg) of
        (Events events head, r) \<Rightarrow>
          (let events = filter (\<lambda>e. en_seq e < before) events;
               head = max (min head (before - 1)) (cn_cursor c)
           in if \<exists>e \<in> set events. en_gap e \<and> personal (cn_user c) e
              then (Some (Resync (user_topic # map fst (cn_topics c)) ''skipped''),
                    c\<lparr>cn_cursor := head\<rparr>, refetched (cn_user c) (eg\<lparr>eg_ring := r\<rparr>))
              else (None, add_all now (rg_config r) replay events (c\<lparr>cn_cursor := head\<rparr>),
                    eg\<lparr>eg_ring := r\<rparr>))
      | (Lost head, r) \<Rightarrow>
          (Some (Resync (user_topic # map fst (cn_topics c)) ''ring_rolled_over''),
           c\<lparr>cn_cursor := head\<rparr>, refetched (cn_user c) (eg\<lparr>eg_ring := r\<rparr>)))"
  unfolding catch_up_before_def lost_def Let_def add_all_def personal_def list_ex_iff Bex_def split
  by (simp split: prod.splits ring_read.splits)

definition published :: "past list \<Rightarrow> entry list" where
  "published hist = concat (map (\<lambda>p. case p of Published e \<Rightarrow> [e] | Skipped _ \<Rightarrow> []) hist)"

lemma published_simps [simp]:
  "published [] = []" "published (Published e # h) = e # published h"
  "published (Skipped s # h) = published h" "published (h @ h') = published h @ published h'"
  by (simp_all add: published_def)

lemma published_map [simp]: "published (map Published es) = es"
  by (induction es) simp_all

lemma published_filter:
  "published (filter (\<lambda>p. P (past_seq p)) h) = filter (\<lambda>e. P (en_seq e)) (published h)"
  by (induction h) (auto split: past.splits simp: published_def)

lemma set_published: "e \<in> set (published h) \<longleftrightarrow> Published e \<in> set h"
  by (induction h) (auto simp: published_def split: past.splits)

lemma sorted_wrt_filter_map: "sorted_wrt (<) (map f xs) \<Longrightarrow> sorted_wrt (<) (map f (filter P xs))"
  for f :: "entry \<Rightarrow> nat"
  by (induction xs) auto

lemma published_sorted:
  assumes "ring_ok hist clock r"
  shows "sorted_wrt (<) (map en_seq (published hist))"
proof -
  have "sorted_wrt (<) (map past_seq h) \<Longrightarrow> sorted_wrt (<) (map en_seq (published h))" for h
  proof (induction h)
    case (Cons p h)
    have "past_seq (Published e) = en_seq e" for e by simp
    with Cons show ?case by (cases p) (auto simp: set_published simp del: past_seq.simps, metis past_seq.simps(1))
  qed simp
  then show ?thesis using ring_okD(1)[OF assms] by blast
qed

text \<open>Something after the cursor is a marker that an event was skipped for this person, or is gone
  from the ring.\<close>

definition missed :: "past list \<Rightarrow> int \<Rightarrow> nat \<Rightarrow> ring \<Rightarrow> bool" where
  "missed hist user cursor r \<longleftrightarrow> (\<exists>p \<in> set hist. cursor < past_seq p \<and>
     ((\<exists>e. p = Published e \<and> en_gap e \<and> in_audience user (\<lambda>_. False) e) \<or>
      p \<notin> Published ` set (rg_entries r)))"

text \<open>What a catch-up did, in terms of what was published: either it took everything up to the new
  cursor, or something after the old cursor was lost or skipped for the person.\<close>

lemma catch_up_before_None:
  assumes ok: "ring_ok hist clock (eg_ring eg)" and "clock \<le> now"
    and res: "catch_up_before now before replay (c, eg) = (None, c', eg')"
  defines "events \<equiv> filter (\<lambda>e. cn_cursor c < en_seq e \<and> en_seq e < before) (published hist)"
  shows "cn_user c' = cn_user c \<and> cn_cursor c' = max (min (last_seq hist) (before - 1)) (cn_cursor c) \<and>
    eg' = eg\<lparr>eg_ring := evict now (eg_ring eg)\<rparr> \<and>
    (\<forall>p \<in> set hist. cn_cursor c < past_seq p \<longrightarrow> (\<exists>e. p = Published e)) \<and>
    (\<forall>e \<in> set events. \<not> (en_gap e \<and> personal (cn_user c) e)) \<and>
    cn_pending c' = cn_pending c @ filter (owed (cn_user c) replay (map_of (cn_topics c)) events) events \<and>
    map_of (cn_topics c') =
      (\<lambda>t. if still_follows (cn_user c) replay (map_of (cn_topics c)) (rev events) t
           then map_of (cn_topics c) t else None)"
proof -
  obtain es head where rd: "fst (ring_read now (cn_cursor c) (eg_ring eg)) = Events es head"
    using res by (cases "fst (ring_read now (cn_cursor c) (eg_ring eg))")
      (auto simp: catch_up_before_add_all split: prod.splits)
  have "ring_read now (cn_cursor c) (eg_ring eg) = (Events es head, evict now (eg_ring eg))"
    by (metis prod.collapse rd ring_read_ring)
  note rd' = this
  have es: "map Published es = filter (\<lambda>p. cn_cursor c < past_seq p) hist" "head = last_seq hist"
    using read_exact[OF ok assms(2), of "cn_cursor c"] by (auto simp: rd)
  have "es = filter (\<lambda>e. cn_cursor c < en_seq e) (published hist)"
    using published_filter[of "\<lambda>s. cn_cursor c < s" hist] by (simp add: es(1)[symmetric])
  then have ev: "filter (\<lambda>e. en_seq e < before) es = events"
    by (simp add: events_def conj_commute)
  have all: "\<forall>p \<in> set hist. cn_cursor c < past_seq p \<longrightarrow> (\<exists>e. p = Published e)"
  proof (intro ballI impI)
    fix p assume "p \<in> set hist" "cn_cursor c < past_seq p"
    then have "p \<in> set (map Published es)" unfolding es(1) by simp
    then show "\<exists>e. p = Published e" by auto
  qed
  let ?head = "max (min (last_seq hist) (before - 1)) (cn_cursor c)"
  have nogap: "\<not> (\<exists>e \<in> set events. en_gap e \<and> personal (cn_user c) e)"
    and c': "c' = add_all now (rg_config (evict now (eg_ring eg))) replay events (c\<lparr>cn_cursor := ?head\<rparr>)"
    and eg': "eg' = eg\<lparr>eg_ring := evict now (eg_ring eg)\<rparr>"
    using res by (auto simp: catch_up_before_add_all rd' Let_def ev es(2) split: if_splits)
  have "sorted_wrt (<) (map en_seq events)"
    unfolding events_def by (intro sorted_wrt_filter_map published_sorted[OF ok])
  then have "cn_pending c' = cn_pending c @ filter (owed (cn_user c) replay (map_of (cn_topics c)) events) events \<and>
      map_of (cn_topics c') = (\<lambda>t. if still_follows (cn_user c) replay (map_of (cn_topics c)) (rev events) t
        then map_of (cn_topics c) t else None)"
    using add_all_owed[of events now _ replay "c\<lparr>cn_cursor := ?head\<rparr>"] unfolding c'
    by (simp cong: if_cong)
  with nogap all show ?thesis by (simp add: c' eg')
qed

lemma catch_up_before_Some:
  assumes ok: "ring_ok hist clock (eg_ring eg)" and "clock \<le> now"
    and res: "catch_up_before now before replay (c, eg) = (Some f, c', eg')"
  shows "cn_user c' = cn_user c \<and> cn_pending c' = cn_pending c \<and> cn_topics c' = cn_topics c \<and>
    cn_cursor c' \<le> max (last_seq hist) (cn_cursor c) \<and>
    eg' = refetched (cn_user c) (eg\<lparr>eg_ring := evict now (eg_ring eg)\<rparr>) \<and>
    (\<exists>reason. f = Resync (user_topic # map fst (cn_topics c)) reason) \<and>
    missed hist (cn_user c) (cn_cursor c) (evict now (eg_ring eg))"
proof -
  obtain rd where rd: "ring_read now (cn_cursor c) (eg_ring eg) = (rd, evict now (eg_ring eg))"
    by (metis prod.collapse ring_read_ring)
  show ?thesis
  proof (cases rd)
    case (Events es head)
    have es: "map Published es = filter (\<lambda>p. cn_cursor c < past_seq p) hist" "head = last_seq hist"
      using read_exact[OF ok assms(2), of "cn_cursor c"] by (auto simp: rd Events)
    obtain e where e: "e \<in> set es" "en_gap e" "personal (cn_user c) e"
      using res by (auto simp: catch_up_before_add_all rd Events Let_def split: if_splits)
    have "Published e \<in> set (map Published es)" using e(1) by simp
    then have "Published e \<in> set hist \<and> cn_cursor c < en_seq e" unfolding es(1) by simp
    with e have "missed hist (cn_user c) (cn_cursor c) (evict now (eg_ring eg))"
      unfolding missed_def personal_in_audience by (intro bexI[of _ "Published e"]) auto
    with res show ?thesis
      by (auto simp: catch_up_before_add_all rd Events Let_def es(2) split: if_splits)
  next
    case (Lost head)
    with read_exact[OF ok assms(2), of "cn_cursor c"] res show ?thesis
      unfolding missed_def by (auto simp: catch_up_before_add_all rd)
  qed
qed

text \<open>A gap marker for the person is never read past without a resync.\<close>

lemma catch_up_marker:
  assumes ok: "ring_ok hist clock (eg_ring eg)" and "clock \<le> now"
    and res: "catch_up_before now before replay (c, eg) = (None, c', eg')"
    and g: "Published g \<in> set hist" "en_gap g" "personal (cn_user c) g" "cn_cursor c < en_seq g"
  shows "before \<le> en_seq g \<and> cn_cursor c' < en_seq g"
proof -
  note spec = catch_up_before_None[OF ok assms(2) res]
  have "g \<in> set (published hist)" using g(1) by (simp add: set_published)
  with spec g have b: "before \<le> en_seq g" by (force simp: not_less[symmetric])
  then show ?thesis using spec g(4) by auto
qed

subsection \<open>Writing\<close>

lemma subseq_revI: "subseq xs ys \<Longrightarrow> subseq (rev xs) (rev ys)"
proof (induction rule: list_emb.induct)
  case (list_emb_Cons xs ys y)
  then show ?case by (simp add: subseq_rev_drop_many)
next
  case (list_emb_Cons2 x y xs ys)
  then show ?case by (auto intro: list_emb_append_mono)
qed simp

lemma keep_latest_subseq: "subseq (keep_latest keys es) es"
  by (induction keys es rule: keep_latest.induct) (auto split: option.splits intro: list_emb_Cons)

lemma keep_latest_plain:
  "filter (\<lambda>e. en_coalesce e = None) (keep_latest keys es) = filter (\<lambda>e. en_coalesce e = None) es"
  by (induction keys es rule: keep_latest.induct) (auto split: option.splits)

lemma keep_latest_key:
  "filter (\<lambda>e. en_coalesce e = Some k) (keep_latest keys es) =
     (if k \<in> keys then [] else take 1 (filter (\<lambda>e. en_coalesce e = Some k) es))"
  by (induction keys es rule: keep_latest.induct) (auto split: option.splits)

lemma rev_keep_latest_key:
  "filter (\<lambda>e. en_coalesce e = Some k) (rev (keep_latest {} (rev es))) =
     (let xs = filter (\<lambda>e. en_coalesce e = Some k) es in if xs = [] then [] else [last xs])"
proof -
  have last: "rev (take 1 (rev xs)) = (if xs = [] then [] else [last xs])" for xs :: "entry list"
    by (cases xs rule: rev_cases) auto
  have "filter (\<lambda>e. en_coalesce e = Some k) (rev (keep_latest {} (rev es))) =
      rev (take 1 (rev (filter (\<lambda>e. en_coalesce e = Some k) es)))"
    by (simp add: rev_filter[symmetric] keep_latest_key)
  then show ?thesis by (simp only: last Let_def)
qed

lemma events_before_max:
  assumes "ring_ok hist clock r" and "last_seq hist < u64_max"
  shows "filter (\<lambda>e. cursor < en_seq e \<and> en_seq e < u64_max) (published hist) =
    filter (\<lambda>e. cursor < en_seq e) (published hist)"
proof -
  have "en_seq e < u64_max" if "e \<in> set (published hist)" for e
    using past_le_head[OF assms(1), of "Published e"] that assms(2) ring_okD(3)[OF assms(1)]
    by (simp add: set_published)
  then show ?thesis by (intro filter_cong) auto
qed

subsection \<open>A disconnect\<close>

lemma dispatch_same:
  "dispatch cfg fr c = (b, calls, c') \<Longrightarrow>
   cn_user c' = cn_user c \<and> cn_cursor c' = cn_cursor c \<and> cn_pending c' = cn_pending c"
proof -
  have "cn_user (follow cfg ts c) = cn_user c \<and> cn_cursor (follow cfg ts c) = cn_cursor c \<and>
      cn_pending (follow cfg ts c) = cn_pending c" for ts
    by (induction cfg ts c rule: follow.induct) auto
  then show "dispatch cfg fr c = (b, calls, c') \<Longrightarrow> ?thesis"
    by (induction cfg fr c rule: dispatch.induct) auto
qed

lemma owed_until:
  "filter (\<lambda>e. en_seq e < n) (filter (owed user replay au es) es) =
   filter (owed user replay au (filter (\<lambda>e. en_seq e < n) es)) (filter (\<lambda>e. en_seq e < n) es)"
proof -
  have same: "owed user replay au (filter (\<lambda>e. en_seq e < n) es) e = owed user replay au es e"
    if "en_seq e < n" for e
  proof -
    have "filter (\<lambda>e'. en_seq e' < en_seq e) (filter (\<lambda>e'. en_seq e' < n) es) =
        filter (\<lambda>e'. en_seq e' < en_seq e) es"
      using that by (auto intro: filter_cong)
    then show ?thesis unfolding owed_def by (simp only:)
  qed
  show ?thesis unfolding filter_filter by (intro filter_cong) (auto simp: same)
qed

text \<open>What a connection still writes when it is disconnected at \<open>sequence\<close>: of what was waiting and
  what it is owed after its cursor, the events published before that.\<close>

definition before_cutoff :: "past list \<Rightarrow> nat \<Rightarrow> connection \<Rightarrow> entry list" where
  "before_cutoff hist sequence c = filter (\<lambda>e. en_seq e < sequence) (cn_pending c) @
     (let events = filter (\<lambda>e. cn_cursor c < en_seq e \<and> en_seq e < sequence) (published hist)
      in filter (owed (cn_user c) False (map_of (cn_topics c)) events) events)"

text \<open>The connection after the client's frame, when the turn received one.\<close>

definition heard :: "sync_config \<Rightarrow> turn_event \<Rightarrow> connection \<Rightarrow> connection" where
  "heard cfg ev c = (case ev of Incoming (TextFrame f) \<Rightarrow> snd (snd (dispatch cfg f c)) | _ \<Rightarrow> c)"

lemma heard_same [simp]:
  "cn_user (heard cfg ev c) = cn_user c" "cn_cursor (heard cfg ev c) = cn_cursor c"
  "cn_pending (heard cfg ev c) = cn_pending c"
proof -
  have "cn_user (snd (snd (dispatch cfg f c))) = cn_user c \<and>
      cn_cursor (snd (snd (dispatch cfg f c))) = cn_cursor c \<and>
      cn_pending (snd (snd (dispatch cfg f c))) = cn_pending c" for f
    by (metis dispatch_same prod.collapse)
  then show "cn_user (heard cfg ev c) = cn_user c" "cn_cursor (heard cfg ev c) = cn_cursor c"
    "cn_pending (heard cfg ev c) = cn_pending c"
    by (auto simp: heard_def split: turn_event.splits incoming.splits)
qed

lemma disconnect_reads:
  assumes ok: "ring_ok hist clock (eg_ring eg)" and "clock \<le> now"
    and "(case seen of Some d \<Rightarrow> Some d | None \<Rightarrow> polled) = Some (sequence, reconnect)"
    and "disconnect now seen polled gapped (c, eg) = (b, c', eg')"
  shows "b = Some (Bye reconnect ''remote'') \<and> cn_user c' = cn_user c \<and>
    (cn_pending c' = before_cutoff hist sequence c \<or>
     (gapped \<or> missed hist (cn_user c) (cn_cursor c) (evict now (eg_ring eg))) \<and>
     cn_pending c' = filter (\<lambda>e. en_seq e < sequence) (cn_pending c))"
proof (cases gapped)
  case True
  then show ?thesis using assms(3,4) by (auto simp: disconnect_def)
next
  case False
  obtain f c1 eg1 where n: "catch_up_before now sequence False (c, eg) = (f, c1, eg1)" by (metis prod_cases3)
  have c': "b = Some (Bye reconnect ''remote'')" "cn_user c' = cn_user c1"
    "cn_pending c' = filter (\<lambda>e. en_seq e < sequence) (cn_pending c1)"
    using assms(3,4) False n by (auto simp: disconnect_def)
  show ?thesis
  proof (cases f)
    case None
    let ?ev = "filter (\<lambda>e. cn_cursor c < en_seq e \<and> en_seq e < sequence) (published hist)"
    have "filter (\<lambda>e. en_seq e < sequence) (filter (owed (cn_user c) False (map_of (cn_topics c)) ?ev) ?ev) =
        filter (owed (cn_user c) False (map_of (cn_topics c)) ?ev) ?ev"
      by (simp only: filter_id_conv) auto
    then show ?thesis
      using catch_up_before_None[OF ok assms(2) n[unfolded None]]
      by (simp add: c' before_cutoff_def Let_def)
  next
    case (Some g)
    then show ?thesis using catch_up_before_Some[OF ok assms(2) n[unfolded Some]] by (auto simp: c')
  qed
qed

text \<open>A turn whose \<^verbatim>\<open>select!\<close> chose the ring's change has read past the cutoff already.\<close>

lemma disconnect_after_catch_up:
  assumes ok: "ring_ok hist clock (eg_ring eg)" and "clock \<le> now" and "last_seq hist < u64_max"
    and "cn_cursor c \<le> last_seq hist"
    and "catch_up now False (c, eg) = (r, c1, eg1)"
    and "disconnect now None (Some (sequence, reconnect)) (r \<noteq> None) (c1, eg1) = (b, c', eg')"
  shows "b = Some (Bye reconnect ''remote'') \<and> cn_user c' = cn_user c \<and>
    (cn_pending c' = before_cutoff hist sequence c \<or>
     missed hist (cn_user c) (cn_cursor c) (evict now (eg_ring eg)) \<and>
     cn_pending c' = filter (\<lambda>e. en_seq e < sequence) (cn_pending c))"
proof (cases r)
  case None
  let ?ev = "filter (\<lambda>e. cn_cursor c < en_seq e) (published hist)"
  note c1 = catch_up_before_None[OF ok assms(2) assms(5)[unfolded catch_up_def None],
      unfolded events_before_max[OF ok assms(3)]]
  have cur: "cn_cursor c1 = last_seq hist" using c1 assms(3,4) by auto
  have ring: "eg_ring eg1 = evict now (eg_ring eg)" using c1 by simp
  then have ok1: "ring_ok hist now (eg_ring eg1)" using evict_ok[OF ok assms(2)] by simp
  have none: "filter (\<lambda>e. cn_cursor c1 < en_seq e \<and> en_seq e < sequence) (published hist) = []"
    using past_le_head[OF ok1] unfolding cur ring_okD(3)[OF ok1, symmetric]
    by (auto simp: filter_empty_conv set_published) (metis leD past_seq.simps(1))
  have "\<not> missed hist (cn_user c1) (cn_cursor c1) r" for r
    using past_le_head[OF ok1] unfolding cur missed_def ring_okD(3)[OF ok1, symmetric] by (auto simp: leD)
  then have "cn_pending c' = filter (\<lambda>e. en_seq e < sequence) (cn_pending c1)"
      "b = Some (Bye reconnect ''remote'')" "cn_user c' = cn_user c1"
    using disconnect_reads[OF ok1 order.refl _ assms(6), of sequence reconnect] None
    by (auto simp: before_cutoff_def none)
  moreover have "filter (\<lambda>e. en_seq e < sequence) ?ev =
      filter (\<lambda>e. cn_cursor c < en_seq e \<and> en_seq e < sequence) (published hist)"
    by (simp add: conj_commute)
  ultimately show ?thesis using c1 by (simp add: before_cutoff_def Let_def owed_until del: filter_filter)
next
  case (Some f)
  note c1 = catch_up_before_Some[OF ok assms(2) assms(5)[unfolded catch_up_def Some]]
  then show ?thesis using assms(6) Some by (auto simp: disconnect_def)
qed

subsection \<open>Properties of a connection\<close>

text \<open>C4. A live socket or a resumed one gets exactly what it is owed: a catch-up that reports nothing
  moves the cursor to the head and adds, in order, exactly the events published after the old
  cursor whose audience the person is in (a topic's only while still followed: up to the event
  that unsubscribes them), live-only events left out of a replay, with nothing after the cursor
  missing; otherwise it adds nothing and asks for a refetch, because an event after the cursor is
  gone from the ring or was skipped for this person.\<close>

theorem catch_up_exact:
  assumes "ring_step\<^sup>*\<^sup>* (ring_new cfg epoch, [], t0) (eg_ring eg, hist, clock)" and "clock \<le> now"
    and "last_seq hist < u64_max" and "cn_cursor c \<le> last_seq hist"
    and "catch_up now replay (c, eg) = (res, c', eg')"
  shows "case res of
      None \<Rightarrow> cn_cursor c' = last_seq hist \<and>
        \<not> (\<exists>s. Skipped s \<in> set hist \<and> cn_cursor c < s) \<and>
        (let events = filter (\<lambda>e. cn_cursor c < en_seq e) (published hist) in
         \<not> (\<exists>e \<in> set events. en_gap e \<and> in_audience (cn_user c) (\<lambda>_. False) e) \<and>
         cn_pending c' = cn_pending c @ filter (owed (cn_user c) replay (map_of (cn_topics c)) events) events \<and>
         map_of (cn_topics c') =
           (\<lambda>t. if still_follows (cn_user c) replay (map_of (cn_topics c)) (rev events) t
                then map_of (cn_topics c) t else None))
    | Some f \<Rightarrow> (\<exists>reason. f = Resync (user_topic # map fst (cn_topics c)) reason) \<and>
        cn_pending c' = cn_pending c \<and>
        missed hist (cn_user c) (cn_cursor c) (evict now (eg_ring eg))"
proof -
  have "ring_inv (ring_new cfg epoch, [], t0)" by (simp add: ring_inv_def ring_new_ok)
  then have ok: "ring_ok hist clock (eg_ring eg)"
    using ring_runs.inv_run[OF assms(1)] by (simp add: ring_inv_def)
  note res = assms(5)[unfolded catch_up_def]
  show ?thesis
  proof (cases res)
    case None
    then show ?thesis
      using catch_up_before_None[OF ok assms(2) res[unfolded None]] assms(3,4)
      unfolding events_before_max[OF ok assms(3)] by (auto simp: personal_in_audience Let_def)
  next
    case (Some f)
    then show ?thesis using catch_up_before_Some[OF ok assms(2) res[unfolded Some]] by simp
  qed
qed

definition example_engine :: "unit engine" where
  "example_engine = (engine_new example_config ''e'')\<lparr>eg_ring := example_ring\<rparr>"

theorem catch_up_exact_witness:
  "\<exists>c'. catch_up 20 False ((connection_new 5 0)\<lparr>cn_cursor := 1\<rparr>, example_engine) = (None, c', example_engine) \<and>
     cn_cursor c' = 3"
proof -
  let ?c = "(connection_new 5 0)\<lparr>cn_cursor := 1\<rparr>"
  have run: "ring_step\<^sup>*\<^sup>* (ring_new example_config ''e'', [], 0) (eg_ring example_engine, example_past, 12)"
    by (simp add: example_engine_def example_ring_run)
  have last: "last_seq example_past = 3" by (simp add: last_seq_def example_past_def)
  obtain f c' eg' where res: "catch_up 20 False (?c, example_engine) = (f, c', eg')" by (metis prod_cases3)
  have "evict 20 example_ring = example_ring"
    by (simp add: evict_def example_ring_entries example_config_def default_sync_config_def gap_entry_def)
  then have eg: "f = None \<and> eg' = example_engine"
    using res by (auto simp: catch_up_def catch_up_before_add_all example_engine_def ring_read_def Let_def
        example_ring_entries connection_new_def engine_new_def split: if_splits)
  have "cn_cursor ?c \<le> last_seq example_past" "last_seq example_past < u64_max"
    by (simp_all add: last u64_max_def)
  from catch_up_exact[OF run _ this(2,1) res] show ?thesis using eg res by (simp add: last)
qed

text \<open>C15. A disconnect cuts a connection off at its own sequence: the turn that received it, or whose
  poll found it, is the last, and before its \<^verbatim>\<open>bye\<close> writes exactly the events published before the
  disconnect: those waiting and those owed that it had not read, none that it had read past it,
  the latest of each coalescing key.  Only when one of the unread is gone from the ring or was
  skipped for the person does it write those waiting alone.\<close>

theorem disconnect_cutoff:
  assumes "ring_step\<^sup>*\<^sup>* (ring_new cfg epoch, [], t0) (eg_ring eg, hist, clock)" and "clock \<le> now"
    and "last_seq hist < u64_max" and "cn_cursor c \<le> last_seq hist" and "\<not> ends_turn ev"
    and "(case ev of Internal (Some d) \<Rightarrow> Some d | _ \<Rightarrow> polled) = Some (sequence, reconnect)"
  shows "tn_ended (turn viewer now polled ev (c, eg)) \<and>
    (\<exists>written b. tn_frames (turn viewer now polled ev (c, eg)) =
        (if ev = PingDue then [PingFrame] else []) @
        map Batch (chunks (max (flush_max (rg_config (eg_ring eg))) 1)
          (viewer (map (\<lambda>e. json_for e (cn_user c)) (outgoing (c\<lparr>cn_pending := written\<rparr>))))) @
        [bye_frame b] \<and>
      (b = Bye reconnect ''remote'' \<or> ev = Restart \<or> ev = ClientTimeout \<or> (\<exists>f. ev = Incoming (TextFrame f))) \<and>
      (written = before_cutoff hist sequence (heard (rg_config (eg_ring eg)) ev c) \<or>
       missed hist (cn_user c) (cn_cursor c) (evict now (eg_ring eg)) \<and>
       written = filter (\<lambda>e. en_seq e < sequence) (cn_pending c)))"
proof -
  have "ring_inv (ring_new cfg epoch, [], t0)" by (simp add: ring_inv_def ring_new_ok)
  then have ok: "ring_ok hist clock (eg_ring eg)"
    using ring_runs.inv_run[OF assms(1)] by (simp add: ring_inv_def)
  let ?cfg = "rg_config (eg_ring eg)" and ?c0 = "heard (rg_config (eg_ring eg)) ev c"
  let ?seen = "case ev of Internal d \<Rightarrow> d | _ \<Rightarrow> None"
  obtain r0 c1 eg1 where read: "(if ev = HeadChanged then catch_up now False (?c0, eg) else (None, ?c0, eg)) = (r0, c1, eg1)"
    by (metis prod_cases3)
  obtain b c2 eg2 where dis: "disconnect now ?seen polled (r0 \<noteq> None) (c1, eg1) = (b, c2, eg2)"
    by (metis prod_cases3)
  have cut: "b = Some (Bye reconnect ''remote'') \<and> cn_user c2 = cn_user c \<and>
    (cn_pending c2 = before_cutoff hist sequence ?c0 \<or>
     missed hist (cn_user c) (cn_cursor c) (evict now (eg_ring eg)) \<and>
     cn_pending c2 = filter (\<lambda>e. en_seq e < sequence) (cn_pending c))"
  proof (cases "ev = HeadChanged")
    case True
    then show ?thesis
      using disconnect_after_catch_up[OF ok assms(2,3), of ?c0 r0 c1 eg1 sequence reconnect b c2 eg2]
        assms(4,6) read dis by simp
  next
    case False
    have "(case ?seen of Some d \<Rightarrow> Some d | None \<Rightarrow> polled) = Some (sequence, reconnect)"
      using assms(6) by (auto split: turn_event.splits option.splits)
    with False show ?thesis
      using disconnect_reads[OF ok assms(2), of polled ?seen sequence reconnect "r0 \<noteq> None" ?c0 b c2 eg2] read dis
      by auto
  qed
  obtain b0 calls where b0: "(case ev of Incoming (TextFrame f) \<Rightarrow> dispatch ?cfg f c
               | Restart \<Rightarrow> (Some (Bye True ''server_restart''), [], c)
               | ClientTimeout \<Rightarrow> (Some (Bye True ''timeout''), [], c)
               | _ \<Rightarrow> (None, [], c)) = (b0, calls, ?c0)"
    and other: "b0 = None \<or> ev = Restart \<or> ev = ClientTimeout \<or> (\<exists>f. ev = Incoming (TextFrame f))"
    by (cases "(case ev of Incoming (TextFrame f) \<Rightarrow> dispatch ?cfg f c
               | Restart \<Rightarrow> (Some (Bye True ''server_restart''), [], c)
               | ClientTimeout \<Rightarrow> (Some (Bye True ''timeout''), [], c)
               | _ \<Rightarrow> (None, [], c))")
      (auto simp: heard_def split: turn_event.splits incoming.splits)
  let ?b = "case b0 of Some b \<Rightarrow> b | None \<Rightarrow> Bye reconnect ''remote''"
  have out: "outgoing c2 = outgoing (c\<lparr>cn_pending := cn_pending c2\<rparr>)" by (simp add: outgoing_def)
  have "tn_ended (turn viewer now polled ev (c, eg)) \<and> tn_frames (turn viewer now polled ev (c, eg)) =
      (if ev = PingDue then [PingFrame] else []) @
        map Batch (chunks (max (flush_max ?cfg) 1)
          (viewer (map (\<lambda>e. json_for e (cn_user c)) (outgoing (c\<lparr>cn_pending := cn_pending c2\<rparr>))))) @
        [bye_frame ?b]"
    using cut assms(5) dis read
    by (simp add: turn_def Let_def b0 read dis take_batches_def out split: option.splits)
  with cut other show ?thesis by (intro conjI exI[of _ "cn_pending c2"] exI[of _ ?b]) auto
qed

theorem disconnect_cutoff_witness:
  "tn_ended (turn id 20 (Some (3, False)) HeadChanged ((connection_new 5 0)\<lparr>cn_cursor := 1\<rparr>, example_engine))"
proof -
  let ?c = "(connection_new 5 0)\<lparr>cn_cursor := 1\<rparr>"
  have run: "ring_step\<^sup>*\<^sup>* (ring_new example_config ''e'', [], 0) (eg_ring example_engine, example_past, 12)"
    by (simp add: example_engine_def example_ring_run)
  have "last_seq example_past = 3" by (simp add: last_seq_def example_past_def)
  then have "last_seq example_past < u64_max" "cn_cursor ?c \<le> last_seq example_past"
    by (simp_all add: u64_max_def)
  from disconnect_cutoff[OF run _ this, of 20 HeadChanged "Some (3, False)" 3 False id]
  show ?thesis by (simp add: ends_turn_def)
qed

text \<open>Coalescing keeps the latest: the events written are the pending ones in order, all those
  without a key, and of those sharing a key exactly the last.\<close>

theorem outgoing_keeps_latest:
  "subseq (outgoing c) (cn_pending c) \<and>
   filter (\<lambda>e. en_coalesce e = None) (outgoing c) = filter (\<lambda>e. en_coalesce e = None) (cn_pending c) \<and>
   filter (\<lambda>e. en_coalesce e = Some k) (outgoing c) =
     (let xs = filter (\<lambda>e. en_coalesce e = Some k) (cn_pending c) in if xs = [] then [] else [last xs])"
proof -
  have "subseq (rev (keep_latest {} (rev (cn_pending c)))) (rev (rev (cn_pending c)))"
    by (rule subseq_revI[OF keep_latest_subseq])
  moreover have "filter (\<lambda>e. en_coalesce e = None) (rev (keep_latest {} (rev (cn_pending c)))) =
      filter (\<lambda>e. en_coalesce e = None) (cn_pending c)"
    by (simp add: rev_filter[symmetric] keep_latest_plain)
  ultimately show ?thesis by (simp add: outgoing_def rev_keep_latest_key)
qed

text \<open>Batches carry every outgoing event once, in order, at most \<open>flush_max\<close> to a frame and
  never an empty frame, and leave nothing pending.\<close>

theorem batches_partition:
  "(let (frames, c') = take_batches viewer cfg c in
    concat (map (\<lambda>f. case f of Batch es \<Rightarrow> es | _ \<Rightarrow> []) frames) =
      viewer (map (\<lambda>e. json_for e (cn_user c)) (outgoing c)) \<and>
    list_all (\<lambda>f. case f of Batch es \<Rightarrow> es \<noteq> [] \<and> length es \<le> max (flush_max cfg) 1 | _ \<Rightarrow> False) frames \<and>
    cn_pending c' = [] \<and> cn_cursor c' = cn_cursor c)"
  using chunks_size[of _ "max (flush_max cfg) 1"]
  by (auto simp: take_batches_def Let_def comp_def concat_chunks list_all_iff)

end
