(* ===== verification/SyncServer.thy ===== *)
theory SyncServer
  imports SyncConnection
begin

section \<open>The sync engine and its publishers\<close>

text \<open>
  The sync half of \<^verbatim>\<open>crates/cable/src/server.rs\<close> (what the application publishes or skips), with
  the publication sequence of the hub (\<^verbatim>\<open>Hub::sequenced\<close>, \<^verbatim>\<open>Hub::try_sequenced\<close> and
  \<^verbatim>\<open>Hub::sequence\<close> in \<^verbatim>\<open>crates/cable/src/pubsub.rs\<close>), and the system of all clients over one
  engine: those with a socket open, those opening one, and those away with a resume point.
\<close>

record 'p server =
  sv_seq :: nat
  sv_sync :: "'p engine option"

definition sequenced :: "(nat \<Rightarrow> 'p engine \<Rightarrow> 'p engine eval_result) \<Rightarrow> 'p engine \<Rightarrow> 'p server
    \<Rightarrow> (nat \<times> 'p server) eval_result" where
  "sequenced publish eg s =
     (let seq = sv_seq s + 1 in
      eval_map (\<lambda>eg'. (seq, s\<lparr>sv_seq := seq, sv_sync := Some eg'\<rparr>)) (publish seq eg))"

definition push_engine :: "(string \<Rightarrow> string) \<Rightarrow> nat \<Rightarrow> sync_publication \<Rightarrow> nat \<Rightarrow> 'p engine \<Rightarrow> 'p engine eval_result" where
  "push_engine json_string now p seq eg =
     eval_map (\<lambda>r. eg\<lparr>eg_ring := r\<rparr>) (push json_string now seq p (eg_ring eg))"

definition install_sync :: "sync_config \<Rightarrow> string \<Rightarrow> 'p server \<Rightarrow> 'p server" where
  "install_sync cfg epoch s =
     (case sv_sync s of None \<Rightarrow> s\<lparr>sv_sync := Some (engine_new cfg epoch)\<rparr> | Some _ \<Rightarrow> s)"

definition sync_head :: "'p server \<Rightarrow> nat" where
  "sync_head s = sv_seq s"

definition sync_position :: "'p server \<Rightarrow> (string \<times> nat) option" where
  "sync_position s = map_option (\<lambda>eg. (rg_epoch (eg_ring eg), rg_head (eg_ring eg))) (sv_sync s)"

definition skip_engine :: "nat \<Rightarrow> 'p engine \<Rightarrow> 'p engine" where
  "skip_engine seq eg = eg\<lparr>eg_ring := skip seq (eg_ring eg)\<rparr>"

definition record_skip :: "'p engine \<Rightarrow> 'p server \<Rightarrow> 'p server" where
  "record_skip eg s = s\<lparr>sv_seq := sv_seq s + 1, sv_sync := Some (skip_engine (sv_seq s + 1) eg)\<rparr>"

definition record_gap :: "'p engine \<Rightarrow> 'p server \<Rightarrow> 'p server" where
  "record_gap eg s = (if gap_needed (eg_ring eg) then record_skip eg s else s)"

definition sync_wanted :: "'p server \<Rightarrow> bool \<times> 'p server" where
  "sync_wanted s =
     (case sv_sync s of
        None \<Rightarrow> (False, s)
      | Some eg \<Rightarrow> if 0 < eg_observers eg then (True, s) else (False, record_gap eg s))"

definition sync_connected :: "int \<Rightarrow> 'p server \<Rightarrow> bool" where
  "sync_connected user s =
     (case sv_sync s of
        None \<Rightarrow> False
      | Some eg \<Rightarrow> (case eg_open eg user of None \<Rightarrow> False | Some n \<Rightarrow> 0 < n))"

text \<open>The two critical sections of \<^verbatim>\<open>sync_skipped_for\<close>: noting the skip under the lock of
  \<^verbatim>\<open>people\<close>, then, when a marker is needed, pushing it under the hub's.\<close>

definition note_skip :: "int \<Rightarrow> 'p engine \<Rightarrow> 'p server \<Rightarrow> bool \<times> 'p server" where
  "note_skip user eg s =
     (case gap_needed_for user eg of (needed, eg') \<Rightarrow> (needed, s\<lparr>sv_sync := Some eg'\<rparr>))"

definition mark_skip :: "nat \<Rightarrow> int \<Rightarrow> 'p engine \<Rightarrow> 'p server \<Rightarrow> 'p server" where
  "mark_skip now user eg s =
     s\<lparr>sv_seq := sv_seq s + 1,
       sv_sync := Some (eg\<lparr>eg_ring := push_gap now (sv_seq s + 1) user (eg_ring eg)\<rparr>)\<rparr>"

definition sync_skipped_for :: "nat \<Rightarrow> int \<Rightarrow> 'p server \<Rightarrow> 'p server" where
  "sync_skipped_for now user s =
     (case sv_sync s of
        None \<Rightarrow> s
      | Some eg \<Rightarrow>
         (case note_skip user eg s of (needed, s') \<Rightarrow>
            if \<not> needed then s'
            else (case sv_sync s' of None \<Rightarrow> s' | Some eg' \<Rightarrow> mark_skip now user eg' s')))"

definition sync_publish :: "(string \<Rightarrow> string) \<Rightarrow> nat \<Rightarrow> sync_publication \<Rightarrow> 'p server
    \<Rightarrow> (nat option \<times> 'p server) eval_result" where
  "sync_publish json_string now p s =
     (case sv_sync s of
        None \<Rightarrow> Returns (None, s)
      | Some eg \<Rightarrow> eval_map (\<lambda>(seq, s'). (Some seq, s')) (sequenced (push_engine json_string now p) eg s))"

text \<open>\<open>user_of\<close> and \<open>payload_of\<close> read a presence's person and its serialized payload.\<close>

definition sync_presence :: "(string \<Rightarrow> string) \<Rightarrow> ('p \<Rightarrow> int) \<Rightarrow> ('p \<Rightarrow> string) \<Rightarrow> nat \<Rightarrow> 'p \<Rightarrow> 'p server
    \<Rightarrow> (nat option \<times> 'p server) eval_result" where
  "sync_presence json_string user_of payload_of now presence s =
     (case sv_sync s of
        None \<Rightarrow> Returns (None, s)
      | Some eg \<Rightarrow>
          if eg_observers eg = 0 then Returns (None, record_gap eg s)
          else if eg_last_presence eg (user_of presence) = Some presence then Returns (None, s)
          else
            eval_map (\<lambda>(seq, s'). (seq, s'\<lparr>sv_sync := map_option
                (\<lambda>eg. eg\<lparr>eg_last_presence := (eg_last_presence eg)(user_of presence \<mapsto> presence)\<rparr>)
                (sv_sync s')\<rparr>))
              (sync_publish json_string now
                ((publication_new Everyone (payload_of presence))
                   \<lparr>pb_coalesce := Some (''presence:'' @
                      (if user_of presence < 0 then ''-'' @ string_of_nat (nat (- user_of presence))
                       else string_of_nat (nat (user_of presence))))\<rparr>) s))"

definition sync_publish_fencing :: "(string \<Rightarrow> string) \<Rightarrow> nat \<Rightarrow> sync_publication \<Rightarrow> string \<Rightarrow> 'p server
    \<Rightarrow> (nat option \<times> 'p server) eval_result" where
  "sync_publish_fencing json_string now p fence s =
     (case sv_sync s of
        None \<Rightarrow> Returns (None, s)
      | Some eg \<Rightarrow>
          eval_map (\<lambda>(seq, s'). (Some seq, s'))
            (sequenced (\<lambda>seq eg. eval_map (\<lambda>eg'. eg'\<lparr>eg_fences := fence_record fence seq (eg_fences eg')\<rparr>)
                                  (push_engine json_string now p seq eg)) eg s))"

text \<open>\<open>Inl ()\<close> is \<^verbatim>\<open>Err(Stale)\<close>; a refused publication keeps the sequence.\<close>

definition sync_publish_fresh :: "(string \<Rightarrow> string) \<Rightarrow> nat \<Rightarrow> sync_publication \<Rightarrow> string \<Rightarrow> nat \<Rightarrow> 'p server
    \<Rightarrow> ((unit + nat option) \<times> 'p server) eval_result" where
  "sync_publish_fresh json_string now p fence at_seq s =
     (case sv_sync s of
        None \<Rightarrow> Returns (Inr None, s)
      | Some eg \<Rightarrow>
          if crossed fence at_seq (eg_fences eg) then Returns (Inl (), s)
          else eval_map (\<lambda>(seq, s'). (Inr (Some seq), s')) (sequenced (push_engine json_string now p) eg s))"

subsection \<open>All clients of one engine\<close>

text \<open>The frames that make a client refetch everything.\<close>

fun refetch_frame :: "server_frame \<Rightarrow> bool" where
  "refetch_frame (Resync _ _) \<longleftrightarrow> True"
| "refetch_frame (Welcome _ _ resumed _ _) \<longleftrightarrow> \<not> resumed"
| "refetch_frame _ \<longleftrightarrow> False"

text \<open>A client of the sync socket: away with the point it would resume from; arrived with it, if it
  has one (its socket counted as its person's); answered with a starting cursor; about to be told to
  refetch (the loss read from the ring, the frame made, neither \<^verbatim>\<open>refetched\<close> called nor the
  frame written); or live.\<close>

datatype client =
  Away int nat
| Arrived int "nat option"
| Answered int "nat option" "nat \<times> bool"
| Telling server_frame "nat option" connection
| Live connection

fun person_of :: "client \<Rightarrow> int" where
  "person_of (Away u _) = u"
| "person_of (Arrived u _) = u"
| "person_of (Answered u _ _) = u"
| "person_of (Telling _ _ c) = cn_user c"
| "person_of (Live c) = cn_user c"

text \<open>The system's ghosts: what was published, the clients for whose person an event was skipped and
  who were not told to refetch since (\<open>sy_owed\<close>).  The calls under way: the people whose marker
  is to be pushed, the calls that saw no observer, those that found a gap to record.\<close>

record 'p system =
  sy_server :: "'p server"
  sy_past :: "past list"
  sy_clock :: nat
  sy_clients :: "nat \<rightharpoonup> client"
  sy_pushing :: "int list"
  sy_idle :: nat
  sy_skipping :: nat
  sy_owed :: "nat set"

text \<open>A client whose connection goes before it was told anything is away with its own point, if it has
  one.\<close>

definition back_away :: "int \<Rightarrow> nat option \<Rightarrow> client option \<Rightarrow> bool" where
  "back_away user point cl \<longleftrightarrow>
     (case point of None \<Rightarrow> cl = None | Some q \<Rightarrow> (\<exists>p \<le> q. cl = Some (Away user p)))"

text \<open>Each step is one critical section (the hub's lock with the ring's, or that of \<^verbatim>\<open>people\<close> or of
  \<^verbatim>\<open>presence\<close>), so every interleaving of publications, skips and connections is a run.  A
  presence is published as any event is, or skipped as in \<^verbatim>\<open>sync_wanted\<close>.  The observers and
  the sockets of a person are counted up and down at any time.\<close>

inductive sys_step :: "'p system \<Rightarrow> 'p system \<Rightarrow> bool" where
  publish: "sv_sync (sy_server s) = Some eg \<Longrightarrow> sy_clock s \<le> now \<Longrightarrow>
     entry_of js now (sv_seq (sy_server s) + 1) p = Returns e \<Longrightarrow>
     sync_publish js now p (sy_server s) = Returns (seq, sv') \<Longrightarrow>
     sys_step s (s\<lparr>sy_server := sv', sy_past := sy_past s @ [Published e], sy_clock := now\<rparr>)"
| publish_fencing: "sv_sync (sy_server s) = Some eg \<Longrightarrow> sy_clock s \<le> now \<Longrightarrow>
     entry_of js now (sv_seq (sy_server s) + 1) p = Returns e \<Longrightarrow>
     sync_publish_fencing js now p fence (sy_server s) = Returns (seq, sv') \<Longrightarrow>
     sys_step s (s\<lparr>sy_server := sv', sy_past := sy_past s @ [Published e], sy_clock := now\<rparr>)"
| publish_fresh: "sv_sync (sy_server s) = Some eg \<Longrightarrow> sy_clock s \<le> now \<Longrightarrow>
     entry_of js now (sv_seq (sy_server s) + 1) p = Returns e \<Longrightarrow>
     sync_publish_fresh js now p fence at_seq (sy_server s) = Returns (Inr seq, sv') \<Longrightarrow>
     sys_step s (s\<lparr>sy_server := sv', sy_past := sy_past s @ [Published e], sy_clock := now\<rparr>)"
| broadcast: "sys_step s (s\<lparr>sy_server := (sy_server s)\<lparr>sv_seq := sv_seq (sy_server s) + 1\<rparr>\<rparr>)"
| skip_noted: "sv_sync (sy_server s) = Some eg \<Longrightarrow> note_skip user eg (sy_server s) = (needed, sv') \<Longrightarrow>
     sys_step s (s\<lparr>sy_server := sv', sy_pushing := (if needed then [user] else []) @ sy_pushing s,
       sy_owed := sy_owed s \<union> {i. map_option person_of (sy_clients s i) = Some user}\<rparr>)"
| skip_marked: "sv_sync (sy_server s) = Some eg \<Longrightarrow> sy_clock s \<le> now \<Longrightarrow> user \<in> set (sy_pushing s) \<Longrightarrow>
     sys_step s (s\<lparr>sy_server := mark_skip now user eg (sy_server s), sy_clock := now,
       sy_past := sy_past s @ [Published (gap_entry now (sv_seq (sy_server s) + 1) user)],
       sy_pushing := remove1 user (sy_pushing s)\<rparr>)"
| idle_seen: "sv_sync (sy_server s) = Some eg \<Longrightarrow> eg_observers eg = 0 \<Longrightarrow>
     sys_step s (s\<lparr>sy_idle := sy_idle s + 1\<rparr>)"
| gap_checked: "sv_sync (sy_server s) = Some eg \<Longrightarrow> 0 < sy_idle s \<Longrightarrow>
     sys_step s (s\<lparr>sy_idle := sy_idle s - 1,
       sy_skipping := sy_skipping s + (if gap_needed (eg_ring eg) then 1 else 0)\<rparr>)"
| gap_recorded: "sv_sync (sy_server s) = Some eg \<Longrightarrow> 0 < sy_skipping s \<Longrightarrow>
     sys_step s (s\<lparr>sy_server := record_skip eg (sy_server s), sy_skipping := sy_skipping s - 1,
       sy_past := sy_past s @ [Skipped (sv_seq (sy_server s) + 1)]\<rparr>)"
| connected: "sv_sync (sy_server s) = Some eg \<Longrightarrow>
     sys_step s (s\<lparr>sy_server := (sy_server s)\<lparr>sv_sync := Some (observer_new eg)\<rparr>\<rparr>)"
| disconnected: "sv_sync (sy_server s) = Some eg \<Longrightarrow> observer_drop eg = Returns eg' \<Longrightarrow>
     sys_step s (s\<lparr>sy_server := (sy_server s)\<lparr>sv_sync := Some eg'\<rparr>\<rparr>)"
| person_closed: "sv_sync (sy_server s) = Some eg \<Longrightarrow> close_person user eg = Returns eg' \<Longrightarrow>
     sys_step s (s\<lparr>sy_server := (sy_server s)\<lparr>sv_sync := Some eg'\<rparr>\<rparr>)"
| arrive_new: "sv_sync (sy_server s) = Some eg \<Longrightarrow> sy_clients s i = None \<Longrightarrow>
     sys_step s (s\<lparr>sy_server := (sy_server s)\<lparr>sv_sync := Some (open_person user eg)\<rparr>,
       sy_clients := (sy_clients s)(i \<mapsto> Arrived user None), sy_owed := sy_owed s - {i}\<rparr>)"
| arrive_back: "sv_sync (sy_server s) = Some eg \<Longrightarrow> sy_clients s i = Some (Away user p) \<Longrightarrow>
     sys_step s (s\<lparr>sy_server := (sy_server s)\<lparr>sv_sync := Some (open_person user eg)\<rparr>,
       sy_clients := (sy_clients s)(i \<mapsto> Arrived user (Some p))\<rparr>)"
| answer: "sv_sync (sy_server s) = Some eg \<Longrightarrow> sy_clock s \<le> now \<Longrightarrow>
     sy_clients s i = Some (Arrived user point) \<Longrightarrow>
     resume now (map_option (\<lambda>p. (rg_epoch (eg_ring eg), int p)) point) (eg_ring eg) = (start, r) \<Longrightarrow>
     sys_step s (s\<lparr>sy_server := (sy_server s)\<lparr>sv_sync := Some (eg\<lparr>eg_ring := r\<rparr>)\<rparr>, sy_clock := now,
       sy_clients := (sy_clients s)(i \<mapsto> Answered user point start)\<rparr>)"
| greet: "sv_sync (sy_server s) = Some eg \<Longrightarrow> sy_clock s \<le> now \<Longrightarrow>
     sy_clients s i = Some (Answered user point start) \<Longrightarrow> cn_user c0 = user \<Longrightarrow>
     welcome_client now start (c0, eg) = (f, c, eg') \<Longrightarrow> \<not> refetch_frame f \<Longrightarrow>
     sys_step s (s\<lparr>sy_server := (sy_server s)\<lparr>sv_sync := Some eg'\<rparr>, sy_clock := now,
       sy_clients := (sy_clients s)(i \<mapsto> Live c)\<rparr>)"
| greet_afresh: "sv_sync (sy_server s) = Some eg \<Longrightarrow> sy_clock s \<le> now \<Longrightarrow>
     sy_clients s i = Some (Answered user point start) \<Longrightarrow> cn_user c0 = user \<Longrightarrow>
     welcome_client now start (c0, eg) = (f, c, eg') \<Longrightarrow> refetch_frame f \<Longrightarrow>
     sys_step s (s\<lparr>sy_server := (sy_server s)\<lparr>sv_sync := Some (eg'\<lparr>eg_gapped := eg_gapped eg\<rparr>)\<rparr>,
       sy_clock := now, sy_clients := (sy_clients s)(i \<mapsto> Telling f point c)\<rparr>)"
| read: "sv_sync (sy_server s) = Some eg \<Longrightarrow> sy_clock s \<le> now \<Longrightarrow> sy_clients s i = Some (Live c) \<Longrightarrow>
     catch_up_before now before replay (c, eg) = (None, c', eg') \<Longrightarrow>
     sys_step s (s\<lparr>sy_server := (sy_server s)\<lparr>sv_sync := Some eg'\<rparr>, sy_clock := now,
       sy_clients := (sy_clients s)(i \<mapsto> Live c')\<rparr>)"
| read_lost: "sv_sync (sy_server s) = Some eg \<Longrightarrow> sy_clock s \<le> now \<Longrightarrow> sy_clients s i = Some (Live c) \<Longrightarrow>
     catch_up_before now before replay (c, eg) = (Some f, c', eg') \<Longrightarrow>
     sys_step s (s\<lparr>sy_server := (sy_server s)\<lparr>sv_sync := Some (eg'\<lparr>eg_gapped := eg_gapped eg\<rparr>)\<rparr>,
       sy_clock := now, sy_clients := (sy_clients s)(i \<mapsto> Telling f (Some (cn_cursor c)) c')\<rparr>)"
| told: "sv_sync (sy_server s) = Some eg \<Longrightarrow> sy_clients s i = Some (Telling f point c) \<Longrightarrow>
     sys_step s (s\<lparr>sy_server := (sy_server s)\<lparr>sv_sync := Some (refetched (cn_user c) eg)\<rparr>,
       sy_clients := (sy_clients s)(i \<mapsto> Live c), sy_owed := sy_owed s - {i}\<rparr>)"
| untold: "sv_sync (sy_server s) = Some eg \<Longrightarrow> sy_clients s i = Some (Telling f point c) \<Longrightarrow>
     back_away (cn_user c) point cl \<Longrightarrow>
     sys_step s (s\<lparr>sy_server := (sy_server s)\<lparr>sv_sync := Some (refetched (cn_user c) eg)\<rparr>,
       sy_clients := (sy_clients s)(i := cl)\<rparr>)"
| frame: "sy_clients s i = Some (Live c) \<Longrightarrow> dispatch cfg fr c = (b, calls, c') \<Longrightarrow>
     sys_step s (s\<lparr>sy_clients := (sy_clients s)(i \<mapsto> Live c')\<rparr>)"
| batch: "sy_clients s i = Some (Live c) \<Longrightarrow>
     sys_step s (s\<lparr>sy_clients := (sy_clients s)(i \<mapsto> Live (snd (take_batches viewer cfg c)))\<rparr>)"
| leave: "sy_clients s i = Some (Live c) \<Longrightarrow> p \<le> cn_cursor c \<Longrightarrow>
     sys_step s (s\<lparr>sy_clients := (sy_clients s)(i \<mapsto> Away (cn_user c) p)\<rparr>)"
| give_up: "sy_clients s i = Some (Arrived user point) \<or> sy_clients s i = Some (Answered user point start) \<Longrightarrow>
     back_away user point cl \<Longrightarrow> sys_step s (s\<lparr>sy_clients := (sy_clients s)(i := cl)\<rparr>)"

text \<open>Where a client of \<open>user\<close> stands relative to a sequence.\<close>

fun point_before :: "nat \<Rightarrow> nat option \<Rightarrow> bool" where
  "point_before m None \<longleftrightarrow> True"
| "point_before m (Some p) \<longleftrightarrow> p < m"

fun behind :: "int \<Rightarrow> nat \<Rightarrow> client \<Rightarrow> bool" where
  "behind user m (Away u p) \<longleftrightarrow> (u = user \<longrightarrow> p < m)"
| "behind user m (Arrived u point) \<longleftrightarrow> (u = user \<longrightarrow> point_before m point)"
| "behind user m (Answered u point (c, resumed)) \<longleftrightarrow>
     (u = user \<longrightarrow> point_before m point \<and> (resumed \<longrightarrow> c < m))"
| "behind user m (Telling f point c) \<longleftrightarrow> (cn_user c = user \<longrightarrow> point_before m point)"
| "behind user m (Live c) \<longleftrightarrow> (cn_user c = user \<longrightarrow> cn_cursor c < m)"

fun within_head :: "nat \<Rightarrow> client \<Rightarrow> bool" where
  "within_head h (Away u p) \<longleftrightarrow> p \<le> h"
| "within_head h (Arrived u point) \<longleftrightarrow> point_before (Suc h) point"
| "within_head h (Answered u point (c, resumed)) \<longleftrightarrow> point_before (Suc h) point \<and> c \<le> h"
| "within_head h (Telling f point c) \<longleftrightarrow> point_before (Suc h) point \<and> cn_cursor c \<le> h \<and> refetch_frame f"
| "within_head h (Live c) \<longleftrightarrow> cn_cursor c \<le> h"

definition marked_gap :: "past list \<Rightarrow> int \<Rightarrow> nat \<Rightarrow> bool" where
  "marked_gap hist user m \<longleftrightarrow>
     (\<exists>g. Published g \<in> set hist \<and> en_gap g \<and> personal user g \<and> en_seq g = m)"

definition sys_ok :: "'p engine \<Rightarrow> 'p system \<Rightarrow> bool" where
  "sys_ok eg s \<longleftrightarrow> sv_sync (sy_server s) = Some eg \<and>
     ring_ok (sy_past s) (sy_clock s) (eg_ring eg) \<and> rg_head (eg_ring eg) \<le> sv_seq (sy_server s) \<and>
     (\<forall>i cl. sy_clients s i = Some cl \<longrightarrow> within_head (rg_head (eg_ring eg)) cl) \<and>
     (\<forall>user \<in> eg_gapped eg. user \<in> set (sy_pushing s) \<or> (\<exists>m. marked_gap (sy_past s) user m \<and>
        (\<forall>i cl. sy_clients s i = Some cl \<longrightarrow> behind user m cl))) \<and>
     (\<forall>i cl. i \<in> sy_owed s \<longrightarrow> sy_clients s i = Some cl \<longrightarrow> person_of cl \<in> set (sy_pushing s) \<or>
        (\<exists>m. marked_gap (sy_past s) (person_of cl) m \<and> behind (person_of cl) m cl))"

definition sys_inv :: "'p system \<Rightarrow> bool" where
  "sys_inv s \<longleftrightarrow> (\<exists>eg. sys_ok eg s)"

definition sys_init :: "sync_config \<Rightarrow> string \<Rightarrow> nat \<Rightarrow> 'p system" where
  "sys_init cfg epoch t = \<lparr>sy_server = install_sync cfg epoch \<lparr>sv_seq = 0, sv_sync = None\<rparr>,
     sy_past = [], sy_clock = t, sy_clients = Map.empty, sy_pushing = [], sy_idle = 0,
     sy_skipping = 0, sy_owed = {}\<rparr>"

subsection \<open>The invariant\<close>

lemma sys_okI:
  assumes "sv_sync (sy_server s) = Some eg" and "ring_ok (sy_past s) (sy_clock s) (eg_ring eg)"
    and "rg_head (eg_ring eg) \<le> sv_seq (sy_server s)"
    and "\<And>i cl. sy_clients s i = Some cl \<Longrightarrow> within_head (rg_head (eg_ring eg)) cl"
    and "\<And>user. user \<in> eg_gapped eg \<Longrightarrow> user \<notin> set (sy_pushing s) \<Longrightarrow> \<exists>m. marked_gap (sy_past s) user m \<and>
        (\<forall>i cl. sy_clients s i = Some cl \<longrightarrow> behind user m cl)"
    and "\<And>i cl. i \<in> sy_owed s \<Longrightarrow> sy_clients s i = Some cl \<Longrightarrow> person_of cl \<notin> set (sy_pushing s) \<Longrightarrow>
        \<exists>m. marked_gap (sy_past s) (person_of cl) m \<and> behind (person_of cl) m cl"
  shows "sys_ok eg s"
  using assms unfolding sys_ok_def by blast

lemma sys_okD:
  assumes "sys_ok eg s"
  shows "sv_sync (sy_server s) = Some eg" and "ring_ok (sy_past s) (sy_clock s) (eg_ring eg)"
    and "rg_head (eg_ring eg) \<le> sv_seq (sy_server s)"
    and "sy_clients s i = Some cl \<Longrightarrow> within_head (rg_head (eg_ring eg)) cl"
    and "user \<in> eg_gapped eg \<Longrightarrow> user \<notin> set (sy_pushing s) \<Longrightarrow> \<exists>m. marked_gap (sy_past s) user m \<and>
        (\<forall>i cl. sy_clients s i = Some cl \<longrightarrow> behind user m cl)"
    and "i \<in> sy_owed s \<Longrightarrow> sy_clients s i = Some cl \<Longrightarrow> person_of cl \<notin> set (sy_pushing s) \<Longrightarrow>
        \<exists>m. marked_gap (sy_past s) (person_of cl) m \<and> behind (person_of cl) m cl"
  using assms unfolding sys_ok_def by blast+

lemma point_before_mono: "point_before m point \<Longrightarrow> m \<le> m' \<Longrightarrow> point_before m' point"
  by (cases point) auto

lemma within_head_mono: "within_head h cl \<Longrightarrow> h \<le> h' \<Longrightarrow> within_head h' cl"
  by (induction h cl rule: within_head.induct) (auto elim: point_before_mono)

lemma within_head_behind: "within_head h cl \<Longrightarrow> h < m \<Longrightarrow> behind user m cl"
  by (induction h cl rule: within_head.induct) (auto elim: point_before_mono)

lemma marked_gap_mono: "marked_gap hist user m \<Longrightarrow> marked_gap (hist @ h) user m"
  by (auto simp: marked_gap_def)

lemma ring_ok_later: "ring_ok hist clock r \<Longrightarrow> clock \<le> now \<Longrightarrow> ring_ok hist now r"
  unfolding ring_ok_def ring_keeps_def by (blast intro: rightly_dropped_mono)

text \<open>A step that appends to the history, every client unchanged: markers stay, and one that is
  pushed is ahead of everyone.\<close>

lemma sys_ok_append:
  assumes ok: "sys_ok eg s" and new: "past_seq e = sv_seq (sy_server s) + 1"
    and s': "sv_sync (sy_server s') = Some eg'" "sv_seq (sy_server s') = sv_seq (sy_server s) + 1"
      "sy_past s' = sy_past s @ [e]" "sy_clients s' = sy_clients s" "sy_owed s' = sy_owed s"
    and ring: "ring_ok (sy_past s') (sy_clock s') (eg_ring eg')" "rg_head (eg_ring eg') = past_seq e"
    and pushed: "eg_gapped eg' = eg_gapped eg"
      "\<And>user. user \<in> set (sy_pushing s) \<Longrightarrow> user \<in> set (sy_pushing s') \<or> marked_gap [e] user (past_seq e)"
  shows "sys_ok eg' s'"
proof (rule sys_okI)
  have lt: "rg_head (eg_ring eg) < past_seq e" using sys_okD(3)[OF ok] new by simp
  show "rg_head (eg_ring eg') \<le> sv_seq (sy_server s')" by (simp add: ring new s')
  show "within_head (rg_head (eg_ring eg')) cl" if "sy_clients s' i = Some cl" for i cl
    using within_head_mono[OF sys_okD(4)[OF ok], of i cl "past_seq e"] that lt by (simp add: s' ring)
  have ahead: "behind user (past_seq e) cl" if "sy_clients s i = Some cl" for i cl user
    using sys_okD(4)[OF ok that] lt by (rule within_head_behind)
  have new_mark: "marked_gap (sy_past s') user (past_seq e)"
    if "user \<in> set (sy_pushing s)" "user \<notin> set (sy_pushing s')" for user
    using pushed(2)[OF that(1)] that(2) by (auto simp: s' marked_gap_def)
  show "\<exists>m. marked_gap (sy_past s') user m \<and> (\<forall>i cl. sy_clients s' i = Some cl \<longrightarrow> behind user m cl)"
    if u: "user \<in> eg_gapped eg'" "user \<notin> set (sy_pushing s')" for user
  proof (cases "user \<in> set (sy_pushing s)")
    case True
    with new_mark u ahead show ?thesis unfolding s' by blast
  next
    case False
    with sys_okD(5)[OF ok, of user] u pushed(1) show ?thesis
      unfolding s' by (metis marked_gap_mono)
  qed
  show "\<exists>m. marked_gap (sy_past s') (person_of cl) m \<and> behind (person_of cl) m cl"
    if u: "i \<in> sy_owed s'" "sy_clients s' i = Some cl" "person_of cl \<notin> set (sy_pushing s')" for i cl
  proof (cases "person_of cl \<in> set (sy_pushing s)")
    case True
    with new_mark u ahead show ?thesis unfolding s' by blast
  next
    case False
    with sys_okD(6)[OF ok, of i cl] u show ?thesis unfolding s' by (metis marked_gap_mono)
  qed
qed (use ring s' in simp_all)

text \<open>A step of one client that leaves the ring's content alone: its new state is within the head, and
  behind every marker it was behind, as far as the remaining gaps and debts need it.\<close>

lemma sys_ok_client:
  assumes ok: "sys_ok eg s"
    and s': "sv_sync (sy_server s') = Some eg'" "sv_seq (sy_server s') = sv_seq (sy_server s)"
      "sy_past s' = sy_past s" "sy_pushing s' = sy_pushing s" "sy_clients s' = (sy_clients s)(i := cl')"
    and owed: "sy_owed s' \<subseteq> sy_owed s"
    and ring: "ring_ok (sy_past s) (sy_clock s') (eg_ring eg')" "rg_head (eg_ring eg') = rg_head (eg_ring eg)"
    and gapped: "eg_gapped eg' \<subseteq> eg_gapped eg"
    and head: "\<And>cl. cl' = Some cl \<Longrightarrow> within_head (rg_head (eg_ring eg)) cl"
    and same: "\<And>cl. cl' = Some cl \<Longrightarrow> i \<in> sy_owed s' \<Longrightarrow>
         \<exists>cl0. sy_clients s i = Some cl0 \<and> person_of cl0 = person_of cl"
    and mark: "\<And>cl user m. cl' = Some cl \<Longrightarrow> user \<in> eg_gapped eg' \<or> i \<in> sy_owed s' \<Longrightarrow>
         marked_gap (sy_past s) user m \<Longrightarrow>
         (\<And>cl0. sy_clients s i = Some cl0 \<Longrightarrow> behind user m cl0) \<Longrightarrow> behind user m cl"
  shows "sys_ok eg' s'"
proof (rule sys_okI)
  show "within_head (rg_head (eg_ring eg')) cl" if "sy_clients s' j = Some cl" for j cl
    using sys_okD(4)[OF ok] that head by (auto simp: s' ring split: if_splits)
  show "\<exists>m. marked_gap (sy_past s') user m \<and> (\<forall>i cl. sy_clients s' i = Some cl \<longrightarrow> behind user m cl)"
    if u: "user \<in> eg_gapped eg'" "user \<notin> set (sy_pushing s')" for user
  proof -
    obtain m where m: "marked_gap (sy_past s) user m"
      "\<And>i cl. sy_clients s i = Some cl \<Longrightarrow> behind user m cl"
      using sys_okD(5)[OF ok, of user] u gapped s' by auto
    then have "behind user m cl" if "cl' = Some cl" for cl using mark[OF that] u by blast
    with m show ?thesis by (auto simp: s' split: if_splits)
  qed
  show "\<exists>m. marked_gap (sy_past s') (person_of cl) m \<and> behind (person_of cl) m cl"
    if u: "j \<in> sy_owed s'" "sy_clients s' j = Some cl" "person_of cl \<notin> set (sy_pushing s')" for j cl
  proof (cases "j = i")
    case False
    then show ?thesis using sys_okD(6)[OF ok, of j cl] u owed by (auto simp: s')
  next
    case True
    then have cl: "cl' = Some cl" "i \<in> sy_owed s'" using u by (auto simp: s')
    then obtain cl0 where cl0: "sy_clients s i = Some cl0" "person_of cl0 = person_of cl" using same by blast
    then obtain m where "marked_gap (sy_past s) (person_of cl) m" "behind (person_of cl) m cl0"
      using sys_okD(6)[OF ok, of i cl0] u(3) cl(2) owed by (auto simp: s')
    with mark[OF cl(1)] cl cl0 show ?thesis by (metis option.inject s'(3))
  qed
qed (use ring s' sys_okD(3)[OF ok] in simp_all)

lemma push_engine_eq:
  assumes "entry_of js now seq p = Returns e"
  shows "push_engine js now p seq eg = Returns (eg\<lparr>eg_ring := append_entry e now (eg_ring eg)\<rparr>)"
  using assms by (simp add: push_engine_def push_def)

lemma catch_up_before_sys:
  assumes ok: "ring_ok hist clock (eg_ring eg)" and now: "clock \<le> now"
    and res: "catch_up_before now before replay (c, eg) = (f, c', eg')"
    and le: "cn_cursor c \<le> rg_head (eg_ring eg)"
  shows "ring_ok hist now (eg_ring eg') \<and> rg_head (eg_ring eg') = rg_head (eg_ring eg) \<and>
    eg_gapped eg' = (if f = None then eg_gapped eg else eg_gapped eg - {cn_user c}) \<and>
    cn_user c' = cn_user c \<and> cn_cursor c' \<le> rg_head (eg_ring eg) \<and>
    (\<forall>fr. f = Some fr \<longrightarrow> refetch_frame fr)"
proof (cases f)
  case None
  note spec = catch_up_before_None[OF ok now res[unfolded None]]
  show ?thesis
    using spec le evict_ok[OF ok now] ring_okD(3)[OF ok] by (auto simp: None)
next
  case (Some f')
  note spec = catch_up_before_Some[OF ok now res[unfolded Some]]
  show ?thesis
    using spec le evict_ok[OF ok now] ring_okD(3)[OF ok] by (auto simp: Some refetched_def)
qed

lemma catch_up_behind:
  assumes ok: "ring_ok hist clock (eg_ring eg)" and now: "clock \<le> now"
    and res: "catch_up_before now before replay (c, eg) = (None, c', eg')"
    and m: "marked_gap hist (cn_user c) m" "cn_cursor c < m"
  shows "cn_cursor c' < m"
  using catch_up_marker[OF ok now res] m by (auto simp: marked_gap_def)

lemma welcome_client_sys:
  assumes ok: "ring_ok hist clock (eg_ring eg)" and now: "clock \<le> now"
    and res: "welcome_client now (cursor, resumed) (c0, eg) = (f, c, eg')"
    and le: "cursor \<le> rg_head (eg_ring eg)"
  shows "ring_ok hist now (eg_ring eg') \<and> rg_head (eg_ring eg') = rg_head (eg_ring eg) \<and>
    cn_user c = cn_user c0 \<and> cn_cursor c \<le> rg_head (eg_ring eg) \<and>
    (if refetch_frame f then eg_gapped eg' = eg_gapped eg - {cn_user c0}
     else eg_gapped eg' = eg_gapped eg \<and> resumed \<and>
       (\<forall>m. marked_gap hist (cn_user c0) m \<and> cursor < m \<longrightarrow> cn_cursor c < m))"
proof (cases resumed)
  case False
  then show ?thesis using res le ring_ok_later[OF ok now] by (auto simp: welcome_client_def refetched_def)
next
  case True
  obtain g c2 eg2 where cu: "catch_up_before now u64_max True (c0\<lparr>cn_cursor := cursor\<rparr>, eg) = (g, c2, eg2)"
    by (metis prod_cases3)
  note spec = catch_up_before_sys[OF ok now cu, simplified, OF le]
  show ?thesis
  proof (cases g)
    case None
    have c: "cn_user c = cn_user c2" "cn_cursor c = cn_cursor c2" "eg' = eg2" "\<not> refetch_frame f"
      using res cu True None by (auto simp: welcome_client_def catch_up_def)
    have "cn_cursor c2 < m" if "marked_gap hist (cn_user c0) m" "cursor < m" for m
      using catch_up_behind[OF ok now cu[unfolded None]] that by simp
    then show ?thesis using spec None True unfolding c(1-3) by (simp add: c(4))
  next
    case (Some h)
    have c: "c = c2" "eg' = refetched (cn_user c2) eg2" "refetch_frame f"
      using res cu True Some by (auto simp: welcome_client_def catch_up_def)
    have "cn_user c2 = cn_user c0" "ring_ok hist now (eg_ring eg2)" "cn_cursor c2 \<le> rg_head (eg_ring eg)"
      "rg_head (eg_ring eg2) = rg_head (eg_ring eg)" "eg_gapped eg2 = eg_gapped eg - {cn_user c0}"
      using spec Some by simp_all
    then show ?thesis by (simp add: c refetched_def)
  qed
qed

lemma back_away_cases:
  assumes "back_away user point cl'" and "cl' = Some cl"
  obtains q p where "point = Some q" "p \<le> q" "cl = Away user p"
  using assms by (auto simp: back_away_def split: option.splits)

lemma sys_step_inv:
  assumes "sys_step s s'" and "sys_inv s"
  shows "sys_inv s'"
proof -
  have "sys_ok eg s \<Longrightarrow> \<exists>eg'. sys_ok eg' s'" for eg
    using assms(1)
  proof (induction rule: sys_step.induct)
    case (publish s eg1 now js p e seq sv')
    have lt: "rg_head (eg_ring eg) < en_seq e"
      using entry_of_seq[OF publish(3)] sys_okD(3)[OF publish(5)] by simp
    show ?case
      using publish(1,3,4) sys_okD(1)[OF publish(5)] append_ok[OF sys_okD(2)[OF publish(5)] publish(2) lt]
      by (intro exI[of _ "eg\<lparr>eg_ring := append_entry e now (eg_ring eg)\<rparr>"]
            sys_ok_append[OF publish(5), of "Published e"])
         (auto simp: sync_publish_def sequenced_def push_engine_eq Let_def append_entry_def dest: entry_of_seq)
  next
    case (publish_fencing s eg1 now js p e fence seq sv')
    have lt: "rg_head (eg_ring eg) < en_seq e"
      using entry_of_seq[OF publish_fencing(3)] sys_okD(3)[OF publish_fencing(5)] by simp
    show ?case
      using publish_fencing(1,3,4) sys_okD(1)[OF publish_fencing(5)]
        append_ok[OF sys_okD(2)[OF publish_fencing(5)] publish_fencing(2) lt]
      by (intro exI[of _ "eg\<lparr>eg_ring := append_entry e now (eg_ring eg),
            eg_fences := fence_record fence (sv_seq (sy_server s) + 1) (eg_fences eg)\<rparr>"]
            sys_ok_append[OF publish_fencing(5), of "Published e"])
         (auto simp: sync_publish_fencing_def sequenced_def push_engine_eq Let_def append_entry_def dest: entry_of_seq)
  next
    case (publish_fresh s eg1 now js p e fence at_seq seq sv')
    have lt: "rg_head (eg_ring eg) < en_seq e"
      using entry_of_seq[OF publish_fresh(3)] sys_okD(3)[OF publish_fresh(5)] by simp
    show ?case
      using publish_fresh(1,3,4) sys_okD(1)[OF publish_fresh(5)]
        append_ok[OF sys_okD(2)[OF publish_fresh(5)] publish_fresh(2) lt]
      by (intro exI[of _ "eg\<lparr>eg_ring := append_entry e now (eg_ring eg)\<rparr>"]
            sys_ok_append[OF publish_fresh(5), of "Published e"])
         (auto simp: sync_publish_fresh_def sequenced_def push_engine_eq Let_def append_entry_def
           split: if_splits dest: entry_of_seq)
  next
    case (broadcast s)
    then show ?case by (intro exI[of _ eg]) (simp add: sys_ok_def)
  next
    case (skip_noted s eg1 user needed sv')
    have eg: "eg1 = eg" using skip_noted(1) sys_okD(1)[OF skip_noted(3)] by simp
    let ?eg = "eg\<lparr>eg_gapped := insert user (eg_gapped eg)\<rparr>"
    have n: "needed = (user \<notin> eg_gapped eg)" "sv' = (sy_server s)\<lparr>sv_sync := Some ?eg\<rparr>"
      using skip_noted(2) by (auto simp: note_skip_def gap_needed_for_def eg)
    note okD = sys_okD[OF skip_noted(3)]
    show ?case
    proof (intro exI[of _ ?eg] sys_okI, goal_cases)
      case (5 u)
      then show ?case using okD(5)[of u] by (auto simp: n split: if_splits)
    next
      case (6 i cl)
      show ?case
      proof (cases "i \<in> sy_owed s")
        case True
        then show ?thesis using okD(6)[of i cl] 6 by (auto simp: n split: if_splits)
      next
        case False
        then have "person_of cl = user" "user \<in> eg_gapped eg" using 6 by (auto simp: n split: if_splits)
        then show ?thesis using okD(5)[of user] 6 by (auto simp: n split: if_splits)
      qed
    qed (use okD in \<open>auto simp: n\<close>)
  next
    case (skip_marked s eg1 now user)
    have eg: "eg1 = eg" using skip_marked(1) sys_okD(1)[OF skip_marked(4)] by simp
    let ?g = "gap_entry now (sv_seq (sy_server s) + 1) user"
    have lt: "rg_head (eg_ring eg) < en_seq ?g" using sys_okD(3)[OF skip_marked(4)] by simp
    have mark: "marked_gap [Published ?g] user (en_seq ?g)" by (simp add: marked_gap_def)
    have "u \<in> set (remove1 user (sy_pushing s)) \<or> u = user" if "u \<in> set (sy_pushing s)" for u
      using that by (metis in_set_remove1)
    then show ?case
      using append_ok[OF sys_okD(2)[OF skip_marked(4)] skip_marked(2) lt] mark
      by (intro exI[of _ "eg\<lparr>eg_ring := append_entry ?g now (eg_ring eg)\<rparr>"]
            sys_ok_append[OF skip_marked(4), of "Published ?g"])
         (auto simp: mark_skip_def push_gap_def eg append_entry_def)
  next
    case (idle_seen s eg1)
    then show ?case by (intro exI[of _ eg]) (simp add: sys_ok_def)
  next
    case (gap_checked s eg1)
    then show ?case by (intro exI[of _ eg]) (simp add: sys_ok_def)
  next
    case (gap_recorded s eg1)
    have eg: "eg1 = eg" using gap_recorded(1) sys_okD(1)[OF gap_recorded(3)] by simp
    let ?seq = "sv_seq (sy_server s) + 1"
    have lt: "rg_head (eg_ring eg) < ?seq" using sys_okD(3)[OF gap_recorded(3)] by simp
    show ?case
      using skip_ok[OF sys_okD(2)[OF gap_recorded(3)] lt]
      by (intro exI[of _ "skip_engine ?seq eg"] sys_ok_append[OF gap_recorded(3), of "Skipped ?seq"])
         (auto simp: record_skip_def skip_engine_def skip_def eg)
  next
    case (connected s eg1)
    then show ?case
      by (intro exI[of _ "observer_new eg"]) (auto simp: sys_ok_def observer_new_def)
  next
    case (disconnected s eg1 eg')
    then have "eg_ring eg' = eg_ring eg \<and> eg_gapped eg' = eg_gapped eg"
      by (auto simp: sys_ok_def observer_drop_def Let_def split: if_splits)
    with disconnected(3) show ?case by (intro exI[of _ eg']) (simp add: sys_ok_def)
  next
    case (person_closed s eg1 user eg')
    then have "eg_ring eg' = eg_ring eg \<and> eg_gapped eg' = eg_gapped eg"
      by (auto simp: sys_ok_def close_person_def Let_def split: if_splits option.splits nat.splits)
    with person_closed(3) show ?case by (intro exI[of _ eg']) (simp add: sys_ok_def)
  next
    case (arrive_new s eg1 i user)
    have eg: "eg1 = eg" using arrive_new(1) sys_okD(1)[OF arrive_new(3)] by simp
    show ?case
      using sys_okD(2)[OF arrive_new(3)]
      by (intro exI[of _ "open_person user eg"] sys_ok_client[OF arrive_new(3), of _ _ i "Some (Arrived user None)"])
         (auto simp: open_person_def eg)
  next
    case (arrive_back s eg1 i user p)
    have eg: "eg1 = eg" using arrive_back(1) sys_okD(1)[OF arrive_back(3)] by simp
    show ?case
      using arrive_back(2) sys_okD(2)[OF arrive_back(3)] sys_okD(4)[OF arrive_back(3), of i]
      by (intro exI[of _ "open_person user eg"] sys_ok_client[OF arrive_back(3), of _ _ i "Some (Arrived user (Some p))"])
         (auto simp: open_person_def eg less_Suc_eq_le)
  next
    case (answer s eg1 now i user point start r)
    have eg: "eg1 = eg" using answer(1) sys_okD(1)[OF answer(5)] by simp
    have r: "r = (evict now (eg_ring eg))\<lparr>rg_handed_out := True\<rparr>"
      using resume_ring[of now _ "eg_ring eg"] answer(4) eg by (metis snd_conv)
    obtain c rs where start: "start = (c, rs)" by force
    have c: "rs \<Longrightarrow> point = Some c" "c \<le> rg_head (eg_ring eg)"
      using answer(4) by (auto simp: start resume_def Let_def eg split: option.splits if_splits)
    show ?case
      using evict_ok[OF sys_okD(2)[OF answer(5)] answer(2)] answer(3) c sys_okD(4)[OF answer(5,3)]
      by (intro exI[of _ "eg\<lparr>eg_ring := r\<rparr>"] sys_ok_client[OF answer(5), of _ _ i "Some (Answered user point start)"])
         (auto simp: eg r handed_out_ok start)
  next
    case (greet s eg1 now i user point start c0 f c eg')
    have eg: "eg1 = eg" using greet(1) sys_okD(1)[OF greet(7)] by simp
    obtain cur rs where start: "start = (cur, rs)" by force
    have le: "cur \<le> rg_head (eg_ring eg)" using sys_okD(4)[OF greet(7,3)] by (simp add: start)
    note spec = welcome_client_sys[OF sys_okD(2)[OF greet(7)] greet(2) greet(5)[unfolded start eg] le]
    show ?case
      using spec greet(3,4,6)
      by (intro exI[of _ eg'] sys_ok_client[OF greet(7), of _ _ i "Some (Live c)"]) (auto simp: start)
  next
    case (greet_afresh s eg1 now i user point start c0 f c eg')
    have eg: "eg1 = eg" using greet_afresh(1) sys_okD(1)[OF greet_afresh(7)] by simp
    obtain cur rs where start: "start = (cur, rs)" by force
    note head = sys_okD(4)[OF greet_afresh(7,3)]
    then have le: "cur \<le> rg_head (eg_ring eg)" by (simp add: start)
    note spec = welcome_client_sys[OF sys_okD(2)[OF greet_afresh(7)] greet_afresh(2) greet_afresh(5)[unfolded start eg] le]
    then have "ring_ok (sy_past s) now (eg_ring eg')" "rg_head (eg_ring eg') = rg_head (eg_ring eg)"
      "cn_user c = user" "cn_cursor c \<le> rg_head (eg_ring eg)"
      using greet_afresh(4) by blast+
    then show ?case
      using greet_afresh(3,6) head
      by (intro exI[of _ "eg'\<lparr>eg_gapped := eg_gapped eg\<rparr>"]
            sys_ok_client[OF greet_afresh(7), of _ _ i "Some (Telling f point c)"]) (auto simp: start eg)
  next
    case (read s eg1 now i c before replay c' eg')
    have eg: "eg1 = eg" using read(1) sys_okD(1)[OF read(5)] by simp
    have le: "cn_cursor c \<le> rg_head (eg_ring eg)" using sys_okD(4)[OF read(5,3)] by simp
    note spec = catch_up_before_sys[OF sys_okD(2)[OF read(5)] read(2) read(4)[unfolded eg] le]
    note beh = catch_up_behind[OF sys_okD(2)[OF read(5)] read(2) read(4)[unfolded eg]]
    show ?case
      using spec read(3) beh
      by (intro exI[of _ eg'] sys_ok_client[OF read(5), of _ _ i "Some (Live c')"]) auto
  next
    case (read_lost s eg1 now i c before replay f c' eg')
    have eg: "eg1 = eg" using read_lost(1) sys_okD(1)[OF read_lost(5)] by simp
    have le: "cn_cursor c \<le> rg_head (eg_ring eg)" using sys_okD(4)[OF read_lost(5,3)] by simp
    note spec = catch_up_before_sys[OF sys_okD(2)[OF read_lost(5)] read_lost(2) read_lost(4)[unfolded eg] le]
    then have "ring_ok (sy_past s) now (eg_ring eg')" "rg_head (eg_ring eg') = rg_head (eg_ring eg)"
      "cn_user c' = cn_user c" "cn_cursor c' \<le> rg_head (eg_ring eg)" "refetch_frame f"
      by simp_all
    then show ?case
      using read_lost(3) le
      by (intro exI[of _ "eg'\<lparr>eg_gapped := eg_gapped eg\<rparr>"]
            sys_ok_client[OF read_lost(5), of _ _ i "Some (Telling f (Some (cn_cursor c)) c')"]) (auto simp: eg)
  next
    case (told s eg1 i f point c)
    have eg: "eg1 = eg" using told(1) sys_okD(1)[OF told(3)] by simp
    show ?case
      using told(2) sys_okD(2)[OF told(3)] sys_okD(4)[OF told(3,2)]
      by (intro exI[of _ "refetched (cn_user c) eg"] sys_ok_client[OF told(3), of _ _ i "Some (Live c)"])
         (auto simp: refetched_def eg)
  next
    case (untold s eg1 i f point c cl)
    have eg: "eg1 = eg" using untold(1) sys_okD(1)[OF untold(4)] by simp
    show ?case
      using untold(2,3) sys_okD(2)[OF untold(4)] sys_okD(4)[OF untold(4,2)]
      by (intro exI[of _ "refetched (cn_user c) eg"] sys_ok_client[OF untold(4), of _ _ i cl])
         (auto simp: refetched_def eg elim!: back_away_cases)
  next
    case (frame s i c cfg fr b calls c')
    then show ?case
      using sys_okD[OF frame(3)] dispatch_same[OF frame(2)] sys_okD(4)[OF frame(3,1)]
      by (intro exI[of _ eg] sys_ok_client[OF frame(3), of _ _ i "Some (Live c')"]) auto
  next
    case (batch s i c viewer cfg)
    then show ?case
      using sys_okD[OF batch(2)] sys_okD(4)[OF batch(2,1)]
      by (intro exI[of _ eg] sys_ok_client[OF batch(2), of _ _ i "Some (Live (snd (take_batches viewer cfg c)))"])
         (auto simp: take_batches_def)
  next
    case (leave s i c p)
    then show ?case
      using sys_okD[OF leave(3)] sys_okD(4)[OF leave(3,1)]
      by (intro exI[of _ eg] sys_ok_client[OF leave(3), of _ _ i "Some (Away (cn_user c) p)"]) auto
  next
    case (give_up s i user point start cl)
    obtain cl0 where cl0: "sy_clients s i = Some cl0" "cl0 = Arrived user point \<or> cl0 = Answered user point start"
      using give_up(1) by blast
    have own: "person_of cl0 = user" "behind u m cl0 \<Longrightarrow> u = user \<Longrightarrow> point_before m point"
      "within_head h cl0 \<Longrightarrow> point_before (Suc h) point" for u m h
      using cl0(2) by (cases start; auto)+
    show ?case
      using sys_okD(1,2)[OF give_up(3)]
    proof (intro exI[of _ eg] sys_ok_client[OF give_up(3), of _ _ i cl], goal_cases)
      case (10 cl')
      show ?case
        using own(3)[OF sys_okD(4)[OF give_up(3) cl0(1)]] by - (rule back_away_cases[OF give_up(2) 10(3)], auto)
    next
      case (11 cl')
      then show ?case using cl0(1) own(1) by - (rule back_away_cases[OF give_up(2) 11(3)], auto)
    next
      case (12 cl' u m)
      have "behind u m cl0" by (rule 12(6)[OF cl0(1)])
      with own(2)[of u m] show ?case by - (rule back_away_cases[OF give_up(2) 12(3)], auto)
    qed simp_all
  qed
  with assms(2) show ?thesis by (auto simp: sys_inv_def)
qed

interpretation sync_runs: invariant_system sys_step sys_inv
  by unfold_locales (rule sys_step_inv)

lemma sys_init_inv: "sys_inv (sys_init cfg epoch t)"
  unfolding sys_inv_def sys_init_def
  by (rule exI[of _ "engine_new cfg epoch"], rule sys_okI)
     (simp_all add: install_sync_def engine_new_def ring_new_ok, simp add: ring_new_def)

lemma marked_read_resyncs:
  assumes ok: "ring_ok hist clock (eg_ring eg)" and now: "clock \<le> now"
    and m: "marked_gap hist (cn_user c) m" "cn_cursor c < m" and max: "rg_head (eg_ring eg) < u64_max"
  shows "fst (catch_up_before now u64_max replay (c, eg)) \<noteq> None"
proof
  assume none: "fst (catch_up_before now u64_max replay (c, eg)) = None"
  then obtain c' eg' where res: "catch_up_before now u64_max replay (c, eg) = (None, c', eg')"
    by (metis prod.collapse)
  obtain g where g: "Published g \<in> set hist" "en_gap g" "personal (cn_user c) g" "en_seq g = m"
    using m(1) by (auto simp: marked_gap_def)
  have "u64_max \<le> en_seq g" using catch_up_marker[OF ok now res g(1,2,3)] m(2) g(4) by simp
  moreover have "en_seq g \<le> rg_head (eg_ring eg)" using past_le_head[OF ok g(1)] by simp
  ultimately show False using max by simp
qed

lemma marked_welcome_afresh:
  assumes ok: "ring_ok hist clock (eg_ring eg)" and now: "clock \<le> now"
    and m: "marked_gap hist (cn_user c0) m" "resumed \<Longrightarrow> cursor < m" and max: "rg_head (eg_ring eg) < u64_max"
  shows "refetch_frame (fst (welcome_client now (cursor, resumed) (c0, eg)))"
proof (cases resumed)
  case True
  have "fst (catch_up_before now u64_max True (c0\<lparr>cn_cursor := cursor\<rparr>, eg)) \<noteq> None"
    using marked_read_resyncs[OF ok now _ _ max, of "c0\<lparr>cn_cursor := cursor\<rparr>" m True] m True by simp
  then show ?thesis by (auto simp: welcome_client_def catch_up_def Let_def split_beta)
qed (simp add: welcome_client_def)

text \<open>What a client is answered when it says hello with its own resume point.\<close>

definition hello_frame :: "nat \<Rightarrow> nat option \<Rightarrow> connection \<times> 'p engine \<Rightarrow> server_frame" where
  "hello_frame now point = (\<lambda>(c, eg).
     (case resume now (map_option (\<lambda>p. (rg_epoch (eg_ring eg), int p)) point) (eg_ring eg) of
        (start, r) \<Rightarrow> fst (welcome_client now start (c, eg\<lparr>eg_ring := r\<rparr>))))"

lemma marked_hello_afresh:
  assumes ok: "ring_ok hist clock (eg_ring eg)" and now: "clock \<le> now"
    and m: "marked_gap hist (cn_user c) m" "point_before m point" and max: "rg_head (eg_ring eg) < u64_max"
  shows "refetch_frame (hello_frame now point (c, eg))"
proof -
  let ?point = "map_option (\<lambda>p. (rg_epoch (eg_ring eg), int p)) point"
  obtain cursor resumed r where st: "resume now ?point (eg_ring eg) = ((cursor, resumed), r)"
    by (metis prod.collapse)
  have r: "r = (evict now (eg_ring eg))\<lparr>rg_handed_out := True\<rparr>"
    using resume_ring[of now ?point "eg_ring eg"] st by simp
  have ring: "ring_ok hist now (eg_ring (eg\<lparr>eg_ring := r\<rparr>))"
    using evict_ok[OF ok now] by (simp add: r handed_out_ok)
  have "resumed \<Longrightarrow> point = Some cursor"
    using st by (auto simp: resume_def Let_def split: option.splits if_splits)
  then have "resumed \<Longrightarrow> cursor < m" using m(2) by auto
  then have "refetch_frame (fst (welcome_client now (cursor, resumed) (c, eg\<lparr>eg_ring := r\<rparr>)))"
    using marked_welcome_afresh[OF ring order.refl m(1), of resumed cursor] max by (simp add: r)
  then show ?thesis by (simp add: hello_frame_def st)
qed

lemma owed_stays:
  assumes "sys_step s s'" and "i \<in> sy_owed s" and "sy_clients s i = Some cl" and "i \<notin> sy_owed s'"
  shows "\<exists>f point c. cl = Telling f point c \<and> sy_clients s' i = Some (Live c)"
  using assms by (cases rule: sys_step.cases) auto

subsection \<open>Properties of the sync engine\<close>


text \<open>A run: a client of person 7 connects, is welcomed, and then an event for them is skipped.\<close>

definition example_live :: "unit system" where
  "example_live = \<lparr>sy_server = \<lparr>sv_seq = 0, sv_sync = Some (refetched 7
       ((open_person 7 (engine_new example_config ''e''))
         \<lparr>eg_ring := (ring_new example_config ''e'')\<lparr>rg_handed_out := True\<rparr>\<rparr>))\<rparr>,
     sy_past = [], sy_clock = 3, sy_clients = [0 \<mapsto> Live (connection_new 7 3)],
     sy_pushing = [], sy_idle = 0, sy_skipping = 0, sy_owed = {}\<rparr>"

lemma example_live_run: "sys_step\<^sup>*\<^sup>* (sys_init example_config ''e'' 0) example_live"
proof -
  let ?eg0 = "engine_new example_config ''e'' :: unit engine"
  let ?eg1 = "open_person 7 ?eg0"
  let ?r = "(ring_new example_config ''e'')\<lparr>rg_handed_out := True\<rparr>"
  let ?eg2 = "?eg1\<lparr>eg_ring := ?r\<rparr>"
  let ?f = "Welcome ''e'' 0 False 0 7"
  let ?s0 = "sys_init example_config ''e'' 0 :: unit system"
  let ?s1 = "?s0\<lparr>sy_server := (sy_server ?s0)\<lparr>sv_sync := Some ?eg1\<rparr>,
      sy_clients := (sy_clients ?s0)(0 \<mapsto> Arrived 7 None), sy_owed := sy_owed ?s0 - {0}\<rparr>"
  let ?s2 = "?s1\<lparr>sy_server := (sy_server ?s1)\<lparr>sv_sync := Some ?eg2\<rparr>, sy_clock := 2,
      sy_clients := (sy_clients ?s1)(0 \<mapsto> Answered 7 None (0, False))\<rparr>"
  let ?s3 = "?s2\<lparr>sy_server := (sy_server ?s2)\<lparr>sv_sync := Some ((refetched 7 ?eg2)\<lparr>eg_gapped := eg_gapped ?eg2\<rparr>)\<rparr>,
      sy_clock := 3, sy_clients := (sy_clients ?s2)(0 \<mapsto> Telling ?f None (connection_new 7 3))\<rparr>"
  have i: "sv_sync (sy_server ?s0) = Some ?eg0" by (simp add: sys_init_def install_sync_def)
  have "sys_step ?s0 ?s1" by (rule sys_step.arrive_new[OF i]) (simp add: sys_init_def)
  moreover have "sys_step ?s1 ?s2"
  proof (rule sys_step.answer)
    show "resume 2 (map_option (\<lambda>p. (rg_epoch (eg_ring ?eg1), int p)) None) (eg_ring ?eg1) = ((0, False), ?r)"
      by (simp add: resume_def open_person_def engine_new_def ring_new_def evict_def)
  qed (simp_all add: sys_init_def)
  moreover have "sys_step ?s2 ?s3"
  proof -
    have w: "welcome_client 3 (0, False) (connection_new 7 3, ?eg2) =
        (?f, connection_new 7 3, refetched 7 ?eg2)"
      by (simp add: welcome_client_def connection_new_def refetched_def ring_new_def)
    then show ?thesis
      using sys_step.greet_afresh[of ?s2 ?eg2 3 0 7 None "(0, False)" "connection_new 7 3", OF _ _ _ _ w]
      by (simp add: sys_init_def connection_new_def)
  qed
  moreover have "sys_step ?s3 example_live"
  proof -
    have "example_live = ?s3\<lparr>sy_server := (sy_server ?s3)\<lparr>sv_sync := Some
        (refetched (cn_user (connection_new 7 3)) ((refetched 7 ?eg2)\<lparr>eg_gapped := eg_gapped ?eg2\<rparr>))\<rparr>,
        sy_clients := (sy_clients ?s3)(0 \<mapsto> Live (connection_new 7 3)), sy_owed := sy_owed ?s3 - {0}\<rparr>"
      by (simp add: example_live_def sys_init_def install_sync_def refetched_def connection_new_def)
    then show ?thesis
      using sys_step.told[of ?s3 "(refetched 7 ?eg2)\<lparr>eg_gapped := eg_gapped ?eg2\<rparr>" 0 ?f None "connection_new 7 3"]
      by simp
  qed
  ultimately show ?thesis by (meson converse_rtranclp_into_rtranclp r_into_rtranclp)
qed

lemma example_skip:
  "\<exists>(s :: unit system) eg. sys_step\<^sup>*\<^sup>* (sys_init example_config ''e'' 0) s \<and> sv_sync (sy_server s) = Some eg \<and>
     sy_clock s = 5 \<and> sv_seq (sy_server s) = 1 \<and> sy_owed s = {0} \<and> sy_pushing s = [] \<and>
     sy_clients s 0 = Some (Live (connection_new 7 3))"
proof -
  obtain eg where eg: "sv_sync (sy_server example_live) = Some eg" "7 \<notin> eg_gapped eg"
    by (simp add: example_live_def refetched_def)
  let ?eg = "eg\<lparr>eg_gapped := insert 7 (eg_gapped eg)\<rparr>"
  define s1 where "s1 = example_live\<lparr>sy_server := (sy_server example_live)\<lparr>sv_sync := Some ?eg\<rparr>,
      sy_pushing := (if True then [7] else []) @ sy_pushing example_live,
      sy_owed := sy_owed example_live \<union> {i. map_option person_of (sy_clients example_live i) = Some 7}\<rparr>"
  define s2 where "s2 = s1\<lparr>sy_server := mark_skip 5 7 ?eg (sy_server s1), sy_clock := 5,
      sy_past := sy_past s1 @ [Published (gap_entry 5 (sv_seq (sy_server s1) + 1) 7)],
      sy_pushing := remove1 7 (sy_pushing s1)\<rparr>"
  have "sys_step example_live s1"
    unfolding s1_def by (rule sys_step.skip_noted[OF eg(1)]) (simp add: note_skip_def gap_needed_for_def eg(2))
  moreover have "sys_step s1 s2"
    unfolding s2_def by (rule sys_step.skip_marked) (simp_all add: example_live_def s1_def)
  ultimately have "sys_step\<^sup>*\<^sup>* (sys_init example_config ''e'' 0) s2"
    using example_live_run by (meson rtranclp.rtrancl_into_rtrancl)
  moreover obtain eg2 where "sv_sync (sy_server s2) = Some eg2" by (simp add: s2_def mark_skip_def)
  moreover have "sy_clock s2 = 5" "sv_seq (sy_server s2) = 1" "sy_pushing s2 = []"
    "sy_clients s2 0 = Some (Live (connection_new 7 3))"
    by (simp_all add: s1_def s2_def mark_skip_def example_live_def)
  moreover have "sy_owed s2 = {0}"
    by (auto simp: s1_def s2_def example_live_def connection_new_def)
  ultimately show ?thesis by - (intro exI[of _ s2] exI[of _ eg2] conjI; assumption)
qed


text \<open>The skip that \<^verbatim>\<open>sync_wanted\<close> records for everyone has a window: when a hello is answered
  between the look at the observers and the skip, the skip takes back \<^verbatim>\<open>handed_out\<close> with a
  client live.  Once the event that client read next has aged out of the ring, and it has left, the
  ring needs no gap, and a resume from its point is granted although events were skipped since.\<close>

theorem raced_skip_leaves_no_gap:
  "(let r1 = snd (resume 0 None (ring_new (example_config\<lparr>ring_max_age := 5\<rparr>) ''e''));
        r2 = skip 1 r1;
        r3 = snd (ring_read 10 1 (append_entry ((gap_entry 2 2 7)\<lparr>en_gap := False\<rparr>) 2 r2))
    in \<not> gap_needed r3 \<and> fst (resume 10 (Some (''e'', 2)) r3) = (2, True))"
  by (simp add: Let_def resume_def ring_new_def skip_def append_entry_def ring_read_def evict_def gap_needed_def
      gap_entry_def example_config_def default_sync_config_def)

text \<open>A fresh publication never overtakes its fence: from a run of fencing publications recorded
  in the engine, a publication whose inputs were read at \<open>at_seq\<close> is refused as stale, and nothing
  changes, whenever an event under its fence was published after that.\<close>

theorem stale_publication_refused:
  assumes "sv_sync s = Some eg" and "eg_fences eg = fences_after evs"
    and "sorted_wrt (<) (map snd evs)" and "\<forall>(k, q) \<in> set evs. 0 < q"
    and "(fence, seq) \<in> set evs" and "at_seq < seq"
  shows "sync_publish_fresh js now p fence at_seq s = Returns (Inl (), s)"
proof -
  have "crossed fence at_seq (fences_after evs)"
    using fences_okD(6)[OF fences_after_ok[OF assms(3,4)] assms(5)] assms(6) by (auto simp: crossed_def)
  then show ?thesis by (simp add: sync_publish_fresh_def assms(1,2))
qed

theorem stale_publication_refused_witness:
  "(let s = \<lparr>sv_seq = 9, sv_sync = Some ((engine_new example_config ''e'' :: unit engine)
       \<lparr>eg_fences := fences_after [(''a'', 5), (''b'', 9)]\<rparr>)\<rparr>
    in sync_publish_fresh id 0 (publication_new Everyone ''{}'') ''a'' 4 s = Returns (Inl (), s))"
  unfolding Let_def by (rule stale_publication_refused[where evs = "[(''a'', 5), (''b'', 9)]" and seq = 5]) auto

end
