(* ===== verification/PubSub.thy ===== *)
theory PubSub
  imports Prelude
begin

section \<open>The hub: broadcastings and their subscribers\<close>

text \<open>
  \<^verbatim>\<open>crates/cable/src/pubsub.rs\<close>: the in-process hub.  Subscribers of one broadcasting that wrap a
  payload identically share a group, whose frames go through one bounded broadcast channel.

  The channel is tokio's, so its operations are a parameter (\<open>channel_ops\<close>), and \<open>channel_laws\<close>
  states what its documentation promises and the hub relies on.  Two members of the record are
  observations and not operations: the frames each receiver has still to read, and the capacity.
  A receiver is named by a number that the hub's model hands out.
\<close>

record delivery =
  dl_sequence :: nat
  dl_frame :: string

datatype received = Frame delivery | Lagged

text \<open>\<open>ch_new\<close> is \<^verbatim>\<open>broadcast::channel\<close>, which returns the sender with a first receiver; \<open>ch_send\<close>
  returns the number of receivers, or \<open>None\<close> when there is none; \<open>ch_recv\<close> returns \<open>None\<close> while
  there is nothing to read.\<close>

record 'c channel_ops =
  ch_new :: "nat \<Rightarrow> nat \<Rightarrow> 'c"
  ch_subscribe :: "nat \<Rightarrow> 'c \<Rightarrow> 'c"
  ch_send :: "delivery \<Rightarrow> 'c \<Rightarrow> nat option \<times> 'c"
  ch_recv :: "nat \<Rightarrow> 'c \<Rightarrow> received option \<times> 'c"
  ch_drop :: "nat \<Rightarrow> 'c \<Rightarrow> 'c"
  ch_count :: "'c \<Rightarrow> nat"
  ch_unread :: "'c \<Rightarrow> nat \<rightharpoonup> delivery list"
  ch_capacity :: "'c \<Rightarrow> nat"

definition recv_law :: "'c channel_ops \<Rightarrow> nat \<Rightarrow> 'c \<Rightarrow> delivery list \<Rightarrow> bool" where
  "recv_law ops r c unread \<longleftrightarrow>
     (case ch_recv ops r c of
        (None, c') \<Rightarrow> unread = [] \<and> ch_unread ops c' = ch_unread ops c
      | (Some (Frame d), c') \<Rightarrow> unread = d # tl unread \<and> unread \<noteq> [] \<and>
          ch_unread ops c' = (ch_unread ops c)(r \<mapsto> tl unread)
      | (Some Lagged, c') \<Rightarrow> ch_capacity ops c < length unread \<and>
          (\<exists>n. ch_unread ops c' = (ch_unread ops c)(r \<mapsto> drop n unread)))"

definition channel_laws :: "'c channel_ops \<Rightarrow> bool" where
  "channel_laws ops \<longleftrightarrow>
     (\<forall>cap r. 0 < cap \<longrightarrow> ch_unread ops (ch_new ops cap r) = [r \<mapsto> []] \<and> cap \<le> ch_capacity ops (ch_new ops cap r)) \<and>
     (\<forall>c r. ch_unread ops c r = None \<longrightarrow>
        ch_unread ops (ch_subscribe ops r c) = (ch_unread ops c)(r \<mapsto> []) \<and>
        ch_capacity ops (ch_subscribe ops r c) = ch_capacity ops c) \<and>
     (\<forall>c d. dom (ch_unread ops c) \<noteq> {} \<longrightarrow>
        fst (ch_send ops d c) = Some (card (dom (ch_unread ops c))) \<and>
        ch_unread ops (snd (ch_send ops d c)) = (\<lambda>r. map_option (\<lambda>ds. ds @ [d]) (ch_unread ops c r)) \<and>
        ch_capacity ops (snd (ch_send ops d c)) = ch_capacity ops c) \<and>
     (\<forall>c d. dom (ch_unread ops c) = {} \<longrightarrow> fst (ch_send ops d c) = None) \<and>
     (\<forall>c r ds. ch_unread ops c r = Some ds \<longrightarrow> recv_law ops r c ds \<and>
        ch_capacity ops (snd (ch_recv ops r c)) = ch_capacity ops c) \<and>
     (\<forall>c r. ch_unread ops (ch_drop ops r c) = (ch_unread ops c)(r := None) \<and>
        ch_capacity ops (ch_drop ops r c) = ch_capacity ops c) \<and>
     (\<forall>c. ch_count ops c = card (dom (ch_unread ops c)))"

definition message :: "string \<Rightarrow> string \<Rightarrow> string" where
  "message encoded_identifier encoded_message =
     ''{'' @ [CHR 0x22] @ ''identifier'' @ [CHR 0x22] @ '':'' @ encoded_identifier @ '','' @
     [CHR 0x22] @ ''message'' @ [CHR 0x22] @ '':'' @ encoded_message @ ''}''"

record 'c group =
  gr_identifier :: "string option"
  gr_sender :: 'c

definition group_frame :: "string option \<Rightarrow> string \<Rightarrow> string" where
  "group_frame identifier payload =
     (case identifier of Some i \<Rightarrow> message i payload | None \<Rightarrow> payload)"

text \<open>A broadcasting without an entry has the empty list of groups.\<close>

record 'c hub =
  hb_capacity :: nat
  hb_streams :: "string \<Rightarrow> 'c group list"
  hb_sequence :: nat
  hb_next_subscriber :: nat

definition hub_new :: "nat \<Rightarrow> 'c hub" where
  "hub_new capacity = \<lparr>hb_capacity = capacity, hb_streams = (\<lambda>_. []), hb_sequence = 0,
     hb_next_subscriber = 0\<rparr>"

text \<open>Sending to every group: a channel without receivers refuses, and its group goes.\<close>

fun send_groups :: "'c channel_ops \<Rightarrow> nat \<Rightarrow> string \<Rightarrow> 'c group list \<Rightarrow> nat \<times> 'c group list" where
  "send_groups ops sequence payload [] = (0, [])"
| "send_groups ops sequence payload (g # gs) =
     (let (receivers, gs') = send_groups ops sequence payload gs in
      case ch_send ops \<lparr>dl_sequence = sequence, dl_frame = group_frame (gr_identifier g) payload\<rparr> (gr_sender g) of
        (Some count, c) \<Rightarrow> (count + receivers, g\<lparr>gr_sender := c\<rparr> # gs')
      | (None, _) \<Rightarrow> (receivers, gs'))"

definition broadcast :: "'c channel_ops \<Rightarrow> string \<Rightarrow> string \<Rightarrow> 'c hub \<Rightarrow> nat \<times> 'c hub" where
  "broadcast ops broadcasting payload h =
     (let sequence = hb_sequence h + 1;
          (receivers, groups) = send_groups ops sequence payload (hb_streams h broadcasting)
      in (receivers, h\<lparr>hb_sequence := sequence, hb_streams := (hb_streams h)(broadcasting := groups)\<rparr>))"

fun join_group :: "'c channel_ops \<Rightarrow> nat \<Rightarrow> string option \<Rightarrow> nat \<Rightarrow> 'c group list \<Rightarrow> 'c group list" where
  "join_group ops capacity identifier r [] =
     [\<lparr>gr_identifier = identifier, gr_sender = ch_new ops capacity r\<rparr>]"
| "join_group ops capacity identifier r (g # gs) =
     (if gr_identifier g = identifier
      then g\<lparr>gr_sender := ch_subscribe ops r (gr_sender g)\<rparr> # gs
      else g # join_group ops capacity identifier r gs)"

definition subscribe :: "'c channel_ops \<Rightarrow> string \<Rightarrow> string option \<Rightarrow> 'c hub \<Rightarrow> nat \<times> 'c hub" where
  "subscribe ops broadcasting identifier h =
     (let r = hb_next_subscriber h in
      (r, h\<lparr>hb_next_subscriber := r + 1,
            hb_streams := (hb_streams h)(broadcasting :=
              join_group ops (hb_capacity h) identifier r (hb_streams h broadcasting))\<rparr>))"

text \<open>Dropping a subscriber: its receiver goes, then \<^verbatim>\<open>release\<close> removes its group if it was the last.\<close>

definition release_hub :: "'c channel_ops \<Rightarrow> string \<Rightarrow> string option \<Rightarrow> 'c hub \<Rightarrow> 'c hub" where
  "release_hub ops broadcasting identifier h =
     h\<lparr>hb_streams := (hb_streams h)(broadcasting :=
        filter (\<lambda>g. gr_identifier g \<noteq> identifier \<or> 0 < ch_count ops (gr_sender g)) (hb_streams h broadcasting))\<rparr>"

text \<open>A change of the channel of one group.\<close>

definition with_group :: "string \<Rightarrow> string option \<Rightarrow> ('c \<Rightarrow> 'c) \<Rightarrow> 'c hub \<Rightarrow> 'c hub" where
  "with_group broadcasting identifier f h =
     h\<lparr>hb_streams := (hb_streams h)(broadcasting :=
        map (\<lambda>g. if gr_identifier g = identifier then g\<lparr>gr_sender := f (gr_sender g)\<rparr> else g)
          (hb_streams h broadcasting))\<rparr>"

definition drop_subscriber :: "'c channel_ops \<Rightarrow> string \<Rightarrow> string option \<Rightarrow> nat \<Rightarrow> 'c hub \<Rightarrow> 'c hub" where
  "drop_subscriber ops broadcasting identifier r h =
     release_hub ops broadcasting identifier (with_group broadcasting identifier (ch_drop ops r) h)"

definition recv :: "'c channel_ops \<Rightarrow> string \<Rightarrow> string option \<Rightarrow> nat \<Rightarrow> 'c hub \<Rightarrow> received option \<times> 'c hub" where
  "recv ops broadcasting identifier r h =
     (case filter (\<lambda>g. gr_identifier g = identifier) (hb_streams h broadcasting) of
        [] \<Rightarrow> (None, h)
      | g # _ \<Rightarrow> (fst (ch_recv ops r (gr_sender g)),
                  with_group broadcasting identifier (\<lambda>c. snd (ch_recv ops r c)) h))"

subsection \<open>A hub in use\<close>

text \<open>The ghosts: every broadcast, with its sequence, and for each subscriber where it started, what
  it received, and whether it has been told it lagged.\<close>

record subscriber =
  sb_broadcasting :: string
  sb_identifier :: "string option"
  sb_base :: nat
  sb_got :: "delivery list"
  sb_lagged :: bool

definition expected :: "subscriber \<Rightarrow> (string \<times> nat \<times> string) list \<Rightarrow> delivery list" where
  "expected sb sent =
     map (\<lambda>(_, seq, payload). \<lparr>dl_sequence = seq, dl_frame = group_frame (sb_identifier sb) payload\<rparr>)
       (filter (\<lambda>(b, _). b = sb_broadcasting sb) (drop (sb_base sb) sent))"

type_synonym 'c hub_state = "'c hub \<times> (string \<times> nat \<times> string) list \<times> (nat \<rightharpoonup> subscriber)"

definition note_received :: "received option \<Rightarrow> subscriber \<Rightarrow> subscriber" where
  "note_received res sb =
     (case res of
        None \<Rightarrow> sb
      | Some Lagged \<Rightarrow> sb\<lparr>sb_lagged := True\<rparr>
      | Some (Frame d) \<Rightarrow> sb\<lparr>sb_got := sb_got sb @ [d]\<rparr>)"

text \<open>The steps of a hub in use; a publication of the sync ring takes a sequence too (\<^verbatim>\<open>sequenced\<close>).\<close>

inductive hub_step :: "'c channel_ops \<Rightarrow> 'c hub_state \<Rightarrow> 'c hub_state \<Rightarrow> bool" for ops where
  broadcast: "hub_step ops (h, sent, subs)
     (snd (broadcast ops b payload h), sent @ [(b, hb_sequence h + 1, payload)], subs)"
| subscribe: "subscribe ops b identifier h = (r, h') \<Longrightarrow>
     hub_step ops (h, sent, subs) (h', sent, subs(r \<mapsto> \<lparr>sb_broadcasting = b, sb_identifier = identifier,
       sb_base = length sent, sb_got = [], sb_lagged = False\<rparr>))"
| recv: "subs r = Some sb \<Longrightarrow> recv ops (sb_broadcasting sb) (sb_identifier sb) r h = (res, h') \<Longrightarrow>
     hub_step ops (h, sent, subs) (h', sent, subs(r \<mapsto> note_received res sb))"
| sequenced: "hub_step ops (h, sent, subs) (h\<lparr>hb_sequence := hb_sequence h + 1\<rparr>, sent, subs)"
| drop: "subs r = Some sb \<Longrightarrow>
     hub_step ops (h, sent, subs)
       (drop_subscriber ops (sb_broadcasting sb) (sb_identifier sb) r h, sent, subs(r := None))"

text \<open>A receiver of a group is one of its subscribers, and is owed what it has still to read.\<close>

definition receiver_ok :: "(string \<times> nat \<times> string) list \<Rightarrow> (nat \<rightharpoonup> subscriber) \<Rightarrow> string \<Rightarrow> string option
    \<Rightarrow> nat \<Rightarrow> delivery list \<Rightarrow> bool" where
  "receiver_ok sent subs b identifier r unread \<longleftrightarrow>
     (\<exists>sb. subs r = Some sb \<and> sb_broadcasting sb = b \<and> sb_identifier sb = identifier \<and>
        sb_base sb \<le> length sent \<and> (sb_lagged sb \<or> expected sb sent = sb_got sb @ unread))"

definition group_ok :: "'c channel_ops \<Rightarrow> nat \<Rightarrow> (string \<times> nat \<times> string) list \<Rightarrow> (nat \<rightharpoonup> subscriber)
    \<Rightarrow> string \<Rightarrow> 'c group \<Rightarrow> bool" where
  "group_ok ops cap sent subs b g \<longleftrightarrow>
     cap \<le> ch_capacity ops (gr_sender g) \<and> finite (dom (ch_unread ops (gr_sender g))) \<and>
     dom (ch_unread ops (gr_sender g)) \<noteq> {} \<and>
     (\<forall>r ds. ch_unread ops (gr_sender g) r = Some ds \<longrightarrow> receiver_ok sent subs b (gr_identifier g) r ds)"

definition hub_ok :: "'c channel_ops \<Rightarrow> nat \<Rightarrow> 'c hub_state \<Rightarrow> bool" where
  "hub_ok ops cap = (\<lambda>(h, sent, subs). hb_capacity h = cap \<and>
     (\<forall>b. distinct (map gr_identifier (hb_streams h b)) \<and>
        (\<forall>g \<in> set (hb_streams h b). group_ok ops cap sent subs b g)) \<and>
     (\<forall>r sb. subs r = Some sb \<longrightarrow> r < hb_next_subscriber h \<and>
        (\<exists>g \<in> set (hb_streams h (sb_broadcasting sb)). gr_identifier g = sb_identifier sb \<and>
           r \<in> dom (ch_unread ops (gr_sender g)))))"

lemma channel_lawsD:
  assumes "channel_laws ops"
  shows "0 < cap \<Longrightarrow> ch_unread ops (ch_new ops cap r) = [r \<mapsto> []] \<and> cap \<le> ch_capacity ops (ch_new ops cap r)"
    and "ch_unread ops c r = None \<Longrightarrow> ch_unread ops (ch_subscribe ops r c) = (ch_unread ops c)(r \<mapsto> []) \<and>
      ch_capacity ops (ch_subscribe ops r c) = ch_capacity ops c"
    and "dom (ch_unread ops c) \<noteq> {} \<Longrightarrow> fst (ch_send ops d c) = Some (card (dom (ch_unread ops c))) \<and>
      ch_unread ops (snd (ch_send ops d c)) = (\<lambda>r. map_option (\<lambda>ds. ds @ [d]) (ch_unread ops c r)) \<and>
      ch_capacity ops (snd (ch_send ops d c)) = ch_capacity ops c"
    and "ch_unread ops c r = Some ds \<Longrightarrow> recv_law ops r c ds \<and>
      ch_capacity ops (snd (ch_recv ops r c)) = ch_capacity ops c"
    and "ch_unread ops (ch_drop ops r c) = (ch_unread ops c)(r := None)"
    and "ch_capacity ops (ch_drop ops r c) = ch_capacity ops c"
    and "ch_count ops c = card (dom (ch_unread ops c))"
  using assms by (auto simp: channel_laws_def)

lemma hub_okI:
  assumes "hb_capacity h = cap"
    and "\<And>b. distinct (map gr_identifier (hb_streams h b))"
    and "\<And>b g. g \<in> set (hb_streams h b) \<Longrightarrow> group_ok ops cap sent subs b g"
    and "\<And>r sb. subs r = Some sb \<Longrightarrow> r < hb_next_subscriber h \<and>
        (\<exists>g \<in> set (hb_streams h (sb_broadcasting sb)). gr_identifier g = sb_identifier sb \<and>
           r \<in> dom (ch_unread ops (gr_sender g)))"
  shows "hub_ok ops cap (h, sent, subs)"
  using assms by (simp add: hub_ok_def)

lemma hub_okD:
  assumes "hub_ok ops cap (h, sent, subs)"
  shows "hb_capacity h = cap"
    and "distinct (map gr_identifier (hb_streams h b))"
    and "g \<in> set (hb_streams h b) \<Longrightarrow> group_ok ops cap sent subs b g"
    and "subs r = Some sb \<Longrightarrow> r < hb_next_subscriber h"
    and "subs r = Some sb \<Longrightarrow> \<exists>g \<in> set (hb_streams h (sb_broadcasting sb)).
        gr_identifier g = sb_identifier sb \<and> r \<in> dom (ch_unread ops (gr_sender g))"
  using assms by (auto simp: hub_ok_def)

lemma expected_snoc:
  "sb_base sb \<le> length sent \<Longrightarrow> expected sb (sent @ [(b, seq, payload)]) = expected sb sent @
     (if b = sb_broadcasting sb
      then [\<lparr>dl_sequence = seq, dl_frame = group_frame (sb_identifier sb) payload\<rparr>] else [])"
  by (simp add: expected_def)

lemma expected_got [simp]:
  "expected (sb\<lparr>sb_got := xs\<rparr>) sent = expected sb sent" "expected (sb\<lparr>sb_lagged := l\<rparr>) sent = expected sb sent"
  by (simp_all add: expected_def)

lemma receiver_ok_sent:
  assumes "receiver_ok sent subs b' i r ds"
  shows "receiver_ok (sent @ [(b, seq, payload)]) subs b' i r
    (ds @ (if b = b' then [\<lparr>dl_sequence = seq, dl_frame = group_frame i payload\<rparr>] else []))"
  using assms by (auto simp: receiver_ok_def expected_snoc)

lemma group_ok_subs:
  assumes "group_ok ops cap sent subs b g"
    and "\<And>r. r \<in> dom (ch_unread ops (gr_sender g)) \<Longrightarrow> subs' r = subs r"
  shows "group_ok ops cap sent subs' b g"
  using assms by (auto simp: group_ok_def receiver_ok_def dom_def)

lemma group_ok_owner:
  assumes "group_ok ops cap sent subs b g" and "r \<in> dom (ch_unread ops (gr_sender g))"
  shows "\<exists>sb. subs r = Some sb \<and> sb_broadcasting sb = b \<and> sb_identifier sb = gr_identifier g"
  using assms unfolding group_ok_def receiver_ok_def by blast

subsection \<open>Broadcasting\<close>

abbreviation sent_group :: "'c channel_ops \<Rightarrow> nat \<Rightarrow> string \<Rightarrow> 'c group \<Rightarrow> 'c group" where
  "sent_group ops seq payload g \<equiv> g\<lparr>gr_sender := snd (ch_send ops
     \<lparr>dl_sequence = seq, dl_frame = group_frame (gr_identifier g) payload\<rparr> (gr_sender g))\<rparr>"

lemma send_groups_map:
  assumes "channel_laws ops" and "\<And>g. g \<in> set gs \<Longrightarrow> dom (ch_unread ops (gr_sender g)) \<noteq> {}"
  shows "send_groups ops seq payload gs =
    (sum_list (map (\<lambda>g. card (dom (ch_unread ops (gr_sender g)))) gs), map (sent_group ops seq payload) gs)"
  using assms(2)
proof (induction gs)
  case (Cons g gs)
  let ?d = "\<lparr>dl_sequence = seq, dl_frame = group_frame (gr_identifier g) payload\<rparr>"
  have "fst (ch_send ops ?d (gr_sender g)) = Some (card (dom (ch_unread ops (gr_sender g))))"
    using channel_lawsD(3)[OF assms(1)] Cons.prems by simp
  then show ?case using Cons by (cases "ch_send ops ?d (gr_sender g)") simp
qed simp

lemma sent_group_ok:
  assumes laws: "channel_laws ops" and g: "group_ok ops cap sent subs b g"
  shows "group_ok ops cap (sent @ [(b, seq, payload)]) subs b (sent_group ops seq payload g)"
    and "dom (ch_unread ops (gr_sender (sent_group ops seq payload g))) = dom (ch_unread ops (gr_sender g))"
proof -
  let ?d = "\<lparr>dl_sequence = seq, dl_frame = group_frame (gr_identifier g) payload\<rparr>"
  have send: "ch_unread ops (snd (ch_send ops ?d (gr_sender g))) =
      (\<lambda>r. map_option (\<lambda>ds. ds @ [?d]) (ch_unread ops (gr_sender g) r))"
    "ch_capacity ops (snd (ch_send ops ?d (gr_sender g))) = ch_capacity ops (gr_sender g)"
    using channel_lawsD(3)[OF laws, of "gr_sender g" ?d] g by (auto simp: group_ok_def)
  have d: "dom (\<lambda>r. map_option (\<lambda>ds. ds @ [?d]) (ch_unread ops (gr_sender g) r)) = dom (ch_unread ops (gr_sender g))"
    by (auto simp: dom_def)
  then show "dom (ch_unread ops (gr_sender (sent_group ops seq payload g))) = dom (ch_unread ops (gr_sender g))"
    by (simp add: send)
  have "receiver_ok (sent @ [(b, seq, payload)]) subs b (gr_identifier g) r (ds @ [?d])"
    if "ch_unread ops (gr_sender g) r = Some ds" for r ds
    using receiver_ok_sent[of sent subs b "gr_identifier g" r ds b seq payload] g that
    by (simp add: group_ok_def)
  then show "group_ok ops cap (sent @ [(b, seq, payload)]) subs b (sent_group ops seq payload g)"
    using g by (auto simp: group_ok_def send d)
qed

lemma other_group_ok:
  assumes "group_ok ops cap sent subs b' g" and "b' \<noteq> b"
  shows "group_ok ops cap (sent @ [(b, seq, payload)]) subs b' g"
  using assms receiver_ok_sent[of sent subs b' _ _ _ b seq payload] by (auto simp: group_ok_def)

lemma broadcast_streams:
  assumes laws: "channel_laws ops" and ok: "hub_ok ops cap (h, sent, subs)"
  shows "broadcast ops b payload h =
    (sum_list (map (\<lambda>g. card (dom (ch_unread ops (gr_sender g)))) (hb_streams h b)),
     h\<lparr>hb_sequence := hb_sequence h + 1,
       hb_streams := (hb_streams h)(b := map (sent_group ops (hb_sequence h + 1) payload) (hb_streams h b))\<rparr>)"
  using send_groups_map[OF laws, of "hb_streams h b"] hub_okD(3)[OF ok]
  by (simp add: broadcast_def Let_def group_ok_def)

lemma broadcast_ok:
  assumes laws: "channel_laws ops" and ok: "hub_ok ops cap (h, sent, subs)"
  shows "hub_ok ops cap (snd (broadcast ops b payload h), sent @ [(b, hb_sequence h + 1, payload)], subs)"
proof -
  let ?h = "snd (broadcast ops b payload h)"
  have streams: "hb_streams ?h =
      (hb_streams h)(b := map (sent_group ops (hb_sequence h + 1) payload) (hb_streams h b))"
    and same: "hb_capacity ?h = hb_capacity h" "hb_next_subscriber ?h = hb_next_subscriber h"
    by (simp_all add: broadcast_streams[OF laws ok])
  show ?thesis
  proof (rule hub_okI)
    show "hb_capacity ?h = cap" using hub_okD(1)[OF ok] same by simp
    show "distinct (map gr_identifier (hb_streams ?h b'))" for b'
      using hub_okD(2)[OF ok] by (simp add: streams comp_def)
    show "group_ok ops cap (sent @ [(b, hb_sequence h + 1, payload)]) subs b' g"
      if g: "g \<in> set (hb_streams ?h b')" for b' g
    proof (cases "b' = b")
      case True
      then obtain g0 where "g0 \<in> set (hb_streams h b)" "g = sent_group ops (hb_sequence h + 1) payload g0"
        using g unfolding streams True by auto
      then show ?thesis using True sent_group_ok(1)[OF laws hub_okD(3)[OF ok]] by simp
    next
      case False
      then show ?thesis using g other_group_ok[OF hub_okD(3)[OF ok]] by (simp add: streams)
    qed
    show "r < hb_next_subscriber ?h \<and> (\<exists>g \<in> set (hb_streams ?h (sb_broadcasting sb)).
          gr_identifier g = sb_identifier sb \<and> r \<in> dom (ch_unread ops (gr_sender g)))"
      if sb: "subs r = Some sb" for r sb
    proof -
      obtain g where g: "g \<in> set (hb_streams h (sb_broadcasting sb))" "gr_identifier g = sb_identifier sb"
        "r \<in> dom (ch_unread ops (gr_sender g))" using hub_okD(5)[OF ok sb] by blast
      then have "r \<in> dom (ch_unread ops (gr_sender (sent_group ops (hb_sequence h + 1) payload g)))"
        using sent_group_ok(2)[OF laws hub_okD(3)[OF ok g(1)]] by blast
      then have "\<exists>g \<in> set (hb_streams ?h (sb_broadcasting sb)).
          gr_identifier g = sb_identifier sb \<and> r \<in> dom (ch_unread ops (gr_sender g))"
        using g by (cases "sb_broadcasting sb = b") (auto simp: streams intro!: bexI[of _ g])
      then show ?thesis using hub_okD(4)[OF ok sb] same by simp
    qed
  qed
qed

subsection \<open>Subscribing\<close>

lemma join_group_cases:
  assumes "distinct (map gr_identifier gs)"
  shows "join_group ops cap i r gs =
    (if i \<in> gr_identifier ` set gs
     then map (\<lambda>g. if gr_identifier g = i then g\<lparr>gr_sender := ch_subscribe ops r (gr_sender g)\<rparr> else g) gs
     else gs @ [\<lparr>gr_identifier = i, gr_sender = ch_new ops cap r\<rparr>])"
  using assms
proof (induction gs)
  case (Cons g gs)
  have "gr_identifier g = i \<Longrightarrow> map (\<lambda>g. if gr_identifier g = i
      then g\<lparr>gr_sender := ch_subscribe ops r (gr_sender g)\<rparr> else g) gs = gs"
    using Cons.prems by (intro map_idI) (auto simp: image_iff)
  with Cons show ?case by auto
qed simp

lemma join_group_receiver:
  assumes "channel_laws ops" "0 < cap" and "\<And>g. g \<in> set gs \<Longrightarrow> ch_unread ops (gr_sender g) r = None"
  shows "\<exists>g \<in> set (join_group ops cap i r gs). gr_identifier g = i \<and> r \<in> dom (ch_unread ops (gr_sender g))"
  using assms(3)
proof (induction gs)
  case Nil then show ?case using channel_lawsD(1)[OF assms(1,2)] by (simp add: domIff)
next
  case (Cons g gs) then show ?case using channel_lawsD(2)[OF assms(1)] by auto
qed

lemma join_group_keeps:
  assumes "channel_laws ops" and "\<And>g. g \<in> set gs \<Longrightarrow> ch_unread ops (gr_sender g) r = None" and "g \<in> set gs"
  shows "\<exists>g' \<in> set (join_group ops cap i r gs). gr_identifier g' = gr_identifier g \<and>
     dom (ch_unread ops (gr_sender g)) \<subseteq> dom (ch_unread ops (gr_sender g'))"
  using assms(2,3)
proof (induction gs)
  case (Cons x gs) then show ?case using channel_lawsD(2)[OF assms(1), of "gr_sender x" r] by auto
qed simp

lemma subscribe_ok:
  assumes laws: "channel_laws ops" and cap: "0 < cap" and ok: "hub_ok ops cap (h, sent, subs)"
    and sub: "subscribe ops b i h = (r, h')"
  shows "hub_ok ops cap (h', sent, subs(r \<mapsto> \<lparr>sb_broadcasting = b, sb_identifier = i, sb_base = length sent,
    sb_got = [], sb_lagged = False\<rparr>))" (is "hub_ok _ _ (_, _, ?subs)")
proof -
  have r: "r = hb_next_subscriber h" "hb_next_subscriber h' = r + 1" "hb_capacity h' = cap"
    and streams: "hb_streams h' = (hb_streams h)(b := join_group ops cap i r (hb_streams h b))"
    using sub hub_okD(1)[OF ok] by (auto simp: subscribe_def Let_def)
  note join = join_group_cases[OF hub_okD(2)[OF ok], of ops cap i r b]
  have new: "subs r = None" using hub_okD(4)[OF ok, of r] r by (cases "subs r") auto
  have fresh: "ch_unread ops (gr_sender g) r = None" if "g \<in> set (hb_streams h c)" for c g
    using group_ok_owner[OF hub_okD(3)[OF ok that], of r] new by (metis domIff option.distinct(1))
  have keep: "group_ok ops cap sent ?subs c g" if "g \<in> set (hb_streams h c)" for c g
    by (rule group_ok_subs[OF hub_okD(3)[OF ok that]]) (use fresh[OF that] in auto)
  have joined: "group_ok ops cap sent ?subs b (g\<lparr>gr_sender := ch_subscribe ops r (gr_sender g)\<rparr>)"
    if "g \<in> set (hb_streams h b)" "gr_identifier g = i" for g
  proof -
    have "receiver_ok sent ?subs b i r []" by (simp add: receiver_ok_def expected_def)
    then show ?thesis
      using keep[OF that(1)] channel_lawsD(2)[OF laws fresh[OF that(1)]] that(2) by (auto simp: group_ok_def)
  qed
  have alone: "group_ok ops cap sent ?subs b \<lparr>gr_identifier = i, gr_sender = ch_new ops cap r\<rparr>"
    using channel_lawsD(1)[OF laws cap] by (simp add: group_ok_def receiver_ok_def expected_def)
  show ?thesis
  proof (rule hub_okI)
    show "distinct (map gr_identifier (hb_streams h' c))" for c
      using hub_okD(2)[OF ok, of c]
      by (auto simp: streams join comp_def if_distrib cong: if_cong)
    show "group_ok ops cap sent ?subs c g" if "g \<in> set (hb_streams h' c)" for c g
      using that keep joined alone by (auto simp: streams join split: if_splits)
    show "s < hb_next_subscriber h' \<and> (\<exists>g \<in> set (hb_streams h' (sb_broadcasting sb)).
          gr_identifier g = sb_identifier sb \<and> s \<in> dom (ch_unread ops (gr_sender g)))"
      if "?subs s = Some sb" for s sb
    proof (cases "s = r")
      case True
      then show ?thesis
        using that join_group_receiver[OF laws cap, of "hb_streams h b" r i] fresh by (auto simp: r(2) streams)
    next
      case False
      then have y: "subs s = Some sb" using that by simp
      then obtain g where "g \<in> set (hb_streams h (sb_broadcasting sb))" "gr_identifier g = sb_identifier sb"
        "s \<in> dom (ch_unread ops (gr_sender g))" using hub_okD(5)[OF ok y] by blast
      then have "\<exists>g \<in> set (hb_streams h' (sb_broadcasting sb)).
          gr_identifier g = sb_identifier sb \<and> s \<in> dom (ch_unread ops (gr_sender g))"
        using join_group_keeps[OF laws, of "hb_streams h b" r g cap i] fresh
        by (cases "sb_broadcasting sb = b") (fastforce simp: streams)+
      then show ?thesis using hub_okD(4)[OF ok y] by (simp add: r)
    qed
  qed (rule r(3))
qed

subsection \<open>Receiving and dropping\<close>

text \<open>A step that rewrites the group of one subscriber.\<close>

lemma hub_ok_rewrite:
  assumes ok: "hub_ok ops cap (h, sent, subs)" and sub: "subs r = Some sb"
    and h': "hb_next_subscriber h' = hb_next_subscriber h" "hb_capacity h' = hb_capacity h"
      "hb_streams h' = (hb_streams h)(sb_broadcasting sb := filter keep
         (map (\<lambda>g. if gr_identifier g = sb_identifier sb then g\<lparr>gr_sender := f (gr_sender g)\<rparr> else g)
           (hb_streams h (sb_broadcasting sb))))"
    and subs': "\<And>s. s \<noteq> r \<Longrightarrow> subs' s = subs s"
      "subs' r = None \<or> (\<exists>sb'. subs' r = Some sb' \<and> sb_broadcasting sb' = sb_broadcasting sb \<and>
         sb_identifier sb' = sb_identifier sb)"
    and keep: "\<And>g. gr_identifier g \<noteq> sb_identifier sb \<Longrightarrow> keep g"
    and own: "\<And>g. g \<in> set (hb_streams h (sb_broadcasting sb)) \<Longrightarrow> gr_identifier g = sb_identifier sb \<Longrightarrow>
      r \<in> dom (ch_unread ops (gr_sender g)) \<Longrightarrow> keep (g\<lparr>gr_sender := f (gr_sender g)\<rparr>) \<Longrightarrow>
      group_ok ops cap sent subs' (sb_broadcasting sb) (g\<lparr>gr_sender := f (gr_sender g)\<rparr>)"
    and others: "\<And>g s. g \<in> set (hb_streams h (sb_broadcasting sb)) \<Longrightarrow> gr_identifier g = sb_identifier sb \<Longrightarrow>
      r \<in> dom (ch_unread ops (gr_sender g)) \<Longrightarrow>
      s \<in> dom (ch_unread ops (gr_sender g)) \<Longrightarrow> subs' s \<noteq> None \<Longrightarrow>
      keep (g\<lparr>gr_sender := f (gr_sender g)\<rparr>) \<and> s \<in> dom (ch_unread ops (f (gr_sender g)))"
  shows "hub_ok ops cap (h', sent, subs')"
proof (rule hub_okI)
  let ?b = "sb_broadcasting sb" and ?i = "sb_identifier sb"
  let ?f = "\<lambda>g. g\<lparr>gr_sender := f (gr_sender g)\<rparr>"
  show "hb_capacity h' = cap" using h'(2) hub_okD(1)[OF ok] by simp
  have uniq: "g = g'" if "g \<in> set (hb_streams h ?b)" "g' \<in> set (hb_streams h ?b)"
    "gr_identifier g = gr_identifier g'" for g g'
    using hub_okD(2)[OF ok, of ?b] that by (auto simp: distinct_map dest: inj_onD)
  obtain g0 where g0: "g0 \<in> set (hb_streams h ?b)" "gr_identifier g0 = ?i" "r \<in> dom (ch_unread ops (gr_sender g0))"
    using hub_okD(5)[OF ok sub] by blast
  have "map gr_identifier (map (\<lambda>g. if gr_identifier g = ?i then ?f g else g) (hb_streams h ?b)) =
      map gr_identifier (hb_streams h ?b)" by simp
  then have "distinct (map gr_identifier (filter keep
      (map (\<lambda>g. if gr_identifier g = ?i then ?f g else g) (hb_streams h ?b))))"
    using hub_okD(2)[OF ok, of ?b] by (intro distinct_map_filter) (simp only:)
  then show "distinct (map gr_identifier (hb_streams h' c))" for c
    using hub_okD(2)[OF ok, of c] by (simp add: h')
  have kept: "group_ok ops cap sent subs' c g" if g: "g \<in> set (hb_streams h c)" and "c \<noteq> ?b \<or> gr_identifier g \<noteq> ?i" for c g
  proof (rule group_ok_subs[OF hub_okD(3)[OF ok g]])
    fix s assume "s \<in> dom (ch_unread ops (gr_sender g))"
    then have "s \<noteq> r" using group_ok_owner[OF hub_okD(3)[OF ok g]] sub that(2) by force
    then show "subs' s = subs s" by (rule subs')
  qed
  show "group_ok ops cap sent subs' c g" if g: "g \<in> set (hb_streams h' c)" for c g
  proof (cases "c = ?b")
    case False
    then show ?thesis using g kept by (simp add: h')
  next
    case True
    then obtain g1 where g1: "g1 \<in> set (hb_streams h ?b)" "g = (if gr_identifier g1 = ?i then ?f g1 else g1)" "keep g"
      using g by (auto simp: h')
    show ?thesis
    proof (cases "gr_identifier g1 = ?i")
      case i: True
      then have "g1 = g0" using uniq[OF g1(1) g0(1)] g0(2) by simp
      then show ?thesis using own[OF g1(1) i] g0(3) g1 i True by simp
    qed (use kept g1 True in auto)
  qed
  show "s < hb_next_subscriber h' \<and> (\<exists>g \<in> set (hb_streams h' (sb_broadcasting x)).
        gr_identifier g = sb_identifier x \<and> s \<in> dom (ch_unread ops (gr_sender g)))" if x: "subs' s = Some x" for s x
  proof -
    obtain y where y: "subs s = Some y" "sb_broadcasting y = sb_broadcasting x" "sb_identifier y = sb_identifier x"
      using subs' x sub by (cases "s = r") auto
    obtain g where g: "g \<in> set (hb_streams h (sb_broadcasting x))" "gr_identifier g = sb_identifier x"
      "s \<in> dom (ch_unread ops (gr_sender g))" using hub_okD(5)[OF ok y(1)] y by auto
    show ?thesis
    proof (cases "sb_broadcasting x = ?b \<and> sb_identifier x = ?i")
      case True
      then have "g = g0" using uniq[of g g0] g g0 by simp
      then have "keep (?f g) \<and> s \<in> dom (ch_unread ops (f (gr_sender g)))"
        using True others[of g s] g g0 x by simp
      then show ?thesis
        using True g hub_okD(4)[OF ok y(1)] by (auto simp: h' intro!: bexI[of _ "?f g"])
    next
      case False
      then show ?thesis
        using g keep hub_okD(4)[OF ok y(1)] by (auto simp: h' intro!: bexI[of _ g])
    qed
  qed
qed

lemma recv_first:
  assumes ok: "hub_ok ops cap (h, sent, subs)" and g: "g \<in> set (hb_streams h b)" "gr_identifier g = i"
  shows "recv ops b i r h = (fst (ch_recv ops r (gr_sender g)), with_group b i (\<lambda>c. snd (ch_recv ops r c)) h)"
proof -
  have "filter (\<lambda>x. gr_identifier x = i) gs = [g]"
    if "distinct (map gr_identifier gs)" "g \<in> set gs" for gs
    using that g(2) by (induction gs) (auto simp: filter_empty_conv image_iff)
  from this[OF hub_okD(2)[OF ok] g(1)] show ?thesis by (simp add: recv_def)
qed

lemma note_received_same [simp]:
  "sb_broadcasting (note_received res sb) = sb_broadcasting sb"
  "sb_identifier (note_received res sb) = sb_identifier sb"
  "sb_base (note_received res sb) = sb_base sb"
  by (simp_all add: note_received_def split: option.splits received.splits)

lemma recv_group_ok:
  assumes laws: "channel_laws ops" and g: "group_ok ops cap sent subs b g"
    and r: "r \<in> dom (ch_unread ops (gr_sender g))" and sub: "subs r = Some sb"
  shows "group_ok ops cap sent (subs(r \<mapsto> note_received (fst (ch_recv ops r (gr_sender g))) sb)) b
      (g\<lparr>gr_sender := snd (ch_recv ops r (gr_sender g))\<rparr>)" (is "group_ok _ _ _ ?subs _ _")
    and "dom (ch_unread ops (snd (ch_recv ops r (gr_sender g)))) = dom (ch_unread ops (gr_sender g))"
proof -
  let ?c = "gr_sender g"
  obtain ds where ds: "ch_unread ops ?c r = Some ds" using r by blast
  obtain res c' where res: "ch_recv ops r ?c = (res, c')" by fastforce
  have law: "recv_law ops r ?c ds" and cap: "ch_capacity ops c' = ch_capacity ops ?c"
    using channel_lawsD(4)[OF laws ds] res by auto
  have own: "receiver_ok sent subs b (gr_identifier g) r ds" using g ds by (auto simp: group_ok_def)
  obtain ds' where ds': "ch_unread ops c' = (ch_unread ops ?c)(r \<mapsto> ds')"
    "receiver_ok sent ?subs b (gr_identifier g) r ds'"
  proof (cases res)
    case None
    then show ?thesis
      using that[of ds] law own res ds sub by (auto simp: recv_law_def receiver_ok_def note_received_def fun_upd_idem)
  next
    case (Some x)
    show ?thesis
    proof (cases x)
      case (Frame d)
      then have "ds = d # tl ds" "ch_unread ops c' = (ch_unread ops ?c)(r \<mapsto> tl ds)"
        using law res Some by (simp_all add: recv_law_def)
      then have "receiver_ok sent ?subs b (gr_identifier g) r (tl ds)"
        using own res sub Some Frame by (auto simp: receiver_ok_def note_received_def)
      then show ?thesis using that \<open>ch_unread ops c' = _\<close> by blast
    next
      case Lagged
      then show ?thesis
        using that law own res sub Some by (auto simp: recv_law_def receiver_ok_def note_received_def)
    qed
  qed
  show "dom (ch_unread ops (snd (ch_recv ops r ?c))) = dom (ch_unread ops ?c)"
    using ds'(1) r res by auto
  have "receiver_ok sent ?subs b (gr_identifier g) s es"
    if "s \<noteq> r" "ch_unread ops ?c s = Some es" for s es
    using g that by (auto simp: group_ok_def receiver_ok_def)
  then show "group_ok ops cap sent ?subs b (g\<lparr>gr_sender := snd (ch_recv ops r ?c)\<rparr>)"
    using g ds' res cap by (auto simp: group_ok_def)
qed

lemma recv_ok:
  assumes laws: "channel_laws ops" and ok: "hub_ok ops cap (h, sent, subs)" and sub: "subs r = Some sb"
    and res: "recv ops (sb_broadcasting sb) (sb_identifier sb) r h = (res, h')"
  shows "hub_ok ops cap (h', sent, subs(r \<mapsto> note_received res sb))"
proof -
  let ?b = "sb_broadcasting sb" and ?i = "sb_identifier sb"
  obtain g0 where g0: "g0 \<in> set (hb_streams h ?b)" "gr_identifier g0 = ?i" using hub_okD(5)[OF ok sub] by blast
  have r: "res = fst (ch_recv ops r (gr_sender g))" if "g \<in> set (hb_streams h ?b)" "gr_identifier g = ?i" for g
    using recv_first[OF ok that] res by simp
  have h': "h' = with_group ?b ?i (\<lambda>c. snd (ch_recv ops r c)) h"
    using recv_first[OF ok g0] res by simp
  show ?thesis
  proof (rule hub_ok_rewrite[OF ok sub, where keep = "\<lambda>_. True" and f = "\<lambda>c. snd (ch_recv ops r c)"])
    fix g assume g: "g \<in> set (hb_streams h ?b)" "gr_identifier g = ?i" "r \<in> dom (ch_unread ops (gr_sender g))"
    show "group_ok ops cap sent (subs(r \<mapsto> note_received res sb)) ?b
        (g\<lparr>gr_sender := snd (ch_recv ops r (gr_sender g))\<rparr>)"
      using recv_group_ok(1)[OF laws hub_okD(3)[OF ok g(1)] g(3) sub] r[OF g(1,2)] by simp
    fix s assume "s \<in> dom (ch_unread ops (gr_sender g))"
    then show "True \<and> s \<in> dom (ch_unread ops (snd (ch_recv ops r (gr_sender g))))"
      using recv_group_ok(2)[OF laws hub_okD(3)[OF ok g(1)] g(3) sub] by simp
  qed (auto simp: h' with_group_def)
qed

lemma drop_subscriber_ok:
  assumes laws: "channel_laws ops" and ok: "hub_ok ops cap (h, sent, subs)" and sub: "subs r = Some sb"
  shows "hub_ok ops cap (drop_subscriber ops (sb_broadcasting sb) (sb_identifier sb) r h, sent, subs(r := None))"
proof (rule hub_ok_rewrite[OF ok sub, where f = "ch_drop ops r"
      and keep = "\<lambda>g. gr_identifier g \<noteq> sb_identifier sb \<or> 0 < ch_count ops (gr_sender g)"])
  let ?b = "sb_broadcasting sb"
  note drop = channel_lawsD(5,6)[OF laws]
  fix g assume g: "g \<in> set (hb_streams h ?b)" "gr_identifier g = sb_identifier sb"
  have gok: "group_ok ops cap sent subs ?b g" by (rule hub_okD(3)[OF ok g(1)])
  {
    assume "gr_identifier (g\<lparr>gr_sender := ch_drop ops r (gr_sender g)\<rparr>) \<noteq> sb_identifier sb \<or>
      0 < ch_count ops (gr_sender (g\<lparr>gr_sender := ch_drop ops r (gr_sender g)\<rparr>))"
    then have "0 < card (dom ((ch_unread ops (gr_sender g))(r := None)))"
      using g(2) by (simp add: channel_lawsD(7)[OF laws] drop del: dom_fun_upd)
    then have "dom ((ch_unread ops (gr_sender g))(r := None)) \<noteq> {}" by (metis card.empty less_irrefl)
    then show "group_ok ops cap sent (subs(r := None)) ?b (g\<lparr>gr_sender := ch_drop ops r (gr_sender g)\<rparr>)"
      using gok by (auto simp: group_ok_def receiver_ok_def drop)
  }
  fix s assume "s \<in> dom (ch_unread ops (gr_sender g))" "(subs(r := None)) s \<noteq> None"
  then have "s \<in> dom ((ch_unread ops (gr_sender g))(r := None))" by (auto split: if_splits)
  moreover from this have "0 < card (dom ((ch_unread ops (gr_sender g))(r := None)))"
    using gok by (auto simp: group_ok_def card_gt_0_iff simp del: not_None_eq intro: finite_subset)
  ultimately show "(gr_identifier (g\<lparr>gr_sender := ch_drop ops r (gr_sender g)\<rparr>) \<noteq> sb_identifier sb \<or>
      0 < ch_count ops (gr_sender (g\<lparr>gr_sender := ch_drop ops r (gr_sender g)\<rparr>))) \<and>
      s \<in> dom (ch_unread ops (ch_drop ops r (gr_sender g)))"
    by (simp add: channel_lawsD(7)[OF laws] drop del: dom_fun_upd)
qed (auto simp: drop_subscriber_def release_hub_def with_group_def)

lemma hub_step_ok:
  assumes "channel_laws ops" "0 < cap"
  shows "hub_step ops s t \<Longrightarrow> hub_ok ops cap s \<Longrightarrow> hub_ok ops cap t"
proof (induction rule: hub_step.induct)
  case sequenced then show ?case by (simp add: hub_ok_def)
qed (auto simp del: One_nat_def add_Suc_right intro: broadcast_ok subscribe_ok recv_ok drop_subscriber_ok assms)

interpretation hub_runs: invariant_system "hub_step ops" "\<lambda>s. channel_laws ops \<and> 0 < cap \<and> hub_ok ops cap s"
  for ops cap
  by unfold_locales (blast intro: hub_step_ok)

lemma hub_reachable_ok:
  assumes "channel_laws ops" "0 < cap" "(hub_step ops)\<^sup>*\<^sup>* (hub_new cap, [], Map.empty) s"
  shows "hub_ok ops cap s"
proof -
  have "hub_ok ops cap (hub_new cap, [], Map.empty)" by (rule hub_okI) (simp_all add: hub_new_def)
  then show ?thesis using hub_runs.inv_run[OF assms(3), of cap] assms(1,2) by simp
qed

lemma receivers_counted:
  assumes ok: "hub_ok ops cap (h, sent, subs)"
  shows "sum_list (map (\<lambda>g. card (dom (ch_unread ops (gr_sender g)))) (hb_streams h b)) =
    card {r. \<exists>sb. subs r = Some sb \<and> sb_broadcasting sb = b}"
proof -
  let ?gs = "hb_streams h b" and ?D = "\<lambda>g. dom (ch_unread ops (gr_sender g))"
  have "{r. \<exists>sb. subs r = Some sb \<and> sb_broadcasting sb = b} = (\<Union>g \<in> set ?gs. ?D g)"
  proof (intro set_eqI iffI)
    fix r assume "r \<in> {r. \<exists>sb. subs r = Some sb \<and> sb_broadcasting sb = b}"
    then obtain sb where "subs r = Some sb" "sb_broadcasting sb = b" by blast
    then show "r \<in> (\<Union>g \<in> set ?gs. ?D g)" using hub_okD(5)[OF ok, of r sb] by blast
  next
    fix r assume "r \<in> (\<Union>g \<in> set ?gs. ?D g)"
    then obtain g where "g \<in> set ?gs" "r \<in> ?D g" by blast
    then show "r \<in> {r. \<exists>sb. subs r = Some sb \<and> sb_broadcasting sb = b}"
      using group_ok_owner[OF hub_okD(3)[OF ok, of g b], of r] by blast
  qed
  moreover have "sum_list (map (\<lambda>g. card (?D g)) gs) = card (\<Union>g \<in> set gs. ?D g)"
    if "set gs \<subseteq> set ?gs" "distinct (map gr_identifier gs)" for gs
    using that
  proof (induction gs)
    case (Cons g gs)
    have "?D g \<inter> ?D g' = {}" if "g' \<in> set gs" for g'
    proof -
      have "gr_identifier g \<noteq> gr_identifier g'" using that Cons.prems(2) by auto
      moreover have "g \<in> set ?gs" "g' \<in> set ?gs" using that Cons.prems(1) by auto
      ultimately show ?thesis
        using group_ok_owner[OF hub_okD(3)[OF ok, of g b]] group_ok_owner[OF hub_okD(3)[OF ok, of g' b]] by fastforce
    qed
    then have "?D g \<inter> (\<Union>g \<in> set gs. ?D g) = {}" by blast
    moreover have "finite (?D g')" if "g' \<in> set (g # gs)" for g'
      using hub_okD(3)[OF ok, of g' b] that Cons.prems(1) by (auto simp: group_ok_def)
    ultimately show ?case using Cons by (simp add: card_Un_disjoint)
  qed simp
  ultimately show ?thesis using hub_okD(2)[OF ok, of b] by simp
qed

subsection \<open>Unread frames are in sequence\<close>

definition group_sequenced :: "'c channel_ops \<Rightarrow> nat \<Rightarrow> 'c group \<Rightarrow> bool" where
  "group_sequenced ops n g \<longleftrightarrow>
     (\<forall>r ds. ch_unread ops (gr_sender g) r = Some ds \<longrightarrow>
        sorted_wrt (<) (map dl_sequence ds) \<and> (\<forall>d \<in> set ds. dl_sequence d \<le> n))"

definition hub_sequenced :: "'c channel_ops \<Rightarrow> 'c hub \<Rightarrow> bool" where
  "hub_sequenced ops h \<longleftrightarrow> (\<forall>b. \<forall>g \<in> set (hb_streams h b). group_sequenced ops (hb_sequence h) g)"

lemma group_sequenced_mono: "group_sequenced ops n g \<Longrightarrow> n \<le> m \<Longrightarrow> group_sequenced ops m g"
  by (fastforce simp: group_sequenced_def)

lemma sent_group_sequenced:
  assumes laws: "channel_laws ops" and ok: "group_ok ops cap sent subs b g" and g: "group_sequenced ops n g"
  shows "group_sequenced ops (n + 1) (sent_group ops (n + 1) payload g)"
proof -
  let ?d = "\<lparr>dl_sequence = n + 1, dl_frame = group_frame (gr_identifier g) payload\<rparr>"
  have "ch_unread ops (snd (ch_send ops ?d (gr_sender g))) =
      (\<lambda>r. map_option (\<lambda>ds. ds @ [?d]) (ch_unread ops (gr_sender g) r))"
    using channel_lawsD(3)[OF laws, of "gr_sender g" ?d] ok by (simp add: group_ok_def)
  then show ?thesis using g by (fastforce simp: group_sequenced_def sorted_wrt_append)
qed

lemma recv_group_sequenced:
  assumes laws: "channel_laws ops" and g: "group_sequenced ops n g" and r: "r \<in> dom (ch_unread ops (gr_sender g))"
  shows "group_sequenced ops n (g\<lparr>gr_sender := snd (ch_recv ops r (gr_sender g))\<rparr>)"
proof -
  obtain ds where ds: "ch_unread ops (gr_sender g) r = Some ds" using r by blast
  have law: "recv_law ops r (gr_sender g) ds" using channel_lawsD(4)[OF laws ds] by simp
  obtain k where k: "ch_unread ops (snd (ch_recv ops r (gr_sender g))) = (ch_unread ops (gr_sender g))(r \<mapsto> drop k ds)"
  proof -
    obtain res c' where rc: "ch_recv ops r (gr_sender g) = (res, c')" by fastforce
    show thesis
    proof (cases res)
      case None then show ?thesis using that[of 0] law rc ds by (auto simp: recv_law_def fun_upd_idem)
    next
      case (Some x)
      then show ?thesis using that[of 1] that law rc by (cases x) (auto simp: recv_law_def drop_Suc)
    qed
  qed
  have "sorted_wrt (<) (map dl_sequence (drop k ds)) \<and> (\<forall>d \<in> set (drop k ds). dl_sequence d \<le> n)"
    using g ds by (auto simp: group_sequenced_def drop_map[symmetric] sorted_wrt_drop dest: in_set_dropD)
  then show ?thesis using g by (auto simp: group_sequenced_def k)
qed

lemma hub_step_sequenced:
  assumes "channel_laws ops" "0 < cap"
  shows "hub_step ops s t \<Longrightarrow> hub_ok ops cap s \<Longrightarrow> hub_sequenced ops (fst s) \<Longrightarrow> hub_sequenced ops (fst t)"
proof (induction rule: hub_step.induct)
  case (broadcast h sent subs b payload)
  have "group_sequenced ops (hb_sequence h + 1) g"
    if "g \<in> set (hb_streams (snd (broadcast ops b payload h)) b')" for b' g
  proof (cases "b' = b")
    case True
    then obtain g0 where "g0 \<in> set (hb_streams h b)" "g = sent_group ops (hb_sequence h + 1) payload g0"
      using \<open>g \<in> _\<close> broadcast_streams[OF assms(1) broadcast(1), of b payload] by auto
    then show ?thesis
      using sent_group_sequenced[OF assms(1) hub_okD(3)[OF broadcast(1)]] broadcast(2) by (auto simp: hub_sequenced_def)
  next
    case False
    then have "g \<in> set (hb_streams h b')"
      using that broadcast_streams[OF assms(1) broadcast(1), of b payload] by simp
    then show ?thesis using broadcast(2) group_sequenced_mono by (fastforce simp: hub_sequenced_def)
  qed
  moreover have "hb_sequence (snd (broadcast ops b payload h)) = hb_sequence h + 1"
    by (simp add: broadcast_def Let_def split: prod.splits)
  ultimately show ?case by (simp add: hub_sequenced_def)
next
  case (subscribe b i h r h' sent subs)
  have h': "hb_sequence h' = hb_sequence h"
    "hb_streams h' = (hb_streams h)(b := join_group ops cap i (hb_next_subscriber h) (hb_streams h b))"
    using subscribe(1) hub_okD(1)[OF subscribe(2)] by (auto simp: subscribe_def Let_def)
  have none: "ch_unread ops (gr_sender g) (hb_next_subscriber h) = None" if "g \<in> set (hb_streams h c)" for c g
    using group_ok_owner[OF hub_okD(3)[OF subscribe(2) that], of "hb_next_subscriber h"]
      hub_okD(4)[OF subscribe(2), of "hb_next_subscriber h"] by (metis domIff less_irrefl)
  have "group_sequenced ops (hb_sequence h) g"
    if "g \<in> set (join_group ops cap i (hb_next_subscriber h) gs)" "set gs \<subseteq> set (hb_streams h b)" for g gs
    using that
  proof (induction gs)
    case Nil then show ?case using channel_lawsD(1)[OF assms] by (simp add: group_sequenced_def)
  next
    case (Cons x gs)
    have "group_sequenced ops (hb_sequence h) x" using Cons.prems(2) subscribe(3) by (auto simp: hub_sequenced_def)
    moreover have "ch_unread ops (ch_subscribe ops (hb_next_subscriber h) (gr_sender x)) =
        (ch_unread ops (gr_sender x))(hb_next_subscriber h \<mapsto> [])"
      using channel_lawsD(2)[OF assms(1) none, of x b] Cons.prems(2) by simp
    ultimately have "group_sequenced ops (hb_sequence h)
        (x\<lparr>gr_sender := ch_subscribe ops (hb_next_subscriber h) (gr_sender x)\<rparr>)"
      by (simp add: group_sequenced_def)
    then show ?case using Cons subscribe(3) by (auto simp: hub_sequenced_def split: if_splits)
  qed
  then show ?case using subscribe(3) h' by (auto simp: hub_sequenced_def)
next
  case (recv subs r sb h res h' sent)
  let ?b = "sb_broadcasting sb" and ?i = "sb_identifier sb"
  obtain g0 where g0: "g0 \<in> set (hb_streams h ?b)" "gr_identifier g0 = ?i" "r \<in> dom (ch_unread ops (gr_sender g0))"
    using hub_okD(5)[OF recv(3,1)] by blast
  have h': "h' = with_group ?b ?i (\<lambda>c. snd (ch_recv ops r c)) h" using recv_first[OF recv(3) g0(1,2)] recv(2) by simp
  have same: "g = g0" if "g \<in> set (hb_streams h ?b)" "gr_identifier g = ?i" for g
    using hub_okD(2)[OF recv(3), of ?b] that g0(1,2) by (simp add: distinct_map inj_on_def)
  have "group_sequenced ops (hb_sequence h) (g0\<lparr>gr_sender := snd (ch_recv ops r (gr_sender g0))\<rparr>)"
    using recv_group_sequenced[OF assms(1) _ g0(3)] recv(4) g0(1) by (auto simp: hub_sequenced_def)
  then show ?case using recv(4) same by (auto simp: h' with_group_def hub_sequenced_def split: if_splits)
next
  case (drop subs r sb h sent)
  have "group_sequenced ops n (g\<lparr>gr_sender := ch_drop ops r (gr_sender g)\<rparr>)" if "group_sequenced ops n g" for n g
    using that by (simp add: group_sequenced_def channel_lawsD(5)[OF assms(1)])
  then show ?case
    using drop(3) by (auto simp: drop_subscriber_def release_hub_def with_group_def hub_sequenced_def split: if_splits)
next
  case (sequenced h sent subs)
  then show ?case using group_sequenced_mono by (fastforce simp: hub_sequenced_def)
qed

interpretation hub_order: invariant_system "hub_step ops"
  "\<lambda>s. channel_laws ops \<and> 0 < cap \<and> hub_ok ops cap s \<and> hub_sequenced ops (fst s)" for ops cap
  by unfold_locales (blast intro: hub_step_ok hub_step_sequenced)

lemma hub_reachable_sequenced:
  assumes "channel_laws ops" "0 < cap" "(hub_step ops)\<^sup>*\<^sup>* (hub_new cap, [], Map.empty) s"
  shows "hub_sequenced ops (fst s)"
proof -
  have "hub_ok ops cap (hub_new cap, [], Map.empty)" by (rule hub_okI) (simp_all add: hub_new_def)
  moreover have "hub_sequenced ops (hub_new cap)" by (simp add: hub_sequenced_def hub_new_def)
  ultimately show ?thesis using hub_order.inv_run[OF assms(3), of cap] assms(1,2) by simp
qed

subsection \<open>Properties of the hub\<close>

text \<open>C14. A subscriber gets every broadcast once and in order, or is told it lagged: over any run of
  broadcasts, subscriptions, reads and drops, what a subscriber that never lagged has received is an
  initial part of the frames broadcast to its broadcasting since it subscribed, each wrapped for its
  identifier; and while it is no more than the hub's capacity behind, its next read returns the next
  of them.\<close>

theorem subscriber_gets_every_frame:
  assumes "channel_laws ops" and "0 < capacity"
    and "(hub_step ops)\<^sup>*\<^sup>* (hub_new capacity, [], Map.empty) (h, sent, subs)"
    and "subs r = Some sb" and "\<not> sb_lagged sb"
  shows "\<exists>rest. expected sb sent = sb_got sb @ rest \<and>
    (length rest \<le> capacity \<longrightarrow> fst (recv ops (sb_broadcasting sb) (sb_identifier sb) r h) =
       (case rest of [] \<Rightarrow> None | d # _ \<Rightarrow> Some (Frame d)))"
proof -
  have ok: "hub_ok ops capacity (h, sent, subs)" by (rule hub_reachable_ok[OF assms(1-3)])
  obtain g ds where g: "g \<in> set (hb_streams h (sb_broadcasting sb))" "gr_identifier g = sb_identifier sb"
    and ds: "ch_unread ops (gr_sender g) r = Some ds" using hub_okD(5)[OF ok assms(4)] by blast
  have "expected sb sent = sb_got sb @ ds" "capacity \<le> ch_capacity ops (gr_sender g)"
    using hub_okD(3)[OF ok g(1)] ds assms(4,5) by (fastforce simp: group_ok_def receiver_ok_def)+
  moreover have "fst (ch_recv ops r (gr_sender g)) = (case ds of [] \<Rightarrow> None | d # _ \<Rightarrow> Some (Frame d))"
    if "length ds \<le> ch_capacity ops (gr_sender g)"
    using channel_lawsD(4)[OF assms(1) ds] that
    by (cases ds; cases "ch_recv ops r (gr_sender g)") (auto simp: recv_law_def split: option.splits received.splits)
  ultimately show ?thesis using recv_first[OF ok g] by (intro exI[of _ ds]) simp
qed

text \<open>A channel that keeps, for each receiver, the frames it has to read.\<close>

record queue_channel =
  qc_capacity :: nat
  qc_unread :: "nat \<rightharpoonup> delivery list"

definition queue_ops :: "queue_channel channel_ops" where
  "queue_ops = \<lparr>
     ch_new = (\<lambda>cap r. \<lparr>qc_capacity = cap, qc_unread = [r \<mapsto> []]\<rparr>),
     ch_subscribe = (\<lambda>r c. c\<lparr>qc_unread := (qc_unread c)(r \<mapsto> [])\<rparr>),
     ch_send = (\<lambda>d c. if dom (qc_unread c) = {} then (None, c)
       else (Some (card (dom (qc_unread c))), c\<lparr>qc_unread := \<lambda>r. map_option (\<lambda>ds. ds @ [d]) (qc_unread c r)\<rparr>)),
     ch_recv = (\<lambda>r c. case qc_unread c r of
         None \<Rightarrow> (None, c)
       | Some ds \<Rightarrow>
           if qc_capacity c < length ds
           then (Some Lagged, c\<lparr>qc_unread := (qc_unread c)(r \<mapsto> drop (length ds - qc_capacity c) ds)\<rparr>)
           else (case ds of [] \<Rightarrow> (None, c)
                 | d # ds' \<Rightarrow> (Some (Frame d), c\<lparr>qc_unread := (qc_unread c)(r \<mapsto> ds')\<rparr>))),
     ch_drop = (\<lambda>r c. c\<lparr>qc_unread := (qc_unread c)(r := None)\<rparr>),
     ch_count = (\<lambda>c. card (dom (qc_unread c))),
     ch_unread = qc_unread, ch_capacity = qc_capacity\<rparr>"

lemma queue_ops_laws: "channel_laws queue_ops"
  unfolding channel_laws_def
  by (intro conjI allI impI)
     (auto simp: queue_ops_def recv_law_def split: list.splits)

lemma example_hub_run:
  "(hub_step queue_ops)\<^sup>*\<^sup>* (hub_new 8, [], Map.empty)
     (snd (broadcast queue_ops ''room'' ''1'' (snd (subscribe queue_ops ''room'' None (hub_new 8)))),
      [(''room'', 1, ''1'')],
      [0 \<mapsto> \<lparr>sb_broadcasting = ''room'', sb_identifier = None, sb_base = 0, sb_got = [], sb_lagged = False\<rparr>])"
proof -
  let ?h = "snd (subscribe queue_ops ''room'' None (hub_new 8))"
  have sub: "subscribe queue_ops ''room'' None (hub_new 8) = (0, ?h)" by (simp add: subscribe_def hub_new_def)
  have seq: "hb_sequence ?h + 1 = 1" by (simp add: subscribe_def hub_new_def)
  have a: "hub_step queue_ops (hub_new 8, [], Map.empty) (?h, [], [0 \<mapsto> \<lparr>sb_broadcasting = ''room'',
      sb_identifier = None, sb_base = 0, sb_got = [], sb_lagged = False\<rparr>])"
    using hub_step.subscribe[OF sub, of "[]" Map.empty] by simp
  have b: "hub_step queue_ops (?h, [], subs)
      (snd (broadcast queue_ops ''room'' ''1'' ?h), [(''room'', 1, ''1'')], subs)" for subs
    using hub_step.broadcast[of queue_ops ?h "[]" subs "''room''" "''1''"] by (simp only: seq append_Nil)
  from a b show ?thesis by (blast intro: rtranclp.rtrancl_into_rtrancl)
qed

theorem subscriber_gets_every_frame_witness:
  "fst (recv queue_ops ''room'' None 0
     (snd (broadcast queue_ops ''room'' ''1'' (snd (subscribe queue_ops ''room'' None (hub_new 8)))))) =
   Some (Frame \<lparr>dl_sequence = 1, dl_frame = ''1''\<rparr>)"
  using subscriber_gets_every_frame[OF queue_ops_laws _ example_hub_run, of 0]
  by (auto simp: expected_def group_frame_def)

text \<open>Nothing is kept for nobody: in every reachable state a broadcasting has an entry exactly
  while it has a live subscriber, and a broadcast reports exactly its subscribers.\<close>

theorem hub_keeps_only_followed_streams:
  assumes "channel_laws ops" and "0 < capacity"
    and "(hub_step ops)\<^sup>*\<^sup>* (hub_new capacity, [], Map.empty) (h, sent, subs)"
  shows "(hb_streams h b \<noteq> []) = (\<exists>r sb. subs r = Some sb \<and> sb_broadcasting sb = b) \<and>
    fst (broadcast ops b payload h) = card {r. \<exists>sb. subs r = Some sb \<and> sb_broadcasting sb = b}"
proof
  have ok: "hub_ok ops capacity (h, sent, subs)" by (rule hub_reachable_ok[OF assms])
  show "fst (broadcast ops b payload h) = card {r. \<exists>sb. subs r = Some sb \<and> sb_broadcasting sb = b}"
    by (simp add: broadcast_streams[OF assms(1) ok] receivers_counted[OF ok])
  show "(hb_streams h b \<noteq> []) = (\<exists>r sb. subs r = Some sb \<and> sb_broadcasting sb = b)"
  proof
    assume "hb_streams h b \<noteq> []"
    then obtain g where g: "g \<in> set (hb_streams h b)" using list.set_sel(1) by blast
    then obtain r where "r \<in> dom (ch_unread ops (gr_sender g))"
      using hub_okD(3)[OF ok g] unfolding group_ok_def by blast
    then show "\<exists>r sb. subs r = Some sb \<and> sb_broadcasting sb = b"
      using group_ok_owner[OF hub_okD(3)[OF ok g]] by blast
  next
    assume "\<exists>r sb. subs r = Some sb \<and> sb_broadcasting sb = b"
    then show "hb_streams h b \<noteq> []" using hub_okD(5)[OF ok] by force
  qed
qed

theorem hub_keeps_only_followed_streams_witness:
  "fst (broadcast queue_ops ''room'' ''2''
     (snd (broadcast queue_ops ''room'' ''1'' (snd (subscribe queue_ops ''room'' None (hub_new 8)))))) = 1"
proof -
  have "{r. \<exists>sb. [0 \<mapsto> \<lparr>sb_broadcasting = ''room'', sb_identifier = None, sb_base = 0, sb_got = [],
      sb_lagged = False\<rparr>] r = Some sb \<and> sb_broadcasting sb = ''room''} = {0::nat}"
    by (auto split: if_splits)
  then show ?thesis
    using hub_keeps_only_followed_streams[OF queue_ops_laws _ example_hub_run, of "''room''" "''2''"] by simp
qed

end
