(* ===== verification/CableProtocol.thy ===== *)
theory CableProtocol
  imports Texts
begin

section \<open>Texts of the cable protocol and the checks of an upgrade request\<close>

text \<open>
  \<^verbatim>\<open>crates/cable/src/json.rs\<close>, \<^verbatim>\<open>naming.rs\<close> and \<^verbatim>\<open>protocol.rs\<close>, and the request checks of
  \<^verbatim>\<open>server.rs\<close>.  Texts are ASCII: the code treats every other character as itself, and header
  values that are not visible ASCII are not texts (\<open>None\<close>).  The JSON serializer is a parameter.
\<close>

subsection \<open>Text functions of the standard library\<close>

text \<open>\<^verbatim>\<open>replace("::", with)\<close>: occurrences from the left that do not overlap.\<close>

fun replace_colons :: "string \<Rightarrow> string \<Rightarrow> string" where
  "replace_colons by_text (c # d # cs) =
     (if c = CHR '':'' \<and> d = CHR '':'' then by_text @ replace_colons by_text cs
      else c # replace_colons by_text (d # cs))"
| "replace_colons by_text cs = cs"

subsection \<open>JSON as Active Support writes it\<close>

definition escape_char :: "char \<Rightarrow> string" where
  "escape_char c =
     (if c = CHR ''<'' then CHR 0x5C # ''u003c'' else if c = CHR ''>'' then CHR 0x5C # ''u003e''
      else if c = CHR ''&'' then CHR 0x5C # ''u0026'' else [c])"

definition escape_html_entities :: "string \<Rightarrow> string" where
  "escape_html_entities json =
     (if list_all (\<lambda>c. c \<notin> {CHR ''<'', CHR ''>'', CHR ''&''}) json then json else concat (map escape_char json))"

definition json_encode :: "('v \<Rightarrow> string) \<Rightarrow> 'v \<Rightarrow> string" where
  "json_encode to_string v = escape_html_entities (to_string v)"

subsection \<open>Names\<close>

text \<open>The loop of \<^verbatim>\<open>underscore\<close> over the rest of the characters, after \<open>prev\<close>.\<close>

fun underscore_from :: "char option \<Rightarrow> string \<Rightarrow> string" where
  "underscore_from prev [] = []"
| "underscore_from prev (c # cs) =
     (if is_upper c \<and> (case prev of None \<Rightarrow> False | Some p \<Rightarrow>
           is_lower p \<or> is_digit p \<or>
           (is_upper p \<or> is_digit p) \<and> (case cs of [] \<Rightarrow> False | n # _ \<Rightarrow> is_lower n))
      then ''_'' else []) @
     (if c = CHR ''-'' then CHR ''_'' else to_lower c) # underscore_from (Some c) cs"

definition underscore :: "string \<Rightarrow> string" where
  "underscore word = underscore_from None (replace_colons ''/'' word)"

definition strip_channel :: "string \<Rightarrow> string" where
  "strip_channel name = (if suffix ''Channel'' name then take (length name - 7) name else name)"

definition channel_name :: "string \<Rightarrow> string" where
  "channel_name class_name = underscore (replace_colons '':'' (strip_channel class_name))"

definition broadcasting_for :: "string \<Rightarrow> string list \<Rightarrow> string" where
  "broadcasting_for class_name broadcastables = join_with '':'' (channel_name class_name # broadcastables)"

subsection \<open>Frames\<close>

definition quoted :: "string \<Rightarrow> string" where
  "quoted t = [CHR 0x22] @ t @ [CHR 0x22]"

definition protocols :: "string list" where
  "protocols = [''actioncable-v1-json'', ''actioncable-unsupported'']"

datatype disconnect_reason = Unauthorized | InvalidRequest | ServerRestart | Remote

fun reason_text :: "disconnect_reason \<Rightarrow> string" where
  "reason_text Unauthorized = ''unauthorized''"
| "reason_text InvalidRequest = ''invalid_request''"
| "reason_text ServerRestart = ''server_restart''"
| "reason_text Remote = ''remote''"

definition welcome_frame :: string where
  "welcome_frame = ''{'' @ quoted ''type'' @ '':'' @ quoted ''welcome'' @ ''}''"

definition ping_frame :: "int \<Rightarrow> string" where
  "ping_frame seconds = ''{'' @ quoted ''type'' @ '':'' @ quoted ''ping'' @ '','' @ quoted ''message'' @ '':'' @
     (if seconds < 0 then ''-'' @ string_of_nat (nat (- seconds)) else string_of_nat (nat seconds)) @ ''}''"

definition disconnect_frame :: "disconnect_reason option \<Rightarrow> string \<Rightarrow> string" where
  "disconnect_frame reason encoded_reconnect =
     ''{'' @ quoted ''type'' @ '':'' @ quoted ''disconnect'' @ '','' @ quoted ''reason'' @ '':'' @
     (case reason of None \<Rightarrow> ''null'' | Some r \<Rightarrow> quoted (reason_text r)) @ '','' @
     quoted ''reconnect'' @ '':'' @ encoded_reconnect @ ''}''"

definition confirmation :: "string \<Rightarrow> string" where
  "confirmation encoded_identifier =
     ''{'' @ quoted ''identifier'' @ '':'' @ encoded_identifier @ '','' @ quoted ''type'' @ '':'' @
     quoted ''confirm_subscription'' @ ''}''"

definition rejection :: "string \<Rightarrow> string" where
  "rejection encoded_identifier =
     ''{'' @ quoted ''identifier'' @ '':'' @ encoded_identifier @ '','' @ quoted ''type'' @ '':'' @
     quoted ''reject_subscription'' @ ''}''"

subsection \<open>The upgrade request\<close>

text \<open>Headers in order, with lower-case names.\<close>

type_synonym headers = "(string \<times> string option) list"

definition get_all :: "string \<Rightarrow> headers \<Rightarrow> string option list" where
  "get_all name hs = map snd (filter (\<lambda>(n, _). n = name) hs)"

text \<open>The first value of a header, when it is a text.\<close>

definition get_text :: "string \<Rightarrow> headers \<Rightarrow> string option" where
  "get_text name hs = (case get_all name hs of [] \<Rightarrow> None | v # _ \<Rightarrow> v)"

definition websocket_request :: "string \<Rightarrow> headers \<Rightarrow> bool" where
  "websocket_request http_method hs \<longleftrightarrow>
     http_method = ''GET'' \<and>
     list_ex (\<lambda>v. case v of None \<Rightarrow> False | Some t \<Rightarrow>
        list_ex (\<lambda>token. same_ignoring_case (trim token) ''upgrade'') (split_on (CHR '','') t))
       (get_all ''connection'' hs) \<and>
     (case get_text ''upgrade'' hs of None \<Rightarrow> False | Some t \<Rightarrow> same_ignoring_case t ''websocket'')"

definition first_token :: "string \<Rightarrow> headers \<Rightarrow> string option" where
  "first_token name hs =
     map_option (\<lambda>t. map to_lower (trim (hd (split_on (CHR '','') t)))) (get_text name hs)"

definition ssl_request :: "headers \<Rightarrow> bool" where
  "ssl_request hs \<longleftrightarrow>
     first_token ''x-forwarded-ssl'' hs = Some ''on'' \<or>
     first_token ''x-forwarded-scheme'' hs = Some ''https'' \<or>
     first_token ''x-forwarded-proto'' hs = Some ''https''"

definition negotiate_protocol :: "headers \<Rightarrow> string option" where
  "negotiate_protocol hs =
     List.find (\<lambda>requested. requested \<in> set protocols)
       (map trim (concat (map (split_on (CHR '','')) (List.map_filter id (get_all ''sec-websocket-protocol'' hs)))))"

record cable_config =
  disable_request_forgery_protection :: bool
  allowed_request_origins :: "string list"
  allow_same_origin_as_host :: bool
  assume_ssl :: bool
  stream_capacity :: nat
  max_write_batch :: nat

definition default_cable_config :: cable_config where
  "default_cable_config = \<lparr>disable_request_forgery_protection = False, allowed_request_origins = [],
     allow_same_origin_as_host = True, assume_ssl = True, stream_capacity = 256, max_write_batch = 64\<rparr>"

definition allow_request_origin :: "cable_config \<Rightarrow> headers \<Rightarrow> bool" where
  "allow_request_origin cfg hs =
     (if disable_request_forgery_protection cfg then True
      else
        (let origin = get_text ''origin'' hs;
             host = (case get_text ''host'' hs of None \<Rightarrow> '''' | Some h \<Rightarrow> h);
             proto = (if assume_ssl cfg \<or> ssl_request hs then ''https'' else ''http'');
             same_origin = (origin = Some (proto @ ''://'' @ host))
         in if allow_same_origin_as_host cfg \<and> same_origin then True
            else (case origin of None \<Rightarrow> False | Some t \<Rightarrow> t \<in> set (allowed_request_origins cfg))))"

text \<open>What \<^verbatim>\<open>call\<close> and \<^verbatim>\<open>sync_call\<close> answer: 404, or an upgrade with the negotiated protocol.  The
  handshake's part is given by whether it was accepted.\<close>

datatype upgrade_answer = PageNotFound | SwitchingProtocols "string option"

definition cable_call :: "cable_config \<Rightarrow> string \<Rightarrow> headers \<Rightarrow> bool \<Rightarrow> upgrade_answer" where
  "cable_call cfg http_method hs handshake_accepted =
     (if \<not> websocket_request http_method hs \<or> \<not> allow_request_origin cfg hs then PageNotFound
      else if \<not> handshake_accepted then PageNotFound
      else SwitchingProtocols (negotiate_protocol hs))"

definition sync_call :: "cable_config \<Rightarrow> bool \<Rightarrow> string \<Rightarrow> headers \<Rightarrow> bool \<Rightarrow> upgrade_answer" where
  "sync_call cfg sync_installed http_method hs handshake_accepted =
     (if \<not> sync_installed then PageNotFound
      else if \<not> websocket_request http_method hs \<or> \<not> allow_request_origin cfg hs then PageNotFound
      else if \<not> handshake_accepted then PageNotFound
      else SwitchingProtocols None)"

subsection \<open>Properties\<close>

lemma escape_html_entities_map: "escape_html_entities t = concat (map escape_char t)"
proof -
  have "list_all (\<lambda>c. c \<notin> {CHR ''<'', CHR ''>'', CHR ''&''}) t \<Longrightarrow> concat (map escape_char t) = t"
    by (induction t) (auto simp: escape_char_def)
  then show ?thesis by (simp add: escape_html_entities_def)
qed

text \<open>Escaped JSON can stand in a page, and escaping it twice is harmless.\<close>

lemma escaped_json_html_safe:
  "list_all (\<lambda>c. c \<notin> {CHR ''<'', CHR ''>'', CHR ''&''}) (escape_html_entities t) \<and>
   escape_html_entities (escape_html_entities t) = escape_html_entities t"
proof
  show "list_all (\<lambda>c. c \<notin> {CHR ''<'', CHR ''>'', CHR ''&''}) (escape_html_entities t)"
    unfolding escape_html_entities_map by (induction t) (auto simp: escape_char_def)
  then show "escape_html_entities (escape_html_entities t) = escape_html_entities t"
    by (simp add: escape_html_entities_def[of "escape_html_entities t"])
qed

lemma to_lower_not_upper: "\<not> is_upper (to_lower c)"
  by (auto simp: to_lower_def is_upper_def)

text \<open>Names of channels have neither upper-case letters nor dashes.\<close>

lemma channel_name_normal: "list_all (\<lambda>c. \<not> is_upper c \<and> c \<noteq> CHR ''-'') (channel_name class_name)"
proof -
  have dash: "to_lower c \<noteq> CHR ''-''" if "c \<noteq> CHR ''-''" for c
  proof
    assume "to_lower c = CHR ''-''"
    then have "(of_char (to_lower c) :: nat) = 45" by simp
    moreover have "(of_char c :: nat) \<noteq> of_char CHR ''-''"
      using that of_char_eq_iff[of c "CHR ''-''", where ?'a = nat] by blast
    ultimately show False by (auto simp: to_lower_def is_upper_def split: if_splits)
  qed
  have "list_all (\<lambda>c. \<not> is_upper c \<and> c \<noteq> CHR ''-'') (underscore_from prev t)" for prev t
    by (induction prev t rule: underscore_from.induct)
       (auto simp: to_lower_not_upper dash, auto simp: is_upper_def)
  then show ?thesis by (simp add: channel_name_def underscore_def)
qed

text \<open>Pages of other sites cannot open a socket: with forgery protection on, a request that names
  no origin, or one that is neither listed nor the request's own host under its scheme, is answered
  by 404 on both endpoints.\<close>

theorem cross_origin_upgrade_refused:
  assumes "\<not> disable_request_forgery_protection cfg"
    and "\<And>origin. get_text ''origin'' hs = Some origin \<Longrightarrow>
      origin \<notin> set (allowed_request_origins cfg) \<and>
      origin \<noteq> (if assume_ssl cfg \<or> ssl_request hs then ''https'' else ''http'') @ ''://'' @
        (case get_text ''host'' hs of None \<Rightarrow> '''' | Some h \<Rightarrow> h)"
  shows "cable_call cfg http_method hs accepted = PageNotFound \<and>
    sync_call cfg installed http_method hs accepted = PageNotFound"
proof -
  have "\<not> allow_request_origin cfg hs"
    using assms by (cases "get_text ''origin'' hs") (auto simp: allow_request_origin_def Let_def)
  then show ?thesis by (simp add: cable_call_def sync_call_def)
qed

theorem cross_origin_upgrade_refused_witness:
  "cable_call default_cable_config ''GET'' [(''host'', Some ''chat.test''), (''origin'', Some ''https://evil.test'')] True =
     PageNotFound"
  using cross_origin_upgrade_refused[of default_cable_config
      "[(''host'', Some ''chat.test''), (''origin'', Some ''https://evil.test'')]" "''GET''" True True]
  by (simp add: default_cable_config_def get_text_def get_all_def)

end
