(* ===== verification/CableConnection.thy ===== *)
theory CableConnection
  imports PubSub CableProtocol "HOL-Library.Option_ord" "HOL-Library.Multiset"
begin

section \<open>Channels and the Action Cable connection\<close>

text \<open>
  \<^verbatim>\<open>crates/cable/src/channel.rs\<close> and \<^verbatim>\<open>crates/cable/src/connection.rs\<close>: the subscriptions of one socket,
  its commands, the frames waiting to be written, remote disconnects and one turn of its loop, over
  the hub of \<^verbatim>\<open>PubSub\<close>.

  The application's channel classes are a parameter: a callback is given by the operations it
  performs on its subscription and how it ends.  A stream's abort handle is named by its receiver;
  an aborted stream yields nothing more.  Which ready stream \<^verbatim>\<open>SelectAll\<close> reads next is part of the
  event.  The JSON library is a parameter (\<open>ce_parse\<close>, \<open>ce_to_string\<close>).
\<close>

subsection \<open>Subscriptions\<close>

record stream =
  st_broadcasting :: string
  st_identifier :: "string option"
  st_receiver :: nat

record subscription =
  sn_class_name :: string
  sn_identifier :: string
  sn_encoded :: string
  sn_streams :: "(string \<times> nat) list"
  sn_started :: "stream list"
  sn_rejected :: bool
  sn_unsubscribed :: bool
  sn_transmissions :: "string list"

definition max_receivers_per_stream :: nat where
  "max_receivers_per_stream = 2"

definition stream_from :: "'c channel_ops \<Rightarrow> string \<Rightarrow> subscription \<times> 'c hub \<Rightarrow> subscription \<times> 'c hub" where
  "stream_from ops broadcasting = (\<lambda>(sub, h).
     if sn_unsubscribed sub then (sub, h)
     else if max_receivers_per_stream \<le> length (filter (\<lambda>(name, _). name = broadcasting) (sn_streams sub))
     then (sub, h)
     else (let (r, h') = subscribe ops broadcasting (Some (sn_encoded sub)) h in
       (sub\<lparr>sn_started := sn_started sub @ [\<lparr>st_broadcasting = broadcasting,
              st_identifier = Some (sn_encoded sub), st_receiver = r\<rparr>],
            sn_streams := sn_streams sub @ [(broadcasting, r)]\<rparr>, h')))"

text \<open>The stopping operations also return the handles they abort.\<close>

definition stop_stream_from :: "string \<Rightarrow> subscription \<Rightarrow> subscription \<times> nat list" where
  "stop_stream_from broadcasting sub =
     (sub\<lparr>sn_streams := filter (\<lambda>(name, _). name \<noteq> broadcasting) (sn_streams sub)\<rparr>,
      map snd (filter (\<lambda>(name, _). name = broadcasting) (sn_streams sub)))"

definition drop_stream :: "'c channel_ops \<Rightarrow> stream \<Rightarrow> 'c hub \<Rightarrow> 'c hub" where
  "drop_stream ops st h = drop_subscriber ops (st_broadcasting st) (st_identifier st) (st_receiver st) h"

definition stop_all_streams :: "'c channel_ops \<Rightarrow> subscription \<times> 'c hub \<Rightarrow> subscription \<times> 'c hub \<times> nat list" where
  "stop_all_streams ops = (\<lambda>(sub, h).
     (sub\<lparr>sn_streams := [], sn_started := []\<rparr>, fold (drop_stream ops) (sn_started sub) h, map snd (sn_streams sub)))"

definition reject :: "subscription \<Rightarrow> subscription" where
  "reject sub = sub\<lparr>sn_rejected := True\<rparr>"

definition transmit :: "string \<Rightarrow> subscription \<Rightarrow> subscription" where
  "transmit encoded_message sub =
     sub\<lparr>sn_transmissions := sn_transmissions sub @ [message (sn_encoded sub) encoded_message]\<rparr>"

text \<open>What a callback may do with its subscription, messages already encoded.\<close>

datatype channel_call =
  StreamFrom string
| StreamFor "string list"
| StreamOrRejectFor "string list option"
| StopStreamFrom string
| StopAllStreams
| Reject
| Transmit string
| BroadcastTo "string list" string

fun run_call :: "'c channel_ops \<Rightarrow> channel_call \<Rightarrow> subscription \<times> 'c hub \<times> nat list \<Rightarrow> subscription \<times> 'c hub \<times> nat list" where
  "run_call ops (StreamFrom b) (sub, h, ab) = (case stream_from ops b (sub, h) of (sub', h') \<Rightarrow> (sub', h', ab))"
| "run_call ops (StreamFor bs) (sub, h, ab) =
     (case stream_from ops (broadcasting_for (sn_class_name sub) bs) (sub, h) of (sub', h') \<Rightarrow> (sub', h', ab))"
| "run_call ops (StreamOrRejectFor (Some bs)) (sub, h, ab) =
     (case stream_from ops (broadcasting_for (sn_class_name sub) bs) (sub, h) of (sub', h') \<Rightarrow> (sub', h', ab))"
| "run_call ops (StreamOrRejectFor None) (sub, h, ab) = (reject sub, h, ab)"
| "run_call ops (StopStreamFrom b) (sub, h, ab) = (case stop_stream_from b sub of (sub', stopped) \<Rightarrow> (sub', h, ab @ stopped))"
| "run_call ops StopAllStreams (sub, h, ab) =
     (case stop_all_streams ops (sub, h) of (sub', h', stopped) \<Rightarrow> (sub', h', ab @ stopped))"
| "run_call ops Reject (sub, h, ab) = (reject sub, h, ab)"
| "run_call ops (Transmit m) (sub, h, ab) = (transmit m sub, h, ab)"
| "run_call ops (BroadcastTo bs m) (sub, h, ab) =
     (sub, snd (broadcast ops (broadcasting_for (sn_class_name sub) bs) m h), ab)"

definition run_calls :: "'c channel_ops \<Rightarrow> channel_call list \<Rightarrow> subscription \<times> 'c hub \<times> nat list
    \<Rightarrow> subscription \<times> 'c hub \<times> nat list" where
  "run_calls ops calls s = fold (run_call ops) calls s"

text \<open>A channel class: its fresh instance, and its callbacks, which return what they do, how they
  end (\<open>None\<close> and \<open>False\<close> of the first two are an error) and the instance afterwards.\<close>

record 'k channel_class =
  cl_new :: 'k
  cl_subscribed :: "'k \<Rightarrow> subscription \<Rightarrow> channel_call list \<times> bool \<times> 'k"
  cl_unsubscribed :: "'k \<Rightarrow> subscription \<Rightarrow> channel_call list \<times> bool \<times> 'k"
  cl_perform :: "string \<Rightarrow> (string \<times> json) list \<Rightarrow> 'k \<Rightarrow> subscription \<Rightarrow> channel_call list \<times> bool option \<times> 'k"

record 'k cable_entry =
  ce_class :: "'k channel_class"
  ce_channel :: 'k
  ce_sub :: subscription

record 'k cable_env =
  ce_channels :: "string \<Rightarrow> 'k channel_class option"
  ce_parse :: "string \<Rightarrow> json option"
  ce_to_string :: "json \<Rightarrow> string"

abbreviation encode :: "'k cable_env \<Rightarrow> json \<Rightarrow> string" where
  "encode env \<equiv> json_encode (ce_to_string env)"

subsection \<open>The connection\<close>

record pending_frame =
  pf_sequence :: "nat option"
  pf_frame :: string

record close =
  cs_reason :: "disconnect_reason option"
  cs_reconnect :: json

definition lagged_close :: close where
  "lagged_close = \<lparr>cs_reason = None, cs_reconnect = JBool True\<rparr>"

record 'k cable_connection =
  cc_subscriptions :: "'k cable_entry list"
  cc_pending :: "pending_frame list"
  cc_started :: "stream list"
  cc_deliveries :: "stream list"
  cc_aborted :: "nat list"

definition cable_connection_new :: "'k cable_connection" where
  "cable_connection_new = \<lparr>cc_subscriptions = [], cc_pending = [], cc_started = [], cc_deliveries = [], cc_aborted = []\<rparr>"

definition max_subscriptions :: nat where "max_subscriptions = 64"
definition max_identifier_bytes :: nat where "max_identifier_bytes = 4096"

abbreviation plain_frame :: "string \<Rightarrow> pending_frame" where
  "plain_frame t \<equiv> \<lparr>pf_sequence = None, pf_frame = t\<rparr>"

abbreviation delivered_frame :: "delivery \<Rightarrow> pending_frame" where
  "delivered_frame d \<equiv> \<lparr>pf_sequence = Some (dl_sequence d), pf_frame = dl_frame d\<rparr>"

fun json_get :: "string \<Rightarrow> json \<Rightarrow> json option" where
  "json_get key (JObj members) = map_of members key"
| "json_get key _ = None"

fun as_text :: "json option \<Rightarrow> string option" where
  "as_text (Some (JStr t)) = Some t"
| "as_text _ = None"

fun position :: "string \<Rightarrow> 'k cable_entry list \<Rightarrow> nat option" where
  "position identifier [] = None"
| "position identifier (e # es) =
     (if sn_identifier (ce_sub e) = identifier then Some 0 else map_option Suc (position identifier es))"

text \<open>Moving what a callback left in its subscription to the connection.\<close>

definition collect :: "subscription \<times> 'c hub \<times> nat list \<Rightarrow> 'k cable_connection \<Rightarrow> 'k cable_connection" where
  "collect = (\<lambda>(sub, h, ab) c. c\<lparr>cc_pending := cc_pending c @ map plain_frame (sn_transmissions sub),
     cc_started := cc_started c @ sn_started sub, cc_aborted := cc_aborted c @ ab\<rparr>)"

abbreviation drained :: "subscription \<Rightarrow> subscription" where
  "drained sub \<equiv> sub\<lparr>sn_transmissions := [], sn_started := []\<rparr>"

definition remove_subscription :: "'c channel_ops \<Rightarrow> nat \<Rightarrow> 'k cable_connection \<times> 'c hub \<Rightarrow> 'k cable_connection \<times> 'c hub" where
  "remove_subscription ops i = (\<lambda>(c, h).
     (let e = cc_subscriptions c ! i;
          c0 = c\<lparr>cc_subscriptions := take i (cc_subscriptions c) @ drop (Suc i) (cc_subscriptions c)\<rparr>;
          sub = (ce_sub e)\<lparr>sn_unsubscribed := True\<rparr>;
          (calls, _, _) = cl_unsubscribed (ce_class e) (ce_channel e) sub;
          (sub1, h1, ab1) = run_calls ops calls (sub, h, []);
          (sub2, h2, ab2) = stop_all_streams ops (sub1, h1)
      in (collect (sub2, h2, ab1 @ ab2) c0, h2)))"

definition subscribe_to_channel :: "'k cable_env \<Rightarrow> 'c channel_ops \<Rightarrow> string \<Rightarrow> 'k cable_connection \<times> 'c hub
    \<Rightarrow> 'k cable_connection \<times> 'c hub" where
  "subscribe_to_channel env ops identifier = (\<lambda>(c, h).
     (case position identifier (cc_subscriptions c) of
        None \<Rightarrow> (c, h)
      | Some i \<Rightarrow>
          (let e = cc_subscriptions c ! i;
               (calls, ok, k) = cl_subscribed (ce_class e) (ce_channel e) (ce_sub e);
               (sub, h1, ab) = run_calls ops calls (ce_sub e, h, []);
               c1 = collect (sub, h1, ab) (c\<lparr>cc_subscriptions :=
                      (cc_subscriptions c)[i := e\<lparr>ce_channel := k, ce_sub := drained sub\<rparr>]\<rparr>)
           in if \<not> ok then (c1, h1)
              else if sn_rejected sub
              then (case remove_subscription ops i (c1, h1) of (c2, h2) \<Rightarrow>
                      (c2\<lparr>cc_pending := cc_pending c2 @ [plain_frame (rejection (encode env (JStr identifier)))]\<rparr>, h2))
              else (c1\<lparr>cc_pending := cc_pending c1 @ [plain_frame (confirmation (encode env (JStr identifier)))]\<rparr>, h1))))"

definition new_subscription :: "'k cable_env \<Rightarrow> string \<Rightarrow> string \<Rightarrow> subscription" where
  "new_subscription env class_name identifier =
     \<lparr>sn_class_name = class_name, sn_identifier = identifier, sn_encoded = encode env (JStr identifier),
      sn_streams = [], sn_started = [], sn_rejected = False, sn_unsubscribed = False, sn_transmissions = []\<rparr>"

definition add_subscription :: "'k cable_env \<Rightarrow> 'c channel_ops \<Rightarrow> json \<Rightarrow> 'k cable_connection \<times> 'c hub
    \<Rightarrow> 'k cable_connection \<times> 'c hub" where
  "add_subscription env ops data = (\<lambda>(c, h).
     (case as_text (json_get ''identifier'' data) of
        None \<Rightarrow> (c, h)
      | Some identifier \<Rightarrow>
          (case ce_parse env identifier of
             Some (JObj params) \<Rightarrow>
               if position identifier (cc_subscriptions c) \<noteq> None then (c, h)
               else if max_subscriptions \<le> length (cc_subscriptions c) \<or> max_identifier_bytes < length identifier
               then (c, h)
               else
                 (let class_name = (case as_text (map_of params ''channel'') of None \<Rightarrow> '''' | Some t \<Rightarrow> t) in
                  case ce_channels env class_name of
                    None \<Rightarrow> (c, h)
                  | Some cls \<Rightarrow>
                      subscribe_to_channel env ops identifier
                        (c\<lparr>cc_subscriptions := cc_subscriptions c @
                            [\<lparr>ce_class = cls, ce_channel = cl_new cls,
                              ce_sub = new_subscription env class_name identifier\<rparr>]\<rparr>, h))
           | _ \<Rightarrow> (c, h))))"

definition find_subscription :: "json \<Rightarrow> 'k cable_connection \<Rightarrow> nat option" where
  "find_subscription data c =
     Option.bind (as_text (json_get ''identifier'' data)) (\<lambda>identifier. position identifier (cc_subscriptions c))"

definition remove_command :: "'c channel_ops \<Rightarrow> json \<Rightarrow> 'k cable_connection \<times> 'c hub \<Rightarrow> 'k cable_connection \<times> 'c hub" where
  "remove_command ops data = (\<lambda>(c, h).
     (case find_subscription data c of Some i \<Rightarrow> remove_subscription ops i (c, h) | None \<Rightarrow> (c, h)))"

text \<open>The action of a message; \<open>None\<close> is the error.\<close>

definition action_of :: "json option \<Rightarrow> string option" where
  "action_of v =
     (case v of
        None \<Rightarrow> Some ''receive''
      | Some JNull \<Rightarrow> Some ''receive''
      | Some (JStr action) \<Rightarrow> Some (if blank action then ''receive'' else action)
      | Some _ \<Rightarrow> None)"

definition perform_action :: "'k cable_env \<Rightarrow> 'c channel_ops \<Rightarrow> json \<Rightarrow> 'k cable_connection \<times> 'c hub
    \<Rightarrow> 'k cable_connection \<times> 'c hub" where
  "perform_action env ops data = (\<lambda>(c, h).
     (case find_subscription data c of
        None \<Rightarrow> (c, h)
      | Some i \<Rightarrow>
          (case Option.bind (as_text (json_get ''data'' data)) (ce_parse env) of
             Some (JObj payload) \<Rightarrow>
               (case action_of (map_of payload ''action'') of
                  None \<Rightarrow> (c, h)
                | Some action \<Rightarrow>
                    (let e = cc_subscriptions c ! i;
                         (calls, _, k) = cl_perform (ce_class e) action payload (ce_channel e) (ce_sub e);
                         (sub, h1, ab) = run_calls ops calls (ce_sub e, h, [])
                     in (collect (sub, h1, ab) (c\<lparr>cc_subscriptions :=
                           (cc_subscriptions c)[i := e\<lparr>ce_channel := k, ce_sub := drained sub\<rparr>]\<rparr>), h1)))
           | _ \<Rightarrow> (c, h))))"

definition dispatch_command :: "'k cable_env \<Rightarrow> 'c channel_ops \<Rightarrow> string \<Rightarrow> 'k cable_connection \<times> 'c hub
    \<Rightarrow> 'k cable_connection \<times> 'c hub" where
  "dispatch_command env ops text_in s =
     (case ce_parse env text_in of
        Some (JObj data) \<Rightarrow>
          (let command = as_text (map_of data ''command'') in
           if command = Some ''subscribe'' then add_subscription env ops (JObj data) s
           else if command = Some ''unsubscribe'' then remove_command ops (JObj data) s
           else if command = Some ''message'' then perform_action env ops (JObj data) s
           else s)
      | _ \<Rightarrow> s)"

fun handle_close :: "'c channel_ops \<Rightarrow> nat \<Rightarrow> 'k cable_connection \<times> 'c hub \<Rightarrow> 'k cable_connection \<times> 'c hub" where
  "handle_close ops 0 s = s"
| "handle_close ops (Suc n) s =
     (if cc_subscriptions (fst s) = [] then s else handle_close ops n (remove_subscription ops 0 s))"

subsection \<open>Remote disconnects\<close>

definition process_internal_message :: "'k cable_env \<Rightarrow> string \<Rightarrow> close option" where
  "process_internal_message env text_in =
     (case ce_parse env text_in of
        None \<Rightarrow> None
      | Some v \<Rightarrow>
          if json_get ''type'' v = Some (JStr ''disconnect'')
          then Some \<lparr>cs_reason = Some Remote,
                 cs_reconnect = (case json_get ''reconnect'' v of Some r \<Rightarrow> r | None \<Rightarrow> JBool True)\<rparr>
          else None)"

definition process_internal_reconnect :: "'k cable_env \<Rightarrow> string \<Rightarrow> bool option" where
  "process_internal_reconnect env text_in =
     map_option (\<lambda>cl. cs_reconnect cl \<noteq> JBool False) (process_internal_message env text_in)"

text \<open>\<^verbatim>\<open>next_power_of_two\<close>, by doubling from \<open>m\<close>.\<close>

function pow2_from :: "nat \<Rightarrow> nat \<Rightarrow> nat" where
  "pow2_from m n = (if n \<le> m \<or> m = 0 then m else pow2_from (2 * m) n)"
  by pat_completeness auto
termination by (relation "measure (\<lambda>(m, n). n - m)") auto

declare pow2_from.simps [simp del]

definition next_power_of_two :: "nat \<Rightarrow> nat" where
  "next_power_of_two n = pow2_from 1 n"

text \<open>The loop of \<^verbatim>\<open>poll_remote_disconnect\<close> over the internal stream, with the reads left.\<close>

fun poll_internal :: "'k cable_env \<Rightarrow> 'c channel_ops \<Rightarrow> nat \<Rightarrow> stream \<Rightarrow> 'c hub \<Rightarrow> (nat \<times> close) option \<times> 'c hub" where
  "poll_internal env ops 0 st h = (None, h)"
| "poll_internal env ops (Suc n) st h =
     (case recv ops (st_broadcasting st) (st_identifier st) (st_receiver st) h of
        (None, h') \<Rightarrow> (None, h')
      | (Some Lagged, h') \<Rightarrow> poll_internal env ops n st h'
      | (Some (Frame d), h') \<Rightarrow>
          (case process_internal_message env (dl_frame d) of
             Some remote \<Rightarrow> (Some (dl_sequence d, remote), h')
           | None \<Rightarrow> poll_internal env ops n st h'))"

definition poll_remote_disconnect :: "'k cable_env \<Rightarrow> 'c channel_ops \<Rightarrow> nat \<Rightarrow> stream option \<Rightarrow> 'c hub
    \<Rightarrow> (nat \<times> close) option \<times> 'c hub" where
  "poll_remote_disconnect env ops capacity internal h =
     (case internal of
        None \<Rightarrow> (None, h)
      | Some st \<Rightarrow> poll_internal env ops (next_power_of_two capacity + 1) st h)"

text \<open>Draining one stream before the disconnect's sequence, with fuel for the reads.\<close>

fun drain_stream :: "'c channel_ops \<Rightarrow> nat \<Rightarrow> nat \<Rightarrow> stream \<Rightarrow> 'c hub \<Rightarrow> (delivery list \<times> bool \<times> 'c hub) option" where
  "drain_stream ops 0 sequence st h = None"
| "drain_stream ops (Suc n) sequence st h =
     (case recv ops (st_broadcasting st) (st_identifier st) (st_receiver st) h of
        (None, h') \<Rightarrow> Some ([], False, h')
      | (Some Lagged, h') \<Rightarrow> Some ([], True, h')
      | (Some (Frame d), h') \<Rightarrow>
          if dl_sequence d < sequence
          then map_option (\<lambda>(ds, lagged, h''). (d # ds, lagged, h'')) (drain_stream ops n sequence st h')
          else Some ([], False, h'))"

fun drain_before_disconnect :: "'c channel_ops \<Rightarrow> nat \<Rightarrow> nat \<Rightarrow> nat list \<Rightarrow> stream list \<Rightarrow> 'c hub
    \<Rightarrow> (delivery list \<times> bool \<times> 'c hub) option" where
  "drain_before_disconnect ops fuel sequence aborted [] h = Some ([], False, h)"
| "drain_before_disconnect ops fuel sequence aborted (st # sts) h =
     Option.bind (if st_receiver st \<in> set aborted then Some ([], False, h) else drain_stream ops fuel sequence st h)
       (\<lambda>(ds, lagged, h1).
          map_option (\<lambda>(ds', lagged', h2). (ds @ ds', lagged \<or> lagged', h2))
            (drain_before_disconnect ops fuel sequence aborted sts (drop_stream ops st h1)))"

subsection \<open>Writing and one turn\<close>

text \<open>The batches a flush writes, when every write succeeds.\<close>

definition flush :: "nat option \<Rightarrow> nat \<Rightarrow> 'k cable_connection \<Rightarrow> pending_frame list list \<times> 'k cable_connection" where
  "flush cutoff max_batch c =
     (let pending = (case cutoff of
            None \<Rightarrow> cc_pending c
          | Some sequence \<Rightarrow> sort_key pf_sequence
              (filter (\<lambda>p. case pf_sequence p of None \<Rightarrow> True | Some n \<Rightarrow> n < sequence) (cc_pending c)))
      in (chunks (max max_batch 1) pending, c\<lparr>cc_pending := []\<rparr>))"

datatype cable_incoming = TextIn string | BinaryIn | PingIn | PongIn | CloseIn | InvalidIn | EndIn

datatype cable_event =
  InternalEvent received
| IncomingEvent cable_incoming
| DeliveryEvent "nat list"
| HeartbeatEvent string
| RestartEvent

text \<open>Reading the deliveries drops the streams that were aborted.\<close>

definition reap :: "'c channel_ops \<Rightarrow> 'k cable_connection \<times> 'c hub \<Rightarrow> 'k cable_connection \<times> 'c hub" where
  "reap ops = (\<lambda>(c, h).
     (c\<lparr>cc_deliveries := filter (\<lambda>st. st_receiver st \<notin> set (cc_aborted c)) (cc_deliveries c)\<rparr>,
      fold (drop_stream ops) (filter (\<lambda>st. st_receiver st \<in> set (cc_aborted c)) (cc_deliveries c)) h))"

text \<open>The deliveries ready together: \<open>rs\<close> are the receivers \<^verbatim>\<open>SelectAll\<close> reads, one after the other.\<close>

fun deliver :: "'c channel_ops \<Rightarrow> nat \<Rightarrow> nat list \<Rightarrow> 'k cable_connection \<times> 'c hub
    \<Rightarrow> close option \<times> 'k cable_connection \<times> 'c hub" where
  "deliver ops max_batch [] (c, h) = (None, c, h)"
| "deliver ops max_batch (r # rs) (c, h) =
     (case filter (\<lambda>st. st_receiver st = r) (cc_deliveries c) of
        [] \<Rightarrow> (None, c, h)
      | st # _ \<Rightarrow>
          (case recv ops (st_broadcasting st) (st_identifier st) r h of
             (None, h') \<Rightarrow> (None, c, h')
           | (Some Lagged, h') \<Rightarrow> (Some lagged_close, c, h')
           | (Some (Frame d), h') \<Rightarrow>
               (let c' = c\<lparr>cc_pending := cc_pending c @ [delivered_frame d]\<rparr> in
                if length (cc_pending c') < max_batch then deliver ops max_batch rs (c', h') else (None, c', h'))))"

definition handle_event :: "'k cable_env \<Rightarrow> 'c channel_ops \<Rightarrow> nat \<Rightarrow> cable_event \<Rightarrow> 'k cable_connection \<times> 'c hub
    \<Rightarrow> close option \<times> nat option \<times> 'k cable_connection \<times> 'c hub" where
  "handle_event env ops max_batch ev = (\<lambda>(c, h).
     (case ev of
        InternalEvent (Frame d) \<Rightarrow>
          (case process_internal_message env (dl_frame d) of
             Some remote \<Rightarrow> (Some remote, Some (dl_sequence d), c, h)
           | None \<Rightarrow> (None, None, c, h))
      | InternalEvent Lagged \<Rightarrow> (None, None, c, h)
      | IncomingEvent (TextIn t) \<Rightarrow> (case dispatch_command env ops t (c, h) of (c', h') \<Rightarrow> (None, None, c', h'))
      | IncomingEvent _ \<Rightarrow> (None, None, c, h)
      | DeliveryEvent rs \<Rightarrow> (case deliver ops max_batch rs (reap ops (c, h)) of (cl, c', h') \<Rightarrow> (cl, None, c', h'))
      | HeartbeatEvent ping \<Rightarrow> (None, None, c\<lparr>cc_pending := cc_pending c @ [plain_frame ping]\<rparr>, h)
      | RestartEvent \<Rightarrow> (Some \<lparr>cs_reason = Some ServerRestart, cs_reconnect = JBool True\<rparr>, None, c, h)))"

text \<open>Events after which the turn is over: the loop is left, or goes on at once (\<^verbatim>\<open>continue\<close>).\<close>

definition leaves_loop :: "cable_event \<Rightarrow> bool" where
  "leaves_loop ev \<longleftrightarrow> ev \<in> {IncomingEvent CloseIn, IncomingEvent InvalidIn, IncomingEvent EndIn}"

definition skips_turn :: "'k cable_env \<Rightarrow> cable_event \<Rightarrow> bool" where
  "skips_turn env ev \<longleftrightarrow>
     (case ev of InternalEvent Lagged \<Rightarrow> True
      | InternalEvent (Frame d) \<Rightarrow> process_internal_message env (dl_frame d) = None | _ \<Rightarrow> False)"

record cable_turn_result =
  ct_batches :: "pending_frame list list"
  ct_close :: "close option"
  ct_ended :: bool

text \<open>One turn of the loop, its writes succeeding; \<open>None\<close> when the fuel for draining ran out.\<close>

definition cable_turn :: "'k cable_env \<Rightarrow> 'c channel_ops \<Rightarrow> cable_config \<Rightarrow> nat \<Rightarrow> stream option \<Rightarrow> cable_event
    \<Rightarrow> 'k cable_connection \<times> 'c hub \<Rightarrow> (cable_turn_result \<times> 'k cable_connection \<times> 'c hub) option" where
  "cable_turn env ops cfg fuel internal ev = (\<lambda>(c, h).
     if leaves_loop ev then Some (\<lparr>ct_batches = [], ct_close = None, ct_ended = True\<rparr>, c, h)
     else if skips_turn env ev then Some (\<lparr>ct_batches = [], ct_close = None, ct_ended = False\<rparr>, c, h)
     else
       (let (close0, seq0, c1, h1) = handle_event env ops (max_write_batch cfg) ev (c, h);
            c2 = c1\<lparr>cc_deliveries := cc_deliveries c1 @ cc_started c1, cc_started := []\<rparr>;
            (polled, h2) = (if seq0 = None then poll_remote_disconnect env ops (stream_capacity cfg) internal h1
                            else (None, h1));
            seq = (case seq0 of Some n \<Rightarrow> Some n | None \<Rightarrow> map_option fst polled);
            close1 = (case close0 of Some cl \<Rightarrow> Some cl | None \<Rightarrow> map_option snd polled)
        in case seq of
             None \<Rightarrow>
               (let (batches, c3) = flush None (max_write_batch cfg) c2
                in Some (\<lparr>ct_batches = batches, ct_close = close1, ct_ended = (close1 \<noteq> None)\<rparr>, c3, h2))
           | Some n \<Rightarrow>
               map_option (\<lambda>(prior, lagged, h3).
                   (let c3 = c2\<lparr>cc_deliveries := [], cc_pending := cc_pending c2 @ map delivered_frame prior\<rparr>;
                        close2 = (if lagged then Some lagged_close else close1);
                        (batches, c4) = flush (Some n) (max_write_batch cfg) c3
                    in (\<lparr>ct_batches = batches, ct_close = close2, ct_ended = (close2 \<noteq> None)\<rparr>, c4, h3)))
                 (drain_before_disconnect ops fuel n (cc_aborted c2) (cc_deliveries c2) h2)))"

text \<open>Leaving the loop: every subscription is removed, and the streams that are left are dropped.\<close>

definition end_connection :: "'c channel_ops \<Rightarrow> stream option \<Rightarrow> 'k cable_connection \<times> 'c hub \<Rightarrow> 'c hub" where
  "end_connection ops internal s =
     (case handle_close ops (length (cc_subscriptions (fst s))) s of
        (c, h) \<Rightarrow> fold (drop_stream ops) (cc_started c @ cc_deliveries c @ (case internal of None \<Rightarrow> [] | Some st \<Rightarrow> [st])) h)"

subsection \<open>Limits and ownership of streams\<close>

definition streams_bounded :: "subscription \<Rightarrow> bool" where
  "streams_bounded sub \<longleftrightarrow>
     (\<forall>b. length (filter (\<lambda>(name, _). name = b) (sn_streams sub)) \<le> max_receivers_per_stream)"

definition owned_by :: "subscription \<Rightarrow> stream \<Rightarrow> bool" where
  "owned_by sub st \<longleftrightarrow> (st_broadcasting st, st_receiver st) \<in> set (sn_streams sub) \<and> st_identifier st = Some (sn_encoded sub)"

text \<open>What the calls of a callback keep of its subscription.\<close>

definition calls_keep :: "subscription \<times> nat list \<Rightarrow> subscription \<times> nat list \<Rightarrow> bool" where
  "calls_keep = (\<lambda>(sub, ab) (sub', ab').
     sn_identifier sub' = sn_identifier sub \<and> sn_encoded sub' = sn_encoded sub \<and> set ab \<subseteq> set ab' \<and>
     (\<forall>x \<in> set (sn_streams sub). x \<in> set (sn_streams sub') \<or> snd x \<in> set ab') \<and>
     (streams_bounded sub \<longrightarrow> streams_bounded sub') \<and>
     (\<forall>st \<in> set (sn_started sub'). st \<in> set (sn_started sub) \<or> st_receiver st \<in> set ab' \<or> owned_by sub' st))"

lemma calls_keep_refl [simp]: "calls_keep (sub, ab) (sub, ab)"
  by (simp add: calls_keep_def)

lemma calls_keep_trans:
  assumes "calls_keep (s1, a1) (s2, a2)" and "calls_keep (s2, a2) (s3, a3)"
  shows "calls_keep (s1, a1) (s3, a3)"
  unfolding calls_keep_def prod.case
proof (intro conjI ballI impI)
  show "x \<in> set (sn_streams s3) \<or> snd x \<in> set a3" if "x \<in> set (sn_streams s1)" for x
    using assms that unfolding calls_keep_def prod.case by blast
  show "st \<in> set (sn_started s1) \<or> st_receiver st \<in> set a3 \<or> owned_by s3 st" if st: "st \<in> set (sn_started s3)" for st
  proof -
    consider "st_receiver st \<in> set a3" | "owned_by s3 st" | "st \<in> set (sn_started s2)"
      using assms(2) st unfolding calls_keep_def prod.case by blast
    then show ?thesis
    proof cases
      case 3
      then consider "st \<in> set (sn_started s1)" | "st_receiver st \<in> set a2" | "owned_by s2 st"
        using assms(1) unfolding calls_keep_def prod.case by blast
      then show ?thesis
      proof cases
        case 3
        then have "(st_broadcasting st, st_receiver st) \<in> set (sn_streams s3) \<or> st_receiver st \<in> set a3"
          using assms(2) unfolding calls_keep_def prod.case owned_by_def by force
        then show ?thesis using 3 assms(2) by (auto simp: owned_by_def calls_keep_def)
      qed (use assms(2) in \<open>auto simp: calls_keep_def\<close>)
    qed auto
  qed
qed (use assms in \<open>auto simp: calls_keep_def\<close>)

lemma streams_bounded_filter:
  "streams_bounded sub \<Longrightarrow> streams_bounded (sub\<lparr>sn_streams := filter P (sn_streams sub)\<rparr>)"
  unfolding streams_bounded_def
proof
  fix b assume "\<forall>b. length (filter (\<lambda>(name, _). name = b) (sn_streams sub)) \<le> max_receivers_per_stream"
  moreover have "length (filter Q (filter P xs)) \<le> length (filter Q xs)" for Q and xs :: "(string \<times> nat) list"
    by (induction xs) auto
  ultimately show "length (filter (\<lambda>(name, _). name = b) (sn_streams (sub\<lparr>sn_streams := filter P (sn_streams sub)\<rparr>)))
      \<le> max_receivers_per_stream" by (simp del: filter_filter) (meson le_trans)
qed

lemma stream_from_keeps:
  assumes "stream_from ops b (sub, h) = (sub', h')"
  shows "calls_keep (sub, ab) (sub', ab)"
proof (cases "sn_unsubscribed sub \<or>
    max_receivers_per_stream \<le> length (filter (\<lambda>(name, _). name = b) (sn_streams sub))")
  case True
  then have "sub' = sub" using assms by (auto simp: stream_from_def split: if_splits)
  then show ?thesis by simp
next
  case False
  then obtain r where sub': "sub' = sub\<lparr>sn_started := sn_started sub @ [\<lparr>st_broadcasting = b,
      st_identifier = Some (sn_encoded sub), st_receiver = r\<rparr>], sn_streams := sn_streams sub @ [(b, r)]\<rparr>"
    using assms by (auto simp: stream_from_def split: prod.splits)
  have "streams_bounded sub \<Longrightarrow> streams_bounded sub'"
    using False by (auto simp: streams_bounded_def sub')
  then show ?thesis by (auto simp: calls_keep_def sub' owned_by_def)
qed

lemma reject_keeps: "calls_keep (sub, ab) (reject sub, ab)"
  by (simp add: calls_keep_def reject_def streams_bounded_def owned_by_def)

lemma transmit_keeps: "calls_keep (sub, ab) (transmit m sub, ab)"
  by (simp add: calls_keep_def transmit_def streams_bounded_def owned_by_def)

lemma run_call_keeps: "run_call ops call (sub, h, ab) = (sub', h', ab') \<Longrightarrow> calls_keep (sub, ab) (sub', ab')"
proof (induction ops call "(sub, h, ab)" rule: run_call.induct)
  case (5 ops b)
  then show ?case
    by (auto simp: stop_stream_from_def calls_keep_def streams_bounded_filter owned_by_def) force
next
  case (6 ops)
  then show ?case
    by (auto simp: stop_all_streams_def calls_keep_def streams_bounded_def) force
qed (auto simp: reject_keeps transmit_keeps split: prod.splits intro: stream_from_keeps)

lemma run_calls_keep: "run_calls ops calls (sub, h, ab) = (sub', h', ab') \<Longrightarrow> calls_keep (sub, ab) (sub', ab')"
  unfolding run_calls_def
proof (induction calls arbitrary: sub h ab)
  case (Cons call calls)
  obtain s1 h1 a1 where c: "run_call ops call (sub, h, ab) = (s1, h1, a1)" by (metis surj_pair)
  then have "fold (run_call ops) calls (s1, h1, a1) = (sub', h', ab')" using Cons.prems by simp
  from calls_keep_trans[OF run_call_keeps[OF c] Cons.IH[OF this]] show ?case .
qed simp

definition entry_ok :: "'k cable_env \<Rightarrow> 'k cable_entry \<Rightarrow> bool" where
  "entry_ok env e \<longleftrightarrow> length (sn_identifier (ce_sub e)) \<le> max_identifier_bytes \<and>
     sn_encoded (ce_sub e) = encode env (JStr (sn_identifier (ce_sub e))) \<and>
     streams_bounded (ce_sub e) \<and> sn_started (ce_sub e) = []"

definition stream_owned :: "'k cable_connection \<Rightarrow> stream \<Rightarrow> bool" where
  "stream_owned c st \<longleftrightarrow> st_receiver st \<in> set (cc_aborted c) \<or> (\<exists>e \<in> set (cc_subscriptions c). owned_by (ce_sub e) st)"

definition conn_ok :: "'k cable_env \<Rightarrow> 'k cable_connection \<Rightarrow> bool" where
  "conn_ok env c \<longleftrightarrow> length (cc_subscriptions c) \<le> max_subscriptions \<and>
     distinct (map (\<lambda>e. sn_identifier (ce_sub e)) (cc_subscriptions c)) \<and>
     list_all (entry_ok env) (cc_subscriptions c) \<and> list_all (stream_owned c) (cc_started c @ cc_deliveries c)"

lemma conn_okI:
  assumes "length (cc_subscriptions c) \<le> max_subscriptions"
    and "distinct (map (\<lambda>e. sn_identifier (ce_sub e)) (cc_subscriptions c))"
    and "\<And>e. e \<in> set (cc_subscriptions c) \<Longrightarrow> entry_ok env e"
    and "\<And>st. st \<in> set (cc_started c) \<union> set (cc_deliveries c) \<Longrightarrow> stream_owned c st"
  shows "conn_ok env c"
  using assms by (auto simp: conn_ok_def list_all_iff)

lemma conn_okD:
  assumes "conn_ok env c"
  shows "length (cc_subscriptions c) \<le> max_subscriptions"
    and "distinct (map (\<lambda>e. sn_identifier (ce_sub e)) (cc_subscriptions c))"
    and "e \<in> set (cc_subscriptions c) \<Longrightarrow> entry_ok env e"
    and "st \<in> set (cc_started c) \<union> set (cc_deliveries c) \<Longrightarrow> stream_owned c st"
  using assms by (auto simp: conn_ok_def list_all_iff)

lemma calls_keep_owned:
  "calls_keep (sub, ab) (sub', ab') \<Longrightarrow> owned_by sub st \<Longrightarrow> owned_by sub' st \<or> st_receiver st \<in> set ab'"
  by (force simp: calls_keep_def owned_by_def)

lemma conn_ok_called:
  assumes ok: "conn_ok env c" and i: "i < length (cc_subscriptions c)" and e: "e = cc_subscriptions c ! i"
    and run: "run_calls ops calls (ce_sub e, h, []) = (sub, h1, ab)"
  shows "conn_ok env (collect (sub, h1, ab)
    (c\<lparr>cc_subscriptions := (cc_subscriptions c)[i := e\<lparr>ce_channel := k, ce_sub := drained sub\<rparr>]\<rparr>))" (is "conn_ok env ?c")
proof -
  let ?e = "e\<lparr>ce_channel := k, ce_sub := drained sub\<rparr>"
  have keep: "calls_keep (ce_sub e, []) (sub, ab)" by (rule run_calls_keep[OF run])
  have e_ok: "entry_ok env e" using conn_okD(3)[OF ok] i e by simp
  have same: "sn_identifier sub = sn_identifier (ce_sub e)" "sn_encoded sub = sn_encoded (ce_sub e)"
    "streams_bounded sub" using keep e_ok by (auto simp: calls_keep_def entry_ok_def)
  have mem: "?e \<in> set (cc_subscriptions ?c)" using i by (auto simp: collect_def set_update_memI)
  have owned: "owned_by (ce_sub ?e) st = owned_by sub st" for st by (simp add: owned_by_def)
  show ?thesis
  proof (rule conn_okI)
    show "length (cc_subscriptions ?c) \<le> max_subscriptions" using conn_okD(1)[OF ok] by (simp add: collect_def)
    have "map (\<lambda>e. sn_identifier (ce_sub e)) (cc_subscriptions ?c) = map (\<lambda>e. sn_identifier (ce_sub e)) (cc_subscriptions c)"
      using i by (simp add: collect_def map_update same(1) e list_update_same_conv)
    then show "distinct (map (\<lambda>e. sn_identifier (ce_sub e)) (cc_subscriptions ?c))" using conn_okD(2)[OF ok] by simp
    have "entry_ok env ?e" using e_ok same by (simp add: entry_ok_def streams_bounded_def)
    then show "entry_ok env x" if "x \<in> set (cc_subscriptions ?c)" for x
      using that conn_okD(3)[OF ok] set_update_subset_insert[of "cc_subscriptions c" i ?e] by (auto simp: collect_def)
    fix st assume "st \<in> set (cc_started ?c) \<union> set (cc_deliveries ?c)"
    then consider "st \<in> set (sn_started sub)" | "st \<in> set (cc_started c) \<union> set (cc_deliveries c)"
      by (auto simp: collect_def)
    then have "st_receiver st \<in> set (cc_aborted c @ ab) \<or> (\<exists>x \<in> set (cc_subscriptions ?c). owned_by (ce_sub x) st)"
    proof cases
      case 1
      then have "st_receiver st \<in> set ab \<or> owned_by sub st"
        using keep e_ok by (auto simp: calls_keep_def entry_ok_def)
      then show ?thesis using mem owned by fastforce
    next
      case 2
      from conn_okD(4)[OF ok this] consider "st_receiver st \<in> set (cc_aborted c)"
        | j where "j < length (cc_subscriptions c)" "owned_by (ce_sub (cc_subscriptions c ! j)) st"
        unfolding stream_owned_def by (auto simp: in_set_conv_nth)
      then show ?thesis
      proof cases
        case (2 j)
        show ?thesis
        proof (cases "j = i")
          case True
          then show ?thesis using calls_keep_owned[OF keep] 2(2) e mem owned by fastforce
        next
          case False
          then have "cc_subscriptions c ! j \<in> set (cc_subscriptions ?c)"
            using 2(1) by (auto simp: collect_def in_set_conv_nth intro!: exI[of _ j])
          then show ?thesis using 2(2) by blast
        qed
      qed simp
    qed
    then show "stream_owned ?c st" by (simp add: stream_owned_def collect_def)
  qed
qed

lemma stop_all_streams_result:
  "stop_all_streams ops (sub, h) = (sub', h', ab) \<Longrightarrow> sn_started sub' = [] \<and> (\<forall>x \<in> set (sn_streams sub). snd x \<in> set ab)"
  by (force simp: stop_all_streams_def)

lemma remove_subscription_ok:
  assumes ok: "conn_ok env c" and i: "i < length (cc_subscriptions c)"
  shows "conn_ok env (fst (remove_subscription ops i (c, h)))"
proof -
  let ?e = "cc_subscriptions c ! i" and ?c = "fst (remove_subscription ops i (c, h))"
  let ?subs = "take i (cc_subscriptions c) @ drop (Suc i) (cc_subscriptions c)"
  let ?sub = "(ce_sub ?e)\<lparr>sn_unsubscribed := True\<rparr>"
  obtain calls u v where calls: "cl_unsubscribed (ce_class ?e) (ce_channel ?e) ?sub = (calls, u, v)" by (metis surj_pair)
  obtain sub1 h1 ab1 where run: "run_calls ops calls (?sub, h, []) = (sub1, h1, ab1)" by (metis surj_pair)
  obtain sub2 h2 ab2 where stop: "stop_all_streams ops (sub1, h1) = (sub2, h2, ab2)" by (metis surj_pair)
  have c: "?c = collect (sub2, h2, ab1 @ ab2) (c\<lparr>cc_subscriptions := ?subs\<rparr>)"
    by (simp add: remove_subscription_def Let_def calls run stop)
  have sub2: "sn_started sub2 = []" using stop_all_streams_result[OF stop] by simp
  have split: "cc_subscriptions c = take i (cc_subscriptions c) @ ?e # drop (Suc i) (cc_subscriptions c)"
    using i by (rule id_take_nth_drop)
  have gone: "st_receiver st \<in> set (ab1 @ ab2)" if "owned_by (ce_sub ?e) st" for st
  proof -
    have "owned_by ?sub st" using that by (simp add: owned_by_def)
    then have "owned_by sub1 st \<or> st_receiver st \<in> set ab1" using calls_keep_owned[OF run_calls_keep[OF run]] by blast
    then show ?thesis using stop_all_streams_result[OF stop] by (force simp: owned_by_def)
  qed
  show ?thesis
  proof (rule conn_okI)
    show "length (cc_subscriptions ?c) \<le> max_subscriptions" using conn_okD(1)[OF ok] i by (simp add: c collect_def)
    have "distinct (map (\<lambda>e. sn_identifier (ce_sub e)) (take i (cc_subscriptions c) @ ?e # drop (Suc i) (cc_subscriptions c)))"
      using conn_okD(2)[OF ok] split by metis
    then show "distinct (map (\<lambda>e. sn_identifier (ce_sub e)) (cc_subscriptions ?c))" by (simp add: c collect_def)
    show "entry_ok env x" if "x \<in> set (cc_subscriptions ?c)" for x
      using that conn_okD(3)[OF ok, of x] by (auto simp: c collect_def dest: in_set_takeD in_set_dropD)
    fix st assume "st \<in> set (cc_started ?c) \<union> set (cc_deliveries ?c)"
    then have "stream_owned c st" using conn_okD(4)[OF ok] sub2 by (simp add: c collect_def)
    moreover have "x = ?e \<or> x \<in> set ?subs" if "x \<in> set (cc_subscriptions c)" for x
      using that by (subst (asm) split) auto
    ultimately show "stream_owned ?c st"
      using gone by (auto simp: stream_owned_def c collect_def)
  qed
qed

lemma conn_ok_pending [simp]: "conn_ok env (c\<lparr>cc_pending := p\<rparr>) = conn_ok env c"
  by (simp add: conn_ok_def stream_owned_def list_all_iff)

lemma conn_ok_streams:
  assumes "conn_ok env c" and "cc_subscriptions c' = cc_subscriptions c" and "cc_aborted c' = cc_aborted c"
    and "set (cc_started c') \<union> set (cc_deliveries c') \<subseteq> set (cc_started c) \<union> set (cc_deliveries c)"
  shows "conn_ok env c'"
  using assms conn_okD[OF assms(1)] by (intro conn_okI) (auto simp: stream_owned_def)

lemma position_Some:
  "position identifier es = Some i \<Longrightarrow> i < length es \<and> sn_identifier (ce_sub (es ! i)) = identifier"
  by (induction es arbitrary: i) (auto split: if_splits)

lemma position_None: "position identifier es = None \<longleftrightarrow> identifier \<notin> (\<lambda>e. sn_identifier (ce_sub e)) ` set es"
  by (induction es) auto

lemma subscribe_to_channel_ok:
  assumes ok: "conn_ok env c"
  shows "conn_ok env (fst (subscribe_to_channel env ops identifier (c, h)))"
proof (cases "position identifier (cc_subscriptions c)")
  case None
  then show ?thesis using ok by (simp add: subscribe_to_channel_def)
next
  case (Some i)
  let ?e = "cc_subscriptions c ! i"
  have i: "i < length (cc_subscriptions c)" using position_Some[OF Some] by simp
  obtain calls fine k where sub: "cl_subscribed (ce_class ?e) (ce_channel ?e) (ce_sub ?e) = (calls, fine, k)"
    by (metis surj_pair)
  obtain sub h1 ab where run: "run_calls ops calls (ce_sub ?e, h, []) = (sub, h1, ab)" by (metis surj_pair)
  let ?c1 = "collect (sub, h1, ab)
    (c\<lparr>cc_subscriptions := (cc_subscriptions c)[i := ?e\<lparr>ce_channel := k, ce_sub := drained sub\<rparr>]\<rparr>)"
  have c1: "conn_ok env ?c1" by (rule conn_ok_called[OF ok i refl run])
  have "i < length (cc_subscriptions ?c1)" using i by (simp add: collect_def)
  from remove_subscription_ok[OF c1 this, of ops h1] show ?thesis
    using c1 by (auto simp: subscribe_to_channel_def Some sub run Let_def split: prod.splits)
qed

lemma add_subscription_ok:
  assumes ok: "conn_ok env c"
  shows "conn_ok env (fst (add_subscription env ops data (c, h)))"
proof -
  have "conn_ok env (c\<lparr>cc_subscriptions := cc_subscriptions c @
      [\<lparr>ce_class = cls, ce_channel = k, ce_sub = new_subscription env class_name ident\<rparr>]\<rparr>)"
    if "position ident (cc_subscriptions c) = None"
      "length (cc_subscriptions c) < max_subscriptions" "length ident \<le> max_identifier_bytes"
    for ident cls k class_name
    using that conn_okD[OF ok]
    by (intro conn_okI) (auto simp: position_None entry_ok_def new_subscription_def streams_bounded_def stream_owned_def)
  from subscribe_to_channel_ok[OF this] show ?thesis
    using ok
    by (auto simp: add_subscription_def Let_def not_le not_less split: option.splits json.splits)
qed

lemma find_subscription_index: "find_subscription data c = Some i \<Longrightarrow> i < length (cc_subscriptions c)"
  using position_Some by (fastforce simp: find_subscription_def bind_eq_Some_conv)

lemma perform_action_ok:
  assumes ok: "conn_ok env c"
  shows "conn_ok env (fst (perform_action env ops data (c, h)))"
proof -
  have "conn_ok env (fst (let (calls, _, k) = cl_perform (ce_class e) action payload (ce_channel e) (ce_sub e);
        (sub, h1, ab) = run_calls ops calls (ce_sub e, h, [])
      in (collect (sub, h1, ab) (c\<lparr>cc_subscriptions :=
           (cc_subscriptions c)[i := e\<lparr>ce_channel := k, ce_sub := drained sub\<rparr>]\<rparr>), h1)))"
    if "find_subscription data c = Some i" "e = cc_subscriptions c ! i" for i e action payload
    using conn_ok_called[OF ok find_subscription_index[OF that(1)] that(2)] by (auto simp: Let_def split: prod.splits)
  then show ?thesis
    using ok
    by (auto simp: perform_action_def Let_def split: option.splits json.splits)
qed

lemma dispatch_command_ok:
  assumes "conn_ok env c"
  shows "conn_ok env (fst (dispatch_command env ops text_in (c, h)))"
  using assms add_subscription_ok perform_action_ok remove_subscription_ok[OF assms find_subscription_index]
  by (auto simp: dispatch_command_def remove_command_def Let_def split: option.splits json.splits)

lemma deliver_ok:
  "deliver ops n rs (c, h) = (cl, c', h') \<Longrightarrow> conn_ok env c \<Longrightarrow> conn_ok env c'"
proof (induction rs arbitrary: c h)
  case (Cons r rs)
  then show ?case
    by (auto simp: Let_def split: list.splits prod.splits option.splits received.splits if_splits)
qed simp

lemma handle_event_ok:
  assumes "conn_ok env c" and "handle_event env ops n ev (c, h) = (cl, seq, c', h')"
  shows "conn_ok env c'"
proof (cases ev)
  case (DeliveryEvent rs)
  have "conn_ok env (fst (reap ops (c, h)))"
    by (rule conn_ok_streams[OF assms(1)]) (auto simp: reap_def)
  then show ?thesis
    using assms(2) DeliveryEvent deliver_ok[of ops n rs "fst (reap ops (c, h))" "snd (reap ops (c, h))"]
    by (auto simp: handle_event_def split: prod.splits)
next
  case (IncomingEvent x)
  show ?thesis
  proof (cases "\<exists>t. x = TextIn t")
    case True
    then obtain t where "x = TextIn t" by blast
    then have "c' = fst (dispatch_command env ops t (c, h))"
      using assms(2) IncomingEvent by (auto simp: handle_event_def split: prod.splits)
    then show ?thesis using dispatch_command_ok[OF assms(1)] by simp
  next
    case False
    then show ?thesis using assms IncomingEvent by (cases x) (auto simp: handle_event_def)
  qed
qed (use assms in \<open>auto simp: handle_event_def split: option.splits received.splits\<close>)

lemma cable_turn_ok:
  assumes turn: "cable_turn env ops cfg fuel internal ev (c, h) = Some (t, c', h')" and ok: "conn_ok env c"
  shows "conn_ok env c'"
proof (cases "leaves_loop ev \<or> skips_turn env ev")
  case True
  then show ?thesis using turn ok by (auto simp: cable_turn_def split: if_splits)
next
  case False
  obtain cl seq c1 h1 where ev: "handle_event env ops (max_write_batch cfg) ev (c, h) = (cl, seq, c1, h1)"
    by (metis surj_pair)
  let ?c2 = "c1\<lparr>cc_deliveries := cc_deliveries c1 @ cc_started c1, cc_started := []\<rparr>"
  have c2: "conn_ok env ?c2"
    by (rule conn_ok_streams[OF handle_event_ok[OF ok ev]]) auto
  have c3: "conn_ok env (?c2\<lparr>cc_deliveries := [], cc_pending := p\<rparr>)" for p
    by (rule conn_ok_streams[OF c2]) auto
  have flushed: "conn_ok env (snd (flush x y ?c2))" "conn_ok env (snd (flush x y (?c2\<lparr>cc_deliveries := [], cc_pending := p\<rparr>)))"
    for x y p using c2 c3 by (auto simp: flush_def Let_def)
  obtain polled h2 where poll: "(if seq = None then poll_remote_disconnect env ops (stream_capacity cfg) internal h1
      else (None, h1)) = (polled, h2)" by fastforce
  show ?thesis
  proof (cases "case seq of Some n \<Rightarrow> Some n | None \<Rightarrow> map_option fst polled")
    case None
    then show ?thesis
      using turn False flushed(1)[of None "max_write_batch cfg"]
      by (auto simp: cable_turn_def ev poll Let_def split: prod.splits)
  next
    case (Some n)
    then show ?thesis
      using turn False flushed(2)[of "Some n" "max_write_batch cfg"]
      by (auto simp: cable_turn_def ev poll Let_def flush_def split: prod.splits)
  qed
qed

subsection \<open>Reading one stream leaves the others alone\<close>

text \<open>The frames a stream has still to read in the hub.\<close>

definition unread_in :: "'c channel_ops \<Rightarrow> 'c hub \<Rightarrow> stream \<Rightarrow> delivery list \<Rightarrow> bool" where
  "unread_in ops h st ds \<longleftrightarrow> (\<exists>g \<in> set (hb_streams h (st_broadcasting st)).
     gr_identifier g = st_identifier st \<and> ch_unread ops (gr_sender g) (st_receiver st) = Some ds)"

text \<open>A change of one group's channel that only concerns one receiver.\<close>

lemma with_group_unread:
  assumes "\<And>c s. s \<noteq> r \<Longrightarrow> c = gr_sender g \<Longrightarrow> ch_unread ops (f c) s = ch_unread ops c s"
    and ok: "hub_ok ops cap (h, sent, subs)" and g: "g \<in> set (hb_streams h b)" "gr_identifier g = i"
    and other: "unread_in ops h st' es" "st_receiver st' \<noteq> r"
  shows "unread_in ops (with_group b i f h) st' es"
proof -
  obtain g' where g': "g' \<in> set (hb_streams h (st_broadcasting st'))" "gr_identifier g' = st_identifier st'"
    "ch_unread ops (gr_sender g') (st_receiver st') = Some es" using other(1) by (auto simp: unread_in_def)
  show ?thesis
  proof (cases "st_broadcasting st' = b \<and> st_identifier st' = i")
    case True
    then have "g' = g" using hub_okD(2)[OF ok, of b] g g' by (simp add: distinct_map inj_on_def)
    then have "ch_unread ops (f (gr_sender g')) (st_receiver st') = Some es" using assms(1) other(2) g' by simp
    then show ?thesis
      using True g' by (auto simp: unread_in_def with_group_def intro!: bexI[of _ "g'\<lparr>gr_sender := f (gr_sender g')\<rparr>"])
  next
    case False
    then show ?thesis using g' by (auto simp: unread_in_def with_group_def intro!: bexI[of _ g'])
  qed
qed

lemma unread_in_owner:
  assumes ok: "hub_ok ops cap (h, sent, subs)" and "unread_in ops h st ds"
  obtains sb where "subs (st_receiver st) = Some sb" "sb_broadcasting sb = st_broadcasting st"
    "sb_identifier sb = st_identifier st"
  using assms group_ok_owner[OF hub_okD(3)[OF ok], of _ "st_broadcasting st" "st_receiver st"]
  by (fastforce simp: unread_in_def)

abbreviation recv_stream :: "'c channel_ops \<Rightarrow> stream \<Rightarrow> 'c hub \<Rightarrow> received option \<times> 'c hub" where
  "recv_stream ops st h \<equiv> recv ops (st_broadcasting st) (st_identifier st) (st_receiver st) h"

lemma recv_stream_next:
  assumes laws: "channel_laws ops" and ok: "hub_ok ops cap (h, sent, subs)" and u: "unread_in ops h st ds"
    and len: "length ds \<le> cap"
  obtains h' subs' where "recv_stream ops st h = (case ds of [] \<Rightarrow> None | d # _ \<Rightarrow> Some (Frame d), h')"
    and "hub_ok ops cap (h', sent, subs')" and "unread_in ops h' st (tl ds)"
    and "\<And>st' es. st_receiver st' \<noteq> st_receiver st \<Longrightarrow> unread_in ops h st' es \<Longrightarrow> unread_in ops h' st' es"
proof -
  let ?b = "st_broadcasting st" and ?i = "st_identifier st" and ?r = "st_receiver st"
  obtain g where g: "g \<in> set (hb_streams h ?b)" "gr_identifier g = ?i" "ch_unread ops (gr_sender g) ?r = Some ds"
    using u by (auto simp: unread_in_def)
  obtain sb where sb: "subs ?r = Some sb" "sb_broadcasting sb = ?b" "sb_identifier sb = ?i"
    using unread_in_owner[OF ok u] by blast
  let ?f = "\<lambda>c. snd (ch_recv ops ?r c)"
  let ?h = "with_group ?b ?i ?f h"
  have recv: "recv_stream ops st h = (fst (ch_recv ops ?r (gr_sender g)), ?h)" by (rule recv_first[OF ok g(1,2)])
  have law: "recv_law ops ?r (gr_sender g) ds" using channel_lawsD(4)[OF laws g(3)] by simp
  have "length ds \<le> ch_capacity ops (gr_sender g)" using hub_okD(3)[OF ok g(1)] len by (simp add: group_ok_def)
  then have nxt: "fst (ch_recv ops ?r (gr_sender g)) = (case ds of [] \<Rightarrow> None | d # _ \<Rightarrow> Some (Frame d))"
    and un: "ch_unread ops (?f (gr_sender g)) = (ch_unread ops (gr_sender g))(?r \<mapsto> tl ds)"
    using law g(3) by (cases ds; cases "ch_recv ops ?r (gr_sender g)";
      auto simp: recv_law_def fun_upd_idem split: option.splits received.splits)+
  have "hub_ok ops cap (?h, sent, subs(?r \<mapsto> note_received (fst (ch_recv ops ?r (gr_sender g))) sb))"
    using recv_ok[OF laws ok sb(1), of "fst (ch_recv ops ?r (gr_sender g))" ?h] recv sb by simp
  moreover have "unread_in ops ?h st (tl ds)"
    using g un by (auto simp: unread_in_def with_group_def intro!: bexI[of _ "g\<lparr>gr_sender := ?f (gr_sender g)\<rparr>"])
  moreover have "unread_in ops ?h st' es" if "st_receiver st' \<noteq> ?r" "unread_in ops h st' es" for st' es
    by (rule with_group_unread[OF _ ok g(1,2) that(2,1)]) (simp add: un)
  ultimately show thesis using that recv nxt by metis
qed

lemma drop_stream_keeps:
  assumes laws: "channel_laws ops" and ok: "hub_ok ops cap (h, sent, subs)" and u: "unread_in ops h st ds"
  obtains subs' where "hub_ok ops cap (drop_stream ops st h, sent, subs')"
    and "\<And>st' es. st_receiver st' \<noteq> st_receiver st \<Longrightarrow> unread_in ops h st' es \<Longrightarrow> unread_in ops (drop_stream ops st h) st' es"
proof -
  let ?b = "st_broadcasting st" and ?i = "st_identifier st" and ?r = "st_receiver st"
  obtain sb where sb: "subs ?r = Some sb" "sb_broadcasting sb = ?b" "sb_identifier sb = ?i"
    using unread_in_owner[OF ok u] by blast
  obtain g where g: "g \<in> set (hb_streams h ?b)" "gr_identifier g = ?i" using u by (auto simp: unread_in_def)
  have "hub_ok ops cap (drop_stream ops st h, sent, subs(?r := None))"
    using drop_subscriber_ok[OF laws ok sb(1)] sb by (simp add: drop_stream_def)
  moreover have "unread_in ops (drop_stream ops st h) st' es"
    if "st_receiver st' \<noteq> ?r" "unread_in ops h st' es" for st' es
  proof -
    let ?h = "with_group ?b ?i (ch_drop ops ?r) h"
    have "unread_in ops ?h st' es"
      by (rule with_group_unread[OF _ ok g that(2,1)]) (simp add: channel_lawsD(5)[OF laws])
    then obtain g' where g': "g' \<in> set (hb_streams ?h (st_broadcasting st'))" "gr_identifier g' = st_identifier st'"
      "ch_unread ops (gr_sender g') (st_receiver st') = Some es" by (auto simp: unread_in_def)
    have "finite (dom (ch_unread ops (gr_sender g')))"
      using g'(1) hub_okD(3)[OF ok] channel_lawsD(5)[OF laws]
      by (auto simp: with_group_def group_ok_def split: if_splits)
    then have "0 < ch_count ops (gr_sender g')"
      using g'(3) by (auto simp: channel_lawsD(7)[OF laws] card_gt_0_iff)
    then show ?thesis
      using g' by (auto simp: unread_in_def drop_stream_def drop_subscriber_def release_hub_def)
  qed
  ultimately show thesis using that by blast
qed

subsection \<open>Draining and polling\<close>

lemma drain_stream_exact:
  assumes laws: "channel_laws ops"
  shows "hub_ok ops cap (h, sent, subs) \<Longrightarrow> unread_in ops h st ds \<Longrightarrow> length ds \<le> cap \<Longrightarrow> length ds < fuel \<Longrightarrow>
    sorted_wrt (<) (map dl_sequence ds) \<Longrightarrow>
    \<exists>h' subs' es. drain_stream ops fuel n st h = Some (filter (\<lambda>d. dl_sequence d < n) ds, False, h') \<and>
      hub_ok ops cap (h', sent, subs') \<and> unread_in ops h' st es \<and>
      (\<forall>st' es'. st_receiver st' \<noteq> st_receiver st \<longrightarrow> unread_in ops h st' es' \<longrightarrow> unread_in ops h' st' es')"
proof (induction fuel arbitrary: h subs ds)
  case (Suc fuel)
  obtain h' subs' where nxt: "recv_stream ops st h = (case ds of [] \<Rightarrow> None | d # _ \<Rightarrow> Some (Frame d), h')"
    "hub_ok ops cap (h', sent, subs')" "unread_in ops h' st (tl ds)"
    "\<And>st' es. st_receiver st' \<noteq> st_receiver st \<Longrightarrow> unread_in ops h st' es \<Longrightarrow> unread_in ops h' st' es"
    using recv_stream_next[OF laws Suc.prems(1-3)] by metis
  show ?case
  proof (cases ds)
    case Nil
    then show ?thesis using nxt by auto
  next
    case (Cons d ds')
    show ?thesis
    proof (cases "dl_sequence d < n")
      case True
      then show ?thesis
        using Suc.IH[OF nxt(2,3)] Suc.prems Cons nxt(1,4) by fastforce
    next
      case False
      then have "filter (\<lambda>d. dl_sequence d < n) ds = []"
        using Suc.prems(5) Cons by (fastforce simp: filter_empty_conv)
      then show ?thesis using False Cons nxt by auto
    qed
  qed
qed simp

lemma drain_exact:
  assumes laws: "channel_laws ops"
  shows "hub_ok ops cap (h, sent, subs) \<Longrightarrow> distinct (map st_receiver sts) \<Longrightarrow>
    (\<And>st. st \<in> set sts \<Longrightarrow> unread_in ops h st (u st) \<and> length (u st) \<le> cap \<and> sorted_wrt (<) (map dl_sequence (u st))) \<Longrightarrow>
    cap < fuel \<Longrightarrow>
    \<exists>h'. drain_before_disconnect ops fuel n aborted sts h = Some (concat (map (\<lambda>st.
      if st_receiver st \<in> set aborted then [] else filter (\<lambda>d. dl_sequence d < n) (u st)) sts), False, h')"
proof (induction sts arbitrary: h subs)
  case (Cons st sts)
  let ?ds = "if st_receiver st \<in> set aborted then [] else filter (\<lambda>d. dl_sequence d < n) (u st)"
  have st: "unread_in ops h st (u st)" "length (u st) \<le> cap" "sorted_wrt (<) (map dl_sequence (u st))"
    using Cons.prems(3) by auto
  obtain h1 subs1 es where h1: "(if st_receiver st \<in> set aborted then Some ([], False, h) else drain_stream ops fuel n st h) =
      Some (?ds, False, h1)" "hub_ok ops cap (h1, sent, subs1)" "unread_in ops h1 st es"
    "\<And>st' es'. st_receiver st' \<noteq> st_receiver st \<Longrightarrow> unread_in ops h st' es' \<Longrightarrow> unread_in ops h1 st' es'"
  proof (cases "st_receiver st \<in> set aborted")
    case True
    then show ?thesis using that[of h subs "u st"] Cons.prems(1) st(1) by simp
  next
    case False
    then show ?thesis
      using that drain_stream_exact[OF laws Cons.prems(1) st(1,2) _ st(3), of fuel n] st(2) Cons.prems(4) by auto
  qed
  obtain subs2 where h2: "hub_ok ops cap (drop_stream ops st h1, sent, subs2)"
    "\<And>st' es'. st_receiver st' \<noteq> st_receiver st \<Longrightarrow> unread_in ops h1 st' es' \<Longrightarrow> unread_in ops (drop_stream ops st h1) st' es'"
    using drop_stream_keeps[OF laws h1(2,3)] by metis
  have rest: "unread_in ops (drop_stream ops st h1) st' (u st') \<and> length (u st') \<le> cap \<and>
      sorted_wrt (<) (map dl_sequence (u st'))" if "st' \<in> set sts" for st'
  proof -
    have "st_receiver st' \<noteq> st_receiver st" using that Cons.prems(2) by (auto simp: image_iff)
    then show ?thesis using Cons.prems(3)[of st'] that h1(4) h2(2) by simp
  qed
  show ?case using Cons.IH[OF h2(1) _ rest Cons.prems(4)] Cons.prems(2) h1(1) by auto
qed simp

lemma poll_internal_finds:
  assumes laws: "channel_laws ops"
  shows "hub_ok ops cap (h, sent, subs) \<Longrightarrow> unread_in ops h st ds \<Longrightarrow> length ds \<le> cap \<Longrightarrow> length ds < n \<Longrightarrow>
    fst (poll_internal env ops n st h) =
      (case filter (\<lambda>d. process_internal_message env (dl_frame d) \<noteq> None) ds of
         [] \<Rightarrow> None | d # _ \<Rightarrow> Some (dl_sequence d, the (process_internal_message env (dl_frame d))))"
proof (induction n arbitrary: h subs ds)
  case (Suc n)
  obtain h' subs' where nxt: "recv_stream ops st h = (case ds of [] \<Rightarrow> None | d # _ \<Rightarrow> Some (Frame d), h')"
    "hub_ok ops cap (h', sent, subs')" "unread_in ops h' st (tl ds)"
    using recv_stream_next[OF laws Suc.prems(1-3)] by metis
  show ?case
  proof (cases ds)
    case Nil then show ?thesis using nxt(1) by simp
  next
    case (Cons d ds')
    then show ?thesis using Suc.IH[OF nxt(2,3)] Suc.prems nxt(1) by (auto split: option.splits)
  qed
qed simp

lemma pow2_from_ge: "0 < m \<Longrightarrow> n \<le> pow2_from m n"
  by (induction m n rule: pow2_from.induct) (subst pow2_from.simps, auto)

lemma reachable_unread:
  assumes laws: "channel_laws ops" and cap: "0 < cap"
    and run: "(hub_step ops)\<^sup>*\<^sup>* (hub_new cap, [], Map.empty) (h, sent, subs)"
    and sub: "subs (st_receiver st) = Some sb" "sb_broadcasting sb = st_broadcasting st"
      "sb_identifier sb = st_identifier st" "\<not> sb_lagged sb"
  shows "unread_in ops h st (drop (length (sb_got sb)) (expected sb sent)) \<and>
    sorted_wrt (<) (map dl_sequence (drop (length (sb_got sb)) (expected sb sent)))"
proof -
  have ok: "hub_ok ops cap (h, sent, subs)" by (rule hub_reachable_ok[OF laws cap run])
  have seq: "hub_sequenced ops h" using hub_reachable_sequenced[OF laws cap run] by simp
  obtain g ds where g: "g \<in> set (hb_streams h (st_broadcasting st))" "gr_identifier g = st_identifier st"
    "ch_unread ops (gr_sender g) (st_receiver st) = Some ds" using hub_okD(5)[OF ok sub(1)] sub(2,3) by auto
  have "receiver_ok sent subs (st_broadcasting st) (gr_identifier g) (st_receiver st) ds"
    using hub_okD(3)[OF ok g(1)] g(3) by (simp add: group_ok_def)
  then have "expected sb sent = sb_got sb @ ds" using sub by (auto simp: receiver_ok_def)
  then have ds: "drop (length (sb_got sb)) (expected sb sent) = ds" by simp
  have "sorted_wrt (<) (map dl_sequence ds)" using seq g by (auto simp: hub_sequenced_def group_sequenced_def)
  then show ?thesis using g by (auto simp: ds unread_in_def)
qed

subsection \<open>Properties of the connection\<close>

inductive cable_step :: "'k cable_env \<Rightarrow> 'c channel_ops \<Rightarrow> cable_config \<Rightarrow> 'k cable_connection \<Rightarrow> 'k cable_connection \<Rightarrow> bool"
  for env ops cfg where
  "cable_turn env ops cfg fuel internal ev (c, h) = Some (t, c', h') \<Longrightarrow> cable_step env ops cfg c c'"

interpretation cable_runs: invariant_system "cable_step env ops cfg" "conn_ok env" for env ops cfg
  by unfold_locales (auto elim!: cable_step.cases intro: cable_turn_ok)

text \<open>C17. One socket stays within its limits, whatever the client sends, the channels do and the hub
  delivers: at most 64 subscriptions with distinct identifiers of at most 4096 bytes, each with at
  most two receivers of a broadcasting; and every stream the socket still reads is one of a current
  subscription and wrapped for its identifier, unless it has been aborted.\<close>

theorem cable_connection_bounded:
  assumes "(cable_step env ops cfg)\<^sup>*\<^sup>* cable_connection_new c"
  shows "length (cc_subscriptions c) \<le> 64 \<and>
    distinct (map (\<lambda>e. sn_identifier (ce_sub e)) (cc_subscriptions c)) \<and>
    list_all (\<lambda>e. length (sn_identifier (ce_sub e)) \<le> 4096) (cc_subscriptions c) \<and>
    list_all (\<lambda>e. length (filter (\<lambda>(name, _). name = b) (sn_streams (ce_sub e))) \<le> 2) (cc_subscriptions c) \<and>
    list_all (\<lambda>st. st_receiver st \<in> set (cc_aborted c) \<or>
        list_ex (\<lambda>e. (st_broadcasting st, st_receiver st) \<in> set (sn_streams (ce_sub e)) \<and>
          st_identifier st = Some (encode env (JStr (sn_identifier (ce_sub e))))) (cc_subscriptions c))
      (cc_started c @ cc_deliveries c)"
proof -
  have "conn_ok env cable_connection_new" by (simp add: conn_ok_def cable_connection_new_def)
  then have ok: "conn_ok env c" by (rule cable_runs.inv_run[OF assms])
  have entries: "entry_ok env e" if "e \<in> set (cc_subscriptions c)" for e using conn_okD(3)[OF ok that] .
  show ?thesis
    using conn_okD(1,2)[OF ok] entries conn_okD(4)[OF ok]
    by (auto simp: list_all_iff list_ex_iff entry_ok_def stream_owned_def owned_by_def streams_bounded_def
        max_subscriptions_def max_identifier_bytes_def max_receivers_per_stream_def)
qed

definition example_class :: "unit channel_class" where
  "example_class = \<lparr>cl_new = (), cl_subscribed = (\<lambda>_ _. ([StreamFrom ''room''], True, ())),
     cl_unsubscribed = (\<lambda>_ _. ([], True, ())), cl_perform = (\<lambda>_ _ _ _. ([], Some False, ()))\<rparr>"

definition example_env :: "unit cable_env" where
  "example_env = \<lparr>ce_channels = (\<lambda>name. if name = ''C'' then Some example_class else None),
     ce_parse = (\<lambda>t. if t = ''subscribe'' then Some (JObj [(''command'', JStr ''subscribe''), (''identifier'', JStr ''id'')])
                     else if t = ''id'' then Some (JObj [(''channel'', JStr ''C'')])
                     else if t = ''bye'' then Some (JObj [(''type'', JStr ''disconnect'')]) else None),
     ce_to_string = (\<lambda>_. ''x'')\<rparr>"

definition example_turn :: "(cable_turn_result \<times> unit cable_connection \<times> queue_channel hub) option" where
  "example_turn = cable_turn example_env queue_ops default_cable_config 9 None (IncomingEvent (TextIn ''subscribe''))
     (cable_connection_new, hub_new 8)"

lemmas example_simps = cable_turn_def leaves_loop_def skips_turn_def handle_event_def dispatch_command_def
  add_subscription_def subscribe_to_channel_def cable_connection_new_def max_subscriptions_def max_identifier_bytes_def
  example_env_def example_class_def new_subscription_def run_calls_def stream_from_def max_receivers_per_stream_def
  subscribe_def hub_new_def collect_def poll_remote_disconnect_def flush_def

lemma example_turn_result:
  "\<exists>t c h. example_turn = Some (t, c, h) \<and> map st_broadcasting (cc_deliveries c) = [''room'']"
  unfolding example_turn_def by (simp add: example_simps)

theorem cable_connection_bounded_witness:
  "length (cc_subscriptions (fst (snd (the example_turn)))) \<le> 64 \<and>
   map st_broadcasting (cc_deliveries (fst (snd (the example_turn)))) = [''room'']"
proof -
  obtain t c h where turn: "example_turn = Some (t, c, h)" "map st_broadcasting (cc_deliveries c) = [''room'']"
    using example_turn_result by (elim exE conjE)
  have "cable_step example_env queue_ops default_cable_config cable_connection_new c"
    using turn(1) unfolding example_turn_def by (rule cable_step.intros)
  then have "(cable_step example_env queue_ops default_cable_config)\<^sup>*\<^sup>* cable_connection_new c" by blast
  from cable_connection_bounded[OF this] show ?thesis by (simp only: turn option.sel fst_conv snd_conv)
qed


definition example_stream :: stream where
  "example_stream = \<lparr>st_broadcasting = ''room'', st_identifier = None, st_receiver = 0\<rparr>"


text \<open>The check at the write boundary finds the first disconnect among the unread messages of the
  internal stream.\<close>

lemma poll_finds_disconnect:
  assumes "channel_laws ops" and "0 < capacity"
    and "(hub_step ops)\<^sup>*\<^sup>* (hub_new capacity, [], Map.empty) (h, sent, subs)"
    and "subs (st_receiver st) = Some sb" "sb_broadcasting sb = st_broadcasting st"
      "sb_identifier sb = st_identifier st" "\<not> sb_lagged sb"
    and "length (drop (length (sb_got sb)) (expected sb sent)) \<le> capacity"
  shows "fst (poll_remote_disconnect env ops capacity (Some st) h) =
    (case filter (\<lambda>d. process_internal_message env (dl_frame d) \<noteq> None) (drop (length (sb_got sb)) (expected sb sent)) of
       [] \<Rightarrow> None | d # _ \<Rightarrow> Some (dl_sequence d, the (process_internal_message env (dl_frame d))))"
proof -
  have "capacity < next_power_of_two capacity + 1"
    using pow2_from_ge[of 1 capacity] by (simp add: next_power_of_two_def)
  then have "length (drop (length (sb_got sb)) (expected sb sent)) < next_power_of_two capacity + 1"
    using assms(8) by simp
  from poll_internal_finds[OF assms(1) hub_reachable_ok[OF assms(1-3)]
      conjunct1[OF reachable_unread[OF assms(1-7)]] assms(8) this] show ?thesis
    by (simp add: poll_remote_disconnect_def del: poll_internal.simps)
qed

end
