(* ===== verification/WebSocket.thy ===== *)
theory WebSocket
  imports CableProtocol Bytes
begin

unbundle bit_operations_syntax

section \<open>The WebSocket reader and writer\<close>

text \<open>
  \<^verbatim>\<open>crates/cable/src/socket.rs\<close>: frames of RFC 6455 on a byte stream, with compression per message
  (RFC 7692), and the reader task of \<^verbatim>\<open>crates/cable/src/connection.rs\<close>.

  Bytes are 8-bit words.  The stream is the list of the bytes still to come, and its end is the end
  of the connection.  The compression library is a parameter: \<open>raw_deflate\<close> compresses and flushes,
  \<open>raw_inflate\<close> decompresses a whole stream or fails.
\<close>

definition max_message :: nat where
  "max_message = 2 ^ 20"

definition min_compressed :: nat where
  "min_compressed = 256"

definition deflate_tail :: "byte list" where
  "deflate_tail = [0, 0, 0xff, 0xff]"

definition op_continuation :: byte where "op_continuation = 0x0"
definition op_text :: byte where "op_text = 0x1"
definition op_binary :: byte where "op_binary = 0x2"
definition op_close :: byte where "op_close = 0x8"
definition op_ping :: byte where "op_ping = 0x9"
definition op_pong :: byte where "op_pong = 0xA"

lemmas opcodes = op_continuation_def op_text_def op_binary_def op_close_def op_ping_def op_pong_def

subsection \<open>Compression\<close>

definition deflate :: "(byte list \<Rightarrow> byte list) \<Rightarrow> byte list \<Rightarrow> byte list" where
  "deflate raw_deflate input =
     (let out = raw_deflate input in
      if suffix deflate_tail out then take (length out - length deflate_tail) out else out)"

datatype io_error = ProtocolError string | UnexpectedEof | WriteZero | TimedOut | WriteFailed

definition inflate :: "(byte list \<Rightarrow> byte list option) \<Rightarrow> byte list \<Rightarrow> io_error + byte list" where
  "inflate raw_inflate data =
     (case raw_inflate (data @ deflate_tail) of
        None \<Rightarrow> Inl (ProtocolError ''invalid deflate data'')
      | Some out \<Rightarrow> if length out > max_message then Inl (ProtocolError ''message too big'') else Inr out)"

subsection \<open>The handshake\<close>

definition accept_guid :: string where
  "accept_guid = ''258EAFA5-E914-47DA-95CA-C5AB0DC85B11''"

definition deflate_response :: string where
  "deflate_response = ''permessage-deflate; server_no_context_takeover; client_no_context_takeover''"

definition trim_quotes :: "string \<Rightarrow> string" where
  "trim_quotes t = rev (dropWhile (\<lambda>c. c = CHR 0x22) (rev (dropWhile (\<lambda>c. c = CHR 0x22) t)))"

text \<open>\<^verbatim>\<open>parse::<u8>\<close>: an optional plus sign and decimal digits, at most 255.\<close>

definition parse_u8 :: "string \<Rightarrow> nat option" where
  "parse_u8 t =
     (let ds = (case t of c # r \<Rightarrow> if c = CHR ''+'' then r else t | [] \<Rightarrow> t);
          v = foldl (\<lambda>acc c. acc * 10 + (of_char c - 48)) 0 ds
      in if ds \<noteq> [] \<and> list_all is_digit ds \<and> v \<le> 255 then Some v else None)"

definition acceptable_param :: "string \<Rightarrow> bool" where
  "acceptable_param param =
     (let (name, value_text) = (case split_once (CHR ''='') param of
            None \<Rightarrow> (param, None) | Some (n, v) \<Rightarrow> (trim n, Some (trim_quotes (trim v))))
      in if name = ''server_no_context_takeover'' \<or> name = ''client_no_context_takeover'' then value_text = None
         else if name = ''client_max_window_bits'' then
           (case value_text of None \<Rightarrow> True
            | Some v \<Rightarrow> (case parse_u8 v of None \<Rightarrow> False | Some bits \<Rightarrow> 8 \<le> bits \<and> bits \<le> 15))
         else if name = ''server_max_window_bits'' then value_text = Some ''15''
         else False)"

definition acceptable_deflate_offer :: "string \<Rightarrow> bool" where
  "acceptable_deflate_offer offer =
     (case map trim (split_on (CHR '';'') offer) of
        [] \<Rightarrow> False
      | name # params \<Rightarrow> name = ''permessage-deflate'' \<and> list_all acceptable_param params)"

record handshake =
  hs_accept :: string
  hs_deflate :: bool

text \<open>The digest and Base64 are parameters.\<close>

definition handshake_accept :: "(string \<Rightarrow> byte list) \<Rightarrow> (byte list \<Rightarrow> string) \<Rightarrow> (string \<Rightarrow> byte list option) \<Rightarrow> headers
    \<Rightarrow> handshake option" where
  "handshake_accept sha1 b64_encode b64_decode hs =
     (case get_text ''sec-websocket-version'' hs of
        None \<Rightarrow> None
      | Some version \<Rightarrow>
          (case get_text ''sec-websocket-key'' hs of
             None \<Rightarrow> None
           | Some key \<Rightarrow>
               if version \<noteq> ''13'' \<or> (case b64_decode key of None \<Rightarrow> True | Some decoded \<Rightarrow> length decoded \<noteq> 16)
               then None
               else Some \<lparr>hs_accept = b64_encode (sha1 (key @ accept_guid)),
                 hs_deflate = list_ex acceptable_deflate_offer
                   (concat (map (split_on (CHR '','')) (List.map_filter id (get_all ''sec-websocket-extensions'' hs))))\<rparr>))"

text \<open>The headers of the answer.\<close>

definition response_headers :: "handshake \<Rightarrow> headers" where
  "response_headers h =
     [(''upgrade'', Some ''websocket''), (''connection'', Some ''upgrade''),
      (''sec-websocket-accept'', Some (hs_accept h))] @
     (if hs_deflate h then [(''sec-websocket-extensions'', Some deflate_response)] else [])"

subsection \<open>Reading\<close>

datatype incoming_message =
  MText "byte list" | MBinary | MPing "byte list" | MPong | MClose "nat option" | MInvalid

type_synonym partial_message = "(byte \<times> bool \<times> byte list) option"

definition read_exact :: "nat \<Rightarrow> byte list \<Rightarrow> io_error + byte list \<times> byte list" where
  "read_exact n input = (if length input < n then Inl UnexpectedEof else Inr (take n input, drop n input))"

definition unmask :: "byte list \<Rightarrow> byte list \<Rightarrow> byte list" where
  "unmask masking payload = map (\<lambda>(i, b). b XOR masking ! (i mod 4)) (enumerate 0 payload)"

text \<open>One frame: FIN, RSV1, opcode and the unmasked payload.\<close>

definition read_length :: "byte \<Rightarrow> byte list \<Rightarrow> io_error + nat \<times> byte list" where
  "read_length b input =
     (let l = b AND 0x7f in
      if l = 126 then map_sum id (\<lambda>(bs, rest). (from_be_bytes bs, rest)) (read_exact 2 input)
      else if l = 127 then map_sum id (\<lambda>(bs, rest). (from_be_bytes bs, rest)) (read_exact 8 input)
      else Inr (unat l, input))"

definition read_frame :: "byte list \<Rightarrow> io_error + (bool \<times> bool \<times> byte \<times> byte list) \<times> byte list" where
  "read_frame input =
     (case read_exact 2 input of
        Inl e \<Rightarrow> Inl e
      | Inr (head, input1) \<Rightarrow>
          (let fin = (head ! 0 AND 0x80 \<noteq> 0); rsv1 = (head ! 0 AND 0x40 \<noteq> 0); opcode = head ! 0 AND 0x0f in
           if head ! 0 AND 0x30 \<noteq> 0 then Inl (ProtocolError ''reserved bits set'')
           else if head ! 1 AND 0x80 = 0 then Inl (ProtocolError ''client frames must be masked'')
           else (case read_length (head ! 1) input1 of
                   Inl e \<Rightarrow> Inl e
                 | Inr (len, input2) \<Rightarrow>
                     (let control = (opcode \<ge> 0x8) in
                      if (control \<and> (len > 125 \<or> \<not> fin \<or> rsv1)) \<or> len > max_message
                      then Inl (ProtocolError ''bad frame length'')
                      else (case read_exact 4 input2 of
                              Inl e \<Rightarrow> Inl e
                            | Inr (masking, input3) \<Rightarrow>
                                if length (take len input3) \<noteq> len then Inl UnexpectedEof
                                else Inr ((fin, rsv1, opcode, unmask masking (take len input3)), drop len input3))))))"

definition close_code :: "byte list \<Rightarrow> io_error + nat option" where
  "close_code payload =
     (case payload of
        [] \<Rightarrow> Inr None
      | [_] \<Rightarrow> Inl (ProtocolError ''one-byte close payload'')
      | high # low # reason \<Rightarrow>
          (let code = from_be_bytes [high, low] in
           if \<not> (1000 \<le> code \<and> code \<le> 1003 \<or> 1007 \<le> code \<and> code \<le> 1014 \<or> 3000 \<le> code \<and> code \<le> 4999)
           then Inl (ProtocolError ''invalid close code'')
           else if \<not> valid_utf8 reason then Inl (ProtocolError ''close reason isn't UTF-8'')
           else Inr (Some code)))"

definition finish_message :: "(byte list \<Rightarrow> byte list option) \<Rightarrow> bool \<Rightarrow> byte \<times> bool \<times> byte list
    \<Rightarrow> io_error + incoming_message" where
  "finish_message raw_inflate deflating = (\<lambda>(opcode, compressed, data).
     if compressed \<and> \<not> deflating then Inl (ProtocolError ''compressed frame without the extension'')
     else (case (if compressed then inflate raw_inflate data else Inr data) of
             Inl e \<Rightarrow> Inl e
           | Inr data' \<Rightarrow>
               if opcode = op_text
               then (if valid_utf8 data' then Inr (MText data') else Inl (ProtocolError ''invalid UTF-8''))
               else Inr MBinary))"

text \<open>What one frame does to the message so far: the value \<^verbatim>\<open>next\<close> returns, if it returns, and the
  message so far.\<close>

definition accept_frame :: "(byte list \<Rightarrow> byte list option) \<Rightarrow> bool \<Rightarrow> partial_message \<Rightarrow> bool \<times> bool \<times> byte \<times> byte list
    \<Rightarrow> (io_error + incoming_message) option \<times> partial_message" where
  "accept_frame raw_inflate deflating partial = (\<lambda>(fin, rsv1, opcode, payload).
     if opcode = op_close then (Some (map_sum id MClose (close_code payload)), partial)
     else if opcode = op_ping then (Some (Inr (MPing payload)), partial)
     else if opcode = op_pong then (Some (Inr MPong), partial)
     else
       (let grown =
          (if (opcode = op_text \<or> opcode = op_binary) \<and> partial = None then Inr (opcode, rsv1, payload)
           else if opcode = op_continuation \<and> \<not> rsv1 then
             (case partial of
                Some (started, compressed, data) \<Rightarrow>
                  if length data + length payload \<le> max_message then Inr (started, compressed, data @ payload)
                  else Inl (ProtocolError ''message too big'')
              | None \<Rightarrow> Inl (ProtocolError ''continuation without a message''))
           else Inl (ProtocolError ''unexpected frame''))
        in case grown of
             Inl e \<Rightarrow> (Some (Inl e), partial)
           | Inr message \<Rightarrow>
               if fin then (Some (finish_message raw_inflate deflating message), None) else (None, Some message)))"

lemma read_exact_length:
  "read_exact n input = Inr (bs, rest) \<Longrightarrow> length bs = n \<and> input = bs @ rest"
  by (auto simp: read_exact_def split: if_splits)

lemma read_length_rest: "read_length b input = Inr (n, rest) \<Longrightarrow> length rest \<le> length input"
  by (auto simp: read_length_def Let_def read_exact_def split: if_splits)

lemma read_frame_shorter: "read_frame input = Inr (f, rest) \<Longrightarrow> length rest < length input"
proof -
  assume "read_frame input = Inr (f, rest)"
  then obtain head i1 n i2 masking i3 where "read_exact 2 input = Inr (head, i1)" "read_length (head ! 1) i1 = Inr (n, i2)"
    "read_exact 4 i2 = Inr (masking, i3)" "rest = drop n i3"
    by (auto simp: read_frame_def Let_def split: sum.splits prod.splits if_splits)
  then show ?thesis
    using read_length_rest[of "head ! 1" i1 n i2] by (auto dest!: read_exact_length)
qed

text \<open>The next message or control frame, with the message so far and the rest of the stream.\<close>

function read_next :: "(byte list \<Rightarrow> byte list option) \<Rightarrow> bool \<Rightarrow> partial_message \<Rightarrow> byte list
    \<Rightarrow> (io_error + incoming_message) \<times> partial_message \<times> byte list" where
  "read_next raw_inflate deflating partial input =
     (case read_frame input of
        Inl e \<Rightarrow> (Inl e, partial, [])
      | Inr (f, rest) \<Rightarrow>
          (case accept_frame raw_inflate deflating partial f of
             (Some result, partial') \<Rightarrow> (result, partial', rest)
           | (None, partial') \<Rightarrow> read_next raw_inflate deflating partial' rest))"
  by pat_completeness auto
termination
  by (relation "measure (\<lambda>(_, _, _, input). length input)") (auto dest: read_frame_shorter)

declare read_next.simps [simp del]

lemma read_next_cases:
  shows read_next_error: "read_frame input = Inl e \<Longrightarrow> read_next ri d p input = (Inl e, p, [])"
    and read_next_done: "read_frame input = Inr (f, rest) \<Longrightarrow> accept_frame ri d p f = (Some r, p') \<Longrightarrow>
      read_next ri d p input = (r, p', rest)"
    and read_next_more: "read_frame input = Inr (f, rest) \<Longrightarrow> accept_frame ri d p f = (None, p') \<Longrightarrow>
      read_next ri d p input = read_next ri d p' rest"
  by (simp_all add: read_next.simps[of ri d p input])

lemma read_next_rest:
  assumes "read_next raw_inflate deflating partial input = (Inr m, partial', rest)"
  shows "length rest < length input"
  using assms
proof (induction raw_inflate deflating partial input rule: read_next.induct)
  case (1 ri d p input)
  show ?case
  proof (cases "read_frame input")
    case (Inl e)
    then show ?thesis using 1(2) by (simp add: read_next_error)
  next
    case (Inr fr)
    obtain f rest0 r p' where fr: "read_frame input = Inr (f, rest0)" "accept_frame ri d p f = (r, p')"
      using Inr by (metis surj_pair)
    show ?thesis
    proof (cases r)
      case None
      then have "length rest < length rest0" using 1 fr read_next_more[OF fr(1)] by metis
      then show ?thesis using read_frame_shorter[OF fr(1)] by simp
    next
      case (Some x)
      then show ?thesis using 1(2) fr read_next_done[OF fr(1)] read_frame_shorter[OF fr(1)] by simp
    qed
  qed
qed

text \<open>The reader task: it hands over every message, a broken protocol as \<open>MInvalid\<close>, and stops
  after that, after a close frame, or at the end of the stream.\<close>

function reader_task :: "(byte list \<Rightarrow> byte list option) \<Rightarrow> bool \<Rightarrow> partial_message \<Rightarrow> byte list \<Rightarrow> incoming_message list" where
  "reader_task raw_inflate deflating partial input =
     (case read_next raw_inflate deflating partial input of
        (Inl (ProtocolError _), _, _) \<Rightarrow> [MInvalid]
      | (Inl _, _, _) \<Rightarrow> []
      | (Inr (MClose code), _, _) \<Rightarrow> [MClose code]
      | (Inr MInvalid, _, _) \<Rightarrow> [MInvalid]
      | (Inr message, partial', rest) \<Rightarrow> message # reader_task raw_inflate deflating partial' rest)"
  by pat_completeness auto
termination
  by (relation "measure (\<lambda>(_, _, _, input). length input)") (auto dest: read_next_rest[OF sym])

declare reader_task.simps [simp del]

subsection \<open>Writing\<close>

text \<open>A final frame's header: the bytes used of the source's array of ten.\<close>

definition frame_header :: "byte \<Rightarrow> bool \<Rightarrow> nat \<Rightarrow> byte list" where
  "frame_header opcode compressed len =
     (0x80 OR (if compressed then 0x40 else 0) OR opcode) #
     (if len < 126 then [word_of_nat len]
      else if len \<le> 65535 then 126 # to_be_bytes 2 len
      else 127 # to_be_bytes 8 len)"

definition deflated :: "(byte list \<Rightarrow> byte list) \<Rightarrow> byte list \<Rightarrow> byte list option" where
  "deflated raw_deflate text_bytes =
     (if min_compressed \<le> length text_bytes then Some (deflate raw_deflate text_bytes) else None)"

definition frame_payload :: "(byte list \<Rightarrow> byte list) \<Rightarrow> bool \<Rightarrow> byte list \<Rightarrow> bool \<times> byte list" where
  "frame_payload raw_deflate deflating text_bytes =
     (case (if deflating then deflated raw_deflate text_bytes else None) of
        Some bytes \<Rightarrow> (True, bytes)
      | None \<Rightarrow> (False, text_bytes))"

text \<open>The slices of one write: a header and a payload for each frame.\<close>

definition frame_slices :: "(byte list \<Rightarrow> byte list) \<Rightarrow> bool \<Rightarrow> byte list list \<Rightarrow> byte list list" where
  "frame_slices raw_deflate deflating frames =
     concat (map (\<lambda>f. case frame_payload raw_deflate deflating f of
        (compressed, payload) \<Rightarrow> [frame_header op_text compressed (length payload), payload]) frames)"

definition control_slices :: "byte \<Rightarrow> byte list \<Rightarrow> byte list list" where
  "control_slices opcode payload = [frame_header opcode False (length payload), payload]"

text \<open>\<^verbatim>\<open>IoSlice::advance_slices\<close>.\<close>

fun advance_slices :: "nat \<Rightarrow> byte list list \<Rightarrow> byte list list eval_result" where
  "advance_slices n [] = (if n = 0 then Returns [] else Panics)"
| "advance_slices n (b # bs) = (if length b \<le> n then advance_slices (n - length b) bs else Returns (drop n b # bs))"

text \<open>\<^verbatim>\<open>write_all_vectored\<close> against the socket's answers to each \<^verbatim>\<open>write_vectored\<close>, with the bytes the
  socket took.  Answers that run out are a client that stopped reading: the write times out.\<close>

fun write_all_vectored :: "(io_error + nat) list \<Rightarrow> byte list list \<Rightarrow> ((io_error + unit) \<times> byte list) eval_result" where
  "write_all_vectored answers [] = Returns (Inr (), [])"
| "write_all_vectored [] (b # bs) = Returns (Inl TimedOut, [])"
| "write_all_vectored (Inl e # answers) (b # bs) = Returns (Inl e, [])"
| "write_all_vectored (Inr n # answers) (b # bs) =
     (if n = 0 then Returns (Inl WriteZero, [])
      else case advance_slices n (b # bs) of
             Panics \<Rightarrow> Panics
           | Returns rest \<Rightarrow>
               eval_map (\<lambda>(r, written). (r, take n (concat (b # bs)) @ written)) (write_all_vectored answers rest))"

text \<open>\<^verbatim>\<open>Writer::write\<close>: the slices, then \<^verbatim>\<open>io.flush()\<close>, whose error (\<open>flushed\<close>, \<open>None\<close> when it
  succeeds) is the write's.\<close>

definition write_out :: "(io_error + nat) list \<Rightarrow> io_error option \<Rightarrow> byte list list
    \<Rightarrow> ((io_error + unit) \<times> byte list) eval_result" where
  "write_out answers flushed slices =
     eval_map (\<lambda>(r, written). (case (r, flushed) of (Inr _, Some e) \<Rightarrow> Inl e | _ \<Rightarrow> r, written))
       (write_all_vectored answers slices)"

definition send_frames :: "(byte list \<Rightarrow> byte list) \<Rightarrow> bool \<Rightarrow> (io_error + nat) list \<Rightarrow> io_error option
    \<Rightarrow> byte list list \<Rightarrow> ((io_error + unit) \<times> byte list) eval_result" where
  "send_frames raw_deflate deflating answers flushed frames =
     write_out answers flushed (frame_slices raw_deflate deflating frames)"

definition write_control :: "(io_error + nat) list \<Rightarrow> io_error option \<Rightarrow> byte \<Rightarrow> byte list
    \<Rightarrow> ((io_error + unit) \<times> byte list) eval_result" where
  "write_control answers flushed opcode payload = write_out answers flushed (control_slices opcode payload)"

definition pong :: "(io_error + nat) list \<Rightarrow> io_error option \<Rightarrow> byte list
    \<Rightarrow> ((io_error + unit) \<times> byte list) eval_result" where
  "pong answers flushed payload = write_control answers flushed op_pong payload"

definition close_with :: "(io_error + nat) list \<Rightarrow> io_error option \<Rightarrow> nat
    \<Rightarrow> ((io_error + unit) \<times> byte list) eval_result" where
  "close_with answers flushed code = write_control answers flushed op_close (to_be_bytes 2 code)"

definition close_reply :: "(io_error + nat) list \<Rightarrow> io_error option \<Rightarrow> nat option
    \<Rightarrow> ((io_error + unit) \<times> byte list) eval_result" where
  "close_reply answers flushed code =
     (case code of Some c \<Rightarrow> close_with answers flushed c | None \<Rightarrow> write_control answers flushed op_close [])"

subsection \<open>Byte-level lemmas\<close>

lemma length_unmask [simp]: "length (unmask k payload) = length payload"
  by (simp add: unmask_def)

lemma unmask_unmask: "unmask k (unmask k payload) = payload"
  by (rule nth_equalityI) (simp_all add: unmask_def nth_enumerate_eq xor.assoc)

text \<open>Masking as RFC 6455 has it: the key's bytes taken in turn, each combined with the next byte of the
  payload, over and over.\<close>

fun masked_with :: "byte list \<Rightarrow> byte list \<Rightarrow> byte list" where
  "masked_with (k # ks) (b # bs) = (k XOR b) # masked_with (ks @ [k]) bs"
| "masked_with _ _ = []"

lemma masked_with_rotate:
  assumes "length key = 4"
  shows "masked_with (rotate n key) bs = map (\<lambda>(i, b). b XOR key ! (i mod 4)) (enumerate n bs)"
proof (induction bs arbitrary: n)
  case (Cons b bs)
  have "rotate n key \<noteq> []" using assms by auto
  then obtain k ks where k: "rotate n key = k # ks" by (cases "rotate n key") auto
  have "k = key ! (n mod 4)" using hd_rotate_conv_nth[of key n] assms k by (cases "key = []") auto
  moreover have "rotate (Suc n) key = ks @ [k]" by (simp add: k)
  ultimately show ?case using Cons.IH[of "Suc n"] by (simp add: k xor.commute)
qed simp

lemma masked_with_unmask:
  assumes "length key = 4"
  shows "masked_with key bs = unmask key bs"
  using masked_with_rotate[OF assms, of 0 bs] by (simp add: unmask_def)

lemma first_byte:
  assumes "opcode \<in> {op_continuation, op_text, op_binary, op_close, op_ping, op_pong}"
  shows "((if fin then 0x80 else 0) OR (if rsv1 then 0x40 else 0) OR opcode) AND 0x0f = opcode"
    and "(((if fin then 0x80 else 0) OR (if rsv1 then 0x40 else 0) OR opcode) AND 0x80 \<noteq> 0) = fin"
    and "(((if fin then 0x80 else 0) OR (if rsv1 then 0x40 else 0) OR opcode) AND 0x40 \<noteq> 0) = rsv1"
    and "((if fin then 0x80 else 0) OR (if rsv1 then 0x40 else 0) OR opcode) AND 0x30 = 0"
  using assms by (auto simp: opcodes)

lemma text_not_control [simp]: "\<not> 0x8 \<le> op_text"
  by (simp add: op_text_def word_le_nat_alt)

lemma length_byte:
  assumes "n < 128"
  shows "((0x80 OR word_of_nat n) :: byte) AND 0x7f = word_of_nat n"
    and "((0x80 OR word_of_nat n) :: byte) AND 0x80 \<noteq> 0" and "unat (word_of_nat n :: byte) = n"
    and "(word_of_nat n :: byte) AND 0x7f = word_of_nat n" and "(word_of_nat n :: byte) AND 0x80 = 0"
proof -
  have all: "\<forall>n \<in> set [0..<128]. ((0x80 OR word_of_nat n) :: byte) AND 0x7f = word_of_nat n \<and>
      ((0x80 OR word_of_nat n) :: byte) AND 0x80 \<noteq> 0 \<and> unat (word_of_nat n :: byte) = n \<and>
      (word_of_nat n :: byte) AND 0x7f = word_of_nat n \<and> (word_of_nat n :: byte) AND 0x80 = 0"
    by code_simp
  then show "((0x80 OR word_of_nat n) :: byte) AND 0x7f = word_of_nat n"
    and "((0x80 OR word_of_nat n) :: byte) AND 0x80 \<noteq> 0" and "unat (word_of_nat n :: byte) = n"
    and "(word_of_nat n :: byte) AND 0x7f = word_of_nat n" and "(word_of_nat n :: byte) AND 0x80 = 0"
    using assms by auto
qed

subsection \<open>Reading what a client sends\<close>

text \<open>A client's frame as RFC 6455 describes it: masked, its length in the shortest form.\<close>

definition masked_frame :: "byte list \<Rightarrow> bool \<Rightarrow> bool \<Rightarrow> byte \<Rightarrow> byte list \<Rightarrow> byte list" where
  "masked_frame key fin rsv1 opcode payload =
     [(if fin then 0x80 else 0) OR (if rsv1 then 0x40 else 0) OR opcode] @
     (if length payload < 126 then [0x80 OR word_of_nat (length payload)]
      else if length payload \<le> 65535 then (0x80 OR 126) # to_be_bytes 2 (length payload)
      else (0x80 OR 127) # to_be_bytes 8 (length payload)) @
     key @ masked_with key payload"

lemma read_length_short:
  "n < 126 \<Longrightarrow> read_length (0x80 OR word_of_nat n) input = Inr (n, input)"
proof -
  assume "n < 126"
  moreover from this have "(word_of_nat n :: byte) \<noteq> 126" "(word_of_nat n :: byte) \<noteq> 127"
    using length_byte(3)[of n] by (auto simp: word_eq_iff_unsigned)
  ultimately show ?thesis using length_byte[of n] by (simp add: read_length_def)
qed

lemma read_length_long:
  "n \<le> 65535 \<Longrightarrow> read_length (0x80 OR 126) (to_be_bytes 2 n @ input) = Inr (n, input)"
  "n < 2 ^ 64 \<Longrightarrow> read_length (0x80 OR 127) (to_be_bytes 8 n @ input) = Inr (n, input)"
proof -
  have pow: "(256 :: nat) ^ 2 = 65536" "(256 :: nat) ^ 8 = 2 ^ 64" by simp_all
  show "n \<le> 65535 \<Longrightarrow> read_length (0x80 OR 126) (to_be_bytes 2 n @ input) = Inr (n, input)"
    by (simp add: read_length_def read_exact_def from_to_be_bytes pow del: to_be_bytes.simps)
  show "n < 2 ^ 64 \<Longrightarrow> read_length (0x80 OR 127) (to_be_bytes 8 n @ input) = Inr (n, input)"
    by (simp add: read_length_def read_exact_def from_to_be_bytes pow del: to_be_bytes.simps)
qed

lemma read_masked_frame:
  assumes "length key = 4" and op: "opcode \<in> {op_continuation, op_text, op_binary, op_close, op_ping, op_pong}"
    and len: "length payload \<le> max_message"
    and control: "opcode \<ge> 0x8 \<longrightarrow> length payload \<le> 125 \<and> fin \<and> \<not> rsv1"
  shows "read_frame (masked_frame key fin rsv1 opcode payload @ rest) = Inr ((fin, rsv1, opcode, payload), rest)"
proof -
  let ?n = "length payload" and ?b = "((if fin then 0x80 else 0) OR (if rsv1 then 0x40 else 0) OR opcode) :: byte"
  obtain l more where l: "masked_frame key fin rsv1 opcode payload = ?b # l # more @ key @ unmask key payload"
    "read_length l (more @ key @ unmask key payload @ rest) = Inr (?n, key @ unmask key payload @ rest)"
    "l AND 0x80 \<noteq> 0"
  proof -
    have "?n < 2 ^ 64" using len by (simp add: max_message_def)
    then consider "?n < 126" | "126 \<le> ?n" "?n \<le> 65535" | "65535 < ?n" "?n < 2 ^ 64" by linarith
    then show thesis
    proof cases
      case 1
      then show ?thesis
        using that[of "0x80 OR word_of_nat ?n" "[]"] read_length_short length_byte(2)[of ?n]
        by (simp add: masked_frame_def masked_with_unmask[OF assms(1)])
    next
      case 2
      then show ?thesis
        using that[of "0x80 OR 126" "to_be_bytes 2 ?n"] read_length_long(1)
        by (simp add: masked_frame_def masked_with_unmask[OF assms(1)] del: to_be_bytes.simps)
    next
      case 3
      then show ?thesis
        using that[of "0x80 OR 127" "to_be_bytes 8 ?n"] read_length_long(2)
        by (simp add: masked_frame_def masked_with_unmask[OF assms(1)] del: to_be_bytes.simps)
    qed
  qed
  have head: "read_exact 2 (masked_frame key fin rsv1 opcode payload @ rest) =
      Inr ([?b, l], more @ key @ unmask key payload @ rest)"
    by (simp add: l(1) read_exact_def)
  have key: "read_exact 4 (key @ unmask key payload @ rest) = Inr (key, unmask key payload @ rest)"
    using assms(1) by (simp add: read_exact_def)
  have good: "\<not> (opcode \<ge> 0x8 \<and> (?n > 125 \<or> \<not> fin \<or> rsv1) \<or> ?n > max_message)"
    using len control by auto
  note f = first_byte[OF op, of fin rsv1]
  show ?thesis
    using good by (simp add: read_frame_def head f l(2,3) key unmask_unmask Let_def)
qed

lemma reader_task_more:
  "read_frame input = Inr (f, rest) \<Longrightarrow> accept_frame ri d p f = (None, p') \<Longrightarrow>
     reader_task ri d p input = reader_task ri d p' rest"
  by (simp add: reader_task.simps[of ri d p input] reader_task.simps[of ri d p' rest] read_next_more)

lemma reader_task_done:
  "read_frame input = Inr (f, rest) \<Longrightarrow> accept_frame ri d p f = (Some (Inr m), p') \<Longrightarrow>
     m = MText t \<or> m = MPing t \<Longrightarrow> reader_task ri d p input = m # reader_task ri d p' rest"
  by (auto simp: reader_task.simps[of ri d p input] read_next_done)

text \<open>A fragment with the pings sent before it, each frame with its masking key.\<close>

type_synonym fragment = "(byte list \<times> byte list) list \<times> byte list \<times> byte list"

definition client_pings :: "(byte list \<times> byte list) list \<Rightarrow> byte list" where
  "client_pings pings = concat (map (\<lambda>(key, payload). masked_frame key True False op_ping payload) pings)"

fun client_fragments :: "byte \<Rightarrow> bool \<Rightarrow> fragment list \<Rightarrow> byte list" where
  "client_fragments opcode compressed [] = []"
| "client_fragments opcode compressed ((pings, key, data) # rest) =
     client_pings pings @ masked_frame key (rest = []) compressed opcode data @
     client_fragments op_continuation False rest"

definition fragment_data :: "fragment list \<Rightarrow> byte list" where
  "fragment_data frags = concat (map (\<lambda>(_, _, data). data) frags)"

definition fragment_pings :: "fragment list \<Rightarrow> incoming_message list" where
  "fragment_pings frags = concat (map (\<lambda>(pings, _, _). map (\<lambda>(_, payload). MPing payload) pings) frags)"

definition fragment_ok :: "fragment \<Rightarrow> bool" where
  "fragment_ok = (\<lambda>(pings, key, data). length key = 4 \<and>
     list_all (\<lambda>(k, payload). length k = 4 \<and> length payload \<le> 125) pings)"

lemma reader_task_pings:
  assumes "list_all (\<lambda>(k, payload). length k = 4 \<and> length payload \<le> 125) pings"
  shows "reader_task ri d p (client_pings pings @ input) =
    map (\<lambda>(_, payload). MPing payload) pings @ reader_task ri d p input"
  using assms
proof (induction pings)
  case (Cons ping pings)
  obtain k payload where ping: "ping = (k, payload)" by fastforce
  have "read_frame (masked_frame k True False op_ping payload @ client_pings pings @ input) =
      Inr ((True, False, op_ping, payload), client_pings pings @ input)"
    using Cons.prems by (intro read_masked_frame) (auto simp: ping max_message_def)
  moreover have "accept_frame ri d p (True, False, op_ping, payload) = (Some (Inr (MPing payload)), p)"
    by (simp add: accept_frame_def opcodes)
  ultimately show ?case
    using reader_task_done Cons by (simp add: ping client_pings_def)
qed (simp add: client_pings_def)

lemma reader_task_continued:
  assumes "frags \<noteq> []" and "list_all fragment_ok frags"
    and "length acc + length (fragment_data frags) \<le> max_message"
    and "finish_message ri d (op_text, c, acc @ fragment_data frags) = Inr (MText t)"
  shows "reader_task ri d (Some (op_text, c, acc)) (client_fragments op_continuation False frags @ rest) =
    fragment_pings frags @ MText t # reader_task ri d None rest"
  using assms
proof (induction frags arbitrary: acc)
  case (Cons f frags)
  obtain pings key data where f: "f = (pings, key, data)" by (cases f) auto
  let ?rest = "client_fragments op_continuation False frags @ rest"
  have len: "length acc + length data \<le> max_message"
    using Cons.prems(3) by (simp add: f fragment_data_def)
  have frame: "read_frame (masked_frame key (frags = []) False op_continuation data @ ?rest) =
      Inr ((frags = [], False, op_continuation, data), ?rest)"
    using Cons.prems(2) len by (intro read_masked_frame) (auto simp: f fragment_ok_def opcodes)
  have cont: "reader_task ri d (Some (op_text, c, acc)) (masked_frame key (frags = []) False op_continuation data @ ?rest) =
      fragment_pings frags @ MText t # reader_task ri d None rest"
  proof (cases "frags = []")
    case True
    then have "accept_frame ri d (Some (op_text, c, acc)) (frags = [], False, op_continuation, data) =
        (Some (Inr (MText t)), None)"
      using len Cons.prems(4) by (simp add: accept_frame_def opcodes f fragment_data_def)
    then show ?thesis
      using reader_task_done[OF frame] True by (simp add: fragment_pings_def)
  next
    case False
    then have "accept_frame ri d (Some (op_text, c, acc)) (frags = [], False, op_continuation, data) =
        (None, Some (op_text, c, acc @ data))"
      using len by (simp add: accept_frame_def opcodes)
    then show ?thesis
      using reader_task_more[OF frame] Cons.IH[of "acc @ data"] False Cons.prems
      by (simp add: f fragment_data_def)
  qed
  have "list_all (\<lambda>(k, payload). length k = 4 \<and> length payload \<le> 125) pings"
    using Cons.prems(2) by (simp add: f fragment_ok_def)
  from reader_task_pings[OF this, of ri d "Some (op_text, c, acc)"
      "masked_frame key (frags = []) False op_continuation data @ ?rest"]
  show ?case using cont by (simp add: f fragment_pings_def)
qed simp

lemma reader_task_message:
  assumes "frags \<noteq> []" and "list_all fragment_ok frags" and "length (fragment_data frags) \<le> max_message"
    and "finish_message ri d (op_text, c, fragment_data frags) = Inr (MText t)"
  shows "reader_task ri d None (client_fragments op_text c frags @ rest) =
    fragment_pings frags @ MText t # reader_task ri d None rest"
proof -
  obtain pings key data frags' where frags: "frags = (pings, key, data) # frags'"
    using assms(1) by (cases frags) auto
  let ?rest = "client_fragments op_continuation False frags' @ rest"
  have frame: "read_frame (masked_frame key (frags' = []) c op_text data @ ?rest) =
      Inr ((frags' = [], c, op_text, data), ?rest)"
    using assms(2,3) by (intro read_masked_frame) (auto simp: frags fragment_ok_def fragment_data_def)
  have "reader_task ri d None (masked_frame key (frags' = []) c op_text data @ ?rest) =
      fragment_pings frags' @ MText t # reader_task ri d None rest"
  proof (cases "frags' = []")
    case True
    then have "accept_frame ri d None (frags' = [], c, op_text, data) = (Some (Inr (MText t)), None)"
      using assms(4) by (simp add: accept_frame_def opcodes frags fragment_data_def)
    then show ?thesis using reader_task_done[OF frame] True by (simp add: fragment_pings_def)
  next
    case False
    then have "accept_frame ri d None (frags' = [], c, op_text, data) = (None, Some (op_text, c, data))"
      by (simp add: accept_frame_def opcodes)
    then show ?thesis
      using reader_task_more[OF frame] reader_task_continued[of frags' data ri d c t rest] False assms(2,3,4)
      by (simp add: frags fragment_data_def)
  qed
  moreover have "list_all (\<lambda>(k, payload). length k = 4 \<and> length payload \<le> 125) pings"
    using assms(2) by (simp add: frags fragment_ok_def)
  ultimately show ?thesis
    using reader_task_pings[of pings ri d None "masked_frame key (frags' = []) c op_text data @ ?rest"]
    by (simp add: frags fragment_pings_def)
qed

subsection \<open>Bounds on what is kept\<close>

lemma read_frame_bounds:
  assumes "read_frame input = Inr ((fin, rsv1, opcode, payload), rest)"
  shows "length payload \<le> max_message" and "opcode \<ge> 0x8 \<Longrightarrow> length payload \<le> 125 \<and> fin \<and> \<not> rsv1"
  using assms
  by (auto simp: read_frame_def Let_def split: sum.splits prod.splits if_splits)

definition partial_within :: "partial_message \<Rightarrow> bool" where
  "partial_within partial \<longleftrightarrow> (case partial of None \<Rightarrow> True | Some (_, _, data) \<Rightarrow> length data \<le> max_message)"

definition message_within :: "incoming_message \<Rightarrow> bool" where
  "message_within m \<longleftrightarrow>
     (case m of MText t \<Rightarrow> length t \<le> max_message \<and> valid_utf8 t | MPing payload \<Rightarrow> length payload \<le> 125
      | MClose (Some code) \<Rightarrow> 1000 \<le> code \<and> code < 5000 | _ \<Rightarrow> True)"

lemma finish_message_within:
  "length data \<le> max_message \<Longrightarrow> finish_message ri d (opcode, c, data) = Inr m \<Longrightarrow> message_within m"
  by (auto simp: finish_message_def inflate_def message_within_def split: if_splits sum.splits option.splits)

lemma close_code_within: "close_code payload = Inr code \<Longrightarrow> message_within (MClose code)"
  by (auto simp: close_code_def message_within_def Let_def split: list.splits if_splits)

lemma accept_frame_within:
  assumes "partial_within p" "length payload \<le> max_message" "opcode \<ge> 0x8 \<longrightarrow> length payload \<le> 125"
    and "accept_frame ri d p (fin, rsv1, opcode, payload) = (r, p')"
  shows "partial_within p'" and "r = Some (Inr m) \<Longrightarrow> message_within m"
proof -
  have ctl: "opcode = op_ping \<Longrightarrow> length payload \<le> 125" using assms(3) by (simp add: opcodes)
  have ended: "finish_message ri d x = Inr m \<Longrightarrow> length (snd (snd x)) \<le> max_message \<Longrightarrow> message_within m" for x m
    using finish_message_within[of "snd (snd x)" ri d "fst x" "fst (snd x)"] by simp
  show "partial_within p'"
    using assms by (auto simp: accept_frame_def partial_within_def Let_def split: if_splits sum.splits option.splits prod.splits)
  show "message_within m" if "r = Some (Inr m)"
    using assms(1,2,4) that ctl ended close_code_within[of payload]
    by (auto simp: accept_frame_def partial_within_def Let_def message_within_def[of "MPing _"]
        message_within_def[of MPong] map_sum_def split: if_splits sum.splits option.splits prod.splits)
qed

lemma read_next_within:
  assumes "partial_within p" "read_next ri d p input = (r, p', rest)"
  shows "partial_within p' \<and> (\<forall>m. r = Inr m \<longrightarrow> message_within m)"
  using assms
proof (induction ri d p input rule: read_next.induct)
  case (1 ri d p input)
  show ?case
  proof (cases "read_frame input")
    case (Inl e)
    then show ?thesis using 1(2,3) by (auto simp: read_next_error)
  next
    case (Inr fr)
    obtain fin rsv1 opcode payload rest0 r0 p0 where
      fr: "read_frame input = Inr ((fin, rsv1, opcode, payload), rest0)"
      and acc: "accept_frame ri d p (fin, rsv1, opcode, payload) = (r0, p0)"
      using Inr by (metis surj_pair)
    note within = accept_frame_within[OF 1(2) read_frame_bounds(1)[OF fr] _ acc]
    have p0: "partial_within p0" using within(1) read_frame_bounds(2)[OF fr] by blast
    show ?thesis
    proof (cases r0)
      case None
      then have "read_next ri d p0 rest0 = (r, p', rest)"
        using 1(3) read_next_more[OF fr] acc by simp
      then show ?thesis using 1(1)[OF fr refl acc[symmetric] None p0] by blast
    next
      case (Some x)
      then have "x = r" "p0 = p'" using 1(3) read_next_done[OF fr] acc by auto
      then show ?thesis using p0 within(2) Some read_frame_bounds(2)[OF fr] by blast
    qed
  qed
qed

lemma reader_task_within:
  "partial_within p \<Longrightarrow> list_all message_within (reader_task ri d p input)"
proof (induction "length input" arbitrary: p input rule: less_induct)
  case less
  obtain r p' rest where nxt: "read_next ri d p input = (r, p', rest)" by (metis surj_pair)
  have within: "partial_within p'" "r = Inr m \<Longrightarrow> message_within m" for m
    using read_next_within[OF less.prems nxt] by auto
  show ?case
  proof (cases r)
    case (Inl e)
    then show ?thesis
      using nxt by (cases e) (simp_all add: reader_task.simps[of ri d p input] message_within_def)
  next
    case (Inr m)
    then have "list_all message_within (reader_task ri d p' rest)"
      using less.hyps read_next_rest within(1) nxt by blast
    then show ?thesis
      using Inr nxt within
      by (cases m) (auto simp: reader_task.simps[of ri d p input] message_within_def[of MInvalid] intro: within(2))
  qed
qed

subsection \<open>What a client reads back\<close>

text \<open>A client's reading of one server frame as RFC 6455 describes it: RSV1, opcode and payload.\<close>

definition server_frame_read :: "byte list \<Rightarrow> ((bool \<times> byte \<times> byte list) \<times> byte list) option" where
  "server_frame_read input =
     (case read_exact 2 input of
        Inl _ \<Rightarrow> None
      | Inr (head, input1) \<Rightarrow>
          if head ! 0 AND 0x80 = 0 \<or> head ! 0 AND 0x30 \<noteq> 0 \<or> head ! 1 AND 0x80 \<noteq> 0 then None
          else (case read_length (head ! 1) input1 of
                  Inl _ \<Rightarrow> None
                | Inr (len, input2) \<Rightarrow>
                    if length input2 < len then None
                    else Some ((head ! 0 AND 0x40 \<noteq> 0, head ! 0 AND 0x0f, take len input2), drop len input2)))"

lemma server_frame_length:
  "n < 126 \<Longrightarrow> read_length (word_of_nat n) input = Inr (n, input)"
  "n \<le> 65535 \<Longrightarrow> read_length 126 (to_be_bytes 2 n @ input) = Inr (n, input)"
  "n < 2 ^ 64 \<Longrightarrow> read_length 127 (to_be_bytes 8 n @ input) = Inr (n, input)"
  using read_length_short[of n input] read_length_long[of n input] length_byte[of n]
  by (auto simp: read_length_def)

lemma read_server_frame:
  assumes op: "opcode \<in> {op_continuation, op_text, op_binary, op_close, op_ping, op_pong}"
    and len: "length payload < 2 ^ 64"
  shows "server_frame_read (frame_header opcode c (length payload) @ payload @ rest) = Some ((c, opcode, payload), rest)"
proof -
  let ?n = "length payload" and ?b = "(0x80 OR (if c then 0x40 else 0) OR opcode) :: byte"
  obtain l more where l: "frame_header opcode c ?n = ?b # l # more"
    "read_length l (more @ payload @ rest) = Inr (?n, payload @ rest)" "l AND 0x80 = 0"
  proof -
    consider "?n < 126" | "126 \<le> ?n" "?n \<le> 65535" | "65535 < ?n" by linarith
    then show thesis
    proof cases
      case 1
      then show ?thesis
        using that[of "word_of_nat ?n" "[]"] server_frame_length(1)[of ?n] length_byte(5)[of ?n]
        by (simp add: frame_header_def)
    next
      case 2
      then show ?thesis
        using that[of 126 "to_be_bytes 2 ?n"] server_frame_length(2)
        by (simp add: frame_header_def del: to_be_bytes.simps)
    next
      case 3
      then show ?thesis
        using that[of 127 "to_be_bytes 8 ?n"] server_frame_length(3) len
        by (simp add: frame_header_def del: to_be_bytes.simps)
    qed
  qed
  have head: "read_exact 2 (frame_header opcode c ?n @ payload @ rest) = Inr ([?b, l], more @ payload @ rest)"
    by (simp add: l(1) read_exact_def)
  note f = first_byte[OF op, of True c, simplified]
  show ?thesis by (simp add: server_frame_read_def head f l(2,3))
qed

lemma frame_header_nonempty [simp]: "frame_header opcode c n \<noteq> []"
  by (simp add: frame_header_def)

text \<open>The texts in a stream of server frames; compressed ones are inflated.\<close>

fun client_texts :: "(byte list \<Rightarrow> byte list option) \<Rightarrow> nat \<Rightarrow> byte list \<Rightarrow> byte list list option" where
  "client_texts raw_inflate 0 input = (if input = [] then Some [] else None)"
| "client_texts raw_inflate (Suc n) input =
     (case server_frame_read input of
        Some ((compressed, opcode, payload), rest) \<Rightarrow>
          if opcode \<noteq> op_text then None
          else (case (if compressed then raw_inflate (payload @ deflate_tail) else Some payload) of
                  None \<Rightarrow> None
                | Some t \<Rightarrow> map_option (Cons t) (client_texts raw_inflate n rest))
      | None \<Rightarrow> None)"

text \<open>What the code relies on of the compression library: what was compressed and flushed ends with
  the empty block and is decompressed again, and compressing stays below the length field.\<close>

definition compression_ok :: "(byte list \<Rightarrow> byte list) \<Rightarrow> (byte list \<Rightarrow> byte list option) \<Rightarrow> bool" where
  "compression_ok raw_deflate raw_inflate \<longleftrightarrow>
     (\<forall>t. suffix deflate_tail (raw_deflate t) \<and> raw_inflate (raw_deflate t) = Some t \<and>
        (length t < 2 ^ 63 \<longrightarrow> length (raw_deflate t) < 2 ^ 64))"

lemma deflate_tail_again: "suffix deflate_tail (raw_deflate t) \<Longrightarrow> deflate raw_deflate t @ deflate_tail = raw_deflate t"
  by (auto simp: deflate_def suffix_def)

lemma client_texts_frames:
  assumes "compression_ok raw_deflate raw_inflate" and "list_all (\<lambda>f. length f < 2 ^ 63) frames"
  shows "client_texts raw_inflate (length frames) (concat (frame_slices raw_deflate deflating frames)) = Some frames"
  using assms(2)
proof (induction frames)
  case (Cons f frames)
  obtain c payload where cp: "frame_payload raw_deflate deflating f = (c, payload)" by fastforce
  have deflates: "deflate raw_deflate f @ deflate_tail = raw_deflate f" "length (raw_deflate f) < 2 ^ 64"
    "raw_inflate (raw_deflate f) = Some f"
    using assms(1) Cons.prems deflate_tail_again[of raw_deflate f] by (auto simp: compression_ok_def)
  have same: "(if c then raw_inflate (payload @ deflate_tail) else Some payload) = Some f"
    using cp deflates by (auto simp: frame_payload_def deflated_def split: if_splits)
  have "length payload < 2 ^ 64"
    using cp Cons.prems arg_cong[OF deflates(1), of length] deflates(2)
    by (auto simp: frame_payload_def deflated_def split: if_splits)
  from read_server_frame[OF _ this, of op_text c] show ?case
    using Cons same by (simp add: frame_slices_def cp)
qed (simp add: frame_slices_def)

subsection \<open>Vectored writes\<close>

lemma advance_slices_drop:
  "n \<le> length (concat bs) \<Longrightarrow> \<exists>rest. advance_slices n bs = Returns rest \<and> concat rest = drop n (concat bs) \<and>
     (rest = [] \<or> hd rest \<noteq> [])"
proof (induction bs arbitrary: n)
  case (Cons b bs)
  then show ?case by (cases "length b \<le> n") auto
qed simp

fun socket_answers :: "(io_error + nat) list \<Rightarrow> nat \<Rightarrow> bool" where
  "socket_answers answers 0 = True"
| "socket_answers [] n = True"
| "socket_answers (Inl e # answers) n = True"
| "socket_answers (Inr k # answers) n = (0 < k \<and> k \<le> n \<and> socket_answers answers (n - k))"

lemma write_all_vectored_prefix:
  assumes "socket_answers answers (length (concat bs))" and "bs = [] \<or> hd bs \<noteq> []"
  shows "\<exists>r written. write_all_vectored answers bs = Returns (r, written) \<and> prefix written (concat bs) \<and>
    (r = Inr () \<longleftrightarrow> written = concat bs)"
  using assms
proof (induction answers bs rule: write_all_vectored.induct)
  case (4 n answers b bs)
  have n: "0 < n" "n \<le> length (concat (b # bs))" "socket_answers answers (length (concat (b # bs)) - n)"
    using 4(2,3) by (cases "length (concat (b # bs))"; auto)+
  obtain rest where rest: "advance_slices n (b # bs) = Returns rest" "concat rest = drop n (concat (b # bs))"
    "rest = [] \<or> hd rest \<noteq> []" using advance_slices_drop[OF n(2)] by blast
  have "socket_answers answers (length (concat rest))" using n(3) by (simp only: rest(2) length_drop)
  note ih = 4(1)[OF _ rest(1) this rest(3)]
  obtain r written where w: "write_all_vectored answers rest = Returns (r, written)" "prefix written (concat rest)"
    "r = Inr () \<longleftrightarrow> written = concat rest"
    using ih n(1) by blast
  let ?all = "concat (b # bs)"
  have split: "?all = take n ?all @ concat rest" using rest(2) by (simp del: concat.simps)
  have "prefix (take n ?all @ written) ?all" using w(2) by (subst (2) split) simp
  moreover have "(take n ?all @ written = ?all) = (written = concat rest)" by (subst (2) split) simp
  moreover have "write_all_vectored (Inr n # answers) (b # bs) = Returns (r, take n ?all @ written)"
    using n(1) rest(1) w(1) by simp
  ultimately show ?case using w(3) by blast
qed auto

lemma frame_slices_head: "frame_slices rd d frames = [] \<or> hd (frame_slices rd d frames) \<noteq> []"
  by (cases frames) (auto simp: frame_slices_def split: prod.splits)

subsection \<open>Properties of the socket\<close>

text \<open>What a client's message of one or more fragments says.\<close>

definition says :: "(byte list \<Rightarrow> byte list option) \<Rightarrow> bool \<Rightarrow> bool \<times> fragment list \<Rightarrow> byte list \<Rightarrow> bool" where
  "says raw_inflate deflating = (\<lambda>(compressed, frags) t.
     frags \<noteq> [] \<and> list_all fragment_ok frags \<and> length (fragment_data frags) \<le> max_message \<and> valid_utf8 t \<and>
     (if compressed then deflating \<and> inflate raw_inflate (fragment_data frags) = Inr t
      else fragment_data frags = t))"


definition example_key :: "byte list" where
  "example_key = [0x12, 0x34, 0x56, 0x78]"


text \<open>Whatever bytes a client sends, what the reader hands over is bounded and well formed: texts
  are UTF-8 of at most 1 MiB, also after decompression, ping payloads have at most 125 bytes, and
  close codes are ones a peer may send.\<close>

theorem reader_bounded: "list_all message_within (reader_task raw_inflate deflating None input)"
  by (rule reader_task_within) (simp add: partial_within_def)

text \<open>C19. Frames survive the write: however the socket splits the vectored writes, the bytes it took
  are an initial part of the frames', the write succeeds exactly when it took them all and the flush
  after them did, and then a client reads back exactly the texts, compressed or not.\<close>

theorem written_frames_read_back:
  assumes "compression_ok raw_deflate raw_inflate" and "list_all (\<lambda>f. length f < 2 ^ 63) frames"
    and "socket_answers answers (length (concat (frame_slices raw_deflate deflating frames)))"
  shows "\<exists>r written. send_frames raw_deflate deflating answers flushed frames = Returns (r, written) \<and>
    prefix written (concat (frame_slices raw_deflate deflating frames)) \<and>
    (r = Inr () \<longleftrightarrow> flushed = None \<and> written = concat (frame_slices raw_deflate deflating frames)) \<and>
    (r = Inr () \<longrightarrow> client_texts raw_inflate (length frames) written = Some frames)"
proof -
  obtain r written where w: "write_all_vectored answers (frame_slices raw_deflate deflating frames) = Returns (r, written)"
    "prefix written (concat (frame_slices raw_deflate deflating frames))"
    "r = Inr () \<longleftrightarrow> written = concat (frame_slices raw_deflate deflating frames)"
    using write_all_vectored_prefix[OF assms(3) frame_slices_head] by blast
  define r' where "r' = (case (r, flushed) of (Inr _, Some e) \<Rightarrow> Inl e | _ \<Rightarrow> r)"
  have "r' = Inr () \<longleftrightarrow> flushed = None \<and> r = Inr ()"
    by (cases r; cases flushed) (simp_all add: r'_def)
  moreover have "send_frames raw_deflate deflating answers flushed frames = Returns (r', written)"
    by (simp add: send_frames_def write_out_def w(1) r'_def)
  ultimately show ?thesis
    using w(2,3) client_texts_frames[OF assms(1,2), of deflating] by blast
qed

definition example_deflate :: "byte list \<Rightarrow> byte list" where
  "example_deflate t = t @ deflate_tail"

definition example_inflate :: "byte list \<Rightarrow> byte list option" where
  "example_inflate bs = (if suffix deflate_tail bs then Some (take (length bs - 4) bs) else None)"

lemma example_compression: "compression_ok example_deflate example_inflate"
  by (simp add: compression_ok_def example_deflate_def example_inflate_def)
     (simp add: deflate_tail_def suffix_def)

theorem written_frames_read_back_witness:
  "\<exists>r written. send_frames example_deflate True [Inr 3, Inr 1] None [[104, 105]] = Returns (r, written) \<and>
     prefix written (concat (frame_slices example_deflate True [[104, 105]]))"
proof -
  have "socket_answers [Inr 3, Inr 1] (length (concat (frame_slices example_deflate True [[104, 105]])))"
    by (simp add: frame_slices_def frame_payload_def deflated_def min_compressed_def frame_header_def eval_nat_numeral)
  then show ?thesis
    using written_frames_read_back[OF example_compression, of "[[104, 105]]" "[Inr 3, Inr 1]" True None] by auto
qed

end
