(* ===== verification/NetGuard.thy ===== *)
theory NetGuard
  imports IpAddress
begin

section \<open>The private network guard\<close>

text \<open>
  \<^verbatim>\<open>crates/app/src/net/guard.rs\<close>: which address an outgoing request to a host the users name may
  connect to.  A numeric host is read by \<open>getaddrinfo_numeric\<close> (every spelling the C library takes)
  and never reaches the resolver; every other host is looked up by the resolver, which is a
  parameter: its answer is the list of addresses or \<open>None\<close> when the lookup failed.
\<close>

datatype guard_error = Violation string | Unresolvable

type_synonym resolver = "string \<Rightarrow> ip_addr list option"

subsection \<open>Numeric hosts\<close>

text \<open>\<^verbatim>\<open>ip_literal\<close>\<close>

definition plain_octet :: "string \<Rightarrow> bool" where
  "plain_octet t \<longleftrightarrow> t \<noteq> [] \<and> list_all is_digit t \<and> (length t = 1 \<or> hd t \<noteq> CHR ''0'')"

definition ip_literal :: "string \<Rightarrow> ip_addr option" where
  "ip_literal t =
     (case Option.bind (strip_prefix ''['' t) (strip_suffix '']'') of
        Some inner \<Rightarrow> map_option V6 (parse_ipv6 inner)
      | None \<Rightarrow>
          if CHR '':'' \<in> set t then map_option V6 (parse_ipv6 t)
          else let octets = split_on (CHR ''.'') t in
            if length octets = 4 \<and> list_all plain_octet octets then map_option V4 (parse_ipv4 t)
            else None)"

text \<open>The digits of one part and their radix; the value of a part, unless it does not fit.\<close>

definition part_digits :: "string \<Rightarrow> string \<times> nat" where
  "part_digits part =
     (if prefix ''0x'' part \<or> prefix ''0X'' part then (drop 2 part, 16)
      else if 1 < length part \<and> prefix ''0'' part then (drop 1 part, 8)
      else (part, 10))"

definition part_value :: "string \<Rightarrow> 32 word option" where
  "part_value part =
     (let (digits, radix) = part_digits part in
      if part = [] \<or> \<not> list_all (\<lambda>c. to_digit radix c \<noteq> None) digits then None
      else let v = digits_value radix digits in
        if 2 ^ 64 \<le> v then None else if 2 ^ 32 - 1 < v then None else Some (word_of_nat v))"

fun part_values :: "string list \<Rightarrow> 32 word list option" where
  "part_values [] = Some []"
| "part_values (p # ps) =
     (case part_value p of None \<Rightarrow> None | Some v \<Rightarrow> map_option ((#) v) (part_values ps))"

text \<open>The loop that puts the leading parts, each of eight bits, above the last one.\<close>

fun place_leading :: "nat \<Rightarrow> 32 word list \<Rightarrow> 32 word \<Rightarrow> 32 word" where
  "place_leading i [] address = address"
| "place_leading i (v # vs) address = place_leading (Suc i) vs (address OR push_bit (24 - 8 * i) v)"

definition inet_aton :: "string \<Rightarrow> 32 word option" where
  "inet_aton t =
     (let parts = split_on (CHR ''.'') t in
      if parts = [] \<or> 4 < length parts then None
      else case part_values parts of None \<Rightarrow> None | Some values \<Rightarrow>
        if values = [] then None
        else let leading = butlast values; final = List.last values; remaining_bits = 32 - 8 * length leading in
          if list_ex (\<lambda>v. v > 0xff) leading then None
          else if remaining_bits < 32 \<and> final \<ge> push_bit remaining_bits 1 then None
          else Some (place_leading 0 leading final))"

definition getaddrinfo_numeric :: "string \<Rightarrow> ip_addr option" where
  "getaddrinfo_numeric host =
     (if CHR '':'' \<in> set host then map_option V6 (parse_ipv6 host) else map_option V4 (inet_aton host))"

subsection \<open>Classification\<close>

type_synonym v4_range = "32 word \<times> nat"
type_synonym v6_range = "128 word \<times> nat"

definition v4 :: "8 word \<Rightarrow> 8 word \<Rightarrow> 8 word \<Rightarrow> 8 word \<Rightarrow> nat \<Rightarrow> v4_range" where
  "v4 a b c d p = (octets_word a b c d, p)"

definition v6 :: "16 word list \<Rightarrow> nat \<Rightarrow> v6_range" where
  "v6 segments p = (segments_word segments, p)"

definition disallowed_ipv4_ranges :: "v4_range list" where
  "disallowed_ipv4_ranges =
    [v4 0 0 0 0 8, v4 10 0 0 0 8, v4 100 64 0 0 10, v4 127 0 0 0 8, v4 169 254 0 0 16,
     v4 172 16 0 0 12, v4 192 0 0 0 24, v4 192 0 2 0 24, v4 192 88 99 0 24, v4 192 168 0 0 16,
     v4 198 18 0 0 15, v4 198 51 100 0 24, v4 203 0 113 0 24, v4 224 0 0 0 4, v4 240 0 0 0 4]"

definition disallowed_ipv6_ranges :: "v6_range list" where
  "disallowed_ipv6_ranges =
    [v6 [0, 0, 0, 0, 0, 0, 0, 0] 128, v6 [0x100, 0, 0, 0, 0, 0, 0, 0] 64,
     v6 [0x2001, 0, 0, 0, 0, 0, 0, 0] 32, v6 [0x2001, 2, 0, 0, 0, 0, 0, 0] 48,
     v6 [0x2001, 0xdb8, 0, 0, 0, 0, 0, 0] 32, v6 [0x2002, 0, 0, 0, 0, 0, 0, 0] 16,
     v6 [0xfec0, 0, 0, 0, 0, 0, 0, 0] 10, v6 [0xff00, 0, 0, 0, 0, 0, 0, 0] 8]"

definition nat64_well_known :: v6_range where "nat64_well_known = v6 [0x64, 0xff9b, 0, 0, 0, 0, 0, 0] 96"
definition nat64_local_use :: v6_range where "nat64_local_use = v6 [0x64, 0xff9b, 1, 0, 0, 0, 0, 0] 48"
definition ipv4_mapped :: v6_range where "ipv4_mapped = v6 [0, 0, 0, 0, 0, 0xffff, 0, 0] 96"
definition ipv4_translatable :: v6_range where "ipv4_translatable = v6 [0, 0, 0, 0, 0xffff, 0, 0, 0] 96"
definition ipv4_compatible :: v6_range where "ipv4_compatible = v6 [0, 0, 0, 0, 0, 0, 0, 0] 96"
definition unique_local :: v6_range where "unique_local = v6 [0xfc00, 0, 0, 0, 0, 0, 0, 0] 7"
definition link_local_v6 :: v6_range where "link_local_v6 = v6 [0xfe80, 0, 0, 0, 0, 0, 0, 0] 10"

fun in_v4 :: "32 word \<Rightarrow> v4_range \<Rightarrow> bool" where
  "in_v4 ip (network, p) \<longleftrightarrow> p = 0 \<or> drop_bit (32 - p) (ip XOR network) = 0"

fun in_v6 :: "128 word \<Rightarrow> v6_range \<Rightarrow> bool" where
  "in_v6 ip (network, p) \<longleftrightarrow> p = 0 \<or> drop_bit (128 - p) (ip XOR network) = 0"

definition disallowed_ipv4 :: "32 word \<Rightarrow> bool" where
  "disallowed_ipv4 ip = list_ex (in_v4 ip) disallowed_ipv4_ranges"

definition disallowed_ipv6 :: "128 word \<Rightarrow> bool" where
  "disallowed_ipv6 ip \<longleftrightarrow>
     in_v6 ip unique_local \<or> ip = 1 \<or> in_v6 ip link_local_v6 \<or> list_ex (in_v6 ip) disallowed_ipv6_ranges"

fun blocked_address :: "ip_addr \<Rightarrow> bool" where
  "blocked_address (V4 ip) = disallowed_ipv4 ip"
| "blocked_address (V6 ip) =
     (if in_v6 ip ipv4_mapped \<or> in_v6 ip ipv4_compatible \<or> in_v6 ip nat64_local_use then True
      else if in_v6 ip nat64_well_known \<or> in_v6 ip ipv4_translatable then disallowed_ipv4 (ucast ip)
      else disallowed_ipv6 ip)"

subsection \<open>Resolution\<close>

definition bare_host :: "string \<Rightarrow> string" where
  "bare_host host =
     (let b = (case strip_prefix ''['' host of None \<Rightarrow> host | Some r \<Rightarrow> r)
      in case strip_suffix '']'' b of None \<Rightarrow> b | Some r \<Rightarrow> r)"

text \<open>\<^verbatim>\<open>getaddrinfo_numeric(bare).or_else(|| ip_literal(host))\<close>\<close>

definition numeric_host :: "string \<Rightarrow> ip_addr option" where
  "numeric_host host =
     (case getaddrinfo_numeric (bare_host host) of Some ip \<Rightarrow> Some ip | None \<Rightarrow> ip_literal host)"

definition resolve_public_ips :: "resolver \<Rightarrow> string \<Rightarrow> guard_error + ip_addr list" where
  "resolve_public_ips lookup host =
     (if host = [] then Inl (Violation host)
      else case (case numeric_host host of Some ip \<Rightarrow> Some [ip] | None \<Rightarrow> lookup host) of
          None \<Rightarrow> Inl Unresolvable
        | Some addresses \<Rightarrow>
            if addresses = [] then Inl Unresolvable
            else let public = filter (\<lambda>ip. \<not> blocked_address ip) addresses
              in Inr (filter is_ipv4 public @ filter (\<lambda>ip. \<not> is_ipv4 ip) public))"

definition guard_resolve :: "resolver \<Rightarrow> string \<Rightarrow> guard_error + ip_addr" where
  "guard_resolve lookup host =
     (case resolve_public_ips lookup host of
        Inl e \<Rightarrow> Inl e
      | Inr [] \<Rightarrow> Inl (Violation host)
      | Inr (ip # _) \<Rightarrow> Inr ip)"

definition resolve_webhook :: "resolver \<Rightarrow> string \<Rightarrow> guard_error + ip_addr" where
  "resolve_webhook lookup host = guard_resolve lookup host"

subsection \<open>The blocked ranges as intervals\<close>

text \<open>An independent statement of the policy: the blocked addresses as inclusive intervals of
  numbers, written from the first to the last address.\<close>

definition quad :: "nat \<Rightarrow> nat \<Rightarrow> nat \<Rightarrow> nat \<Rightarrow> nat" where
  "quad a b c d = a * 2 ^ 24 + b * 2 ^ 16 + c * 2 ^ 8 + d"

definition in_interval :: "nat \<Rightarrow> nat \<times> nat \<Rightarrow> bool" where
  "in_interval n = (\<lambda>(low, high). low \<le> n \<and> n \<le> high)"

definition blocked_v4_intervals :: "(nat \<times> nat) list" where
  "blocked_v4_intervals =
    [(quad 0 0 0 0, quad 0 255 255 255), (quad 10 0 0 0, quad 10 255 255 255),
     (quad 100 64 0 0, quad 100 127 255 255), (quad 127 0 0 0, quad 127 255 255 255),
     (quad 169 254 0 0, quad 169 254 255 255), (quad 172 16 0 0, quad 172 31 255 255),
     (quad 192 0 0 0, quad 192 0 0 255), (quad 192 0 2 0, quad 192 0 2 255),
     (quad 192 88 99 0, quad 192 88 99 255), (quad 192 168 0 0, quad 192 168 255 255),
     (quad 198 18 0 0, quad 198 19 255 255), (quad 198 51 100 0, quad 198 51 100 255),
     (quad 203 0 113 0, quad 203 0 113 255), (quad 224 0 0 0, quad 255 255 255 255)]"

definition v4_blocked_at :: "nat \<Rightarrow> bool" where
  "v4_blocked_at n \<longleftrightarrow> list_ex (in_interval n) blocked_v4_intervals"

text \<open>The blocked IPv6 addresses by the first 128, 64, ... bits: \<open>::\<close> to \<open>::ffff:ffff\<close> (compatible,
  loopback, unspecified), the mapped ones, \<open>64:ff9b:1::/48\<close>, \<open>100::/64\<close>, \<open>2001::/32\<close>,
  \<open>2001:2::/48\<close>, \<open>2001:db8::/32\<close>, \<open>2002::/16\<close>, and \<open>fc00::\<close> to \<open>fdff:...\<close>, \<open>fe80::\<close> to the end
  without a gap.\<close>

definition blocked_v6_intervals :: "(nat \<times> nat) list" where
  "blocked_v6_intervals =
    [(0, 2 ^ 32 - 1), (0xffff * 2 ^ 32, 0x10000 * 2 ^ 32 - 1),
     (0x64ff9b0001 * 2 ^ 80, 0x64ff9b0002 * 2 ^ 80 - 1),
     (0x0100 * 2 ^ 112, 0x0100 * 2 ^ 112 + 2 ^ 64 - 1),
     (0x20010000 * 2 ^ 96, 0x20010001 * 2 ^ 96 - 1), (0x200100020000 * 2 ^ 80, 0x200100020001 * 2 ^ 80 - 1),
     (0x20010db8 * 2 ^ 96, 0x20010db9 * 2 ^ 96 - 1), (0x2002 * 2 ^ 112, 0x2003 * 2 ^ 112 - 1),
     (0xfc00 * 2 ^ 112, 0xfe00 * 2 ^ 112 - 1), (0xfe80 * 2 ^ 112, 0x10000 * 2 ^ 112 - 1)]"

definition v6_blocked_at :: "nat \<Rightarrow> bool" where
  "v6_blocked_at n \<longleftrightarrow>
     list_ex (in_interval n) blocked_v6_intervals \<or>
     (n div 2 ^ 32 = 0xffff * 2 ^ 16 \<or> n div 2 ^ 32 = 0x64ff9b * 2 ^ 64) \<and> v4_blocked_at (n mod 2 ^ 32)"

fun blocked_at :: "ip_addr \<Rightarrow> bool" where
  "blocked_at (V4 ip) = v4_blocked_at (unat ip)"
| "blocked_at (V6 ip) = v6_blocked_at (unat ip)"

lemma div_numeral_eq:
  "(a :: nat) div numeral w = numeral c \<longleftrightarrow>
     numeral c * numeral w \<le> a \<and> a \<le> numeral c * numeral w + (numeral w - 1)"
  "(a :: nat) div numeral w = 0 \<longleftrightarrow> a \<le> numeral w - 1"
  using div_eq_interval[OF zero_less_numeral, of a w "numeral c"] zero_less_numeral[of w, where 'a = nat]
  by (auto simp only: div_eq_0_iff)

declare in_v4.simps [simp del] in_v6.simps [simp del]

lemma in_v4_div: "in_v4 ip (network, p) \<longleftrightarrow> p = 0 \<or> unat ip div 2 ^ (32 - p) = unat network div 2 ^ (32 - p)"
  by (simp only: in_v4.simps xor_shift_zero_iff)

lemma in_v6_div: "in_v6 ip (network, p) \<longleftrightarrow> p = 0 \<or> unat ip div 2 ^ (128 - p) = unat network div 2 ^ (128 - p)"
  by (simp only: in_v6.simps xor_shift_zero_iff)

lemma disallowed_ipv4_iff: "disallowed_ipv4 ip \<longleftrightarrow> v4_blocked_at (unat ip)"
proof -
  have multicast: "(3758096384 \<le> n \<and> n \<le> 4026531839 \<or> 4026531840 \<le> n \<and> n \<le> 4294967295) \<longleftrightarrow>
    3758096384 \<le> n \<and> n \<le> 4294967295" for n :: nat by linarith
  show ?thesis
    by (simp add: disallowed_ipv4_def disallowed_ipv4_ranges_def v4_def octets_word_def in_v4_div
        div_numeral_eq multicast v4_blocked_at_def in_interval_def blocked_v4_intervals_def quad_def)
qed

lemmas v6_range_defs = v6_def segments_word_def in_v6_div div_numeral_eq

lemma embedded_ranges:
  "in_v6 ip ipv4_mapped \<longleftrightarrow> 0xffff * 2 ^ 32 \<le> unat ip \<and> unat ip \<le> 0x10000 * 2 ^ 32 - 1"
  "in_v6 ip ipv4_compatible \<longleftrightarrow> unat ip \<le> 2 ^ 32 - 1"
  "in_v6 ip nat64_local_use \<longleftrightarrow> 0x64ff9b0001 * 2 ^ 80 \<le> unat ip \<and> unat ip \<le> 0x64ff9b0002 * 2 ^ 80 - 1"
  "in_v6 ip nat64_well_known \<longleftrightarrow> unat ip div 2 ^ 32 = 0x64ff9b * 2 ^ 64"
  "in_v6 ip ipv4_translatable \<longleftrightarrow> unat ip div 2 ^ 32 = 0xffff * 2 ^ 16"
  by (simp_all add: v6_range_defs ipv4_mapped_def ipv4_compatible_def nat64_local_use_def
      nat64_well_known_def ipv4_translatable_def)

lemma disallowed_ipv6_iff:
  "disallowed_ipv6 ip \<longleftrightarrow> unat ip \<le> 1 \<or> list_ex (in_interval (unat ip)) (drop 3 blocked_v6_intervals)"
proof -
  have loopback: "ip = 1 \<longleftrightarrow> unat ip = 1" by (simp add: word_unat_eq_iff)
  have low: "(m = Suc 0 \<or> m = 0) \<longleftrightarrow> m \<le> Suc 0" for m :: nat by linarith
  have high: "(338288524927261089654018896841347694592 \<le> m \<and> m \<le> 338620831926207318622244848606417780735 \<or>
     338620831926207318622244848606417780736 \<le> m \<and> m \<le> 338953138925153547590470800371487866879 \<or>
     338953138925153547590470800371487866880 \<le> m \<and> m \<le> 340282366920938463463374607431768211455) \<longleftrightarrow>
     338288524927261089654018896841347694592 \<le> m \<and> m \<le> 340282366920938463463374607431768211455" for m :: nat
    by linarith
  show ?thesis
    by (simp add: disallowed_ipv6_def disallowed_ipv6_ranges_def unique_local_def link_local_v6_def
        v6_range_defs blocked_v6_intervals_def in_interval_def loopback flip: high low) blast
qed

lemma embedded_not_listed:
  assumes "in_v6 ip nat64_well_known \<or> in_v6 ip ipv4_translatable"
  shows "\<not> list_ex (in_interval (unat ip)) (drop 3 blocked_v6_intervals)"
  using assms by (auto simp: embedded_ranges div_numeral_eq blocked_v6_intervals_def in_interval_def)

lemma blocked_v6_iff: "blocked_address (V6 ip) \<longleftrightarrow> v6_blocked_at (unat ip)"
proof -
  let ?in = "list_ex (in_interval (unat ip))"
  have split: "?in blocked_v6_intervals \<longleftrightarrow> ?in (take 3 blocked_v6_intervals) \<or> ?in (drop 3 blocked_v6_intervals)"
    by (metis append_take_drop_id list_ex_append)
  have first: "?in (take 3 blocked_v6_intervals) \<longleftrightarrow>
      in_v6 ip ipv4_mapped \<or> in_v6 ip ipv4_compatible \<or> in_v6 ip nat64_local_use"
    by (auto simp: embedded_ranges blocked_v6_intervals_def in_interval_def)
  have low: "in_v6 ip ipv4_compatible" if "unat ip \<le> 1" using that by (simp add: embedded_ranges)
  have embedded: "disallowed_ipv4 (ucast ip) \<longleftrightarrow> v4_blocked_at (unat ip mod 2 ^ 32)"
    by (simp add: disallowed_ipv4_iff unsigned_ucast_eq take_bit_eq_mod)
  have ref: "v6_blocked_at (unat ip) \<longleftrightarrow> ?in blocked_v6_intervals \<or>
      (in_v6 ip nat64_well_known \<or> in_v6 ip ipv4_translatable) \<and> v4_blocked_at (unat ip mod 2 ^ 32)"
    by (auto simp: v6_blocked_at_def embedded_ranges)
  show ?thesis
    unfolding ref split first using embedded_not_listed[of ip] low
    by (auto simp: embedded disallowed_ipv6_iff)
qed

lemma blocked_address_iff: "blocked_address ip \<longleftrightarrow> blocked_at ip"
  by (cases ip) (simp_all only: blocked_address.simps(1) blocked_at.simps disallowed_ipv4_iff blocked_v6_iff)

text \<open>C23.  The bit tests over the two tables classify every address exactly as the intervals of
  blocked addresses do: IPv4 addresses by themselves, IPv6 addresses by their own ranges or by the
  IPv4 address they embed.\<close>

theorem blocked_address_is_interval_policy: "blocked_address ip \<longleftrightarrow> blocked_at ip"
  by (rule blocked_address_iff)

subsection \<open>Resolution pins public addresses\<close>

lemma resolve_public_ips_public:
  "resolve_public_ips lookup host = Inr ips \<Longrightarrow> list_all (\<lambda>ip. \<not> blocked_at ip) ips"
  by (auto simp: resolve_public_ips_def Let_def list_all_iff blocked_address_iff split: if_splits option.splits)

lemma guard_resolve_public: "guard_resolve lookup host = Inr ip \<Longrightarrow> \<not> blocked_at ip"
  using resolve_public_ips_public[of lookup host]
  by (auto simp: guard_resolve_def split: sum.splits list.splits)

text \<open> An address the guard returns is outside every blocked interval and is the host's own:
  the number a numeric host spells, whatever the resolver would say, and otherwise an answer of the
  resolver for that host, an IPv6 one only when every IPv4 answer is blocked.\<close>

theorem resolve_pins_public_address:
  assumes "guard_resolve lookup host = Inr ip"
  shows "\<not> blocked_at ip \<and> host \<noteq> [] \<and>
    (case numeric_host host of
       Some a \<Rightarrow> ip = a
     | None \<Rightarrow> (\<exists>answers. lookup host = Some answers \<and> ip \<in> set answers \<and>
         (is_ipv4 ip \<or> list_all (\<lambda>a. is_ipv4 a \<longrightarrow> blocked_at a) answers)))"
proof -
  obtain answers where a: "(case numeric_host host of Some ip \<Rightarrow> Some [ip] | None \<Rightarrow> lookup host) = Some answers"
    and host: "host \<noteq> []" and r: "resolve_public_ips lookup host =
      Inr (filter is_ipv4 (filter (\<lambda>ip. \<not> blocked_address ip) answers) @
        filter (\<lambda>ip. \<not> is_ipv4 ip) (filter (\<lambda>ip. \<not> blocked_address ip) answers))"
    using assms by (auto simp: guard_resolve_def resolve_public_ips_def Let_def split: if_splits option.splits)
  then obtain rest where eq: "filter is_ipv4 (filter (\<lambda>ip. \<not> blocked_address ip) answers) @
        filter (\<lambda>ip. \<not> is_ipv4 ip) (filter (\<lambda>ip. \<not> blocked_address ip) answers) = ip # rest"
    using assms by (auto simp: guard_resolve_def split: list.splits)
  from eq have "ip \<in> set (filter is_ipv4 (filter (\<lambda>ip. \<not> blocked_address ip) answers) @
        filter (\<lambda>ip. \<not> is_ipv4 ip) (filter (\<lambda>ip. \<not> blocked_address ip) answers))" by simp
  then have ip: "ip \<in> set answers" "\<not> blocked_address ip" by auto
  have "list_all (\<lambda>a. is_ipv4 a \<longrightarrow> blocked_at a) answers" if v6: "\<not> is_ipv4 ip"
  proof -
    have "filter is_ipv4 (filter (\<lambda>ip. \<not> blocked_address ip) answers) = []"
    proof (rule ccontr)
      assume "filter is_ipv4 (filter (\<lambda>ip. \<not> blocked_address ip) answers) \<noteq> []"
      then obtain x xs where "filter is_ipv4 (filter (\<lambda>ip. \<not> blocked_address ip) answers) = x # xs"
        by (cases "filter is_ipv4 (filter (\<lambda>ip. \<not> blocked_address ip) answers)") auto
      with eq v6 show False by (metis append_Cons filter_eq_ConsD list.inject)
    qed
    then show ?thesis
      unfolding filter_filter filter_empty_conv blocked_address_iff by (auto simp: list_all_iff)
  qed
  with a ip host show ?thesis by (auto simp: blocked_address_iff split: option.splits)
qed

theorem resolve_pins_public_address_witness:
  "guard_resolve (\<lambda>_. Some [V6 1, V4 0x5DB8D822]) ''example'' = Inr (V4 0x5DB8D822) \<and>
   \<not> blocked_at (V4 0x5DB8D822)"
proof -
  have "guard_resolve (\<lambda>_. Some [V6 1, V4 0x5DB8D822]) ''example'' = Inr (V4 0x5DB8D822)"
    by code_simp
  with resolve_pins_public_address[of "\<lambda>_. Some [V6 1, V4 0x5DB8D822]" "''example''"] show ?thesis
    by blast
qed

subsection \<open>Every spelling of a number\<close>

text \<open>What the parts of a numeric host stand for: each part but the last one byte, from the top, and
  the last part the rest.\<close>

fun parts_number :: "nat \<Rightarrow> nat list \<Rightarrow> nat" where
  "parts_number i [] = 0"
| "parts_number i [v] = v"
| "parts_number i (v # w # vs) = v * 256 ^ (3 - i) + parts_number (Suc i) (w # vs)"

lemma bit_imp_unat_ge:
  assumes "bit v n" shows "2 ^ n \<le> unat v"
proof -
  from assms have "odd (unat v div 2 ^ n)" by (simp flip: bit_iff_odd add: bit_unsigned_iff)
  then show ?thesis by (metis div_less even_zero not_le)
qed

lemma bit_push_byte:
  fixes v :: "32 word"
  assumes "v \<le> 0xff" and "bit (push_bit k v) n"
  shows "k \<le> n \<and> n < k + 8"
proof -
  from assms(2) have n: "k \<le> n" and b: "bit v (n - k)" by (auto simp: bit_push_bit_iff)
  from b have "2 ^ (n - k) \<le> unat v" by (rule bit_imp_unat_ge)
  also have "unat v < 2 ^ 8" using assms(1) by (simp add: word_le_nat_alt)
  finally have "n - k < 8" by (rule power_less_imp_less_exp[rotated]) simp
  with n show ?thesis by linarith
qed

lemma place_leading_number:
  assumes "list_all (\<lambda>v. v \<le> 0xff) vs" and "i + length vs \<le> 3"
    and "\<And>n. bit address n \<Longrightarrow> n < 32 - 8 * (i + length vs) \<or> 32 - 8 * i \<le> n"
  shows "place_leading i vs address = address + word_of_nat (parts_number i (map unat vs @ [0]))"
  using assms
proof (induction i vs address rule: place_leading.induct)
  case (2 i v vs address)
  let ?p = "push_bit (24 - 8 * i) v"
  have v: "v \<le> 0xff" using 2 by simp
  have disj: "\<not> bit address n \<or> \<not> bit ?p n" for n
  proof (rule ccontr)
    assume "\<not> (\<not> bit address n \<or> \<not> bit ?p n)"
    then have "bit address n" "bit ?p n" by auto
    with 2(4)[of n] bit_push_byte[OF v, of "24 - 8 * i" n] 2(3) show False by auto
  qed
  then have plus: "address OR ?p = address + ?p" by (simp add: disjunctive_add)
  have "place_leading (Suc i) vs (address OR ?p) = (address OR ?p) + word_of_nat (parts_number (Suc i) (map unat vs @ [0]))"
  proof (rule 2(1))
    fix n assume "bit (address OR ?p) n"
    then consider "bit address n" | "bit ?p n" by (auto simp: bit_or_iff)
    then show "n < 32 - 8 * (Suc i + length vs) \<or> 32 - 8 * Suc i \<le> n"
      using 2(4)[of n] bit_push_byte[OF v, of "24 - 8 * i" n] 2(3) by cases auto
  qed (use 2 in auto)
  moreover have "?p = word_of_nat (unat v * 256 ^ (3 - i))"
  proof -
    have "(256::nat) ^ (3 - i) = 2 ^ (24 - 8 * i)" 
      using power_mult[of "2 :: nat" 8 "3 - i"] by (simp add: diff_mult_distrib2)
    then show ?thesis by (simp add: push_bit_eq_mult)
  qed
  moreover have "parts_number i (map unat (v # vs) @ [0]) =
      unat v * 256 ^ (3 - i) + parts_number (Suc i) (map unat vs @ [0])" by (cases vs) auto
  ultimately show ?case using plus by (simp only: place_leading.simps of_nat_add add.assoc)
qed simp

lemma parts_number_snoc: "parts_number i (xs @ [a]) = parts_number i (xs @ [0]) + a"
proof (induction xs arbitrary: i)
  case (Cons x xs)
  then show ?case by (cases xs) auto
qed simp

lemma parts_number_bound:
  "list_all (\<lambda>v. v \<le> 255) xs \<Longrightarrow> i + length xs \<le> 3 \<Longrightarrow> a < 256 ^ (4 - i - length xs) \<Longrightarrow>
     parts_number i (xs @ [a]) < 256 ^ (4 - i)"
proof (induction xs arbitrary: i)
  case (Cons x xs)
  then have "parts_number (Suc i) (xs @ [a]) < 256 ^ (4 - Suc i)" by (intro Cons.IH) auto
  then have "parts_number (Suc i) (xs @ [a]) < 256 ^ (3 - i)" by simp
  moreover have "x * 256 ^ (3 - i) \<le> 255 * 256 ^ (3 - i)" using Cons by simp
  moreover have "(256 :: nat) ^ (4 - i) = 256 * 256 ^ (3 - i)"
    using Cons.prems(2) by (simp add: Suc_diff_le flip: power_Suc)
  moreover have "parts_number i (x # xs @ [a]) = x * 256 ^ (3 - i) + parts_number (Suc i) (xs @ [a])"
    by (cases xs) auto
  ultimately show ?case by (simp only: append_Cons)
qed simp

lemma length_part_values: "part_values ps = Some vs \<Longrightarrow> length vs = length ps"
  by (induction ps arbitrary: vs) (auto split: option.splits)

lemma inet_aton_values:
  assumes "part_values (split_on CHR ''.'' t) = Some vs" and "length vs \<le> 4"
    and "list_all (\<lambda>v. v \<le> 0xff) (butlast vs)" and "unat (List.last vs) < 256 ^ (5 - length vs)"
  shows "place_leading 0 (butlast vs) (List.last vs) = word_of_nat (parts_number 0 (map unat vs)) \<and>
    parts_number 0 (map unat vs) < 2 ^ 32"
proof -
  have vs: "vs \<noteq> []" using length_part_values[OF assms(1)] by auto
  let ?k = "length (butlast vs)"
  have k: "?k \<le> 3" using assms(2) by simp
  have pow: "(256 :: nat) ^ (5 - length vs) = 2 ^ (32 - 8 * ?k)"
    using power_mult[of "2 :: nat" 8 "5 - length vs"] assms(2) vs by (cases vs) (simp_all add: diff_mult_distrib2)
  have "n < 32 - 8 * ?k" if "bit (List.last vs) n" for n
  proof -
    have "2 ^ n \<le> unat (List.last vs)" using that by (rule bit_imp_unat_ge)
    also have "\<dots> < 2 ^ (32 - 8 * ?k)" using assms(4) pow by simp
    finally show ?thesis by (rule power_less_imp_less_exp[rotated]) simp
  qed
  then have place: "place_leading 0 (butlast vs) (List.last vs) =
      List.last vs + word_of_nat (parts_number 0 (map unat (butlast vs) @ [0]))"
    using assms(3) k by (intro place_leading_number) auto
  have split: "map unat vs = map unat (butlast vs) @ [unat (List.last vs)]"
    using vs by (metis append_butlast_last_id map_append list.simps(8,9))
  have "parts_number 0 (map unat vs) < 256 ^ (4 - 0)"
    unfolding split using assms(3,4) k vs
    by (intro parts_number_bound) (cases vs, auto simp: list_all_iff word_le_nat_alt)+
  then show ?thesis using place parts_number_snoc[of 0 "map unat (butlast vs)" "unat (List.last vs)"]
    by (simp add: split)
qed

text \<open>A host is read as an IPv4 number exactly when it has one to four parts, each a decimal,
  octal or hexadecimal number, all but the last below 256 and the last within the bytes that are
  left; and the address is then the number the parts stand for.\<close>

lemma inet_aton_spec:
  "inet_aton t = Some a \<longleftrightarrow>
     (\<exists>vs. part_values (split_on CHR ''.'' t) = Some vs \<and> length vs \<le> 4 \<and>
        list_all (\<lambda>v. v \<le> 0xff) (butlast vs) \<and> unat (List.last vs) < 256 ^ (5 - length vs) \<and>
        unat a = parts_number 0 (map unat vs))"
proof -
  have fits: "(32 - 8 * length (butlast vs) < 32 \<and> List.last vs \<ge> push_bit (32 - 8 * length (butlast vs)) 1) \<longleftrightarrow>
      \<not> unat (List.last vs) < 256 ^ (5 - length vs)"
    if "length vs \<le> 4" "vs \<noteq> []" for vs :: "32 word list"
  proof -
    have "0 < length vs" using that by simp
    then have "length vs \<in> {1, 2, 3, 4}" using that(1) unfolding insert_iff by linarith
    moreover have "unat (List.last vs) < 4294967296" using unsigned_less[of "List.last vs"] by simp
    ultimately show ?thesis by (auto simp: word_le_nat_alt not_less)
  qed
  show ?thesis
  proof
    assume a: "inet_aton t = Some a"
    then obtain vs where vs: "part_values (split_on CHR ''.'' t) = Some vs" "length vs \<le> 4" "vs \<noteq> []"
      "\<not> list_ex (\<lambda>v. v > 0xff) (butlast vs)"
      "\<not> (32 - 8 * length (butlast vs) < 32 \<and> List.last vs \<ge> push_bit (32 - 8 * length (butlast vs)) 1)"
      "a = place_leading 0 (butlast vs) (List.last vs)"
      by (auto simp: inet_aton_def Let_def length_part_values split: if_splits option.splits)
    then show "\<exists>vs. part_values (split_on CHR ''.'' t) = Some vs \<and> length vs \<le> 4 \<and>
        list_all (\<lambda>v. v \<le> 0xff) (butlast vs) \<and> unat (List.last vs) < 256 ^ (5 - length vs) \<and>
        unat a = parts_number 0 (map unat vs)"
      using inet_aton_values[OF vs(1,2)] fits[OF vs(2,3)]
      by (intro exI[of _ vs]) (auto simp: list_all_iff list_ex_iff not_less unat_of_nat)
  next
    assume "\<exists>vs. part_values (split_on CHR ''.'' t) = Some vs \<and> length vs \<le> 4 \<and>
        list_all (\<lambda>v. v \<le> 0xff) (butlast vs) \<and> unat (List.last vs) < 256 ^ (5 - length vs) \<and>
        unat a = parts_number 0 (map unat vs)"
    then obtain vs where vs: "part_values (split_on CHR ''.'' t) = Some vs" "length vs \<le> 4"
        "list_all (\<lambda>v. v \<le> 0xff) (butlast vs)" "unat (List.last vs) < 256 ^ (5 - length vs)"
        "unat a = parts_number 0 (map unat vs)" by blast
    have ne: "vs \<noteq> []" using length_part_values[OF vs(1)] by auto
    have "a = place_leading 0 (butlast vs) (List.last vs)"
      using inet_aton_values[OF vs(1-4)] vs(5) by (simp add: word_unat_eq_iff unat_of_nat)
    then show "inet_aton t = Some a"
      using vs fits[OF vs(2) ne] length_part_values[OF vs(1)] ne
      by (auto simp: inet_aton_def Let_def list_all_iff list_ex_iff not_less)
  qed
qed

subsection \<open>Dotted quads\<close>

lemma string_of_nat_part:
  assumes "n < 2 ^ 32"
  shows "part_value (string_of_nat n) = Some (word_of_nat n)"
proof -
  have digits: "list_all is_digit (string_of_nat n)" by (rule string_of_nat_digits)
  then have dec: "list_all (\<lambda>c. to_digit 10 c \<noteq> None) (string_of_nat n)"
    by (force simp: list_all_iff to_digit_def is_digit_def Let_def)
  have no_hex: "\<not> prefix ''0x'' (string_of_nat n) \<and> \<not> prefix ''0X'' (string_of_nat n)"
  proof -
    have "is_digit c" if "prefix [CHR ''0'', c] (string_of_nat n)" for c
      using that digits by (auto simp: prefix_def)
    from this[of "CHR ''x''"] this[of "CHR ''X''"] show ?thesis by (auto simp: is_digit_def)
  qed
  have "\<not> (1 < length (string_of_nat n) \<and> prefix ''0'' (string_of_nat n))"
  proof (cases "n = 0")
    case True
    then show ?thesis by (subst (1) string_of_nat.simps) simp
  next
    case False
    then show ?thesis using string_of_nat_no_leading_zero[of n] by (auto simp: prefix_def)
  qed
  with no_hex have "part_digits (string_of_nat n) = (string_of_nat n, 10)"
    by (simp add: part_digits_def)
  with dec assms show ?thesis by (simp add: part_value_def Let_def)
qed

lemma string_of_nat_no_char: "\<not> is_digit c \<Longrightarrow> c \<notin> set (string_of_nat n)"
  using string_of_nat_digits[of n] by (auto simp: list_all_iff)

lemma split_ipv4_text: "split_on CHR ''.'' (ipv4_text a) = map string_of_nat (ipv4_octets a)"
  unfolding ipv4_text_def
  by (rule split_on_join) (auto simp: ipv4_octets_def is_digit_def intro!: string_of_nat_no_char)

lemma part_values_octets:
  "list_all (\<lambda>n. n < 256) ns \<Longrightarrow> part_values (map string_of_nat ns) = Some (map word_of_nat ns)"
  by (induction ns) (auto simp: string_of_nat_part)

lemma octets_number: "parts_number 0 (ipv4_octets a) = unat a"
proof -
  have "unat a < 2 ^ 32" using unsigned_less[of a] by simp
  moreover have "n div 16777216 * 16777216 + (n div 65536 mod 256 * 65536 + (n div 256 mod 256 * 256 + n mod 256)) = n"
    for n :: nat
  proof -
    have "n div 65536 * 256 + n div 256 mod 256 = n div 256"
      using div_mult_mod_eq[of "n div 256" 256] by (simp add: div_mult2_eq[symmetric])
    moreover have "n div 16777216 * 256 + n div 65536 mod 256 = n div 65536"
      using div_mult_mod_eq[of "n div 65536" 256] by (simp add: div_mult2_eq[symmetric])
    ultimately show ?thesis using div_mult_mod_eq[of n 256] by linarith
  qed
  ultimately show ?thesis by (simp add: ipv4_octets_def)
qed

lemma inet_aton_text: "inet_aton (ipv4_text a) = Some a"
proof -
  let ?vs = "map word_of_nat (ipv4_octets a) :: 32 word list"
  have b: "list_all (\<lambda>n. n < 256) (ipv4_octets a)" by (simp add: ipv4_octets_def)
  have "map unat ?vs = ipv4_octets a"
    using b by (auto simp: list_all_iff unat_of_nat intro!: map_idI)
  then have "unat a = parts_number 0 (map unat ?vs)" by (simp only: octets_number)
  moreover have "list_all (\<lambda>v. v \<le> 0xff) (butlast ?vs)" "unat (List.last ?vs) < 256 ^ (5 - length ?vs)" "length ?vs \<le> 4"
    by (simp_all add: ipv4_octets_def word_le_nat_alt unat_of_nat less_Suc_eq_le[symmetric])
  moreover have "part_values (split_on CHR ''.'' (ipv4_text a)) = Some ?vs"
    using b by (simp only: split_ipv4_text part_values_octets)
  ultimately show ?thesis using inet_aton_spec by blast
qed

lemma numeric_host_resolves:
  "host \<noteq> [] \<Longrightarrow> numeric_host host = Some ip \<Longrightarrow>
     guard_resolve lookup host = (if blocked_at ip then Inl (Violation host) else Inr ip)"
  by (simp add: guard_resolve_def resolve_public_ips_def blocked_address_iff)

text \<open> Reading back a printed IPv4 address: an address written as a host in dotted decimal, with
  or without brackets, is itself the answer when it is public and a violation otherwise; the
  resolver is never asked.\<close>

theorem dotted_quad_resolves_to_itself:
  "guard_resolve lookup (ipv4_text a) =
     (if blocked_at (V4 a) then Inl (Violation (ipv4_text a)) else Inr (V4 a)) \<and>
   guard_resolve lookup (''['' @ ipv4_text a @ '']'') =
     (if blocked_at (V4 a) then Inl (Violation (''['' @ ipv4_text a @ '']'')) else Inr (V4 a))"
proof -
  have chars: "set (ipv4_text a) \<subseteq> {c. is_digit c} \<union> {CHR ''.''}"
    using string_of_nat_digits by (auto simp: ipv4_text_def ipv4_octets_def list_all_iff)
  have bare: "bare_host (ipv4_text a) = ipv4_text a"
  proof -
    have "CHR ''['' \<notin> set (ipv4_text a)" "CHR '']'' \<notin> set (ipv4_text a)" using chars by (auto simp: is_digit_def)
    then show ?thesis by (auto simp: bare_host_def strip_prefix_def strip_suffix_def prefix_def suffix_def Let_def)
  qed
  have bare': "bare_host (''['' @ ipv4_text a @ '']'') = ipv4_text a"
    by (simp add: bare_host_def strip_prefix_def strip_suffix_def suffix_def)
  have "CHR '':'' \<notin> set (ipv4_text a)" using chars by (auto simp: is_digit_def)
  then have num: "getaddrinfo_numeric (ipv4_text a) = Some (V4 a)"
    by (simp add: getaddrinfo_numeric_def inet_aton_text)
  moreover have "ipv4_text a \<noteq> []" by (simp add: ipv4_text_def ipv4_octets_def)
  ultimately show ?thesis
    by (intro conjI numeric_host_resolves) (simp_all only: numeric_host_def bare bare' num, simp_all)
qed

end
