(* ===== verification/Uri.thy ===== *)
theory Uri
  imports IpAddress
begin

section \<open>URIs\<close>

text \<open>
  \<^verbatim>\<open>crates/richtext/src/uri.rs\<close>: the parser of URIs that links, previews and redirects go through.
  The source scans the bytes of a text by index; here a scanner takes the text from the index on
  and returns what is left, so an index is the length of what was consumed.
\<close>

datatype uri_error = InvalidUri | InvalidComponent

record uri =
  uri_scheme :: "string option"
  uri_userinfo :: "string option"
  uri_host :: "string option"
  uri_port :: "nat option"
  uri_path :: "string option"
  uri_opaque :: "string option"
  uri_query :: "string option"
  uri_fragment :: "string option"

definition u64_max :: nat where "u64_max = 2 ^ 64 - 1"

definition is_http :: "uri \<Rightarrow> bool" where
  "is_http u = (case uri_scheme u of None \<Rightarrow> False
     | Some s \<Rightarrow> same_ignoring_case s ''http'' \<or> same_ignoring_case s ''https'')"

definition to_upper :: "char \<Rightarrow> char" where
  "to_upper c = (if is_lower c then char_of (of_char c - 32 :: nat) else c)"

definition upper_scheme :: "uri \<Rightarrow> string option" where
  "upper_scheme u = map_option (map to_upper) (uri_scheme u)"

definition default_port :: "uri \<Rightarrow> nat option" where
  "default_port u =
     (if upper_scheme u \<in> {Some ''HTTP'', Some ''WS''} then Some 80
      else if upper_scheme u \<in> {Some ''HTTPS'', Some ''WSS''} then Some 443
      else if upper_scheme u = Some ''FTP'' then Some 21
      else if upper_scheme u = Some ''LDAP'' then Some 389
      else if upper_scheme u = Some ''LDAPS'' then Some 636
      else None)"

definition opt_text :: "string \<Rightarrow> string option \<Rightarrow> string" where
  "opt_text sep t = (case t of None \<Rightarrow> [] | Some t \<Rightarrow> sep @ t)"

definition to_s :: "uri \<Rightarrow> string" where
  "to_s u =
     (case uri_scheme u of None \<Rightarrow> [] | Some s \<Rightarrow> s @ '':'') @
     (case uri_opaque u of
        Some t \<Rightarrow> t
      | None \<Rightarrow>
          (if uri_host u \<noteq> None \<or> uri_scheme u \<in> {Some ''file'', Some ''postgres''} then ''//'' else []) @
          (case uri_userinfo u of None \<Rightarrow> [] | Some t \<Rightarrow> t @ ''@'') @
          opt_text [] (uri_host u) @
          (case uri_port u of None \<Rightarrow> []
           | Some p \<Rightarrow> if Some p \<noteq> default_port u then '':'' @ string_of_nat p else []) @
          opt_text [] (uri_path u) @ opt_text ''?'' (uri_query u)) @
     opt_text ''#'' (uri_fragment u)"

subsection \<open>Scanners\<close>

definition char_in :: "char \<Rightarrow> char \<Rightarrow> char \<Rightarrow> bool" where
  "char_in low high c \<longleftrightarrow> (of_char low :: nat) \<le> of_char c \<and> (of_char c :: nat) \<le> of_char high"

definition is_unreserved_or_sub :: "char \<Rightarrow> bool" where
  "is_unreserved_or_sub c \<longleftrightarrow>
     c \<in> {CHR ''!'', CHR ''$'', CHR '';'', CHR ''='', CHR ''_'', CHR ''~''} \<or>
     char_in (CHR ''&'') (CHR ''.'') c \<or> is_digit c \<or> is_upper c \<or> is_lower c"

definition seg_char :: "char \<Rightarrow> bool" where
  "seg_char c \<longleftrightarrow> is_unreserved_or_sub c \<or> c \<in> {CHR '':'', CHR ''@'', CHR ''/''}"

definition seg_nc_char :: "char \<Rightarrow> bool" where
  "seg_nc_char c \<longleftrightarrow> is_unreserved_or_sub c \<or> c = CHR ''@''"

definition fragment_char :: "char \<Rightarrow> bool" where
  "fragment_char c \<longleftrightarrow> is_unreserved_or_sub c \<or> c \<in> {CHR '':'', CHR ''@'', CHR ''/'', CHR ''?''}"

definition userinfo_char :: "char \<Rightarrow> bool" where
  "userinfo_char c \<longleftrightarrow> is_unreserved_or_sub c \<or> c = CHR '':''"

fun pct_at :: "string \<Rightarrow> bool" where
  "pct_at (p # a # b # _) \<longleftrightarrow> p = CHR ''%'' \<and> is_hexdigit a \<and> is_hexdigit b"
| "pct_at _ \<longleftrightarrow> False"

function take_while_class :: "(char \<Rightarrow> bool) \<Rightarrow> string \<Rightarrow> string" where
  "take_while_class cls t =
     (if pct_at t then take_while_class cls (drop 3 t)
      else case t of [] \<Rightarrow> [] | c # r \<Rightarrow> if cls c then take_while_class cls r else t)"
  by pat_completeness auto
termination
proof (relation "measure (\<lambda>(cls, t). length t)")
  show "((cls, drop 3 t), (cls, t)) \<in> measure (\<lambda>(cls, t). length t)" if "pct_at t"
    for cls :: "char \<Rightarrow> bool" and t
    using that by (cases t rule: pct_at.cases) auto
qed auto

declare take_while_class.simps [simp del]

text \<open>What a scanner consumed of a text, given what it left.\<close>

definition consumed :: "string \<Rightarrow> string \<Rightarrow> string" where
  "consumed t rest = take (length t - length rest) t"

text \<open>The end of the bracketed address at the start of the text.\<close>

definition ip_literal_end :: "string \<Rightarrow> string option" where
  "ip_literal_end t =
     (case t of [] \<Rightarrow> None
      | c # r \<Rightarrow>
          if c \<noteq> CHR ''['' \<or> CHR '']'' \<notin> set r then None
          else
            let inner = takeWhile (\<lambda>c. c \<noteq> CHR '']'') r;
                after = drop (Suc (length inner)) r;
                future = (case strip_prefix ''v'' inner of Some f \<Rightarrow> Some f | None \<Rightarrow> strip_prefix ''V'' inner)
            in case future of
                 Some f \<Rightarrow>
                   (case split_once (CHR ''.'') f of
                      None \<Rightarrow> None
                    | Some (hex, rest) \<Rightarrow>
                        if hex \<noteq> [] \<and> list_all is_hexdigit hex \<and> rest \<noteq> [] \<and>
                           list_all (\<lambda>c. is_unreserved_or_sub c \<or> c = CHR '':'') rest
                        then Some after else None)
               | None \<Rightarrow> if parse_ipv6 inner \<noteq> None \<and> CHR ''%'' \<notin> set inner then Some after else None)"

text \<open>\<^verbatim>\<open>parse_query_fragment_positions\<close>: the part before the query, the query and the fragment.\<close>

definition split_tail :: "string \<Rightarrow> (string \<times> string option \<times> string option) option" where
  "split_tail t =
     (let hier = takeWhile (\<lambda>c. c \<noteq> CHR ''?'' \<and> c \<noteq> CHR ''#'') t;
          rest = drop (length hier) t;
          query = (case rest of c # r \<Rightarrow> if c = CHR ''?'' then Some (takeWhile (\<lambda>c. c \<noteq> CHR ''#'') r) else None
                   | [] \<Rightarrow> None);
          rest' = (case query of None \<Rightarrow> rest | Some q \<Rightarrow> drop (Suc (length q)) rest)
      in case rest' of
           c # fragment \<Rightarrow>
             if c = CHR ''#'' then
               (if take_while_class fragment_char fragment = [] then Some (hier, query, Some fragment) else None)
             else None
         | [] \<Rightarrow> Some (hier, query, None))"

record authority =
  auth_userinfo :: "string option"
  auth_host :: string
  auth_port :: "nat option"
  auth_rest :: string

definition parse_authority :: "string \<Rightarrow> authority option" where
  "parse_authority t =
     (let ui_rest = take_while_class userinfo_char t;
          (userinfo, t1) = (case ui_rest of c # r \<Rightarrow> if c = CHR ''@'' then (Some (consumed t ui_rest), r) else (None, t)
                            | [] \<Rightarrow> (None, t));
          host_rest = (case ip_literal_end t1 of Some r \<Rightarrow> r | None \<Rightarrow> take_while_class is_unreserved_or_sub t1);
          host = consumed t1 host_rest;
          (port, rest) = (case host_rest of
              c # r \<Rightarrow>
                if c = CHR '':'' then
                  let digits = takeWhile is_digit r
                  in (if digits = [] then None else Some (min (digits_value 10 digits) u64_max), drop (length digits) r)
                else (None, host_rest)
            | [] \<Rightarrow> (None, host_rest))
      in if rest \<noteq> [] \<and> hd rest \<noteq> CHR ''/'' then None
         else Some \<lparr>auth_userinfo = userinfo, auth_host = host, auth_port = port, auth_rest = rest\<rparr>)"

subsection \<open>Absolute and relative references\<close>

definition empty_uri :: uri where
  "empty_uri = \<lparr>uri_scheme = None, uri_userinfo = None, uri_host = None, uri_port = None, uri_path = None,
     uri_opaque = None, uri_query = None, uri_fragment = None\<rparr>"

definition scheme_char :: "char \<Rightarrow> bool" where
  "scheme_char c \<longleftrightarrow> is_alphanumeric c \<or> c \<in> {CHR ''+'', CHR ''-'', CHR ''.''}"

definition split_absolute :: "string \<Rightarrow> uri option" where
  "split_absolute t =
     (case t of [] \<Rightarrow> None
      | c # r \<Rightarrow>
          if \<not> is_alphabetic c then None
          else
            let scheme = c # takeWhile scheme_char r; after = drop (length scheme) t in
            if after = [] \<or> hd after \<noteq> CHR '':'' then None
            else case split_tail (tl after) of
                None \<Rightarrow> None
              | Some (hier, query, fragment) \<Rightarrow>
                  let u = empty_uri\<lparr>uri_scheme := Some scheme, uri_query := query, uri_fragment := fragment\<rparr> in
                  if prefix ''//'' hier then
                    (case parse_authority (drop 2 hier) of
                       None \<Rightarrow> None
                     | Some a \<Rightarrow>
                         if auth_rest a \<noteq> [] \<and>
                            (hd (auth_rest a) \<noteq> CHR ''/'' \<or> take_while_class seg_char (auth_rest a) \<noteq> [])
                         then None
                         else Some (u\<lparr>uri_userinfo := auth_userinfo a, uri_host := Some (auth_host a),
                                uri_port := auth_port a, uri_path := Some (auth_rest a)\<rparr>))
                  else if prefix ''/'' hier then
                    (if take_while_class seg_char hier \<noteq> [] then None else Some (u\<lparr>uri_path := Some hier\<rparr>))
                  else if hier \<noteq> [] then
                    (if take_while_class seg_char hier \<noteq> [] then None
                     else Some (u\<lparr>uri_query := None, uri_opaque := Some (hier @ opt_text ''?'' query)\<rparr>))
                  else Some (u\<lparr>uri_path := Some []\<rparr>))"

definition split_relative :: "string \<Rightarrow> uri option" where
  "split_relative t =
     (case split_tail t of
        None \<Rightarrow> None
      | Some (hier, query, fragment) \<Rightarrow>
          let valid =
            (if prefix ''//'' hier then
               (case parse_authority (drop 2 hier) of
                  Some a \<Rightarrow> take_while_class seg_char (auth_rest a) = []
                | None \<Rightarrow> False)
             else if prefix ''/'' hier \<or> hier = [] then take_while_class seg_char hier = []
             else
               let first_rest = take_while_class seg_nc_char hier in
               length first_rest < length hier \<and>
               (first_rest = [] \<or> hd first_rest = CHR ''/'' \<and> take_while_class seg_char first_rest = []))
          in if valid then Some (empty_uri\<lparr>uri_path := Some hier, uri_query := query, uri_fragment := fragment\<rparr>)
             else None)"

subsection \<open>The query and the scheme's own checks\<close>

definition hex_upper :: "nat \<Rightarrow> char" where
  "hex_upper d = (if d < 10 then char_of (48 + d) else char_of (55 + d))"

fun bad_escape :: "string \<Rightarrow> bool" where
  "bad_escape (p # a # b # r) \<longleftrightarrow> p = CHR ''%'' \<and> \<not> is_hexdigit a \<and> \<not> is_hexdigit b \<or> bad_escape (a # b # r)"
| "bad_escape _ \<longleftrightarrow> False"

definition query_char :: "char \<Rightarrow> bool" where
  "query_char c \<longleftrightarrow> c = CHR ''!'' \<or> char_in (CHR ''$'') (CHR ''&'') c \<or> char_in (CHR ''('') (CHR '';'') c \<or>
     c = CHR ''='' \<or> char_in (CHR ''?'') (CHR ''_'') c \<or> char_in (CHR ''a'') (CHR ''~'') c"

fun escape_from :: "string \<Rightarrow> string" where
  "escape_from [] = []"
| "escape_from (c # r) =
     (if pct_at (c # r) \<or> query_char c then [c]
      else [CHR ''%'', hex_upper (of_char c div 16), hex_upper (of_char c mod 16)]) @ escape_from r"

definition escape_query :: "string \<Rightarrow> uri_error + string" where
  "escape_query q =
     (let cleaned = filter (\<lambda>c. c \<notin> {CHR 0x09, CHR 0x0D, CHR 0x0A}) q
      in if bad_escape cleaned then Inl InvalidUri else Inr (escape_from cleaned))"

definition special :: "char \<Rightarrow> bool" where
  "special c \<longleftrightarrow> c \<in> {CHR ''@'', CHR '','', CHR '';''}"

function mailto_to_valid :: "string \<Rightarrow> bool" where
  "mailto_to_valid t \<longleftrightarrow>
     (if t = [] then True
      else case dropWhile (\<lambda>c. \<not> special c) t of
          [] \<Rightarrow> False
        | c # r \<Rightarrow>
            if special (hd t) \<or> c \<noteq> CHR ''@'' then False
            else if r = [] \<or> special (hd r) then False
            else case dropWhile (\<lambda>c. \<not> special c) r of
                [] \<Rightarrow> True
              | d # r' \<Rightarrow> d \<noteq> CHR ''@'' \<and> mailto_to_valid r')"
  by pat_completeness auto
termination
proof (relation "measure length")
  fix t c r d r'
  assume "dropWhile (\<lambda>c. \<not> special c) t = c # r" "dropWhile (\<lambda>c. \<not> special c) r = d # r'"
  then have "length (c # r) \<le> length t" "length (d # r') \<le> length r"
    by (metis length_dropWhile_le)+
  then show "(r', t) \<in> measure length" by simp
qed simp

declare mailto_to_valid.simps [simp del]

definition check_scheme_class :: "uri \<Rightarrow> uri_error + unit" where
  "check_scheme_class u =
     (if upper_scheme u = Some ''MAILTO'' then
        (case (case uri_opaque u of Some t \<Rightarrow> Some t | None \<Rightarrow> map_option (\<lambda>q. ''?'' @ q) (uri_query u)) of
           None \<Rightarrow> Inl InvalidComponent
         | Some t \<Rightarrow>
             if mailto_to_valid (case split_once (CHR ''?'') t of Some (to, _) \<Rightarrow> to | None \<Rightarrow> t)
             then Inr () else Inl InvalidComponent)
      else if upper_scheme u \<in> {Some ''LDAP'', Some ''LDAPS''} then
        (if uri_fragment u \<noteq> None \<or> uri_path u = None then Inl InvalidUri else Inr ())
      else if upper_scheme u = Some ''FTP'' then
        (if uri_path u = None then Inl InvalidUri else Inr ())
      else Inr ())"

definition parse_uri :: "string \<Rightarrow> uri_error + uri" where
  "parse_uri t =
     (if \<not> list_all is_ascii t then Inl InvalidUri
      else case (case split_absolute t of Some u \<Rightarrow> Some u | None \<Rightarrow> split_relative t) of
          None \<Rightarrow> Inl InvalidUri
        | Some u \<Rightarrow>
            case (case uri_query u of None \<Rightarrow> Inr u
                  | Some q \<Rightarrow> map_sum id (\<lambda>q'. u\<lparr>uri_query := Some q'\<rparr>) (escape_query q)) of
              Inl e \<Rightarrow> Inl e
            | Inr u' \<Rightarrow>
                let u'' = u'\<lparr>uri_port := (case uri_port u' of Some p \<Rightarrow> Some p | None \<Rightarrow> default_port u')\<rparr>
                in case check_scheme_class u'' of Inl e \<Rightarrow> Inl e | Inr _ \<Rightarrow> Inr u'')"

end
