(* ===== verification/HttpClient.thy ===== *)
theory HttpClient
  imports NetGuard Uri
begin

section \<open>Outgoing HTTP exchanges\<close>

text \<open>
  \<^verbatim>\<open>crates/app/src/net.rs\<close> and \<^verbatim>\<open>crates/app/src/net/http.rs\<close>: where a request connects, what it
  sends, and how much of a body it reads.  What lies outside is the \<open>world\<close>: what the resolver
  answers, whether a connection is accepted and what the peer sends back, each depending on
  everything that happened before (so a name may resolve differently the second time).  A trace
  records the look-ups, the connections and the requests.  TLS, HTTP framing and timers are part of
  the peer's answer; the decompression library is a parameter.
\<close>

datatype io_kind = ConnectionReset | ConnectionAborted | BrokenPipe | TimedOut | UnexpectedEof | OtherIo string

datatype http_error =
  OpenTimeout | ReadTimeout | WriteTimeout | HttpUnresolvable string | Tls string | Io io_kind
| ConnectionClosed | Http string | Inflate string

type_synonym body_bytes = "8 word list"

record endpoint =
  ep_https :: bool
  ep_host :: string
  ep_port :: nat
  ep_pinned_ip :: "ip_addr option"

record http_request =
  req_method :: string
  req_target :: string
  req_headers :: "(string \<times> string) list"
  req_body :: body_bytes
  req_decode_content :: bool

text \<open>A frame of a body that is read: an error (a timeout, a broken connection), a chunk of data, or
  a frame that holds no data.\<close>

type_synonym frame = "http_error + body_bytes option"

record response =
  resp_status :: nat
  resp_headers :: "(string \<times> string) list"
  resp_frames :: "frame list"
  resp_decode_content :: bool

subsection \<open>Building a request\<close>

definition with_port :: "bool \<Rightarrow> nat \<Rightarrow> string \<Rightarrow> string" where
  "with_port https port host =
     (if port = (if https then 443 else 80) then host else host @ '':'' @ string_of_nat port)"

definition endpoint_host_header :: "endpoint \<Rightarrow> string" where
  "endpoint_host_header ep = with_port (ep_https ep) (ep_port ep)
     (if CHR '':'' \<in> set (ep_host ep) \<and> \<not> prefix ''['' (ep_host ep) then ''['' @ ep_host ep @ '']'' else ep_host ep)"

definition unbracketed :: "string \<Rightarrow> string" where
  "unbracketed host =
     (case Option.bind (strip_prefix ''['' host) (strip_suffix '']'') of Some h \<Rightarrow> h | None \<Rightarrow> host)"

definition has_header :: "string \<Rightarrow> http_request \<Rightarrow> bool" where
  "has_header name req = list_ex (\<lambda>(n, _). same_ignoring_case n name) (req_headers req)"

definition default_header :: "string \<Rightarrow> string \<Rightarrow> http_request \<Rightarrow> http_request" where
  "default_header name v req =
     (if has_header name req then req else req\<lparr>req_headers := req_headers req @ [(name, v)]\<rparr>)"

definition accept_encoding :: string where
  "accept_encoding = ''gzip;q=1.0,deflate;q=0.6,identity;q=0.3''"

definition net_http :: "string \<Rightarrow> string \<Rightarrow> string option \<Rightarrow> (string \<times> string) list \<Rightarrow> http_request" where
  "net_http verb target host_name hs =
     (let r0 = \<lparr>req_method = verb, req_target = target, req_headers = hs, req_body = [], req_decode_content = False\<rparr>;
          r1 = (if \<not> has_header ''accept-encoding'' r0 \<and> \<not> has_header ''range'' r0
                then r0\<lparr>req_decode_content := (verb \<noteq> ''HEAD''),
                        req_headers := hs @ [(''Accept-Encoding'', accept_encoding)]\<rparr>
                else r0);
          r2 = default_header ''User-Agent'' ''Ruby'' (default_header ''Accept'' ''*/*'' r1)
      in case host_name of None \<Rightarrow> r2 | Some h \<Rightarrow> default_header ''Host'' h r2)"

definition transport :: "bool \<Rightarrow> endpoint \<Rightarrow> http_request \<Rightarrow> http_request" where
  "transport unstarted ep req =
     default_header ''Host'' (endpoint_host_header ep)
       (if unstarted then default_header ''Connection'' ''close'' req else req)"

definition request_uri :: "uri \<Rightarrow> string" where
  "request_uri u =
     (let target = opt_text [] (uri_path u) @ opt_text ''?'' (uri_query u)
      in if prefix ''/'' target then target else ''/'' @ target)"

subsection \<open>Connecting\<close>

datatype net_event = LookedUp string | Dialed ip_addr nat | Sent endpoint http_request

type_synonym trace = "net_event list"

datatype dialed = Connected | Refused io_kind | Expired

record world =
  w_lookup :: "trace \<Rightarrow> string \<Rightarrow> string + ip_addr list"
  w_dial :: "trace \<Rightarrow> ip_addr \<Rightarrow> nat \<Rightarrow> dialed"
  w_serve :: "trace \<Rightarrow> endpoint \<Rightarrow> http_request \<Rightarrow> http_error + response"

fun dial_each :: "world \<Rightarrow> endpoint \<Rightarrow> io_kind option \<Rightarrow> ip_addr list \<Rightarrow> trace \<Rightarrow> (http_error + unit) \<times> trace" where
  "dial_each w ep last_error [] tr =
     (Inl (case last_error of Some e \<Rightarrow> Io e | None \<Rightarrow> HttpUnresolvable (ep_host ep)), tr)"
| "dial_each w ep last_error (ip # ips) tr =
     (let tr' = tr @ [Dialed ip (ep_port ep)] in
      case w_dial w tr ip (ep_port ep) of
        Connected \<Rightarrow> (Inr (), tr')
      | Refused e \<Rightarrow> dial_each w ep (Some e) ips tr'
      | Expired \<Rightarrow> (Inl OpenTimeout, tr'))"

definition connect_resolving :: "world \<Rightarrow> endpoint \<Rightarrow> trace \<Rightarrow> (http_error + unit) \<times> trace" where
  "connect_resolving w ep tr =
     (let bare = unbracketed (ep_host ep) in
      case parse_ip bare of
        Some ip \<Rightarrow> dial_each w ep None [ip] tr
      | None \<Rightarrow>
          (case w_lookup w tr bare of
             Inl e \<Rightarrow> (Inl (HttpUnresolvable e), tr @ [LookedUp bare])
           | Inr ips \<Rightarrow> dial_each w ep None ips (tr @ [LookedUp bare])))"

definition net_connect :: "world \<Rightarrow> endpoint \<Rightarrow> trace \<Rightarrow> (http_error + unit) \<times> trace" where
  "net_connect w ep tr =
     (case ep_pinned_ip ep of
        Some ip \<Rightarrow>
          (case w_dial w tr ip (ep_port ep) of
             Connected \<Rightarrow> Inr () | Refused e \<Rightarrow> Inl (Io e) | Expired \<Rightarrow> Inl OpenTimeout,
           tr @ [Dialed ip (ep_port ep)])
      | None \<Rightarrow> connect_resolving w ep tr)"

definition exchange :: "world \<Rightarrow> endpoint \<Rightarrow> http_request \<Rightarrow> trace \<Rightarrow> (http_error + response) \<times> trace" where
  "exchange w ep req tr =
     (case net_connect w ep tr of
        (Inl e, tr') \<Rightarrow> (Inl e, tr')
      | (Inr _, tr') \<Rightarrow>
          (map_sum id (\<lambda>r. r\<lparr>resp_decode_content := req_decode_content req\<rparr>) (w_serve w tr' ep req),
           tr' @ [Sent ep req]))"

subsection \<open>Reading a response\<close>

definition resp_values :: "string \<Rightarrow> response \<Rightarrow> string list" where
  "resp_values name r = map snd (filter (\<lambda>(n, _). n = name) (resp_headers r))"

definition resp_header :: "string \<Rightarrow> response \<Rightarrow> string option" where
  "resp_header name r = (case resp_values name r of [] \<Rightarrow> None | vs \<Rightarrow> Some (join_with '', '' vs))"

definition resp_content_type :: "response \<Rightarrow> string option" where
  "resp_content_type r = map_option (\<lambda>header.
     case split_on (CHR ''/'') (hd (split_on (CHR '';'') header)) of
       main # sub # _ \<Rightarrow> ruby_strip main @ ''/'' @ ruby_strip sub
     | main # _ \<Rightarrow> ruby_strip main
     | [] \<Rightarrow> []) (resp_header ''content-type'' r)"

definition resp_content_length :: "response \<Rightarrow> http_error + nat option" where
  "resp_content_length r =
     (case resp_header ''content-length'' r of
        None \<Rightarrow> Inr None
      | Some header \<Rightarrow>
          let digits = takeWhile is_digit (dropWhile (\<lambda>c. \<not> is_digit c) header) in
          if digits = [] then Inl (Http ''wrong Content-Length format'')
          else Inr (Some (min (digits_value 10 digits) u64_max)))"

text \<open>The write side of a decompressor: how many bytes a write takes (or its error), the output it
  holds, taking that output out, and what remains at the end.\<close>

record 'd decoder_ops =
  dec_gzip :: 'd
  dec_zlib :: 'd
  dec_write :: "'d \<Rightarrow> body_bytes \<Rightarrow> string + nat \<times> 'd"
  dec_output :: "'d \<Rightarrow> body_bytes"
  dec_take :: "'d \<Rightarrow> 'd"
  dec_finish :: "'d \<Rightarrow> string + body_bytes"

record 'd inflater =
  inf_decoder :: "'d option"
  inf_pending :: body_bytes

function write_all :: "'d decoder_ops \<Rightarrow> nat \<Rightarrow> 'd \<Rightarrow> body_bytes \<Rightarrow> http_error + 'd option" where
  "write_all ops room d bytes =
     (if bytes = [] then Inr (Some d)
      else case dec_write ops d bytes of
          Inl e \<Rightarrow> Inl (Inflate e)
        | Inr (written, d') \<Rightarrow>
            if written = 0 then Inl (Inflate ''failed to write whole buffer'')
            else if room < length (dec_output ops d') then Inr None
            else write_all ops room d' (drop written bytes))"
  by pat_completeness auto
termination by (relation "measure (\<lambda>(ops, room, d, bytes). length bytes)") auto

declare write_all.simps [simp del]

definition inf_write :: "'d decoder_ops \<Rightarrow> nat \<Rightarrow> 'd \<Rightarrow> body_bytes \<Rightarrow> http_error + ('d \<times> body_bytes) option" where
  "inf_write ops room d bytes =
     map_sum id (map_option (\<lambda>d'. (dec_take ops d', dec_output ops d'))) (write_all ops room d bytes)"

text \<open>\<^verbatim>\<open>Inflater::inflate\<close>: the inflater after the chunk and the chunk inflated, or nothing once the
  output passes \<open>room\<close>.\<close>

definition inf_inflate :: "'d decoder_ops \<Rightarrow> nat \<Rightarrow> 'd inflater \<Rightarrow> body_bytes \<Rightarrow> http_error + ('d inflater \<times> body_bytes) option" where
  "inf_inflate ops room i chunk =
     (case inf_decoder i of
        Some d \<Rightarrow>
          map_sum id (map_option (\<lambda>(d', out). (i\<lparr>inf_decoder := Some d'\<rparr>, out))) (inf_write ops room d chunk)
      | None \<Rightarrow>
          let pending = inf_pending i @ chunk in
          if length pending < 2 then Inr (Some (i\<lparr>inf_pending := pending\<rparr>, []))
          else
            let d = (if take 2 pending = [0x1f, 0x8b] then dec_gzip ops else dec_zlib ops) in
            map_sum id (map_option (\<lambda>(d', out). (\<lparr>inf_decoder = Some d', inf_pending = []\<rparr>, out)))
              (inf_write ops room d pending))"

definition usize_max :: nat where "usize_max = 2 ^ 64 - 1"

text \<open>A vector never holds more than \<open>usize_max\<close> bytes, so the write at the end always completes.\<close>

definition inf_finish :: "'d decoder_ops \<Rightarrow> 'd inflater \<Rightarrow> http_error + body_bytes" where
  "inf_finish ops i =
     (case inf_decoder i of
        Some d \<Rightarrow> map_sum Inflate id (dec_finish ops d)
      | None \<Rightarrow>
          if inf_pending i = [] then Inr []
          else case write_all ops usize_max (dec_zlib ops) (inf_pending i) of
              Inl e \<Rightarrow> Inl e
            | Inr None \<Rightarrow> Inr []
            | Inr (Some d) \<Rightarrow> map_sum Inflate id (dec_finish ops (dec_take ops d)))"

definition resp_inflater :: "response \<Rightarrow> 'd inflater option" where
  "resp_inflater r =
     (if \<not> resp_decode_content r \<or> resp_values ''content-range'' r \<noteq> [] then None
      else case resp_header ''content-encoding'' r of
          None \<Rightarrow> None
        | Some e \<Rightarrow> if map to_lower e \<in> {''gzip'', ''x-gzip'', ''deflate''}
            then Some \<lparr>inf_decoder = None, inf_pending = []\<rparr> else None)"

datatype http_body = Complete body_bytes | TooLarge

fun read_frames :: "'d decoder_ops \<Rightarrow> nat \<Rightarrow> 'd inflater option \<Rightarrow> body_bytes \<Rightarrow> frame list \<Rightarrow> http_error + http_body" where
  "read_frames ops limit inflater body [] =
     (case inflater of
        None \<Rightarrow> Inr (Complete body)
      | Some i \<Rightarrow>
          (case inf_finish ops i of
             Inl e \<Rightarrow> Inl e
           | Inr rest \<Rightarrow> if limit - length body < length rest then Inr TooLarge else Inr (Complete (body @ rest))))"
| "read_frames ops limit inflater body (Inl e # frames) = Inl e"
| "read_frames ops limit inflater body (Inr None # frames) = read_frames ops limit inflater body frames"
| "read_frames ops limit inflater body (Inr (Some chunk) # frames) =
     (let room = limit - length body in
      case (case inflater of
              None \<Rightarrow> Inr (Some (None, chunk))
            | Some i \<Rightarrow> map_sum id (map_option (\<lambda>(i', out). (Some i', out))) (inf_inflate ops room i chunk)) of
        Inl e \<Rightarrow> Inl e
      | Inr None \<Rightarrow> Inr TooLarge
      | Inr (Some (inflater', out)) \<Rightarrow>
          if room < length out then Inr TooLarge
          else read_frames ops limit inflater' (body @ out) frames)"

definition read_body :: "'d decoder_ops \<Rightarrow> nat \<Rightarrow> response \<Rightarrow> http_error + http_body" where
  "read_body ops limit r = read_frames ops limit (resp_inflater r) [] (resp_frames r)"

subsection \<open>How much of a body is held\<close>

text \<open>The documented behaviour of the decompressors that the reader relies on: a new one holds no
  output, and taking the output leaves none.\<close>

definition decoder_laws :: "'d decoder_ops \<Rightarrow> bool" where
  "decoder_laws ops \<longleftrightarrow> dec_output ops (dec_gzip ops) = [] \<and> dec_output ops (dec_zlib ops) = [] \<and>
     (\<forall>d. dec_output ops (dec_take ops d) = [])"

text \<open>A decompressor that refuses every write while it holds more than \<open>bound\<close> bytes.\<close>

definition bounded_decoder :: "nat \<Rightarrow> 'd decoder_ops \<Rightarrow> 'd decoder_ops" where
  "bounded_decoder bound ops = ops\<lparr>dec_write := \<lambda>d bytes.
     if bound < length (dec_output ops d) then Inl ''too much output'' else dec_write ops d bytes\<rparr>"

lemma bounded_decoder_simps [simp]:
  "dec_gzip (bounded_decoder n ops) = dec_gzip ops" "dec_zlib (bounded_decoder n ops) = dec_zlib ops"
  "dec_output (bounded_decoder n ops) = dec_output ops" "dec_take (bounded_decoder n ops) = dec_take ops"
  "dec_finish (bounded_decoder n ops) = dec_finish ops"
  by (simp_all add: bounded_decoder_def)

lemma bounded_decoder_write:
  "length (dec_output ops d) \<le> n \<Longrightarrow> dec_write (bounded_decoder n ops) d bytes = dec_write ops d bytes"
  by (simp add: bounded_decoder_def)

lemma write_all_bounded:
  "length (dec_output ops d) \<le> n \<Longrightarrow> room \<le> n \<Longrightarrow>
     write_all (bounded_decoder n ops) room d bytes = write_all ops room d bytes"
proof (induction ops room d bytes rule: write_all.induct)
  case (1 ops room d bytes)
  have "write_all (bounded_decoder n ops) room d' (drop written bytes) = write_all ops room d' (drop written bytes)"
    if "bytes \<noteq> []" "dec_write ops d bytes = Inr (written, d')" "written \<noteq> 0"
      "\<not> room < length (dec_output ops d')" for written d'
    using 1 that by auto
  then show ?case using 1(2)
    by (subst (1 2) write_all.simps)
      (auto simp: bounded_decoder_write split: sum.splits prod.splits)
qed

lemma write_all_single:
  assumes "dec_output ops d = []" and "length bytes < 2"
  shows "write_all (bounded_decoder n ops) room d bytes = write_all ops room d bytes"
proof (cases "bytes = []")
  case True
  then show ?thesis by (simp add: write_all.simps)
next
  case False
  have "drop written bytes = []" if "written \<noteq> 0" for written using that assms(2) by simp
  then show ?thesis using False assms(1)
    by (subst (1 2) write_all.simps)
      (auto simp: bounded_decoder_write write_all.simps[of _ _ _ "[]"] split: sum.splits prod.splits)
qed

definition inflater_ok :: "'d decoder_ops \<Rightarrow> 'd inflater \<Rightarrow> bool" where
  "inflater_ok ops i = (case inf_decoder i of None \<Rightarrow> length (inf_pending i) < 2 | Some d \<Rightarrow> dec_output ops d = [])"

lemma inf_inflate_bounded:
  assumes "decoder_laws ops" and "inflater_ok ops i" and "room \<le> n"
  shows "inf_inflate (bounded_decoder n ops) room i chunk = inf_inflate ops room i chunk"
  using assms
  by (auto simp: inf_inflate_def inf_write_def inflater_ok_def decoder_laws_def write_all_bounded Let_def split: option.splits)

lemma inf_inflate_ok:
  assumes "decoder_laws ops" and "inflater_ok ops i" and "inf_inflate ops room i chunk = Inr (Some (i', out))"
  shows "inflater_ok ops i'"
  using assms
  by (auto simp: inf_inflate_def inf_write_def inflater_ok_def decoder_laws_def Let_def map_sum_def
      split: option.splits sum.splits if_splits)

lemma inf_finish_bounded:
  "decoder_laws ops \<Longrightarrow> inflater_ok ops i \<Longrightarrow> inf_finish (bounded_decoder n ops) i = inf_finish ops i"
  by (auto simp: inf_finish_def inflater_ok_def decoder_laws_def write_all_single split: option.splits sum.splits)

lemma read_frames_bounded:
  "(case inflater of None \<Rightarrow> True | Some i \<Rightarrow> inflater_ok ops i) \<Longrightarrow> decoder_laws ops \<Longrightarrow>
    read_frames (bounded_decoder limit ops) limit inflater body frames = read_frames ops limit inflater body frames"
proof (induction ops limit inflater body frames rule: read_frames.induct)
  case (4 ops limit inflater body chunk frames)
  show ?case
  proof (cases inflater)
    case None
    then show ?thesis using 4 by simp
  next
    case (Some i)
    then have ok: "inflater_ok ops i" using 4 by simp
    have "inf_inflate (bounded_decoder limit ops) (limit - length body) i chunk = inf_inflate ops (limit - length body) i chunk"
      using ok 4(3) by (simp add: inf_inflate_bounded)
    then show ?thesis using Some 4(1,3) inf_inflate_ok[OF 4(3) ok]
      by (cases "inf_inflate ops (limit - length body) i chunk") (auto split: option.splits)
  qed
qed (auto simp: inf_finish_bounded split: option.splits)

lemma read_frames_length:
  "read_frames ops limit inflater body frames = Inr (Complete b) \<Longrightarrow> length body \<le> limit \<Longrightarrow> length b \<le> limit"
  by (induction ops limit inflater body frames rule: read_frames.induct)
    (auto simp: Let_def split: option.splits sum.splits if_splits)

lemma read_frames_plain:
  "length body \<le> limit \<Longrightarrow> read_frames ops limit None body (map (Inr \<circ> Some) cs) =
     Inr (if length body + length (concat cs) \<le> limit then Complete (body @ concat cs) else TooLarge)"
  by (induction cs arbitrary: body) auto

text \<open> However far a compressed body expands, the reader never lets the decompressor continue
  while it holds more than the limit, and a body it returns is within the limit; a body that is not
  compressed is returned whole exactly when it is within the limit.\<close>

theorem read_body_bounded:
  assumes "decoder_laws ops"
  shows "read_body (bounded_decoder limit ops) limit r = read_body ops limit r \<and>
    (case read_body ops limit r of Inr (Complete b) \<Rightarrow> length b \<le> limit | _ \<Rightarrow> True) \<and>
    read_body ops limit (r\<lparr>resp_decode_content := False, resp_frames := map (Inr \<circ> Some) cs\<rparr>) =
      Inr (if length (concat cs) \<le> limit then Complete (concat cs) else TooLarge)"
proof (intro conjI)
  have "case resp_inflater r of None \<Rightarrow> True | Some i \<Rightarrow> inflater_ok ops i"
    by (auto simp: resp_inflater_def inflater_ok_def split: option.splits)
  then show "read_body (bounded_decoder limit ops) limit r = read_body ops limit r"
    unfolding read_body_def using assms by (rule read_frames_bounded)
  show "case read_body ops limit r of Inr (Complete b) \<Rightarrow> length b \<le> limit | _ \<Rightarrow> True"
    by (auto simp: read_body_def split: sum.splits http_body.splits dest: read_frames_length)
  show "read_body ops limit (r\<lparr>resp_decode_content := False, resp_frames := map (Inr \<circ> Some) cs\<rparr>) =
      Inr (if length (concat cs) \<le> limit then Complete (concat cs) else TooLarge)"
    by (simp add: read_body_def resp_inflater_def read_frames_plain)
qed

text \<open>A decompressor that doubles every byte.\<close>

definition doubling_decoder :: "body_bytes decoder_ops" where
  "doubling_decoder = \<lparr>dec_gzip = [], dec_zlib = [], dec_write = \<lambda>d bytes. Inr (1, d @ [hd bytes, hd bytes]),
     dec_output = \<lambda>d. d, dec_take = \<lambda>d. [], dec_finish = \<lambda>d. Inr d\<rparr>"

theorem read_body_bounded_witness:
  "decoder_laws doubling_decoder \<and>
   read_body (bounded_decoder 4 doubling_decoder) 4 \<lparr>resp_status = 200, resp_headers = [(''content-encoding'', ''gzip'')],
     resp_frames = [Inr (Some [1, 2])], resp_decode_content = True\<rparr> = Inr (Complete [1, 1, 2, 2])"
proof -
  have laws: "decoder_laws doubling_decoder" by (simp add: decoder_laws_def doubling_decoder_def)
  let ?r = "\<lparr>resp_status = 200, resp_headers = [(''content-encoding'', ''gzip'')],
     resp_frames = [Inr (Some [1, 2])], resp_decode_content = True\<rparr>"
  have "read_body doubling_decoder 4 ?r = Inr (Complete [1, 1, 2, 2])" by code_simp
  with laws read_body_bounded[OF laws, of 4 ?r] show ?thesis by (metis (no_types))
qed

end
