(* ===== verification/LinkFetch.thy ===== *)
theory LinkFetch
  imports HttpClient
begin

section \<open>Fetching what a link names\<close>

text \<open>
  \<^verbatim>\<open>crates/app/src/net/redirect.rs\<close>, \<^verbatim>\<open>crates/app/src/integrations/opengraph/fetch.rs\<close>,
  \<^verbatim>\<open>location.rs\<close> beside it and \<^verbatim>\<open>integrations/image_proxy.rs\<close>: requests to addresses that users
  write, with every redirect checked again before it is followed.  The regular expression that
  recognises files and media is a parameter.
\<close>

subsection \<open>Redirect targets\<close>

definition position_of :: "string \<Rightarrow> string list \<Rightarrow> nat option" where
  "position_of x xs = (if x \<in> set xs then Some (length (takeWhile (\<lambda>y. y \<noteq> x) xs)) else None)"

text \<open>The loop that removes \<^verbatim>\<open>..\<close> from the base, one at a time with the segment before it (with the
  last segment, when it is the first).\<close>

function drop_parents :: "string list \<Rightarrow> string list" where
  "drop_parents base =
     (case position_of ''..'' base of
        None \<Rightarrow> base
      | Some i \<Rightarrow>
          let start = (if i = 0 then length base - 1 else i - 1)
          in drop_parents (take start base @ drop (min (start + 2) (length base)) base))"
  by pat_completeness auto
termination
proof (relation "measure length")
  fix base :: "string list" and i start
  assume i: "position_of ''..'' base = Some i" and start: "start = (if i = 0 then length base - 1 else i - 1)"
  then have "base \<noteq> []" by (auto simp: position_of_def split: if_splits)
  moreover have "i \<le> length base" using i by (auto simp: position_of_def length_takeWhile_le split: if_splits)
  ultimately have "start < length base" using start by (cases base) auto
  then show "(take start base @ drop (min (start + 2) (length base)) base, base) \<in> measure length" by auto
qed simp

declare drop_parents.simps [simp del]

fun normalize :: "string list \<Rightarrow> string list \<Rightarrow> string list" where
  "normalize done_segments [] = done_segments"
| "normalize done_segments (s # rest) =
     (if s = ''..'' \<and> done_segments \<noteq> [] \<and> List.last done_segments \<noteq> ''..''
      then normalize (butlast done_segments) rest
      else normalize (done_segments @ [s]) rest)"

text \<open>The loop over the normalized segments: the base, and whether a trailer is still needed.\<close>

fun attach :: "string list \<Rightarrow> bool \<Rightarrow> string list \<Rightarrow> string list \<times> bool" where
  "attach base trailer [] = (base, trailer)"
| "attach base trailer (s # rest) =
     (if s = ''..'' then attach (if 1 < length base then butlast base else base) trailer rest
      else (base @ s # rest, False))"

definition merge_path :: "string \<Rightarrow> string \<Rightarrow> string" where
  "merge_path base_text relative_text =
     (let base0 = (if base_text = [] then [] else split_on (CHR ''/'') base_text);
          relative0 = (if relative_text = [] then [] else split_on (CHR ''/'') relative_text);
          base1 = (if base0 \<noteq> [] \<and> List.last base0 = ''..'' then base0 @ [[]] else base0);
          base2 = drop_parents base1;
          (base3, relative1) = (if relative0 \<noteq> [] \<and> hd relative0 = [] then ([], tl relative0) else (base2, relative0));
          relative2 = (if relative1 \<noteq> [] \<and> List.last relative1 \<in> {''.'', ''..''} then relative1 @ [[]] else relative1);
          normalized = normalize [] (filter (\<lambda>s. s \<noteq> ''.'') relative2);
          trailer = (normalized \<noteq> []);
          base4 = (if base3 = [] then [[]] else if trailer then butlast base3 else base3);
          (base5, trailer') = attach base4 trailer normalized
      in join_with ''/'' (if trailer' then base5 @ [[]] else base5))"

definition redirect_resolve :: "uri \<Rightarrow> string option \<Rightarrow> uri option" where
  "redirect_resolve base location =
     (case location of None \<Rightarrow> None | Some t \<Rightarrow>
        if trim t = [] then None
        else case parse_uri t of Inl _ \<Rightarrow> None | Inr relative \<Rightarrow>
          let http = (\<lambda>u. if is_http u then Some u else None) in
          if uri_scheme relative \<noteq> None then http relative
          else if prefix ''//'' t then
            (case uri_scheme base of None \<Rightarrow> None | Some s \<Rightarrow>
               (case parse_uri (s @ '':'' @ t) of Inl _ \<Rightarrow> None | Inr u \<Rightarrow> http u))
          else
            let path = opt_text [] (uri_path relative) in
            if path = [] \<and> uri_query relative = None then
              http (if uri_fragment relative \<noteq> None then base\<lparr>uri_fragment := uri_fragment relative\<rparr> else base)
            else http (base\<lparr>uri_path := Some (merge_path (opt_text [] (uri_path base)) path),
                   uri_query := uri_query relative, uri_fragment := uri_fragment relative\<rparr>))"

subsection \<open>Requests\<close>

datatype fetch_error =
  TooManyRedirects | RedirectDenied | Deadline | FetchInvalidUri | Guard guard_error | FetchHttp http_error

record fetch_options =
  max_redirects :: nat
  deadline :: "duration option"

definition default_max_redirects :: nat where "default_max_redirects = 10"

definition max_body_size :: nat where "max_body_size = 5 * 1024 * 1024"

definition default_fetch_options :: fetch_options where
  "default_fetch_options = \<lparr>max_redirects = default_max_redirects, deadline = None\<rparr>"

definition allowed_document_content_type :: string where
  "allowed_document_content_type = ''text/html''"

definition host_header :: "string \<Rightarrow> nat \<Rightarrow> bool \<Rightarrow> string" where
  "host_header host port https = with_port https port (unbracketed host)"

fun io_retryable :: "io_kind \<Rightarrow> bool" where
  "io_retryable (OtherIo _) = False"
| "io_retryable _ = True"

fun retryable :: "http_error \<Rightarrow> bool" where
  "retryable ReadTimeout = True"
| "retryable WriteTimeout = True"
| "retryable ConnectionClosed = True"
| "retryable (Io kind) = io_retryable kind"
| "retryable _ = False"

text \<open>The guard at a moment of the world; it asks the resolver only for hosts that are not numeric.\<close>

definition resolve_at :: "world \<Rightarrow> string \<Rightarrow> trace \<Rightarrow> (guard_error + ip_addr) \<times> trace" where
  "resolve_at w host tr =
     (guard_resolve (\<lambda>h. case w_lookup w tr h of Inl _ \<Rightarrow> None | Inr ips \<Rightarrow> Some ips) host,
      if host = [] \<or> numeric_host host \<noteq> None then tr else tr @ [LookedUp host])"

definition send :: "world \<Rightarrow> uri \<Rightarrow> ip_addr \<Rightarrow> string \<Rightarrow> trace \<Rightarrow> (fetch_error + response) \<times> trace" where
  "send w url ip verb tr =
     (case uri_host url of
        None \<Rightarrow> (Inl FetchInvalidUri, tr)
      | Some host \<Rightarrow>
          if host = [] then (Inl FetchInvalidUri, tr)
          else
            let https = (case uri_scheme url of None \<Rightarrow> False | Some s \<Rightarrow> same_ignoring_case s ''https'') in
            case uri_port url of
              None \<Rightarrow> (Inl FetchInvalidUri, tr)
            | Some port \<Rightarrow>
                if 65535 < port then (Inl FetchInvalidUri, tr)
                else
                  let ep = \<lparr>ep_https = https, ep_host = host, ep_port = port, ep_pinned_ip = Some ip\<rparr>;
                      req = transport False ep
                        (net_http verb (request_uri url) (Some (host_header host port https)) [])
                  in map_prod (map_sum FetchHttp id) id (exchange w ep req tr))"

definition resolve_redirect :: "world \<Rightarrow> string option \<Rightarrow> uri \<Rightarrow> trace \<Rightarrow> (fetch_error + uri \<times> ip_addr) \<times> trace" where
  "resolve_redirect w location base tr =
     (case redirect_resolve base location of
        None \<Rightarrow> (Inl RedirectDenied, tr)
      | Some url \<Rightarrow>
          (case resolve_at w (opt_text [] (uri_host url)) tr of
             (Inl e, tr') \<Rightarrow> (Inl (Guard e), tr')
           | (Inr ip, tr') \<Rightarrow> (Inr (url, ip), tr')))"

definition send_retrying :: "world \<Rightarrow> uri \<Rightarrow> ip_addr \<Rightarrow> string \<Rightarrow> fetch_options \<Rightarrow> trace \<Rightarrow> (fetch_error + response) \<times> trace" where
  "send_retrying w url ip verb options tr =
     (case send w url ip verb tr of
        (Inl (FetchHttp e), tr') \<Rightarrow>
          if deadline options = None \<and> retryable e then send w url ip verb tr' else (Inl (FetchHttp e), tr')
      | other \<Rightarrow> other)"

text \<open>The loop of \<^verbatim>\<open>request\<close> with \<open>n\<close> requests left.\<close>

fun request_loop :: "world \<Rightarrow> string \<Rightarrow> fetch_options \<Rightarrow> nat \<Rightarrow> uri \<Rightarrow> ip_addr \<Rightarrow> trace \<Rightarrow> (fetch_error + response) \<times> trace" where
  "request_loop w verb options 0 url ip tr = (Inl TooManyRedirects, tr)"
| "request_loop w verb options (Suc n) url ip tr =
     (case send_retrying w url ip verb options tr of
        (Inl e, tr') \<Rightarrow> (Inl e, tr')
      | (Inr r, tr') \<Rightarrow>
          if 300 \<le> resp_status r \<and> resp_status r < 400 then
            (case resolve_redirect w (resp_header ''location'' r) url tr' of
               (Inl e, tr'') \<Rightarrow> (Inl e, tr'')
             | (Inr (url', ip'), tr'') \<Rightarrow> request_loop w verb options n url' ip' tr'')
          else (Inr r, tr'))"

definition fetch_request :: "world \<Rightarrow> uri \<Rightarrow> ip_addr \<Rightarrow> string \<Rightarrow> fetch_options \<Rightarrow> trace \<Rightarrow> (fetch_error + response) \<times> trace" where
  "fetch_request w url ip verb options tr = request_loop w verb options (max_redirects options + 1) url ip tr"

text \<open>A deadline that ran out after \<open>cutoff\<close> events: the rest of the work is dropped.\<close>

definition within_deadline :: "duration option \<Rightarrow> nat option \<Rightarrow> trace \<Rightarrow> (fetch_error + 'a) \<times> trace \<Rightarrow> (fetch_error + 'a) \<times> trace" where
  "within_deadline limit cutoff tr result =
     (case (limit, cutoff) of
        (Some d, Some k) \<Rightarrow> if d = 0 then result else (Inl Deadline, take (length tr + k) (snd result))
      | _ \<Rightarrow> result)"

definition acceptable_body :: "'d decoder_ops \<Rightarrow> response \<Rightarrow> fetch_error + body_bytes option" where
  "acceptable_body ops r =
     (if resp_status r \<noteq> 200 \<or> resp_content_type r \<noteq> Some allowed_document_content_type then Inr None
      else case resp_content_length r of
          Inl e \<Rightarrow> Inl (FetchHttp e)
        | Inr len \<Rightarrow>
            if max_body_size < (case len of None \<Rightarrow> 0 | Some n \<Rightarrow> n) then Inr None
            else case read_body ops max_body_size r of
                Inl e \<Rightarrow> Inl (FetchHttp e)
              | Inr (Complete b) \<Rightarrow> Inr (Some b)
              | Inr TooLarge \<Rightarrow> Inr None)"

definition fetch_document_with :: "'d decoder_ops \<Rightarrow> world \<Rightarrow> nat option \<Rightarrow> uri \<Rightarrow> ip_addr \<Rightarrow> fetch_options \<Rightarrow> trace \<Rightarrow>
    (fetch_error + body_bytes option) \<times> trace" where
  "fetch_document_with ops w cutoff url ip options tr =
     within_deadline (deadline options) cutoff tr
       (case fetch_request w url ip ''GET'' options tr of
          (Inl e, tr') \<Rightarrow> (Inl e, tr')
        | (Inr r, tr') \<Rightarrow> (acceptable_body ops r, tr'))"

definition fetch_document :: "'d decoder_ops \<Rightarrow> world \<Rightarrow> nat option \<Rightarrow> uri \<Rightarrow> ip_addr \<Rightarrow> trace \<Rightarrow>
    (fetch_error + body_bytes option) \<times> trace" where
  "fetch_document ops w cutoff url ip tr = fetch_document_with ops w cutoff url ip default_fetch_options tr"

definition fetch_content_type_with :: "world \<Rightarrow> nat option \<Rightarrow> uri \<Rightarrow> ip_addr \<Rightarrow> fetch_options \<Rightarrow> trace \<Rightarrow>
    (fetch_error + string option) \<times> trace" where
  "fetch_content_type_with w cutoff url ip options tr =
     within_deadline (deadline options) cutoff tr
       (map_prod (map_sum id (resp_header ''content-type'')) id (fetch_request w url ip ''HEAD'' options tr))"

definition fetch_content_type :: "world \<Rightarrow> nat option \<Rightarrow> uri \<Rightarrow> ip_addr \<Rightarrow> trace \<Rightarrow>
    (fetch_error + string option) \<times> trace" where
  "fetch_content_type w cutoff url ip tr = fetch_content_type_with w cutoff url ip default_fetch_options tr"

subsection \<open>Locations\<close>

record location =
  loc_url :: "string option"
  loc_parsed_url :: "uri option"
  loc_resolved_ip :: "ip_addr option option"
  loc_options :: fetch_options
  loc_errors :: "(string \<times> string) list"

definition location_with_options :: "string option \<Rightarrow> fetch_options \<Rightarrow> location" where
  "location_with_options url options =
     \<lparr>loc_url = url,
      loc_parsed_url = Option.bind url (\<lambda>t. case parse_uri t of Inl _ \<Rightarrow> None | Inr u \<Rightarrow> Some u),
      loc_resolved_ip = None, loc_options = options, loc_errors = []\<rparr>"

definition location_new :: "string option \<Rightarrow> location" where
  "location_new url = location_with_options url default_fetch_options"

definition resolved_ip :: "world \<Rightarrow> location \<Rightarrow> trace \<Rightarrow> ip_addr option \<times> location \<times> trace" where
  "resolved_ip w l tr =
     (case loc_resolved_ip l of
        Some ip \<Rightarrow> (ip, l, tr)
      | None \<Rightarrow>
          let (ip, tr') =
            (case Option.bind (loc_parsed_url l) uri_host of
               None \<Rightarrow> (None, tr)
             | Some host \<Rightarrow>
                 (case resolve_at w host tr of (Inl _, tr') \<Rightarrow> (None, tr') | (Inr ip, tr') \<Rightarrow> (Some ip, tr')))
          in (ip, l\<lparr>loc_resolved_ip := Some ip\<rparr>, tr'))"

definition is_valid :: "world \<Rightarrow> location \<Rightarrow> trace \<Rightarrow> bool \<times> location \<times> trace" where
  "is_valid w l tr =
     (let http = (case loc_parsed_url l of None \<Rightarrow> False | Some u \<Rightarrow> is_http u);
          (ip, l', tr') = resolved_ip w (l\<lparr>loc_errors := []\<rparr>) tr;
          errors = (if http then [] else [(''url'', ''is invalid'')]) @
                   (if ip \<noteq> None then [] else [(''url'', ''is not public'')])
      in (errors = [], l'\<lparr>loc_errors := errors\<rparr>, tr'))"

definition uses_defaults :: "fetch_options \<Rightarrow> bool" where
  "uses_defaults options \<longleftrightarrow> deadline options = None \<and> max_redirects options = default_max_redirects"

definition read_html :: "'d decoder_ops \<Rightarrow> (string \<Rightarrow> bool) \<Rightarrow> world \<Rightarrow> nat option \<Rightarrow> location \<Rightarrow> trace \<Rightarrow>
    body_bytes option \<times> location \<times> trace" where
  "read_html ops files_and_media w cutoff l tr =
     (case is_valid w l tr of (valid, l', tr') \<Rightarrow>
        if \<not> valid \<or> files_and_media (opt_text [] (loc_url l')) then (None, l', tr')
        else case loc_parsed_url l' of
            None \<Rightarrow> (None, l', tr')
          | Some url \<Rightarrow>
              (case resolved_ip w l' tr' of
                 (None, l'', tr'') \<Rightarrow> (None, l'', tr'')
               | (Some ip, l'', tr'') \<Rightarrow>
                   (case (if uses_defaults (loc_options l'') then fetch_document ops w cutoff url ip tr''
                          else fetch_document_with ops w cutoff url ip (loc_options l'') tr'') of
                      (Inr html, tr3) \<Rightarrow> (html, l'', tr3)
                    | (Inl _, tr3) \<Rightarrow> (None, l'', tr3))))"

definition location_content_type :: "world \<Rightarrow> nat option \<Rightarrow> location \<Rightarrow> trace \<Rightarrow> string option \<times> location \<times> trace" where
  "location_content_type w cutoff l tr =
     (case is_valid w l tr of (valid, l', tr') \<Rightarrow>
        if \<not> valid then (None, l', tr')
        else case loc_parsed_url l' of
            None \<Rightarrow> (None, l', tr')
          | Some url \<Rightarrow>
              (case resolved_ip w l' tr' of
                 (None, l'', tr'') \<Rightarrow> (None, l'', tr'')
               | (Some ip, l'', tr'') \<Rightarrow>
                   (case (if uses_defaults (loc_options l'') then fetch_content_type w cutoff url ip tr''
                          else fetch_content_type_with w cutoff url ip (loc_options l'') tr'') of
                      (Inr t, tr3) \<Rightarrow> (t, l'', tr3)
                    | (Inl _, tr3) \<Rightarrow> (None, l'', tr3))))"

subsection \<open>The image proxy\<close>

datatype proxy_error = Denied | UnusableResponse | ProxyFetch fetch_error | ProxyGuard guard_error | ProxyHttp http_error

fun proxy_denied :: "proxy_error \<Rightarrow> bool" where
  "proxy_denied Denied = True"
| "proxy_denied (ProxyGuard _) = True"
| "proxy_denied (ProxyFetch (Guard _)) = True"
| "proxy_denied _ = False"

record image =
  image_body :: body_bytes
  image_content_type :: string

definition max_requests :: nat where "max_requests = 10"

definition allowed_content_types :: "string list" where
  "allowed_content_types = [''image/jpeg'', ''image/png'', ''image/gif'', ''image/webp'', ''image/avif'',
     ''image/bmp'', ''image/x-icon'', ''image/vnd.microsoft.icon'']"

definition image_of :: "'d decoder_ops \<Rightarrow> response \<Rightarrow> proxy_error + image" where
  "image_of ops r =
     (case resp_content_type r of
        None \<Rightarrow> Inl UnusableResponse
      | Some content_type \<Rightarrow>
          if resp_status r \<noteq> 200 \<or> content_type \<notin> set allowed_content_types then Inl UnusableResponse
          else case resp_content_length r of
              Inl e \<Rightarrow> Inl (ProxyHttp e)
            | Inr len \<Rightarrow>
                if max_body_size < (case len of None \<Rightarrow> 0 | Some n \<Rightarrow> n) then Inl UnusableResponse
                else case read_body ops max_body_size r of
                    Inl e \<Rightarrow> Inl (ProxyHttp e)
                  | Inr (Complete b) \<Rightarrow> Inr \<lparr>image_body = b, image_content_type = content_type\<rparr>
                  | Inr TooLarge \<Rightarrow> Inl UnusableResponse)"

definition proxy_fetch :: "'d decoder_ops \<Rightarrow> world \<Rightarrow> string \<Rightarrow> trace \<Rightarrow> (proxy_error + image) \<times> trace" where
  "proxy_fetch ops w t tr =
     (case parse_uri t of
        Inl _ \<Rightarrow> (Inl Denied, tr)
      | Inr url \<Rightarrow>
          if \<not> is_http url then (Inl Denied, tr)
          else case resolve_at w (opt_text [] (uri_host url)) tr of
              (Inl e, tr') \<Rightarrow> (Inl (ProxyGuard e), tr')
            | (Inr ip, tr') \<Rightarrow>
                (case fetch_request w url ip ''GET'' \<lparr>max_redirects = max_requests - 1, deadline = None\<rparr> tr' of
                   (Inl e, tr'') \<Rightarrow> (Inl (ProxyFetch e), tr'')
                 | (Inr r, tr'') \<Rightarrow> (image_of ops r, tr'')))"

subsection \<open>Every connection was vetted\<close>

text \<open>An event is vetted after the events \<open>past\<close> when the address it uses is an answer that the guard
  gave, at some earlier moment, for the host the request names; a trace is vetted when each of its
  events is.\<close>

definition vetted_ip :: "world \<Rightarrow> trace \<Rightarrow> string \<Rightarrow> ip_addr \<Rightarrow> bool" where
  "vetted_ip w past host ip \<longleftrightarrow> (\<exists>earlier. prefix earlier past \<and> fst (resolve_at w host earlier) = Inr ip)"

fun vetted_event :: "world \<Rightarrow> trace \<Rightarrow> net_event \<Rightarrow> bool" where
  "vetted_event w past (LookedUp _) \<longleftrightarrow> True"
| "vetted_event w past (Dialed ip _) \<longleftrightarrow> (\<exists>host. vetted_ip w past host ip)"
| "vetted_event w past (Sent ep _) \<longleftrightarrow> (\<exists>ip. ep_pinned_ip ep = Some ip \<and> vetted_ip w past (ep_host ep) ip)"

definition vetted_trace :: "world \<Rightarrow> trace \<Rightarrow> bool" where
  "vetted_trace w tr \<longleftrightarrow> (\<forall>past e later. tr = past @ e # later \<longrightarrow> vetted_event w past e)"

definition public_dials :: "trace \<Rightarrow> bool" where
  "public_dials tr \<longleftrightarrow> list_all (\<lambda>e. case e of Dialed ip _ \<Rightarrow> \<not> blocked_at ip | _ \<Rightarrow> True) tr"

definition sent_count :: "trace \<Rightarrow> nat" where
  "sent_count tr = length (filter (\<lambda>e. case e of Sent _ _ \<Rightarrow> True | _ \<Rightarrow> False) tr)"

lemma vetted_trace_Nil [simp]: "vetted_trace w []"
  by (simp add: vetted_trace_def)

lemma vetted_trace_snoc [simp]: "vetted_trace w (tr @ [e]) \<longleftrightarrow> vetted_trace w tr \<and> vetted_event w tr e"
proof
  assume v: "vetted_trace w (tr @ [e])"
  have "vetted_event w past e'" if "tr = past @ e' # later" for past e' later
    using v that unfolding vetted_trace_def by (metis append.assoc append_Cons)
  with v show "vetted_trace w tr \<and> vetted_event w tr e" unfolding vetted_trace_def by auto
next
  assume v: "vetted_trace w tr \<and> vetted_event w tr e"
  show "vetted_trace w (tr @ [e])"
    unfolding vetted_trace_def
  proof (intro allI impI)
    fix past e' later assume "tr @ [e] = past @ e' # later"
    then show "vetted_event w past e'"
      using v unfolding vetted_trace_def by (cases later rule: rev_cases) auto
  qed
qed

lemma vetted_trace_prefix: "vetted_trace w tr \<Longrightarrow> prefix tr' tr \<Longrightarrow> vetted_trace w tr'"
  by (auto simp: vetted_trace_def prefix_def)

lemma vetted_ip_mono: "vetted_ip w past host ip \<Longrightarrow> prefix past later \<Longrightarrow> vetted_ip w later host ip"
  by (auto simp: vetted_ip_def dest: prefix_order.trans)

lemma vetted_ip_public: "vetted_ip w past host ip \<Longrightarrow> \<not> blocked_at ip"
  by (auto simp: vetted_ip_def resolve_at_def guard_resolve_public)

lemma vetted_public_dials:
  assumes "vetted_trace w tr" shows "public_dials tr"
proof -
  have "\<not> blocked_at ip" if "Dialed ip port \<in> set tr" for ip port
  proof -
    from that obtain past later where "tr = past @ Dialed ip port # later" by (auto simp: in_set_conv_decomp)
    with assms have "vetted_event w past (Dialed ip port)" unfolding vetted_trace_def by blast
    then show ?thesis by (auto dest: vetted_ip_public)
  qed
  then show ?thesis by (auto simp: public_dials_def list_all_iff split: net_event.splits)
qed

text \<open>An operation keeps a trace vetted when it only extends it by vetted events.\<close>

definition extends :: "world \<Rightarrow> trace \<Rightarrow> trace \<Rightarrow> bool" where
  "extends w tr tr' \<longleftrightarrow> prefix tr tr' \<and> (vetted_trace w tr \<longrightarrow> vetted_trace w tr')"

lemma extends_refl [simp]: "extends w tr tr"
  by (simp add: extends_def)

lemma extends_trans: "extends w a b \<Longrightarrow> extends w b c \<Longrightarrow> extends w a c"
  by (auto simp: extends_def dest: prefix_order.trans)

lemma extends_snoc: "extends w a b \<Longrightarrow> vetted_event w b e \<Longrightarrow> extends w a (b @ [e])"
  by (auto simp: extends_def)

lemma extends_vetted_ip: "vetted_ip w a host ip \<Longrightarrow> extends w a b \<Longrightarrow> vetted_ip w b host ip"
  by (auto simp: extends_def dest: vetted_ip_mono)

lemma extends_take:
  "extends w tr tr' \<Longrightarrow> extends w tr (take (length tr + k) tr')"
  unfolding extends_def
  by (auto simp: prefix_def intro: vetted_trace_prefix[OF _ take_is_prefix])

lemma resolve_at_extends: "extends w tr (snd (resolve_at w host tr))"
  by (auto simp: resolve_at_def extends_snoc)

lemma resolve_at_vetted: "fst (resolve_at w host tr) = Inr ip \<Longrightarrow> vetted_ip w (snd (resolve_at w host tr)) host ip"
  unfolding vetted_ip_def using resolve_at_extends[of w tr host] by (auto simp: extends_def)

lemma exchange_extends:
  assumes "ep_pinned_ip ep = Some ip" and "vetted_ip w tr (ep_host ep) ip"
  shows "extends w tr (snd (exchange w ep req tr)) \<and> sent_count (snd (exchange w ep req tr)) \<le> sent_count tr + 1"
proof -
  have e1: "extends w tr (tr @ [Dialed ip (ep_port ep)])"
    using assms by (intro extends_snoc) auto
  then have "extends w tr ((tr @ [Dialed ip (ep_port ep)]) @ [Sent ep req])"
    using assms by (intro extends_snoc) (auto intro: extends_vetted_ip)
  with e1 assms(1) show ?thesis
    by (auto simp: exchange_def net_connect_def sent_count_def split: dialed.splits sum.splits)
qed

lemma send_extends:
  assumes "vetted_ip w tr (opt_text [] (uri_host url)) ip"
  shows "extends w tr (snd (send w url ip verb tr)) \<and> sent_count (snd (send w url ip verb tr)) \<le> sent_count tr + 1"
  using assms exchange_extends[of _ ip w tr]
  by (auto simp: send_def opt_text_def Let_def split: option.splits)

lemma send_retrying_extends:
  assumes "vetted_ip w tr (opt_text [] (uri_host url)) ip" and "send_retrying w url ip verb options tr = (r, tr')"
  shows "extends w tr tr' \<and> sent_count tr' \<le> sent_count tr + (if deadline options = None then 2 else 1)"
proof -
  obtain r1 tr1 where s1: "send w url ip verb tr = (r1, tr1)" by fastforce
  have e1: "extends w tr tr1" "sent_count tr1 \<le> sent_count tr + 1"
    using send_extends[OF assms(1), of verb] s1 by auto
  have "vetted_ip w tr1 (opt_text [] (uri_host url)) ip" using assms(1) e1(1) by (rule extends_vetted_ip)
  from send_extends[OF this, of verb] e1 assms(2) s1 show ?thesis
    by (auto simp: send_retrying_def split: sum.splits fetch_error.splits if_splits intro: extends_trans)
qed

lemma sent_count_resolve_at: "sent_count (snd (resolve_at w host tr)) = sent_count tr"
  by (simp add: resolve_at_def sent_count_def)

lemma resolve_redirect_extends:
  assumes "resolve_redirect w location base tr = (r, tr')"
  shows "extends w tr tr' \<and> sent_count tr' = sent_count tr \<and>
    (\<forall>url ip. r = Inr (url, ip) \<longrightarrow> is_http url \<and> vetted_ip w tr' (opt_text [] (uri_host url)) ip)"
proof (cases "redirect_resolve base location")
  case None
  with assms show ?thesis by (auto simp: resolve_redirect_def)
next
  case (Some url)
  then have "is_http url"
    by (auto simp: redirect_resolve_def Let_def split: option.splits sum.splits if_splits)
  with assms Some show ?thesis
    using resolve_at_extends[of w tr "opt_text [] (uri_host url)"] resolve_at_vetted[of w "opt_text [] (uri_host url)" tr]
      sent_count_resolve_at[of w "opt_text [] (uri_host url)" tr]
    by (auto simp: resolve_redirect_def split: prod.splits sum.splits)
qed

lemma request_loop_extends:
  "vetted_ip w tr (opt_text [] (uri_host url)) ip \<Longrightarrow> request_loop w verb options n url ip tr = (r, tr') \<Longrightarrow>
   extends w tr tr' \<and> sent_count tr' \<le> sent_count tr + n * (if deadline options = None then 2 else 1)"
proof (induction n arbitrary: url ip tr)
  case (Suc n)
  let ?k = "if deadline options = None then 2 else 1 :: nat"
  obtain r1 tr1 where s1: "send_retrying w url ip verb options tr = (r1, tr1)" by fastforce
  note e1 = send_retrying_extends[OF Suc(2) s1]
  show ?case
  proof (cases "\<exists>resp. r1 = Inr resp \<and> 300 \<le> resp_status resp \<and> resp_status resp < 400")
    case False
    with s1 Suc(3) have "tr' = tr1" by (auto split: sum.splits)
    with e1 show ?thesis by auto
  next
    case True
    then obtain resp where resp: "r1 = Inr resp" "300 \<le> resp_status resp" "resp_status resp < 400" by blast
    obtain r2 tr2 where s2: "resolve_redirect w (resp_header ''location'' resp) url tr1 = (r2, tr2)" by fastforce
    note e2 = resolve_redirect_extends[OF s2]
    show ?thesis
    proof (cases r2)
      case (Inl e)
      with s1 s2 resp Suc(3) have "tr' = tr2" by simp
      with e1 e2 show ?thesis by (auto intro: extends_trans)
    next
      case (Inr next_hop)
      then obtain url' ip' where r2: "r2 = Inr (url', ip')" by (cases next_hop) auto
      with s1 s2 resp Suc(3) have "request_loop w verb options n url' ip' tr2 = (r, tr')" by simp
      moreover have "vetted_ip w tr2 (opt_text [] (uri_host url')) ip'" using e2 r2 by blast
      ultimately have "extends w tr2 tr' \<and> sent_count tr' \<le> sent_count tr2 + n * ?k" using Suc(1) by blast
      with e1 e2 show ?thesis by (auto intro: extends_trans)
    qed
  qed
qed simp

lemma fetch_request_extends:
  "vetted_ip w tr (opt_text [] (uri_host url)) ip \<Longrightarrow> extends w tr (snd (fetch_request w url ip verb options tr))"
  using request_loop_extends[of w tr url ip verb options] by (metis fetch_request_def prod.collapse)

lemma within_deadline_extends: "extends w tr (snd p) \<Longrightarrow> extends w tr (snd (within_deadline d cutoff tr p))"
  by (auto simp: within_deadline_def extends_take split: option.splits)

lemma fetch_with_extends:
  assumes "vetted_ip w tr (opt_text [] (uri_host url)) ip"
  shows "extends w tr (snd (fetch_document_with ops w cutoff url ip options tr))"
    and "extends w tr (snd (fetch_content_type_with w cutoff url ip options tr))"
  using fetch_request_extends[OF assms, of "''GET''" options] fetch_request_extends[OF assms, of "''HEAD''" options]
  by (auto simp: fetch_document_with_def fetch_content_type_with_def intro!: within_deadline_extends
      split: prod.splits sum.splits)

text \<open>What a location remembers: the address it resolved is the guard's answer for its host.\<close>

definition location_ok :: "world \<Rightarrow> location \<Rightarrow> trace \<Rightarrow> bool" where
  "location_ok w l tr \<longleftrightarrow> (\<forall>ip. loc_resolved_ip l = Some (Some ip) \<longrightarrow>
     (\<exists>url. loc_parsed_url l = Some url \<and> vetted_ip w tr (opt_text [] (uri_host url)) ip))"

lemma resolved_ip_extends:
  assumes "location_ok w l tr" and "resolved_ip w l tr = (ip, l', tr')"
  shows "extends w tr tr' \<and> location_ok w l' tr' \<and> loc_parsed_url l' = loc_parsed_url l \<and> loc_resolved_ip l' = Some ip"
proof (cases "\<exists>host. loc_resolved_ip l = None \<and> Option.bind (loc_parsed_url l) uri_host = Some host")
  case False
  with assms show ?thesis
    by (auto simp: resolved_ip_def location_ok_def Let_def split: option.splits)
next
  case True
  then obtain url host where l: "loc_resolved_ip l = None" "loc_parsed_url l = Some url" "uri_host url = Some host"
    by (cases "loc_parsed_url l") auto
  with assms(2) show ?thesis
    using resolve_at_extends[of w tr host] resolve_at_vetted[of w host tr]
    by (auto simp: resolved_ip_def location_ok_def opt_text_def split: prod.splits sum.splits)
qed

lemma is_valid_extends:
  assumes "location_ok w l tr" and "is_valid w l tr = (v, l', tr')"
  shows "extends w tr tr' \<and> location_ok w l' tr'"
proof -
  obtain ip l1 where r: "resolved_ip w (l\<lparr>loc_errors := []\<rparr>) tr = (ip, l1, tr')"
    using assms(2) by (auto simp: is_valid_def Let_def split: prod.splits)
  have "location_ok w (l\<lparr>loc_errors := []\<rparr>) tr" using assms(1) by (simp add: location_ok_def)
  from resolved_ip_extends[OF this r] assms(2) r show ?thesis
    by (auto simp: is_valid_def Let_def location_ok_def)
qed

lemma location_fetch_extends:
  assumes "location_ok w l tr"
  shows "extends w tr (snd (snd (read_html ops files_and_media w cutoff l tr)))"
    and "extends w tr (snd (snd (location_content_type w cutoff l tr)))"
proof -
  obtain v l1 tr1 where v: "is_valid w l tr = (v, l1, tr1)" by (cases "is_valid w l tr") auto
  note e1 = is_valid_extends[OF assms v]
  obtain ip l2 tr2 where r: "resolved_ip w l1 tr1 = (ip, l2, tr2)" by (cases "resolved_ip w l1 tr1") auto
  note e2 = resolved_ip_extends[OF conjunct2[OF e1] r]
  have fetches: "extends w tr tr3"
    if "loc_parsed_url l1 = Some url" "ip = Some a"
      "fetch_document_with ops w cutoff url a options tr2 = (doc, tr3) \<or>
       fetch_content_type_with w cutoff url a options tr2 = (t, tr3)" for url a options tr3 doc t
  proof -
    have "vetted_ip w tr2 (opt_text [] (uri_host url)) a" using that(1,2) e2 by (auto simp: location_ok_def)
    from fetch_with_extends(1)[OF this, of ops cutoff options] fetch_with_extends(2)[OF this, of cutoff options] that(3) have "extends w tr2 tr3" by (metis snd_conv)
    with e1 e2 show ?thesis by (blast intro: extends_trans)
  qed
  show "extends w tr (snd (snd (read_html ops files_and_media w cutoff l tr)))"
    using e1 e2 v r
    by (auto simp: read_html_def fetch_document_def split: option.splits prod.splits sum.splits if_splits
        intro: extends_trans fetches)
  show "extends w tr (snd (snd (location_content_type w cutoff l tr)))"
    using e1 e2 v r
    by (auto simp: location_content_type_def fetch_content_type_def split: option.splits prod.splits sum.splits if_splits
        intro: extends_trans fetches)
qed

lemma proxy_fetch_extends: "extends w tr (snd (proxy_fetch ops w t tr))"
proof -
  have "extends w tr tr''" if "resolve_at w host tr = (Inr ip, tr')" "host = opt_text [] (uri_host url)"
    "fetch_request w url ip verb options tr' = (r, tr'')" for host ip tr' url verb options r tr''
  proof -
    have "extends w tr tr'" "vetted_ip w tr' host ip"
      using resolve_at_extends[of w tr host] resolve_at_vetted[of w host tr] that(1) by auto
    moreover from this fetch_request_extends[of w tr' url ip verb options] that(2,3) have "extends w tr' tr''" by simp
    ultimately show ?thesis by (blast intro: extends_trans)
  qed
  moreover have "extends w tr tr'" if "resolve_at w host tr = (e, tr')" for host e tr'
    using resolve_at_extends[of w tr host] that by simp
  ultimately show ?thesis
    by (auto simp: proxy_fetch_def split: sum.splits prod.splits)
qed

text \<open>C22.  Whatever a user writes as an address, whatever the name service answers at whatever moment
  and wherever the peers redirect to: a link preview and the image proxy never open a connection to
  a blocked address, and every address they connect to is the one the guard returned for the host
  that the request names.\<close>

theorem link_fetches_reach_only_vetted_hosts:
  "public_dials (snd (proxy_fetch ops w t [])) \<and> vetted_trace w (snd (proxy_fetch ops w t [])) \<and>
   public_dials (snd (snd (read_html ops files_and_media w cutoff (location_with_options url options) []))) \<and>
   vetted_trace w (snd (snd (read_html ops files_and_media w cutoff (location_with_options url options) []))) \<and>
   public_dials (snd (snd (location_content_type w cutoff (location_with_options url options) []))) \<and>
   vetted_trace w (snd (snd (location_content_type w cutoff (location_with_options url options) [])))"
proof -
  have ok: "location_ok w (location_with_options url options) []"
    by (simp add: location_ok_def location_with_options_def)
  show ?thesis
    using proxy_fetch_extends[of w "[]" ops t] location_fetch_extends(1)[OF ok, of ops files_and_media cutoff]
      location_fetch_extends(2)[OF ok, of cutoff]
    by (auto simp: extends_def intro: vetted_public_dials)
qed

lemma request_loop_no_redirect:
  "fst (request_loop w verb options n url ip tr) = Inr r \<Longrightarrow> \<not> (300 \<le> resp_status r \<and> resp_status r < 400)"
proof (induction n arbitrary: url ip tr)
  case (Suc n)
  then show ?case by (auto split: sum.splits prod.splits if_splits)
qed simp

text \<open> One fetch sends at most twice as many requests as it may follow redirects, plus the first one
  and its repetition (once each under a deadline), and a response it returns is not a redirect.\<close>

theorem fetch_requests_bounded:
  assumes "fst (resolve_at w (opt_text [] (uri_host url)) tr0) = Inr ip" and "prefix tr0 tr"
  shows "sent_count (snd (fetch_request w url ip verb options tr)) \<le>
      sent_count tr + (max_redirects options + 1) * (if deadline options = None then 2 else 1) \<and>
    (case fst (fetch_request w url ip verb options tr) of
       Inr r \<Rightarrow> \<not> (300 \<le> resp_status r \<and> resp_status r < 400) | Inl _ \<Rightarrow> True)"
proof
  have "vetted_ip w tr (opt_text [] (uri_host url)) ip" using assms by (auto simp: vetted_ip_def)
  then show "sent_count (snd (fetch_request w url ip verb options tr)) \<le>
      sent_count tr + (max_redirects options + 1) * (if deadline options = None then 2 else 1)"
    using request_loop_extends[of w tr url ip verb options "max_redirects options + 1"]
    by (metis fetch_request_def prod.collapse)
next
  show "case fst (fetch_request w url ip verb options tr) of
       Inr r \<Rightarrow> \<not> (300 \<le> resp_status r \<and> resp_status r < 400) | Inl _ \<Rightarrow> True"
    using request_loop_no_redirect[of w verb options "max_redirects options + 1" url ip tr]
    by (cases "fst (fetch_request w url ip verb options tr)")
      (auto simp: fetch_request_def simp del: request_loop.simps)
qed

text \<open>A world whose only host answers every request by a redirect to itself.\<close>

definition looping_world :: world where
  "looping_world = \<lparr>w_lookup = \<lambda>_ _. Inr [V4 0x08080808], w_dial = \<lambda>_ _ _. Connected,
     w_serve = \<lambda>_ _ _. Inr \<lparr>resp_status = 302, resp_headers = [(''location'', ''/'')], resp_frames = [],
       resp_decode_content = False\<rparr>\<rparr>"

definition looping_url :: uri where
  "looping_url = empty_uri\<lparr>uri_scheme := Some ''http'', uri_host := Some ''loop'', uri_port := Some 80, uri_path := Some ''/''\<rparr>"

theorem fetch_requests_bounded_witness:
  "fst (resolve_at looping_world ''loop'' []) = Inr (V4 0x08080808) \<and>
   sent_count (snd (fetch_request looping_world looping_url (V4 0x08080808) ''GET'' default_fetch_options [])) \<le> 22"
proof -
  have "guard_resolve (\<lambda>_. Some [V4 0x08080808]) ''loop'' = Inr (V4 0x08080808)" by code_simp
  then have r: "fst (resolve_at looping_world ''loop'' []) = Inr (V4 0x08080808)"
    by (simp add: resolve_at_def looping_world_def)
  then have "fst (resolve_at looping_world (opt_text [] (uri_host looping_url)) []) = Inr (V4 0x08080808)"
    by (simp add: looping_url_def opt_text_def)
  from fetch_requests_bounded[OF this, of "[]" "''GET''" default_fetch_options] r show ?thesis
    by (simp add: default_fetch_options_def default_max_redirects_def sent_count_def)
qed

end
