(* ===== verification/NotificationPolicy.thy ===== *)
theory NotificationPolicy
  imports Prelude Texts
begin

section \<open>Notification preferences, quiet times and the notification policy\<close>

text \<open>
  \<^verbatim>\<open>crates/db/src/models/notification_policy.rs\<close>, the readers of
  \<^verbatim>\<open>crates/db/src/models/user_status_settings.rs\<close> and the enumerations of \<^verbatim>\<open>membership.rs\<close>,
  \<^verbatim>\<open>room.rs\<close> and \<^verbatim>\<open>user.rs\<close> they share.

  Preferences are held as the parsed JSON: the levels and mute deadlines by room, where \<open>None\<close>
  is the JSON \<^verbatim>\<open>null\<close>.  What the code takes from other packages is a parameter: the wall clock
  of a time zone (\<open>clock\<close>, hour and minute) and the reading of a calendar time
  (\<open>read_time\<close>).
\<close>

subsection \<open>Enumerations\<close>

datatype involvement = Invisible | Nothing | Muted | Mentions | Everything
datatype thread_involvement = ThreadNothing | ThreadMentions | ThreadEverything
datatype stage_role = Listener | Speaker | Host
datatype room_type = OpenRoom | ClosedRoom | DirectRoom | VoiceRoom | StageRoom | BoardRoom
datatype user_role = Member | Administrator | Bot | WebhookAuthor
datatype user_status = Active | Deactivated | Banned
datatype notification_kind = RoomMessage | ThreadMessage | Reminder | Huddle | HuddleJoin
datatype notification_level = LevelEverything | LevelMentions | LevelNothing

fun involvement_name :: "involvement \<Rightarrow> string" where
  "involvement_name Invisible = ''invisible''"
| "involvement_name Nothing = ''nothing''"
| "involvement_name Muted = ''muted''"
| "involvement_name Mentions = ''mentions''"
| "involvement_name Everything = ''everything''"

definition involvement_of :: "string \<Rightarrow> involvement option" where
  "involvement_of s =
     (if s = ''invisible'' then Some Invisible else if s = ''nothing'' then Some Nothing
      else if s = ''muted'' then Some Muted else if s = ''mentions'' then Some Mentions
      else if s = ''everything'' then Some Everything else None)"

fun stage_role_name :: "stage_role \<Rightarrow> string" where
  "stage_role_name Listener = ''listener''"
| "stage_role_name Speaker = ''speaker''"
| "stage_role_name Host = ''host''"

definition stage_role_of :: "string \<Rightarrow> stage_role option" where
  "stage_role_of s =
     (if s = ''listener'' then Some Listener else if s = ''speaker'' then Some Speaker
      else if s = ''host'' then Some Host else None)"

fun class_name :: "room_type \<Rightarrow> string" where
  "class_name OpenRoom = ''Rooms::Open''"
| "class_name ClosedRoom = ''Rooms::Closed''"
| "class_name DirectRoom = ''Rooms::Direct''"
| "class_name VoiceRoom = ''Rooms::Voice''"
| "class_name StageRoom = ''Rooms::Stage''"
| "class_name BoardRoom = ''Rooms::Board''"

definition room_type_of :: "string \<Rightarrow> room_type option" where
  "room_type_of s =
     (if s = ''Rooms::Open'' then Some OpenRoom else if s = ''Rooms::Closed'' then Some ClosedRoom
      else if s = ''Rooms::Direct'' then Some DirectRoom else if s = ''Rooms::Voice'' then Some VoiceRoom
      else if s = ''Rooms::Stage'' then Some StageRoom else if s = ''Rooms::Board'' then Some BoardRoom
      else None)"

definition notification_kind_of :: "string \<Rightarrow> string + notification_kind" where
  "notification_kind_of s =
     (if s = ''room_message'' then Inr RoomMessage else if s = ''thread_message'' then Inr ThreadMessage
      else if s = ''reminder'' then Inr Reminder else if s = ''huddle'' then Inr Huddle
      else if s = ''huddle_join'' then Inr HuddleJoin else Inl s)"

lemma involvement_of_name [simp]: "involvement_of (involvement_name i) = Some i"
  by (cases i) (simp_all add: involvement_of_def)

lemma stage_role_of_name [simp]: "stage_role_of (stage_role_name r) = Some r"
  by (cases r) (simp_all add: stage_role_of_def)

lemma room_type_of_name [simp]: "room_type_of (class_name t) = Some t"
  by (cases t) (simp_all add: room_type_of_def)

definition default_involvement :: "room_type \<Rightarrow> involvement" where
  "default_involvement t = (if t = DirectRoom then Everything else Mentions)"

fun level_involvement :: "notification_level \<Rightarrow> involvement" where
  "level_involvement LevelEverything = Everything"
| "level_involvement LevelMentions = Mentions"
| "level_involvement LevelNothing = Nothing"

fun level_name :: "notification_level \<Rightarrow> string" where
  "level_name LevelEverything = ''everything''"
| "level_name LevelMentions = ''mentions''"
| "level_name LevelNothing = ''nothing''"

subsection \<open>Preferences\<close>

text \<open>\<^verbatim>\<open>NotificationPreferences\<close>: an absent default level reads as the default of its type.\<close>

record preferences =
  default_level :: "notification_level option"
  room_levels :: "(int \<times> notification_level option) list"
  room_mute_until :: "(int \<times> timestamp option) list"
  message_sound :: "bool option"

definition no_preferences :: preferences where
  "no_preferences = \<lparr>default_level = None, room_levels = [], room_mute_until = [], message_sound = None\<rparr>"

definition default_notification_level :: "preferences \<Rightarrow> notification_level" where
  "default_notification_level p = (case default_level p of Some l \<Rightarrow> l | None \<Rightarrow> LevelEverything)"

definition plays_message_sound :: "preferences \<Rightarrow> bool" where
  "plays_message_sound p \<longleftrightarrow> message_sound p \<noteq> Some False"

definition room_muted :: "preferences \<Rightarrow> int \<Rightarrow> timestamp \<Rightarrow> bool" where
  "room_muted p i now \<longleftrightarrow>
     (case map_of (room_mute_until p) i of
        None \<Rightarrow> False | Some None \<Rightarrow> True | Some (Some t) \<Rightarrow> t > now)"

definition preferred_involvement :: "preferences \<Rightarrow> int \<Rightarrow> involvement option \<Rightarrow> involvement option" where
  "preferred_involvement p i stored =
     (case map_of (room_levels p) i of
        None \<Rightarrow> stored
      | Some level \<Rightarrow>
          Some (level_involvement (case level of Some l \<Rightarrow> l | None \<Rightarrow> default_notification_level p)))"

text \<open>
  The SQL expressions the badge and unread statements use in place of those two.  \<^verbatim>\<open>json_type\<close>
  is \<^verbatim>\<open>NULL\<close> for an absent path, and \<^verbatim>\<open>julianday\<close> keeps milliseconds, rounding to the nearest.
\<close>

definition involvement_sql :: "preferences \<Rightarrow> int \<Rightarrow> involvement option \<Rightarrow> string option" where
  "involvement_sql p i stored =
     (case map_of (room_levels p) i of
        Some None \<Rightarrow>
          Some (case default_level p of Some l \<Rightarrow> level_name l | None \<Rightarrow> ''everything'')
      | Some (Some l) \<Rightarrow> Some (level_name l)
      | None \<Rightarrow> map_option involvement_name stored)"

definition julian_ms :: "timestamp \<Rightarrow> int" where
  "julian_ms t = (t + 500) div 1000"

definition unmuted_sql :: "preferences \<Rightarrow> int \<Rightarrow> timestamp \<Rightarrow> bool" where
  "unmuted_sql p i now \<longleftrightarrow>
     (case map_of (room_mute_until p) i of
        None \<Rightarrow> True | Some None \<Rightarrow> False | Some (Some t) \<Rightarrow> julian_ms t \<le> julian_ms now)"

lemma level_involvement_name: "involvement_name (level_involvement l) = level_name l"
  by (cases l) simp_all

subsection \<open>Status settings\<close>

text \<open>A calendar cache stores JSON; a malformed pair is left out.\<close>

record meeting_cache =
  busy_intervals :: json
  ooo_intervals :: json

record settings =
  s_status :: user_status
  s_role :: user_role
  notification_preferences :: preferences
  presence_setting :: string
  custom_status_emoji :: "string option"
  custom_status_text :: "string option"
  custom_status_expires_at :: "timestamp option"
  dnd_enabled :: bool
  dnd_until :: "timestamp option"
  quiet_hours_enabled :: bool
  quiet_hours_start :: "int option"
  quiet_hours_end :: "int option"
  time_zone :: "string option"
  meeting_status_enabled :: bool
  meeting_dnd_enabled :: bool
  ooo_until :: "timestamp option"
  ooo_calendar_enabled :: bool
  ooo_notify_enabled :: bool
  meetings :: "meeting_cache option"

text \<open>The zone is named by the person's non-blank setting, otherwise it is UTC; hours, minutes.\<close>

type_synonym wall_clock = "string option \<Rightarrow> timestamp \<Rightarrow> int \<times> int"
type_synonym time_reader = "string \<Rightarrow> timestamp \<Rightarrow> timestamp option"

definition json_time :: "time_reader \<Rightarrow> timestamp \<Rightarrow> json \<Rightarrow> timestamp option" where
  "json_time read_time now v = (case v of JStr s \<Rightarrow> read_time s now | _ \<Rightarrow> None)"

definition parsed_pair :: "time_reader \<Rightarrow> timestamp \<Rightarrow> json \<Rightarrow> (timestamp \<times> timestamp) option" where
  "parsed_pair read_time now v =
     (case v of
        JArr (a # b # _) \<Rightarrow>
          (case json_time read_time now a of
             None \<Rightarrow> None
           | Some s \<Rightarrow> map_option (Pair s) (json_time read_time now b))
      | _ \<Rightarrow> None)"

definition parsed_pairs :: "time_reader \<Rightarrow> json \<Rightarrow> timestamp \<Rightarrow> (timestamp \<times> timestamp) list" where
  "parsed_pairs read_time v now =
     (case v of JArr vs \<Rightarrow> List.map_filter (parsed_pair read_time now) vs | _ \<Rightarrow> [])"

definition covering_ends :: "time_reader \<Rightarrow> json \<Rightarrow> timestamp \<Rightarrow> timestamp list" where
  "covering_ends read_time v now =
     map snd (filter (\<lambda>(s, e). s \<le> now \<and> now < e) (parsed_pairs read_time v now))"

definition latest :: "timestamp list \<Rightarrow> timestamp option" where
  "latest ts = (case ts of [] \<Rightarrow> None | x # xs \<Rightarrow> Some (foldl max x xs))"

definition active_human :: "settings \<Rightarrow> bool" where
  "active_human s \<longleftrightarrow> s_status s = Active \<and> s_role s \<noteq> Bot"

definition manual_dnd_active :: "settings \<Rightarrow> timestamp \<Rightarrow> bool" where
  "manual_dnd_active s now \<longleftrightarrow>
     dnd_enabled s \<and> (case dnd_until s of None \<Rightarrow> True | Some t \<Rightarrow> t > now)"

definition zone_name :: "settings \<Rightarrow> string option" where
  "zone_name s = (case time_zone s of Some z \<Rightarrow> if blank z then None else Some z | None \<Rightarrow> None)"

definition minute_of_day :: "wall_clock \<Rightarrow> settings \<Rightarrow> timestamp \<Rightarrow> int" where
  "minute_of_day clock s now = (case clock (zone_name s) now of (h, m) \<Rightarrow> h * 60 + m)"

definition quiet_hours_active :: "wall_clock \<Rightarrow> settings \<Rightarrow> timestamp \<Rightarrow> bool" where
  "quiet_hours_active clock s now =
     (case (quiet_hours_start s, quiet_hours_end s) of
        (Some a, Some b) \<Rightarrow>
          (if \<not> quiet_hours_enabled s \<or> a = b then False
           else
             (let m = minute_of_day clock s now
              in if a < b then a \<le> m \<and> m < b else a \<le> m \<or> m < b))
      | _ \<Rightarrow> False)"

definition dnd_active :: "wall_clock \<Rightarrow> settings \<Rightarrow> timestamp \<Rightarrow> bool" where
  "dnd_active clock s now \<longleftrightarrow>
     manual_dnd_active s now \<or> presence_setting s = ''dnd'' \<or> quiet_hours_active clock s now"

definition custom_status_display :: "settings \<Rightarrow> timestamp \<Rightarrow> string option" where
  "custom_status_display s now =
     (if (case custom_status_expires_at s of None \<Rightarrow> False | Some t \<Rightarrow> t \<le> now) then None
      else
        (let parts = filter (\<lambda>p. \<not> blank p)
               (List.map_filter id [custom_status_emoji s, custom_status_text s])
         in if parts = [] then None else Some (join_with '' '' parts)))"

definition manual_ooo_active :: "settings \<Rightarrow> timestamp \<Rightarrow> bool" where
  "manual_ooo_active s now \<longleftrightarrow> (case ooo_until s of None \<Rightarrow> False | Some t \<Rightarrow> t > now)"

definition calendar_ooo_active :: "time_reader \<Rightarrow> settings \<Rightarrow> timestamp \<Rightarrow> bool" where
  "calendar_ooo_active read_time s now \<longleftrightarrow>
     ooo_calendar_enabled s \<and>
     (case meetings s of
        None \<Rightarrow> False | Some c \<Rightarrow> covering_ends read_time (ooo_intervals c) now \<noteq> [])"

definition ooo_until_effective :: "time_reader \<Rightarrow> settings \<Rightarrow> timestamp \<Rightarrow> timestamp option" where
  "ooo_until_effective read_time s now =
     (let manual = (case ooo_until s of Some t \<Rightarrow> if t > now then [t] else [] | None \<Rightarrow> []);
          calendar = (case meetings s of
              Some c \<Rightarrow>
                if ooo_calendar_enabled s
                then (case latest (covering_ends read_time (ooo_intervals c) now) of
                        Some t \<Rightarrow> [t] | None \<Rightarrow> [])
                else []
            | None \<Rightarrow> [])
      in latest (manual @ calendar))"

definition out_of_office :: "time_reader \<Rightarrow> settings \<Rightarrow> timestamp \<Rightarrow> bool" where
  "out_of_office read_time s now \<longleftrightarrow> ooo_until_effective read_time s now \<noteq> None"

definition in_meeting :: "time_reader \<Rightarrow> settings \<Rightarrow> timestamp \<Rightarrow> bool" where
  "in_meeting read_time s now \<longleftrightarrow>
     meeting_status_enabled s \<and>
     (case meetings s of
        None \<Rightarrow> False | Some c \<Rightarrow> covering_ends read_time (busy_intervals c) now \<noteq> [])"

definition ooo_status_visible :: "time_reader \<Rightarrow> settings \<Rightarrow> timestamp \<Rightarrow> bool" where
  "ooo_status_visible read_time s now \<longleftrightarrow>
     out_of_office read_time s now \<and> presence_setting s \<noteq> ''invisible''"

definition ooo_dnd_active :: "time_reader \<Rightarrow> settings \<Rightarrow> timestamp \<Rightarrow> bool" where
  "ooo_dnd_active read_time s now \<longleftrightarrow> out_of_office read_time s now \<and> \<not> ooo_notify_enabled s"

definition meeting_status_visible :: "wall_clock \<Rightarrow> time_reader \<Rightarrow> settings \<Rightarrow> timestamp \<Rightarrow> bool" where
  "meeting_status_visible clock read_time s now \<longleftrightarrow>
     in_meeting read_time s now \<and> \<not> out_of_office read_time s now \<and>
     custom_status_display s now = None \<and> \<not> dnd_active clock s now \<and>
     presence_setting s \<noteq> ''invisible''"

definition meeting_dnd_active :: "time_reader \<Rightarrow> settings \<Rightarrow> timestamp \<Rightarrow> bool" where
  "meeting_dnd_active read_time s now \<longleftrightarrow> meeting_dnd_enabled s \<and> in_meeting read_time s now"

definition quiet_for_push :: "wall_clock \<Rightarrow> time_reader \<Rightarrow> settings \<Rightarrow> timestamp \<Rightarrow> bool" where
  "quiet_for_push clock read_time s now \<longleftrightarrow>
     dnd_active clock s now \<or> meeting_dnd_active read_time s now \<or> ooo_dnd_active read_time s now"

datatype presence = Online | Idle | Offline | DoNotDisturb

definition effective_presence :: "settings \<Rightarrow> presence \<Rightarrow> presence" where
  "effective_presence s lease =
     (if presence_setting s = ''invisible'' then Offline
      else if presence_setting s = ''dnd'' \<and> lease \<noteq> Offline then DoNotDisturb
      else lease)"

subsection \<open>The policy\<close>

text \<open>\<open>Some None\<close> for an existing membership whose involvement is SQL \<^verbatim>\<open>NULL\<close>, as in the source.\<close>

record policy =
  about_room :: "int option"
  recipient :: "settings option"
  about_kind :: notification_kind
  membership_involvement :: "involvement option option"
  in_thread :: "thread_involvement option"
  mentioned :: bool
  reply_to_recipient :: bool
  keyword_matched :: bool
  dnd_exception :: bool
  policy_now :: timestamp

definition room_involvement :: "policy \<Rightarrow> involvement option option" where
  "room_involvement p =
     map_option
       (\<lambda>stored. case (recipient p, about_room p) of
          (Some s, Some i) \<Rightarrow> preferred_involvement (notification_preferences s) i stored
        | _ \<Rightarrow> stored)
       (membership_involvement p)"

definition policy_muted :: "policy \<Rightarrow> bool" where
  "policy_muted p =
     (case (recipient p, about_room p) of
        (Some s, Some i) \<Rightarrow> room_muted (notification_preferences s) i (policy_now p)
      | _ \<Rightarrow> False)"

definition policy_invisible :: "policy \<Rightarrow> bool" where
  "policy_invisible p \<longleftrightarrow> room_involvement p = Some (Some Invisible)"

definition room_replies :: "policy \<Rightarrow> bool" where
  "room_replies p \<longleftrightarrow> room_involvement p \<in> {Some (Some Everything), Some (Some Mentions)}"

definition room_mentions :: "policy \<Rightarrow> bool" where
  "room_mentions p \<longleftrightarrow> room_replies p \<or> room_involvement p = Some (Some Muted)"

definition thread_mentions :: "policy \<Rightarrow> bool" where
  "thread_mentions p \<longleftrightarrow> in_thread p \<in> {Some ThreadEverything, Some ThreadMentions}"

definition silenced_by_level :: "policy \<Rightarrow> bool" where
  "silenced_by_level p =
     (case (recipient p, about_room p) of
        (Some s, Some i) \<Rightarrow>
          map_of (room_levels (notification_preferences s)) i \<noteq> None \<and>
          preferred_involvement (notification_preferences s) i None = Some Nothing
      | _ \<Rightarrow> False)"

definition inbox_event_type :: "policy \<Rightarrow> string option" where
  "inbox_event_type p =
     (if silenced_by_level p then None
      else if \<not> (case recipient p of Some s \<Rightarrow> active_human s | None \<Rightarrow> False) \<or>
        policy_invisible p \<or> policy_muted p then None
      else
        (case about_kind p of
           RoomMessage \<Rightarrow>
             (if room_involvement p = None then None
              else if mentioned p then Some ''mention''
              else if reply_to_recipient p \<and> room_replies p then Some ''reply''
              else if keyword_matched p then Some ''keyword_alert''
              else None)
         | ThreadMessage \<Rightarrow>
             (if in_thread p = None then None
              else if in_thread p = Some ThreadNothing then None
              else if room_involvement p = None then None
              else if mentioned p \<and> thread_mentions p then Some ''mention''
              else if in_thread p = Some ThreadEverything \<and> room_replies p
                then Some (if reply_to_recipient p then ''reply'' else ''thread_activity'')
              else if keyword_matched p then Some ''keyword_alert''
              else None)
         | _ \<Rightarrow> None))"

definition base_push :: "policy \<Rightarrow> bool" where
  "base_push p =
     (case about_kind p of
        Reminder \<Rightarrow> True
      | Huddle \<Rightarrow> True
      | HuddleJoin \<Rightarrow>
          room_involvement p \<noteq> None \<and>
          room_involvement p \<notin> {Some (Some Invisible), Some (Some Nothing), Some (Some Muted)}
      | RoomMessage \<Rightarrow>
          room_involvement p \<noteq> None \<and> \<not> policy_invisible p \<and>
          room_involvement p \<noteq> Some (Some Nothing) \<and>
          (room_involvement p = Some (Some Everything) \<or> (mentioned p \<and> room_mentions p) \<or>
           (reply_to_recipient p \<and> room_replies p))
      | ThreadMessage \<Rightarrow>
          (if room_involvement p = None \<or> policy_invisible p \<or>
             room_involvement p = Some (Some Nothing) \<or> in_thread p = None \<or>
             in_thread p = Some ThreadNothing then False
           else if room_involvement p = Some (Some Muted) then mentioned p \<and> thread_mentions p
           else in_thread p = Some ThreadEverything \<or> (mentioned p \<and> thread_mentions p)))"

definition policy_push :: "wall_clock \<Rightarrow> time_reader \<Rightarrow> policy \<Rightarrow> bool" where
  "policy_push clock read_time p =
     (case recipient p of
        None \<Rightarrow> False
      | Some s \<Rightarrow>
          \<not> policy_muted p \<and> base_push p \<and>
          (\<not> quiet_for_push clock read_time s (policy_now p) \<or> dnd_exception p))"

definition policy_sound :: "wall_clock \<Rightarrow> time_reader \<Rightarrow> policy \<Rightarrow> bool" where
  "policy_sound clock read_time p = policy_push clock read_time p"

text \<open>\<^verbatim>\<open>dnd_exceptions_for\<close>, over the rows of \<^verbatim>\<open>dnd_allowed_users\<close>: who allows whom.\<close>

definition dnd_exceptions_for :: "(int \<times> int) list \<Rightarrow> int list \<Rightarrow> int option \<Rightarrow> int list" where
  "dnd_exceptions_for allowed ids sender =
     (case sender of
        None \<Rightarrow> []
      | Some u \<Rightarrow> if ids = [] then [] else map fst (filter (\<lambda>(a, b). b = u \<and> a \<in> set ids) allowed))"

subsection \<open>Agreement of the two readings of the preferences\<close>

lemma julian_ms_less: "1000 dvd a \<Longrightarrow> 1000 dvd b \<Longrightarrow> julian_ms a \<le> julian_ms b \<longleftrightarrow> a \<le> b"
  unfolding julian_ms_def by (elim dvdE) simp

lemma involvement_sql_eq:
  "involvement_sql p i stored = map_option involvement_name (preferred_involvement p i stored)"
  by (auto simp: involvement_sql_def preferred_involvement_def default_notification_level_def
      level_involvement_name split: option.splits)

lemma unmuted_sql_eq:
  assumes "1000 dvd now" and "list_all (\<lambda>e. 1000 dvd the (snd e)) (room_mute_until p)"
  shows "unmuted_sql p i now \<longleftrightarrow> \<not> room_muted p i now"
proof (cases "map_of (room_mute_until p) i")
  case (Some d)
  then have "1000 dvd the d"
    using assms(2) by (auto simp: list_all_iff dest!: map_of_SomeD)
  with Some assms(1) show ?thesis
    by (cases d) (auto simp: unmuted_sql_def room_muted_def julian_ms_less)
qed (simp add: unmuted_sql_def room_muted_def)



subsection \<open>Quiet hours\<close>

text \<open>Minutes past the start of the window, around the clock.\<close>

definition minutes_after :: "int \<Rightarrow> int \<Rightarrow> int" where
  "minutes_after a m = (m - a) mod 1440"

lemma minutes_after_eq:
  "0 \<le> a \<Longrightarrow> a < 1440 \<Longrightarrow> 0 \<le> m \<Longrightarrow> m < 1440 \<Longrightarrow>
    minutes_after a m = (if a \<le> m then m - a else m - a + 1440)"
  using mod_add_self2 [of "m - a" 1440] mod_pos_pos_trivial [of "m - a" 1440]
    mod_pos_pos_trivial [of "m - a + 1440" 1440]
  by (auto simp: minutes_after_def)

text \<open>C40.  Quiet hours are one circular window: with both ends set to minutes of the day they are
  active exactly when the local minute is fewer minutes past the start than the end is, whether
  or not the window crosses midnight, and a window of no length is never active.\<close>

theorem quiet_hours_are_circular:
  assumes "quiet_hours_start s = Some a" and "quiet_hours_end s = Some b"
    and "0 \<le> a" and "a < 1440" and "0 \<le> b" and "b < 1440"
    and "fst (clock (zone_name s) now) \<in> {0..<24}" and "snd (clock (zone_name s) now) \<in> {0..<60}"
  shows "quiet_hours_active clock s now \<longleftrightarrow>
    quiet_hours_enabled s \<and>
    minutes_after a (minute_of_day clock s now) < minutes_after a b"
proof -
  define m where "m = minute_of_day clock s now"
  obtain h k where hk: "clock (zone_name s) now = (h, k)" by (cases "clock (zone_name s) now")
  have m: "m = h * 60 + k" by (simp add: m_def minute_of_day_def hk)
  have bounds: "0 \<le> m" "m < 1440" using assms(7,8) unfolding hk m by simp_all
  have "quiet_hours_active clock s now \<longleftrightarrow>
      (if \<not> quiet_hours_enabled s \<or> a = b then False
       else if a < b then a \<le> m \<and> m < b else a \<le> m \<or> m < b)"
    unfolding quiet_hours_active_def assms(1,2) m_def by (simp add: Let_def)
  moreover have "minutes_after a m = (if a \<le> m then m - a else m - a + 1440)"
    using assms(3,4) bounds by (rule minutes_after_eq)
  moreover have "minutes_after a b = (if a \<le> b then b - a else b - a + 1440)"
    using assms(3,4,5,6) by (rule minutes_after_eq)
  ultimately show ?thesis
    using assms(3-6) bounds unfolding m_def [symmetric] by (simp split: if_splits)
qed

definition settings_with_quiet_hours :: "int \<Rightarrow> int \<Rightarrow> settings" where
  "settings_with_quiet_hours a b =
     \<lparr>s_status = Active, s_role = Member, notification_preferences = no_preferences,
      presence_setting = ''auto'', custom_status_emoji = None, custom_status_text = None,
      custom_status_expires_at = None, dnd_enabled = False, dnd_until = None,
      quiet_hours_enabled = True, quiet_hours_start = Some a, quiet_hours_end = Some b,
      time_zone = None, meeting_status_enabled = False, meeting_dnd_enabled = False,
      ooo_until = None, ooo_calendar_enabled = False, ooo_notify_enabled = False, meetings = None\<rparr>"

lemma quiet_hours_are_circular_witness:
  "let s = settings_with_quiet_hours 1320 420
   in quiet_hours_active (\<lambda>_ t. (t, 30)) s 23 \<and> \<not> quiet_hours_active (\<lambda>_ t. (t, 30)) s 12"
  using quiet_hours_are_circular [of "settings_with_quiet_hours 1320 420" 1320 420 "\<lambda>_ t. (t, 30)" 23]
    quiet_hours_are_circular [of "settings_with_quiet_hours 1320 420" 1320 420 "\<lambda>_ t. (t, 30)" 12]
  by (simp add: settings_with_quiet_hours_def minutes_after_def minute_of_day_def)

subsection \<open>Silence\<close>

definition silenced :: "policy \<Rightarrow> bool" where
  "silenced p \<longleftrightarrow>
     policy_muted p \<or> policy_invisible p \<or> room_involvement p = None \<or>
     (room_involvement p = Some (Some Nothing) \<and> silenced_by_level p)"

text \<open> A room the recipient muted for now, hid, or is no member of sends them nothing about its
  messages or threads: no push, no sound and no inbox item; the same holds for a level of
  nothing chosen in the preferences.\<close>

theorem silenced_rooms_are_silent:
  assumes "silenced p" and "about_kind p = RoomMessage \<or> about_kind p = ThreadMessage"
  shows "\<not> policy_push clock read_time p \<and> \<not> policy_sound clock read_time p \<and> inbox_event_type p = None"
proof -
  have "\<not> base_push p \<or> policy_muted p"
    using assms by (auto simp: silenced_def base_push_def)
  then have "\<not> policy_push clock read_time p"
    by (auto simp: policy_push_def split: option.split)
  moreover have "inbox_event_type p = None"
    using assms by (elim disjE) (auto simp: silenced_def inbox_event_type_def split: if_splits)
  ultimately show ?thesis by (simp add: policy_sound_def)
qed

lemma silenced_rooms_are_silent_witness:
  "let p = \<lparr>about_room = Some 7,
       recipient = Some (settings_with_quiet_hours 0 0
         \<lparr>notification_preferences := no_preferences\<lparr>room_mute_until := [(7, None)]\<rparr>\<rparr>),
       about_kind = RoomMessage, membership_involvement = Some (Some Everything), in_thread = None,
       mentioned = True, reply_to_recipient = False, keyword_matched = False, dnd_exception = True,
       policy_now = 5\<rparr>
   in \<not> policy_push (\<lambda>_ _. (0, 0)) (\<lambda>_ _. None) p \<and> inbox_event_type p = None"
  using silenced_rooms_are_silent [of "\<lparr>about_room = Some 7,
       recipient = Some (settings_with_quiet_hours 0 0
         \<lparr>notification_preferences := no_preferences\<lparr>room_mute_until := [(7, None)]\<rparr>\<rparr>),
       about_kind = RoomMessage, membership_involvement = Some (Some Everything), in_thread = None,
       mentioned = True, reply_to_recipient = False, keyword_matched = False, dnd_exception = True,
       policy_now = 5\<rparr>" "\<lambda>_ _. (0, 0)" "\<lambda>_ _. None"]
  by (simp add: silenced_def policy_muted_def room_muted_def Let_def)

end
