(* ===== verification/RoomTables.thy ===== *)
theory RoomTables
  imports NotificationPolicy
begin

section \<open>Rooms, memberships and what they are read with\<close>

text \<open>
  The rows of \<^verbatim>\<open>crates/db/src/models/room.rs\<close> and \<^verbatim>\<open>membership.rs\<close>, the columns of users, messages,
  threads, categories, blocks and agents their statements read, and the queries over them.

  A timestamp column holds text whose order is the order of the instants, so it is an instant.  A
  \<^verbatim>\<open>SELECT\<close> without \<^verbatim>\<open>ORDER BY\<close> returns rows in the order of their ids, the order of the lists.
  The rest of the database is a value of type \<open>'o\<close>.  What a transaction publishes is the list
  \<open>emitted\<close>, the hooks it registered to run after its commit the list \<open>after_hooks\<close>, and those it
  prepares just before it \<open>before_hooks\<close>.

  An operation may fail after it wrote: it returns an error or a value, and the state it leaves.
\<close>

subsection \<open>Rows\<close>

record membership =
  m_id :: int
  m_room_id :: int
  m_user_id :: int
  m_involvement :: "involvement option"
  m_unread_at :: "timestamp option"
  m_connected_at :: "timestamp option"
  m_connections :: int
  m_last_read_message_id :: "int option"
  m_stage_role :: "stage_role option"
  m_hand_raised_at :: "timestamp option"
  m_server_muted_at :: "timestamp option"
  m_last_huddle_join_push_at :: "timestamp option"
  m_room_category_id :: "int option"
  m_favorite_position :: "int option"
  m_created_at :: timestamp
  m_updated_at :: timestamp

text \<open>The last three columns are not part of \<^verbatim>\<open>struct Room\<close>; queries read them.\<close>

record room =
  r_id :: int
  r_name :: "string option"
  r_type :: room_type
  r_creator_id :: int
  r_deleted_at :: "timestamp option"
  r_destroy_enqueued_at :: "timestamp option"
  r_direct_member_key :: "string option"
  r_icon_name :: "string option"
  r_inbound_email_token :: "string option"
  r_pins_changed_at :: "timestamp option"
  r_topic :: "string option"
  r_announcement :: bool
  r_voice_bitrate :: "int option"
  r_voice_user_limit :: "int option"
  r_created_at :: timestamp
  r_updated_at :: timestamp
  r_workspace_category_id :: "int option"
  r_workspace_position :: "int option"
  r_client_room_id :: "string option"

record person =
  u_id :: int
  u_name :: string
  u_nickname :: "string option"
  u_role :: user_role
  u_status :: user_status
  u_preferences :: preferences
  u_revision :: int

record message_row =
  g_id :: int
  g_room_id :: int
  g_thread_id :: "int option"
  g_creator_id :: int
  g_system_note :: bool
  g_created_at :: timestamp

text \<open>A sidebar category of a person.\<close>

record category =
  c_id :: int
  c_user_id :: int
  c_name :: string
  c_collapsed :: bool
  c_position :: int
  c_created_at :: timestamp
  c_updated_at :: timestamp

text \<open>A category of the workspace's shared layout.\<close>

record workspace_category =
  w_id :: int
  w_name :: string
  w_position :: int
  w_created_at :: timestamp
  w_updated_at :: timestamp

text \<open>A board post: the columns of \<^verbatim>\<open>channel_threads\<close> read here.\<close>

record post_row =
  p_room_id :: int
  p_creator_id :: int
  p_created_at :: timestamp

datatype model_error = RecordNotFound string | RecordInvalid "(string \<times> string) list" | RecordNotUnique
  | OtherError string

datatype room_effect =
  SidebarOrganized int "int list" "int list" "int option"
| WorkspaceOrganized
| RoomRemoval int int string
| DisconnectUser int bool
| PushMessage int int
| MembershipChanged int
| RoomDestroyJob int
| StageEndedNote int
| MessageCreated int

datatype room_hook = GrantToActive int | MembershipDestroyed int int | CalendarRemoval int int int

record 'o room_db =
  rooms :: "room list"
  next_room :: int
  memberships :: "membership list"
  next_membership :: int
  people :: "person list"
  messages :: "message_row list"
  next_message :: int
  posts :: "post_row list"
  categories :: "category list"
  next_category :: int
  workspace_categories :: "workspace_category list"
  next_workspace_category :: int
  blocks :: "(int \<times> int) list"
  personal_agents :: "(int \<times> int option) list"
  emitted :: "room_effect list"
  before_hooks :: "room_hook list"
  after_hooks :: "room_hook list"
  elsewhere :: 'o

type_synonym ('o, 'a) op = "'o room_db \<Rightarrow> (model_error + 'a) \<times> 'o room_db"

text \<open>The operations in sequence, as \<^verbatim>\<open>?\<close> chains them.\<close>

definition yields :: "'a \<Rightarrow> ('o, 'a) op" where
  "yields x db = (Inr x, db)"

definition fails :: "model_error \<Rightarrow> ('o, 'a) op" where
  "fails e db = (Inl e, db)"

definition andthen :: "('o, 'a) op \<Rightarrow> ('a \<Rightarrow> ('o, 'b) op) \<Rightarrow> ('o, 'b) op" where
  "andthen m f db = (case m db of (Inl e, db') \<Rightarrow> (Inl e, db') | (Inr x, db') \<Rightarrow> f x db')"

definition reads :: "('o room_db \<Rightarrow> model_error + 'a) \<Rightarrow> ('o, 'a) op" where
  "reads f db = (f db, db)"

definition looks :: "('o room_db \<Rightarrow> 'a) \<Rightarrow> ('o, 'a) op" where
  "looks f db = (Inr (f db), db)"

definition writes :: "('o room_db \<Rightarrow> 'o room_db) \<Rightarrow> ('o, unit) op" where
  "writes f db = (Inr (), f db)"

text \<open>A call into the part of the database that is not modelled.\<close>

definition outside :: "('o room_db \<Rightarrow> (model_error + 'a) \<times> 'o) \<Rightarrow> ('o, 'a) op" where
  "outside f db = (case f db of (r, x) \<Rightarrow> (r, db\<lparr>elsewhere := x\<rparr>))"

fun for_each :: "('x \<Rightarrow> ('o, unit) op) \<Rightarrow> 'x list \<Rightarrow> ('o, unit) op" where
  "for_each f [] = yields ()"
| "for_each f (x # xs) = andthen (f x) (\<lambda>_. for_each f xs)"

named_theorems op_ok \<open>when an operation succeeds\<close>

lemma yields_ok [op_ok]: "yields x db = (Inr y, db') \<longleftrightarrow> y = x \<and> db' = db"
  by (auto simp: yields_def)

lemma fails_ok [op_ok]: "fails e db = (Inr y, db') \<longleftrightarrow> False"
  by (simp add: fails_def)

lemma andthen_ok [op_ok]:
  "andthen m f db = (Inr y, db') \<longleftrightarrow> (\<exists>x db1. m db = (Inr x, db1) \<and> f x db1 = (Inr y, db'))"
  by (auto simp: andthen_def split: prod.splits sum.splits)

lemma reads_ok [op_ok]: "reads f db = (Inr y, db') \<longleftrightarrow> f db = Inr y \<and> db' = db"
  by (auto simp: reads_def)

lemma looks_ok [op_ok]: "looks f db = (Inr y, db') \<longleftrightarrow> y = f db \<and> db' = db"
  by (auto simp: looks_def)

lemma writes_ok [op_ok]: "writes f db = (Inr y, db') \<longleftrightarrow> db' = f db"
  by (auto simp: writes_def)

lemma outside_ok [op_ok]:
  "outside f db = (Inr y, db') \<longleftrightarrow> (\<exists>x. f db = (Inr y, x) \<and> db' = db\<lparr>elsewhere := x\<rparr>)"
  by (auto simp: outside_def split: prod.splits)

text \<open>What every outcome of an operation keeps.\<close>

definition keeps :: "('o room_db \<Rightarrow> bool) \<Rightarrow> ('o, 'a) op \<Rightarrow> bool" where
  "keeps P m \<longleftrightarrow> (\<forall>db. P db \<longrightarrow> P (snd (m db)))"

named_theorems keeps_rules \<open>operations that keep a property of the database\<close>

lemma keepsD: "keeps P m \<Longrightarrow> P db \<Longrightarrow> m db = (r, db') \<Longrightarrow> P db'"
  by (force simp: keeps_def)

lemma keeps_yields [keeps_rules]: "keeps P (yields x)"
  by (simp add: keeps_def yields_def)

lemma keeps_fails [keeps_rules]: "keeps P (fails e)"
  by (simp add: keeps_def fails_def)

lemma keeps_reads [keeps_rules]: "keeps P (reads f)"
  by (simp add: keeps_def reads_def)

lemma keeps_looks [keeps_rules]: "keeps P (looks f)"
  by (simp add: keeps_def looks_def)

lemma keeps_andthen [keeps_rules]: "keeps P m \<Longrightarrow> (\<And>x. keeps P (f x)) \<Longrightarrow> keeps P (andthen m f)"
  by (auto simp: keeps_def andthen_def split: prod.splits sum.splits)

lemma keeps_if [keeps_rules]:
  "(b \<Longrightarrow> keeps P m) \<Longrightarrow> (\<not> b \<Longrightarrow> keeps P n) \<Longrightarrow> keeps P (if b then m else n)"
  by simp

lemma keeps_option [keeps_rules]:
  "keeps P m \<Longrightarrow> (\<And>x. keeps P (f x)) \<Longrightarrow> keeps P (case o' of None \<Rightarrow> m | Some x \<Rightarrow> f x)"
  by (cases o') simp_all

lemma keeps_writes: "(\<And>db. P db \<Longrightarrow> P (f db)) \<Longrightarrow> keeps P (writes f)"
  by (simp add: keeps_def writes_def)

lemma keeps_outside: "(\<And>db x. P db \<Longrightarrow> P (db\<lparr>elsewhere := x\<rparr>)) \<Longrightarrow> keeps P (outside f)"
  by (simp add: keeps_def outside_def split: prod.split)

lemma keeps_for_each [keeps_rules]: "(\<And>x. keeps P (f x)) \<Longrightarrow> keeps P (for_each f xs)"
  by (induction xs) (auto intro!: keeps_rules)

text \<open>\<^verbatim>\<open>Errors::into_result\<close>.\<close>

definition into_result :: "(string \<times> string) list \<Rightarrow> model_error + unit" where
  "into_result errors = (if errors = [] then Inr () else Inl (RecordInvalid errors))"

lemma into_result_Inr [simp]: "into_result es = Inr u \<longleftrightarrow> es = []"
  by (simp add: into_result_def)

subsection \<open>Reading rooms\<close>

definition find_room :: "'o room_db \<Rightarrow> int \<Rightarrow> room option" where
  "find_room db i = find (\<lambda>r. r_id r = i) (rooms db)"

definition get_room :: "'o room_db \<Rightarrow> int \<Rightarrow> model_error + room" where
  "get_room db i = (case find_room db i of Some r \<Rightarrow> Inr r | None \<Rightarrow> Inl (RecordNotFound ''Room''))"

definition rooms_for_ids :: "'o room_db \<Rightarrow> int list \<Rightarrow> room list" where
  "rooms_for_ids db ids = filter (\<lambda>r. r_id r \<in> set ids) (rooms db)"

definition alive :: "room \<Rightarrow> bool" where
  "alive r \<longleftrightarrow> r_deleted_at r = None"

definition alive_rooms :: "'o room_db \<Rightarrow> room list" where
  "alive_rooms db = filter alive (rooms db)"

definition rooms_of_type :: "'o room_db \<Rightarrow> room_type \<Rightarrow> room list" where
  "rooms_of_type db t = filter (\<lambda>r. alive r \<and> r_type r = t) (rooms db)"

definition count_of_type :: "'o room_db \<Rightarrow> room_type \<Rightarrow> nat" where
  "count_of_type db t = count_where (\<lambda>r. alive r \<and> r_type r = t) (rooms db)"

text \<open>\<^verbatim>\<open>SELECT_FOR_USER\<close>: the alive rooms joined with the user's memberships.\<close>

definition rooms_for_user :: "'o room_db \<Rightarrow> int \<Rightarrow> room list" where
  "rooms_for_user db u =
     concat (map (\<lambda>r. map (\<lambda>_. r) (filter (\<lambda>m. m_room_id m = r_id r \<and> m_user_id m = u) (memberships db)))
       (alive_rooms db))"

definition room_for_user :: "'o room_db \<Rightarrow> int \<Rightarrow> int \<Rightarrow> room option" where
  "room_for_user db u i = find (\<lambda>r. r_id r = i) (rooms_for_user db u)"

definition rooms_for_user_of_type :: "'o room_db \<Rightarrow> int \<Rightarrow> room_type \<Rightarrow> room list" where
  "rooms_for_user_of_type db u t = filter (\<lambda>r. r_type r = t) (rooms_for_user db u)"

definition rooms_for_user_without_directs :: "'o room_db \<Rightarrow> int \<Rightarrow> room list" where
  "rooms_for_user_without_directs db u = filter (\<lambda>r. r_type r \<noteq> DirectRoom) (rooms_for_user db u)"

definition last_room_for_user :: "'o room_db \<Rightarrow> int \<Rightarrow> room option" where
  "last_room_for_user db u =
     (case rooms_for_user db u of [] \<Rightarrow> None | rs \<Rightarrow> Some (last (sort_key r_id rs)))"

subsection \<open>Reading people\<close>

definition find_person :: "'o room_db \<Rightarrow> int \<Rightarrow> person option" where
  "find_person db i = find (\<lambda>u. u_id u = i) (people db)"

definition get_person :: "'o room_db \<Rightarrow> int \<Rightarrow> model_error + person" where
  "get_person db i = (case find_person db i of Some u \<Rightarrow> Inr u | None \<Rightarrow> Inl (RecordNotFound ''User''))"

definition is_active :: "person \<Rightarrow> bool" where
  "is_active u \<longleftrightarrow> u_status u = Active \<and> u_role u \<noteq> WebhookAuthor"

definition is_administrator :: "person \<Rightarrow> bool" where
  "is_administrator u \<longleftrightarrow> u_role u = Administrator"

subsection \<open>Unread rooms\<close>

text \<open>\<^verbatim>\<open>ignore_policy::visible_sql\<close>, and \<^verbatim>\<open>room_unread_sql\<close> with its row comparison.\<close>

definition visible_author :: "'o room_db \<Rightarrow> int \<Rightarrow> int \<Rightarrow> bool" where
  "visible_author db viewer author \<longleftrightarrow> (viewer, author) \<notin> set (blocks db)"

definition later_message :: "timestamp \<times> int \<Rightarrow> timestamp \<times> int \<Rightarrow> bool" where
  "later_message a b \<longleftrightarrow> fst a > fst b \<or> fst a = fst b \<and> snd a > snd b"

definition board_room :: "'o room_db \<Rightarrow> int \<Rightarrow> bool" where
  "board_room db i \<longleftrightarrow> list_ex (\<lambda>r. r_id r = i \<and> r_type r = BoardRoom) (rooms db)"

definition past_pointer :: "'o room_db \<Rightarrow> membership \<Rightarrow> timestamp \<Rightarrow> message_row \<Rightarrow> bool" where
  "past_pointer db m since_time g =
     (case m_last_read_message_id m of
        None \<Rightarrow> g_created_at g \<ge> since_time
      | Some l \<Rightarrow>
          (let read_time = (case find (\<lambda>x. g_id x = l \<and> g_room_id x = m_room_id m) (messages db) of
                              Some x \<Rightarrow> g_created_at x | None \<Rightarrow> since_time)
           in later_message (g_created_at g, g_id g) (read_time, l)))"

definition unread_message :: "'o room_db \<Rightarrow> membership \<Rightarrow> timestamp \<Rightarrow> message_row \<Rightarrow> bool" where
  "unread_message db m since_time g \<longleftrightarrow>
     g_room_id g = m_room_id m \<and> (g_thread_id g = None \<or> board_room db (m_room_id m)) \<and>
     \<not> g_system_note g \<and> g_creator_id g \<noteq> m_user_id m \<and> past_pointer db m since_time g \<and>
     visible_author db (m_user_id m) (g_creator_id g)"

definition unread_post :: "'o room_db \<Rightarrow> membership \<Rightarrow> timestamp \<Rightarrow> post_row \<Rightarrow> bool" where
  "unread_post db m since_time p \<longleftrightarrow>
     p_room_id p = m_room_id m \<and> board_room db (m_room_id m) \<and> p_created_at p \<ge> since_time \<and>
     p_creator_id p \<noteq> m_user_id m \<and> visible_author db (m_user_id m) (p_creator_id p)"

definition room_unread :: "'o room_db \<Rightarrow> membership \<Rightarrow> bool" where
  "room_unread db m =
     (case m_unread_at m of
        None \<Rightarrow> False
      | Some t \<Rightarrow>
          \<not> list_ex (\<lambda>b. fst b = m_user_id m) (blocks db) \<or> list_ex (unread_message db m t) (messages db) \<or>
          list_ex (unread_post db m t) (posts db))"

subsection \<open>Reading memberships\<close>

text \<open>A row read through \<^verbatim>\<open>policy_select\<close> shows its unread time only when something is unread.\<close>

definition policy_row :: "'o room_db \<Rightarrow> membership \<Rightarrow> membership" where
  "policy_row db m = m\<lparr>m_unread_at := (if room_unread db m then m_unread_at m else None)\<rparr>"

definition stored_membership :: "'o room_db \<Rightarrow> int \<Rightarrow> membership option" where
  "stored_membership db i = find (\<lambda>m. m_id m = i) (memberships db)"

definition get_membership :: "'o room_db \<Rightarrow> int \<Rightarrow> model_error + membership" where
  "get_membership db i =
     (case stored_membership db i of
        Some m \<Rightarrow> Inr (policy_row db m) | None \<Rightarrow> Inl (RecordNotFound ''Membership''))"

definition find_stored :: "'o room_db \<Rightarrow> int \<Rightarrow> model_error + membership" where
  "find_stored db i =
     (case stored_membership db i of Some m \<Rightarrow> Inr m | None \<Rightarrow> Inl (RecordNotFound ''Membership''))"

definition memberships_for_user :: "'o room_db \<Rightarrow> int \<Rightarrow> membership list" where
  "memberships_for_user db u = map (policy_row db) (filter (\<lambda>m. m_user_id m = u) (memberships db))"

definition memberships_for_room :: "'o room_db \<Rightarrow> int \<Rightarrow> membership list" where
  "memberships_for_room db i = filter (\<lambda>m. m_room_id m = i) (memberships db)"

definition memberships_for_rooms :: "'o room_db \<Rightarrow> int list \<Rightarrow> membership list" where
  "memberships_for_rooms db ids = filter (\<lambda>m. m_room_id m \<in> set ids) (memberships db)"

definition members_with_people :: "'o room_db \<Rightarrow> int \<Rightarrow> (membership \<times> person option) list" where
  "members_with_people db i = map (\<lambda>m. (m, find_person db (m_user_id m))) (memberships_for_room db i)"

definition member_of :: "int \<Rightarrow> int \<Rightarrow> membership \<Rightarrow> bool" where
  "member_of i u m \<longleftrightarrow> m_room_id m = i \<and> m_user_id m = u"

definition find_by_room_and_user :: "'o room_db \<Rightarrow> int \<Rightarrow> int \<Rightarrow> membership option" where
  "find_by_room_and_user db i u = map_option (policy_row db) (find (member_of i u) (memberships db))"

definition count_without_direct_rooms :: "'o room_db \<Rightarrow> int \<Rightarrow> nat" where
  "count_without_direct_rooms db u =
     count_where (\<lambda>m. m_user_id m = u \<and>
       list_ex (\<lambda>r. r_id r = m_room_id m \<and> alive r \<and> r_type r \<noteq> DirectRoom) (rooms db)) (memberships db)"

text \<open>\<^verbatim>\<open>room.user_ids\<close> joins the users, and \<^verbatim>\<open>room.users\<close> with them.\<close>

definition user_ids :: "'o room_db \<Rightarrow> int \<Rightarrow> int list" where
  "user_ids db i =
     map m_user_id (filter (\<lambda>m. find_person db (m_user_id m) \<noteq> None) (memberships_for_room db i))"

definition room_people :: "'o room_db \<Rightarrow> int \<Rightarrow> person list" where
  "room_people db i = List.map_filter (\<lambda>m. find_person db (m_user_id m)) (memberships_for_room db i)"

definition active_bots :: "'o room_db \<Rightarrow> int \<Rightarrow> person list" where
  "active_bots db i = filter (\<lambda>u. u_status u = Active \<and> u_role u = Bot) (room_people db i)"

text \<open>\<^verbatim>\<open>latest_root_message_id\<close>.\<close>

definition root_message :: "int \<Rightarrow> message_row \<Rightarrow> bool" where
  "root_message i g \<longleftrightarrow> g_room_id g = i \<and> g_thread_id g = None"

fun newest :: "message_row list \<Rightarrow> message_row option" where
  "newest [] = None"
| "newest (g # gs) =
     (case newest gs of
        None \<Rightarrow> Some g
      | Some x \<Rightarrow> Some (if later_message (g_created_at g, g_id g) (g_created_at x, g_id x) then g else x))"

definition latest_root_message_id :: "'o room_db \<Rightarrow> int \<Rightarrow> int option" where
  "latest_root_message_id db i = map_option g_id (newest (filter (root_message i) (messages db)))"

subsection \<open>Statements on memberships\<close>

definition update_memberships :: "(membership \<Rightarrow> bool) \<Rightarrow> (membership \<Rightarrow> membership) \<Rightarrow> 'o room_db \<Rightarrow> 'o room_db" where
  "update_memberships P f db = db\<lparr>memberships := update_where P f (memberships db)\<rparr>"

abbreviation update_membership :: "int \<Rightarrow> (membership \<Rightarrow> membership) \<Rightarrow> 'o room_db \<Rightarrow> 'o room_db" where
  "update_membership i f db \<equiv> update_memberships (\<lambda>m. m_id m = i) f db"

text \<open>The column defaults, and an insert, refused by the unique index on room and user.\<close>

definition new_membership :: "int \<Rightarrow> int \<Rightarrow> int \<Rightarrow> timestamp \<Rightarrow> membership" where
  "new_membership i rm u now =
     \<lparr>m_id = i, m_room_id = rm, m_user_id = u, m_involvement = Some Mentions, m_unread_at = None,
      m_connected_at = None, m_connections = 0, m_last_read_message_id = None, m_stage_role = None,
      m_hand_raised_at = None, m_server_muted_at = None, m_last_huddle_join_push_at = None,
      m_room_category_id = None, m_favorite_position = None, m_created_at = now, m_updated_at = now\<rparr>"

definition insert_membership :: "(membership \<Rightarrow> membership) \<Rightarrow> int \<Rightarrow> int \<Rightarrow> timestamp \<Rightarrow> ('o, int) op" where
  "insert_membership f rm u now db =
     (if list_ex (member_of rm u) (memberships db) then (Inl RecordNotUnique, db)
      else (Inr (next_membership db),
        db\<lparr>memberships := memberships db @ [f (new_membership (next_membership db) rm u now)],
           next_membership := next_membership db + 1\<rparr>))"

definition emit_effect :: "room_effect \<Rightarrow> 'o room_db \<Rightarrow> 'o room_db" where
  "emit_effect e db = db\<lparr>emitted := emitted db @ [e]\<rparr>"

definition prepare_hook :: "room_hook \<Rightarrow> 'o room_db \<Rightarrow> 'o room_db" where
  "prepare_hook h db = db\<lparr>before_hooks := before_hooks db @ [h]\<rparr>"

definition register_hook :: "room_hook \<Rightarrow> 'o room_db \<Rightarrow> 'o room_db" where
  "register_hook h db = db\<lparr>after_hooks := after_hooks db @ [h]\<rparr>"


subsection \<open>Numbering rows\<close>

text \<open>\<^verbatim>\<open>Iterator::position\<close>, \<^verbatim>\<open>Vec::insert\<close>, and a loop of updates that numbers the rows of a list.\<close>

fun position_of :: "'a \<Rightarrow> 'a list \<Rightarrow> nat option" where
  "position_of x [] = None"
| "position_of x (y # ys) = (if y = x then Some 0 else map_option Suc (position_of x ys))"

definition insert_at :: "nat \<Rightarrow> 'a \<Rightarrow> 'a list \<Rightarrow> 'a list" where
  "insert_at i x xs = take i xs @ x # drop i xs"

fun numbered :: "('r \<Rightarrow> int) \<Rightarrow> (int \<Rightarrow> 'r \<Rightarrow> 'r) \<Rightarrow> int \<Rightarrow> int list \<Rightarrow> 'r list \<Rightarrow> 'r list" where
  "numbered ident f p [] rows = rows"
| "numbered ident f p (i # is) rows =
     numbered ident f (p + 1) is (update_where (\<lambda>r. ident r = i) (f p) rows)"

lemma position_of_None: "position_of x xs = None \<longleftrightarrow> x \<notin> set xs"
  by (induction xs) auto

lemma position_of_outside [simp]: "x \<notin> set xs \<Longrightarrow> position_of x xs = None"
  by (simp add: position_of_None)

lemma position_of_inside: "x \<in> set xs \<Longrightarrow> \<exists>j. position_of x xs = Some j"
  using position_of_None [of x xs] by auto

lemma position_of_Some: "position_of x xs = Some j \<Longrightarrow> j < length xs \<and> xs ! j = x"
  by (induction xs arbitrary: j) (auto split: if_splits)

lemma position_of_mem: "position_of x xs = Some j \<Longrightarrow> x \<in> set xs"
  using position_of_None [of x xs] by auto

lemma position_of_nth: "distinct xs \<Longrightarrow> j < length xs \<Longrightarrow> position_of (xs ! j) xs = Some j"
proof (induction xs arbitrary: j)
  case (Cons y ys)
  then show ?case by (cases j) auto
qed simp

lemma set_insert_at [simp]: "set (insert_at i x xs) = insert x (set xs)"
proof -
  have "set xs = set (take i xs) \<union> set (drop i xs)" by (metis append_take_drop_id set_append)
  then show ?thesis by (auto simp: insert_at_def)
qed

lemma distinct_insert_at [simp]: "distinct (insert_at i x xs) \<longleftrightarrow> distinct xs \<and> x \<notin> set xs"
proof -
  have "distinct (insert_at i x xs) \<longleftrightarrow> distinct (x # take i xs @ drop i xs)"
    unfolding insert_at_def distinct_append distinct.simps set_append list.set by blast
  then show ?thesis unfolding append_take_drop_id distinct.simps by blast
qed

lemma filter_insert_at: "x \<notin> set xs \<Longrightarrow> filter (\<lambda>y. y \<noteq> x) (insert_at i x xs) = xs"
  unfolding insert_at_def
  by (metis (mono_tags, lifting) append_take_drop_id filter.simps(2) filter_True filter_append
      in_set_dropD in_set_takeD)

lemma numbered_eq:
  assumes "\<And>p r. ident (f p r) = ident r" and "distinct ids"
  shows "numbered ident f p ids rows =
    map (\<lambda>r. case position_of (ident r) ids of Some j \<Rightarrow> f (p + int j) r | None \<Rightarrow> r) rows"
  using assms(2)
proof (induction ids arbitrary: p rows)
  case (Cons i js)
  have "i \<notin> set js" using Cons.prems by simp
  then show ?case
    using Cons
    by (auto simp: update_where_def assms(1) ac_simps dest: position_of_mem split: option.splits)
qed simp

text \<open>Rows sorted by places that number them are in the order of those numbers.\<close>

lemma sorted_by_number:
  assumes sorted: "sorted (map k xs)" and dist: "distinct (map ident xs)" and ids: "distinct ids"
    and set_eq: "set (map ident xs) = set ids"
    and place: "\<And>x. x \<in> set xs \<Longrightarrow> \<exists>j. position_of (ident x) ids = Some j \<and> k x = (int j :: int)"
  shows "map ident xs = ids"
proof -
  have inj: "ident x = ident y" if "x \<in> set xs" "y \<in> set xs" "k x = k y" for x y
    using place [OF that(1)] place [OF that(2)] that(3) by (auto dest!: position_of_Some)
  have len: "length xs = length ids"
    using distinct_card [OF dist] distinct_card [OF ids] set_eq by simp
  have "distinct (map k xs)"
    unfolding distinct_map
  proof
    show "distinct xs" using dist by (simp add: distinct_map)
    show "inj_on k (set xs)"
      using dist inj unfolding distinct_map inj_on_def by metis
  qed
  moreover have "set (map k xs) = set (map int [0..<length ids])"
  proof
    show "set (map k xs) \<subseteq> set (map int [0..<length ids])"
    proof
      fix n assume "n \<in> set (map k xs)"
      then obtain x where x: "x \<in> set xs" "n = k x" by auto
      with place [OF x(1)] show "n \<in> set (map int [0..<length ids])"
        by (auto dest: position_of_Some)
    qed
    show "set (map int [0..<length ids]) \<subseteq> set (map k xs)"
    proof
      fix n assume "n \<in> set (map int [0..<length ids])"
      then obtain j where j: "n = int j" "j < length ids" by auto
      then obtain x where x: "x \<in> set xs" "ident x = ids ! j"
        using set_eq by (metis (no_types, lifting) imageE image_set nth_mem)
      then have "k x = int j" using place [OF x(1)] position_of_nth [OF ids j(2)] by auto
      then show "n \<in> set (map k xs)" using x(1) j(1) by force
    qed
  qed
  ultimately have keys: "map k xs = map int [0..<length ids]"
    using sorted sorted_distinct_set_unique [of "map k xs" "map int [0..<length ids]"]
    by (simp add: distinct_map sorted_map)
  show ?thesis
  proof (rule nth_equalityI)
    fix j assume j: "j < length (map ident xs)"
    then have "k (xs ! j) = int j" using keys len by (metis length_map nth_map nth_upt add_0 map_nth)
    with place [of "xs ! j"] j show "map ident xs ! j = ids ! j"
      by (auto dest!: position_of_Some)
  qed (simp add: len)
qed


text \<open>The contract of a numbering: an update of a row that writes its number.\<close>

definition numbered_row :: "('r \<Rightarrow> int) \<Rightarrow> (int \<Rightarrow> 'r \<Rightarrow> 'r) \<Rightarrow> int list \<Rightarrow> 'r \<Rightarrow> 'r" where
  "numbered_row ident put ids r =
     (case position_of (ident r) ids of Some j \<Rightarrow> put (int j) r | None \<Rightarrow> r)"

locale numbering =
  fixes ident :: "'r \<Rightarrow> int" and put :: "int \<Rightarrow> 'r \<Rightarrow> 'r" and number :: "'r \<Rightarrow> int option"
  assumes ident_put: "ident (put p r) = ident r"
    and number_put: "number (put p r) = Some p"
begin

lemma ident_row: "ident (numbered_row ident put ids r) = ident r"
  by (simp add: numbered_row_def ident_put split: option.split)

lemma numbered_rows: "distinct ids \<Longrightarrow> numbered ident put 0 ids table = map (numbered_row ident put ids) table"
  by (auto simp: numbered_eq ident_put numbered_row_def split: option.split)

lemma outside_row: "ident r \<notin> set ids \<Longrightarrow> numbered_row ident put ids r = r"
  by (simp add: numbered_row_def)

lemma inside_row:
  "ident r \<in> set ids \<Longrightarrow>
    \<exists>j. position_of (ident r) ids = Some j \<and> number (numbered_row ident put ids r) = Some (int j)"
  using position_of_inside [of "ident r" ids] by (auto simp: numbered_row_def number_put)

lemma in_order:
  assumes "sorted (map k xs)" and "distinct (map ident xs)" and "distinct ids" and "set (map ident xs) = set ids"
    and "\<And>x. x \<in> set xs \<Longrightarrow> (\<exists>r. x = numbered_row ident put ids r) \<and> (\<forall>p. number x = Some p \<longrightarrow> k x = p)"
  shows "map ident xs = ids"
proof (rule sorted_by_number [OF assms(1-4)])
  fix x assume x: "x \<in> set xs"
  obtain r where r: "x = numbered_row ident put ids r" using assms(5) [OF x] by blast
  have "ident x \<in> set ids" using imageI [OF x, of ident] assms(4) by simp
  with r ident_row [of ids r] have "ident r \<in> set ids" by simp
  with inside_row [OF this] assms(5) [OF x] r ident_row [of ids r]
  show "\<exists>j. position_of (ident x) ids = Some j \<and> k x = int j" by auto
qed

end

text \<open>No two rows under one id.\<close>

definition distinct_rooms :: "'o room_db \<Rightarrow> bool" where
  "distinct_rooms db \<longleftrightarrow> distinct (map r_id (rooms db))"

definition distinct_members :: "'o room_db \<Rightarrow> bool" where
  "distinct_members db \<longleftrightarrow> distinct (map m_id (memberships db))"

lemma room_unique: "distinct_rooms db \<Longrightarrow> r \<in> set (rooms db) \<Longrightarrow> x \<in> set (rooms db) \<Longrightarrow> r_id r = r_id x \<Longrightarrow> r = x"
  unfolding distinct_rooms_def distinct_map by (blast dest: inj_onD)

lemma member_unique:
  "distinct_members db \<Longrightarrow> x \<in> set (memberships db) \<Longrightarrow> y \<in> set (memberships db) \<Longrightarrow> m_id x = m_id y \<Longrightarrow> x = y"
  unfolding distinct_members_def distinct_map by (blast dest: inj_onD)

text \<open>An empty database, and plain rows to fill it with.\<close>

definition empty_room_db :: "unit room_db" where
  "empty_room_db =
     \<lparr>rooms = [], next_room = 1, memberships = [], next_membership = 1, people = [], messages = [],
      next_message = 1, posts = [], categories = [], next_category = 1, workspace_categories = [],
      next_workspace_category = 1, blocks = [], personal_agents = [], emitted = [], before_hooks = [],
      after_hooks = [], elsewhere = ()\<rparr>"

definition plain_room :: "int \<Rightarrow> room_type \<Rightarrow> int \<Rightarrow> room" where
  "plain_room i t creator =
     \<lparr>r_id = i, r_name = None, r_type = t, r_creator_id = creator, r_deleted_at = None,
      r_destroy_enqueued_at = None, r_direct_member_key = None, r_icon_name = None,
      r_inbound_email_token = None, r_pins_changed_at = None, r_topic = None, r_announcement = False,
      r_voice_bitrate = None, r_voice_user_limit = None, r_created_at = 0, r_updated_at = 0,
      r_workspace_category_id = None, r_workspace_position = None, r_client_room_id = None\<rparr>"

definition plain_person :: "int \<Rightarrow> person" where
  "plain_person i =
     \<lparr>u_id = i, u_name = ''Ann'', u_nickname = None, u_role = Member, u_status = Active, u_preferences = no_preferences, u_revision = 0\<rparr>"

end
