(* ===== verification/Memberships.thy ===== *)
theory Memberships
  imports RoomTables
begin

section \<open>Memberships\<close>

text \<open>
  The operations of \<^verbatim>\<open>crates/db/src/models/membership.rs\<close> and \<^verbatim>\<open>stage.rs\<close>, each in the transaction of
  the caller.  A method on \<^verbatim>\<open>&mut self\<close> takes the caller's copy of the row and returns the new copy.
  Calls into huddle grants, streams, agent grants, activity items, scheduled messages and thread
  memberships are fields of the environment: they read the whole database and write only tables
  that are not modelled.
\<close>

record 'o room_env =
  tx_now :: timestamp
  sqlite_now :: timestamp
  digest :: "string \<Rightarrow> string"
  mentionees :: "int \<Rightarrow> int list"
  revoke_huddle :: "int \<Rightarrow> 'o room_db \<Rightarrow> (model_error + unit) \<times> 'o"
  revoke_room_huddle :: "int \<Rightarrow> 'o room_db \<Rightarrow> (model_error + unit) \<times> 'o"
  replace_grants :: "int \<Rightarrow> 'o room_db \<Rightarrow> (model_error + unit) \<times> 'o"
  set_grant_roles :: "stage_role \<Rightarrow> int \<Rightarrow> 'o room_db \<Rightarrow> (model_error + unit) \<times> 'o"
  end_member_streams :: "int \<Rightarrow> int \<Rightarrow> 'o room_db \<Rightarrow> (model_error + unit) \<times> 'o"
  end_room_streams :: "int \<Rightarrow> 'o room_db \<Rightarrow> (model_error + unit) \<times> 'o"
  revoke_agent_grants :: "int \<Rightarrow> int \<Rightarrow> 'o room_db \<Rightarrow> (model_error + unit) \<times> 'o"
  emit_hidden :: "int \<Rightarrow> int option \<Rightarrow> 'o room_db \<Rightarrow> (model_error + unit) \<times> 'o"
  emit_pending :: "int \<Rightarrow> int option \<Rightarrow> 'o room_db \<Rightarrow> (model_error + unit) \<times> 'o"
  prepare_note :: "string \<Rightarrow> 'o room_db \<Rightarrow> (model_error + unit) \<times> 'o"
  note_created :: "int \<Rightarrow> 'o room_db \<Rightarrow> (model_error + unit) \<times> 'o"
  delete_webhooks :: "int \<Rightarrow> 'o room_db \<Rightarrow> (model_error + unit) \<times> 'o"
  end_deleted_room :: "int \<Rightarrow> 'o room_db \<Rightarrow> (model_error + unit) \<times> 'o"
  forget_threads :: "int \<Rightarrow> int \<Rightarrow> 'o room_db \<Rightarrow> (model_error + unit) \<times> 'o"

text \<open>An environment whose other tables are empty: their calls do nothing.\<close>

definition quiet_env :: "timestamp \<Rightarrow> unit room_env" where
  "quiet_env now =
     \<lparr>tx_now = now, sqlite_now = now, digest = id, mentionees = \<lambda>_. [],
      revoke_huddle = \<lambda>_ _. (Inr (), ()), revoke_room_huddle = \<lambda>_ _. (Inr (), ()),
      replace_grants = \<lambda>_ _. (Inr (), ()), set_grant_roles = \<lambda>_ _ _. (Inr (), ()),
      end_member_streams = \<lambda>_ _ _. (Inr (), ()), end_room_streams = \<lambda>_ _. (Inr (), ()),
      revoke_agent_grants = \<lambda>_ _ _. (Inr (), ()), emit_hidden = \<lambda>_ _ _. (Inr (), ()),
      emit_pending = \<lambda>_ _ _. (Inr (), ()), prepare_note = \<lambda>_ _. (Inr (), ()),
      note_created = \<lambda>_ _. (Inr (), ()), delete_webhooks = \<lambda>_ _. (Inr (), ()),
      end_deleted_room = \<lambda>_ _. (Inr (), ()), forget_threads = \<lambda>_ _ _. (Inr (), ())\<rparr>"

definition must_exist :: "string \<Rightarrow> string \<times> string" where
  "must_exist field = (field, ''must exist'')"

subsection \<open>Creation\<close>

definition membership_associations :: "int \<Rightarrow> int \<Rightarrow> 'o room_db \<Rightarrow> (string \<times> string) list" where
  "membership_associations rm u db =
     (if find_room db rm = None then [must_exist ''room''] else []) @
     (if find_person db u = None then [must_exist ''user''] else [])"

definition create_default :: "'o room_env \<Rightarrow> int \<Rightarrow> int \<Rightarrow> ('o, membership) op" where
  "create_default env rm u =
     andthen (reads (\<lambda>db. into_result (membership_associations rm u db))) (\<lambda>_.
     andthen (looks (\<lambda>db. case find_room db rm of
         Some r \<Rightarrow> if r_type r = StageRoom then Some Listener else None | None \<Rightarrow> None)) (\<lambda>role.
     andthen (insert_membership (m_stage_role_update (\<lambda>_. role)) rm u (tx_now env)) (\<lambda>i.
     reads (\<lambda>db. get_membership db i))))"

definition join_open :: "'o room_env \<Rightarrow> int \<Rightarrow> int \<Rightarrow> ('o, membership \<times> bool) op" where
  "join_open env rm u =
     andthen (reads (\<lambda>db. get_room db rm)) (\<lambda>r.
     if r_type r \<noteq> OpenRoom \<or> r_deleted_at r \<noteq> None then fails (RecordNotFound ''Room'')
     else
       andthen (reads (\<lambda>db. get_person db u)) (\<lambda>_.
       andthen (looks (\<lambda>db. find_by_room_and_user db rm u)) (\<lambda>found.
       case found of
         Some m \<Rightarrow> yields (m, False)
       | None \<Rightarrow>
           andthen (insert_membership
               (m_involvement_update (\<lambda>_. Some (default_involvement (r_type r)))) rm u (tx_now env)) (\<lambda>i.
           andthen (reads (\<lambda>db. get_membership db i)) (\<lambda>m. yields (m, True))))))"

subsection \<open>Sidebar organization\<close>

definition organization_errors :: "membership \<Rightarrow> int option \<Rightarrow> 'o room_db \<Rightarrow> (string \<times> string) list" where
  "organization_errors m cat db =
     membership_associations (m_room_id m) (m_user_id m) db @
     (case cat of
        None \<Rightarrow> []
      | Some c \<Rightarrow>
          (case find (\<lambda>x. c_id x = c) (categories db) of
             Some x \<Rightarrow>
               if c_user_id x \<noteq> m_user_id m then [(''room_category'', ''must belong to the member'')] else []
           | None \<Rightarrow> []))"

definition validate_organization :: "membership \<Rightarrow> int option \<Rightarrow> ('o, unit) op" where
  "validate_organization m cat = reads (\<lambda>db. into_result (organization_errors m cat db))"

text \<open>\<^verbatim>\<open>SidebarOrganized::emit\<close>, which says nothing of no change, and \<^verbatim>\<open>reload\<close>.\<close>

definition emit_sidebar :: "int \<Rightarrow> int list \<Rightarrow> int list \<Rightarrow> int option \<Rightarrow> 'o room_db \<Rightarrow> 'o room_db" where
  "emit_sidebar u ms cs removed db =
     (if ms = [] \<and> cs = [] \<and> removed = None then db
      else emit_effect (SidebarOrganized u ms cs removed) db)"

definition emit_organized :: "membership \<Rightarrow> int list \<Rightarrow> 'o room_db \<Rightarrow> 'o room_db" where
  "emit_organized m ids = emit_sidebar (m_user_id m) ids [] None"

definition reload :: "membership \<Rightarrow> ('o, membership) op" where
  "reload m = reads (\<lambda>db. get_membership db (m_id m))"

definition update_category :: "'o room_env \<Rightarrow> int option \<Rightarrow> membership \<Rightarrow> ('o, membership) op" where
  "update_category env cat m0 =
     andthen (reload m0) (\<lambda>m.
     andthen (validate_organization m cat) (\<lambda>_.
     if m_room_category_id m = cat then yields m
     else
       andthen (writes (update_membership (m_id m)
           (\<lambda>x. x\<lparr>m_room_category_id := cat, m_updated_at := tx_now env\<rparr>))) (\<lambda>_.
       andthen (reload m) (\<lambda>m'.
       andthen (writes (emit_organized m' [m_id m'])) (\<lambda>_.
       yields m')))))"

definition favorited :: "membership \<Rightarrow> bool" where
  "favorited m \<longleftrightarrow> m_favorite_position m \<noteq> None"

definition favorite_rows :: "'o room_db \<Rightarrow> int \<Rightarrow> membership list" where
  "favorite_rows db u = filter (\<lambda>m. m_user_id m = u \<and> favorited m) (memberships db)"

text \<open>\<^verbatim>\<open>ORDER BY favorite_position, id\<close>, as two stable sorts.\<close>

definition favorites_for_user :: "'o room_db \<Rightarrow> int \<Rightarrow> membership list" where
  "favorites_for_user db u =
     sort_key (\<lambda>m. the (m_favorite_position m)) (sort_key m_id (favorite_rows db u))"

definition next_favorite_position :: "'o room_db \<Rightarrow> int \<Rightarrow> int" where
  "next_favorite_position db u =
     foldr (\<lambda>m n. max (the (m_favorite_position m)) n) (tl (favorite_rows db u))
       (case favorite_rows db u of [] \<Rightarrow> - 1 | m # _ \<Rightarrow> the (m_favorite_position m)) + 1"

definition set_favorite_position :: "'o room_env \<Rightarrow> int option \<Rightarrow> membership \<Rightarrow> ('o, membership) op" where
  "set_favorite_position env p m =
     andthen (validate_organization m (m_room_category_id m)) (\<lambda>_.
     if m_favorite_position m = p then yields m
     else
       andthen (writes (update_membership (m_id m)
           (\<lambda>x. x\<lparr>m_favorite_position := p, m_updated_at := tx_now env\<rparr>))) (\<lambda>_.
       andthen (reload m) (\<lambda>m'.
       andthen (writes (emit_organized m' [m_id m'])) (\<lambda>_.
       yields m'))))"

definition favorite :: "'o room_env \<Rightarrow> membership \<Rightarrow> ('o, membership) op" where
  "favorite env m0 =
     andthen (reload m0) (\<lambda>m.
     if favorited m then yields m
     else
       andthen (looks (\<lambda>db. next_favorite_position db (m_user_id m))) (\<lambda>p.
       set_favorite_position env (Some p) m))"

definition unfavorite :: "'o room_env \<Rightarrow> membership \<Rightarrow> ('o, membership) op" where
  "unfavorite env m0 = andthen (reload m0) (\<lambda>m. set_favorite_position env None m)"

text \<open>The favourites the sidebar shows, the moved one aside.\<close>

definition shown_in_sidebar :: "'o room_db \<Rightarrow> membership \<Rightarrow> bool" where
  "shown_in_sidebar db m \<longleftrightarrow>
     m_involvement m \<noteq> None \<and> m_involvement m \<noteq> Some Invisible \<and>
     list_ex (\<lambda>r. r_id r = m_room_id m \<and> alive r) (rooms db)"

definition shown_favorites :: "'o room_db \<Rightarrow> int \<Rightarrow> int \<Rightarrow> int list" where
  "shown_favorites db u moved =
     map m_id (filter (\<lambda>m. shown_in_sidebar db m \<and> m_id m \<noteq> moved) (favorites_for_user db u))"

definition drop_index :: "int list \<Rightarrow> int list \<Rightarrow> int \<Rightarrow> nat" where
  "drop_index shown ids p =
     (let i = nat (max p 0)
      in if i < length shown
         then (case position_of (shown ! i) ids of Some j \<Rightarrow> j | None \<Rightarrow> length ids)
         else length ids)"

definition renumber :: "timestamp \<Rightarrow> int list \<Rightarrow> 'o room_db \<Rightarrow> 'o room_db" where
  "renumber now ids db =
     db\<lparr>memberships := numbered m_id
          (\<lambda>p x. x\<lparr>m_favorite_position := Some p, m_updated_at := now\<rparr>) 0 ids (memberships db)\<rparr>"

fun moved_favorites :: "membership list \<Rightarrow> int \<Rightarrow> int list \<Rightarrow> int list" where
  "moved_favorites before p [] = []"
| "moved_favorites before p (i # is) =
     (if list_ex (\<lambda>m. m_id m = i \<and> m_favorite_position m \<noteq> Some p) before then [i] else []) @
     moved_favorites before (p + 1) is"

definition renumber_favorites :: "'o room_env \<Rightarrow> membership list \<Rightarrow> int list \<Rightarrow> membership \<Rightarrow> ('o, membership) op" where
  "renumber_favorites env before ids m =
     andthen (writes (renumber (tx_now env) ids)) (\<lambda>_.
     andthen (writes (emit_organized m (moved_favorites before 0 ids))) (\<lambda>_.
     reload m))"

definition move_favorite_to :: "'o room_env \<Rightarrow> int \<Rightarrow> membership \<Rightarrow> ('o, membership) op" where
  "move_favorite_to env p m0 =
     andthen (reload m0) (\<lambda>m.
     if \<not> favorited m then yields m
     else
       andthen (looks (\<lambda>db. favorites_for_user db (m_user_id m))) (\<lambda>before.
       andthen (looks (\<lambda>db. shown_favorites db (m_user_id m) (m_id m))) (\<lambda>shown.
       let ids = filter (\<lambda>i. i \<noteq> m_id m) (map m_id before)
       in renumber_favorites env before (insert_at (drop_index shown ids p) (m_id m) ids) m)))"

subsection \<open>Involvement and read state\<close>

definition update_people :: "(person \<Rightarrow> bool) \<Rightarrow> (person \<Rightarrow> person) \<Rightarrow> 'o room_db \<Rightarrow> 'o room_db" where
  "update_people P f db = db\<lparr>people := update_where P f (people db)\<rparr>"

definition bump_revision :: "int \<Rightarrow> 'o room_db \<Rightarrow> 'o room_db" where
  "bump_revision u = update_people (\<lambda>x. u_id x = u) (\<lambda>x. x\<lparr>u_revision := u_revision x + 1\<rparr>)"

definition has_room_level :: "int \<Rightarrow> person \<Rightarrow> bool" where
  "has_room_level rm x \<longleftrightarrow> map_of (room_levels (u_preferences x)) rm \<noteq> None"

definition forget_room_level :: "int \<Rightarrow> person \<Rightarrow> person" where
  "forget_room_level rm x =
     x\<lparr>u_preferences := (u_preferences x)\<lparr>room_levels :=
         filter (\<lambda>e. fst e \<noteq> rm) (room_levels (u_preferences x))\<rparr>\<rparr>"

definition visible_level :: "involvement option \<Rightarrow> bool" where
  "visible_level l \<longleftrightarrow> l \<noteq> None \<and> l \<noteq> Some Invisible"

definition on_workspace_layout :: "'o room_db \<Rightarrow> int \<Rightarrow> bool" where
  "on_workspace_layout db rm =
     list_ex (\<lambda>r. r_id r = rm \<and> r_type r \<noteq> DirectRoom \<and> alive r \<and>
       (r_workspace_category_id r \<noteq> None \<or> r_workspace_position r \<noteq> None)) (rooms db)"

definition update_involvement :: "'o room_env \<Rightarrow> involvement option \<Rightarrow> membership \<Rightarrow> ('o, membership) op" where
  "update_involvement env level m =
     andthen (looks (\<lambda>db. list_ex (\<lambda>x. u_id x = m_user_id m \<and> has_room_level (m_room_id m) x) (people db)))
       (\<lambda>removed.
     andthen (writes (update_people (\<lambda>x. u_id x = m_user_id m \<and> has_room_level (m_room_id m) x)
         (forget_room_level (m_room_id m)))) (\<lambda>_.
     if m_involvement m = level
     then andthen (writes (if removed then bump_revision (m_user_id m) else id)) (\<lambda>_. yields m)
     else
       andthen (looks (\<lambda>db. visible_level (m_involvement m) \<noteq> visible_level level \<and>
           on_workspace_layout db (m_room_id m))) (\<lambda>organized.
       andthen (writes (if organized then emit_effect WorkspaceOrganized else id)) (\<lambda>_.
       andthen (writes (update_membership (m_id m)
           (\<lambda>x. x\<lparr>m_involvement := level, m_updated_at := tx_now env\<rparr>))) (\<lambda>_.
       andthen (writes (bump_revision (m_user_id m))) (\<lambda>_.
       yields (m\<lparr>m_involvement := level, m_updated_at := tx_now env\<rparr>)))))))"

definition read_room :: "'o room_env \<Rightarrow> membership \<Rightarrow> ('o, membership) op" where
  "read_room env m =
     andthen (validate_organization m (m_room_category_id m)) (\<lambda>_.
     andthen (looks (\<lambda>db. latest_root_message_id db (m_room_id m))) (\<lambda>newest_id.
     andthen (reads (\<lambda>db. find_stored db (m_id m))) (\<lambda>stored.
     if m_unread_at stored = None \<and> m_last_read_message_id stored = newest_id then yields stored
     else
       andthen (writes (update_membership (m_id m)
           (\<lambda>x. x\<lparr>m_unread_at := None, m_last_read_message_id := newest_id, m_updated_at := tx_now env\<rparr>))) (\<lambda>_.
       yields (m\<lparr>m_unread_at := None, m_last_read_message_id := newest_id, m_updated_at := tx_now env\<rparr>)))))"

definition previous_root :: "'o room_db \<Rightarrow> int \<Rightarrow> message_row \<Rightarrow> int option" where
  "previous_root db rm g =
     map_option g_id (newest (filter (\<lambda>x. root_message rm x \<and>
       later_message (g_created_at g, g_id g) (g_created_at x, g_id x)) (messages db)))"

definition mark_unread_before :: "'o room_env \<Rightarrow> message_row \<Rightarrow> membership \<Rightarrow> ('o, membership) op" where
  "mark_unread_before env g m =
     (if g_room_id g \<noteq> m_room_id m \<or> g_thread_id g \<noteq> None then fails (RecordNotFound ''Message'')
      else
        andthen (validate_organization m (m_room_category_id m)) (\<lambda>_.
        andthen (looks (\<lambda>db. previous_root db (m_room_id m) g)) (\<lambda>previous.
        if m_unread_at m = Some (g_created_at g) \<and> m_last_read_message_id m = previous then yields m
        else
          andthen (writes (update_membership (m_id m)
              (\<lambda>x. x\<lparr>m_unread_at := Some (g_created_at g), m_last_read_message_id := previous,
                     m_updated_at := tx_now env\<rparr>))) (\<lambda>_.
          reload m))))"

text \<open>\<^verbatim>\<open>unread_count\<close>, the push badge; loading the preferences of nobody is an error.\<close>

definition unread_count :: "'o room_db \<Rightarrow> int \<Rightarrow> timestamp \<Rightarrow> model_error + nat" where
  "unread_count db u now =
     (case find_person db u of
        None \<Rightarrow> Inl (OtherError ''Query returned no rows'')
      | Some x \<Rightarrow> Inr (count_where (\<lambda>m. m_user_id m = u \<and> room_unread db m \<and>
            \<not> room_muted (u_preferences x) (m_room_id m) now) (memberships db)))"

subsection \<open>Stage and voice rooms\<close>

definition other_host :: "'o room_db \<Rightarrow> int \<Rightarrow> int \<Rightarrow> bool" where
  "other_host db rm i =
     list_ex (\<lambda>m. m_room_id m = rm \<and> m_stage_role m = Some Host \<and> m_id m \<noteq> i) (memberships db)"

definition call_errors :: "'o room_db \<Rightarrow> room \<Rightarrow> membership \<Rightarrow> stage_role option \<Rightarrow> timestamp option
    \<Rightarrow> timestamp option \<Rightarrow> (string \<times> string) list" where
  "call_errors db r m role hand muted =
     (if r_type r \<noteq> StageRoom \<and> role \<noteq> None
      then [(''stage_role'', ''only exists on stage rooms'')] else []) @
     (if r_type r \<noteq> StageRoom \<and> hand \<noteq> None
      then [(''hand_raised_at'', ''only exists on stage rooms'')] else []) @
     (if hand \<noteq> None \<and> role \<noteq> Some Listener
      then [(''hand_raised_at'', ''can only be raised by a listener'')] else []) @
     (if r_type r \<noteq> StageRoom \<and> r_type r \<noteq> VoiceRoom \<and> muted \<noteq> None
      then [(''server_muted_at'', ''only exists on stage and voice rooms'')] else []) @
     (if m_stage_role m = Some Host \<and> role \<noteq> m_stage_role m \<and> \<not> other_host db (m_room_id m) (m_id m)
      then [(''stage_role'', ''can't demote the last host'')] else [])"

definition validate_call_attributes :: "stage_role option \<Rightarrow> timestamp option \<Rightarrow> timestamp option
    \<Rightarrow> membership \<Rightarrow> ('o, unit) op" where
  "validate_call_attributes role hand muted m =
     andthen (reads (\<lambda>db. get_room db (m_room_id m))) (\<lambda>r.
     andthen (looks (\<lambda>db. call_errors db r m role hand muted)) (\<lambda>errors.
     andthen (validate_organization m (m_room_category_id m)) (\<lambda>_.
     reads (\<lambda>_. into_result errors))))"

definition raise_hand :: "'o room_env \<Rightarrow> membership \<Rightarrow> ('o, membership \<times> bool) op" where
  "raise_hand env m =
     (if m_hand_raised_at m \<noteq> None then yields (m, False)
      else
        andthen (validate_call_attributes (m_stage_role m) (Some (tx_now env)) (m_server_muted_at m) m) (\<lambda>_.
        andthen (writes (update_membership (m_id m)
            (\<lambda>x. x\<lparr>m_hand_raised_at := Some (tx_now env), m_updated_at := tx_now env\<rparr>))) (\<lambda>_.
        andthen (reload m) (\<lambda>m'. yields (m', True)))))"

definition lower_hand :: "'o room_env \<Rightarrow> membership \<Rightarrow> ('o, membership \<times> bool) op" where
  "lower_hand env m =
     andthen (validate_call_attributes (m_stage_role m) None (m_server_muted_at m) m) (\<lambda>_.
     if m_hand_raised_at m \<noteq> None
     then
       andthen (writes (update_membership (m_id m)
           (\<lambda>x. x\<lparr>m_hand_raised_at := None, m_updated_at := tx_now env\<rparr>))) (\<lambda>_.
       andthen (reload m) (\<lambda>m'. yields (m', True)))
     else yields (m, True))"

definition change_stage_role :: "'o room_env \<Rightarrow> stage_role \<Rightarrow> membership \<Rightarrow> ('o, membership) op" where
  "change_stage_role env role m =
     andthen (validate_call_attributes (Some role) None (m_server_muted_at m) m) (\<lambda>_.
     if m_stage_role m = Some role \<and> m_hand_raised_at m = None then yields m
     else
       (let changed = (m_stage_role m \<noteq> Some role);
            replace = (changed \<and> (m_stage_role m = Some Listener) \<noteq> (role = Listener))
        in
        andthen (if changed \<and> \<not> replace then outside (set_grant_roles env role (m_id m)) else yields ()) (\<lambda>_.
        andthen (writes (update_membership (m_id m)
            (\<lambda>x. x\<lparr>m_stage_role := Some role, m_hand_raised_at := None, m_updated_at := tx_now env\<rparr>))) (\<lambda>_.
        andthen (if replace then outside (replace_grants env (m_id m)) else yields ()) (\<lambda>_.
        reload m)))))"

definition set_server_muted :: "'o room_env \<Rightarrow> bool \<Rightarrow> membership \<Rightarrow> ('o, membership \<times> bool) op" where
  "set_server_muted env muted m =
     (if (m_server_muted_at m \<noteq> None) = muted then yields (m, False)
      else
        (let muted_time = (if muted then Some (tx_now env) else None)
         in
         andthen (validate_call_attributes (m_stage_role m) (m_hand_raised_at m) muted_time m) (\<lambda>_.
         andthen (outside (revoke_huddle env (m_id m))) (\<lambda>_.
         andthen (writes (update_membership (m_id m)
             (\<lambda>x. x\<lparr>m_server_muted_at := muted_time, m_updated_at := tx_now env\<rparr>))) (\<lambda>_.
         andthen (reload m) (\<lambda>m'. yields (m', True)))))))"

text \<open>\<^verbatim>\<open>Message::create\<close> for a system note: the row, the touched room, and the callbacks.\<close>

definition touch_room :: "timestamp \<Rightarrow> int \<Rightarrow> 'o room_db \<Rightarrow> 'o room_db" where
  "touch_room now rm db =
     db\<lparr>rooms := update_where (\<lambda>r. r_id r = rm) (\<lambda>r. r\<lparr>r_updated_at := now\<rparr>) (rooms db)\<rparr>"

definition note_associations :: "int \<Rightarrow> int \<Rightarrow> 'o room_db \<Rightarrow> (string \<times> string) list" where
  "note_associations rm u db =
     (if find_room db rm = None then [must_exist ''room''] else []) @
     (if find_person db u = None then [must_exist ''creator''] else [])"

definition create_note :: "'o room_env \<Rightarrow> int \<Rightarrow> int \<Rightarrow> string \<Rightarrow> ('o, int) op" where
  "create_note env rm u body =
     andthen (outside (prepare_note env body)) (\<lambda>_.
     andthen (reads (\<lambda>db. into_result (note_associations rm u db))) (\<lambda>_.
     andthen (looks next_message) (\<lambda>i.
     andthen (writes (\<lambda>db. db\<lparr>messages := messages db @
         [\<lparr>g_id = i, g_room_id = rm, g_thread_id = None, g_creator_id = u, g_system_note = True,
           g_created_at = tx_now env\<rparr>],
         next_message := i + 1\<rparr>)) (\<lambda>_.
     andthen (writes (touch_room (tx_now env) rm)) (\<lambda>_.
     andthen (outside (note_created env i)) (\<lambda>_.
     yields i))))))"

text \<open>\<^verbatim>\<open>host_departed\<close>: the members by the time they joined, and who takes over.\<close>

definition remaining_members :: "'o room_db \<Rightarrow> int \<Rightarrow> int list" where
  "remaining_members db rm = map m_id (sort_key m_created_at (memberships_for_room db rm))"

fun successor :: "int \<Rightarrow> int list \<Rightarrow> ('o, int) op" where
  "successor first [] = yields first"
| "successor first (i # is) =
     andthen (reads (\<lambda>db. get_membership db i)) (\<lambda>m.
     andthen (reads (\<lambda>db. get_person db (m_user_id m))) (\<lambda>u.
     if is_active u \<and> is_administrator u then yields i else successor first is))"

definition stage_room :: "'o room_db \<Rightarrow> int \<Rightarrow> bool" where
  "stage_room db rm \<longleftrightarrow> (case find_room db rm of Some r \<Rightarrow> r_type r = StageRoom | None \<Rightarrow> False)"

definition has_host :: "'o room_db \<Rightarrow> int \<Rightarrow> bool" where
  "has_host db rm = list_ex (\<lambda>m. m_room_id m = rm \<and> m_stage_role m = Some Host) (memberships db)"

definition host_departed :: "'o room_env \<Rightarrow> int \<Rightarrow> int \<Rightarrow> ('o, unit) op" where
  "host_departed env rm departed =
     andthen (looks (\<lambda>db. stage_room db rm)) (\<lambda>stage.
     if \<not> stage then yields ()
     else
       andthen (looks (\<lambda>db. has_host db rm)) (\<lambda>hosted.
       if hosted then yields ()
       else
         andthen (looks (\<lambda>db. remaining_members db rm)) (\<lambda>remaining.
         case remaining of
           [] \<Rightarrow> yields ()
         | first # _ \<Rightarrow>
             andthen (outside (end_room_streams env rm)) (\<lambda>_.
             andthen (outside (revoke_room_huddle env rm)) (\<lambda>_.
             andthen (create_note env rm departed ''The stage ended because the last host left.'') (\<lambda>note_id.
             andthen (writes (emit_effect (StageEndedNote note_id))) (\<lambda>_.
             andthen (successor first remaining) (\<lambda>i.
             andthen (reads (\<lambda>db. get_membership db i)) (\<lambda>m.
             andthen (change_stage_role env Host m) (\<lambda>_.
             yields ()))))))))))"

subsection \<open>Removal\<close>

definition destroy_membership :: "'o room_env \<Rightarrow> membership \<Rightarrow> ('o, unit) op" where
  "destroy_membership env m =
     andthen (outside (revoke_huddle env (m_id m))) (\<lambda>_.
     andthen (outside (end_member_streams env (m_room_id m) (m_id m))) (\<lambda>_.
     andthen (outside (revoke_agent_grants env (m_user_id m) (m_room_id m))) (\<lambda>_.
     andthen (outside (emit_hidden env (m_room_id m) (Some (m_user_id m)))) (\<lambda>_.
     andthen (outside (emit_pending env (m_room_id m) (Some (m_user_id m)))) (\<lambda>_.
     andthen (writes (\<lambda>db. db\<lparr>memberships := delete_where (\<lambda>x. m_id x = m_id m) (memberships db)\<rparr>)) (\<lambda>_.
     andthen (if m_stage_role m = Some Host then host_departed env (m_room_id m) (m_user_id m) else yields ()) (\<lambda>_.
     andthen (writes (prepare_hook (CalendarRemoval (m_id m) (m_user_id m) (m_room_id m)))) (\<lambda>_.
     writes (register_hook (MembershipDestroyed (m_user_id m) (m_room_id m)))))))))))"

subsection \<open>Connections\<close>

text \<open>\<^verbatim>\<open>CONNECTION_TTL\<close> in nanoseconds.\<close>

definition connection_ttl :: int where
  "connection_ttl = 60 * 1000000000"

definition connection_cutoff :: "timestamp \<Rightarrow> timestamp" where
  "connection_cutoff now = ago now connection_ttl"

definition is_connected :: "membership \<Rightarrow> timestamp \<Rightarrow> bool" where
  "is_connected m now \<longleftrightarrow>
     (case m_connected_at m of None \<Rightarrow> False | Some t \<Rightarrow> t \<ge> connection_cutoff now)"

definition connected_exists :: "'o room_db \<Rightarrow> int \<Rightarrow> timestamp \<Rightarrow> bool" where
  "connected_exists db i now = list_ex (\<lambda>m. m_id m = i \<and> is_connected m now) (memberships db)"

definition disconnected_exists :: "'o room_db \<Rightarrow> int \<Rightarrow> timestamp \<Rightarrow> bool" where
  "disconnected_exists db i now = list_ex (\<lambda>m. m_id m = i \<and> \<not> is_connected m now) (memberships db)"

definition disconnect_all :: "'o room_env \<Rightarrow> ('o, nat) op" where
  "disconnect_all env =
     andthen (looks (\<lambda>db. count_where (\<lambda>m. is_connected m (tx_now env)) (memberships db))) (\<lambda>n.
     andthen (writes (update_memberships (\<lambda>m. is_connected m (tx_now env))
         (\<lambda>x. x\<lparr>m_connected_at := None, m_connections := 0, m_updated_at := tx_now env\<rparr>))) (\<lambda>_.
     yields n))"

definition connect_membership :: "'o room_env \<Rightarrow> membership \<Rightarrow> int \<Rightarrow> ('o, unit) op" where
  "connect_membership env m n =
     andthen (looks (\<lambda>db. latest_root_message_id db (m_room_id m))) (\<lambda>newest_id.
     writes (update_membership (m_id m)
       (\<lambda>x. x\<lparr>m_connections := n, m_connected_at := Some (tx_now env), m_unread_at := None,
              m_last_read_message_id := newest_id\<rparr>)))"

definition present :: "'o room_env \<Rightarrow> membership \<Rightarrow> ('o, unit) op" where
  "present env m =
     connect_membership env m (if is_connected m (tx_now env) then m_connections m + 1 else 1)"

text \<open>The counter statements add to the stored value, and the copy follows.\<close>

definition update_counter :: "'o room_env \<Rightarrow> int \<Rightarrow> membership \<Rightarrow> ('o, membership) op" where
  "update_counter env by_n m =
     andthen (writes (update_membership (m_id m)
         (\<lambda>x. x\<lparr>m_connections := (if by_n \<ge> 0 then m_connections x + \<bar>by_n\<bar> else m_connections x - \<bar>by_n\<bar>),
                m_updated_at := tx_now env\<rparr>))) (\<lambda>_.
     yields (m\<lparr>m_connections := m_connections m + by_n, m_updated_at := tx_now env\<rparr>))"

definition update_connections :: "'o room_env \<Rightarrow> int \<Rightarrow> membership \<Rightarrow> ('o, membership) op" where
  "update_connections env n m =
     (if m_connections m = n then yields m
      else
        andthen (writes (update_membership (m_id m)
            (\<lambda>x. x\<lparr>m_connections := n, m_updated_at := tx_now env\<rparr>))) (\<lambda>_.
        yields (m\<lparr>m_connections := n, m_updated_at := tx_now env\<rparr>)))"

definition increment_connections :: "'o room_env \<Rightarrow> membership \<Rightarrow> ('o, membership) op" where
  "increment_connections env m =
     (if is_connected m (tx_now env) then update_counter env 1 m else update_connections env 1 m)"

definition decrement_connections :: "'o room_env \<Rightarrow> membership \<Rightarrow> ('o, membership) op" where
  "decrement_connections env m =
     (if is_connected m (tx_now env) then update_counter env (- 1) m else update_connections env 0 m)"

definition touch_connected_at :: "'o room_env \<Rightarrow> membership \<Rightarrow> ('o, membership) op" where
  "touch_connected_at env m =
     andthen (writes (update_membership (m_id m)
         (\<lambda>x. x\<lparr>m_updated_at := tx_now env, m_connected_at := Some (tx_now env)\<rparr>))) (\<lambda>_.
     yields (m\<lparr>m_connected_at := Some (tx_now env), m_updated_at := tx_now env\<rparr>))"

definition connected :: "'o room_env \<Rightarrow> membership \<Rightarrow> ('o, membership) op" where
  "connected env m = andthen (increment_connections env m) (touch_connected_at env)"

definition disconnected :: "'o room_env \<Rightarrow> membership \<Rightarrow> ('o, membership) op" where
  "disconnected env m0 =
     andthen (decrement_connections env m0) (\<lambda>m.
     if m_connections m < 1 \<and> m_connected_at m \<noteq> None
     then
       andthen (writes (update_membership (m_id m)
           (\<lambda>x. x\<lparr>m_connected_at := None, m_updated_at := tx_now env\<rparr>))) (\<lambda>_.
       yields (m\<lparr>m_connected_at := None, m_updated_at := tx_now env\<rparr>))
     else yields m)"

definition refresh_connection :: "'o room_env \<Rightarrow> membership \<Rightarrow> ('o, membership) op" where
  "refresh_connection env m =
     andthen (if is_connected m (tx_now env) then yields m else increment_connections env m)
       (touch_connected_at env)"

end
