(* ===== verification/Sidebar.thy ===== *)
theory Sidebar
  imports Memberships
begin

section \<open>Sidebar categories and the workspace layout\<close>

text \<open>
  \<^verbatim>\<open>crates/db/src/models/room_category.rs\<close>, the categories of one person, and
  \<^verbatim>\<open>workspace_category.rs\<close>, the layout everyone shares.  An \<^verbatim>\<open>ORDER BY\<close> is a chain of stable
  sorts, the least significant key first.  SQLite's \<^verbatim>\<open>LOWER\<close> folds ASCII letters.
\<close>

definition name_limit :: nat where
  "name_limit = 50"

definition name_errors :: "string \<Rightarrow> (string \<times> string) list" where
  "name_errors name =
     (if blank name then [(''name'', ''can't be blank'')] else []) @
     (if length name > name_limit then [(''name'', ''is too long (maximum is 50 characters)'')] else [])"

subsection \<open>A person's categories\<close>

definition find_category :: "'o room_db \<Rightarrow> int \<Rightarrow> category option" where
  "find_category db i = find (\<lambda>c. c_id c = i) (categories db)"

definition get_category :: "'o room_db \<Rightarrow> int \<Rightarrow> model_error + category" where
  "get_category db i =
     (case find_category db i of Some c \<Rightarrow> Inr c | None \<Rightarrow> Inl (RecordNotFound ''RoomCategory''))"

definition ordered_for_user :: "'o room_db \<Rightarrow> int \<Rightarrow> category list" where
  "ordered_for_user db u =
     sort_key c_position (sort_key c_id (filter (\<lambda>c. c_user_id c = u) (categories db)))"

text \<open>\<^verbatim>\<open>COALESCE(MAX(position), d)\<close>.\<close>

definition max_or :: "int \<Rightarrow> int list \<Rightarrow> int" where
  "max_or d ps = (case ps of [] \<Rightarrow> d | x # xs \<Rightarrow> foldl max x xs)"

definition next_position_for :: "'o room_db \<Rightarrow> int \<Rightarrow> int" where
  "next_position_for db u = max_or 0 (map c_position (filter (\<lambda>c. c_user_id c = u) (categories db))) + 1"

definition validate_category :: "int \<Rightarrow> string \<Rightarrow> ('o, unit) op" where
  "validate_category u name =
     reads (\<lambda>db. into_result
       ((if find_person db u = None then [must_exist ''user''] else []) @ name_errors name))"

definition create_category :: "'o room_env \<Rightarrow> int \<Rightarrow> string \<Rightarrow> int \<Rightarrow> bool \<Rightarrow> ('o, category) op" where
  "create_category env u name p collapsed =
     andthen (validate_category u name) (\<lambda>_.
     andthen (looks next_category) (\<lambda>i.
     andthen (writes (\<lambda>db. db\<lparr>categories := categories db @
         [\<lparr>c_id = i, c_user_id = u, c_name = name, c_collapsed = collapsed, c_position = p,
           c_created_at = tx_now env, c_updated_at = tx_now env\<rparr>], next_category := i + 1\<rparr>)) (\<lambda>_.
     andthen (writes (emit_sidebar u [] [i] None)) (\<lambda>_.
     reads (\<lambda>db. get_category db i)))))"

definition change_category :: "int \<Rightarrow> (category \<Rightarrow> category) \<Rightarrow> 'o room_db \<Rightarrow> 'o room_db" where
  "change_category i f db = db\<lparr>categories := update_where (\<lambda>c. c_id c = i) f (categories db)\<rparr>"

definition update_room_category :: "'o room_env \<Rightarrow> string \<Rightarrow> int \<Rightarrow> bool \<Rightarrow> category \<Rightarrow> ('o, category) op" where
  "update_room_category env name p collapsed c =
     andthen (validate_category (c_user_id c) name) (\<lambda>_.
     if c_name c = name \<and> c_position c = p \<and> c_collapsed c = collapsed then yields c
     else
       andthen (writes (change_category (c_id c)
           (\<lambda>x. x\<lparr>c_name := name, c_position := p, c_collapsed := collapsed, c_updated_at := tx_now env\<rparr>))) (\<lambda>_.
       andthen (reads (\<lambda>db. get_category db (c_id c))) (\<lambda>c'.
       andthen (writes (emit_sidebar (c_user_id c') [] [c_id c'] None)) (\<lambda>_.
       yields c'))))"

text \<open>The renumbering of \<^verbatim>\<open>reorder\<close>, from 1: the rows whose place changed are written, and named.\<close>

fun renumber_categories :: "timestamp \<Rightarrow> category list \<Rightarrow> int \<Rightarrow> int list \<Rightarrow> 'o room_db \<Rightarrow> 'o room_db" where
  "renumber_categories now current p [] db = db"
| "renumber_categories now current p (i # is) db =
     renumber_categories now current (p + 1) is
       (if list_ex (\<lambda>c. c_id c = i \<and> c_position c \<noteq> p) current
        then change_category i (\<lambda>c. c\<lparr>c_position := p, c_updated_at := now\<rparr>) db else db)"

fun moved_categories :: "category list \<Rightarrow> int \<Rightarrow> int list \<Rightarrow> int list" where
  "moved_categories current p [] = []"
| "moved_categories current p (i # is) =
     (if list_ex (\<lambda>c. c_id c = i \<and> c_position c \<noteq> p) current then [i] else []) @
     moved_categories current (p + 1) is"

definition reorder_categories :: "'o room_env \<Rightarrow> int \<Rightarrow> int list \<Rightarrow> ('o, category list option) op" where
  "reorder_categories env u ids =
     andthen (looks (\<lambda>db. ordered_for_user db u)) (\<lambda>current.
     if sort ids \<noteq> sort (map c_id current) then yields None
     else
       andthen (writes (renumber_categories (tx_now env) current 1 ids)) (\<lambda>_.
       andthen (writes (emit_sidebar u [] (moved_categories current 1 ids) None)) (\<lambda>_.
       andthen (looks (\<lambda>db. ordered_for_user db u)) (\<lambda>rows. yields (Some rows)))))"

definition delete_category_rows :: "int \<Rightarrow> 'o room_db \<Rightarrow> 'o room_db" where
  "delete_category_rows i db =
     (let db1 = update_memberships (\<lambda>m. m_room_category_id m = Some i)
                  (\<lambda>m. m\<lparr>m_room_category_id := None\<rparr>) db
      in db1\<lparr>categories := delete_where (\<lambda>c. c_id c = i) (categories db1)\<rparr>)"

definition destroy_category :: "category \<Rightarrow> ('o, unit) op" where
  "destroy_category c =
     andthen (looks (\<lambda>db. map m_id (sort_key m_id
         (filter (\<lambda>m. m_room_category_id m = Some (c_id c)) (memberships db))))) (\<lambda>ms.
     andthen (writes (delete_category_rows (c_id c))) (\<lambda>_.
     writes (emit_sidebar (c_user_id c) ms [] (Some (c_id c)))))"

subsection \<open>The workspace's categories\<close>

definition get_workspace_category :: "'o room_db \<Rightarrow> int \<Rightarrow> model_error + workspace_category" where
  "get_workspace_category db i =
     (case find (\<lambda>w. w_id w = i) (workspace_categories db) of
        Some w \<Rightarrow> Inr w | None \<Rightarrow> Inl (RecordNotFound ''WorkspaceCategory''))"

definition ordered_workspace :: "'o room_db \<Rightarrow> workspace_category list" where
  "ordered_workspace db = sort_key w_position (sort_key w_id (workspace_categories db))"

definition create_workspace_category :: "'o room_env \<Rightarrow> string \<Rightarrow> ('o, workspace_category) op" where
  "create_workspace_category env name =
     andthen (reads (\<lambda>_. into_result (name_errors name))) (\<lambda>_.
     andthen (looks next_workspace_category) (\<lambda>i.
     andthen (writes (\<lambda>db. db\<lparr>workspace_categories := workspace_categories db @
         [\<lparr>w_id = i, w_name = name, w_position = max_or (- 1) (map w_position (workspace_categories db)) + 1,
           w_created_at = tx_now env, w_updated_at = tx_now env\<rparr>], next_workspace_category := i + 1\<rparr>)) (\<lambda>_.
     andthen (writes (emit_effect WorkspaceOrganized)) (\<lambda>_.
     reads (\<lambda>db. get_workspace_category db i)))))"

definition change_workspace_category ::
  "int \<Rightarrow> (workspace_category \<Rightarrow> workspace_category) \<Rightarrow> 'o room_db \<Rightarrow> 'o room_db" where
  "change_workspace_category i f db =
     db\<lparr>workspace_categories := update_where (\<lambda>w. w_id w = i) f (workspace_categories db)\<rparr>"

definition rename_workspace_category :: "'o room_env \<Rightarrow> string \<Rightarrow> workspace_category \<Rightarrow> ('o, workspace_category) op" where
  "rename_workspace_category env name w =
     andthen (reads (\<lambda>_. into_result (name_errors name))) (\<lambda>_.
     andthen (reads (\<lambda>db. get_workspace_category db (w_id w))) (\<lambda>current.
     andthen (if w_name current = name then yields ()
              else andthen (writes (change_workspace_category (w_id w)
                       (\<lambda>x. x\<lparr>w_name := name, w_updated_at := tx_now env\<rparr>))) (\<lambda>_.
                   writes (emit_effect WorkspaceOrganized))) (\<lambda>_.
     reads (\<lambda>db. get_workspace_category db (w_id w)))))"

fun renumber_workspace :: "timestamp \<Rightarrow> workspace_category list \<Rightarrow> int \<Rightarrow> int list \<Rightarrow> 'o room_db \<Rightarrow> 'o room_db" where
  "renumber_workspace now current p [] db = db"
| "renumber_workspace now current p (i # is) db =
     renumber_workspace now current (p + 1) is
       (if list_ex (\<lambda>w. w_id w = i \<and> w_position w \<noteq> p) current
        then change_workspace_category i (\<lambda>w. w\<lparr>w_position := p, w_updated_at := now\<rparr>) db else db)"

fun workspace_moves :: "workspace_category list \<Rightarrow> int \<Rightarrow> int list \<Rightarrow> bool" where
  "workspace_moves current p [] = False"
| "workspace_moves current p (i # is) =
     (list_ex (\<lambda>w. w_id w = i \<and> w_position w \<noteq> p) current \<or> workspace_moves current (p + 1) is)"

definition reorder_workspace :: "'o room_env \<Rightarrow> int list \<Rightarrow> ('o, workspace_category list option) op" where
  "reorder_workspace env ids =
     andthen (looks ordered_workspace) (\<lambda>current.
     if sort ids \<noteq> sort (map w_id current) then yields None
     else
       andthen (writes (renumber_workspace (tx_now env) current 0 ids)) (\<lambda>_.
       andthen (writes (if workspace_moves current 0 ids then emit_effect WorkspaceOrganized else id)) (\<lambda>_.
       andthen (looks ordered_workspace) (\<lambda>rows. yields (Some rows)))))"

subsection \<open>Rooms in the layout\<close>

definition lower_name :: "room \<Rightarrow> string list" where
  "lower_name r = (case r_name r of None \<Rightarrow> [] | Some n \<Rightarrow> [map to_lower n])"

definition position_key :: "room \<Rightarrow> int" where
  "position_key r = (case r_workspace_position r of None \<Rightarrow> 0 | Some p \<Rightarrow> p)"

definition in_group :: "int option \<Rightarrow> room \<Rightarrow> bool" where
  "in_group c r \<longleftrightarrow> r_workspace_category_id r = c \<and> r_type r \<noteq> DirectRoom \<and> alive r"

definition layout_order :: "room list \<Rightarrow> room list" where
  "layout_order rs =
     sort_key (\<lambda>r. r_workspace_position r = None) (sort_key position_key
       (sort_key lower_name (sort_key r_id rs)))"

definition group_rooms :: "'o room_db \<Rightarrow> int option \<Rightarrow> int list" where
  "group_rooms db c = map r_id (layout_order (filter (in_group c) (rooms db)))"

definition write_rooms :: "int option \<Rightarrow> int list \<Rightarrow> 'o room_db \<Rightarrow> 'o room_db" where
  "write_rooms c ids db =
     db\<lparr>rooms := numbered r_id
          (\<lambda>p r. r\<lparr>r_workspace_category_id := c, r_workspace_position := Some p\<rparr>) 0 ids (rooms db)\<rparr>"

text \<open>The delete, with \<^verbatim>\<open>ON DELETE SET NULL\<close> on the rooms.\<close>

definition delete_workspace_category :: "int \<Rightarrow> 'o room_db \<Rightarrow> 'o room_db" where
  "delete_workspace_category i db =
     db\<lparr>workspace_categories := delete_where (\<lambda>w. w_id w = i) (workspace_categories db),
        rooms := update_where (\<lambda>r. r_workspace_category_id r = Some i)
                   (\<lambda>r. r\<lparr>r_workspace_category_id := None\<rparr>) (rooms db)\<rparr>"

definition destroy_workspace_category :: "'o room_env \<Rightarrow> workspace_category \<Rightarrow> ('o, unit) op" where
  "destroy_workspace_category env w =
     andthen (reads (\<lambda>db. get_workspace_category db (w_id w))) (\<lambda>_.
     andthen (looks (\<lambda>db. group_rooms db None @ group_rooms db (Some (w_id w)))) (\<lambda>ids.
     andthen (writes (delete_workspace_category (w_id w))) (\<lambda>_.
     andthen (writes (write_rooms None ids)) (\<lambda>_.
     andthen (looks (\<lambda>db. map w_id (ordered_workspace db))) (\<lambda>cs.
     andthen (reorder_workspace env cs) (\<lambda>_.
     writes (emit_effect WorkspaceOrganized)))))))"

definition place_room :: "int \<Rightarrow> int option \<Rightarrow> (int list \<Rightarrow> model_error + nat) \<Rightarrow> ('o, unit) op" where
  "place_room i c index =
     andthen (reads (\<lambda>db. get_room db i)) (\<lambda>r.
     if r_deleted_at r \<noteq> None then fails (RecordNotFound ''Room'')
     else if r_type r = DirectRoom
       then fails (RecordInvalid [(''workspace_category_id'', ''cannot categorize direct messages'')])
     else
       andthen (case c of None \<Rightarrow> yields ()
                | Some k \<Rightarrow> andthen (reads (\<lambda>db. get_workspace_category db k)) (\<lambda>_. yields ())) (\<lambda>_.
       let source = r_workspace_category_id r in
       andthen (looks (\<lambda>db. filter (\<lambda>j. j \<noteq> i) (group_rooms db c))) (\<lambda>target.
       andthen (reads (\<lambda>_. index target)) (\<lambda>p.
       andthen (if source = c then yields ()
                else writes (\<lambda>db. write_rooms source (filter (\<lambda>j. j \<noteq> i) (group_rooms db source)) db)) (\<lambda>_.
       andthen (writes (write_rooms c (insert_at p i target))) (\<lambda>_.
       writes (emit_effect WorkspaceOrganized)))))))"

definition move_room :: "int \<Rightarrow> int option \<Rightarrow> int \<Rightarrow> ('o, unit) op" where
  "move_room i c p = place_room i c (\<lambda>target. Inr (nat (max 0 (min p (int (length target))))))"

definition move_room_before :: "int \<Rightarrow> int option \<Rightarrow> int \<Rightarrow> bool \<Rightarrow> ('o, unit) op" where
  "move_room_before i c anchor anchor_visible =
     place_room i c (\<lambda>target.
       case (if anchor_visible then position_of anchor target else None) of
         Some p \<Rightarrow> Inr p
       | None \<Rightarrow> Inl (RecordInvalid [(''before_room_id'', ''must be a room in the target category'')]))"

definition remove_room_from_layout :: "int \<Rightarrow> bool \<Rightarrow> ('o, unit) op" where
  "remove_room_from_layout i importing =
     andthen (looks (\<lambda>db. find (\<lambda>r. r_id r = i \<and> r_type r \<noteq> DirectRoom) (rooms db))) (\<lambda>found.
     case found of
       None \<Rightarrow> yields ()
     | Some r \<Rightarrow>
         (if r_workspace_category_id r = None \<and> r_workspace_position r = None then yields ()
          else
            andthen (if r_workspace_position r = None then yields ()
                     else writes (\<lambda>db. write_rooms (r_workspace_category_id r)
                       (filter (\<lambda>j. j \<noteq> i) (group_rooms db (r_workspace_category_id r))) db)) (\<lambda>_.
            if importing then yields () else writes (emit_effect WorkspaceOrganized))))"

text \<open>The placements a member's sidebar may expose.\<close>

definition visible_layout :: "'o room_db \<Rightarrow> int \<Rightarrow> (int \<times> int option \<times> int option) list" where
  "visible_layout db u =
     map (\<lambda>r. (r_id r, r_workspace_category_id r, r_workspace_position r))
       (sort_key (\<lambda>r. case r_workspace_category_id r of None \<Rightarrow> [] | Some c \<Rightarrow> [c]) (layout_order
         (concat (map (\<lambda>r. map (\<lambda>_. r) (filter (\<lambda>m. member_of (r_id r) u m \<and> visible_level (m_involvement m))
            (memberships db)))
            (filter (\<lambda>r. alive r \<and> r_type r \<noteq> DirectRoom) (rooms db))))))"


subsection \<open>Placing rooms\<close>

interpretation layout: numbering r_id
  "\<lambda>p r. r\<lparr>r_workspace_category_id := c, r_workspace_position := Some p\<rparr>" r_workspace_position
  for c :: "int option"
  by unfold_locales simp_all

definition placed :: "int option \<Rightarrow> int list \<Rightarrow> room \<Rightarrow> room" where
  "placed c = numbered_row r_id (\<lambda>p r. r\<lparr>r_workspace_category_id := c, r_workspace_position := Some p\<rparr>)"

lemma placed_simps [simp]:
  "r_id (placed c ids r) = r_id r" "r_type (placed c ids r) = r_type r"
  "r_deleted_at (placed c ids r) = r_deleted_at r" "alive (placed c ids r) = alive r"
  "r_direct_member_key (placed c ids r) = r_direct_member_key r"
  by (simp_all add: placed_def numbered_row_def alive_def split: option.split)

lemma placed_outside: "r_id r \<notin> set ids \<Longrightarrow> placed c ids r = r"
  by (simp add: placed_def layout.outside_row)

lemma placed_category:
  "r_workspace_category_id (placed c ids r) = (if r_id r \<in> set ids then c else r_workspace_category_id r)"
  by (auto simp: placed_def numbered_row_def position_of_None dest: position_of_mem split: option.split)

lemma rooms_write_rooms: "distinct ids \<Longrightarrow> rooms (write_rooms c ids db) = map (placed c ids) (rooms db)"
  by (simp add: write_rooms_def placed_def layout.numbered_rows)

lemma distinct_rooms_write [simp]: "distinct ids \<Longrightarrow> distinct_rooms (write_rooms c ids db) = distinct_rooms db"
  by (simp add: distinct_rooms_def rooms_write_rooms comp_def)

lemma layout_order_set [simp]: "set (layout_order rs) = set rs"
  by (simp add: layout_order_def)

lemma filter_layout_order: "filter P (layout_order rs) = layout_order (filter P rs)"
  by (simp add: layout_order_def filter_sort)

lemma distinct_layout_order [simp]: "distinct (map r_id (layout_order rs)) = distinct (map r_id rs)"
  by (simp add: layout_order_def distinct_map)

lemma sorted_layout_order:
  assumes "\<And>r. r \<in> set rs \<Longrightarrow> r_workspace_position r \<noteq> None"
  shows "sorted (map position_key (layout_order rs))"
proof -
  define xs where "xs = sort_key position_key (sort_key lower_name (sort_key r_id rs))"
  have "sorted (map (\<lambda>r. r_workspace_position r = None) xs)"
  proof -
    have "\<forall>r \<in> set xs. r_workspace_position r \<noteq> None" using assms by (simp add: xs_def)
    then show ?thesis by (induction xs) auto
  qed
  then have "layout_order rs = xs"
    unfolding layout_order_def xs_def [symmetric] by (rule sort_key_id_if_sorted)
  then show ?thesis by (simp add: xs_def)
qed

lemma set_group_rooms: "set (group_rooms db c) = r_id ` {r \<in> set (rooms db). in_group c r}"
  by (auto simp: group_rooms_def)

lemma distinct_group_rooms: "distinct_rooms db \<Longrightarrow> distinct (group_rooms db c)"
  by (simp add: group_rooms_def distinct_rooms_def distinct_map_filter)

lemma filter_group_rooms:
  "filter P (group_rooms db c) = map r_id (layout_order (filter (\<lambda>r. in_group c r \<and> P (r_id r)) (rooms db)))"
  by (simp add: group_rooms_def filter_map filter_layout_order comp_def conj_commute)

lemma group_written:
  assumes "distinct_rooms db" and ids: "distinct ids"
    and sub: "\<And>i. i \<in> set ids \<Longrightarrow> \<exists>r \<in> set (rooms db). r_id r = i \<and> alive r \<and> r_type r \<noteq> DirectRoom"
  shows "filter (\<lambda>j. j \<in> set ids) (group_rooms (write_rooms c ids db) c) = ids"
proof -
  let ?rs = "filter (\<lambda>r. in_group c r \<and> r_id r \<in> set ids) (rooms (write_rooms c ids db))"
  have rs: "r \<in> set ?rs \<longleftrightarrow> (\<exists>x \<in> set (rooms db). r = placed c ids x \<and> in_group c r \<and> r_id x \<in> set ids)" for r
    by (auto simp: rooms_write_rooms [OF ids])
  have place: "r_workspace_position r \<noteq> None" if "r \<in> set ?rs" for r
    using that layout.inside_row [of _ ids c] unfolding rs placed_def by fastforce
  have "map r_id (layout_order ?rs) = ids"
  proof (rule layout.in_order [where k = position_key and c = c])
    show "sorted (map position_key (layout_order ?rs))"
      using place by (rule sorted_layout_order)
    have "distinct (map r_id (rooms (write_rooms c ids db)))"
      using assms(1) ids by (simp flip: distinct_rooms_def)
    then show "distinct (map r_id (layout_order ?rs))" by (simp add: distinct_map_filter)
    show "set (map r_id (layout_order ?rs)) = set ids"
    proof
      show "set (map r_id (layout_order ?rs)) \<subseteq> set ids" by auto
      show "set ids \<subseteq> set (map r_id (layout_order ?rs))"
      proof
        fix i assume i: "i \<in> set ids"
        from sub [OF i] obtain r where r: "r \<in> set (rooms db)" "r_id r = i" "alive r" "r_type r \<noteq> DirectRoom"
          by blast
        then have "placed c ids r \<in> set ?rs"
          using i unfolding rs by (auto simp: in_group_def placed_category)
        then have "r_id (placed c ids r) \<in> r_id ` set ?rs" by (rule imageI)
        then show "i \<in> set (map r_id (layout_order ?rs))" using r(2) by simp
      qed
    qed
  next
    fix r assume "r \<in> set (layout_order ?rs)"
    then show "(\<exists>x. r = numbered_row r_id (\<lambda>p r. r\<lparr>r_workspace_category_id := c, r_workspace_position := Some p\<rparr>) ids x) \<and>
        (\<forall>p. r_workspace_position r = Some p \<longrightarrow> position_key r = p)"
      unfolding layout_order_set rs by (auto simp: placed_def position_key_def)
  qed (rule ids)
  then show ?thesis by (simp only: filter_group_rooms)
qed

lemma group_other:
  assumes "distinct ids" and "c' \<noteq> c"
  shows "group_rooms (write_rooms c ids db) c' = filter (\<lambda>j. j \<notin> set ids) (group_rooms db c')"
proof -
  have "in_group c' (placed c ids r) \<longleftrightarrow> in_group c' r \<and> r_id r \<notin> set ids" for r
    using assms(2) by (auto simp: in_group_def placed_category placed_outside)
  then have "filter (in_group c') (map (placed c ids) (rooms db)) =
      map (placed c ids) (filter (\<lambda>r. in_group c' r \<and> r_id r \<notin> set ids) (rooms db))"
    by (simp add: filter_map comp_def)
  also have "\<dots> = filter (\<lambda>r. in_group c' r \<and> r_id r \<notin> set ids) (rooms db)"
    by (rule map_idI) (simp add: placed_outside)
  finally show ?thesis
    by (simp add: filter_group_rooms) (simp add: group_rooms_def rooms_write_rooms assms(1))
qed


lemma find_room_Some: "find_room db i = Some r \<Longrightarrow> r \<in> set (rooms db) \<and> r_id r = i"
  by (auto simp: find_room_def find_Some_iff)

lemma get_room_ok: "get_room db i = Inr r \<longleftrightarrow> find_room db i = Some r"
  by (auto simp: get_room_def split: option.split)

lemma group_room_rows: "i \<in> set (group_rooms db c) \<Longrightarrow> \<exists>r \<in> set (rooms db). r_id r = i \<and> alive r \<and> r_type r \<noteq> DirectRoom"
  by (auto simp: set_group_rooms in_group_def)

lemma group_rooms_effect [simp]: "group_rooms (emit_effect e db) c = group_rooms db c"
  by (simp add: group_rooms_def emit_effect_def)

text \<open>A room outside a group's list is no room of the group.\<close>

lemma only_group:
  assumes "distinct_rooms db" and "r \<in> set (rooms db)" and "r_workspace_category_id r \<noteq> c"
  shows "r_id r \<notin> set (group_rooms db c)"
  using assms by (auto simp: set_group_rooms in_group_def dest: room_unique)

lemma groups_apart:
  "distinct_rooms db \<Longrightarrow> a \<noteq> b \<Longrightarrow> j \<in> set (group_rooms db a) \<Longrightarrow> j \<notin> set (group_rooms db b)"
  by (auto simp: set_group_rooms in_group_def dest: room_unique)

lemma group_written_all:
  assumes "distinct_rooms db" and "distinct ids"
    and "\<And>i. i \<in> set ids \<Longrightarrow> \<exists>r \<in> set (rooms db). r_id r = i \<and> alive r \<and> r_type r \<noteq> DirectRoom"
    and sub: "set (group_rooms db c) \<subseteq> set ids"
  shows "group_rooms (write_rooms c ids db) c = ids"
proof -
  have "set (group_rooms (write_rooms c ids db) c) \<subseteq> set ids"
  proof
    fix k assume "k \<in> set (group_rooms (write_rooms c ids db) c)"
    then obtain x where x: "x \<in> set (rooms db)" "k = r_id x" "in_group c (placed c ids x)"
      using assms(2) by (auto simp: set_group_rooms rooms_write_rooms)
    then show "k \<in> set ids"
      using sub by (cases "k \<in> set ids") (auto simp: placed_outside set_group_rooms)
  qed
  then have "filter (\<lambda>j. j \<in> set ids) (group_rooms (write_rooms c ids db) c) = group_rooms (write_rooms c ids db) c"
    by (intro filter_True) auto
  with group_written [OF assms(1-3), of c] show ?thesis by simp
qed

text \<open>Renumbering what stays of a group leaves its rooms, in their order.\<close>

lemma group_renumbered:
  assumes "distinct_rooms db" and left: "left = filter P (group_rooms db c)"
  shows "filter (\<lambda>j. j \<in> set left) (group_rooms (write_rooms c left db) c) = left"
    and "set (group_rooms (write_rooms c left db) c) \<subseteq> set (group_rooms db c)"
proof -
  have dist: "distinct left" using distinct_group_rooms [OF assms(1)] by (simp add: left)
  show "filter (\<lambda>j. j \<in> set left) (group_rooms (write_rooms c left db) c) = left"
    using group_written [OF assms(1) dist] group_room_rows [of _ db c] by (simp add: left)
  show "set (group_rooms (write_rooms c left db) c) \<subseteq> set (group_rooms db c)"
  proof
    fix k assume "k \<in> set (group_rooms (write_rooms c left db) c)"
    then obtain x where x: "x \<in> set (rooms db)" "k = r_id x" "in_group c (placed c left x)"
      using dist by (auto simp: set_group_rooms rooms_write_rooms)
    have "set left \<subseteq> set (group_rooms db c)" by (auto simp: left)
    with x show "k \<in> set (group_rooms db c)"
      by (cases "k \<in> set left") (auto simp: placed_outside set_group_rooms)
  qed
qed

lemma place_room_layout:
  assumes dr: "distinct_rooms db" and r: "r \<in> set (rooms db)" "alive r" "r_type r \<noteq> DirectRoom"
    and source: "source = r_workspace_category_id r" and i: "i = r_id r"
    and target: "target = filter (\<lambda>j. j \<noteq> i) (group_rooms db c)"
    and left: "left = filter (\<lambda>j. j \<noteq> i) (group_rooms db source)"
    and db1: "db1 = (if source = c then db else write_rooms source left db)"
    and db2: "db2 = write_rooms c (insert_at p i target) db1"
  shows "group_rooms db2 c = insert_at p i target"
    and "c' \<noteq> c \<Longrightarrow> group_rooms db2 c' = filter (\<lambda>j. j \<noteq> i) (group_rooms db c')"
proof -
  let ?ids = "insert_at p i target"
  have ids: "distinct ?ids" and dleft: "distinct left"
    using distinct_group_rooms [OF dr] by (simp_all add: target left)
  have dr1: "distinct_rooms db1" using dr dleft by (simp add: db1)
  have rows: "\<exists>x \<in> set (rooms db1). r_id x = k \<and> alive x \<and> r_type x \<noteq> DirectRoom" if "k \<in> set ?ids" for k
    using that r i group_room_rows [of k db c] dleft by (auto simp: target db1 rooms_write_rooms)
  have same: "group_rooms db1 a = group_rooms db a" if "a \<noteq> source" for a
    using group_other [OF dleft that, of db] groups_apart [OF dr that]
    by (auto simp: db1 left intro!: filter_True)
  have "group_rooms db1 c = group_rooms db c" using same [of c] by (auto simp: db1)
  then have "set (group_rooms db1 c) \<subseteq> set ?ids" by (auto simp: target)
  then show "group_rooms db2 c = ?ids" unfolding db2 by (intro group_written_all dr1 ids rows)
  show "group_rooms db2 c' = filter (\<lambda>j. j \<noteq> i) (group_rooms db c')" if c': "c' \<noteq> c"
  proof -
    have other: "group_rooms db2 c' = filter (\<lambda>j. j \<notin> set ?ids) (group_rooms db1 c')"
      unfolding db2 by (rule group_other [OF ids c'])
    have target': "j \<in> set ?ids \<longleftrightarrow> j = i" if "j \<in> set (group_rooms db c')" for j
      using groups_apart [OF dr c' that] by (auto simp: target)
    show ?thesis
    proof (cases "c' = source")
      case False
      with other target' show ?thesis by (simp add: same) (rule filter_cong, auto)
    next
      case True
      then have "db1 = write_rooms c' left db" using c' by (simp add: db1)
      note renumbered = group_renumbered [OF dr left, folded True, folded this]
      have "group_rooms db2 c' = filter (\<lambda>j. j \<in> set left) (group_rooms db1 c')"
        unfolding other
      proof (rule filter_cong)
        fix j assume "j \<in> set (group_rooms db1 c')"
        then have "j \<in> set (group_rooms db c')" using renumbered(2) by auto
        then show "j \<notin> set ?ids \<longleftrightarrow> j \<in> set left" using target' by (simp add: left True)
      qed simp
      with renumbered(1) show ?thesis by (simp add: left True)
    qed
  qed
qed

text \<open>C38.  Moving a room in the shared layout: it lands in its new category at the index asked for
  among the other rooms there, in their order, and every other category keeps its rooms in their
  order, less the moved one.\<close>

theorem moved_room_lands_in_place:
  assumes "distinct_rooms db" and "place_room i c index db = (Inr (), db')"
  shows "\<exists>p. index (filter (\<lambda>j. j \<noteq> i) (group_rooms db c)) = Inr p \<and>
      group_rooms db' c = insert_at p i (filter (\<lambda>j. j \<noteq> i) (group_rooms db c)) \<and>
      (\<forall>c'. c' \<noteq> c \<longrightarrow> group_rooms db' c' = filter (\<lambda>j. j \<noteq> i) (group_rooms db c'))"
proof -
  obtain r where r: "find_room db i = Some r" "r_deleted_at r = None" "r_type r \<noteq> DirectRoom"
    using assms(2) by (auto simp: place_room_def op_ok get_room_ok split: if_splits)
  define target where "target = filter (\<lambda>j. j \<noteq> i) (group_rooms db c)"
  define left where "left = filter (\<lambda>j. j \<noteq> i) (group_rooms db (r_workspace_category_id r))"
  define db1 where "db1 = (if r_workspace_category_id r = c then db
      else write_rooms (r_workspace_category_id r) left db)"
  obtain p where p: "index target = Inr p"
    and db': "db' = emit_effect WorkspaceOrganized (write_rooms c (insert_at p i target) db1)"
    using assms(2) r
    by (auto simp: place_room_def op_ok get_room_ok target_def left_def db1_def Let_def split: if_splits option.splits)
  have row: "r \<in> set (rooms db)" "i = r_id r" "alive r"
    using find_room_Some [OF r(1)] r(2) by (auto simp: alive_def)
  note layout = place_room_layout [OF assms(1) row(1,3) r(3) refl row(2) target_def left_def db1_def refl]
  show ?thesis
    using p layout by (auto simp: db' target_def)
qed


lemma moved_room_lands_in_place_witness:
  "\<exists>db'. move_room 3 None 1
       (empty_room_db\<lparr>rooms := [plain_room 1 OpenRoom 1, plain_room 2 OpenRoom 1, plain_room 3 OpenRoom 1]\<rparr>)
     = (Inr (), db') \<and> group_rooms db' None = [1, 3, 2]"
proof -
  let ?db = "empty_room_db\<lparr>rooms := [plain_room 1 OpenRoom 1, plain_room 2 OpenRoom 1, plain_room 3 OpenRoom 1]\<rparr>"
  let ?out = "move_room 3 None 1 ?db"
  have "fst ?out = Inr ()" by code_simp
  then have run: "move_room 3 None 1 ?db = (Inr (), snd ?out)" by (metis prod.collapse)
  have "distinct_rooms ?db" by (simp add: distinct_rooms_def plain_room_def)
  moreover have "filter (\<lambda>j. j \<noteq> 3) (group_rooms ?db None) = [1, 2]" by code_simp
  ultimately have "group_rooms (snd ?out) None = insert_at 1 3 [1, 2]"
    using moved_room_lands_in_place [OF _ run [unfolded move_room_def]] by (auto simp: move_room_def)
  then show ?thesis using run by (auto simp: insert_at_def)
qed

end
