(* ===== verification/Rooms.thy ===== *)
theory Rooms
  imports Sidebar
begin

section \<open>Rooms\<close>

text \<open>
  The operations of \<^verbatim>\<open>crates/db/src/models/room.rs\<close>, of \<^verbatim>\<open>direct_room.rs\<close> that change members, and the
  request for a deletion in \<^verbatim>\<open>room_delete.rs\<close>.  The SHA-256 digest is the environment's \<open>digest\<close>.
\<close>

subsection \<open>Statements on rooms\<close>

definition update_room :: "int \<Rightarrow> (room \<Rightarrow> room) \<Rightarrow> 'o room_db \<Rightarrow> 'o room_db" where
  "update_room i f db = db\<lparr>rooms := update_where (\<lambda>r. r_id r = i) f (rooms db)\<rparr>"

text \<open>The partial unique index on \<^verbatim>\<open>direct_member_key\<close>: a key of an alive room, of any type.\<close>

definition key_taken :: "'o room_db \<Rightarrow> int \<Rightarrow> string \<Rightarrow> bool" where
  "key_taken db i key = list_ex (\<lambda>r. r_id r \<noteq> i \<and> alive r \<and> r_direct_member_key r = Some key) (rooms db)"

definition new_room :: "int \<Rightarrow> room_type \<Rightarrow> string option \<Rightarrow> int \<Rightarrow> string option \<Rightarrow> timestamp \<Rightarrow> room" where
  "new_room i t name creator key now =
     \<lparr>r_id = i, r_name = name, r_type = t, r_creator_id = creator, r_deleted_at = None,
      r_destroy_enqueued_at = None, r_direct_member_key = key, r_icon_name = None,
      r_inbound_email_token = None, r_pins_changed_at = None, r_topic = None, r_announcement = False,
      r_voice_bitrate = None, r_voice_user_limit = None, r_created_at = now, r_updated_at = now,
      r_workspace_category_id = None, r_workspace_position = None, r_client_room_id = None\<rparr>"

definition insert_room_row :: "room_type \<Rightarrow> string option \<Rightarrow> int \<Rightarrow> string option \<Rightarrow> timestamp \<Rightarrow> ('o, int) op" where
  "insert_room_row t name creator key now db =
     (if (case key of Some k \<Rightarrow> key_taken db (next_room db) k | None \<Rightarrow> False) then (Inl RecordNotUnique, db)
      else (Inr (next_room db),
        db\<lparr>rooms := rooms db @ [new_room (next_room db) t name creator key now],
           next_room := next_room db + 1\<rparr>))"

text \<open>\<^verbatim>\<open>validate_name\<close> of a direct room.\<close>

definition validate_name :: "string option \<Rightarrow> model_error + unit" where
  "validate_name name =
     into_result (case name of
         Some n \<Rightarrow> if length n > 100 then [(''name'', ''is too long (maximum is 100 characters)'')] else []
       | None \<Rightarrow> [])"

subsection \<open>Granting memberships\<close>

text \<open>\<^verbatim>\<open>insert_memberships\<close>: \<^verbatim>\<open>ON CONFLICT DO NOTHING\<close>, in batches, stamped by SQLite's clock.\<close>

definition membership_insert_batch :: nat where
  "membership_insert_batch = 1000"

definition insert_if_absent :: "involvement \<Rightarrow> int \<Rightarrow> timestamp \<Rightarrow> int \<Rightarrow> 'o room_db \<Rightarrow> 'o room_db" where
  "insert_if_absent level rm now u db =
     (if list_ex (member_of rm u) (memberships db) then db
      else db\<lparr>memberships := memberships db @
                [(new_membership (next_membership db) rm u now)\<lparr>m_involvement := Some level\<rparr>],
              next_membership := next_membership db + 1\<rparr>)"

definition insert_batch :: "involvement \<Rightarrow> int \<Rightarrow> timestamp \<Rightarrow> int list \<Rightarrow> 'o room_db \<Rightarrow> 'o room_db" where
  "insert_batch level rm now us db = foldl (\<lambda>d u. insert_if_absent level rm now u d) db us"

definition insert_memberships :: "'o room_env \<Rightarrow> int \<Rightarrow> involvement \<Rightarrow> int list \<Rightarrow> 'o room_db \<Rightarrow> 'o room_db" where
  "insert_memberships env rm level us db =
     foldl (\<lambda>d b. insert_batch level rm (sqlite_now env) b d) db (chunks membership_insert_batch us)"

text \<open>\<^verbatim>\<open>direct_member_key_for\<close>.\<close>

definition string_of_int :: "int \<Rightarrow> string" where
  "string_of_int i = (if i < 0 then ''-'' @ string_of_nat (nat (- i)) else string_of_nat (nat i))"

definition direct_member_key_for :: "'o room_env \<Rightarrow> int list \<Rightarrow> string" where
  "direct_member_key_for env us = ''dm:'' @ digest env (join_with '','' (map string_of_int (sort us)))"

definition set_direct_member_key :: "int \<Rightarrow> string \<Rightarrow> ('o, unit) op" where
  "set_direct_member_key i key db =
     (if list_ex (\<lambda>r. r_id r = i \<and> alive r) (rooms db) \<and> key_taken db i key then (Inl RecordNotUnique, db)
      else (Inr (), update_room i (\<lambda>r. r\<lparr>r_direct_member_key := Some key\<rparr>) db))"

definition member_ids :: "'o room_db \<Rightarrow> int \<Rightarrow> int list" where
  "member_ids db i = map m_user_id (memberships_for_room db i)"

definition suffixed :: "string \<Rightarrow> int \<Rightarrow> string" where
  "suffixed key i = key @ ''#'' @ string_of_int i"

definition refresh_direct_member_key :: "'o room_env \<Rightarrow> int \<Rightarrow> ('o, unit) op" where
  "refresh_direct_member_key env i =
     andthen (looks (\<lambda>db. find_room db i)) (\<lambda>found.
     case found of
       None \<Rightarrow> yields ()
     | Some r \<Rightarrow>
         (if r_deleted_at r \<noteq> None then yields ()
          else
            andthen (looks (\<lambda>db. member_ids db (r_id r))) (\<lambda>us.
            let key = direct_member_key_for env us;
                squats = (length us \<le> 2 \<and> (case r_name r of Some n \<Rightarrow> \<not> blank n | None \<Rightarrow> False))
            in
            andthen (looks (\<lambda>db. list_ex (\<lambda>x. alive x \<and> r_type x = DirectRoom \<and> r_id x \<noteq> r_id r \<and>
                r_direct_member_key x = Some key) (rooms db))) (\<lambda>taken.
            let candidate = (if squats \<or> taken then suffixed key (r_id r) else key)
            in
            if r_direct_member_key r = Some candidate then yields ()
            else (\<lambda>db.
              case set_direct_member_key (r_id r) candidate db of
                (Inl RecordNotUnique, db') \<Rightarrow>
                  set_direct_member_key (r_id r) (suffixed candidate (r_id r)) db'
              | other \<Rightarrow> other)))))"

definition grant_to :: "'o room_env \<Rightarrow> room \<Rightarrow> int list \<Rightarrow> ('o, unit) op" where
  "grant_to env r us =
     andthen (writes (insert_memberships env (r_id r) (default_involvement (r_type r)) us)) (\<lambda>_.
     if r_type r = DirectRoom then refresh_direct_member_key env (r_id r) else yields ())"

definition active_user_ids :: "'o room_db \<Rightarrow> int list" where
  "active_user_ids db =
     map u_id (filter (\<lambda>x. u_status x = Active \<and> u_id x \<notin> fst ` set (personal_agents db)) (people db))"

definition grant_to_active_users :: "'o room_env \<Rightarrow> int \<Rightarrow> ('o, unit) op" where
  "grant_to_active_users env i =
     andthen (looks active_user_ids) (\<lambda>us.
     andthen (reads (\<lambda>db. get_room db i)) (\<lambda>r.
     if r_deleted_at r \<noteq> None then yields ()
     else writes (insert_memberships env i (default_involvement (r_type r)) us)))"

definition revocation_order :: "'o room_db \<Rightarrow> int \<Rightarrow> int list \<Rightarrow> membership list" where
  "revocation_order db i us =
     sort_key (\<lambda>m. m_stage_role m = Some Host)
       (filter (\<lambda>m. m_room_id m = i \<and> m_user_id m \<in> set us) (memberships db))"

definition revoke_from :: "'o room_env \<Rightarrow> room \<Rightarrow> int list \<Rightarrow> ('o, unit) op" where
  "revoke_from env r us =
     andthen (looks (\<lambda>db. revocation_order db (r_id r) us)) (for_each (destroy_membership env))"

definition revise :: "'o room_env \<Rightarrow> room \<Rightarrow> int list \<Rightarrow> int list \<Rightarrow> ('o, unit) op" where
  "revise env r granted revoked =
     andthen (if granted = [] then yields () else grant_to env r granted) (\<lambda>_.
     if revoked = [] then yields () else revoke_from env r revoked)"

subsection \<open>Creating rooms\<close>

text \<open>\<^verbatim>\<open>check_direct_members\<close>: a personal agent talks to its owner only.\<close>

definition check_direct_members :: "int list \<Rightarrow> 'o room_db \<Rightarrow> model_error + unit" where
  "check_direct_members us db =
     (if list_ex (\<lambda>(bot, owner). bot \<in> set us \<and>
           (card (set us) \<noteq> 2 \<or> (case owner of None \<Rightarrow> True | Some x \<Rightarrow> x = bot \<or> x \<notin> set us)))
         (personal_agents db)
      then Inl (OtherError ''PersonalAgentDirect'') else Inr ())"

definition require_contact :: "int \<Rightarrow> int list \<Rightarrow> 'o room_db \<Rightarrow> model_error + unit" where
  "require_contact sender recipients db =
     (if list_ex (\<lambda>u. \<not> visible_author db u sender) recipients then Inl (RecordNotFound ''User'')
      else Inr ())"

definition insert_room :: "'o room_env \<Rightarrow> room_type \<Rightarrow> string option \<Rightarrow> int \<Rightarrow> string option \<Rightarrow> bool \<Rightarrow> ('o, room) op" where
  "insert_room env t name creator key in_transaction =
     andthen (if t = DirectRoom then reads (\<lambda>_. validate_name name) else yields ()) (\<lambda>_.
     andthen (insert_room_row t name creator key (tx_now env)) (\<lambda>i.
     andthen (if t = OpenRoom
              then (if in_transaction then grant_to_active_users env i
                    else writes (register_hook (GrantToActive i)))
              else yields ()) (\<lambda>_.
     reads (\<lambda>db. get_room db i))))"

definition make_creator_the_host :: "'o room_env \<Rightarrow> room \<Rightarrow> ('o, unit) op" where
  "make_creator_the_host env r =
     andthen (writes (update_memberships (\<lambda>m. m_room_id m = r_id r \<and> m_stage_role m = None)
         (\<lambda>m. m\<lparr>m_stage_role := Some Listener\<rparr>))) (\<lambda>_.
     andthen (looks (\<lambda>db. find_by_room_and_user db (r_id r) (r_creator_id r))) (\<lambda>found.
     case found of
       Some m \<Rightarrow>
         (if m_stage_role m = Some Host then yields ()
          else writes (update_membership (m_id m)
            (\<lambda>x. x\<lparr>m_stage_role := Some Host, m_updated_at := tx_now env\<rparr>)))
     | None \<Rightarrow>
         andthen (insert_membership (m_stage_role_update (\<lambda>_. Some Listener)) (r_id r) (r_creator_id r) (tx_now env))
           (\<lambda>i. writes (update_membership i
             (\<lambda>x. x\<lparr>m_stage_role := Some Host, m_updated_at := tx_now env\<rparr>)))))"

definition create_room_for :: "'o room_env \<Rightarrow> room_type \<Rightarrow> string option \<Rightarrow> int \<Rightarrow> int list \<Rightarrow> bool \<Rightarrow> ('o, room) op" where
  "create_room_for env t name creator us in_transaction =
     andthen (if t = DirectRoom
              then andthen (reads (check_direct_members us)) (\<lambda>_. reads (require_contact creator us))
              else yields ()) (\<lambda>_.
     andthen (insert_room env t name creator
         (if t = DirectRoom then Some (direct_member_key_for env us) else None) in_transaction) (\<lambda>r.
     andthen (grant_to env r us) (\<lambda>_.
     andthen (if t = StageRoom then make_creator_the_host env r else yields ()) (\<lambda>_.
     reads (\<lambda>db. get_room db (r_id r))))))"

subsection \<open>Direct rooms\<close>

definition find_unkeyed_direct_for :: "'o room_db \<Rightarrow> int list \<Rightarrow> room option" where
  "find_unkeyed_direct_for db us =
     find (\<lambda>r. alive r \<and> r_type r = DirectRoom \<and> r_direct_member_key r = None \<and>
             sort (user_ids db (r_id r)) = sort us) (rooms db)"

definition find_direct_for :: "'o room_env \<Rightarrow> 'o room_db \<Rightarrow> int list \<Rightarrow> room option" where
  "find_direct_for env db us =
     (case find (\<lambda>r. alive r \<and> r_type r = DirectRoom \<and>
            r_direct_member_key r = Some (direct_member_key_for env us)) (rooms db) of
        Some r \<Rightarrow> Some r
      | None \<Rightarrow> find_unkeyed_direct_for db us)"

definition find_or_create_direct_for :: "'o room_env \<Rightarrow> int list \<Rightarrow> int \<Rightarrow> ('o, room) op" where
  "find_or_create_direct_for env us creator =
     andthen (reads (check_direct_members us)) (\<lambda>_.
     andthen (looks (\<lambda>db. find_direct_for env db us)) (\<lambda>found.
     case found of
       Some r \<Rightarrow> yields r
     | None \<Rightarrow>
         (\<lambda>db. case create_room_for env DirectRoom None creator us False db of
            (Inl RecordNotUnique, db') \<Rightarrow>
              (case find_direct_for env db' us of
                 Some r \<Rightarrow> (Inr r, db') | None \<Rightarrow> (Inl RecordNotUnique, db'))
          | other \<Rightarrow> other)))"

definition is_note_to_self_of :: "'o room_env \<Rightarrow> 'o room_db \<Rightarrow> int \<Rightarrow> int \<Rightarrow> bool" where
  "is_note_to_self_of env db i u =
     (case find_direct_for env db [u] of Some r \<Rightarrow> r_id r = i | None \<Rightarrow> False)"

definition direct_max_members :: nat where
  "direct_max_members = 10"

definition direct_group_capable :: "'o room_db \<Rightarrow> int \<Rightarrow> model_error + bool" where
  "direct_group_capable db i =
     (case get_room db i of
        Inl e \<Rightarrow> Inl e
      | Inr r \<Rightarrow> Inr (r_type r = DirectRoom \<and>
          (length (user_ids db i) > 2 \<or> (case r_name r of Some n \<Rightarrow> \<not> blank n | None \<Rightarrow> False))))"

text \<open>\<^verbatim>\<open>sentence\<close>, and the markup of a note.\<close>

definition sentence :: "string list \<Rightarrow> string" where
  "sentence names =
     (case names of
        [] \<Rightarrow> []
      | [a] \<Rightarrow> a
      | [a, b] \<Rightarrow> a @ '' and '' @ b
      | _ \<Rightarrow> join_with '', '' (butlast names) @ '', and '' @ last names)"

definition escaped_char :: "char \<Rightarrow> string" where
  "escaped_char c =
     (if c = CHR ''&'' then ''&amp;'' else if c = CHR ''<'' then ''&lt;''
      else if c = CHR ''>'' then ''&gt;'' else if c = CHR 0x22 then ''&quot;''
      else if c = CHR 0x27 then ''&#39;'' else [c])"

definition direct_note :: "'o room_env \<Rightarrow> int \<Rightarrow> string \<Rightarrow> int \<Rightarrow> ('o, unit) op" where
  "direct_note env i note_text actor =
     andthen (create_note env i actor (concat (map escaped_char note_text))) (\<lambda>g.
     writes (emit_effect (MessageCreated g)))"

definition direct_directory_updates :: "int \<Rightarrow> ('o, unit) op" where
  "direct_directory_updates i =
     andthen (looks (\<lambda>db. memberships_for_room db i))
       (for_each (\<lambda>m. writes (emit_effect (MembershipChanged (m_id m)))))"

definition display_name :: "person \<Rightarrow> string" where
  "display_name u = (case u_nickname u of Some n \<Rightarrow> n | None \<Rightarrow> u_name u)"

fun display_names :: "int list \<Rightarrow> 'o room_db \<Rightarrow> model_error + string list" where
  "display_names [] db = Inr []"
| "display_names (u # us) db =
     (case get_person db u of
        Inl e \<Rightarrow> Inl e
      | Inr p \<Rightarrow> map_sum id (Cons (display_name p)) (display_names us db))"

definition add_direct_members :: "'o room_env \<Rightarrow> room \<Rightarrow> int list \<Rightarrow> int \<Rightarrow> ('o, int list) op" where
  "add_direct_members env r us actor =
     andthen (looks (\<lambda>db. user_ids db (r_id r))) (\<lambda>current.
     let new_ids = filter (\<lambda>u. u \<notin> set current) us in
     andthen (reads (check_direct_members (current @ new_ids))) (\<lambda>_.
     andthen (reads (require_contact actor new_ids)) (\<lambda>_.
     andthen (reads (\<lambda>db. direct_group_capable db (r_id r))) (\<lambda>capable.
     if \<not> capable then fails (OtherError ''NotAGroup'')
     else if length current + length new_ids > direct_max_members then fails (OtherError ''OverCapacity'')
     else if new_ids = [] then yields new_ids
     else
       andthen (reads (display_names new_ids)) (\<lambda>names.
       andthen (grant_to env r new_ids) (\<lambda>_.
       andthen (direct_note env (r_id r) (''added '' @ sentence names @ '' to the group'') actor) (\<lambda>_.
       andthen (direct_directory_updates (r_id r)) (\<lambda>_.
       yields new_ids))))))))"

subsection \<open>Deleting rooms\<close>

definition validate_room :: "room \<Rightarrow> 'o room_db \<Rightarrow> model_error + unit" where
  "validate_room r db =
     (case (if r_type r = DirectRoom then validate_name (r_name r) else Inr ()) of
        Inl e \<Rightarrow> Inl e
      | Inr _ \<Rightarrow>
          into_result (if find_person db (r_creator_id r) = None then [must_exist ''creator''] else []))"

definition begin_destroy :: "'o room_env \<Rightarrow> room \<Rightarrow> ('o, unit) op" where
  "begin_destroy env r =
     andthen (reads (validate_room r)) (\<lambda>_.
     andthen (outside (delete_webhooks env (r_id r))) (\<lambda>_.
     andthen (writes (update_room (r_id r)
         (\<lambda>x. x\<lparr>r_deleted_at := Some (tx_now env), r_direct_member_key := None,
                r_updated_at := tx_now env\<rparr>))) (\<lambda>_.
     andthen (remove_room_from_layout (r_id r) False) (\<lambda>_.
     andthen (outside (emit_hidden env (r_id r) None)) (\<lambda>_.
     andthen (outside (emit_pending env (r_id r) None)) (\<lambda>_.
     andthen (writes (\<lambda>db. db\<lparr>memberships := delete_where (\<lambda>m. m_room_id m = r_id r) (memberships db)\<rparr>)) (\<lambda>_.
     andthen (outside (revoke_room_huddle env (r_id r))) (\<lambda>_.
     andthen (outside (end_deleted_room env (r_id r))) (\<lambda>_.
     andthen (writes (update_room (r_id r) (\<lambda>x. x\<lparr>r_destroy_enqueued_at := Some (tx_now env)\<rparr>))) (\<lambda>_.
     writes (emit_effect (RoomDestroyJob (r_id r)))))))))))))"

text \<open>\<^verbatim>\<open>reenqueue_stuck\<close>: rooms deleted long ago whose job was not enqueued since.\<close>

definition enqueue_stale :: "timestamp \<Rightarrow> room \<Rightarrow> bool" where
  "enqueue_stale cutoff r \<longleftrightarrow> (case r_destroy_enqueued_at r of None \<Rightarrow> True | Some t \<Rightarrow> t < cutoff)"

definition stuck_rooms :: "timestamp \<Rightarrow> 'o room_db \<Rightarrow> int list" where
  "stuck_rooms cutoff db =
     map r_id (sort_key r_id (filter (\<lambda>r. (case r_deleted_at r of Some t \<Rightarrow> t < cutoff | None \<Rightarrow> False) \<and>
       enqueue_stale cutoff r) (rooms db)))"

fun claim_stuck :: "'o room_env \<Rightarrow> timestamp \<Rightarrow> int list \<Rightarrow> nat \<Rightarrow> ('o, nat) op" where
  "claim_stuck env cutoff [] n = yields n"
| "claim_stuck env cutoff (i # is) n =
     andthen (looks (\<lambda>db. count_where (\<lambda>r. r_id r = i \<and> enqueue_stale cutoff r) (rooms db))) (\<lambda>changed.
     andthen (writes (\<lambda>db. db\<lparr>rooms := update_where (\<lambda>r. r_id r = i \<and> enqueue_stale cutoff r)
         (\<lambda>r. r\<lparr>r_destroy_enqueued_at := Some (tx_now env)\<rparr>) (rooms db)\<rparr>)) (\<lambda>_.
     andthen (writes (if changed = 1 then emit_effect (RoomDestroyJob i) else id)) (\<lambda>_.
     claim_stuck env cutoff is (if changed = 1 then n + 1 else n))))"

definition reenqueue_stuck :: "'o room_env \<Rightarrow> int \<Rightarrow> ('o, nat) op" where
  "reenqueue_stuck env grace =
     (let cutoff = ago (tx_now env) (grace * 1000000000)
      in andthen (looks (stuck_rooms cutoff)) (\<lambda>ids. claim_stuck env cutoff ids 0))"

datatype leave_outcome = Left | DestroyedRoom

definition leave_direct :: "'o room_env \<Rightarrow> room \<Rightarrow> int \<Rightarrow> ('o, leave_outcome) op" where
  "leave_direct env r u =
     andthen (reads (\<lambda>db. case find_by_room_and_user db (r_id r) u of
         Some m \<Rightarrow> Inr m | None \<Rightarrow> Inl (RecordNotFound ''Membership''))) (\<lambda>m.
     andthen (destroy_membership env m) (\<lambda>_.
     andthen (looks (\<lambda>db. user_ids db (r_id r))) (\<lambda>remaining.
     if remaining = [] then andthen (begin_destroy env r) (\<lambda>_. yields DestroyedRoom)
     else
       andthen (direct_note env (r_id r) ''left the group'' u) (\<lambda>_.
       andthen (direct_directory_updates (r_id r)) (\<lambda>_.
       yields Left)))))"

subsection \<open>Updating rooms\<close>

definition update_name_and_type :: "'o room_env \<Rightarrow> string option option \<Rightarrow> room_type option \<Rightarrow> room \<Rightarrow> ('o, room) op" where
  "update_name_and_type env name0 type0 r =
     (let name = (case name0 of Some n \<Rightarrow> if n \<noteq> r_name r then Some n else None | None \<Rightarrow> None);
          t = (case type0 of Some k \<Rightarrow> if k \<noteq> r_type r then Some k else None | None \<Rightarrow> None)
      in
      if t \<noteq> None \<and> r_type r = DirectRoom
      then fails (RecordInvalid [(''type'', ''can't be changed for a direct room'')])
      else
        andthen (if r_type r = DirectRoom
                 then reads (\<lambda>_. validate_name (case name of Some n \<Rightarrow> n | None \<Rightarrow> r_name r))
                 else yields ()) (\<lambda>_.
        if name = None \<and> t = None then yields r
        else
          (let r' = r\<lparr>r_name := (case name of Some n \<Rightarrow> n | None \<Rightarrow> r_name r),
                     r_type := (case t of Some k \<Rightarrow> k | None \<Rightarrow> r_type r), r_updated_at := tx_now env\<rparr>
           in
           andthen (writes (update_room (r_id r)
               (\<lambda>x. x\<lparr>r_name := r_name r', r_type := r_type r', r_updated_at := tx_now env\<rparr>))) (\<lambda>_.
           andthen (writes (if t = Some OpenRoom \<and> r_deleted_at r = None
                            then register_hook (GrantToActive (r_id r)) else id)) (\<lambda>_.
           yields r')))))"

text \<open>
  A rename writes a note unless the room has one of the last minute.
\<close>

definition recent_note :: "timestamp \<Rightarrow> int \<Rightarrow> 'o room_db \<Rightarrow> bool" where
  "recent_note now i db \<longleftrightarrow>
     (\<exists>g\<in>set (messages db). g_room_id g = i \<and> g_system_note g \<and> ago now 60000000000 \<le> g_created_at g)"

definition rename_direct :: "'o room_env \<Rightarrow> room \<Rightarrow> string \<Rightarrow> int \<Rightarrow> ('o, room) op" where
  "rename_direct env r0 name actor =
     andthen (reads (\<lambda>db. get_room db (r_id r0))) (\<lambda>r.
     andthen (reads (\<lambda>db. direct_group_capable db (r_id r))) (\<lambda>capable.
     if \<not> capable then fails (OtherError ''NotAGroup'')
     else
       (let clean = ruby_strip name in
        andthen (update_name_and_type env (Some (if blank clean then None else Some clean)) None r) (\<lambda>r'.
        andthen (looks (recent_note (tx_now env) (r_id r))) (\<lambda>recent.
        andthen (if recent then yields ()
                 else direct_note env (r_id r)
                   (if blank clean then ''cleared the group name'' else ''renamed the group to '' @ clean) actor) (\<lambda>_.
        andthen (direct_directory_updates (r_id r)) (\<lambda>_.
        yields r')))))))"

definition normalize_topic :: "string option \<Rightarrow> model_error + string option" where
  "normalize_topic topic =
     (let t = trim (case topic of Some x \<Rightarrow> x | None \<Rightarrow> [])
      in if length t > 1024 then Inl (RecordInvalid [(''topic'', ''is too long (maximum is 1024 characters)'')])
         else Inr (if t = [] then None else Some t))"

definition update_topic :: "'o room_env \<Rightarrow> string option \<Rightarrow> room \<Rightarrow> ('o, room) op" where
  "update_topic env topic r =
     andthen (reads (\<lambda>_. normalize_topic topic)) (\<lambda>t.
     if t = r_topic r then yields r
     else andthen (writes (update_room (r_id r) (\<lambda>x. x\<lparr>r_topic := t, r_updated_at := tx_now env\<rparr>))) (\<lambda>_.
          yields (r\<lparr>r_topic := t, r_updated_at := tx_now env\<rparr>)))"

definition voice_bitrates :: "int list" where
  "voice_bitrates = [48000, 64000, 96000, 128000, 256000, 384000]"

definition audio_bitrate_target :: "room \<Rightarrow> int" where
  "audio_bitrate_target r = (case r_voice_bitrate r of Some b \<Rightarrow> b | None \<Rightarrow> 48000)"

definition validate_voice_user_limit :: "int option \<Rightarrow> model_error + unit" where
  "validate_voice_user_limit limit =
     into_result (case limit of
         Some n \<Rightarrow> if 1 \<le> n \<and> n \<le> 99 then [] else [(''voice_user_limit'', ''must be between 1 and 99'')]
       | None \<Rightarrow> [])"

definition update_voice_user_limit :: "'o room_env \<Rightarrow> int option \<Rightarrow> room \<Rightarrow> ('o, room) op" where
  "update_voice_user_limit env limit r =
     andthen (reads (\<lambda>_. validate_voice_user_limit limit)) (\<lambda>_.
     if limit = r_voice_user_limit r then yields r
     else andthen (writes (update_room (r_id r) (\<lambda>x. x\<lparr>r_voice_user_limit := limit, r_updated_at := tx_now env\<rparr>))) (\<lambda>_.
          yields (r\<lparr>r_voice_user_limit := limit, r_updated_at := tx_now env\<rparr>)))"

definition validate_voice_bitrate :: "int option \<Rightarrow> model_error + unit" where
  "validate_voice_bitrate bitrate =
     into_result (case bitrate of
         Some b \<Rightarrow> if b \<in> set voice_bitrates then [] else [(''voice_bitrate'', ''is not included in the list'')]
       | None \<Rightarrow> [])"

definition update_voice_bitrate :: "'o room_env \<Rightarrow> int option \<Rightarrow> room \<Rightarrow> ('o, room) op" where
  "update_voice_bitrate env bitrate r =
     andthen (reads (\<lambda>_. validate_voice_bitrate bitrate)) (\<lambda>_.
     if bitrate = r_voice_bitrate r then yields r
     else andthen (writes (update_room (r_id r) (\<lambda>x. x\<lparr>r_voice_bitrate := bitrate, r_updated_at := tx_now env\<rparr>))) (\<lambda>_.
          yields (r\<lparr>r_voice_bitrate := bitrate, r_updated_at := tx_now env\<rparr>)))"

subsection \<open>Receiving a message\<close>

text \<open>
  \<^verbatim>\<open>unread_memberships\<close>: three updates.  The level a statement compares is SQL, so a membership
  whose level is \<^verbatim>\<open>NULL\<close> satisfies no comparison; a member without a row in users has no
  preferences.
\<close>

definition preferences_of :: "'o room_db \<Rightarrow> int \<Rightarrow> preferences" where
  "preferences_of db u = (case find_person db u of Some x \<Rightarrow> u_preferences x | None \<Rightarrow> no_preferences)"

definition sql_level :: "'o room_db \<Rightarrow> membership \<Rightarrow> string option" where
  "sql_level db m = involvement_sql (preferences_of db (m_user_id m)) (m_room_id m) (m_involvement m)"

definition level_is :: "'o room_db \<Rightarrow> membership \<Rightarrow> string \<Rightarrow> bool" where
  "level_is db m l \<longleftrightarrow> sql_level db m = Some l"

definition level_is_not :: "'o room_db \<Rightarrow> membership \<Rightarrow> string \<Rightarrow> bool" where
  "level_is_not db m l \<longleftrightarrow> (case sql_level db m of Some x \<Rightarrow> x \<noteq> l | None \<Rightarrow> False)"

definition unmuted_for :: "'o room_db \<Rightarrow> timestamp \<Rightarrow> membership \<Rightarrow> bool" where
  "unmuted_for db now m \<longleftrightarrow> unmuted_sql (preferences_of db (m_user_id m)) (m_room_id m) now"

definition goes_unread :: "'o room_db \<Rightarrow> timestamp \<Rightarrow> int \<Rightarrow> message_row \<Rightarrow> membership \<Rightarrow> bool" where
  "goes_unread db now rm g m \<longleftrightarrow>
     m_room_id m = rm \<and> level_is_not db m ''invisible'' \<and> unmuted_for db now m \<and>
     visible_author db (m_user_id m) (g_creator_id g) \<and> \<not> is_connected m now \<and>
     m_user_id m \<noteq> g_creator_id g \<and> level_is_not db m ''muted''"

definition muted_recipient :: "'o room_db \<Rightarrow> timestamp \<Rightarrow> int \<Rightarrow> message_row \<Rightarrow> membership \<Rightarrow> bool" where
  "muted_recipient db now rm g m \<longleftrightarrow>
     m_room_id m = rm \<and> level_is db m ''muted'' \<and> unmuted_for db now m \<and> \<not> is_connected m now \<and>
     m_user_id m \<noteq> g_creator_id g"

definition mark_row :: "timestamp \<Rightarrow> message_row \<Rightarrow> membership \<Rightarrow> membership" where
  "mark_row now g m = m\<lparr>m_unread_at := Some (g_created_at g), m_updated_at := now\<rparr>"

definition advances_pointer :: "'o room_db \<Rightarrow> timestamp \<Rightarrow> int \<Rightarrow> message_row \<Rightarrow> membership \<Rightarrow> bool" where
  "advances_pointer db now rm g m \<longleftrightarrow>
     m_room_id m = rm \<and> level_is_not db m ''invisible'' \<and> m_unread_at m = None \<and>
     (is_connected m now \<or> m_user_id m = g_creator_id g)"

definition unread_memberships :: "'o room_env \<Rightarrow> int \<Rightarrow> message_row \<Rightarrow> ('o, unit) op" where
  "unread_memberships env rm g =
     (let now = tx_now env in
      andthen (writes (\<lambda>db. update_memberships (goes_unread db now rm g) (mark_row now g) db)) (\<lambda>_.
      andthen (looks (\<lambda>db. list_ex (muted_recipient db now rm g) (memberships db))) (\<lambda>found.
      let ids = (if found then mentionees env (g_id g) else []) in
      andthen (if ids = [] then yields ()
               else writes (\<lambda>db. update_memberships
                 (\<lambda>m. muted_recipient db now rm g m \<and> visible_author db (m_user_id m) (g_creator_id g) \<and>
                      m_user_id m \<in> set ids) (mark_row now g) db)) (\<lambda>_.
      writes (\<lambda>db. update_memberships (advances_pointer db now rm g)
        (\<lambda>m. m\<lparr>m_last_read_message_id := Some (g_id g), m_updated_at := now\<rparr>) db)))))"

definition receive :: "'o room_env \<Rightarrow> int \<Rightarrow> message_row \<Rightarrow> ('o, unit) op" where
  "receive env rm g = (if g_system_note g then yields () else unread_memberships env rm g)"

definition push_later :: "int \<Rightarrow> message_row \<Rightarrow> 'o room_db \<Rightarrow> 'o room_db" where
  "push_later rm g = (if g_system_note g then id else emit_effect (PushMessage rm (g_id g)))"

subsection \<open>Hooks\<close>

text \<open>What the registered closures run after the commit, each in a transaction of its own.\<close>

definition membership_destroyed :: "'o room_env \<Rightarrow> int \<Rightarrow> int \<Rightarrow> ('o, unit) op" where
  "membership_destroyed env u rm =
     andthen (looks (\<lambda>db. find_room db rm)) (\<lambda>found.
     andthen (case found of
         Some r \<Rightarrow> writes (emit_effect (RoomRemoval u rm (class_name (r_type r))))
       | None \<Rightarrow> yields ()) (\<lambda>_.
     andthen (reads (\<lambda>db. get_person db u)) (\<lambda>x.
     andthen (writes (emit_effect (DisconnectUser (u_id x) True))) (\<lambda>_.
     andthen (outside (forget_threads env rm u)) (\<lambda>_.
     andthen (looks (\<lambda>db. find_room db rm)) (\<lambda>again.
     case again of
       Some r \<Rightarrow> if r_type r = DirectRoom then refresh_direct_member_key env rm else yields ()
     | None \<Rightarrow> yields ()))))))"

fun run_hook :: "'o room_env \<Rightarrow> room_hook \<Rightarrow> ('o, unit) op" where
  "run_hook env (GrantToActive i) = grant_to_active_users env i"
| "run_hook env (MembershipDestroyed u rm) = membership_destroyed env u rm"
| "run_hook env (CalendarRemoval m u rm) = yields ()"

end
