(* ===== verification/StageHosts.thy ===== *)
theory StageHosts
  imports Rooms
begin

section \<open>Stage rooms keep a host\<close>

text \<open>
  A stage room with members has a host among them: what \<^verbatim>\<open>membership.rs\<close> and \<^verbatim>\<open>stage.rs\<close> arrange when
  hosts leave, are removed or are demoted, and why \<^verbatim>\<open>revoke_from\<close> removes the hosts last.
\<close>

subsection \<open>What the operations leave alone\<close>

text \<open>Who is a member of what, and the rooms with their types.\<close>

definition skeleton :: "'o room_db \<Rightarrow> (int \<times> int \<times> int) list \<times> (int \<times> room_type) list" where
  "skeleton db = (map (\<lambda>m. (m_id m, m_room_id m, m_user_id m)) (memberships db),
                  map (\<lambda>r. (r_id r, r_type r)) (rooms db))"

lemma skeleton_writes [simp]:
  "skeleton (db\<lparr>elsewhere := x\<rparr>) = skeleton db"
  "skeleton (db\<lparr>messages := gs, next_message := n\<rparr>) = skeleton db"
  "skeleton (emit_effect e db) = skeleton db"
  "skeleton (prepare_hook h db) = skeleton db"
  "skeleton (register_hook h db) = skeleton db"
  by (simp_all add: skeleton_def emit_effect_def prepare_hook_def register_hook_def)

lemma skeleton_touch [simp]: "skeleton (touch_room now rm db) = skeleton db"
  by (simp add: skeleton_def touch_room_def map_update_where)

lemma skeleton_update:
  "(\<And>m. m_id (f m) = m_id m \<and> m_room_id (f m) = m_room_id m \<and> m_user_id (f m) = m_user_id m) \<Longrightarrow>
    skeleton (update_memberships P f db) = skeleton db"
  by (simp add: skeleton_def update_memberships_def map_update_where)

lemmas skeleton_rules = keeps_rules keeps_writes keeps_outside

abbreviation still :: "('o, 'a) op \<Rightarrow> bool" where
  "still m \<equiv> (\<forall>s. keeps (\<lambda>db. skeleton db = s) m)"

lemma stillD: "still m \<Longrightarrow> m db = (r, db') \<Longrightarrow> skeleton db' = skeleton db"
  using keepsD by fastforce

lemma still_change_stage_role: "still (change_stage_role env role m)"
  unfolding change_stage_role_def validate_call_attributes_def validate_organization_def reload_def Let_def
  by (intro allI skeleton_rules) (simp_all add: skeleton_update)

lemma still_create_note: "still (create_note env rm u body)"
  unfolding create_note_def by (intro allI skeleton_rules) simp_all

lemma still_successor: "still (successor first is)"
  by (intro allI, induction "is") (auto intro!: keeps_rules)

lemma still_host_departed: "still (host_departed env rm u)"
  unfolding host_departed_def
  by (intro allI skeleton_rules still_create_note [rule_format] still_successor [rule_format]
      still_change_stage_role [rule_format]) (auto split: list.split intro!: skeleton_rules
      still_create_note [rule_format] still_successor [rule_format] still_change_stage_role [rule_format])


lemma stage_room_skeleton: "stage_room db rm \<longleftrightarrow> map_of (snd (skeleton db)) rm = Some StageRoom"
proof -
  have "map_of (map (\<lambda>r. (r_id r, r_type r)) rs) rm = map_option r_type (find (\<lambda>r. r_id r = rm) rs)"
    for rs :: "room list"
    by (induction rs) auto
  then show ?thesis by (simp add: stage_room_def find_room_def skeleton_def split: option.split)
qed

lemma member_skeleton:
  "(\<exists>m \<in> set (memberships db). m_id m = i \<and> m_room_id m = rm \<and> m_user_id m = u) \<longleftrightarrow>
    (i, rm, u) \<in> set (fst (skeleton db))"
  by (auto simp: skeleton_def image_iff)

lemma ids_skeleton: "map m_id (memberships db) = map fst (fst (skeleton db))"
  by (simp add: skeleton_def comp_def)

lemma members_skeleton: "memberships_for_room db rm = [] \<longleftrightarrow> (\<forall>e \<in> set (fst (skeleton db)). fst (snd e) \<noteq> rm)"
  by (auto simp: memberships_for_room_def skeleton_def filter_empty_conv)

subsection \<open>The successor\<close>

definition hosted :: "'o room_db \<Rightarrow> int \<Rightarrow> bool" where
  "hosted db rm \<longleftrightarrow> stage_room db rm \<longrightarrow> memberships_for_room db rm = [] \<or> has_host db rm"

lemma get_membership_ok:
  "get_membership db i = Inr m \<Longrightarrow> \<exists>x \<in> set (memberships db). m = policy_row db x \<and> m_id x = i"
  by (auto simp: get_membership_def stored_membership_def find_Some_iff split: option.splits)

lemma policy_row_simps [simp]:
  "m_id (policy_row db m) = m_id m" "m_room_id (policy_row db m) = m_room_id m"
  "m_user_id (policy_row db m) = m_user_id m" "m_stage_role (policy_row db m) = m_stage_role m"
  "m_room_category_id (policy_row db m) = m_room_category_id m"
  "m_favorite_position (policy_row db m) = m_favorite_position m"
  by (simp_all add: policy_row_def)

lemma find_host: "has_host db rm \<longleftrightarrow> (\<exists>m \<in> set (memberships db). m_room_id m = rm \<and> m_stage_role m = Some Host)"
  by (auto simp: has_host_def list_ex_iff)

lemma has_host_elsewhere [simp]: "has_host (db\<lparr>elsewhere := x\<rparr>) rm = has_host db rm"
  by (simp add: has_host_def)

text \<open>A member made host is one.\<close>

lemma changed_role_hosts:
  assumes "get_membership db i = Inr m" and "change_stage_role env Host m db = (Inr m', db')"
  shows "has_host db' (m_room_id m)"
proof -
  obtain x where x: "x \<in> set (memberships db)" "m = policy_row db x"
    using get_membership_ok [OF assms(1)] by blast
  let ?f = "\<lambda>y. y\<lparr>m_stage_role := Some Host, m_hand_raised_at := None, m_updated_at := tx_now env\<rparr>"
  have "memberships db' = memberships db \<and> m_stage_role m = Some Host \<or>
      memberships db' = update_where (\<lambda>y. m_id y = m_id m) ?f (memberships db)"
    using assms(2)
    by (auto simp: change_stage_role_def validate_call_attributes_def validate_organization_def
        reload_def op_ok Let_def update_memberships_def split: if_splits)
  then show ?thesis
  proof
    assume "memberships db' = update_where (\<lambda>y. m_id y = m_id m) ?f (memberships db)"
    then have "?f x \<in> set (memberships db')" using x by (auto simp: set_update_where)
    then show ?thesis using x by (auto simp: find_host intro: bexI [of _ "?f x"])
  qed (use x in \<open>auto simp: find_host\<close>)
qed

lemma successor_ok: "successor first is db = (Inr i, db') \<Longrightarrow> i \<in> set (first # is) \<and> db' = db"
  by (induction "is") (auto simp: op_ok split: if_splits)

lemma remaining_members_room:
  assumes "i \<in> set (remaining_members db rm)" "distinct_members db'" "skeleton db' = skeleton db"
    and "get_membership db' i = Inr m"
  shows "m_room_id m = rm"
proof -
  obtain y where y: "y \<in> set (memberships db)" "m_id y = i" "m_room_id y = rm"
    using assms(1) by (auto simp: remaining_members_def memberships_for_room_def)
  obtain x where x: "x \<in> set (memberships db')" "m = policy_row db' x" "m_id x = i"
    using get_membership_ok [OF assms(4)] by blast
  have "(i, rm, m_user_id y) \<in> set (fst (skeleton db'))"
    unfolding assms(3) using y member_skeleton [of db i rm "m_user_id y"] by blast
  then obtain z where "z \<in> set (memberships db')" "m_id z = i" "m_room_id z = rm"
    using member_skeleton [of db' i rm "m_user_id y"] by blast
  with x member_unique [OF assms(2) x(1)] show ?thesis by auto
qed

lemma distinct_members_skeleton: "skeleton db' = skeleton db \<Longrightarrow> distinct_members db' = distinct_members db"
  by (simp add: distinct_members_def ids_skeleton)

lemma hosted_skeleton:
  "skeleton db' = skeleton db \<Longrightarrow> has_host db' rm = has_host db rm \<Longrightarrow> hosted db' rm = hosted db rm"
  by (simp add: hosted_def stage_room_skeleton members_skeleton)

lemma host_departed_hosts:
  assumes "distinct_members db" and ok: "host_departed env rm u db = (Inr y, db')"
  shows "hosted db' rm"
    and "\<not> stage_room db rm \<or> has_host db rm \<Longrightarrow> db' = db"
proof -
  have same: "skeleton db' = skeleton db" by (rule stillD [OF still_host_departed ok])
  show "\<not> stage_room db rm \<or> has_host db rm \<Longrightarrow> db' = db"
    using ok by (auto simp: host_departed_def op_ok split: if_splits)
  show "hosted db' rm"
  proof (cases "\<not> stage_room db rm \<or> has_host db rm")
    case True
    then have "db' = db" using ok by (auto simp: host_departed_def op_ok split: if_splits)
    with True show ?thesis by (auto simp: hosted_def)
  next
    case False
    show ?thesis
    proof (cases "remaining_members db rm")
      case Nil
      then have "length (memberships_for_room db rm) = 0"
        by (metis length_map length_sort list.size(3) remaining_members_def)
      then have "memberships_for_room db rm = []" by simp
      then show ?thesis by (simp add: hosted_def members_skeleton same)
    next
      case (Cons a as)
      obtain x1 x2 x3 n db1 i m m' where
        steps: "create_note env rm u ''The stage ended because the last host left.'' (db\<lparr>elsewhere := x2\<rparr>) = (Inr n, db1)"
          "successor a (a # as) (emit_effect (StageEndedNote n) db1) = (Inr i, x3)"
          "get_membership x3 i = Inr m" "change_stage_role env Host m x3 = (Inr m', db')"
        using ok False Cons by (auto simp: host_departed_def op_ok simp del: successor.simps)
      have x3: "x3 = emit_effect (StageEndedNote n) db1" "i \<in> set (remaining_members db rm)"
        using successor_ok [OF steps(2)] Cons by auto
      have "skeleton x3 = skeleton db"
        using stillD [OF still_create_note steps(1)] by (simp add: x3)
      with steps(3,4) x3(2) assms(1) have "has_host db' rm"
        using remaining_members_room distinct_members_skeleton changed_role_hosts by metis
      then show ?thesis by (simp add: hosted_def)
    qed
  qed
qed


subsection \<open>Removing members\<close>

definition without_member :: "int \<Rightarrow> 'o room_db \<Rightarrow> 'o room_db" where
  "without_member i db = db\<lparr>memberships := delete_where (\<lambda>x. m_id x = i) (memberships db)\<rparr>"

lemma memberships_without [simp]:
  "memberships (without_member i db) = filter (\<lambda>m. m_id m \<noteq> i) (memberships db)"
  "rooms (without_member i db) = rooms db"
  by (simp_all add: without_member_def delete_where_def)

lemma stage_room_cong: "rooms db' = rooms db \<Longrightarrow> stage_room db' rm = stage_room db rm"
  by (simp add: stage_room_def find_room_def)

lemma has_host_cong: "memberships db' = memberships db \<Longrightarrow> has_host db' rm = has_host db rm"
  by (simp add: has_host_def)

text \<open>The removal, its outside calls aside.\<close>

lemma destroy_membership_ok:
  assumes "destroy_membership env m db = (Inr y, db')"
  obtains db1 db2 where "memberships db1 = memberships (without_member (m_id m) db)" "rooms db1 = rooms db"
    and "db' = register_hook (MembershipDestroyed (m_user_id m) (m_room_id m))
        (prepare_hook (CalendarRemoval (m_id m) (m_user_id m) (m_room_id m)) db2)"
    and "m_stage_role m \<noteq> Some Host \<Longrightarrow> db2 = db1"
    and "m_stage_role m = Some Host \<Longrightarrow> host_departed env (m_room_id m) (m_user_id m) db1 = (Inr (), db2)"
proof -
  let ?finish = "\<lambda>d. register_hook (MembershipDestroyed (m_user_id m) (m_room_id m))
      (prepare_hook (CalendarRemoval (m_id m) (m_user_id m) (m_room_id m)) d)"
  obtain e db2 where "db' = ?finish db2"
    and "(if m_stage_role m = Some Host then host_departed env (m_room_id m) (m_user_id m) else yields ())
      (db\<lparr>elsewhere := e, memberships := delete_where (\<lambda>x. m_id x = m_id m) (memberships db)\<rparr>) = (Inr (), db2)"
    using assms unfolding destroy_membership_def by (clarsimp simp: op_ok)
  then show ?thesis
    by (intro that [of "db\<lparr>elsewhere := e, memberships := delete_where (\<lambda>x. m_id x = m_id m) (memberships db)\<rparr>" db2])
      (simp_all add: op_ok delete_where_def)
qed

lemma hooks_simps [simp]:
  "memberships (register_hook h db) = memberships db" "rooms (register_hook h db) = rooms db"
  "memberships (prepare_hook h db) = memberships db" "rooms (prepare_hook h db) = rooms db"
  by (simp_all add: register_hook_def prepare_hook_def)

lemma destroyed_skeleton:
  assumes "destroy_membership env m db = (Inr y, db')"
  shows "fst (skeleton db') = filter (\<lambda>e. fst e \<noteq> m_id m) (fst (skeleton db))"
    and "snd (skeleton db') = snd (skeleton db)"
proof -
  obtain db1 db2 where d: "memberships db1 = memberships (without_member (m_id m) db)" "rooms db1 = rooms db"
      "skeleton db' = skeleton db2"
    and h: "m_stage_role m \<noteq> Some Host \<Longrightarrow> db2 = db1"
      "m_stage_role m = Some Host \<Longrightarrow> host_departed env (m_room_id m) (m_user_id m) db1 = (Inr (), db2)"
    using destroy_membership_ok [OF assms] by (metis skeleton_writes(4,5))
  have "skeleton db2 = skeleton db1"
    using h stillD [OF still_host_departed] by (cases "m_stage_role m = Some Host") auto
  with d show "fst (skeleton db') = filter (\<lambda>e. fst e \<noteq> m_id m) (fst (skeleton db))"
    "snd (skeleton db') = snd (skeleton db)"
    by (simp_all add: skeleton_def filter_map comp_def)
qed

text \<open>While another host stays, or in a room that is no stage, only the row goes.\<close>

lemma destroyed_quietly:
  assumes "destroy_membership env m db = (Inr y, db')"
    and "m_stage_role m \<noteq> Some Host \<or> \<not> stage_room db (m_room_id m) \<or>
      has_host (without_member (m_id m) db) (m_room_id m)"
    and "distinct_members db"
  shows "memberships db' = filter (\<lambda>x. m_id x \<noteq> m_id m) (memberships db)"
proof -
  obtain db1 db2 where d: "memberships db1 = memberships (without_member (m_id m) db)" "rooms db1 = rooms db"
      "memberships db' = memberships db2"
    and h: "m_stage_role m \<noteq> Some Host \<Longrightarrow> db2 = db1"
      "m_stage_role m = Some Host \<Longrightarrow> host_departed env (m_room_id m) (m_user_id m) db1 = (Inr (), db2)"
    using destroy_membership_ok [OF assms(1)] by (metis hooks_simps(1,3))
  have "distinct_members db1" using assms(3) d by (simp add: distinct_members_def distinct_map_filter)
  then have "db2 = db1"
    using h host_departed_hosts(2) assms(2) has_host_cong [OF d(1)] stage_room_cong [OF d(2)]
    by (cases "m_stage_role m = Some Host") blast+
  with d show ?thesis by simp
qed

lemma destroyed_hosted:
  assumes ok: "destroy_membership env m db = (Inr y, db')" and dm: "distinct_members db"
    and row: "x \<in> set (memberships db)" "m_id x = m_id m" "m_room_id x = m_room_id m" "m_stage_role x = m_stage_role m"
    and before: "hosted db (m_room_id m)"
  shows "hosted db' (m_room_id m)"
proof -
  obtain db1 db2 where d: "memberships db1 = memberships (without_member (m_id m) db)" "rooms db1 = rooms db"
      "memberships db' = memberships db2" "rooms db' = rooms db2"
    and h: "m_stage_role m \<noteq> Some Host \<Longrightarrow> db2 = db1"
      "m_stage_role m = Some Host \<Longrightarrow> host_departed env (m_room_id m) (m_user_id m) db1 = (Inr (), db2)"
    using destroy_membership_ok [OF ok] by (metis hooks_simps)
  have dm1: "distinct_members db1" using dm d by (simp add: distinct_members_def distinct_map_filter)
  have "hosted db2 (m_room_id m)"
  proof (cases "m_stage_role m = Some Host")
    case True
    show ?thesis by (rule host_departed_hosts(1) [OF dm1 h(2) [OF True]])
  next
    case False
    have "has_host db (m_room_id m)" if "stage_room db (m_room_id m)"
      using before that row(1,3) by (auto simp: hosted_def memberships_for_room_def filter_empty_conv)
    moreover have "has_host db1 (m_room_id m)" if host: "has_host db (m_room_id m)"
    proof -
      obtain z where z: "z \<in> set (memberships db)" "m_room_id z = m_room_id m" "m_stage_role z = Some Host"
        using host by (auto simp: find_host)
      then have "m_id z \<noteq> m_id m" using member_unique [OF dm z(1) row(1)] row(2,4) False by auto
      with z d(1) show ?thesis by (auto simp: find_host)
    qed
    ultimately show ?thesis
      using h(1) [OF False] stage_room_cong [OF d(2)] by (simp add: hosted_def)
  qed
  then show ?thesis
    using d(3,4) by (simp add: hosted_def stage_room_cong [OF d(4)] has_host_cong [OF d(3)] memberships_for_room_def)
qed


text \<open>Members to remove, as copies of their rows, hosts last.\<close>

fun hosts_last :: "membership list \<Rightarrow> bool" where
  "hosts_last [] = True"
| "hosts_last (m # ms) = ((m_stage_role m = Some Host \<longrightarrow> (\<forall>x \<in> set ms. m_stage_role x = Some Host)) \<and> hosts_last ms)"

lemma hosts_last_sorted: "sorted (map (\<lambda>m. m_stage_role m = Some Host) ms) \<Longrightarrow> hosts_last ms"
  by (induction ms) auto

lemma removed_members:
  assumes "for_each (destroy_membership env) ms db = (Inr y, db')"
    and "distinct_members db" and "hosts_last ms" and "distinct (map m_id ms)"
    and "\<forall>m \<in> set ms. m_room_id m = rm" and "set ms \<subseteq> set (memberships db)"
    and "hosted db rm"
  shows "hosted db' rm \<and> snd (skeleton db') = snd (skeleton db) \<and>
    fst (skeleton db') = filter (\<lambda>e. fst e \<notin> m_id ` set ms) (fst (skeleton db))"
  using assms
proof (induction ms arbitrary: db)
  case (Cons m ms)
  obtain db1 where d: "destroy_membership env m db = (Inr (), db1)"
      "for_each (destroy_membership env) ms db1 = (Inr y, db')"
    using Cons.prems(1) by (auto simp: op_ok)
  have row: "m \<in> set (memberships db)" "m_room_id m = rm" using Cons.prems by auto
  have dm1: "distinct_members db1"
    using Cons.prems(2) destroyed_skeleton(1) [OF d(1)]
    by (simp add: distinct_members_def ids_skeleton distinct_map_filter)
  have hosted1: "hosted db1 rm"
    using destroyed_hosted [OF d(1) Cons.prems(2) row(1)] row(2) Cons.prems(7) by simp
  have sub: "set ms \<subseteq> set (memberships db1)"
  proof (cases ms)
    case (Cons n ns)
    have n: "n \<in> set (memberships db)" "m_room_id n = rm" "m_id n \<noteq> m_id m"
        "m_stage_role m = Some Host \<Longrightarrow> m_stage_role n = Some Host"
      using Cons.prems(3,4,5,6) Cons by auto
    then have "n \<in> set (memberships (without_member (m_id m) db))" by simp
    then have "m_stage_role m \<noteq> Some Host \<or> has_host (without_member (m_id m) db) rm"
      unfolding find_host using n(2,4) by blast
    then have "memberships db1 = filter (\<lambda>x. m_id x \<noteq> m_id m) (memberships db)"
      using destroyed_quietly [OF d(1)] row(2) Cons.prems(2) by blast
    moreover have "\<forall>x \<in> set ms. m_id x \<noteq> m_id m" using Cons.prems(4) by (force simp: image_iff)
    ultimately show ?thesis using Cons.prems(6) by auto
  qed simp
  have "hosted db' rm \<and> snd (skeleton db') = snd (skeleton db1) \<and>
      fst (skeleton db') = filter (\<lambda>e. fst e \<notin> m_id ` set ms) (fst (skeleton db1))"
    using Cons.IH [OF d(2) dm1 _ _ _ sub hosted1] Cons.prems(3-5) by simp
  then show ?case
    using destroyed_skeleton [OF d(1)] by (simp add: conj_commute)
qed (auto simp: op_ok)

text \<open>C31.  Removing people from a room: when the removal succeeds, exactly their memberships are
  gone, and a stage that had a host among its members, or no member, still does: the hosts are
  removed last, and the last of them hands over to one who stays.\<close>

theorem revocation_keeps_a_host:
  assumes "distinct_members db" and "hosted db (r_id r)"
    and "revoke_from env r us db = (Inr (), db')"
  shows "hosted db' (r_id r) \<and>
    map m_id (memberships db') = map m_id (filter (\<lambda>m. \<not> (m_room_id m = r_id r \<and> m_user_id m \<in> set us)) (memberships db))"
proof -
  define ms where "ms = revocation_order db (r_id r) us"
  have ms: "set ms = {m \<in> set (memberships db). m_room_id m = r_id r \<and> m_user_id m \<in> set us}"
    by (auto simp: ms_def revocation_order_def)
  have "distinct (map m_id ms)"
    using assms(1) unfolding distinct_members_def ms_def revocation_order_def distinct_map
    by (auto intro: inj_on_subset)
  moreover have "hosts_last ms"
    by (rule hosts_last_sorted) (simp add: ms_def revocation_order_def)
  moreover have "for_each (destroy_membership env) ms db = (Inr (), db')"
    using assms(3) by (simp add: revoke_from_def ms_def op_ok)
  ultimately have r: "hosted db' (r_id r)"
      "fst (skeleton db') = filter (\<lambda>e. fst e \<notin> m_id ` set ms) (fst (skeleton db))"
    using removed_members [of env ms db "()" db' "r_id r"] assms(1,2) ms by auto
  have mem: "m_id m \<in> m_id ` set ms \<longleftrightarrow> m_room_id m = r_id r \<and> m_user_id m \<in> set us" if "m \<in> set (memberships db)" for m
    using that member_unique [OF assms(1)] by (auto simp: ms)
  have "filter (\<lambda>m. m_id m \<notin> m_id ` set ms) (memberships db) =
      filter (\<lambda>m. \<not> (m_room_id m = r_id r \<and> m_user_id m \<in> set us)) (memberships db)"
    by (rule filter_cong) (use mem in blast)+
  then have "map fst (fst (skeleton db')) =
      map m_id (filter (\<lambda>m. \<not> (m_room_id m = r_id r \<and> m_user_id m \<in> set us)) (memberships db))"
    unfolding r(2) by (simp add: skeleton_def filter_map comp_def)
  with r(1) show ?thesis by (simp add: ids_skeleton)
qed

subsection \<open>Demotions\<close>

text \<open>Whatever a change of role does, the memberships are the ones before it or those with the new role.\<close>

abbreviation with_role :: "'o room_env \<Rightarrow> stage_role \<Rightarrow> int \<Rightarrow> membership list \<Rightarrow> membership list" where
  "with_role env role i \<equiv> update_where (\<lambda>x. m_id x = i)
     (\<lambda>x. x\<lparr>m_stage_role := Some role, m_hand_raised_at := None, m_updated_at := tx_now env\<rparr>)"

lemma changed_role_rows:
  fixes db :: "'o room_db"
  assumes "snd (change_stage_role env role m db) = db'"
  shows "rooms db' = rooms db \<and> (memberships db' = memberships db \<or> memberships db' = with_role env role (m_id m) (memberships db))"
proof -
  let ?P = "\<lambda>d. rooms d = rooms db \<and>
      (memberships d = memberships db \<or> memberships d = with_role env role (m_id m) (memberships db))"
  have "with_role env role i (with_role env role i ms) = with_role env role i ms" for i ms
    by (simp add: update_where_def)
  then have "keeps ?P (change_stage_role env role m)"
    unfolding change_stage_role_def validate_call_attributes_def validate_organization_def reload_def Let_def
    by (intro skeleton_rules) (auto simp: update_memberships_def)
  then show ?thesis using assms by (auto simp: keeps_def)
qed

lemma with_role_host:
  assumes "x \<in> set ms" and "m_room_id x = rm" and "m_stage_role x = Some Host" and "m_id x \<noteq> i \<or> role = Host"
  shows "\<exists>y \<in> set (with_role env role i ms). m_room_id y = rm \<and> m_stage_role y = Some Host"
proof -
  let ?f = "\<lambda>x. x\<lparr>m_stage_role := Some role, m_hand_raised_at := None, m_updated_at := tx_now env\<rparr>"
  have "(if m_id x = i then ?f x else x) \<in> set (with_role env role i ms)"
    using imageI [OF assms(1), of "\<lambda>x. if m_id x = i then ?f x else x"] by (simp add: update_where_def)
  then show ?thesis using assms(2-4) by (intro bexI) auto
qed

lemma refused_change:
  assumes "m_stage_role m = Some Host" and "role \<noteq> Host" and "\<not> other_host db (m_room_id m) (m_id m)"
  shows "\<exists>e. change_stage_role env role m db = (Inl e, db) \<and>
    (get_room db (m_room_id m) = Inr r \<longrightarrow> r_type r = StageRoom \<longrightarrow> organization_errors m (m_room_category_id m) db = [] \<longrightarrow>
      e = RecordInvalid [(''stage_role'', ''can't demote the last host'')])"
  using assms
  by (auto simp: change_stage_role_def validate_call_attributes_def validate_organization_def call_errors_def
      andthen_def reads_def looks_def into_result_def split: sum.splits)

text \<open>C32.  Changing the role of a member as it is stored: a stage that had a host among its members, or no
  member, still does, also when a later step fails; demoting its last host is refused with an
  error that says so and writes nothing.\<close>

theorem last_host_not_demoted:
  assumes "distinct_members db" and "get_membership db (m_id m) = Inr m" and "hosted db rm"
  shows "hosted (snd (change_stage_role env role m db)) rm \<and>
    (m_stage_role m = Some Host \<and> role \<noteq> Host \<and> \<not> other_host db (m_room_id m) (m_id m) \<longrightarrow>
      (\<exists>e. change_stage_role env role m db = (Inl e, db) \<and>
        (get_room db (m_room_id m) = Inr r \<longrightarrow> r_type r = StageRoom \<longrightarrow>
          organization_errors m (m_room_category_id m) db = [] \<longrightarrow>
          e = RecordInvalid [(''stage_role'', ''can't demote the last host'')])))"
proof (cases "m_stage_role m = Some Host \<and> role \<noteq> Host \<and> \<not> other_host db (m_room_id m) (m_id m)")
  case True
  then show ?thesis using refused_change [of m role db env r] assms(3) by auto
next
  case False
  obtain y where y: "y \<in> set (memberships db)" "m = policy_row db y" "m_id y = m_id m"
    using get_membership_ok [OF assms(2)] by blast
  define db' where "db' = snd (change_stage_role env role m db)"
  have rows: "rooms db' = rooms db" "memberships db' = memberships db \<or>
      memberships db' = with_role env role (m_id m) (memberships db)"
    using changed_role_rows [OF db'_def [symmetric]] by auto
  have "has_host db' rm" if host: "has_host db rm"
  proof -
    obtain x where x: "x \<in> set (memberships db)" "m_room_id x = rm" "m_stage_role x = Some Host"
      using host by (auto simp: find_host)
    obtain z where z: "z \<in> set (memberships db)" "m_room_id z = rm" "m_stage_role z = Some Host" "m_id z \<noteq> m_id m \<or> role = Host"
    proof (cases "m_id x = m_id m \<and> role \<noteq> Host")
      case True
      then have "x = y" using member_unique [OF assms(1) x(1) y(1)] y(3) by simp
      then have "other_host db rm (m_id m)" using False True x y(2) by auto
      then show ?thesis using that by (auto simp: other_host_def list_ex_iff)
    qed (use x that in auto)
    then show ?thesis using rows(2) with_role_host [OF z] by (auto simp: find_host)
  qed
  moreover have "memberships_for_room db' rm = [] \<longleftrightarrow> memberships_for_room db rm = []"
    using stillD [OF still_change_stage_role, of env role m db "fst (change_stage_role env role m db)" db']
    by (simp add: db'_def members_skeleton)
  ultimately have "hosted db' rm"
    using assms(3) stage_room_cong [OF rows(1), of rm] by (auto simp: hosted_def)
  then have "hosted (snd (change_stage_role env role m db)) rm" by (simp add: db'_def)
  with False show ?thesis by blast
qed


definition stage_member :: "int \<Rightarrow> int \<Rightarrow> stage_role \<Rightarrow> membership" where
  "stage_member i u role = (new_membership i 7 u i)\<lparr>m_stage_role := Some role\<rparr>"

definition stage_db :: "unit room_db" where
  "stage_db = empty_room_db\<lparr>rooms := [plain_room 7 StageRoom 1],
     memberships := [stage_member 1 1 Host, stage_member 2 2 Listener, stage_member 3 3 Speaker],
     people := [plain_person 1, plain_person 2, plain_person 3]\<rparr>"

lemma revocation_keeps_a_host_witness:
  "\<exists>db'. revoke_from (quiet_env 9) (plain_room 7 StageRoom 1) [1, 2] stage_db = (Inr (), db') \<and>
     hosted db' 7 \<and> map m_id (memberships db') = [3]"
proof -
  let ?out = "revoke_from (quiet_env 9) (plain_room 7 StageRoom 1) [1, 2] stage_db"
  have "fst ?out = Inr ()" by code_simp
  then have run: "?out = (Inr (), snd ?out)" by (metis prod.collapse)
  have "distinct_members stage_db" "hosted stage_db 7" by code_simp+
  moreover have "map m_id (filter (\<lambda>m. \<not> (m_room_id m = 7 \<and> m_user_id m \<in> set [1, 2])) (memberships stage_db)) = [3]"
    by code_simp
  ultimately show ?thesis
    using revocation_keeps_a_host [OF _ _ run] run by (auto simp: plain_room_def)
qed

lemma last_host_not_demoted_witness:
  "change_stage_role (quiet_env 9) Speaker (stage_member 1 1 Host) stage_db =
    (Inl (RecordInvalid [(''stage_role'', ''can't demote the last host'')]), stage_db)"
proof -
  let ?m = "stage_member 1 1 Host"
  have "distinct_members stage_db" "get_membership stage_db (m_id ?m) = Inr ?m" "hosted stage_db 7" by code_simp+
  moreover have "m_stage_role ?m = Some Host" "\<not> other_host stage_db (m_room_id ?m) (m_id ?m)"
    "get_room stage_db (m_room_id ?m) = Inr (plain_room 7 StageRoom 1)"
    "organization_errors ?m (m_room_category_id ?m) stage_db = []" by code_simp+
  ultimately show ?thesis
    using last_host_not_demoted [of stage_db ?m 7 "quiet_env 9" Speaker "plain_room 7 StageRoom 1"]
    by (auto simp: plain_room_def)
qed

end
