(* ===== verification/DirectRooms.thy ===== *)
theory DirectRooms
  imports Rooms
begin

section \<open>Direct rooms are found again\<close>

text \<open>
  \<^verbatim>\<open>find_or_create_direct_for\<close> of \<^verbatim>\<open>crates/db/src/models/room.rs\<close>: the room for a set of people is
  created once, holds exactly them, and is the one the next lookup returns.
\<close>

subsection \<open>Inserting memberships\<close>

lemma insert_memberships_batch:
  "insert_memberships env rm level us db = insert_batch level rm (sqlite_now env) us db"
proof -
  have "foldl (\<lambda>d b. insert_batch level rm now b d) db bs = insert_batch level rm now (concat bs) db" for now bs
    by (induction bs arbitrary: db) (simp_all add: insert_batch_def)
  then show ?thesis by (simp add: insert_memberships_def concat_chunks)
qed

lemma insert_batch_simps [simp]:
  "insert_batch level rm now [] db = db"
  "insert_batch level rm now (u # us) db = insert_batch level rm now us (insert_if_absent level rm now u db)"
  by (simp_all add: insert_batch_def)

lemma insert_if_absent_rest [simp]:
  "rooms (insert_if_absent level rm now u db) = rooms db"
  "people (insert_if_absent level rm now u db) = people db"
  by (simp_all add: insert_if_absent_def)

lemma insert_batch_rest [simp]:
  "rooms (insert_batch level rm now us db) = rooms db"
  "people (insert_batch level rm now us db) = people db"
  by (induction us arbitrary: db) simp_all

lemma member_of_ids: "list_ex (member_of rm u) (memberships db) \<longleftrightarrow> u \<in> set (member_ids db rm)"
  by (auto simp: list_ex_iff member_of_def member_ids_def memberships_for_room_def)

lemma member_ids_insert:
  "member_ids (insert_if_absent level rm now u db) rm =
    (if u \<in> set (member_ids db rm) then member_ids db rm else member_ids db rm @ [u])"
  unfolding insert_if_absent_def member_of_ids
  by (simp add: member_ids_def memberships_for_room_def new_membership_def)

lemma member_ids_batch:
  "distinct us \<Longrightarrow> set us \<inter> set (member_ids db rm) = {} \<Longrightarrow>
    member_ids (insert_batch level rm now us db) rm = member_ids db rm @ us"
  by (induction us arbitrary: db) (auto simp: member_ids_insert)

text \<open>Repeated or known people are granted once.\<close>

lemma member_ids_batch_set:
  "set (member_ids (insert_batch level rm now us db) rm) = set us \<union> set (member_ids db rm)"
  by (induction us arbitrary: db) (auto simp: member_ids_insert)

lemma distinct_member_ids_batch:
  "distinct (member_ids db rm) \<Longrightarrow> distinct (member_ids (insert_batch level rm now us db) rm)"
  by (induction us arbitrary: db) (auto simp: member_ids_insert)

subsection \<open>Creating and finding\<close>

definition new_ids_unused :: "'o room_db \<Rightarrow> bool" where
  "new_ids_unused db \<longleftrightarrow>
     (\<forall>r \<in> set (rooms db). r_id r < next_room db) \<and>
     (\<forall>m \<in> set (memberships db). m_room_id m < next_room db)"

lemma find_room_new:
  "new_ids_unused db \<Longrightarrow> rooms db' = rooms db @ [r] \<Longrightarrow> r_id r = next_room db \<Longrightarrow> find_room db' (next_room db) = Some r"
proof -
  assume fresh: "new_ids_unused db" and db': "rooms db' = rooms db @ [r]" "r_id r = next_room db"
  have "find (\<lambda>r. r_id r = next_room db) (rooms db) = None"
    using fresh by (auto simp: new_ids_unused_def find_None_iff)
  then show ?thesis using db' by (simp add: find_room_def find_append)
qed

lemma no_members_yet: "new_ids_unused db \<Longrightarrow> member_ids db (next_room db) = []"
  by (auto simp: member_ids_def memberships_for_room_def new_ids_unused_def filter_empty_conv)

text \<open>A room created under its key keeps it when its members are granted.\<close>

lemma refresh_keeps_key:
  assumes "find_room db i = Some r" and "r_deleted_at r = None" and "r_name r = None" and "r_id r = i"
    and "r_direct_member_key r = Some (direct_member_key_for env (member_ids db i))"
    and "\<not> key_taken db i (direct_member_key_for env (member_ids db i))"
  shows "refresh_direct_member_key env i db = (Inr (), db)"
proof -
  have "\<not> list_ex (\<lambda>x. alive x \<and> r_type x = DirectRoom \<and> r_id x \<noteq> i \<and>
      r_direct_member_key x = Some (direct_member_key_for env (member_ids db i))) (rooms db)"
    using assms(6) by (auto simp: key_taken_def list_ex_iff)
  then show ?thesis
    using assms(1-5) by (simp add: refresh_direct_member_key_def andthen_def looks_def yields_def Let_def)
qed

lemma direct_key_sort: "sort us = sort vs \<Longrightarrow> direct_member_key_for env us = direct_member_key_for env vs"
  by (simp add: direct_member_key_for_def)

definition created_room :: "'o room_env \<Rightarrow> int \<Rightarrow> int list \<Rightarrow> 'o room_db \<Rightarrow> room" where
  "created_room env creator us db =
     new_room (next_room db) DirectRoom None creator (Some (direct_member_key_for env us)) (tx_now env)"

definition created_db :: "'o room_env \<Rightarrow> int \<Rightarrow> int list \<Rightarrow> 'o room_db \<Rightarrow> 'o room_db" where
  "created_db env creator us db =
     insert_batch Everything (next_room db) (sqlite_now env) us
       (db\<lparr>rooms := rooms db @ [created_room env creator us db], next_room := next_room db + 1\<rparr>)"

lemma created_room_simps [simp]:
  "r_id (created_room env creator us db) = next_room db"
  "r_type (created_room env creator us db) = DirectRoom"
  "r_name (created_room env creator us db) = None"
  "r_deleted_at (created_room env creator us db) = None"
  "alive (created_room env creator us db)"
  "r_direct_member_key (created_room env creator us db) = Some (direct_member_key_for env us)"
  by (simp_all add: created_room_def new_room_def alive_def)

lemma rooms_created: "rooms (created_db env creator us db) = rooms db @ [created_room env creator us db]"
  by (simp add: created_db_def)

lemma members_created:
  assumes "new_ids_unused db" and "distinct us"
  shows "member_ids (created_db env creator us db) (next_room db) = us"
proof -
  have "member_ids (db\<lparr>rooms := rs, next_room := n\<rparr>) (next_room db) = []" for rs n
    using no_members_yet [OF assms(1)] by (simp add: member_ids_def memberships_for_room_def)
  then show ?thesis using assms(2) by (simp add: created_db_def member_ids_batch)
qed

text \<open>Creation either fails before it wrote, or ends in \<open>created_db\<close>.\<close>

lemma create_direct:
  assumes "new_ids_unused db" and "distinct us"
  shows "(\<exists>e. create_room_for env DirectRoom None creator us False db = (Inl e, db)) \<or>
    create_room_for env DirectRoom None creator us False db =
      (Inr (created_room env creator us db), created_db env creator us db) \<and>
    \<not> key_taken db (next_room db) (direct_member_key_for env us)"
proof (cases "check_direct_members us db = Inr () \<and> require_contact creator us db = Inr () \<and>
    \<not> key_taken db (next_room db) (direct_member_key_for env us)")
  case False
  then show ?thesis
    by (cases "check_direct_members us db"; cases "require_contact creator us db")
      (auto simp: create_room_for_def insert_room_def insert_room_row_def validate_name_def into_result_def
        andthen_def reads_def split: prod.split sum.split)
next
  case True
  let ?r = "created_room env creator us db" and ?db1 = "created_db env creator us db"
  let ?db0 = "db\<lparr>rooms := rooms db @ [?r], next_room := next_room db + 1\<rparr>"
  have found: "find_room ?db0 (next_room db) = Some ?r" "find_room ?db1 (next_room db) = Some ?r"
    by (rule find_room_new [OF assms(1)]; simp add: rooms_created)+
  have "\<not> key_taken ?db1 (next_room db) (direct_member_key_for env us)"
    using True by (simp add: key_taken_def rooms_created)
  then have "refresh_direct_member_key env (next_room db) ?db1 = (Inr (), ?db1)"
    using refresh_keeps_key [OF found(2)] members_created [OF assms] by simp
  moreover have "insert_memberships env (next_room db) Everything us ?db0 = ?db1"
    by (simp add: insert_memberships_batch created_db_def)
  ultimately have granted: "grant_to env ?r us ?db0 = (Inr (), ?db1)"
    by (simp add: grant_to_def default_involvement_def andthen_def writes_def)
  have row: "insert_room_row DirectRoom None creator (Some (direct_member_key_for env us)) (tx_now env) db =
      (Inr (next_room db), ?db0)"
    using True by (simp add: insert_room_row_def created_room_def)
  show ?thesis
    using True granted found
    by (simp add: create_room_for_def insert_room_def row validate_name_def into_result_def
        andthen_def reads_def yields_def get_room_def)
qed

text \<open>C33.  Opening a conversation with some people returns a room that the next lookup for the same
  people, in whatever order, returns again; a room made for it is a new direct room whose members
  are exactly them, and a room that was there is returned without writing anything.\<close>

theorem direct_room_found_again:
  assumes "new_ids_unused db" and "distinct us" and "sort vs = sort us"
    and "find_or_create_direct_for env us creator db = (Inr r, db')"
  shows "find_direct_for env db' vs = Some r \<and>
    (db' = db \<or> r \<notin> set (rooms db) \<and> r_type r = DirectRoom \<and> alive r \<and> member_ids db' (r_id r) = us)"
proof -
  have key: "direct_member_key_for env vs = direct_member_key_for env us" by (rule direct_key_sort [OF assms(3)])
  have lookup: "find_direct_for env d vs = find_direct_for env d us" for d
  proof -
    have "find_unkeyed_direct_for d vs = find_unkeyed_direct_for d us"
      by (simp add: find_unkeyed_direct_for_def assms(3))
    then show ?thesis by (simp add: find_direct_for_def key cong: option.case_cong)
  qed
  show ?thesis
  proof (cases "find_direct_for env db us")
    case (Some x)
    then show ?thesis
      using assms(4) by (auto simp: find_or_create_direct_for_def op_ok lookup split: option.splits)
  next
    case None
    from create_direct [OF assms(1,2), of env creator] show ?thesis
    proof
      assume "\<exists>e. create_room_for env DirectRoom None creator us False db = (Inl e, db)"
      then show ?thesis
        using assms(4) None
        by (auto simp: find_or_create_direct_for_def op_ok split: model_error.splits)
    next
      assume c: "create_room_for env DirectRoom None creator us False db =
          (Inr (created_room env creator us db), created_db env creator us db) \<and>
        \<not> key_taken db (next_room db) (direct_member_key_for env us)"
      then have r: "r = created_room env creator us db" "db' = created_db env creator us db"
        using assms(4) None by (auto simp: find_or_create_direct_for_def op_ok)
      have "find (\<lambda>x. alive x \<and> r_type x = DirectRoom \<and>
          r_direct_member_key x = Some (direct_member_key_for env us)) (rooms db) = None"
        using None by (auto simp: find_direct_for_def split: option.splits)
      then have "find_direct_for env db' us = Some r"
        by (simp add: find_direct_for_def r rooms_created find_append)
      moreover have "r \<notin> set (rooms db)"
        using assms(1) by (auto simp: r new_ids_unused_def)
      ultimately show ?thesis
        using members_created [OF assms(1,2)] by (simp add: lookup r)
    qed
  qed
qed


lemma direct_room_found_again_witness:
  "\<exists>r db'. find_or_create_direct_for (quiet_env 5) [2, 1] 1 empty_room_db = (Inr r, db') \<and>
     find_direct_for (quiet_env 5) db' [1, 2] = Some r"
proof -
  let ?r = "created_room (quiet_env 5) 1 [2, 1] empty_room_db"
  let ?db = "created_db (quiet_env 5) 1 [2, 1] empty_room_db"
  have run: "find_or_create_direct_for (quiet_env 5) [2, 1] 1 empty_room_db = (Inr ?r, ?db)"
    by code_simp
  show ?thesis
    using run direct_room_found_again [OF _ _ _ run, of "[1, 2]"]
    by (auto simp: new_ids_unused_def empty_room_db_def)
qed

end
