(* ===== verification/Favorites.thy ===== *)
theory Favorites
  imports Memberships
begin

section \<open>Favourites and read pointers\<close>

text \<open>What \<^verbatim>\<open>move_favorite_to\<close>, \<^verbatim>\<open>read\<close> and \<^verbatim>\<open>mark_unread_before\<close> of \<^verbatim>\<open>membership.rs\<close> leave in the rows.\<close>

subsection \<open>Numbered favourites\<close>

interpretation favorites: numbering m_id
  "\<lambda>p x. x\<lparr>m_favorite_position := Some p, m_updated_at := now\<rparr>" m_favorite_position
  for now :: timestamp
  by unfold_locales simp_all

definition renumbered :: "timestamp \<Rightarrow> int list \<Rightarrow> membership \<Rightarrow> membership" where
  "renumbered now = numbered_row m_id (\<lambda>p x. x\<lparr>m_favorite_position := Some p, m_updated_at := now\<rparr>)"

lemma renumbered_simps [simp]:
  "m_id (renumbered now ids m) = m_id m" "m_user_id (renumbered now ids m) = m_user_id m"
  by (simp_all add: renumbered_def numbered_row_def split: option.split)

lemma renumber_rows: "distinct ids \<Longrightarrow> memberships (renumber now ids db) = map (renumbered now ids) (memberships db)"
  by (simp add: renumber_def renumbered_def favorites.numbered_rows)

lemma set_favorites: "set (favorites_for_user db u) = set (favorite_rows db u)"
  by (simp add: favorites_for_user_def)

lemma distinct_favorites:
  "distinct_members db \<Longrightarrow> distinct (map m_id (favorites_for_user db u))"
  by (auto simp: favorites_for_user_def favorite_rows_def distinct_members_def distinct_map
      intro: inj_on_subset)

lemma favorites_renumbered:
  assumes "distinct_members db" and ids: "distinct ids"
    and all: "set ids = m_id ` set (favorite_rows db u)"
  shows "map m_id (favorites_for_user (renumber now ids db) u) = ids"
    and "\<forall>m \<in> set (favorites_for_user (renumber now ids db) u).
      \<exists>j. position_of (m_id m) ids = Some j \<and> m_favorite_position m = Some (int j)"
proof -
  let ?db = "renumber now ids db"
  have inside: "m_id x \<in> set ids \<longleftrightarrow> m_user_id x = u \<and> favorited x" if "x \<in> set (memberships db)" for x
  proof
    assume "m_id x \<in> set ids"
    then obtain y where y: "y \<in> set (memberships db)" "m_id y = m_id x" "m_user_id y = u" "favorited y"
      unfolding all favorite_rows_def by auto
    with that have "y = x" using member_unique [OF assms(1)] by blast
    with y show "m_user_id x = u \<and> favorited x" by simp
  qed (use that in \<open>auto simp: all favorite_rows_def\<close>)
  have place: "\<exists>j. position_of (m_id m) ids = Some j \<and> m_favorite_position m = Some (int j)"
    if "m \<in> set (favorite_rows ?db u)" for m
  proof -
    from that obtain x where x: "x \<in> set (memberships db)" "m = renumbered now ids x"
        "m_user_id x = u" "favorited m"
      by (auto simp: favorite_rows_def renumber_rows [OF ids])
    have "m_id x \<in> set ids"
      using x inside [OF x(1)] favorites.outside_row [of x ids now]
      by (cases "m_id x \<in> set ids") (auto simp: renumbered_def)
    with favorites.inside_row [OF this, of now] x(2) show ?thesis by (simp add: renumbered_def favorites.ident_row)
  qed
  then show "\<forall>m \<in> set (favorites_for_user ?db u).
      \<exists>j. position_of (m_id m) ids = Some j \<and> m_favorite_position m = Some (int j)"
    by (simp add: set_favorites)
  have rows: "distinct_members ?db"
    using assms(1) by (simp add: distinct_members_def renumber_rows [OF ids] comp_def)
  have "m_id ` set (favorite_rows ?db u) = set ids"
  proof
    show "m_id ` set (favorite_rows ?db u) \<subseteq> set ids"
      using place by (auto dest: position_of_mem)
    show "set ids \<subseteq> m_id ` set (favorite_rows ?db u)"
    proof
      fix i assume i: "i \<in> set ids"
      then obtain x where x: "x \<in> set (memberships db)" "m_id x = i" "m_user_id x = u"
        unfolding all by (auto simp: favorite_rows_def)
      have "favorited (renumbered now ids x)"
        using favorites.inside_row [of x ids now] i x(2) by (auto simp: renumbered_def favorited_def)
      then have "renumbered now ids x \<in> set (favorite_rows ?db u)"
        using x by (auto simp: favorite_rows_def renumber_rows [OF ids])
      then show "i \<in> m_id ` set (favorite_rows ?db u)"
        by (rule image_eqI [rotated]) (simp add: x(2))
    qed
  qed
  then have set_eq: "set (map m_id (favorites_for_user ?db u)) = set ids" by (simp add: set_favorites)
  have sorted: "sorted (map (\<lambda>m. the (m_favorite_position m)) (favorites_for_user ?db u))"
    by (simp add: favorites_for_user_def)
  have "\<exists>j. position_of (m_id m) ids = Some j \<and> the (m_favorite_position m) = int j"
    if "m \<in> set (favorites_for_user ?db u)" for m
    using place [of m] that by (auto simp: set_favorites)
  from sorted_by_number [OF sorted distinct_favorites [OF rows] ids set_eq this]
  show "map m_id (favorites_for_user ?db u) = ids" .
qed

lemma shown_among_others:
  "set (shown_favorites db u i) \<subseteq> set (filter (\<lambda>j. j \<noteq> i) (map m_id (favorites_for_user db u)))"
  by (auto simp: shown_favorites_def)

lemma drop_index_spec:
  assumes "set shown \<subseteq> set ids"
  shows "drop_index shown ids p \<le> length ids \<and>
    (nat (max p 0) < length shown \<longrightarrow>
      drop_index shown ids p < length ids \<and> ids ! drop_index shown ids p = shown ! nat (max p 0)) \<and>
    (\<not> nat (max p 0) < length shown \<longrightarrow> drop_index shown ids p = length ids)"
proof (cases "nat (max p 0) < length shown")
  case True
  then have "shown ! nat (max p 0) \<in> set ids" using assms by (meson nth_mem subsetD)
  then obtain j where "position_of (shown ! nat (max p 0)) ids = Some j"
    using position_of_inside by fast
  with True position_of_Some [OF this] show ?thesis by (simp add: drop_index_def Let_def)
qed (simp add: drop_index_def Let_def)

lemma find_stored_row: "stored_membership db i = Some x \<Longrightarrow> x \<in> set (memberships db) \<and> m_id x = i"
  by (auto simp: stored_membership_def find_Some_iff)

lemma favorites_emitted [simp]: "favorites_for_user (emit_organized m ids db) u = favorites_for_user db u"
  by (simp add: favorites_for_user_def favorite_rows_def emit_organized_def emit_sidebar_def emit_effect_def)

text \<open>C36.  Dragging a favourite: the other favourites keep their order, hidden ones included, and the
  moved one lands just before the shown favourite that was at the place asked for, or after all of
  them when there is none; then every favourite is numbered by its place, from 0.\<close>

theorem moved_favorite_lands_in_place:
  assumes "distinct_members db" and "stored_membership db (m_id m0) = Some x" and "favorited x"
    and "move_favorite_to env p m0 db = (Inr m', db')"
  shows "\<exists>j. let others = filter (\<lambda>i. i \<noteq> m_id x) (map m_id (favorites_for_user db (m_user_id x)));
             shown = shown_favorites db (m_user_id x) (m_id x);
             now_rows = favorites_for_user db' (m_user_id x)
         in map m_id now_rows = insert_at j (m_id x) others \<and>
            map m_favorite_position now_rows = map (Some \<circ> int) [0..<length now_rows] \<and>
            (nat (max p 0) < length shown \<longrightarrow> j < length others \<and> others ! j = shown ! nat (max p 0)) \<and>
            (\<not> nat (max p 0) < length shown \<longrightarrow> j = length others)"
proof -
  let ?u = "m_user_id x" and ?i = "m_id x"
  let ?others = "filter (\<lambda>i. i \<noteq> ?i) (map m_id (favorites_for_user db ?u))"
  let ?j = "drop_index (shown_favorites db ?u ?i) ?others p"
  let ?ids = "insert_at ?j ?i ?others"
  note row = find_stored_row [OF assms(2)]
  have pr: "m_id (policy_row db x) = ?i" "m_user_id (policy_row db x) = ?u" "favorited (policy_row db x)"
    using assms(3) by (simp_all add: policy_row_def favorited_def)
  have "\<exists>m ids. db' = emit_organized m ids (renumber (tx_now env) ?ids db)"
    using assms(2,4) pr
    by (auto simp: move_favorite_to_def renumber_favorites_def reload_def get_membership_def op_ok Let_def)
  then have same: "favorites_for_user db' ?u = favorites_for_user (renumber (tx_now env) ?ids db) ?u"
    by auto
  have ids: "distinct ?ids" using distinct_favorites [OF assms(1)] by simp
  have mine: "?i \<in> m_id ` set (favorite_rows db ?u)" 
    by (rule imageI) (use row assms(3) in \<open>simp add: favorite_rows_def\<close>)
  have all: "set ?ids = m_id ` set (favorite_rows db ?u)" using mine by (auto simp: set_favorites)
  note numbers = favorites_renumbered [OF assms(1) ids all, of "tx_now env"]
  have "map m_favorite_position (favorites_for_user db' ?u) = map (Some \<circ> int) [0..<length (favorites_for_user db' ?u)]"
  proof (rule nth_equalityI)
    fix k assume "k < length (map m_favorite_position (favorites_for_user db' ?u))"
    then have k: "k < length (favorites_for_user db' ?u)" by simp
    have "m_id (favorites_for_user db' ?u ! k) = ?ids ! k" "length ?ids = length (favorites_for_user db' ?u)"
      using arg_cong [OF numbers(1), of "\<lambda>xs. xs ! k"] arg_cong [OF numbers(1), of length] k
      by (simp_all add: same)
    then have "position_of (m_id (favorites_for_user db' ?u ! k)) ?ids = Some k"
      using position_of_nth [OF ids] k by simp
    moreover obtain n where "position_of (m_id (favorites_for_user db' ?u ! k)) ?ids = Some n"
        "m_favorite_position (favorites_for_user db' ?u ! k) = Some (int n)"
      using numbers(2) nth_mem [OF k] unfolding same by blast
    ultimately show "map m_favorite_position (favorites_for_user db' ?u) ! k =
        map (Some \<circ> int) [0..<length (favorites_for_user db' ?u)] ! k"
      using k by simp
  qed simp
  then show ?thesis
    using numbers(1) drop_index_spec [OF shown_among_others, of db ?u ?i p]
    by (intro exI [of _ ?j]) (simp add: same Let_def)
qed


subsection \<open>The unread divider\<close>

definition after_message :: "message_row \<Rightarrow> message_row \<Rightarrow> bool" where
  "after_message h g \<longleftrightarrow> later_message (g_created_at h, g_id h) (g_created_at g, g_id g)"

lemma newest_None [simp]: "newest gs = None \<longleftrightarrow> gs = []"
  by (cases gs) (simp_all split: option.splits)

lemma newest_Some:
  "newest gs = Some x \<Longrightarrow> x \<in> set gs \<and> (\<forall>y \<in> set gs. \<not> after_message y x)"
proof (induction gs arbitrary: x)
  case (Cons g gs)
  show ?case
  proof (cases "newest gs")
    case None
    with Cons.prems show ?thesis by (auto simp: after_message_def later_message_def)
  next
    case (Some y)
    with Cons.prems Cons.IH [OF Some] show ?thesis
      by (auto simp: after_message_def later_message_def split: if_splits)
  qed
qed simp

definition distinct_messages :: "'o room_db \<Rightarrow> bool" where
  "distinct_messages db \<longleftrightarrow> distinct (map g_id (messages db))"

lemma find_unique: "distinct (map k gs) \<Longrightarrow> g \<in> set gs \<Longrightarrow> P g \<Longrightarrow> find (\<lambda>x. k x = k g \<and> P x) gs = Some g"
  by (induction gs) (auto simp: image_iff)

lemma find_message:
  "distinct_messages db \<Longrightarrow> g \<in> set (messages db) \<Longrightarrow> g_room_id g = rm \<Longrightarrow>
    find (\<lambda>x. g_id x = g_id g \<and> g_room_id x = rm) (messages db) = Some g"
  unfolding distinct_messages_def by (rule find_unique)

lemma previous_root_divides:
  assumes "distinct_messages db" and "h \<in> set (messages db)" and "g \<in> set (messages db)"
    and "root_message rm h" and "root_message rm g"
    and "m_room_id m = rm" and "m_last_read_message_id m = previous_root db rm g"
  shows "past_pointer db m (g_created_at g) h \<longleftrightarrow> h = g \<or> after_message h g"
proof -
  let ?before = "filter (\<lambda>x. root_message rm x \<and> after_message g x) (messages db)"
  have ids: "h = g" if "g_id h = g_id g"
    using that assms(1-3) unfolding distinct_messages_def distinct_map by (blast dest: inj_onD)
  have differ: "h = g \<or> g_id h \<noteq> g_id g" using ids by blast
  have prev: "previous_root db rm g = map_option g_id (newest ?before)"
    by (simp add: previous_root_def after_message_def)
  show ?thesis
  proof (cases "newest ?before")
    case None
    then have "\<not> after_message g h" using assms(2,4) by (auto simp: filter_empty_conv)
    with None differ show ?thesis
      by (auto simp: past_pointer_def assms(7) prev after_message_def later_message_def)
  next
    case (Some l)
    note l = newest_Some [OF Some]
    have found: "find (\<lambda>x. g_id x = g_id l \<and> g_room_id x = rm) (messages db) = Some l"
      using l by (intro find_message [OF assms(1)]) (auto simp: root_message_def)
    have pointer: "m_last_read_message_id m = Some (g_id l)"
      using Some by (simp add: assms(7) prev)
    have "past_pointer db m (g_created_at g) h \<longleftrightarrow> after_message h l"
      by (simp add: past_pointer_def pointer assms(6) found after_message_def)
    also have "\<dots> \<longleftrightarrow> \<not> after_message g h"
    proof
      assume "after_message h l"
      with l assms(2,4) show "\<not> after_message g h" by auto
    next
      assume "\<not> after_message g h"
      moreover have "after_message g l" using l by simp
      ultimately show "after_message h l"
        using differ by (auto simp: after_message_def later_message_def)
    qed
    also have "\<dots> \<longleftrightarrow> h = g \<or> after_message h g"
      using differ by (auto simp: after_message_def later_message_def)
    finally show ?thesis .
  qed
qed

lemma stored_after_update:
  "stored_membership db i = Some x \<Longrightarrow> (\<And>y. m_id (f y) = m_id y) \<Longrightarrow>
    stored_membership (update_membership i f db) i = Some (f x)"
proof -
  assume x: "stored_membership db i = Some x" and f: "\<And>y. m_id (f y) = m_id y"
  have "find (\<lambda>m. m_id m = i) ms = Some x \<Longrightarrow>
      find (\<lambda>m. m_id m = i) (update_where (\<lambda>m. m_id m = i) f ms) = Some (f x)" for ms
    by (induction ms) (auto simp: f split: if_splits)
  with x show ?thesis by (simp add: stored_membership_def update_memberships_def)
qed

text \<open>C37.  Marking a room unread from a message on: the stored row is unread since that message, and of
  the room's root messages exactly that one and those after it, in the order of time and id, are
  past its read pointer.\<close>

theorem unread_from_the_message_on:
  assumes "distinct_messages db" and "g \<in> set (messages db)"
    and "get_membership db (m_id m) = Inr m" and "mark_unread_before env g m db = (Inr m', db')"
  shows "\<exists>x. stored_membership db' (m_id m) = Some x \<and> m_unread_at x = Some (g_created_at g) \<and>
    (\<forall>h \<in> set (messages db'). root_message (m_room_id m) h \<longrightarrow>
      (past_pointer db' x (g_created_at g) h \<longleftrightarrow> h = g \<or> after_message h g))"
proof -
  obtain x where x: "stored_membership db (m_id m) = Some x" "m = policy_row db x"
    using assms(3) by (auto simp: get_membership_def split: option.splits)
  let ?f = "\<lambda>y. y\<lparr>m_unread_at := Some (g_created_at g), m_last_read_message_id := previous_root db (m_room_id m) g,
      m_updated_at := tx_now env\<rparr>"
  have g: "root_message (m_room_id m) g"
    using assms(4) by (auto simp: mark_unread_before_def root_message_def op_ok split: if_splits)
  have room: "m_room_id x = m_room_id m" by (simp add: x(2) policy_row_def)
  have "messages db' = messages db \<and> (\<exists>y. stored_membership db' (m_id m) = Some y \<and> m_room_id y = m_room_id m \<and>
      m_unread_at y = Some (g_created_at g) \<and> m_last_read_message_id y = previous_root db (m_room_id m) g)"
  proof (cases "m_unread_at m = Some (g_created_at g) \<and> m_last_read_message_id m = previous_root db (m_room_id m) g")
    case True
    then have "db' = db"
      using assms(4)
      by (auto simp: mark_unread_before_def validate_organization_def op_ok split: if_splits)
    moreover have "m_unread_at x = m_unread_at m" "m_last_read_message_id x = m_last_read_message_id m"
      using True unfolding x(2) by (simp_all add: policy_row_def split: if_splits)
    ultimately show ?thesis using True x(1) room by metis
  next
    case False
    then have "db' = update_membership (m_id m) ?f db"
      using assms(4)
      by (auto simp: mark_unread_before_def validate_organization_def reload_def op_ok split: if_splits)
    then show ?thesis
      using stored_after_update [OF x(1), of ?f] room by (simp add: update_memberships_def)
  qed
  then obtain y where same: "messages db' = messages db" and y: "stored_membership db' (m_id m) = Some y"
      "m_room_id y = m_room_id m" "m_unread_at y = Some (g_created_at g)"
      "m_last_read_message_id y = previous_root db (m_room_id m) g" by blast
  have "past_pointer db' y (g_created_at g) h \<longleftrightarrow> h = g \<or> after_message h g"
    if "h \<in> set (messages db')" "root_message (m_room_id m) h" for h
  proof -
    have "past_pointer db' y (g_created_at g) h = past_pointer db y (g_created_at g) h"
      unfolding past_pointer_def same ..
    with previous_root_divides [OF assms(1) _ assms(2) that(2) g y(2,4)] that(1) same
    show ?thesis by simp
  qed
  with y show ?thesis by blast
qed


definition demo_member :: "int \<Rightarrow> int \<Rightarrow> int option \<Rightarrow> membership" where
  "demo_member i rm p = (new_membership i rm 5 0)\<lparr>m_favorite_position := p\<rparr>"

definition demo_message :: "int \<Rightarrow> timestamp \<Rightarrow> message_row" where
  "demo_message i t =
     \<lparr>g_id = i, g_room_id = 1, g_thread_id = None, g_creator_id = 6, g_system_note = False, g_created_at = t\<rparr>"

definition demo_db :: "unit room_db" where
  "demo_db = empty_room_db
     \<lparr>rooms := [plain_room 1 ClosedRoom 5, plain_room 2 ClosedRoom 5, plain_room 3 ClosedRoom 5],
      memberships := [demo_member 1 1 (Some 4), demo_member 2 2 (Some 7), demo_member 3 3 (Some 9)],
      people := [plain_person 5],
      messages := [demo_message 1 10, demo_message 2 20, demo_message 3 20]\<rparr>"

lemma moved_favorite_lands_in_place_witness:
  "\<exists>m' db'. move_favorite_to (quiet_env 30) 0 (demo_member 3 3 (Some 9)) demo_db = (Inr m', db') \<and>
     map m_id (favorites_for_user db' 5) = [3, 1, 2]"
proof -
  let ?out = "move_favorite_to (quiet_env 30) 0 (demo_member 3 3 (Some 9)) demo_db"
  have "\<not> isl (fst ?out)" by code_simp
  then obtain m' db' where run: "?out = (Inr m', db')" by (metis prod.collapse sum.collapse(2))
  have "distinct_members demo_db" by code_simp
  moreover have "stored_membership demo_db (m_id (demo_member 3 3 (Some 9))) = Some (demo_member 3 3 (Some 9))" by code_simp
  moreover have "favorited (demo_member 3 3 (Some 9))" by code_simp
  moreover have "map m_id (favorites_for_user demo_db 5) = [1, 2, 3]" by code_simp
  moreover have "shown_favorites demo_db 5 3 = [1, 2]" by code_simp
  moreover have "m_id (demo_member 3 3 (Some 9)) = 3 \<and> m_user_id (demo_member 3 3 (Some 9)) = 5" by code_simp
  ultimately obtain j where "map m_id (favorites_for_user db' 5) = insert_at j 3 [1, 2]" "[1, 2] ! j = (1 :: int)" "j < 2"
    using moved_favorite_lands_in_place [OF _ _ _ run] by (auto simp: Let_def simp del: filter_map)
  moreover from this have "j = 0" by (cases j) auto
  ultimately show ?thesis using run by (auto simp: insert_at_def)
qed

lemma unread_from_the_message_on_witness:
  "\<exists>m' db' x. mark_unread_before (quiet_env 30) (demo_message 2 20) (demo_member 1 1 (Some 4)) demo_db = (Inr m', db') \<and>
     stored_membership db' 1 = Some x \<and> m_unread_at x = Some 20"
proof -
  let ?g = "demo_message 2 20" and ?m = "demo_member 1 1 (Some 4)"
  let ?out = "mark_unread_before (quiet_env 30) ?g ?m demo_db"
  have "\<not> isl (fst ?out)" by code_simp
  then obtain m' db' where run: "?out = (Inr m', db')" by (metis prod.collapse sum.collapse(2))
  have "distinct_messages demo_db" "?g \<in> set (messages demo_db)" "get_membership demo_db (m_id ?m) = Inr ?m"
    by code_simp+
  from unread_from_the_message_on [OF this run] run show ?thesis
    by (auto simp: demo_member_def new_membership_def demo_message_def)
qed

end
