(* ===== verification/RoomAccess.thy ===== *)
theory RoomAccess
  imports Rooms
begin

section \<open>Access to rooms, and who a message reaches\<close>

text \<open>
  What a deletion leaves of a room for its people, and the rows a message marks: the queries and
  operations of \<^verbatim>\<open>room.rs\<close> and \<^verbatim>\<open>room_delete.rs\<close> together.
\<close>

subsection \<open>A deleted room\<close>

lemma room_for_user_iff:
  "room_for_user db u i \<noteq> None \<longleftrightarrow>
    (\<exists>r \<in> set (rooms db). r_id r = i \<and> alive r) \<and> (\<exists>m \<in> set (memberships db). member_of i u m)"
  by (auto simp: room_for_user_def rooms_for_user_def alive_rooms_def find_None_iff member_of_def)

definition same_access :: "int \<Rightarrow> 'o room_db \<Rightarrow> 'o room_db \<Rightarrow> bool" where
  "same_access i db db' \<longleftrightarrow>
     memberships db' = memberships db \<and>
     map (\<lambda>r. (r_id r, alive r, r_direct_member_key r)) (rooms db') =
     map (\<lambda>r. (r_id r, alive r, r_direct_member_key r)) (rooms db)"

lemma same_access_outside [simp]: "same_access i db (db\<lparr>elsewhere := x\<rparr>)"
  by (simp add: same_access_def)

lemma same_access_layout:
  assumes "remove_room_from_layout i imp db = (Inr y, db')" and "distinct (map r_id (rooms db))"
  shows "same_access i db db'"
proof -
  have dist: "distinct (filter (\<lambda>j. j \<noteq> i) (group_rooms db c))" for c
    using assms(2) distinct_group_rooms [of db c] by (simp add: distinct_rooms_def)
  have same: "same_access i db (write_rooms c (filter (\<lambda>j. j \<noteq> i) (group_rooms db c')) db)" for c c'
    using placed_simps by (simp add: same_access_def rooms_write_rooms [OF dist] comp_def placed_def
        split: option.split) (simp add: write_rooms_def alive_def)
  have "same_access i db (emit_effect e d) = same_access i db d" for e d
    by (simp add: same_access_def emit_effect_def)
  with assms(1) same show ?thesis
    by (auto simp: remove_room_from_layout_def op_ok same_access_def split: option.splits if_splits)
qed


lemma update_room_ids: "(\<And>r. r_id (f r) = r_id r) \<Longrightarrow> map r_id (rooms (update_room i f db)) = map r_id (rooms db)"
  by (simp add: update_room_def map_update_where)

definition no_member :: "int \<Rightarrow> 'o room_db \<Rightarrow> bool" where
  "no_member i db \<longleftrightarrow> memberships_for_room db i = []"

lemma alive_row: "(\<exists>r \<in> set (rooms db). r_id r = i \<and> alive r) \<longleftrightarrow> (\<exists>k. (i, True, k) \<in> set (map (\<lambda>r. (r_id r, alive r, r_direct_member_key r)) (rooms db)))"
  by (force simp: image_iff)

lemma deleted_row:
  assumes "\<And>x. r_deleted_at (f x) = Some t \<and> r_id (f x) = r_id x"
  shows "(\<exists>r \<in> set (rooms (update_room i f db)). r_id r = j \<and> alive r) \<longleftrightarrow>
    j \<noteq> i \<and> (\<exists>r \<in> set (rooms db). r_id r = j \<and> alive r)"
  using assms by (auto simp: update_room_def set_update_where alive_def)

lemma same_access_alive:
  "same_access i db db' \<Longrightarrow>
    (\<exists>r \<in> set (rooms db'). r_id r = j \<and> alive r) \<longleftrightarrow> (\<exists>r \<in> set (rooms db). r_id r = j \<and> alive r)"
  unfolding alive_row same_access_def by simp

lemma alive_pairs: "(\<exists>r \<in> set rs. r_id r = j \<and> alive r) \<longleftrightarrow> (j, True) \<in> set (map (\<lambda>r. (r_id r, alive r)) rs)"
  by (auto simp: image_iff)

lemma enqueued_alive:
  "(\<exists>r \<in> set (rooms (update_room i (\<lambda>x. x\<lparr>r_destroy_enqueued_at := t\<rparr>) db)). r_id r = j \<and> alive r) \<longleftrightarrow>
    (\<exists>r \<in> set (rooms db). r_id r = j \<and> alive r)"
  unfolding alive_pairs update_room_def by (simp add: map_update_where alive_def)



subsection \<open>A received message\<close>

text \<open>What a message makes of one membership, decided on the rows before it.\<close>

definition marked_by :: "'o room_env \<Rightarrow> 'o room_db \<Rightarrow> int \<Rightarrow> message_row \<Rightarrow> membership \<Rightarrow> membership" where
  "marked_by env db rm g m =
     (if goes_unread db (tx_now env) rm g m \<or>
         muted_recipient db (tx_now env) rm g m \<and> visible_author db (m_user_id m) (g_creator_id g) \<and>
           m_user_id m \<in> set (mentionees env (g_id g))
      then mark_row (tx_now env) g m
      else if advances_pointer db (tx_now env) rm g m
      then m\<lparr>m_last_read_message_id := Some (g_id g), m_updated_at := tx_now env\<rparr>
      else m)"

lemma levels_kept [simp]:
  "level_is (db\<lparr>memberships := ms\<rparr>) m l = level_is db m l"
  "level_is_not (db\<lparr>memberships := ms\<rparr>) m l = level_is_not db m l"
  "unmuted_for (db\<lparr>memberships := ms\<rparr>) now m = unmuted_for db now m"
  "visible_author (db\<lparr>memberships := ms\<rparr>) u v = visible_author db u v"
  by (simp_all add: level_is_def level_is_not_def sql_level_def unmuted_for_def preferences_of_def
      find_person_def visible_author_def)

lemma predicates_kept [simp]:
  "goes_unread (db\<lparr>memberships := ms\<rparr>) = goes_unread db"
  "muted_recipient (db\<lparr>memberships := ms\<rparr>) = muted_recipient db"
  "advances_pointer (db\<lparr>memberships := ms\<rparr>) = advances_pointer db"
  by (intro ext, simp add: goes_unread_def muted_recipient_def advances_pointer_def)+

lemma marked [simp]:
  "m_user_id (mark_row now g m) = m_user_id m"
  "muted_recipient db t rm g (mark_row now g m) = muted_recipient db t rm g m"
  "\<not> advances_pointer db t rm g (mark_row now g m)"
  by (simp_all add: mark_row_def muted_recipient_def advances_pointer_def level_is_def level_is_not_def
      sql_level_def unmuted_for_def is_connected_def)

lemma unread_not_muted: "goes_unread db now rm g m \<Longrightarrow> \<not> muted_recipient db now rm g m"
  by (auto simp: goes_unread_def muted_recipient_def level_is_def level_is_not_def split: option.splits)

lemma update_memberships_map:
  "update_memberships P f db = db\<lparr>memberships := map (\<lambda>m. if P m then f m else m) (memberships db)\<rparr>"
  by (simp add: update_memberships_def update_where_def)


end
