(* ===== verification/RoomInvariant.thy ===== *)
theory RoomInvariant
  imports Rooms
begin

section \<open>The tables stay well formed\<close>

text \<open>
  Ids are given once, a person has at most one membership of a room, and alive rooms share no
  direct member key: what the unique indexes of \<^verbatim>\<open>schema.sql\<close> demand, kept by every operation of the
  model, also by one that fails half way.
\<close>

definition unique_keys :: "room list \<Rightarrow> bool" where
  "unique_keys rs \<longleftrightarrow>
     (\<forall>a \<in> set rs. \<forall>b \<in> set rs. alive a \<and> alive b \<and> r_direct_member_key a \<noteq> None \<and>
       r_direct_member_key a = r_direct_member_key b \<longrightarrow> r_id a = r_id b)"

definition well_formed :: "'o room_db \<Rightarrow> bool" where
  "well_formed db \<longleftrightarrow>
     distinct (map r_id (rooms db)) \<and> (\<forall>r \<in> set (rooms db). r_id r < next_room db) \<and>
     unique_keys (rooms db) \<and>
     distinct (map m_id (memberships db)) \<and> (\<forall>m \<in> set (memberships db). m_id m < next_membership db) \<and>
     distinct (map (\<lambda>m. (m_room_id m, m_user_id m)) (memberships db))"

named_theorems wf_rules \<open>operations that keep the tables well formed\<close>

lemmas [wf_rules] = keeps_rules keeps_writes

subsection \<open>Statements\<close>

lemma wf_same:
  "rooms db' = rooms db \<Longrightarrow> next_room db' = next_room db \<Longrightarrow> memberships db' = memberships db \<Longrightarrow>
    next_membership db' = next_membership db \<Longrightarrow> well_formed db \<Longrightarrow> well_formed db'"
  by (simp add: well_formed_def)

lemma wf_update_memberships:
  "(\<And>m. m_id (f m) = m_id m \<and> m_room_id (f m) = m_room_id m \<and> m_user_id (f m) = m_user_id m) \<Longrightarrow>
    well_formed (update_memberships P f db) = well_formed db"
  by (simp add: well_formed_def update_memberships_def map_update_where set_update_where ball_Un conj_disj_distribR)
    (auto simp: set_update_where)

lemma wf_outside [wf_rules]: "keeps well_formed (outside f)"
  by (rule keeps_outside) (simp add: well_formed_def)


lemma keeps_wf_update_memberships [wf_rules]:
  "(\<And>m. m_id (f m) = m_id m \<and> m_room_id (f m) = m_room_id m \<and> m_user_id (f m) = m_user_id m) \<Longrightarrow>
    keeps well_formed (writes (update_memberships P f))"
  by (rule keeps_writes) (simp add: wf_update_memberships)

lemma keeps_wf_same [wf_rules]:
  "(\<And>db. rooms (f db) = rooms db) \<Longrightarrow> (\<And>db. next_room (f db) = next_room db) \<Longrightarrow>
    (\<And>db. memberships (f db) = memberships db) \<Longrightarrow> (\<And>db. next_membership (f db) = next_membership db) \<Longrightarrow>
    keeps well_formed (writes f)"
  by (rule keeps_writes) (blast intro: wf_same)

lemma wf_delete_memberships:
  "well_formed db \<Longrightarrow> well_formed (db\<lparr>memberships := delete_where P (memberships db)\<rparr>)"
  by (auto simp: well_formed_def delete_where_def distinct_map_filter)

lemma wf_insert:
  assumes "well_formed db" and "u \<notin> m_user_id ` {m \<in> set (memberships db). m_room_id m = rm}"
    and "m_id x = next_membership db" and "m_room_id x = rm" and "m_user_id x = u"
  shows "well_formed (db\<lparr>memberships := memberships db @ [x], next_membership := next_membership db + 1\<rparr>)"
  using assms by (force simp: well_formed_def)

lemma not_member: "\<not> list_ex (member_of rm u) (memberships db) \<Longrightarrow> u \<notin> m_user_id ` {m \<in> set (memberships db). m_room_id m = rm}"
  by (auto simp: list_ex_iff member_of_def)

lemma wf_insert_membership [wf_rules]:
  "(\<And>m. m_id (f m) = m_id m \<and> m_room_id (f m) = m_room_id m \<and> m_user_id (f m) = m_user_id m) \<Longrightarrow>
    keeps well_formed (insert_membership f rm u now)"
  by (auto simp: keeps_def insert_membership_def new_membership_def intro!: wf_insert dest!: not_member)

lemma wf_insert_if_absent: "well_formed db \<Longrightarrow> well_formed (insert_if_absent level rm now u db)"
  by (auto simp: insert_if_absent_def new_membership_def intro!: wf_insert dest!: not_member)

lemma wf_insert_memberships [wf_rules]: "keeps well_formed (writes (insert_memberships env rm level us))"
proof -
  have one: "well_formed db \<Longrightarrow> well_formed (insert_batch level rm now us db)" for now us and db :: "'a room_db"
    by (induction us arbitrary: db) (simp_all add: insert_batch_def wf_insert_if_absent)
  have "well_formed db \<Longrightarrow> well_formed (foldl (\<lambda>d b. insert_batch level rm now b d) db bs)"
    for now bs and db :: "'a room_db"
    by (induction bs arbitrary: db) (simp_all add: one)
  then show ?thesis by (intro keeps_writes) (simp add: insert_memberships_def)
qed

text \<open>Updates of rooms that keep their key, or clear it.\<close>

lemma wf_rooms:
  assumes "well_formed db" and "map r_id rs = map r_id (rooms db)" and "unique_keys rs"
  shows "well_formed (db\<lparr>rooms := rs\<rparr>)"
proof -
  have ids: "r_id ` set rs = r_id ` set (rooms db)" by (metis assms(2) set_map)
  have "\<forall>i \<in> r_id ` set rs. i < next_room db" unfolding ids using assms(1) by (auto simp: well_formed_def)
  with assms show ?thesis by (auto simp: well_formed_def)
qed

definition keyed_rows :: "room list \<Rightarrow> (int \<times> string) set" where
  "keyed_rows rs = {(r_id r, k) | r k. r \<in> set rs \<and> alive r \<and> r_direct_member_key r = Some k}"

lemma unique_keys_iff: "unique_keys rs \<longleftrightarrow> (\<forall>(i, k) \<in> keyed_rows rs. \<forall>(j, l) \<in> keyed_rows rs. k = l \<longrightarrow> i = j)"
  by (fastforce simp: unique_keys_def keyed_rows_def)

lemma unique_keys_mono: "keyed_rows rs' \<subseteq> keyed_rows rs \<Longrightarrow> unique_keys rs \<Longrightarrow> unique_keys rs'"
  unfolding unique_keys_iff by blast

lemma keyed_rows_map:
  "(\<And>r. r_id (f r) = r_id r) \<Longrightarrow> (\<And>r. alive (f r) \<Longrightarrow> alive r) \<Longrightarrow>
    (\<And>r k. alive (f r) \<Longrightarrow> r_direct_member_key (f r) = Some k \<Longrightarrow> r_direct_member_key r = Some k) \<Longrightarrow>
    keyed_rows (map f rs) \<subseteq> keyed_rows rs"
  by (fastforce simp: keyed_rows_def)

text \<open>Rows changed one by one: ids stay, rooms do not come back, keys do not appear.\<close>

definition tame :: "(room \<Rightarrow> room) \<Rightarrow> bool" where
  "tame f \<longleftrightarrow> (\<forall>r. r_id (f r) = r_id r \<and> (alive (f r) \<longrightarrow> alive r \<and>
     (\<forall>k. r_direct_member_key (f r) = Some k \<longrightarrow> r_direct_member_key r = Some k)))"

lemma wf_map_rooms: "tame f \<Longrightarrow> well_formed db \<Longrightarrow> well_formed (db\<lparr>rooms := map f (rooms db)\<rparr>)"
  using keyed_rows_map [of f "rooms db"]
  by (intro wf_rooms) (auto simp: tame_def well_formed_def intro: unique_keys_mono)

lemma tame_if: "tame f \<Longrightarrow> tame (\<lambda>r. if P r then f r else r)"
  by (auto simp: tame_def)

lemma wf_update_rooms: "tame f \<Longrightarrow> well_formed db \<Longrightarrow> well_formed (db\<lparr>rooms := update_where P f (rooms db)\<rparr>)"
  unfolding update_where_def by (intro wf_map_rooms tame_if)

lemma wf_update_room [wf_rules]: "tame f \<Longrightarrow> keeps well_formed (writes (update_room i f))"
  by (intro keeps_writes) (simp add: update_room_def wf_update_rooms)

lemma wf_write_rooms: "well_formed db \<Longrightarrow> well_formed (write_rooms c ids db)"
proof -
  have "well_formed (db\<lparr>rooms := numbered r_id (\<lambda>p r. r\<lparr>r_workspace_category_id := c, r_workspace_position := Some p\<rparr>) p ids rs\<rparr>)"
    if "well_formed (db\<lparr>rooms := rs\<rparr>)" for p rs
    using that
  proof (induction ids arbitrary: p rs)
    case (Cons i js)
    have "well_formed ((db\<lparr>rooms := rs\<rparr>)\<lparr>rooms := update_where (\<lambda>r. r_id r = i)
        (\<lambda>r. r\<lparr>r_workspace_category_id := c, r_workspace_position := Some p\<rparr>) (rooms (db\<lparr>rooms := rs\<rparr>))\<rparr>)"
      using Cons.prems by (intro wf_update_rooms) (simp_all add: tame_def alive_def)
    then show ?case using Cons.IH by simp
  qed simp
  then show "well_formed db \<Longrightarrow> ?thesis" by (simp add: write_rooms_def)
qed


subsection \<open>Operations\<close>

lemma wf_emit [wf_rules]: "keeps well_formed (writes (emit_effect e))"
  and wf_prepare [wf_rules]: "keeps well_formed (writes (prepare_hook h))"
  and wf_register [wf_rules]: "keeps well_formed (writes (register_hook h))"
  and wf_sidebar [wf_rules]: "keeps well_formed (writes (emit_sidebar u ms cs removed))"
  and wf_organized [wf_rules]: "keeps well_formed (writes (emit_organized m ids))"
  by (rule keeps_wf_same;
      simp add: emit_effect_def prepare_hook_def register_hook_def emit_sidebar_def emit_organized_def)+

lemma wf_effect: "well_formed (emit_effect e db) = well_formed db"
  by (simp add: emit_effect_def well_formed_def)

lemma wf_people [wf_rules]: "keeps well_formed (writes (update_people P f))"
  and wf_revision [wf_rules]: "keeps well_formed (writes (bump_revision u))"
  by (rule keeps_wf_same; simp add: update_people_def bump_revision_def)+

lemma wf_skip [wf_rules]: "keeps well_formed (writes id)"
  by (rule keeps_wf_same) simp_all

lemma keeps_let [wf_rules]: "(\<And>x. keeps P (f x)) \<Longrightarrow> keeps P (Let y f)"
  by simp

lemma keeps_writes_if [wf_rules]:
  "keeps P (writes f) \<Longrightarrow> keeps P (writes g) \<Longrightarrow> keeps P (writes (if b then f else g))"
  by simp

lemma wf_renumber [wf_rules]: "keeps well_formed (writes (renumber now ids))"
proof -
  have "well_formed (db\<lparr>memberships := numbered m_id (\<lambda>p x. x\<lparr>m_favorite_position := Some p, m_updated_at := now\<rparr>) p ids ms\<rparr>)"
    if "well_formed (db\<lparr>memberships := ms\<rparr>)" for p ms and db :: "'a room_db"
    using that
  proof (induction ids arbitrary: p ms)
    case (Cons i js)
    have "well_formed (update_membership i (\<lambda>x. x\<lparr>m_favorite_position := Some p, m_updated_at := now\<rparr>) (db\<lparr>memberships := ms\<rparr>))"
      using Cons.prems by (simp add: wf_update_memberships)
    then show ?case using Cons.IH by (simp add: update_memberships_def)
  qed simp
  then show ?thesis by (intro keeps_writes) (simp add: renumber_def)
qed

lemma wf_touch_room [wf_rules]: "keeps well_formed (writes (touch_room now rm))"
  by (intro keeps_writes) (simp add: touch_room_def wf_update_rooms tame_def alive_def)

lemmas read_ops = reload_def validate_organization_def validate_call_attributes_def

lemma wf_create_default [wf_rules]: "keeps well_formed (create_default env rm u)"
  unfolding create_default_def by (intro wf_rules) simp_all

lemma wf_join_open [wf_rules]: "keeps well_formed (join_open env rm u)"
  unfolding join_open_def by (intro wf_rules) simp_all

lemma wf_update_category [wf_rules]: "keeps well_formed (update_category env c m)"
  unfolding update_category_def read_ops by (intro wf_rules) simp_all

lemma wf_set_favorite [wf_rules]: "keeps well_formed (set_favorite_position env p m)"
  unfolding set_favorite_position_def read_ops by (intro wf_rules) simp_all

lemma wf_favorite [wf_rules]: "keeps well_formed (favorite env m)"
  unfolding favorite_def read_ops by (intro wf_rules)

lemma wf_unfavorite [wf_rules]: "keeps well_formed (unfavorite env m)"
  unfolding unfavorite_def read_ops by (intro wf_rules)

lemma wf_move_favorite [wf_rules]: "keeps well_formed (move_favorite_to env p m)"
  unfolding move_favorite_to_def renumber_favorites_def read_ops by (intro wf_rules)

lemma wf_update_involvement [wf_rules]: "keeps well_formed (update_involvement env l m)"
  unfolding update_involvement_def by (intro wf_rules) simp_all

lemma wf_read_room [wf_rules]: "keeps well_formed (read_room env m)"
  unfolding read_room_def read_ops by (intro wf_rules) simp_all

lemma wf_mark_unread [wf_rules]: "keeps well_formed (mark_unread_before env g m)"
  unfolding mark_unread_before_def read_ops by (intro wf_rules) simp_all

lemma wf_raise_hand [wf_rules]: "keeps well_formed (raise_hand env m)"
  unfolding raise_hand_def read_ops by (intro wf_rules) simp_all

lemma wf_lower_hand [wf_rules]: "keeps well_formed (lower_hand env m)"
  unfolding lower_hand_def read_ops by (intro wf_rules) simp_all

lemma wf_change_stage_role [wf_rules]: "keeps well_formed (change_stage_role env role m)"
  unfolding change_stage_role_def read_ops by (intro wf_rules) simp_all

lemma wf_set_server_muted [wf_rules]: "keeps well_formed (set_server_muted env b m)"
  unfolding set_server_muted_def read_ops by (intro wf_rules) simp_all


lemma keeps_list [wf_rules]:
  "keeps P m \<Longrightarrow> (\<And>x xs. keeps P (f x xs)) \<Longrightarrow> keeps P (case ys of [] \<Rightarrow> m | x # xs \<Rightarrow> f x xs)"
  by (cases ys) simp_all

lemma wf_create_note [wf_rules]: "keeps well_formed (create_note env rm u body)"
  unfolding create_note_def by (intro wf_rules) simp_all

lemma wf_successor [wf_rules]: "keeps well_formed (successor first is)"
  by (induction "is") (auto intro!: keeps_rules)

lemma wf_host_departed [wf_rules]: "keeps well_formed (host_departed env rm u)"
  unfolding host_departed_def by (intro wf_rules)

lemma wf_delete_rows [wf_rules]:
  "keeps well_formed (writes (\<lambda>db. db\<lparr>memberships := delete_where P (memberships db)\<rparr>))"
  by (intro keeps_writes wf_delete_memberships)

lemma wf_destroy_membership [wf_rules]: "keeps well_formed (destroy_membership env m)"
  unfolding destroy_membership_def by (intro wf_rules)

lemma wf_disconnect_all [wf_rules]: "keeps well_formed (disconnect_all env)"
  unfolding disconnect_all_def by (intro wf_rules) simp_all

lemma wf_connect [wf_rules]: "keeps well_formed (connect_membership env m n)"
  unfolding connect_membership_def by (intro wf_rules) simp_all

lemma wf_present [wf_rules]: "keeps well_formed (present env m)"
  unfolding present_def by (intro wf_rules)

lemma wf_counters [wf_rules]:
  "keeps well_formed (increment_connections env m)" "keeps well_formed (decrement_connections env m)"
  unfolding increment_connections_def decrement_connections_def update_counter_def update_connections_def
  by (intro wf_rules; simp)+

lemma wf_touch_connected [wf_rules]: "keeps well_formed (touch_connected_at env m)"
  unfolding touch_connected_at_def by (intro wf_rules) simp_all

lemma wf_connections [wf_rules]:
  "keeps well_formed (connected env m)" "keeps well_formed (refresh_connection env m)"
  "keeps well_formed (disconnected env m)"
  unfolding connected_def refresh_connection_def disconnected_def by (intro wf_rules; simp)+

lemma wf_change_category [wf_rules]: "keeps well_formed (writes (change_category i f))"
  by (rule keeps_wf_same) (simp_all add: change_category_def)

lemma wf_renumber_categories [wf_rules]: "keeps well_formed (writes (renumber_categories now cs p ids))"
proof -
  have "rooms (renumber_categories now cs p ids db) = rooms db \<and>
      next_room (renumber_categories now cs p ids db) = next_room db \<and>
      memberships (renumber_categories now cs p ids db) = memberships db \<and>
      next_membership (renumber_categories now cs p ids db) = next_membership db" for db :: "'a room_db"
    by (induction ids arbitrary: p db) (simp_all add: change_category_def)
  then show ?thesis by (intro keeps_wf_same) simp_all
qed

lemma wf_create_category [wf_rules]: "keeps well_formed (create_category env u name p b)"
  unfolding create_category_def validate_category_def by (intro wf_rules) simp_all

lemma wf_update_room_category [wf_rules]: "keeps well_formed (update_room_category env name p b c)"
  unfolding update_room_category_def validate_category_def by (intro wf_rules)

lemma wf_reorder_categories [wf_rules]: "keeps well_formed (reorder_categories env u ids)"
  unfolding reorder_categories_def by (intro wf_rules)

lemma wf_delete_category_rows [wf_rules]: "keeps well_formed (writes (delete_category_rows i))"
  by (intro keeps_writes) (auto simp: delete_category_rows_def Let_def wf_update_memberships
      intro: wf_same [where db = "update_memberships P f db" for P f db])

lemma wf_destroy_category [wf_rules]: "keeps well_formed (destroy_category c)"
  unfolding destroy_category_def by (intro wf_rules)

lemma wf_change_workspace [wf_rules]: "keeps well_formed (writes (change_workspace_category i f))"
  by (rule keeps_wf_same) (simp_all add: change_workspace_category_def)

lemma wf_renumber_workspace [wf_rules]: "keeps well_formed (writes (renumber_workspace now cs p ids))"
proof -
  have "rooms (renumber_workspace now cs p ids db) = rooms db \<and>
      next_room (renumber_workspace now cs p ids db) = next_room db \<and>
      memberships (renumber_workspace now cs p ids db) = memberships db \<and>
      next_membership (renumber_workspace now cs p ids db) = next_membership db" for db :: "'a room_db"
    by (induction ids arbitrary: p db) (simp_all add: change_workspace_category_def)
  then show ?thesis by (intro keeps_wf_same) simp_all
qed

lemma wf_write_layout [wf_rules]: "keeps well_formed (writes (write_rooms c ids))"
  "keeps well_formed (writes (\<lambda>db. write_rooms c (g db) db))"
  by (intro keeps_writes wf_write_rooms; assumption)+

lemma wf_delete_workspace [wf_rules]: "keeps well_formed (writes (delete_workspace_category i))"
proof (rule keeps_writes)
  fix db :: "'a room_db" assume "well_formed db"
  then have "well_formed (db\<lparr>rooms := update_where (\<lambda>r. r_workspace_category_id r = Some i)
      (\<lambda>r. r\<lparr>r_workspace_category_id := None\<rparr>) (rooms db)\<rparr>)"
    by (intro wf_update_rooms) (simp_all add: tame_def alive_def)
  then show "well_formed (delete_workspace_category i db)"
    by (simp add: delete_workspace_category_def well_formed_def)
qed

lemma wf_workspace [wf_rules]:
  "keeps well_formed (create_workspace_category env name)"
  "keeps well_formed (rename_workspace_category env name w)"
  "keeps well_formed (reorder_workspace env ids)"
  unfolding create_workspace_category_def rename_workspace_category_def reorder_workspace_def
  by (intro wf_rules; simp)+

lemma wf_destroy_workspace [wf_rules]: "keeps well_formed (destroy_workspace_category env w)"
  unfolding destroy_workspace_category_def by (intro wf_rules)

lemma wf_place_room [wf_rules]: "keeps well_formed (place_room i c index)"
  unfolding place_room_def by (intro wf_rules)

lemma wf_remove_from_layout [wf_rules]: "keeps well_formed (remove_room_from_layout i b)"
  unfolding remove_room_from_layout_def by (intro wf_rules)


subsection \<open>Keys of direct rooms\<close>

lemma not_taken: "\<not> key_taken db i k \<Longrightarrow> (j, k) \<in> keyed_rows (rooms db) \<Longrightarrow> j = i"
  by (auto simp: key_taken_def list_ex_iff keyed_rows_def)

lemma unique_keys_insert:
  "keyed_rows rs' \<subseteq> insert (i, k) (keyed_rows rs) \<Longrightarrow> (\<And>j. (j, k) \<in> keyed_rows rs \<Longrightarrow> j = i) \<Longrightarrow>
    unique_keys rs \<Longrightarrow> unique_keys rs'"
  unfolding unique_keys_iff by blast

lemma wf_insert_room_row [wf_rules]: "keeps well_formed (insert_room_row t name creator key now)"
  unfolding keeps_def
proof (intro allI impI)
  fix db :: "'a room_db" assume wf: "well_formed db"
  let ?r = "new_room (next_room db) t name creator key now"
  have rows: "keyed_rows (rooms db @ [?r]) \<subseteq> keyed_rows (rooms db) \<union> (case key of Some k \<Rightarrow> {(next_room db, k)} | None \<Rightarrow> {})"
    by (auto simp: keyed_rows_def new_room_def alive_def split: option.splits)
  have "unique_keys (rooms db @ [?r])"
    if "\<not> (case key of Some k \<Rightarrow> key_taken db (next_room db) k | None \<Rightarrow> False)"
  proof (cases key)
    case None
    with rows show ?thesis using wf unfolding well_formed_def by (auto intro: unique_keys_mono)
  next
    case (Some k)
    with rows have "keyed_rows (rooms db @ [?r]) \<subseteq> insert (next_room db, k) (keyed_rows (rooms db))"
      by simp
    moreover have "(j, k) \<in> keyed_rows (rooms db) \<Longrightarrow> j = next_room db" for j
      using that Some not_taken by fastforce
    ultimately show ?thesis
      using wf unfolding well_formed_def by (blast intro: unique_keys_insert)
  qed
  then show "well_formed (snd (insert_room_row t name creator key now db))"
    using wf unfolding insert_room_row_def by (auto simp: well_formed_def new_room_def)
qed

lemma wf_set_key [wf_rules]: "keeps well_formed (set_direct_member_key i key)"
  unfolding keeps_def
proof (intro allI impI)
  fix db :: "'a room_db" assume wf: "well_formed db"
  let ?f = "\<lambda>r. r\<lparr>r_direct_member_key := Some key\<rparr>"
  let ?rs = "update_where (\<lambda>r. r_id r = i) ?f (rooms db)"
  have "unique_keys ?rs"
    if free: "\<not> (list_ex (\<lambda>r. r_id r = i \<and> alive r) (rooms db) \<and> key_taken db i key)"
  proof (cases "list_ex (\<lambda>r. r_id r = i \<and> alive r) (rooms db)")
    case False
    then have "keyed_rows ?rs \<subseteq> keyed_rows (rooms db)"
      by (auto simp: keyed_rows_def set_update_where alive_def list_ex_iff)
    then show ?thesis using wf by (auto simp: well_formed_def intro: unique_keys_mono)
  next
    case True
    have "keyed_rows ?rs \<subseteq> insert (i, key) (keyed_rows (rooms db))"
      by (auto simp: keyed_rows_def set_update_where alive_def)
    then show ?thesis
      using wf free True not_taken [of db i key] by (auto simp: well_formed_def intro: unique_keys_insert)
  qed
  moreover have "map r_id ?rs = map r_id (rooms db)" by (rule map_update_where) simp
  ultimately show "well_formed (snd (set_direct_member_key i key db))"
    using wf wf_rooms [of db ?rs] by (auto simp: set_direct_member_key_def update_room_def)
qed

lemma wf_retry_key [wf_rules]:
  "keeps well_formed (\<lambda>db. case set_direct_member_key i c db of
      (Inl RecordNotUnique, db') \<Rightarrow> set_direct_member_key i d db' | other \<Rightarrow> other)"
proof -
  have "well_formed (snd (set_direct_member_key i k db))" if "well_formed db" for i k and db :: "'a room_db"
    using wf_set_key that by (auto simp: keeps_def)
  then show ?thesis
    unfolding keeps_def by (auto split: prod.splits sum.splits model_error.splits) (metis snd_conv)+
qed

lemma wf_refresh_key [wf_rules]: "keeps well_formed (refresh_direct_member_key env i)"
  unfolding refresh_direct_member_key_def by (intro wf_rules)

lemma wf_grant_to [wf_rules]: "keeps well_formed (grant_to env r us)"
  unfolding grant_to_def by (intro wf_rules)

lemma wf_grant_active [wf_rules]: "keeps well_formed (grant_to_active_users env i)"
  unfolding grant_to_active_users_def by (intro wf_rules)

lemma wf_revoke [wf_rules]: "keeps well_formed (revoke_from env r us)"
  unfolding revoke_from_def by (intro wf_rules)

lemma wf_revise [wf_rules]: "keeps well_formed (revise env r gs rs)"
  unfolding revise_def by (intro wf_rules)

lemma wf_insert_room [wf_rules]: "keeps well_formed (insert_room env t name creator key b)"
  unfolding insert_room_def by (intro wf_rules)

lemma wf_make_host [wf_rules]: "keeps well_formed (make_creator_the_host env r)"
  unfolding make_creator_the_host_def by (intro wf_rules) simp_all

lemma wf_create_room [wf_rules]: "keeps well_formed (create_room_for env t name creator us b)"
  unfolding create_room_for_def by (intro wf_rules)

lemma wf_recover_create:
  assumes "keeps well_formed m"
  shows "keeps well_formed (\<lambda>db. case m db of
      (Inl RecordNotUnique, db') \<Rightarrow> (case f db' of Some r \<Rightarrow> (Inr r, db') | None \<Rightarrow> (Inl RecordNotUnique, db'))
    | other \<Rightarrow> other)"
proof -
  have "well_formed (snd (m db))" if "well_formed db" for db
    using assms that by (auto simp: keeps_def)
  then show ?thesis
    unfolding keeps_def by (auto split: prod.splits sum.splits model_error.splits option.splits) (metis snd_conv)+
qed

lemma wf_find_or_create [wf_rules]: "keeps well_formed (find_or_create_direct_for env us creator)"
  unfolding find_or_create_direct_for_def by (intro wf_rules wf_recover_create)

subsection \<open>Direct groups, deletion, updates, messages\<close>

lemma wf_direct_note [wf_rules]: "keeps well_formed (direct_note env i t a)"
  unfolding direct_note_def by (intro wf_rules)

lemma wf_directory [wf_rules]: "keeps well_formed (direct_directory_updates i)"
  unfolding direct_directory_updates_def by (intro wf_rules)

lemma wf_add_direct [wf_rules]: "keeps well_formed (add_direct_members env r us a)"
  unfolding add_direct_members_def by (intro wf_rules)

lemma wf_begin_destroy [wf_rules]: "keeps well_formed (begin_destroy env r)"
  unfolding begin_destroy_def by (intro wf_rules) (simp_all add: tame_def alive_def)

lemma wf_claim_stuck [wf_rules]: "keeps well_formed (claim_stuck env cutoff ids n)"
  by (induction ids arbitrary: n)
    (auto intro!: wf_rules keeps_writes wf_update_rooms simp: tame_def alive_def wf_effect)

lemma wf_reenqueue [wf_rules]: "keeps well_formed (reenqueue_stuck env grace)"
  unfolding reenqueue_stuck_def by (intro wf_rules)

lemma wf_leave_direct [wf_rules]: "keeps well_formed (leave_direct env r u)"
  unfolding leave_direct_def by (intro wf_rules)

lemma wf_update_name [wf_rules]: "keeps well_formed (update_name_and_type env name t r)"
  unfolding update_name_and_type_def by (intro wf_rules) (simp_all add: tame_def alive_def)

lemma wf_rename_direct [wf_rules]: "keeps well_formed (rename_direct env r name a)"
  unfolding rename_direct_def by (intro wf_rules)

lemma wf_room_fields [wf_rules]:
  "keeps well_formed (update_topic env topic r)"
  "keeps well_formed (update_voice_user_limit env limit r)"
  "keeps well_formed (update_voice_bitrate env bitrate r)"
  unfolding update_topic_def update_voice_user_limit_def update_voice_bitrate_def
  by (intro wf_rules; simp add: tame_def alive_def)+

lemma wf_receive [wf_rules]: "keeps well_formed (receive env rm g)"
  unfolding receive_def unread_memberships_def
  by (intro wf_rules) (simp_all add: wf_update_memberships mark_row_def)

lemma wf_push_later [wf_rules]: "keeps well_formed (writes (push_later rm g))"
  unfolding push_later_def by (intro wf_rules)

lemma wf_membership_destroyed [wf_rules]: "keeps well_formed (membership_destroyed env u rm)"
  unfolding membership_destroyed_def by (intro wf_rules)

lemma wf_run_hook [wf_rules]: "keeps well_formed (run_hook env h)"
  by (cases h) (auto intro!: wf_rules)


subsection \<open>Runs\<close>

text \<open>
  One operation of the models, with any arguments and in any environment, whatever it returns:
  also the state an operation that failed leaves to a caller that goes on.
\<close>

inductive room_step :: "'o room_db \<Rightarrow> 'o room_db \<Rightarrow> bool" where
  "room_step db (snd (create_room_for env t name creator us b db))"
| "room_step db (snd (find_or_create_direct_for env us creator db))"
| "room_step db (snd (create_default env rm u db))"
| "room_step db (snd (join_open env rm u db))"
| "room_step db (snd (revise env r gs rs db))"
| "room_step db (snd (destroy_membership env m db))"
| "room_step db (snd (add_direct_members env r us a db))"
| "room_step db (snd (leave_direct env r u db))"
| "room_step db (snd (begin_destroy env r db))"
| "room_step db (snd (reenqueue_stuck env grace db))"
| "room_step db (snd (update_name_and_type env name' t' r db))"
| "room_step db (snd (rename_direct env r name'' a db))"
| "room_step db (snd (update_topic env topic r db))"
| "room_step db (snd (update_voice_user_limit env limit r db))"
| "room_step db (snd (update_voice_bitrate env bitrate r db))"
| "room_step db (snd (receive env rm g db))"
| "room_step db (snd (update_category env c m db))"
| "room_step db (snd (favorite env m db))"
| "room_step db (snd (unfavorite env m db))"
| "room_step db (snd (move_favorite_to env p m db))"
| "room_step db (snd (update_involvement env l m db))"
| "room_step db (snd (read_room env m db))"
| "room_step db (snd (mark_unread_before env g m db))"
| "room_step db (snd (raise_hand env m db))"
| "room_step db (snd (lower_hand env m db))"
| "room_step db (snd (change_stage_role env role m db))"
| "room_step db (snd (set_server_muted env b m db))"
| "room_step db (snd (disconnect_all env db))"
| "room_step db (snd (present env m db))"
| "room_step db (snd (connected env m db))"
| "room_step db (snd (disconnected env m db))"
| "room_step db (snd (refresh_connection env m db))"
| "room_step db (snd (create_category env u name'' p b db))"
| "room_step db (snd (update_room_category env name'' p b cat db))"
| "room_step db (snd (reorder_categories env u ids db))"
| "room_step db (snd (destroy_category cat db))"
| "room_step db (snd (create_workspace_category env name'' db))"
| "room_step db (snd (rename_workspace_category env name'' w db))"
| "room_step db (snd (reorder_workspace env ids db))"
| "room_step db (snd (destroy_workspace_category env w db))"
| "room_step db (snd (place_room rm c index db))"
| "room_step db (snd (run_hook env h db))"

lemma wf_step: "room_step db db' \<Longrightarrow> well_formed db \<Longrightarrow> well_formed db'"
  by (induction rule: room_step.induct)
    (rule keepsD [OF _ _ prod.collapse [symmetric]], rule wf_rules, assumption)+

interpretation room_runs: invariant_system room_step well_formed
  by unfold_locales (rule wf_step)



end
