(* ===== verification/SignedMessages.thy ===== *)
theory SignedMessages
  imports Encoding IpAddress Totp
begin

section \<open>Signed and encrypted messages\<close>

text \<open>
  \<^verbatim>\<open>crates/rails_compat/src/message_verifier.rs\<close>, \<^verbatim>\<open>message_encryptor.rs\<close>, \<^verbatim>\<open>metadata.rs\<close>, \<^verbatim>\<open>json.rs\<close> and
  \<^verbatim>\<open>marshal.rs\<close>: a payload in an envelope that names its purpose and its end, signed with a keyed
  hash or sealed with a cipher.

  Texts are the bytes of their encoding.  The \<open>tools\<close> are the libraries: the keyed hashes, the
  cipher, Base64, JSON and the writing and reading of instants, which are nanoseconds.
\<close>

type_synonym instant = int

record tools =
  hmac_sha1 :: keyed_hash
  hmac_sha256 :: keyed_hash
  derive_key :: "byte list \<Rightarrow> nat \<Rightarrow> byte list"
  seal :: "byte list \<Rightarrow> byte list \<Rightarrow> byte list \<Rightarrow> byte list"
  unseal :: "byte list \<Rightarrow> byte list \<Rightarrow> byte list \<Rightarrow> byte list option"
  base64 :: base64_engine
  json_text :: "json \<Rightarrow> string"
  json_read :: "string \<Rightarrow> json option"
  seconds_text :: "int \<Rightarrow> string"
  read_instant :: "string \<Rightarrow> instant option"

datatype message_error = InvalidSignature | InvalidMessage | Expired | PurposeMismatch

definition rotates :: "message_error \<Rightarrow> bool" where
  "rotates e \<longleftrightarrow> e = InvalidSignature \<or> e = InvalidMessage"

subsection \<open>JSON\<close>

definition json_escape :: "string \<Rightarrow> string" where
  "json_escape t = concat (map (\<lambda>c.
     if c = CHR ''<'' then CHR 0x5C # ''u003c'' else if c = CHR ''>'' then CHR 0x5C # ''u003e''
     else if c = CHR ''&'' then CHR 0x5C # ''u0026'' else [c]) t)"

definition active_json :: "tools \<Rightarrow> json \<Rightarrow> string" where
  "active_json lib v = json_escape (json_text lib v)"

fun member :: "string \<Rightarrow> json \<Rightarrow> json option" where
  "member k (JObj ms) = map_of ms k"
| "member k _ = None"

fun is_object :: "json \<Rightarrow> bool" where
  "is_object (JObj _) = True"
| "is_object _ = False"

fun as_str :: "json option \<Rightarrow> string option" where
  "as_str (Some (JStr s)) = Some s"
| "as_str _ = None"

subsection \<open>Marshal\<close>

definition marshal_signature :: string where
  "marshal_signature = [CHR 0x04, CHR 0x08]"

text \<open>A number of up to four bytes, whose count is below zero when it is.\<close>

definition little_endian :: "string \<Rightarrow> int" where
  "little_endian t = foldr (\<lambda>c acc. acc * 256 + of_char c) t 0"

definition read_fixnum :: "string \<Rightarrow> (int \<times> string) option" where
  "read_fixnum t =
     (case t of
        [] \<Rightarrow> None
      | c # rest \<Rightarrow>
          (let u = (of_char c :: int); first = (if u < 128 then u else u - 256) in
           if first = 0 then Some (0, rest)
           else if 1 \<le> first \<and> first \<le> 4 then
             (let n = nat first in if length rest < n then None else Some (little_endian (take n rest), drop n rest))
           else if - 4 \<le> first \<and> first \<le> - 1 then
             (let n = nat (- first) in
              if length rest < n then None else Some (little_endian (take n rest) - 256 ^ n, drop n rest))
           else if 5 \<le> first then Some (first - 5, rest)
           else Some (first + 5, rest)))"

definition load_string :: "string \<Rightarrow> string option" where
  "load_string dumped =
     (case strip_prefix marshal_signature dumped of
        None \<Rightarrow> None
      | Some r0 \<Rightarrow>
          (let r1 = (case strip_prefix ''I'' r0 of Some r \<Rightarrow> r | None \<Rightarrow> r0) in
           case strip_prefix [CHR 0x22] r1 of
             None \<Rightarrow> None
           | Some r2 \<Rightarrow>
               (case read_fixnum r2 of
                  None \<Rightarrow> None
                | Some (n, rest) \<Rightarrow>
                    if n < 0 \<or> length rest < nat n then None else Some (take (nat n) rest))))"

text \<open>\<^verbatim>\<open>String::from_utf8_lossy\<close>: every longest start of a character that breaks off is replaced.\<close>

definition replacement :: "byte list" where
  "replacement = [0xEF, 0xBF, 0xBD]"

definition second_byte :: "byte \<Rightarrow> byte \<Rightarrow> bool" where
  "second_byte b c \<longleftrightarrow>
     (if b = 0xE0 then 0xA0 \<le> c \<and> c \<le> 0xBF else if b = 0xED then 0x80 \<le> c \<and> c \<le> 0x9F
      else if b = 0xF0 then 0x90 \<le> c \<and> c \<le> 0xBF else if b = 0xF4 then 0x80 \<le> c \<and> c \<le> 0x8F
      else cont_byte c)"

definition sequence_length :: "byte \<Rightarrow> nat" where
  "sequence_length b =
     (if b < 0x80 then 1 else if 0xC2 \<le> b \<and> b \<le> 0xDF then 2 else if 0xE0 \<le> b \<and> b \<le> 0xEF then 3
      else if 0xF0 \<le> b \<and> b \<le> 0xF4 then 4 else 0)"

text \<open>How many of the bytes after \<open>b\<close> continue its sequence, of at most \<open>n\<close>.\<close>

definition continued :: "byte \<Rightarrow> nat \<Rightarrow> byte list \<Rightarrow> nat" where
  "continued b n bs =
     (case take n bs of
        [] \<Rightarrow> 0
      | c # cs \<Rightarrow> if second_byte b c then 1 + length (takeWhile cont_byte cs) else 0)"

function lossy :: "byte list \<Rightarrow> byte list" where
  "lossy [] = []"
| "lossy (b # bs) =
     (let n = sequence_length b; k = continued b (n - 1) bs in
      (if n \<noteq> 0 \<and> k + 1 = n then b # take k bs else replacement) @ lossy (drop k bs))"
  by pat_completeness auto
termination by (relation "measure length") auto

definition lossy_text :: "string \<Rightarrow> string" where
  "lossy_text t = bytes_text (lossy (text_bytes t))"

subsection \<open>Serializers\<close>

datatype serializer = NullSerializer | JsonSerializer | JsonWithFallback bool

fun dump :: "tools \<Rightarrow> serializer \<Rightarrow> json \<Rightarrow> string eval_result" where
  "dump lib NullSerializer v = (case v of JStr s \<Rightarrow> Returns s | _ \<Rightarrow> Panics)"
| "dump lib JsonSerializer v = Returns (json_text lib v)"
| "dump lib (JsonWithFallback allow) v = Returns (active_json lib v)"

fun load :: "tools \<Rightarrow> serializer \<Rightarrow> string \<Rightarrow> message_error + json" where
  "load lib NullSerializer t = (if valid_utf8 (text_bytes t) then Inr (JStr t) else Inl InvalidMessage)"
| "load lib JsonSerializer t =
     (if t = [] then Inr JNull else case json_read lib t of Some v \<Rightarrow> Inr v | None \<Rightarrow> Inl InvalidMessage)"
| "load lib (JsonWithFallback allow) t =
     (if prefix marshal_signature t then
        (if \<not> allow then Inl InvalidMessage
         else case load_string t of
             Some s \<Rightarrow> Inr (JStr (lossy_text s))
           | None \<Rightarrow> Inl InvalidMessage)
      else case json_read lib t of Some v \<Rightarrow> Inr v | None \<Rightarrow> Inl InvalidMessage)"

fun encode_json :: "tools \<Rightarrow> serializer \<Rightarrow> json \<Rightarrow> string" where
  "encode_json lib JsonSerializer v = json_text lib v"
| "encode_json lib _ v = active_json lib v"

definition uses_envelope :: "serializer \<Rightarrow> bool" where
  "uses_envelope ser \<longleftrightarrow> ser \<noteq> NullSerializer"

subsection \<open>Envelopes\<close>

text \<open>\<^verbatim>\<open>as_second\<close> and \<^verbatim>\<open>subsec_nanosecond\<close> of an instant have its sign.\<close>

definition instant_second :: "instant \<Rightarrow> int" where
  "instant_second t = (if t < 0 then - ((- t) div 1000000000) else t div 1000000000)"

definition subsec_nanosecond :: "instant \<Rightarrow> int" where
  "subsec_nanosecond t = t - 1000000000 * instant_second t"

definition three_digits :: "int \<Rightarrow> string" where
  "three_digits n =
     (let sign = (if n < 0 then ''-'' else []); digits = string_of_nat (nat \<bar>n\<bar>)
      in sign @ replicate (3 - length sign - length digits) CHR ''0'' @ digits)"

definition iso8601_millis :: "tools \<Rightarrow> instant \<Rightarrow> string" where
  "iso8601_millis lib t =
     seconds_text lib (instant_second t) @ ''.'' @ three_digits (subsec_nanosecond t div 1000000) @ ''Z''"

definition in_quotes :: "string \<Rightarrow> string" where
  "in_quotes t = CHR 0x22 # t @ [CHR 0x22]"

text \<open>\<open>{"key":value,...}\<close> as the formats of the source write it.\<close>

definition object_text :: "(string \<times> string) list \<Rightarrow> string" where
  "object_text ms = ''{'' @ join_with '','' (map (\<lambda>(k, t). in_quotes k @ '':'' @ t) ms) @ ''}''"

definition serialize_dumped :: "tools \<Rightarrow> serializer \<Rightarrow> string \<Rightarrow> string option \<Rightarrow> instant option \<Rightarrow> string" where
  "serialize_dumped lib ser dumped purpose expires_at =
     (if purpose = None \<and> expires_at = None then dumped
      else
        (let expiry = map_option (\<lambda>t. JStr (iso8601_millis lib t)) expires_at;
             pur = map_option JStr purpose
         in
         if uses_envelope ser then
           object_text [(''_rails'', object_text
             ([(''data'', dumped)] @
              (case expiry of Some e \<Rightarrow> [(''exp'', encode_json lib ser e)] | None \<Rightarrow> []) @
              (case pur of Some p \<Rightarrow> [(''pur'', encode_json lib ser p)] | None \<Rightarrow> [])))]
         else
           object_text [(''_rails'', object_text
             [(''message'', active_json lib (JStr (std_encode (base64 lib) (text_bytes dumped)))),
              (''exp'', active_json lib (case expiry of Some e \<Rightarrow> e | None \<Rightarrow> JNull)),
              (''pur'', active_json lib (case pur of Some p \<Rightarrow> p | None \<Rightarrow> JNull))])]))"

definition serialize_with_metadata :: "tools \<Rightarrow> serializer \<Rightarrow> json \<Rightarrow> string option \<Rightarrow> instant option \<Rightarrow> string eval_result" where
  "serialize_with_metadata lib ser v purpose expires_at =
     eval_map (\<lambda>t. serialize_dumped lib ser t purpose expires_at) (dump lib ser v)"

text \<open>\<^verbatim>\<open>to_s\<close> of a purpose, which is none of the other values.\<close>

fun ruby_to_s :: "tools \<Rightarrow> json option \<Rightarrow> string" where
  "ruby_to_s lib None = []"
| "ruby_to_s lib (Some JNull) = []"
| "ruby_to_s lib (Some (JStr s)) = s"
| "ruby_to_s lib (Some (JBool b)) = (if b then ''true'' else ''false'')"
| "ruby_to_s lib (Some (JInt n)) = json_text lib (JInt n)"
| "ruby_to_s lib (Some (JFloat x)) = json_text lib (JFloat x)"
| "ruby_to_s lib (Some v) = CHR 0x00 # json_text lib v"

definition open_envelope :: "tools \<Rightarrow> json \<Rightarrow> string option \<Rightarrow> instant \<Rightarrow> message_error + json" where
  "open_envelope lib envelope purpose now =
     (case member ''_rails'' envelope of
        Some (JObj ms) \<Rightarrow>
          (let matching = (if ruby_to_s lib (map_of ms ''pur'') \<noteq> (case purpose of Some p \<Rightarrow> p | None \<Rightarrow> [])
                           then Inl PurposeMismatch else Inr (JObj ms))
           in
           case map_of ms ''exp'' of
             None \<Rightarrow> matching
           | Some JNull \<Rightarrow> matching
           | Some (JStr e) \<Rightarrow>
               (case read_instant lib e of
                  None \<Rightarrow> Inl InvalidMessage
                | Some t \<Rightarrow> if t \<le> now then Inl Expired else matching)
           | Some _ \<Rightarrow> Inl InvalidMessage)
      | _ \<Rightarrow> Inl InvalidMessage)"

definition legacy_start :: string where
  "legacy_start = ''{'' @ in_quotes ''_rails'' @ '':{'' @ in_quotes ''message'' @ '':'' @ [CHR 0x22]"

definition deserialize_with_metadata :: "tools \<Rightarrow> serializer \<Rightarrow> string \<Rightarrow> string option \<Rightarrow> instant
    \<Rightarrow> (string \<Rightarrow> byte list option) \<Rightarrow> message_error + json" where
  "deserialize_with_metadata lib ser t purpose now decode_legacy =
     (if prefix legacy_start t then
        (case json_read lib t of
           None \<Rightarrow> Inl InvalidSignature
         | Some envelope \<Rightarrow>
             (case open_envelope lib envelope purpose now of
                Inl e \<Rightarrow> Inl e
              | Inr rails \<Rightarrow>
                  (case as_str (member ''message'' rails) of
                     None \<Rightarrow> Inl InvalidSignature
                   | Some m \<Rightarrow>
                       (case decode_legacy m of
                          None \<Rightarrow> Inl InvalidSignature
                        | Some dumped \<Rightarrow> load lib ser (bytes_text dumped)))))
      else
        (case load lib ser t of
           Inl e \<Rightarrow> Inl e
         | Inr v \<Rightarrow>
             if member ''_rails'' v \<noteq> None then
               (case open_envelope lib v purpose now of
                  Inl e \<Rightarrow> Inl e
                | Inr rails \<Rightarrow> Inr (case member ''data'' rails of Some d \<Rightarrow> d | None \<Rightarrow> JNull))
             else if purpose = None then Inr v
             else Inl PurposeMismatch))"

subsection \<open>Verifiers\<close>

datatype digest_kind = Sha1 | Sha256
datatype payload_encoding = StrictEncoding | UrlSafe | UrlSafePadded

datatype verifier = Verifier (ver_secret: "byte list") (ver_digest: digest_kind)
  (ver_encoding: payload_encoding) (ver_serializer: serializer) (ver_rotations: "verifier list")

definition verifier_new :: "byte list \<Rightarrow> digest_kind \<Rightarrow> payload_encoding \<Rightarrow> serializer \<Rightarrow> verifier" where
  "verifier_new secret d e ser = Verifier secret d e ser []"

definition fall_back_to :: "verifier \<Rightarrow> verifier \<Rightarrow> verifier" where
  "fall_back_to v rotation =
     Verifier (ver_secret v) (ver_digest v) (ver_encoding v) (ver_serializer v) (ver_rotations v @ [rotation])"

definition hex_encode :: "byte list \<Rightarrow> string" where
  "hex_encode bs = concat (map (\<lambda>b. [hex_digit (unat b div 16), hex_digit (unat b mod 16)]) bs)"

definition mac :: "tools \<Rightarrow> verifier \<Rightarrow> string \<Rightarrow> byte list" where
  "mac lib v t =
     (case ver_digest v of
        Sha1 \<Rightarrow> hmac_sha1 lib (ver_secret v) (text_bytes t)
      | Sha256 \<Rightarrow> hmac_sha256 lib (ver_secret v) (text_bytes t))"

definition hex_length :: "verifier \<Rightarrow> nat" where
  "hex_length v = (case ver_digest v of Sha1 \<Rightarrow> 40 | Sha256 \<Rightarrow> 64)"

definition hex_digest :: "tools \<Rightarrow> verifier \<Rightarrow> string \<Rightarrow> string" where
  "hex_digest lib v t = hex_encode (mac lib v t)"

definition digest_matches :: "tools \<Rightarrow> verifier \<Rightarrow> string \<Rightarrow> string \<Rightarrow> bool" where
  "digest_matches lib v t digest \<longleftrightarrow> digest = hex_digest lib v t"

definition sign_text :: "tools \<Rightarrow> verifier \<Rightarrow> string \<Rightarrow> string" where
  "sign_text lib v serialized =
     (let bs = text_bytes serialized;
          encoded = (case ver_encoding v of
              StrictEncoding \<Rightarrow> std_encode (base64 lib) bs
            | UrlSafe \<Rightarrow> url_encode_unpadded (base64 lib) bs
            | UrlSafePadded \<Rightarrow> url_encode_padded (base64 lib) bs)
      in encoded @ ''--'' @ hex_digest lib v encoded)"

definition generate :: "tools \<Rightarrow> verifier \<Rightarrow> json \<Rightarrow> string option \<Rightarrow> instant option \<Rightarrow> string eval_result" where
  "generate lib v value_json purpose expires_at =
     eval_map (sign_text lib v) (serialize_with_metadata lib (ver_serializer v) value_json purpose expires_at)"

definition generate_raw :: "tools \<Rightarrow> verifier \<Rightarrow> string \<Rightarrow> string option \<Rightarrow> instant option \<Rightarrow> string" where
  "generate_raw lib v data_json purpose expires_at =
     sign_text lib v (serialize_dumped lib (ver_serializer v) data_json purpose expires_at)"

text \<open>\<^verbatim>\<open>str::trim\<close> leaves nothing: every character is white space of Unicode.\<close>

fun white_bytes :: "byte list \<Rightarrow> bool" where
  "white_bytes [] = True"
| "white_bytes (b # bs) =
     (if b \<in> {0x09, 0x0A, 0x0B, 0x0C, 0x0D, 0x20} then white_bytes bs
      else if b = 0xC2 then (case bs of c # r \<Rightarrow> c \<in> {0x85, 0xA0} \<and> white_bytes r | _ \<Rightarrow> False)
      else if b = 0xE1 then (case bs of c # d # r \<Rightarrow> c = 0x9A \<and> d = 0x80 \<and> white_bytes r | _ \<Rightarrow> False)
      else if b = 0xE2 then
        (case bs of c # d # r \<Rightarrow>
           (c = 0x80 \<and> (0x80 \<le> d \<and> d \<le> 0x8A \<or> d \<in> {0xA8, 0xA9, 0xAF}) \<or> c = 0x81 \<and> d = 0x9F) \<and> white_bytes r
         | _ \<Rightarrow> False)
      else if b = 0xE3 then (case bs of c # d # r \<Rightarrow> c = 0x80 \<and> d = 0x80 \<and> white_bytes r | _ \<Rightarrow> False)
      else False)"

definition white_text :: "string \<Rightarrow> bool" where
  "white_text t \<longleftrightarrow> white_bytes (text_bytes t)"

definition extract_encoded :: "tools \<Rightarrow> verifier \<Rightarrow> string \<Rightarrow> string option" where
  "extract_encoded lib v signed_text =
     (if length signed_text < hex_length v + 2 then None
      else
        (let index = length signed_text - (hex_length v + 2);
             encoded = take index signed_text; digest = drop (index + 2) signed_text
         in
         if take 2 (drop index signed_text) \<noteq> ''--'' then None
         else if white_text encoded \<or> white_text digest then None
         else if digest_matches lib v encoded digest then Some encoded else None))"

definition read_message :: "tools \<Rightarrow> verifier \<Rightarrow> string \<Rightarrow> string option \<Rightarrow> instant \<Rightarrow> message_error + json" where
  "read_message lib v m purpose now =
     (case extract_encoded lib v m of
        None \<Rightarrow> Inl InvalidSignature
      | Some encoded \<Rightarrow>
          (case urlsafe_decode (base64 lib) encoded of
             None \<Rightarrow> Inl InvalidSignature
           | Some decoded \<Rightarrow>
               deserialize_with_metadata lib (ver_serializer v) (bytes_text decoded) purpose now
                 (urlsafe_decode (base64 lib))))"

fun read_rotations :: "tools \<Rightarrow> verifier list \<Rightarrow> string \<Rightarrow> string option \<Rightarrow> instant \<Rightarrow> message_error
    \<Rightarrow> message_error + json" where
  "read_rotations lib [] m purpose now e = Inl e"
| "read_rotations lib (w # ws) m purpose now e =
     (case read_message lib w m purpose now of
        Inl e' \<Rightarrow> if rotates e' then read_rotations lib ws m purpose now e else Inl e'
      | Inr v \<Rightarrow> Inr v)"

definition verify :: "tools \<Rightarrow> verifier \<Rightarrow> string \<Rightarrow> string option \<Rightarrow> instant \<Rightarrow> message_error + json" where
  "verify lib v m purpose now =
     (case read_message lib v m purpose now of
        Inl e \<Rightarrow> if rotates e then read_rotations lib (ver_rotations v) m purpose now e else Inl e
      | Inr x \<Rightarrow> Inr x)"

definition verify_raw :: "tools \<Rightarrow> verifier \<Rightarrow> string \<Rightarrow> string option \<Rightarrow> instant \<Rightarrow> message_error + string" where
  "verify_raw lib v m purpose now = map_sum id (encode_json lib (ver_serializer v)) (verify lib v m purpose now)"

subsection \<open>Encryptors\<close>

text \<open>The initialisation vector is random.  The tag is the last sixteen bytes the cipher returns.\<close>

definition encrypt_with_iv :: "tools \<Rightarrow> byte list \<Rightarrow> string \<Rightarrow> byte list \<Rightarrow> string" where
  "encrypt_with_iv lib key plaintext iv =
     (let sealed = seal lib key iv (text_bytes plaintext); n = length sealed - 16
      in join_with ''--'' (map (std_encode (base64 lib)) [take n sealed, iv, drop n sealed]))"

definition encrypt_and_sign :: "tools \<Rightarrow> byte list \<Rightarrow> serializer \<Rightarrow> json \<Rightarrow> string option \<Rightarrow> instant option
    \<Rightarrow> byte list \<Rightarrow> string eval_result" where
  "encrypt_and_sign lib key ser v purpose expires_at iv =
     eval_map (\<lambda>t. encrypt_with_iv lib key t iv) (serialize_with_metadata lib ser v purpose expires_at)"

definition extract_parts :: "string \<Rightarrow> (string \<times> string \<times> string) option" where
  "extract_parts m =
     (if length m < 24 then None
      else let tag_start = length m - 24 in
      if tag_start < 18 then None
      else let iv_start = tag_start - 18 in
      if iv_start < 2 then None
      else let ciphertext_end = iv_start - 2 in
      if take 2 (drop (tag_start - 2) m) \<noteq> ''--'' \<or> take 2 (drop ciphertext_end m) \<noteq> ''--'' then None
      else Some (take ciphertext_end m, take 16 (drop iv_start m), drop tag_start m))"

definition decrypt_message :: "tools \<Rightarrow> byte list \<Rightarrow> string \<Rightarrow> byte list option" where
  "decrypt_message lib key m =
     (case extract_parts m of
        None \<Rightarrow> None
      | Some (c, i, t) \<Rightarrow>
          (case (std_decode (base64 lib) c, std_decode (base64 lib) i, std_decode (base64 lib) t) of
             (Some ciphertext, Some iv, Some tag) \<Rightarrow>
               if length iv \<noteq> 12 \<or> length tag \<noteq> 16 then None else unseal lib key iv (ciphertext @ tag)
           | _ \<Rightarrow> None))"

definition decrypt_and_verify :: "tools \<Rightarrow> byte list \<Rightarrow> serializer \<Rightarrow> string \<Rightarrow> string option \<Rightarrow> instant
    \<Rightarrow> message_error + json" where
  "decrypt_and_verify lib key ser m purpose now =
     (case decrypt_message lib key m of
        None \<Rightarrow> Inl InvalidSignature
      | Some plaintext \<Rightarrow>
          deserialize_with_metadata lib ser (bytes_text plaintext) purpose now (std_decode (base64 lib)))"

subsection \<open>What the libraries promise\<close>

fun json_depth :: "json \<Rightarrow> nat" where
  "json_depth (JArr vs) = Suc (Max (insert 0 (set (map json_depth vs))))"
| "json_depth (JObj ms) = Suc (Max (insert 0 (set (map (\<lambda>m. json_depth (snd m)) ms))))"
| "json_depth _ = 0"

definition plain_key :: "string \<Rightarrow> bool" where
  "plain_key k \<longleftrightarrow> list_all (\<lambda>c. is_alphabetic c \<or> c = CHR ''_'') k"

text \<open>
  JSON texts of strings, of integers of 64 bits and of \<^verbatim>\<open>null\<close> read back; an object is read from its
  members' texts up to the depth the reader allows, and written from them; a character in a text may be escaped; a text that
  reads is valid and does not start with a control character that is not white space.
\<close>

definition json_laws :: "tools \<Rightarrow> bool" where
  "json_laws lib \<longleftrightarrow>
     (\<forall>s. valid_utf8 (text_bytes s) \<longrightarrow> json_read lib (json_text lib (JStr s)) = Some (JStr s) \<and>
        (\<exists>r. json_text lib (JStr s) = CHR 0x22 # r)) \<and>
     (\<forall>n. - (2 ^ 63) \<le> n \<and> n < 2 ^ 63 \<longrightarrow> json_read lib (json_text lib (JInt n)) = Some (JInt n)) \<and>
     json_read lib (json_text lib JNull) = Some JNull \<and>
     (\<forall>t v. json_read lib t = Some v \<longrightarrow>
        json_read lib (json_escape t) = Some v \<and> t \<noteq> [] \<and> hd t \<noteq> CHR 0x04 \<and> valid_utf8 (text_bytes t)) \<and>
     (\<forall>ms. ms \<noteq> [] \<and> distinct (map fst ms) \<and>
        list_all (\<lambda>(k, t, v). plain_key k \<and> json_read lib t = Some v \<and> json_depth v < 120) ms \<longrightarrow>
        json_read lib (object_text (map (\<lambda>(k, t, v). (k, t)) ms)) = Some (JObj (map (\<lambda>(k, t, v). (k, v)) ms))) \<and>
     (\<forall>ms. list_all (\<lambda>(k, v). plain_key k) ms \<longrightarrow>
        json_text lib (JObj ms) = object_text (map (\<lambda>(k, v). (k, json_text lib v)) ms))"

text \<open>The last instant of the library is in the year 9999.\<close>

definition last_second :: int where
  "last_second = 253402207200"

definition instant_laws :: "tools \<Rightarrow> bool" where
  "instant_laws lib \<longleftrightarrow>
     (\<forall>s m. 0 \<le> s \<and> s < last_second \<and> 0 \<le> m \<and> m < 1000 \<longrightarrow>
        read_instant lib (seconds_text lib s @ ''.'' @ three_digits m @ ''Z'') = Some (s * 1000000000 + m * 1000000) \<and>
        valid_utf8 (text_bytes (seconds_text lib s @ ''.'' @ three_digits m @ ''Z'')))"

definition base64_char :: "char \<Rightarrow> bool" where
  "base64_char c \<longleftrightarrow> is_alphanumeric c \<or> c \<in> {CHR ''+'', CHR ''/'', CHR ''=''}"

definition tool_laws :: "tools \<Rightarrow> bool" where
  "tool_laws lib \<longleftrightarrow>
     base64_laws (base64 lib) \<and> (\<forall>bs. list_all base64_char (std_encode (base64 lib) bs)) \<and>
     (\<forall>k x. length (hmac_sha1 lib k x) = 20 \<and> length (hmac_sha256 lib k x) = 32) \<and>
     json_laws lib \<and> instant_laws lib"

definition signable :: "tools \<Rightarrow> serializer \<Rightarrow> json \<Rightarrow> bool" where
  "signable lib ser x \<longleftrightarrow>
     (if ser = NullSerializer then (case x of JStr s \<Rightarrow> valid_utf8 (text_bytes s) | _ \<Rightarrow> False)
      else json_read lib (json_text lib x) = Some x \<and> json_depth x < 100)"

definition expired_at :: "instant option \<Rightarrow> instant \<Rightarrow> bool" where
  "expired_at e now \<longleftrightarrow> (case e of None \<Rightarrow> False | Some t \<Rightarrow> t - t mod 1000000 \<le> now)"

definition purpose_text :: "string option \<Rightarrow> string" where
  "purpose_text p = (case p of Some t \<Rightarrow> t | None \<Rightarrow> [])"

subsection \<open>Signatures\<close>

definition visible :: "char \<Rightarrow> bool" where
  "visible c \<longleftrightarrow> (of_char c :: nat) < 128 \<and> \<not> is_space c \<and> c \<noteq> CHR 0x00"

lemma visible_not_white: "list_all visible t \<Longrightarrow> t \<noteq> [] \<Longrightarrow> \<not> white_text t"
proof (cases t)
  case (Cons c r)
  assume t: "list_all visible t"
  let ?b = "word_of_nat (of_char c) :: byte"
  have "(of_char c :: nat) < 128" "\<not> is_space c" using t Cons by (simp_all add: visible_def)
  moreover have "(of_char c :: nat) \<notin> of_char ` S" if "c \<notin> S" for S
    using that by auto
  from this [of "{CHR 0x09, CHR 0x0A, CHR 0x0B, CHR 0x0C, CHR 0x0D, CHR '' ''}"] \<open>\<not> is_space c\<close>
  have "(of_char c :: nat) \<notin> of_char ` {CHR 0x09, CHR 0x0A, CHR 0x0B, CHR 0x0C, CHR 0x0D, CHR '' ''}"
    by (simp only: is_space_def not_False_eq_True)
  ultimately have n: "(of_char c :: nat) < 128" "(of_char c :: nat) \<notin> {0x09, 0x0A, 0x0B, 0x0C, 0x0D, 0x20}"
    by simp_all
  have "unat ?b = of_char c" using n(1) by (simp add: unat_of_nat)
  then have "?b \<notin> {0x09, 0x0A, 0x0B, 0x0C, 0x0D, 0x20, 0xC2, 0xE1, 0xE2, 0xE3}" using n by auto
  then show ?thesis by (simp add: white_text_def text_bytes_def Cons)
qed simp

lemma visibleI: "32 < (of_char c :: nat) \<Longrightarrow> (of_char c :: nat) < 128 \<Longrightarrow> visible c"
  by (auto simp: visible_def is_space_def)

lemma hex_digit_plain: "d < 16 \<Longrightarrow> visible (hex_digit d)"
  by (rule visibleI) (simp_all add: hex_digit_def)

lemma length_hex_encode [simp]: "length (hex_encode bs) = 2 * length bs"
  by (induction bs) (simp_all add: hex_encode_def)

lemma hex_encode_plain: "list_all visible (hex_encode bs)"
  by (auto simp: hex_encode_def list_all_iff hex_digit_plain unat_div_16)

lemma length_hex_digest: "tool_laws lib \<Longrightarrow> length (hex_digest lib v t) = hex_length v"
  by (simp add: tool_laws_def hex_digest_def mac_def hex_length_def split: digest_kind.split)

lemma extract_signed:
  assumes "tool_laws lib" and "list_all visible encoded" and "encoded \<noteq> []"
  shows "extract_encoded lib v (encoded @ ''--'' @ hex_digest lib v encoded) = Some encoded"
proof -
  have len: "length (hex_digest lib v encoded) = hex_length v" by (rule length_hex_digest [OF assms(1)])
  moreover have "0 < hex_length v" by (simp add: hex_length_def split: digest_kind.split)
  ultimately have "hex_digest lib v encoded \<noteq> []" by auto
  then have "\<not> white_text (hex_digest lib v encoded)"
    by (intro visible_not_white) (simp_all add: hex_digest_def hex_encode_plain)
  with len show ?thesis
    using visible_not_white [OF assms(2,3)] by (simp add: extract_encoded_def digest_matches_def Let_def)
qed

subsection \<open>Envelopes read back\<close>

lemma ascii_valid: "list_all is_ascii t \<Longrightarrow> valid_utf8 (text_bytes t)"
proof (induction t)
  case (Cons c t)
  then have "(of_char c :: nat) < 128" by (simp add: is_ascii_def)
  then have "(word_of_nat (of_char c) :: byte) < 0x80" by (simp add: word_less_nat_alt unat_of_nat)
  with Cons show ?case by (simp add: text_bytes_def)
qed (simp add: text_bytes_def)

lemma base64_valid: "list_all base64_char t \<Longrightarrow> valid_utf8 (text_bytes t)"
  by (intro ascii_valid) (auto simp: list_all_iff is_ascii_def base64_char_def is_alphanumeric_def
      is_alphabetic_def is_upper_def is_lower_def is_digit_def)

lemma payload_encoded:
  assumes "tool_laws lib" and "bs \<noteq> []"
    and "encoded = (case enc of StrictEncoding \<Rightarrow> std_encode (base64 lib) bs
        | UrlSafe \<Rightarrow> url_encode_unpadded (base64 lib) bs | UrlSafePadded \<Rightarrow> url_encode_padded (base64 lib) bs)"
  shows "list_all visible encoded" and "encoded \<noteq> []" and "urlsafe_decode (base64 lib) encoded = Some bs"
proof -
  let ?e = "base64 lib"
  have laws: "base64_laws ?e" and chars: "list_all base64_char (std_encode ?e bs)"
    using assms(1) by (simp_all add: tool_laws_def)
  have std: "std_encode ?e [] = []" "std_decode ?e (std_encode ?e cs) = Some cs"
    "url_encode_padded ?e bs = map url_char (std_encode ?e bs)"
    "url_encode_unpadded ?e bs = filter (\<lambda>c. c \<noteq> CHR ''='') (map url_char (std_encode ?e bs))" for cs
    using laws unfolding base64_laws_def by blast+
  have plain: "visible c \<and> visible (url_char c)" if "base64_char c" for c
    using that by (auto simp: visible_def base64_char_def url_char_def is_space_def is_alphanumeric_def is_alphabetic_def
        is_upper_def is_lower_def is_digit_def split: if_splits)
  show "list_all visible encoded"
    using chars plain by (auto simp: assms(3) std(3,4) list_all_iff split: payload_encoding.split)
  have "std_encode ?e bs \<noteq> []" using std(1) std(2) [of bs] std(2) [of "[]"] assms(2) by fastforce
  then show "encoded \<noteq> []"
    using url_encode_unpadded_eq_Nil [OF laws] assms(2) by (auto simp: assms(3) std(3) split: payload_encoding.split)
  show "urlsafe_decode ?e encoded = Some bs"
    using urlsafe_decode_reads_back [OF laws] by (simp add: assms(3) split: payload_encoding.split)
qed

text \<open>So a signed text reads as its payload.\<close>

lemma read_signed:
  assumes "tool_laws lib" and "t \<noteq> []"
  shows "read_message lib v (sign_text lib v t) purpose now =
    deserialize_with_metadata lib (ver_serializer v) t purpose now (urlsafe_decode (base64 lib))"
proof -
  have "text_bytes t \<noteq> []" using assms(2) by (simp add: text_bytes_def)
  note payload = payload_encoded [OF assms(1) this refl, of "ver_encoding v"]
  show ?thesis
    unfolding read_message_def sign_text_def Let_def extract_signed [OF assms(1) payload(1,2)]
    by (simp add: payload(3))
qed

lemma read_object:
  assumes "json_laws lib" and "distinct (map fst ms)" and "ms \<noteq> []"
    and "list_all (\<lambda>(k, t, v). plain_key k \<and> json_read lib t = Some v \<and> json_depth v < 120) ms"
  shows "json_read lib (object_text (map (\<lambda>(k, t, v). (k, t)) ms)) = Some (JObj (map (\<lambda>(k, t, v). (k, v)) ms))"
  using assms unfolding json_laws_def by blast

lemma read_texts:
  "json_laws lib \<Longrightarrow> json_read lib t = Some v \<Longrightarrow>
    json_read lib (json_escape t) = Some v \<and> t \<noteq> [] \<and> hd t \<noteq> CHR 0x04 \<and> valid_utf8 (text_bytes t)"
  unfolding json_laws_def by blast

lemma written_object:
  "json_laws lib \<Longrightarrow> list_all (\<lambda>(k, v). plain_key k) ms \<Longrightarrow>
    json_text lib (JObj ms) = object_text (map (\<lambda>(k, v). (k, json_text lib v)) ms)"
  unfolding json_laws_def by blast

lemmas read_escaped = read_texts [THEN conjunct1]

lemma read_string:
  "json_laws lib \<Longrightarrow> valid_utf8 (text_bytes s) \<Longrightarrow> json_read lib (json_text lib (JStr s)) = Some (JStr s)"
  unfolding json_laws_def by blast

lemma read_encoded:
  assumes "json_laws lib" and "json_read lib (json_text lib x) = Some x"
  shows "json_read lib (encode_json lib ser x) = Some x" and "json_read lib (active_json lib x) = Some x"
  using read_escaped [OF assms] assms(2) by (cases ser; simp add: active_json_def)+

lemma iso8601_read:
  assumes "instant_laws lib" and "0 \<le> t" and "t < last_second * 1000000000"
  shows "read_instant lib (iso8601_millis lib t) = Some (t - t mod 1000000)"
    and "valid_utf8 (text_bytes (iso8601_millis lib t))"
proof -
  let ?s = "t div 1000000000" and ?m = "(t - 1000000000 * (t div 1000000000)) div 1000000"
  have m: "?m = t mod 1000000000 div 1000000" by (simp add: minus_mult_div_eq_mod)
  have parts: "t = ?s * 1000000000 + t mod 1000000000" "0 \<le> t mod 1000000000" "t mod 1000000000 < 1000000000"
    "t mod 1000000000 = t mod 1000000000 div 1000000 * 1000000 + t mod 1000000"
    "0 \<le> t mod 1000000" "t mod 1000000 < 1000000"
  proof -
    have "t mod 1000000000 mod 1000000 = t mod 1000000" by (rule mod_mod_cancel) simp
    then show "t mod 1000000000 = t mod 1000000000 div 1000000 * 1000000 + t mod 1000000"
      by (metis div_mult_mod_eq)
  qed (simp_all add: div_mult_mod_eq)
  have range: "0 \<le> ?s" "?s < last_second" "0 \<le> ?m" "?m < 1000"
    using assms(2,3) parts unfolding m last_second_def by linarith+
  have "?s * 1000000000 + ?m * 1000000 = t - t mod 1000000"
    using parts unfolding m by linarith
  with assms range show "read_instant lib (iso8601_millis lib t) = Some (t - t mod 1000000)"
    and "valid_utf8 (text_bytes (iso8601_millis lib t))"
    unfolding instant_laws_def iso8601_millis_def subsec_nanosecond_def instant_second_def by auto
qed

text \<open>The members an envelope has besides its payload.\<close>

abbreviation expiry_value :: "tools \<Rightarrow> instant option \<Rightarrow> json" where
  "expiry_value lib e \<equiv> (case e of Some t \<Rightarrow> JStr (iso8601_millis lib t) | None \<Rightarrow> JNull)"

abbreviation purpose_value :: "string option \<Rightarrow> json" where
  "purpose_value p \<equiv> (case p of Some t \<Rightarrow> JStr t | None \<Rightarrow> JNull)"

definition lasts :: "instant option \<Rightarrow> bool" where
  "lasts e \<longleftrightarrow> (case e of Some t \<Rightarrow> 0 \<le> t \<and> t < last_second * 1000000000 | None \<Rightarrow> True)"

definition purpose_ok :: "string option \<Rightarrow> bool" where
  "purpose_ok p \<longleftrightarrow> (case p of Some t \<Rightarrow> valid_utf8 (text_bytes t) | None \<Rightarrow> True)"

lemma open_written:
  assumes "tool_laws lib" and "lasts e"
    and "map_of ms ''exp'' = Some (expiry_value lib e) \<or> map_of ms ''exp'' = None \<and> e = None"
    and "map_of ms ''pur'' = Some (purpose_value p) \<or> map_of ms ''pur'' = None \<and> p = None"
  shows "open_envelope lib (JObj [(''_rails'', JObj ms)]) q now =
    (if expired_at e now then Inl Expired
     else if purpose_text p \<noteq> purpose_text q then Inl PurposeMismatch else Inr (JObj ms))"
proof -
  have "ruby_to_s lib (map_of ms ''pur'') = purpose_text p"
    using assms(4) by (auto simp: purpose_text_def split: option.splits)
  moreover have "read_instant lib (iso8601_millis lib t) = Some (t - t mod 1000000)" if "e = Some t" for t
    using that assms(1,2) by (intro iso8601_read) (auto simp: tool_laws_def lasts_def)
  ultimately show ?thesis
    using assms(3) by (cases e) (auto simp: open_envelope_def expired_at_def purpose_text_def Let_def)
qed

lemma json_values_read:
  assumes "tool_laws lib" and "lasts e" and "purpose_ok p"
  shows "json_read lib (json_text lib (expiry_value lib e)) = Some (expiry_value lib e)"
    and "json_read lib (json_text lib (purpose_value p)) = Some (purpose_value p)"
    and "json_depth (expiry_value lib e) = 0" and "json_depth (purpose_value p) = 0"
proof -
  have laws: "json_laws lib" "instant_laws lib" using assms(1) by (simp_all add: tool_laws_def)
  have "json_read lib (json_text lib JNull) = Some JNull" using laws(1) unfolding json_laws_def by blast
  then show "json_read lib (json_text lib (expiry_value lib e)) = Some (expiry_value lib e)"
    and "json_read lib (json_text lib (purpose_value p)) = Some (purpose_value p)"
    using read_string [OF laws(1)] iso8601_read(2) [OF laws(2)] assms(2,3)
    by (auto simp: lasts_def purpose_ok_def split: option.splits)
qed (simp_all split: option.split)

lemma plain_keys: "plain_key ''_rails''" "plain_key ''data''" "plain_key ''message''" "plain_key ''exp''" "plain_key ''pur''"
  by code_simp+

text \<open>The object around the members, whose texts are read.\<close>

lemma read_rails:
  assumes "json_laws lib" and "distinct (map fst ms)" and "ms \<noteq> []"
    and "list_all (\<lambda>(k, t, v). plain_key k \<and> json_read lib t = Some v \<and> json_depth v < 110) ms"
  shows "json_read lib (object_text [(''_rails'', object_text (map (\<lambda>(k, t, v). (k, t)) ms))]) =
    Some (JObj [(''_rails'', JObj (map (\<lambda>(k, t, v). (k, v)) ms))])"
proof -
  let ?inner = "JObj (map (\<lambda>(k, t, v). (k, v)) ms)"
  have "json_read lib (object_text (map (\<lambda>(k, t, v). (k, t)) ms)) = Some ?inner"
    using assms(4) by (intro read_object [OF assms(1-3)]) (auto simp: list_all_iff)
  moreover have "json_depth ?inner < 120"
    using assms(4) by (auto simp: list_all_iff less_Suc_eq_le intro!: Suc_lessI)
  ultimately show ?thesis
    using read_object [OF assms(1), of "[(''_rails'', object_text (map (\<lambda>(k, t, v). (k, t)) ms), ?inner)]"]
    by (simp add: plain_keys)
qed

text \<open>Reading the legacy envelope, whose payload is encoded, and the other.\<close>

lemma legacy_read_back:
  assumes "tool_laws lib" and "valid_utf8 (text_bytes s)" and "lasts e" and "purpose_ok p"
    and "decode (std_encode (base64 lib) (text_bytes s)) = Some (text_bytes s)"
    and "p \<noteq> None \<or> e \<noteq> None"
  shows "deserialize_with_metadata lib NullSerializer (serialize_dumped lib NullSerializer s p e) q now decode =
    (if expired_at e now then Inl Expired
     else if purpose_text p \<noteq> purpose_text q then Inl PurposeMismatch else Inr (JStr s))"
proof -
  let ?b = "std_encode (base64 lib) (text_bytes s)"
  let ?ms = "[(''message'', active_json lib (JStr ?b), JStr ?b), (''exp'', active_json lib (expiry_value lib e), expiry_value lib e),
      (''pur'', active_json lib (purpose_value p), purpose_value p)]"
  have laws: "json_laws lib" using assms(1) by (simp add: tool_laws_def)
  have "valid_utf8 (text_bytes ?b)" using assms(1) by (intro base64_valid) (simp add: tool_laws_def)
  then have b: "json_read lib (json_text lib (JStr ?b)) = Some (JStr ?b)" "\<exists>r. json_text lib (JStr ?b) = CHR 0x22 # r"
    using laws unfolding json_laws_def by blast+
  have written: "serialize_dumped lib NullSerializer s p e = object_text [(''_rails'', object_text (map (\<lambda>(k, t, v). (k, t)) ?ms))]"
    using assms(6) by (auto simp: serialize_dumped_def uses_envelope_def Let_def split: option.split)
  have "json_read lib (serialize_dumped lib NullSerializer s p e) = Some (JObj [(''_rails'', JObj (map (\<lambda>(k, t, v). (k, v)) ?ms))])"
    unfolding written
    using json_values_read [OF assms(1,3,4)] b(1) by (intro read_rails [OF laws]) (simp_all add: plain_keys read_encoded(2) [OF laws])
  moreover have "open_envelope lib (JObj [(''_rails'', JObj (map (\<lambda>(k, t, v). (k, v)) ?ms))]) q now =
      (if expired_at e now then Inl Expired
       else if purpose_text p \<noteq> purpose_text q then Inl PurposeMismatch else Inr (JObj (map (\<lambda>(k, t, v). (k, v)) ?ms)))"
    by (rule open_written [OF assms(1,3)]) simp_all
  moreover have "prefix legacy_start (serialize_dumped lib NullSerializer s p e)"
    using b(2) unfolding written
    by (auto simp: legacy_start_def object_text_def in_quotes_def active_json_def json_escape_def)
  ultimately show ?thesis
    using assms(2,5) by (simp add: deserialize_with_metadata_def)
qed

lemma envelope_read_back:
  assumes "tool_laws lib" and "signable lib ser x" and "ser \<noteq> NullSerializer" and "lasts e" and "purpose_ok p"
    and "p \<noteq> None \<or> e \<noteq> None" and "dump lib ser x = Returns t"
  shows "deserialize_with_metadata lib ser (serialize_dumped lib ser t p e) q now decode =
    (if expired_at e now then Inl Expired
     else if purpose_text p \<noteq> purpose_text q then Inl PurposeMismatch else Inr x)"
proof -
  let ?ms = "[(''data'', t, x)] @
      (case e of Some _ \<Rightarrow> [(''exp'', encode_json lib ser (expiry_value lib e), expiry_value lib e)] | None \<Rightarrow> []) @
      (case p of Some _ \<Rightarrow> [(''pur'', encode_json lib ser (purpose_value p), purpose_value p)] | None \<Rightarrow> [])"
  have laws: "json_laws lib" using assms(1) by (simp add: tool_laws_def)
  have x: "json_read lib (json_text lib x) = Some x" "json_depth x < 100"
    using assms(2,3) by (simp_all add: signable_def)
  have t: "json_read lib t = Some x"
    using assms(3,7) x(1) read_encoded(2) [OF laws x(1)] by (cases ser) auto
  have written: "serialize_dumped lib ser t p e = object_text [(''_rails'', object_text (map (\<lambda>(k, t, v). (k, t)) ?ms))]"
    using assms(3,6) by (cases e; cases p) (simp_all add: serialize_dumped_def uses_envelope_def Let_def)
  let ?v = "JObj [(''_rails'', JObj (map (\<lambda>(k, t, v). (k, v)) ?ms))]"
  have read: "json_read lib (serialize_dumped lib ser t p e) = Some ?v"
    unfolding written using json_values_read [OF assms(1,4,5)] t x(2)
    by (intro read_rails [OF laws]; cases e; cases p) (simp_all add: plain_keys read_encoded(1) [OF laws])
  then have "serialize_dumped lib ser t p e \<noteq> []" "hd (serialize_dumped lib ser t p e) \<noteq> CHR 0x04"
    using laws unfolding json_laws_def by blast+
  then have "load lib ser (serialize_dumped lib ser t p e) = Inr ?v"
    using read assms(3) by (cases ser; cases "serialize_dumped lib ser t p e") (auto simp: marshal_signature_def)
  moreover have "open_envelope lib ?v q now =
      (if expired_at e now then Inl Expired
       else if purpose_text p \<noteq> purpose_text q then Inl PurposeMismatch else Inr (JObj (map (\<lambda>(k, t, v). (k, v)) ?ms)))"
    by (rule open_written [OF assms(1,4)]; cases e; cases p) simp_all
  moreover have "\<not> prefix legacy_start (serialize_dumped lib ser t p e)"
    unfolding written by (cases e; cases p) (simp_all add: legacy_start_def object_text_def in_quotes_def)
  ultimately show ?thesis
    by (simp add: deserialize_with_metadata_def)
qed

lemma verify_not_rotating:
  "read_message lib v m q now = r \<Longrightarrow> (\<And>e. r = Inl e \<Longrightarrow> \<not> rotates e) \<Longrightarrow> verify lib v m q now = r"
  by (cases r) (auto simp: verify_def)

text \<open>A message signed with a purpose or an end reads back: as the value that was signed before its
  end, which is cut to milliseconds, for the same purpose; from then on and for every other
  purpose it is refused, and the rotations are not tried.\<close>

lemma signed_message_read_back:
  assumes "tool_laws lib" and "signable lib (ver_serializer v) x" and "lasts e" and "purpose_ok p"
    and "p \<noteq> None \<or> e \<noteq> None"
  shows "\<exists>m. generate lib v x p e = Returns m \<and>
    verify lib v m q now =
      (if expired_at e now then Inl Expired
       else if purpose_text p \<noteq> purpose_text q then Inl PurposeMismatch else Inr x)"
proof -
  obtain t where t: "dump lib (ver_serializer v) x = Returns t"
    using assms(2) by (cases "ver_serializer v") (auto simp: signable_def split: json.splits)
  let ?s = "serialize_dumped lib (ver_serializer v) t p e"
  have gen: "generate lib v x p e = Returns (sign_text lib v ?s)"
    by (simp add: generate_def serialize_with_metadata_def t)
  have "?s \<noteq> []" using assms(5) by (auto simp: serialize_dumped_def object_text_def Let_def)
  note read = read_signed [OF assms(1) this, of v q now]
  have "deserialize_with_metadata lib (ver_serializer v) ?s q now (urlsafe_decode (base64 lib)) =
      (if expired_at e now then Inl Expired
       else if purpose_text p \<noteq> purpose_text q then Inl PurposeMismatch else Inr x)"
  proof (cases "ver_serializer v = NullSerializer")
    case True
    have x: "x = JStr t" "valid_utf8 (text_bytes t)"
      using t assms(2) by (auto simp: True signable_def split: json.splits)
    have "base64_laws (base64 lib)" using assms(1) by (simp add: tool_laws_def)
    from urlsafe_decode_reads_back(1) [OF this] show ?thesis
      unfolding True x(1) by (rule legacy_read_back [OF assms(1) x(2) assms(3,4) _ assms(5)])
  next
    case False
    show ?thesis by (rule envelope_read_back [OF assms(1,2) False assms(3,4,5) t])
  qed
  with read have "read_message lib v (sign_text lib v ?s) q now =
      (if expired_at e now then Inl Expired
       else if purpose_text p \<noteq> purpose_text q then Inl PurposeMismatch else Inr x)" by simp
  then have "verify lib v (sign_text lib v ?s) q now =
      (if expired_at e now then Inl Expired
       else if purpose_text p \<noteq> purpose_text q then Inl PurposeMismatch else Inr x)"
    by (rule verify_not_rotating) (auto simp: rotates_def split: if_splits)
  with gen show ?thesis by blast
qed

text \<open>What was accepted was signed, by the verifier or one of its rotations.\<close>

lemma read_message_signed:
  assumes "read_message lib v m q now = Inr x"
  shows "\<exists>encoded payload. m = encoded @ ''--'' @ hex_digest lib v encoded \<and>
    urlsafe_decode (base64 lib) encoded = Some payload \<and>
    deserialize_with_metadata lib (ver_serializer v) (bytes_text payload) q now (urlsafe_decode (base64 lib)) = Inr x"
proof -
  obtain encoded payload where e: "extract_encoded lib v m = Some encoded" "urlsafe_decode (base64 lib) encoded = Some payload"
    "deserialize_with_metadata lib (ver_serializer v) (bytes_text payload) q now (urlsafe_decode (base64 lib)) = Inr x"
    using assms by (auto simp: read_message_def split: option.splits)
  let ?i = "length m - (hex_length v + 2)"
  have parts: "encoded = take ?i m" "take 2 (drop ?i m) = ''--''" "drop (?i + 2) m = hex_digest lib v encoded"
    using e(1) by (auto simp: extract_encoded_def digest_matches_def Let_def split: if_splits)
  have "m = take ?i m @ take 2 (drop ?i m) @ drop (?i + 2) m"
    by (metis append_take_drop_id drop_drop add.commute)
  then have "m = encoded @ ''--'' @ hex_digest lib v encoded" using parts by metis
  with e(2,3) show ?thesis by blast
qed

lemma read_rotations_from:
  "read_rotations lib ws m q now e = Inr x \<Longrightarrow> \<exists>w \<in> set ws. read_message lib w m q now = Inr x"
  by (induction ws) (auto split: sum.splits if_splits)

subsection \<open>Encrypted messages read back\<close>

definition cipher_laws :: "tools \<Rightarrow> bool" where
  "cipher_laws lib \<longleftrightarrow>
     (\<forall>k iv bs. length k = 32 \<and> length iv = 12 \<longrightarrow>
        unseal lib k iv (seal lib k iv bs) = Some bs \<and> length (seal lib k iv bs) = length bs + 16) \<and>
     (\<forall>bs. length (std_encode (base64 lib) bs) = 4 * ((length bs + 2) div 3)) \<and>
     (\<forall>salt n. length (derive_key lib salt n) = n)"

lemma decrypt_encrypted:
  assumes "tool_laws lib" and "cipher_laws lib" and "length key = 32" and "length iv = 12"
  shows "decrypt_message lib key (encrypt_with_iv lib key t iv) = Some (text_bytes t)"
proof -
  let ?s = "seal lib key iv (text_bytes t)"
  let ?n = "length ?s - 16"
  have laws: "unseal lib key iv ?s = Some (text_bytes t)" "length ?s = length (text_bytes t) + 16"
    "\<And>bs. length (std_encode (base64 lib) bs) = 4 * ((length bs + 2) div 3)"
    using assms(2-4) unfolding cipher_laws_def by blast+
  have decode: "std_decode (base64 lib) (std_encode (base64 lib) bs) = Some bs" for bs
    using assms(1) unfolding tool_laws_def base64_laws_def by blast
  have len: "length (std_encode (base64 lib) iv) = 16" "length (std_encode (base64 lib) (drop ?n ?s)) = 24"
    using laws(2,3) assms(4) by simp_all
  have "extract_parts (encrypt_with_iv lib key t iv) =
      Some (std_encode (base64 lib) (take ?n ?s), std_encode (base64 lib) iv, std_encode (base64 lib) (drop ?n ?s))"
    by (simp add: encrypt_with_iv_def extract_parts_def Let_def len)
  then show ?thesis
    using laws(1,2) assms(4) by (simp add: decrypt_message_def decode)
qed

lemma encrypted_message_read_back:
  assumes "tool_laws lib" and "cipher_laws lib" and "length key = 32" and "length iv = 12"
    and "signable lib ser x" and "lasts e" and "purpose_ok p" and "p \<noteq> None \<or> e \<noteq> None"
  shows "\<exists>m. encrypt_and_sign lib key ser x p e iv = Returns m \<and>
    decrypt_and_verify lib key ser m q now =
      (if expired_at e now then Inl Expired
       else if purpose_text p \<noteq> purpose_text q then Inl PurposeMismatch else Inr x)"
proof -
  obtain t where t: "dump lib ser x = Returns t"
    using assms(5) by (cases ser) (auto simp: signable_def split: json.splits)
  show ?thesis
  proof (cases "ser = NullSerializer")
    case True
    have x: "x = JStr t" "valid_utf8 (text_bytes t)"
      using t assms(5) by (auto simp: True signable_def split: json.splits)
    have "base64_laws (base64 lib)" using assms(1) by (simp add: tool_laws_def)
    then have "std_decode (base64 lib) (std_encode (base64 lib) (text_bytes t)) = Some (text_bytes t)"
      unfolding base64_laws_def by blast
    from legacy_read_back [where decode = "std_decode (base64 lib)", OF assms(1) x(2) assms(6,7) this assms(8)] show ?thesis
      by (simp add: True x(1) encrypt_and_sign_def serialize_with_metadata_def decrypt_and_verify_def
          decrypt_encrypted [OF assms(1-4)])
  next
    case False
    from envelope_read_back [OF assms(1,5) False assms(6,7,8) t] show ?thesis
      by (simp add: t encrypt_and_sign_def serialize_with_metadata_def decrypt_and_verify_def
          decrypt_encrypted [OF assms(1-4)])
  qed
qed

end
