(* ===== verification/MessageTools.thy ===== *)
theory MessageTools
  imports SignedMessages
begin

section \<open>Libraries to evaluate messages with\<close>

text \<open>
  Concrete libraries that keep the laws of \<open>SignedMessages\<close>: Base64 as the standard writes it, a
  reader for a small part of JSON in which strings are written letter by letter, seconds as
  numbers, and hash functions and a cipher that only have the right lengths.
\<close>

subsection \<open>A part of JSON\<close>

definition letters_value :: "string \<Rightarrow> string option" where
  "letters_value body =
     (case bytes_of_letters body of
        Some bs \<Rightarrow> if letters_of bs = body then Some (bytes_text bs) else None
      | None \<Rightarrow> None)"

definition signed_value :: "string \<Rightarrow> int option" where
  "signed_value body =
     (case body of
        c # ds \<Rightarrow>
          if \<not> list_all is_digit ds then None
          else if c = CHR ''-'' then Some (- int (digits_value 10 ds))
          else if c = CHR ''+'' then Some (int (digits_value 10 ds)) else None
      | [] \<Rightarrow> None)"

fun plain_json :: "json \<Rightarrow> string" where
  "plain_json (JStr s) = in_quotes (letters_of (text_bytes s))"
| "plain_json (JInt n) = ''#'' @ (if n < 0 then ''-'' else ''+'') @ string_of_nat (nat \<bar>n\<bar>) @ ''#''"
| "plain_json JNull = ''null''"
| "plain_json (JObj ms) = object_text (map (\<lambda>(k, v). (k, plain_json v)) ms)"
| "plain_json _ = []"

fun read_value :: "nat \<Rightarrow> string \<Rightarrow> (json \<times> string) option"
  and read_members :: "nat \<Rightarrow> string \<Rightarrow> ((string \<times> json) list \<times> string) option" where
  "read_value 0 t = None"
| "read_value (Suc n) t =
     (case t of
        [] \<Rightarrow> None
      | c # r \<Rightarrow>
          if c = CHR 0x22 then
            (case split_once (CHR 0x22) r of
               Some (body, rest) \<Rightarrow> map_option (\<lambda>s. (JStr s, rest)) (letters_value body)
             | None \<Rightarrow> None)
          else if c = CHR ''#'' then
            (case split_once (CHR ''#'') r of
               Some (body, rest) \<Rightarrow> map_option (\<lambda>i. (JInt i, rest)) (signed_value body)
             | None \<Rightarrow> None)
          else if c = CHR ''{'' then map_option (\<lambda>(ms, rest). (JObj ms, rest)) (read_members n r)
          else if prefix ''null'' t then Some (JNull, drop 4 t)
          else None)"
| "read_members 0 t = None"
| "read_members (Suc n) t =
     (case t of
        [] \<Rightarrow> None
      | c # r \<Rightarrow>
          if c \<noteq> CHR 0x22 then None
          else
            (case split_once (CHR 0x22) r of
               Some (k, e # r1) \<Rightarrow>
                 if e \<noteq> CHR '':'' \<or> \<not> plain_key k then None
                 else
                   (case read_value n r1 of
                      Some (v, d # r2) \<Rightarrow>
                        if d = CHR '','' then map_option (\<lambda>(ms, rest). ((k, v) # ms, rest)) (read_members n r2)
                        else if d = CHR ''}'' then Some ([(k, v)], r2) else None
                    | _ \<Rightarrow> None)
             | _ \<Rightarrow> None))"

definition read_plain :: "string \<Rightarrow> json option" where
  "read_plain t = (case read_value (length t) t of Some (v, []) \<Rightarrow> Some v | _ \<Rightarrow> None)"

text \<open>What was read ends where it ends whatever follows, and has no character to escape.\<close>

definition unescaped :: "string \<Rightarrow> bool" where
  "unescaped t \<longleftrightarrow> set t \<inter> {CHR ''<'', CHR ''>'', CHR ''&''} = {} \<and> list_all is_ascii t"

lemma split_once_iff: "split_once c t = Some (a, b) \<longleftrightarrow> t = a @ c # b \<and> c \<notin> set a"
proof
  assume "split_once c t = Some (a, b)"
  then obtain d where d: "dropWhile (\<lambda>x. x \<noteq> c) t = d # b" "a = takeWhile (\<lambda>x. x \<noteq> c) t"
    by (auto simp: split_once_def split: list.splits)
  then have "d = c" using hd_dropWhile [of "\<lambda>x. x \<noteq> c" t] by simp
  with d show "t = a @ c # b \<and> c \<notin> set a"
    using takeWhile_dropWhile_id [of "\<lambda>x. x \<noteq> c" t] by (auto dest: set_takeWhileD)
next
  assume t: "t = a @ c # b \<and> c \<notin> set a"
  then have "dropWhile (\<lambda>x. x \<noteq> c) (a @ c # b) = c # b" by (subst dropWhile_append2) auto
  moreover have "takeWhile (\<lambda>x. x \<noteq> c) (a @ c # b) = a" using t by (subst takeWhile_append2) auto
  ultimately show "split_once c t = Some (a, b)" using t by (simp add: split_once_def)
qed

lemma letters_unescaped: "letters_value body = Some s \<Longrightarrow> unescaped body"
proof -
  have "c \<notin> {CHR ''<'', CHR ''>'', CHR ''&''} \<and> is_ascii c" if "c \<in> set (letters_of bs)" for c bs
  proof -
    have no: "letter n \<notin> {CHR ''<'', CHR ''>'', CHR ''&''} \<and> is_ascii (letter n)" if "n < 16" for n
    proof
      show "letter n \<notin> {CHR ''<'', CHR ''>'', CHR ''&''}"
      proof
        assume "letter n \<in> {CHR ''<'', CHR ''>'', CHR ''&''}"
        then have "(of_char (letter n) :: nat) \<in> of_char ` {CHR ''<'', CHR ''>'', CHR ''&''}" by blast
        then show False using that by (auto simp: of_letter)
      qed
      show "is_ascii (letter n)" using that by (simp add: is_ascii_def of_letter)
    qed
    show ?thesis using that no [OF unat_div_16] no [of "unat _ mod 16"] by (auto simp: letters_of_def is_ascii_def)
  qed
  then show "letters_value body = Some s \<Longrightarrow> unescaped body"
    by (fastforce simp: letters_value_def unescaped_def list_all_iff split: option.splits if_splits)
qed

lemma digits_unescaped: "list_all is_digit ds \<Longrightarrow> unescaped ds"
  by (induction ds) (auto simp: unescaped_def is_digit_def is_ascii_def)

lemma signed_unescaped: "signed_value body = Some n \<Longrightarrow> unescaped body"
  using digits_unescaped by (auto simp: signed_value_def unescaped_def is_ascii_def split: list.splits if_splits)

lemma key_unescaped: "plain_key k \<Longrightarrow> unescaped k"
  by (auto simp: plain_key_def unescaped_def list_all_iff is_ascii_def is_alphabetic_def is_upper_def is_lower_def)

lemma unescaped_simps [simp]:
  "unescaped []" "unescaped (c # t) \<longleftrightarrow> c \<notin> {CHR ''<'', CHR ''>'', CHR ''&''} \<and> is_ascii c \<and> unescaped t"
  "unescaped (t @ u) \<longleftrightarrow> unescaped t \<and> unescaped u"
  by (auto simp: unescaped_def)

lemma ascii_marks [simp]:
  "is_ascii (CHR 0x22)" "is_ascii (CHR ''#'')" "is_ascii (CHR ''{'')" "is_ascii (CHR ''}'')" "is_ascii (CHR '':'')"
  "is_ascii (CHR '','')" "is_ascii (CHR ''n'')" "is_ascii (CHR ''u'')" "is_ascii (CHR ''l'')"
  by (simp_all add: is_ascii_def)

definition reads_as :: "(nat \<Rightarrow> string \<Rightarrow> ('a \<times> string) option) \<Rightarrow> nat \<Rightarrow> string \<Rightarrow> 'a \<Rightarrow> bool" where
  "reads_as rd n u v \<longleftrightarrow> u \<noteq> [] \<and> unescaped u \<and> (\<forall>m \<ge> n. \<forall>s. rd m (u @ s) = Some (v, s))"

lemma reads_asI:
  "u \<noteq> [] \<Longrightarrow> unescaped u \<Longrightarrow> (\<And>m s. n \<le> m \<Longrightarrow> rd (Suc m) (u @ s) = Some (v, s)) \<Longrightarrow> reads_as rd (Suc n) u v"
  unfolding reads_as_def
proof (intro conjI allI impI)
  fix m s assume rd: "\<And>m s. n \<le> m \<Longrightarrow> rd (Suc m) (u @ s) = Some (v, s)" and m: "Suc n \<le> m"
  then obtain k where "m = Suc k" "n \<le> k" by (cases m) auto
  with rd show "rd m (u @ s) = Some (v, s)" by simp
qed

lemma reads_asD: "reads_as rd n u v \<Longrightarrow> n \<le> m \<Longrightarrow> rd m (u @ s) = Some (v, s)"
  by (simp add: reads_as_def)

lemma reads_string:
  assumes "letters_value body = Some s"
  shows "reads_as read_value (Suc n) (CHR 0x22 # body @ [CHR 0x22]) (JStr s)"
proof -
  have "CHR 0x22 \<notin> set body"
  proof -
    have "letter k \<noteq> CHR 0x22" if "k < 16" for k
    proof
      assume "letter k = CHR 0x22"
      then have "(of_char (letter k) :: nat) = of_char (CHR 0x22)" by simp
      then show False using that by (simp add: of_letter)
    qed
    then have "CHR 0x22 \<notin> set (letters_of bs)" for bs
      using unat_div_16 by (auto simp: letters_of_def) (metis mod_less_divisor zero_less_numeral)+
    then show ?thesis using assms by (auto simp: letters_value_def split: option.splits if_splits)
  qed
  then have "split_once (CHR 0x22) (body @ CHR 0x22 # t) = Some (body, t)" for t
    by (simp add: split_once_iff)
  then have "read_value (Suc m) ((CHR 0x22 # body @ [CHR 0x22]) @ t) = Some (JStr s, t)" for m t
    using assms by simp
  then show ?thesis using letters_unescaped [OF assms] by (intro reads_asI) simp_all
qed

lemma reads_number:
  assumes "signed_value body = Some i"
  shows "reads_as read_value (Suc n) (''#'' @ body @ ''#'') (JInt i)"
proof -
  have "CHR ''#'' \<notin> set body"
  proof
    assume hash: "CHR ''#'' \<in> set body"
    obtain c ds where "body = c # ds" "list_all is_digit ds" "c = CHR ''-'' \<or> c = CHR ''+''"
      using assms by (auto simp: signed_value_def split: list.splits if_splits)
    with hash have "is_digit (CHR ''#'')" by (auto simp: list_all_iff)
    then show False by (simp add: is_digit_def)
  qed
  then have "split_once (CHR ''#'') (body @ CHR ''#'' # t) = Some (body, t)" for t
    by (simp add: split_once_iff)
  then have "read_value (Suc m) ((''#'' @ body @ ''#'') @ t) = Some (JInt i, t)" for m t
    using assms by simp
  then show ?thesis using signed_unescaped [OF assms] by (intro reads_asI) simp_all
qed

lemma reads_null: "reads_as read_value (Suc n) ''null'' JNull"
  by (rule reads_asI) simp_all

lemma reads_object:
  assumes "reads_as read_members n u ms"
  shows "reads_as read_value (Suc n) (CHR ''{'' # u) (JObj ms)"
  using assms by (intro reads_asI) (simp_all add: reads_as_def)

lemma reads_member:
  assumes "plain_key k" and "reads_as read_value n u v"
  shows "reads_as read_members (Suc n) (in_quotes k @ CHR '':'' # u @ ''}'') [(k, v)]"
    and "reads_as read_members n us ms \<Longrightarrow>
      reads_as read_members (Suc n) (in_quotes k @ CHR '':'' # u @ CHR '','' # us) ((k, v) # ms)"
proof -
  have "CHR 0x22 \<notin> set k"
    using assms(1) by (auto simp: plain_key_def list_all_iff is_alphabetic_def is_upper_def is_lower_def)
  then have key: "split_once (CHR 0x22) (k @ CHR 0x22 # t) = Some (k, t)" for t
    by (simp add: split_once_iff)
  have whole: "unescaped k" "unescaped u" using key_unescaped [OF assms(1)] assms(2) by (simp_all add: reads_as_def)
  show "reads_as read_members (Suc n) (in_quotes k @ CHR '':'' # u @ ''}'') [(k, v)]"
    using whole assms(1) reads_asD [OF assms(2)] by (intro reads_asI) (simp_all add: in_quotes_def key)
  show "reads_as read_members (Suc n) (in_quotes k @ CHR '':'' # u @ CHR '','' # us) ((k, v) # ms)"
    if "reads_as read_members n us ms"
    using whole assms(1) reads_asD [OF assms(2)] that by (intro reads_asI) (simp_all add: in_quotes_def key reads_as_def)
qed

lemma read_shape:
  "(\<forall>t v r. read_value n t = Some (v, r) \<longrightarrow> (\<exists>u. t = u @ r \<and> reads_as read_value n u v)) \<and>
   (\<forall>t ms r. read_members n t = Some (ms, r) \<longrightarrow> (\<exists>u. t = u @ r \<and> reads_as read_members n u ms))"
proof (induction n)
  case (Suc n)
  show ?case
  proof (intro conjI allI impI)
    fix t v r assume read: "read_value (Suc n) t = Some (v, r)"
    obtain c t' where t: "t = c # t'" using read by (cases t) auto
    consider (string) body s where "c = CHR 0x22" "t' = body @ CHR 0x22 # r" "letters_value body = Some s" "v = JStr s"
      | (number) body i where "c = CHR ''#''" "t' = body @ CHR ''#'' # r" "signed_value body = Some i" "v = JInt i"
      | (object) ms where "c = CHR ''{''" "read_members n t' = Some (ms, r)" "v = JObj ms"
      | (null) "prefix ''null'' t" "v = JNull" "r = drop 4 t"
      using read unfolding t
      by (auto simp: split_once_iff split: if_splits option.splits prod.splits)
    then show "\<exists>u. t = u @ r \<and> reads_as read_value (Suc n) u v"
    proof cases
      case string
      with reads_string [OF string(3), of n] show ?thesis by (intro exI [of _ "CHR 0x22 # body @ [CHR 0x22]"]) (simp add: t)
    next
      case number
      with reads_number [OF number(3), of n] show ?thesis by (intro exI [of _ "''#'' @ body @ ''#''"]) (simp add: t)
    next
      case object
      then obtain u where "t' = u @ r" "reads_as read_members n u ms" using Suc.IH by blast
      with object reads_object show ?thesis by (intro exI [of _ "CHR ''{'' # u"]) (simp add: t)
    next
      case null
      then have "t = ''null'' @ r" by (auto simp: prefix_def)
      with null(2) reads_null [of n] show ?thesis by blast
    qed
  next
    fix t ms r assume read: "read_members (Suc n) t = Some (ms, r)"
    obtain k t' v d t2 where t: "t = in_quotes k @ CHR '':'' # t'" "plain_key k" "read_value n t' = Some (v, d # t2)"
      and rest: "d = CHR '','' \<and> (\<exists>ms'. read_members n t2 = Some (ms', r) \<and> ms = (k, v) # ms') \<or>
        d = CHR ''}'' \<and> ms = [(k, v)] \<and> r = t2"
      using read by (auto simp: split_once_iff in_quotes_def split: if_splits option.splits prod.splits list.splits)
    obtain u where u: "t' = u @ d # t2" "reads_as read_value n u v" using Suc.IH t(3) by blast
    show "\<exists>u. t = u @ r \<and> reads_as read_members (Suc n) u ms"
      using rest
    proof (elim disjE conjE exE)
      fix ms' assume more: "d = CHR '',''" "read_members n t2 = Some (ms', r)" "ms = (k, v) # ms'"
      then obtain us where "t2 = us @ r" "reads_as read_members n us ms'" using Suc.IH by blast
      with more reads_member(2) [OF t(2) u(2)] show ?thesis
        by (intro exI [of _ "in_quotes k @ CHR '':'' # u @ CHR '','' # us"]) (simp add: t(1) u(1))
    next
      assume "d = CHR ''}''" "ms = [(k, v)]" "r = t2"
      with reads_member(1) [OF t(2) u(2)] show ?thesis
        by (intro exI [of _ "in_quotes k @ CHR '':'' # u @ ''}''"]) (simp add: t(1) u(1))
    qed
  qed
qed simp

lemma read_plain_as: "read_plain t = Some v \<longleftrightarrow> reads_as read_value (length t) t v"
proof
  assume "read_plain t = Some v"
  then have "read_value (length t) t = Some (v, [])" by (auto simp: read_plain_def split: option.splits list.splits)
  then show "reads_as read_value (length t) t v" using read_shape [of "length t"] by fastforce
next
  assume "reads_as read_value (length t) t v"
  from reads_asD [OF this, of "length t" "[]"] show "read_plain t = Some v" by (simp add: read_plain_def)
qed

lemma reads_as_mono: "reads_as rd n u v \<Longrightarrow> n \<le> m \<Longrightarrow> reads_as rd m u v"
  by (simp add: reads_as_def)

lemma reads_members:
  assumes "ms \<noteq> []" and "list_all (\<lambda>(k, t, v). plain_key k \<and> read_plain t = Some v) ms"
  shows "reads_as read_members (length (join_with '','' (map (\<lambda>(k, t, v). in_quotes k @ '':'' @ t) ms)) + 1)
    (join_with '','' (map (\<lambda>(k, t, v). in_quotes k @ '':'' @ t) ms) @ ''}'') (map (\<lambda>(k, t, v). (k, v)) ms)"
  using assms
proof (induction ms)
  case (Cons m ms)
  obtain k t v where m: "m = (k, t, v)" by (cases m)
  have k: "plain_key k" and t: "reads_as read_value (length t) t v"
    using Cons.prems by (simp_all add: m read_plain_as)
  show ?case
  proof (cases "ms = []")
    case True
    have "reads_as read_value (length k + 3 + length t) t v" using t by (rule reads_as_mono) simp
    from reads_member(1) [OF k this] show ?thesis by (simp add: True m in_quotes_def numeral_eq_Suc add.commute)
  next
    case False
    let ?j = "join_with '','' (map (\<lambda>(k, t, v). in_quotes k @ '':'' @ t) ms)"
    have IH: "reads_as read_members (length ?j + 1) (?j @ ''}'') (map (\<lambda>(k, t, v). (k, v)) ms)"
      using Cons.IH [OF False] Cons.prems by simp
    have "reads_as read_value (length k + 4 + length t + length ?j) t v" using t by (rule reads_as_mono) simp
    from reads_member(2) [OF k this reads_as_mono [OF IH]]
    have "reads_as read_members (Suc (length k + 4 + length t + length ?j)) (in_quotes k @ CHR '':'' # t @ CHR '','' # ?j @ ''}'')
        ((k, v) # map (\<lambda>(k, t, v). (k, v)) ms)" by simp
    moreover have "join_with '','' (map (\<lambda>(k, t, v). in_quotes k @ '':'' @ t) (m # ms)) = in_quotes k @ CHR '':'' # t @ CHR '','' # ?j"
      using False by (cases ms) (simp_all add: m)
    ultimately show ?thesis by (simp add: m in_quotes_def numeral_eq_Suc add.assoc)
  qed
qed simp

subsection \<open>Base64\<close>

definition b64_alphabet :: string where
  "b64_alphabet = ''ABCDEFGHIJKLMNOPQRSTUVWXYZabcdefghijklmnopqrstuvwxyz0123456789+/''"

definition b64_char :: "nat \<Rightarrow> char" where
  "b64_char n = b64_alphabet ! n"

definition b64_value :: "char \<Rightarrow> nat" where
  "b64_value c = length (takeWhile (\<lambda>d. d \<noteq> c) b64_alphabet)"

fun b64_encode :: "byte list \<Rightarrow> string" where
  "b64_encode [] = []"
| "b64_encode [a] = [b64_char (unat a div 4), b64_char (unat a mod 4 * 16), CHR ''='', CHR ''='']"
| "b64_encode [a, b] =
     [b64_char (unat a div 4), b64_char (unat a mod 4 * 16 + unat b div 16), b64_char (unat b mod 16 * 4), CHR ''='']"
| "b64_encode (a # b # c # r) =
     [b64_char (unat a div 4), b64_char (unat a mod 4 * 16 + unat b div 16),
      b64_char (unat b mod 16 * 4 + unat c div 64), b64_char (unat c mod 64)] @ b64_encode r"

fun b64_decode :: "string \<Rightarrow> byte list option" where
  "b64_decode [] = Some []"
| "b64_decode (p # q # r # s # t) =
     (let a = word_of_nat (b64_value p * 4 + b64_value q div 16);
          b = word_of_nat (b64_value q mod 16 * 16 + b64_value r div 4);
          c = word_of_nat (b64_value r mod 4 * 64 + b64_value s)
      in
      if list_ex (\<lambda>d. d \<notin> set b64_alphabet) [p, q] then None
      else if s = CHR ''='' then
        (if t \<noteq> [] then None
         else if r = CHR ''='' then (if b64_value q mod 16 = 0 then Some [a] else None)
         else if r \<notin> set b64_alphabet \<or> b64_value r mod 4 \<noteq> 0 then None
         else Some [a, b])
      else if list_ex (\<lambda>d. d \<notin> set b64_alphabet) [r, s] then None
      else map_option (\<lambda>bs. a # b # c # bs) (b64_decode t))"
| "b64_decode _ = None"

definition b64_engine :: base64_engine where
  "b64_engine = \<lparr>std_encode = b64_encode, std_decode = b64_decode, url_encode_padded = \<lambda>bs. map url_char (b64_encode bs),
     url_encode_unpadded = \<lambda>bs. filter (\<lambda>c. c \<noteq> CHR ''='') (map url_char (b64_encode bs))\<rparr>"

lemma b64_chars:
  assumes "n < 64"
  shows "b64_value (b64_char n) = n" and "b64_char n \<in> set b64_alphabet" and "b64_char n \<noteq> CHR ''=''"
    and "base64_char (b64_char n)" and "b64_char n \<noteq> CHR ''-''" and "b64_char n \<noteq> CHR ''_''"
proof -
  have "\<forall>n \<in> set [0..<64]. b64_value (b64_char n) = n \<and> b64_char n \<in> set b64_alphabet \<and> b64_char n \<noteq> CHR ''='' \<and>
      base64_char (b64_char n) \<and> b64_char n \<noteq> CHR ''-'' \<and> b64_char n \<noteq> CHR ''_''" by code_simp
  moreover have "n \<in> set [0..<64]" using assms by simp
  ultimately show "b64_value (b64_char n) = n" and "b64_char n \<in> set b64_alphabet" and "b64_char n \<noteq> CHR ''=''"
    and "base64_char (b64_char n)" and "b64_char n \<noteq> CHR ''-''" and "b64_char n \<noteq> CHR ''_''" by blast+
qed

text \<open>The sextets of a group of bytes.\<close>

lemma sextets:
  fixes a b c :: byte
  shows "unat a div 4 < 64" "unat a mod 4 * 16 < 64" "unat a mod 4 * 16 + unat b div 16 < 64" "unat b mod 16 * 4 < 64"
    "unat b mod 16 * 4 + unat c div 64 < 64" "unat c mod 64 < 64"
    "unat a mod 4 * 16 div 16 = unat a mod 4" "unat a mod 4 * 16 mod 16 = 0"
    "(unat a mod 4 * 16 + unat b div 16) div 16 = unat a mod 4" "(unat a mod 4 * 16 + unat b div 16) mod 16 = unat b div 16"
    "unat b mod 16 * 4 div 4 = unat b mod 16" "unat b mod 16 * 4 mod 4 = 0"
    "(unat b mod 16 * 4 + unat c div 64) div 4 = unat b mod 16" "(unat b mod 16 * 4 + unat c div 64) mod 4 = unat c div 64"
    "unat b div 16 mod 16 = unat b div 16" "unat c div 64 mod 4 = unat c div 64"
    "unat a div 4 * 4 + unat a mod 4 = unat a" "unat b div 16 * 16 + unat b mod 16 = unat b" "unat c div 64 * 64 + unat c mod 64 = unat c"
proof -
  have "unat x < 2 ^ LENGTH(8)" for x :: byte by (rule unsigned_less)
  then have x: "unat x < 256" for x :: byte by simp
  have "unat a mod 4 < 4" "unat b mod 16 < 16" "unat b div 16 < 16" "unat c div 64 < 4" "unat a div 4 < 64"
    using x by (simp_all add: less_mult_imp_div_less)
  then show "unat a div 4 < 64" "unat a mod 4 * 16 < 64" "unat a mod 4 * 16 + unat b div 16 < 64" "unat b mod 16 * 4 < 64"
    "unat b mod 16 * 4 + unat c div 64 < 64"
    "(unat a mod 4 * 16 + unat b div 16) div 16 = unat a mod 4" "(unat a mod 4 * 16 + unat b div 16) mod 16 = unat b div 16"
    "(unat b mod 16 * 4 + unat c div 64) div 4 = unat b mod 16" "(unat b mod 16 * 4 + unat c div 64) mod 4 = unat c div 64"
    "unat b div 16 mod 16 = unat b div 16" "unat c div 64 mod 4 = unat c div 64"
    by simp_all
qed (simp_all add: div_mult_mod_eq)

lemma b64_decode_encode: "b64_decode (b64_encode bs) = Some bs"
  by (induction bs rule: b64_encode.induct)
    (simp_all add: b64_chars sextets Let_def del: of_nat_add of_nat_mult semiring_1_class.of_nat_simps)

lemma b64_shape:
  "\<exists>body n. b64_encode bs = body @ replicate n (CHR ''='') \<and> n < 4 \<and> set body \<inter> {CHR ''='', CHR ''-'', CHR ''_''} = {} \<and>
    list_all base64_char body \<and> length (b64_encode bs) = 4 * ((length bs + 2) div 3)"
proof (induction bs rule: b64_encode.induct)
  case 1
  show ?case by (intro exI [of _ "[]"] exI [of _ 0]) simp
next
  case (2 a)
  show ?case
    by (intro exI [of _ "[b64_char (unat a div 4), b64_char (unat a mod 4 * 16)]"] exI [of _ 2])
      (simp add: b64_chars sextets numeral_2_eq_2)
next
  case (3 a b)
  show ?case
    by (intro exI [of _ "[b64_char (unat a div 4), b64_char (unat a mod 4 * 16 + unat b div 16), b64_char (unat b mod 16 * 4)]"]
        exI [of _ 1]) (simp add: b64_chars sextets)
next
  case (4 a b c r)
  then obtain body n where "b64_encode r = body @ replicate n (CHR ''='')" "n < 4" "set body \<inter> {CHR ''='', CHR ''-'', CHR ''_''} = {}"
    "list_all base64_char body" "length (b64_encode r) = 4 * ((length r + 2) div 3)" by blast
  moreover have "(5 + length r) div 3 = Suc (Suc (Suc (length r)) div 3)" by presburger
  ultimately show ?case
    by (intro exI [of _ "[b64_char (unat a div 4), b64_char (unat a mod 4 * 16 + unat b div 16),
      b64_char (unat b mod 16 * 4 + unat c div 64), b64_char (unat c mod 64)] @ body"] exI [of _ n])
      (simp add: b64_chars sextets)
qed

lemma b64_engine_laws: "base64_laws b64_engine"
proof -
  have "length (b64_encode bs) mod 4 = 0" "\<exists>body n. b64_encode bs = body @ replicate n (CHR ''='') \<and> n < 4 \<and>
      set body \<inter> {CHR ''='', CHR ''-'', CHR ''_''} = {}" for bs
    using b64_shape [of bs] by auto
  then show ?thesis by (simp add: base64_laws_def b64_engine_def b64_decode_encode)
qed

subsection \<open>The libraries\<close>

definition plain_seconds :: "int \<Rightarrow> string" where
  "plain_seconds s = string_of_nat (nat s)"

definition plain_instant :: "string \<Rightarrow> instant option" where
  "plain_instant t =
     (case split_once (CHR ''.'') t of
        Some (s, m) \<Rightarrow>
          if list_all is_digit s \<and> list_all is_digit (butlast m) \<and> m \<noteq> []
          then Some (int (digits_value 10 s) * 1000000000 + int (digits_value 10 (butlast m)) * 1000000) else None
      | None \<Rightarrow> None)"

definition plain_tools :: tools where
  "plain_tools =
     \<lparr>hmac_sha1 = \<lambda>k x. to_be_bytes 20 (from_be_bytes (k @ x)), hmac_sha256 = \<lambda>k x. to_be_bytes 32 (from_be_bytes (k @ x)),
      derive_key = \<lambda>salt n. to_be_bytes n (from_be_bytes salt),
      seal = \<lambda>k iv bs. bs @ replicate 16 0,
      unseal = \<lambda>k iv bs. if length bs < 16 then None else Some (take (length bs - 16) bs),
      base64 = b64_engine, json_text = plain_json, json_read = read_plain, seconds_text = plain_seconds,
      read_instant = plain_instant\<rparr>"

lemma read_plain_string: "read_plain (plain_json (JStr s)) = Some (JStr s)"
proof -
  have "letters_value (letters_of (text_bytes s)) = Some s" by (simp add: letters_value_def bytes_of_letters_of)
  from reads_string [OF this, of "length (letters_of (text_bytes s)) + 1"] show ?thesis
    by (simp add: read_plain_as in_quotes_def)
qed

lemma read_plain_int: "read_plain (plain_json (JInt n)) = Some (JInt n)"
proof -
  define b where "b = (if n < 0 then ''-'' else ''+'') @ string_of_nat (nat \<bar>n\<bar>)"
  have "signed_value b = Some n"
    using string_of_nat_digits [of "nat \<bar>n\<bar>"] by (cases "n < 0") (simp_all add: b_def signed_value_def)
  from reads_number [OF this, of "length b + 1"]
  have "reads_as read_value (length (''#'' @ b @ ''#'')) (''#'' @ b @ ''#'') (JInt n)" by simp
  moreover have "plain_json (JInt n) = ''#'' @ b @ ''#''" by (simp add: b_def)
  ultimately show ?thesis unfolding read_plain_as by (simp only:)
qed

lemma read_plain_null: "read_plain (plain_json JNull) = Some JNull"
  using reads_null [of 3] by (simp add: read_plain_as numeral_eq_Suc)

lemma escape_unescaped: "unescaped t \<Longrightarrow> json_escape t = t"
  by (induction t) (simp_all add: json_escape_def)

lemma read_plain_escape: "read_plain t = Some v \<Longrightarrow> read_plain (json_escape t) = Some v \<and> t \<noteq> []"
  using escape_unescaped by (auto simp: read_plain_as reads_as_def)

lemma read_plain_valid: "read_plain t = Some v \<Longrightarrow> valid_utf8 (text_bytes t)"
  by (intro ascii_valid) (simp add: read_plain_as reads_as_def unescaped_def)

lemma read_plain_start: "read_plain (c # t) = Some v \<Longrightarrow> c \<noteq> CHR 0x04"
  by (auto simp: read_plain_def split: if_splits)

lemma read_plain_object:
  assumes "ms \<noteq> []" and "list_all (\<lambda>(k, t, v). plain_key k \<and> read_plain t = Some v) ms"
  shows "read_plain (object_text (map (\<lambda>(k, t, v). (k, t)) ms)) = Some (JObj (map (\<lambda>(k, t, v). (k, v)) ms))"
proof -
  have parts: "map (\<lambda>(k, t). in_quotes k @ '':'' @ t) (map (\<lambda>(k, t, v). (k, t)) ms) = map (\<lambda>(k, t, v). in_quotes k @ '':'' @ t) ms"
    by auto
  from reads_object [OF reads_members [OF assms]] show ?thesis
    unfolding read_plain_as object_text_def parts by (simp del: map_map)
qed

lemma three_digits_range:
  assumes "0 \<le> m" and "m < 1000"
  shows "list_all is_digit (three_digits m)" and "digits_value 10 (three_digits m) = nat m"
proof -
  have zeros: "digits_value 10 (replicate n CHR ''0'' @ t) = digits_value 10 t" for n t
    by (induction n) (simp_all add: digits_value_def to_digit_def is_digit_def)
  show "list_all is_digit (three_digits m)"
    using assms string_of_nat_digits [of "nat m"] by (auto simp: three_digits_def Let_def list_all_iff is_digit_def)
  show "digits_value 10 (three_digits m) = nat m"
    using assms zeros by (simp add: three_digits_def Let_def string_of_nat_digits)
qed

lemma digit_texts: "list_all (\<lambda>c. is_digit c \<or> c \<in> {CHR ''.'', CHR ''Z''}) t \<Longrightarrow> valid_utf8 (text_bytes t)"
  by (intro ascii_valid) (auto simp: list_all_iff is_ascii_def is_digit_def)

lemma plain_instant_reads:
  assumes "0 \<le> s" and "0 \<le> m" and "m < 1000"
  shows "plain_instant (plain_seconds s @ ''.'' @ three_digits m @ ''Z'') = Some (s * 1000000000 + m * 1000000)"
    and "valid_utf8 (text_bytes (plain_seconds s @ ''.'' @ three_digits m @ ''Z''))"
proof -
  note ms = three_digits_range [OF assms(2,3)]
  have s: "list_all is_digit (plain_seconds s)" by (simp add: plain_seconds_def string_of_nat_digits)
  then have "CHR ''.'' \<notin> set (plain_seconds s)" by (auto simp: list_all_iff is_digit_def)
  then have "split_once (CHR ''.'') (plain_seconds s @ ''.'' @ three_digits m @ ''Z'') = Some (plain_seconds s, three_digits m @ ''Z'')"
    by (simp add: split_once_iff)
  then show "plain_instant (plain_seconds s @ ''.'' @ three_digits m @ ''Z'') = Some (s * 1000000000 + m * 1000000)"
    using s ms assms by (simp add: plain_instant_def plain_seconds_def)
  show "valid_utf8 (text_bytes (plain_seconds s @ ''.'' @ three_digits m @ ''Z''))"
    using s ms(1) by (intro digit_texts) (auto simp: list_all_iff)
qed

lemma plain_tools_laws: "tool_laws plain_tools" and plain_cipher_laws: "cipher_laws plain_tools"
proof -
  have chars: "list_all base64_char (b64_encode bs)" for bs
  proof -
    have "base64_char (CHR ''='')" by (simp add: base64_char_def)
    then show ?thesis using b64_shape [of bs] by (auto simp: list_all_iff)
  qed
  have "json_laws plain_tools"
    unfolding json_laws_def
  proof (intro conjI allI impI)
    fix ms :: "(string \<times> string \<times> json) list"
    assume ms: "ms \<noteq> [] \<and> distinct (map fst ms) \<and>
      list_all (\<lambda>(k, t, v). plain_key k \<and> json_read plain_tools t = Some v \<and> json_depth v < 120) ms"
    then have "list_all (\<lambda>(k, t, v). plain_key k \<and> read_plain t = Some v) ms"
      by (auto simp: list_all_iff plain_tools_def)
    with ms read_plain_object [of ms]
    show "json_read plain_tools (object_text (map (\<lambda>(k, t, v). (k, t)) ms)) = Some (JObj (map (\<lambda>(k, t, v). (k, v)) ms))"
      by (simp add: plain_tools_def)
  next
    fix t v assume "json_read plain_tools t = Some v"
    then have t: "read_plain t = Some v" by (simp add: plain_tools_def)
    then show "json_read plain_tools (json_escape t) = Some v" "t \<noteq> []" "hd t \<noteq> CHR 0x04" "valid_utf8 (text_bytes t)"
      using read_plain_escape [OF t] read_plain_valid [OF t] read_plain_start [of "hd t" "tl t" v] by (simp_all add: plain_tools_def)
  qed (use read_plain_string read_plain_int read_plain_null in
      \<open>simp_all add: plain_tools_def in_quotes_def del: plain_json.simps(2,3)\<close>)
  moreover have "instant_laws plain_tools"
    using plain_instant_reads by (simp add: instant_laws_def plain_tools_def)
  ultimately show "tool_laws plain_tools"
    by (simp add: tool_laws_def b64_engine_laws plain_tools_def chars) (simp add: b64_engine_def chars)
  show "cipher_laws plain_tools"
    using b64_shape by (simp add: cipher_laws_def plain_tools_def b64_engine_def) blast
qed

end
