(* ===== verification/SignedTokens.thy ===== *)
theory SignedTokens
  imports MessageTools
begin

section \<open>Signed cookies, ids and tokens\<close>

text \<open>
  \<^verbatim>\<open>crates/rails_compat/src/cookies.rs\<close>, \<^verbatim>\<open>signed_id.rs\<close>, \<^verbatim>\<open>global_id.rs\<close> and \<^verbatim>\<open>verifiers.rs\<close>: what the
  application signs, each under a key of its own and for a purpose.  The secrets are the keys
  that \<^verbatim>\<open>derive_key\<close> of the tools makes of a salt.
\<close>

definition generate_key :: "tools \<Rightarrow> string \<Rightarrow> nat \<Rightarrow> byte list" where
  "generate_key lib salt n = derive_key lib (text_bytes salt) n"

definition app_verifier :: "tools \<Rightarrow> string \<Rightarrow> verifier" where
  "app_verifier lib name = verifier_new (generate_key lib name 64) Sha1 StrictEncoding (JsonWithFallback True)"

definition hours :: "int \<Rightarrow> instant" where
  "hours n = n * 3600 * 1000000000"

subsection \<open>Cookies\<close>

definition signed_cookie_verifier :: "tools \<Rightarrow> verifier" where
  "signed_cookie_verifier lib = verifier_new (generate_key lib ''signed cookie'' 64) Sha1 StrictEncoding NullSerializer"

definition encrypted_cookie_key :: "tools \<Rightarrow> byte list" where
  "encrypted_cookie_key lib = generate_key lib ''authenticated encrypted cookie'' 32"

definition cookie_purpose :: "string \<Rightarrow> string" where
  "cookie_purpose name = ''cookie.'' @ name"

definition sign_cookie :: "tools \<Rightarrow> string \<Rightarrow> string \<Rightarrow> instant option \<Rightarrow> string eval_result" where
  "sign_cookie lib name v expires_at =
     generate lib (signed_cookie_verifier lib) (JStr (active_json lib (JStr v))) (Some (cookie_purpose name)) expires_at"

text \<open>Marshal is not allowed in cookies.\<close>

definition load_dumped :: "tools \<Rightarrow> json \<Rightarrow> json option" where
  "load_dumped lib dumped =
     (case dumped of
        JStr t \<Rightarrow> (case load lib (JsonWithFallback False) t of Inr v \<Rightarrow> Some v | Inl _ \<Rightarrow> None)
      | _ \<Rightarrow> None)"

definition verify_signed_value :: "tools \<Rightarrow> string \<Rightarrow> string \<Rightarrow> instant \<Rightarrow> json option" where
  "verify_signed_value lib name raw now =
     (let v = signed_cookie_verifier lib in
      case verify lib v raw (Some (cookie_purpose name)) now of
        Inr dumped \<Rightarrow> load_dumped lib dumped
      | Inl _ \<Rightarrow> (case verify lib v raw None now of Inr dumped \<Rightarrow> load_dumped lib dumped | Inl _ \<Rightarrow> None))"

definition verify_signed :: "tools \<Rightarrow> string \<Rightarrow> string \<Rightarrow> instant \<Rightarrow> string option" where
  "verify_signed lib name raw now =
     (case verify_signed_value lib name raw now of Some (JStr s) \<Rightarrow> Some s | _ \<Rightarrow> None)"

definition encrypt_cookie :: "tools \<Rightarrow> string \<Rightarrow> json \<Rightarrow> instant option \<Rightarrow> byte list \<Rightarrow> string eval_result" where
  "encrypt_cookie lib name v expires_at iv =
     encrypt_and_sign lib (encrypted_cookie_key lib) NullSerializer (JStr (active_json lib v))
       (Some (cookie_purpose name)) expires_at iv"

definition decrypt_cookie :: "tools \<Rightarrow> string \<Rightarrow> string \<Rightarrow> instant \<Rightarrow> json option" where
  "decrypt_cookie lib name raw now =
     (let read = (\<lambda>purpose. decrypt_and_verify lib (encrypted_cookie_key lib) NullSerializer raw purpose now) in
      case read (Some (cookie_purpose name)) of
        Inr dumped \<Rightarrow> load_dumped lib dumped
      | Inl _ \<Rightarrow> (case read None of Inr dumped \<Rightarrow> load_dumped lib dumped | Inl _ \<Rightarrow> None))"

text \<open>The application's own signed cookies.  Twenty calendar years from now is an argument.\<close>

record signed_cookie =
  sc_name :: string
  sc_value :: string
  sc_expires :: instant
  sc_secure :: bool
  sc_http_only :: bool
  sc_same_site :: string

definition device_id_cookie :: "tools \<Rightarrow> string \<Rightarrow> instant \<Rightarrow> signed_cookie eval_result" where
  "device_id_cookie lib device_id permanent =
     eval_map (\<lambda>v. \<lparr>sc_name = ''device_id'', sc_value = v, sc_expires = permanent, sc_secure = False,
         sc_http_only = True, sc_same_site = ''lax''\<rparr>)
       (sign_cookie lib ''device_id'' device_id (Some permanent))"

definition two_factor_remember_cookie :: "tools \<Rightarrow> string \<Rightarrow> instant \<Rightarrow> signed_cookie eval_result" where
  "two_factor_remember_cookie lib token now =
     (let expires = now + hours (30 * 24) in
      eval_map (\<lambda>v. \<lparr>sc_name = ''two_factor_remember'', sc_value = v, sc_expires = expires, sc_secure = True,
          sc_http_only = True, sc_same_site = ''lax''\<rparr>)
        (sign_cookie lib ''two_factor_remember'' token (Some expires)))"

definition read_device_id :: "tools \<Rightarrow> string \<Rightarrow> instant \<Rightarrow> string option" where
  "read_device_id lib raw now = verify_signed lib ''device_id'' raw now"

definition read_two_factor_remember :: "tools \<Rightarrow> string \<Rightarrow> instant \<Rightarrow> string option" where
  "read_two_factor_remember lib raw now = verify_signed lib ''two_factor_remember'' raw now"

subsection \<open>Signed ids\<close>

fun slashes :: "string \<Rightarrow> string" where
  "slashes (a # b # r) = (if a = CHR '':'' \<and> b = CHR '':'' then CHR ''/'' # slashes r else a # slashes (b # r))"
| "slashes t = t"

fun underscored :: "char option \<Rightarrow> string \<Rightarrow> string" where
  "underscored previous [] = []"
| "underscored previous (c # r) =
     (if is_upper c then
        (let after_lower_or_digit = (case previous of Some p \<Rightarrow> is_lower p \<or> is_digit p | None \<Rightarrow> False);
             acronym_end = (case previous of Some p \<Rightarrow> is_upper p | None \<Rightarrow> False) \<and>
               (case r of n # _ \<Rightarrow> is_lower n | [] \<Rightarrow> False)
         in (if after_lower_or_digit \<or> acronym_end then ''_'' else []) @ [to_lower c])
      else [if c = CHR ''-'' then CHR ''_'' else c]) @ underscored (Some c) r"

definition underscored_name :: "string \<Rightarrow> string" where
  "underscored_name name = underscored None (slashes name)"

definition combine_purposes :: "string \<Rightarrow> string option \<Rightarrow> string" where
  "combine_purposes model_name purpose =
     join_with ''/'' (filter (\<lambda>part. \<not> white_text part)
       [underscored_name model_name, case purpose of Some p \<Rightarrow> p | None \<Rightarrow> []])"

definition signed_id_verifier :: "tools \<Rightarrow> verifier" where
  "signed_id_verifier lib =
     (let secret = generate_key lib ''active_record/signed_id'' 64 in
      fall_back_to (verifier_new secret Sha256 UrlSafe JsonSerializer)
        (verifier_new secret Sha1 StrictEncoding (JsonWithFallback True)))"

definition generate_signed_id :: "tools \<Rightarrow> string \<Rightarrow> int \<Rightarrow> string option \<Rightarrow> instant option \<Rightarrow> string eval_result" where
  "generate_signed_id lib model_name n purpose expires_at =
     generate lib (signed_id_verifier lib) (JInt n) (Some (combine_purposes model_name purpose)) expires_at"

text \<open>\<^verbatim>\<open>str::parse\<close> of an integer of 64 bits: a sign and digits.\<close>

definition parse_i64 :: "string \<Rightarrow> int option" where
  "parse_i64 t =
     (let (negative, ds) = (case t of
          c # r \<Rightarrow> if c = CHR ''-'' then (True, r) else if c = CHR ''+'' then (False, r) else (False, t)
        | [] \<Rightarrow> (False, []));
          n = (if negative then - int (digits_value 10 ds) else int (digits_value 10 ds))
      in if ds = [] \<or> \<not> list_all is_digit ds then None
         else if - (2 ^ 63) \<le> n \<and> n < 2 ^ 63 then Some n else None)"

text \<open>\<^verbatim>\<open>str::trim\<close>: without the longest start and then the longest end that is white space.\<close>

definition trim_white :: "string \<Rightarrow> string" where
  "trim_white t =
     (let u = drop (last (filter (\<lambda>n. white_text (take n t)) [0..<Suc (length t)])) t
      in take (hd (filter (\<lambda>n. white_text (drop n u)) [0..<Suc (length u)])) u)"

definition as_i64 :: "int \<Rightarrow> int option" where
  "as_i64 n = (if - (2 ^ 63) \<le> n \<and> n < 2 ^ 63 then Some n else None)"

definition verify_signed_id :: "tools \<Rightarrow> string \<Rightarrow> string \<Rightarrow> string option \<Rightarrow> instant \<Rightarrow> int option" where
  "verify_signed_id lib model_name signed_id purpose now =
     (case verify lib (signed_id_verifier lib) signed_id (Some (combine_purposes model_name purpose)) now of
        Inr (JInt n) \<Rightarrow> as_i64 n
      | Inr (JStr s) \<Rightarrow> parse_i64 (trim_white s)
      | _ \<Rightarrow> None)"

definition transfer_id :: "tools \<Rightarrow> int \<Rightarrow> instant \<Rightarrow> string eval_result" where
  "transfer_id lib user_id now = generate_signed_id lib ''User'' user_id (Some ''transfer'') (Some (now + hours 4))"

definition verify_transfer_id :: "tools \<Rightarrow> string \<Rightarrow> instant \<Rightarrow> int option" where
  "verify_transfer_id lib signed_id now = verify_signed_id lib ''User'' signed_id (Some ''transfer'') now"

definition avatar_token :: "tools \<Rightarrow> int \<Rightarrow> string eval_result" where
  "avatar_token lib user_id = generate_signed_id lib ''User'' user_id (Some ''avatar'') None"

definition verify_avatar_token :: "tools \<Rightarrow> string \<Rightarrow> instant \<Rightarrow> int option" where
  "verify_avatar_token lib signed_id now = verify_signed_id lib ''User'' signed_id (Some ''avatar'') now"

subsection \<open>Global ids\<close>

record global_id =
  gid_app :: string
  gid_model :: string
  gid_id :: string

definition new_gid :: "string \<Rightarrow> string \<Rightarrow> global_id" where
  "new_gid model_name n = \<lparr>gid_app = ''campfire'', gid_model = model_name, gid_id = n\<rparr>"

definition parse_gid :: "string \<Rightarrow> global_id option" where
  "parse_gid gid =
     (case strip_prefix ''gid://'' gid of
        None \<Rightarrow> None
      | Some rest \<Rightarrow>
          (case split_once (CHR ''/'') (hd (split_on (CHR ''?'') rest)) of
             None \<Rightarrow> None
           | Some (app, path) \<Rightarrow>
               (case split_once (CHR ''/'') path of
                  None \<Rightarrow> None
                | Some (model_name, n) \<Rightarrow>
                    if app = [] \<or> model_name = [] \<or> n = [] then None
                    else Some \<lparr>gid_app = app, gid_model = model_name, gid_id = n\<rparr>)))"

definition gid_text :: "global_id \<Rightarrow> string" where
  "gid_text g = ''gid://'' @ gid_app g @ ''/'' @ gid_model g @ ''/'' @ gid_id g"

definition gid_to_param :: "tools \<Rightarrow> global_id \<Rightarrow> string" where
  "gid_to_param lib g = url_encode_unpadded (base64 lib) (text_bytes (gid_text g))"

definition gid_from_param :: "tools \<Rightarrow> string \<Rightarrow> global_id option" where
  "gid_from_param lib param =
     (case urlsafe_decode (base64 lib) param of
        Some bs \<Rightarrow> if valid_utf8 bs then parse_gid (bytes_text bs) else None
      | None \<Rightarrow> None)"

definition gid_verifier :: "tools \<Rightarrow> verifier" where
  "gid_verifier lib =
     verifier_new (generate_key lib ''signed_global_ids'' 64) Sha1 UrlSafePadded (JsonWithFallback True)"

definition attachable_sgid :: "tools \<Rightarrow> global_id \<Rightarrow> string eval_result" where
  "attachable_sgid lib g =
     generate lib (gid_verifier lib) (JStr (gid_text g @ ''?expires_in'')) (Some ''attachable'') None"

definition sgid :: "tools \<Rightarrow> global_id \<Rightarrow> string \<Rightarrow> instant option \<Rightarrow> string eval_result" where
  "sgid lib g purpose expires_at = generate lib (gid_verifier lib) (JStr (gid_text g)) (Some purpose) expires_at"

definition self_validated :: "tools \<Rightarrow> string \<Rightarrow> string \<Rightarrow> instant \<Rightarrow> json option" where
  "self_validated lib token purpose now =
     (case verify lib (gid_verifier lib) token None now of
        Inr (JObj ms) \<Rightarrow>
          (let gid = (if ruby_to_s lib (map_of ms ''purpose'') = purpose
                      then Some (case map_of ms ''gid'' of Some g \<Rightarrow> g | None \<Rightarrow> JNull) else None)
           in
           case map_of ms ''expires_at'' of
             None \<Rightarrow> gid
           | Some JNull \<Rightarrow> gid
           | Some (JStr e) \<Rightarrow> (case read_instant lib e of Some t \<Rightarrow> if now > t then None else gid | None \<Rightarrow> None)
           | Some _ \<Rightarrow> None)
      | _ \<Rightarrow> None)"

definition locate_signed :: "tools \<Rightarrow> string \<Rightarrow> string \<Rightarrow> instant \<Rightarrow> global_id option" where
  "locate_signed lib token purpose now =
     (let data = (case verify lib (gid_verifier lib) token (Some purpose) now of
          Inr d \<Rightarrow> Some d | Inl _ \<Rightarrow> self_validated lib token purpose now)
      in case data of
        Some (JStr uri) \<Rightarrow> (case parse_gid uri of Some g \<Rightarrow> Some g | None \<Rightarrow> gid_from_param lib uri)
      | _ \<Rightarrow> None)"

text \<open>The fallback for mentions, which reads a signed id without its signature.\<close>

datatype sgid_error = InvalidBase64 | InvalidJson | UnexpectedStructure

fun until_dashes :: "string \<Rightarrow> string" where
  "until_dashes (a # b # r) = (if a = CHR ''-'' \<and> b = CHR ''-'' then [] else a # until_dashes (b # r))"
| "until_dashes t = t"

definition decode_base64 :: "tools \<Rightarrow> string \<Rightarrow> sgid_error + byte list" where
  "decode_base64 lib m =
     (case std_decode (base64 lib) m of
        Some bs \<Rightarrow> Inr bs
      | None \<Rightarrow> (case urlsafe_decode (base64 lib) m of Some bs \<Rightarrow> Inr bs | None \<Rightarrow> Inl InvalidBase64))"

definition dig_rails :: "json \<Rightarrow> sgid_error + (string \<times> json) list option" where
  "dig_rails parsed =
     (case parsed of
        JObj ms \<Rightarrow>
          (case map_of ms ''_rails'' of
             None \<Rightarrow> Inr None
           | Some JNull \<Rightarrow> Inr None
           | Some (JObj rails) \<Rightarrow> Inr (Some rails)
           | Some _ \<Rightarrow> Inl UnexpectedStructure)
      | _ \<Rightarrow> Inl UnexpectedStructure)"

definition truthy :: "json option \<Rightarrow> bool" where
  "truthy v \<longleftrightarrow> v \<notin> {None, Some JNull, Some (JBool False)}"

definition marshaled_gid_at :: "string \<Rightarrow> string option" where
  "marshaled_gid_at t =
     (case strip_prefix ''gid://campfire/'' t of
        None \<Rightarrow> None
      | Some rest \<Rightarrow>
          (case split_once (CHR ''/'') rest of
             None \<Rightarrow> None
           | Some (model_name, r) \<Rightarrow>
               if model_name = [] \<or> takeWhile is_digit r = [] then None
               else Some (''gid://campfire/'' @ model_name @ ''/'' @ takeWhile is_digit r)))"

fun find_marshaled_gid :: "string \<Rightarrow> string option" where
  "find_marshaled_gid [] = None"
| "find_marshaled_gid (c # r) =
     (case marshaled_gid_at (c # r) of Some g \<Rightarrow> Some (lossy_text g) | None \<Rightarrow> find_marshaled_gid r)"

definition gid_in_rails :: "tools \<Rightarrow> (string \<times> json) list option \<Rightarrow> sgid_error + string option" where
  "gid_in_rails lib rails =
     (case rails of
        None \<Rightarrow> Inr None
      | Some ms \<Rightarrow>
          if truthy (map_of ms ''data'') then Inr (as_str (map_of ms ''data''))
          else if truthy (map_of ms ''message'') then
            (case as_str (map_of ms ''message'') of
               None \<Rightarrow> Inl UnexpectedStructure
             | Some d \<Rightarrow> map_sum id (\<lambda>bs. find_marshaled_gid (bytes_text bs)) (decode_base64 lib d))
          else Inr None)"

definition unverified_attachable_user :: "tools \<Rightarrow> string option \<Rightarrow> sgid_error + global_id option" where
  "unverified_attachable_user lib token =
     (if token = None \<or> token = Some [] then Inr None
      else
        (case decode_base64 lib (until_dashes (the token)) of
           Inl e \<Rightarrow> Inl e
         | Inr decoded \<Rightarrow>
             (case json_read lib (bytes_text decoded) of
                None \<Rightarrow> Inl InvalidJson
              | Some parsed \<Rightarrow>
                  (case dig_rails parsed of
                     Inl e \<Rightarrow> Inl e
                   | Inr rails \<Rightarrow>
                       map_sum id
                         (\<lambda>g. case Option.bind g parse_gid of
                            Some gid \<Rightarrow> if gid_model gid = ''User'' then Some gid else None
                          | None \<Rightarrow> None)
                         (gid_in_rails lib rails)))))"

subsection \<open>Named verifiers\<close>

datatype oauth_state = GoogleSignIn | GoogleOAuth | GithubAppOAuth | SlackOAuth

fun verifier_name :: "oauth_state \<Rightarrow> string" where
  "verifier_name GoogleSignIn = ''google_sign_in_state''"
| "verifier_name GoogleOAuth = ''google_oauth_state''"
| "verifier_name GithubAppOAuth = ''github_app_oauth_state''"
| "verifier_name SlackOAuth = ''slack_oauth_state''"

definition generate_state :: "tools \<Rightarrow> oauth_state \<Rightarrow> string \<Rightarrow> string eval_result" where
  "generate_state lib st raw_state = generate lib (app_verifier lib (verifier_name st)) (JStr raw_state) None None"

definition verified_state :: "tools \<Rightarrow> oauth_state \<Rightarrow> string \<Rightarrow> instant \<Rightarrow> json option" where
  "verified_state lib st state now =
     (case verify lib (app_verifier lib (verifier_name st)) state None now of Inr v \<Rightarrow> Some v | Inl _ \<Rightarrow> None)"

definition sign_embed :: "tools \<Rightarrow> string \<Rightarrow> string eval_result" where
  "sign_embed lib url = generate lib (app_verifier lib ''embed_image'') (JStr url) None None"

definition verified_embed :: "tools \<Rightarrow> string \<Rightarrow> instant \<Rightarrow> json option" where
  "verified_embed lib token now =
     (case verify lib (app_verifier lib ''embed_image'') token None now of Inr v \<Rightarrow> Some v | Inl _ \<Rightarrow> None)"

definition reply_token_for :: "tools \<Rightarrow> int \<Rightarrow> int \<Rightarrow> instant \<Rightarrow> string eval_result" where
  "reply_token_for lib bot_id room_id now =
     generate lib (app_verifier lib ''bot_reply'') (JObj [(''bot_id'', JInt bot_id), (''room_id'', JInt room_id)])
       None (Some (now + 15 * 60 * 1000000000))"

definition verify_reply_token :: "tools \<Rightarrow> string \<Rightarrow> string \<Rightarrow> instant \<Rightarrow> json option" where
  "verify_reply_token lib token room_id now =
     (case verify lib (app_verifier lib ''bot_reply'') (ruby_strip token) None now of
        Inr (JObj ms) \<Rightarrow>
          if ruby_to_s lib (map_of ms ''room_id'') = room_id
          then Some (case map_of ms ''bot_id'' of Some b \<Rightarrow> b | None \<Rightarrow> JNull) else None
      | _ \<Rightarrow> None)"

subsection \<open>Cookies read back under their own names\<close>

lemma active_valid:
  assumes "tool_laws lib" and "json_read lib (json_text lib x) = Some x"
  shows "valid_utf8 (text_bytes (active_json lib x))" and "load_dumped lib (JStr (active_json lib x)) = Some x"
proof -
  have laws: "json_laws lib" using assms(1) by (simp add: tool_laws_def)
  have read: "json_read lib (active_json lib x) = Some x" by (rule read_encoded(2) [OF laws assms(2)])
  note whole = read_texts [OF laws this]
  then show "valid_utf8 (text_bytes (active_json lib x))" by blast
  have "load_dumped lib (JStr t) = Some x" if "json_read lib t = Some x" "hd t \<noteq> CHR 0x04" for t
    using that by (cases t) (auto simp: load_dumped_def marshal_signature_def)
  from this [OF read] whole show "load_dumped lib (JStr (active_json lib x)) = Some x" by blast
qed

lemma valid_utf8_append: "list_all is_ascii t \<Longrightarrow> valid_utf8 (text_bytes u) \<Longrightarrow> valid_utf8 (text_bytes (t @ u))"
proof (induction t)
  case (Cons c t)
  then have "(of_char c :: nat) < 128" by (simp add: is_ascii_def)
  then have "(word_of_nat (of_char c) :: byte) < 0x80" by (simp add: word_less_nat_alt unat_of_nat)
  with Cons show ?case by (simp add: text_bytes_def)
qed simp

lemma cookie_purpose_valid: "valid_utf8 (text_bytes name) \<Longrightarrow> purpose_ok (Some (cookie_purpose name))"
proof -
  have "list_all is_ascii ''cookie.''" by code_simp
  then show "valid_utf8 (text_bytes name) \<Longrightarrow> ?thesis"
    unfolding purpose_ok_def cookie_purpose_def option.case by (rule valid_utf8_append)
qed

lemma cookie_purposes [simp]:
  "cookie_purpose a = cookie_purpose b \<longleftrightarrow> a = b" "cookie_purpose a \<noteq> []" "[] \<noteq> cookie_purpose a"
  "purpose_text (Some p) = p" "purpose_text None = []"
  by (simp_all add: cookie_purpose_def purpose_text_def)

lemma signed_cookie_reads:
  assumes "tool_laws lib" and "valid_utf8 (text_bytes v)" and "valid_utf8 (text_bytes name)" and "lasts e"
  shows "\<exists>raw. sign_cookie lib name v e = Returns raw \<and>
    verify_signed lib other raw now = (if expired_at e now \<or> other \<noteq> name then None else Some v)"
proof -
  let ?d = "active_json lib (JStr v)"
  have read: "json_read lib (json_text lib (JStr v)) = Some (JStr v)"
    using assms(1,2) read_string by (simp add: tool_laws_def)
  have "signable lib (ver_serializer (signed_cookie_verifier lib)) (JStr ?d)"
    using active_valid [OF assms(1) read]
    by (simp add: signable_def signed_cookie_verifier_def verifier_new_def)
  note reads = signed_message_read_back [OF assms(1) this assms(4) cookie_purpose_valid [OF assms(3)]]
  obtain raw where raw: "sign_cookie lib name v e = Returns raw"
    using reads [of None now] by (auto simp: sign_cookie_def)
  have "verify lib (signed_cookie_verifier lib) raw q now =
      (if expired_at e now then Inl Expired
       else if cookie_purpose name \<noteq> purpose_text q then Inl PurposeMismatch else Inr (JStr ?d))" for q
    using reads [of q now] raw by (simp add: sign_cookie_def)
  with raw show ?thesis
    using active_valid(2) [OF assms(1) read]
    by (simp add: verify_signed_def verify_signed_value_def Let_def)
qed

lemma encrypted_cookie_reads:
  assumes "tool_laws lib" and "cipher_laws lib" and "length iv = 12" and "json_read lib (json_text lib x) = Some x"
    and "valid_utf8 (text_bytes name)" and "lasts e"
  shows "\<exists>raw. encrypt_cookie lib name x e iv = Returns raw \<and>
    decrypt_cookie lib other raw now = (if expired_at e now \<or> other \<noteq> name then None else Some x)"
proof -
  let ?d = "active_json lib x"
  have key: "length (encrypted_cookie_key lib) = 32"
    using assms(2) by (simp add: cipher_laws_def encrypted_cookie_key_def generate_key_def)
  have sig: "signable lib NullSerializer (JStr ?d)"
    using active_valid [OF assms(1,4)] by (simp add: signable_def)
  have reads: "\<exists>m. encrypt_cookie lib name x e iv = Returns m \<and>
      decrypt_and_verify lib (encrypted_cookie_key lib) NullSerializer m q now =
        (if expired_at e now then Inl Expired
         else if cookie_purpose name \<noteq> purpose_text q then Inl PurposeMismatch else Inr (JStr ?d))" for q
    using encrypted_message_read_back [OF assms(1,2) key assms(3) sig assms(6) cookie_purpose_valid [OF assms(5)], of q now]
    unfolding encrypt_cookie_def cookie_purposes(4) by blast
  obtain raw where raw: "encrypt_cookie lib name x e iv = Returns raw" using reads [of None] by blast
  have "decrypt_and_verify lib (encrypted_cookie_key lib) NullSerializer raw q now =
        (if expired_at e now then Inl Expired
         else if cookie_purpose name \<noteq> purpose_text q then Inl PurposeMismatch else Inr (JStr ?d))" for q
    using reads [of q] unfolding raw by blast
  with raw show ?thesis
    using active_valid(2) [OF assms(1,4)] by (simp add: decrypt_cookie_def Let_def)
qed

subsection \<open>Ids, references and tokens read back\<close>

lemma generated_verifies:
  assumes "tool_laws lib" and "signable lib (ver_serializer v) x" and "lasts e" and "purpose_ok p" and "p \<noteq> None \<or> e \<noteq> None"
  obtains m where "generate lib v x p e = Returns m"
    and "\<And>q now. verify lib v m q now = (if expired_at e now then Inl Expired
       else if purpose_text p \<noteq> purpose_text q then Inl PurposeMismatch else Inr x)"
proof -
  note reads = signed_message_read_back [OF assms]
  obtain m where m: "generate lib v x p e = Returns m" using reads by blast
  have "verify lib v m q now = (if expired_at e now then Inl Expired
       else if purpose_text p \<noteq> purpose_text q then Inl PurposeMismatch else Inr x)" for q now
    using reads [of q now] unfolding m by blast
  with m that show thesis by blast
qed

lemma integer_signable:
  "tool_laws lib \<Longrightarrow> - (2 ^ 63) \<le> n \<Longrightarrow> n < 2 ^ 63 \<Longrightarrow> ser \<noteq> NullSerializer \<Longrightarrow> signable lib ser (JInt n)"
  unfolding tool_laws_def json_laws_def signable_def by auto

lemma signed_id_reads:
  assumes "tool_laws lib" and "- (2 ^ 63) \<le> n" and "n < 2 ^ 63" and "lasts e"
    and "valid_utf8 (text_bytes (combine_purposes m p))"
  obtains t where "generate_signed_id lib m n p e = Returns t"
    and "\<And>m' p' now. verify_signed_id lib m' t p' now =
      (if expired_at e now \<or> combine_purposes m' p' \<noteq> combine_purposes m p then None else Some n)"
proof -
  have ser: "ver_serializer (signed_id_verifier lib) = JsonSerializer"
    by (simp add: signed_id_verifier_def fall_back_to_def verifier_new_def Let_def)
  have "signable lib (ver_serializer (signed_id_verifier lib)) (JInt n)"
    unfolding ser by (rule integer_signable [OF assms(1-3)]) simp
  moreover have "purpose_ok (Some (combine_purposes m p))" using assms(5) by (simp add: purpose_ok_def)
  ultimately obtain t where t: "generate_signed_id lib m n p e = Returns t"
    "\<And>q now. verify lib (signed_id_verifier lib) t q now = (if expired_at e now then Inl Expired
       else if combine_purposes m p \<noteq> purpose_text q then Inl PurposeMismatch else Inr (JInt n))"
    using generated_verifies [OF assms(1) _ assms(4), of "signed_id_verifier lib" "JInt n" "Some (combine_purposes m p)"]
    unfolding generate_signed_id_def cookie_purposes(4) by blast
  have "verify_signed_id lib m' t p' now =
      (if expired_at e now \<or> combine_purposes m' p' \<noteq> combine_purposes m p then None else Some n)" for m' p' now
    using assms(2,3) by (auto simp: verify_signed_id_def t(2) as_i64_def)
  with t(1) that show thesis by blast
qed

lemma user_purposes: "combine_purposes ''User'' (Some ''transfer'') = ''user/transfer''"
  "combine_purposes ''User'' (Some ''avatar'') = ''user/avatar''"
  by code_simp+

lemma gid_reads:
  assumes "gid_app g \<noteq> []" and "gid_model g \<noteq> []" and "gid_id g \<noteq> []"
    and "CHR ''/'' \<notin> set (gid_app g)" and "CHR ''/'' \<notin> set (gid_model g)" and "CHR ''?'' \<notin> set (gid_text g)"
  shows "parse_gid (gid_text g) = Some g" and "parse_gid (gid_text g @ CHR ''?'' # r) = Some g"
proof -
  let ?u = "gid_app g @ CHR ''/'' # gid_model g @ CHR ''/'' # gid_id g"
  have u: "CHR ''?'' \<notin> set ?u" using assms(6) by (simp add: gid_text_def)
  have parts: "split_once (CHR ''/'') ?u = Some (gid_app g, gid_model g @ CHR ''/'' # gid_id g)"
    "split_once (CHR ''/'') (gid_model g @ CHR ''/'' # gid_id g) = Some (gid_model g, gid_id g)"
    using assms(4,5) by (simp_all add: split_once_iff)
  have strip: "strip_prefix ''gid://'' (''gid://'' @ t) = Some t" for t by (simp add: strip_prefix_def)
  show "parse_gid (gid_text g) = Some g" and "parse_gid (gid_text g @ CHR ''?'' # r) = Some g"
    using strip [of ?u] strip [of "?u @ CHR ''?'' # r"] parts assms(1-3) split_on_none [OF u] split_on_append [OF u, of r]
    by (simp_all add: parse_gid_def gid_text_def)
qed

lemma gid_param_reads:
  assumes "base64_laws (base64 lib)" and "valid_utf8 (text_bytes (gid_text g))" and "parse_gid (gid_text g) = Some g"
  shows "gid_from_param lib (gid_to_param lib g) = Some g"
  using urlsafe_decode_reads_back [OF assms(1)] assms(2,3) by (simp add: gid_from_param_def gid_to_param_def)

text \<open>A signed text has no white space around it.\<close>

lemma generated_visible:
  assumes "tool_laws lib" and "p \<noteq> None \<or> e \<noteq> None" and "generate lib v x p e = Returns m"
  shows "list_all visible m" and "m \<noteq> []"
proof -
  obtain t where t: "m = sign_text lib v (serialize_dumped lib (ver_serializer v) t p e)"
    using assms(3) by (auto simp: generate_def serialize_with_metadata_def eval_map_eq_Returns)
  have "serialize_dumped lib (ver_serializer v) t p e \<noteq> []"
    using assms(2) by (auto simp: serialize_dumped_def object_text_def Let_def)
  then have "text_bytes (serialize_dumped lib (ver_serializer v) t p e) \<noteq> []" by (simp add: text_bytes_def)
  moreover have "visible (CHR ''-'')" by (rule visibleI) simp_all
  ultimately show "list_all visible m"
    using payload_encoded(1) [OF assms(1) _ refl, of _ "ver_encoding v"]
    by (simp add: t sign_text_def Let_def hex_digest_def hex_encode_plain)
  show "m \<noteq> []" by (simp add: t sign_text_def Let_def)
qed

lemma strip_around:
  assumes "list_all visible t" and "t \<noteq> []" and "list_all ruby_strip_char a" and "list_all ruby_strip_char b"
  shows "ruby_strip (a @ t @ b) = t"
proof -
  have plain: "dropWhile ruby_strip_char (u @ v) = u @ v" if "list_all visible u" "u \<noteq> []" for u v
    using that by (cases u) (auto simp: ruby_strip_char_def visible_def is_space_def)
  have drop: "dropWhile ruby_strip_char (u @ v) = dropWhile ruby_strip_char v" if "list_all ruby_strip_char u" for u v
    using that by (induction u) auto
  show ?thesis
    using drop [OF assms(3)] plain [OF assms(1,2), of b] drop [of "rev b" "rev t"] plain [of "rev t" "[]"] assms
    by (simp add: ruby_strip_def)
qed

lemma reply_data_signable:
  assumes "tool_laws lib" and "- (2 ^ 63) \<le> b" and "b < 2 ^ 63" and "- (2 ^ 63) \<le> r" and "r < 2 ^ 63"
  shows "signable lib (JsonWithFallback True) (JObj [(''bot_id'', JInt b), (''room_id'', JInt r)])"
proof -
  have laws: "json_laws lib" using assms(1) by (simp add: tool_laws_def)
  have ints: "json_read lib (json_text lib (JInt b)) = Some (JInt b)" "json_read lib (json_text lib (JInt r)) = Some (JInt r)"
    using laws assms(2-5) unfolding json_laws_def by blast+
  have keys: "plain_key ''bot_id''" "plain_key ''room_id''" by code_simp+
  let ?ms = "[(''bot_id'', json_text lib (JInt b), JInt b), (''room_id'', json_text lib (JInt r), JInt r)]"
  have "json_text lib (JObj [(''bot_id'', JInt b), (''room_id'', JInt r)]) = object_text (map (\<lambda>(k, t, v). (k, t)) ?ms)"
    using written_object [OF laws, of "[(''bot_id'', JInt b), (''room_id'', JInt r)]"] keys by simp
  then show ?thesis
    using read_object [OF laws, of ?ms] ints keys by (simp add: signable_def)
qed

text \<open>C?.  A signed cookie reads back as its value under its own name, until the millisecond it expires;
  under any other name, or later, nothing is read.\<close>

theorem signed_cookies_read_back:
  assumes "tool_laws lib" and "valid_utf8 (text_bytes v)" and "valid_utf8 (text_bytes name)" and "lasts e"
  shows "\<exists>raw. sign_cookie lib name v e = Returns raw \<and>
    verify_signed lib other raw now = (if expired_at e now \<or> other \<noteq> name then None else Some v)"
  by (rule signed_cookie_reads [OF assms])

theorem signed_cookies_read_back_witness:
  "\<exists>raw. sign_cookie plain_tools ''device_id'' ''x'' (Some 2000000000) = Returns raw \<and>
    verify_signed plain_tools ''device_id'' raw 1000000000 = Some ''x''"
proof -
  have "valid_utf8 (text_bytes ''x'')" "valid_utf8 (text_bytes ''device_id'')" by code_simp+
  then show ?thesis
    using signed_cookies_read_back [OF plain_tools_laws, of "''x''" "''device_id''" "Some 2000000000" "''device_id''" 1000000000]
    by (simp add: lasts_def last_second_def expired_at_def)
qed

text \<open>C?.  A transfer link signs its user in for four hours, cut to milliseconds, and an avatar token
  names its user at any time; neither is accepted for the other.\<close>

theorem transfer_links_expire:
  assumes "tool_laws lib" and "- (2 ^ 63) \<le> n" and "n < 2 ^ 63" and "lasts (Some (made + hours 4))"
  shows "\<exists>link token. transfer_id lib n made = Returns link \<and> avatar_token lib n = Returns token \<and>
    verify_transfer_id lib link now =
      (if now < made + hours 4 - (made + hours 4) mod 1000000 then Some n else None) \<and>
    verify_avatar_token lib link now = None \<and> verify_transfer_id lib token now = None \<and>
    verify_avatar_token lib token now = Some n"
proof -
  have purposes: "valid_utf8 (text_bytes ''user/transfer'')" "valid_utf8 (text_bytes ''user/avatar'')" by code_simp+
  obtain link where link: "transfer_id lib n made = Returns link"
    "\<And>m' p' now. verify_signed_id lib m' link p' now =
      (if expired_at (Some (made + hours 4)) now \<or> combine_purposes m' p' \<noteq> ''user/transfer'' then None else Some n)"
    using signed_id_reads [OF assms, of "''User''" "Some ''transfer''"] purposes(1) unfolding user_purposes transfer_id_def by blast
  obtain token where token: "avatar_token lib n = Returns token"
    "\<And>m' p' now. verify_signed_id lib m' token p' now =
      (if combine_purposes m' p' \<noteq> ''user/avatar'' then None else Some n)"
    using signed_id_reads [OF assms(1-3), of None "''User''" "Some ''avatar''"] purposes(2)
    unfolding user_purposes avatar_token_def by (auto simp: lasts_def expired_at_def)
  have "verify_transfer_id lib link now =
      (if now < made + hours 4 - (made + hours 4) mod 1000000 then Some n else None)"
    by (auto simp: verify_transfer_id_def link(2) user_purposes expired_at_def)
  moreover have "verify_avatar_token lib link now = None" "verify_transfer_id lib token now = None"
    "verify_avatar_token lib token now = Some n"
    by (simp_all add: verify_avatar_token_def verify_transfer_id_def link(2) token(2) user_purposes)
  ultimately show ?thesis using link(1) token(1) by blast
qed

theorem transfer_links_expire_witness:
  "\<exists>link token. transfer_id plain_tools 7 0 = Returns link \<and> avatar_token plain_tools 7 = Returns token \<and>
    verify_transfer_id plain_tools link 5 = Some 7 \<and>
    verify_avatar_token plain_tools link 5 = None \<and> verify_transfer_id plain_tools token 5 = None \<and>
    verify_avatar_token plain_tools token 5 = Some 7"
  using transfer_links_expire [OF plain_tools_laws, of 7 0 5] by (simp add: lasts_def last_second_def hours_def)

text \<open>C?.  A reply token of a bot is accepted for its own room only, white space around it or not, and for a
  quarter of an hour, and names the bot.\<close>

theorem reply_tokens_read_back:
  assumes "tool_laws lib" and "- (2 ^ 63) \<le> b" and "b < 2 ^ 63" and "- (2 ^ 63) \<le> r" and "r < 2 ^ 63"
    and "lasts (Some (made + 900000000000))" and "list_all ruby_strip_char before" and "list_all ruby_strip_char behind"
  shows "\<exists>token. reply_token_for lib b r made = Returns token \<and>
    verify_reply_token lib (before @ token @ behind) room now =
      (if expired_at (Some (made + 900000000000)) now \<or> room \<noteq> json_text lib (JInt r) then None else Some (JInt b))"
proof -
  let ?v = "app_verifier lib ''bot_reply''" and ?x = "JObj [(''bot_id'', JInt b), (''room_id'', JInt r)]"
  have "signable lib (ver_serializer ?v) ?x"
    using reply_data_signable [OF assms(1-5)] by (simp add: app_verifier_def verifier_new_def)
  moreover have "purpose_ok None" by (simp add: purpose_ok_def)
  ultimately obtain token where token: "generate lib ?v ?x None (Some (made + 900000000000)) = Returns token"
    "\<And>q now. verify lib ?v token q now = (if expired_at (Some (made + 900000000000)) now then Inl Expired
       else if [] \<noteq> purpose_text q then Inl PurposeMismatch else Inr ?x)"
    using generated_verifies [OF assms(1) _ assms(6), of ?v ?x None] unfolding cookie_purposes(5) by blast
  have "list_all visible token" "token \<noteq> []" by (rule generated_visible [OF assms(1) _ token(1)]; simp)+
  then have "ruby_strip (before @ token @ behind) = token"
    by (rule strip_around [OF _ _ assms(7,8)])
  then show ?thesis
    using token by (auto simp: reply_token_for_def verify_reply_token_def)
qed

theorem reply_tokens_read_back_witness:
  "\<exists>token. reply_token_for plain_tools 3 4 0 = Returns token \<and>
    verify_reply_token plain_tools ('' '' @ token @ []) (plain_json (JInt 4)) 5 = Some (JInt 3)"
  using reply_tokens_read_back [OF plain_tools_laws, of 3 4 0 "'' ''" "[]" "plain_json (JInt 4)" 5]
  by (simp add: lasts_def last_second_def expired_at_def ruby_strip_char_def plain_tools_def del: plain_json.simps)

text \<open>C?.  The signed reference of an attachable is located as what it refers to for the purpose of
  attachables, and for no other.\<close>

theorem attachables_located:
  assumes "tool_laws lib" and "valid_utf8 (text_bytes (gid_text g @ ''?expires_in''))"
    and "gid_app g \<noteq> []" and "gid_model g \<noteq> []" and "gid_id g \<noteq> []"
    and "CHR ''/'' \<notin> set (gid_app g)" and "CHR ''/'' \<notin> set (gid_model g)" and "CHR ''?'' \<notin> set (gid_text g)"
  shows "\<exists>t. attachable_sgid lib g = Returns t \<and>
    locate_signed lib t purpose now = (if purpose = ''attachable'' then Some g else None)"
proof -
  let ?v = "gid_verifier lib" and ?x = "JStr (gid_text g @ ''?expires_in'')"
  have laws: "json_laws lib" using assms(1) by (simp add: tool_laws_def)
  have "signable lib (ver_serializer ?v) ?x"
    using read_string [OF laws assms(2)] by (simp add: gid_verifier_def verifier_new_def signable_def)
  moreover have "purpose_ok (Some ''attachable'')" unfolding purpose_ok_def by code_simp
  moreover have "lasts None" by (simp add: lasts_def)
  ultimately obtain t where t: "attachable_sgid lib g = Returns t"
    "\<And>q now. verify lib ?v t q now = (if ''attachable'' \<noteq> purpose_text q then Inl PurposeMismatch else Inr ?x)"
    using generated_verifies [OF assms(1), of ?v ?x None "Some ''attachable''"]
    unfolding attachable_sgid_def cookie_purposes(4) by (auto simp: expired_at_def)
  then show ?thesis
    using gid_reads(2) [OF assms(3-8), of "''expires_in''"] by (simp add: locate_signed_def self_validated_def Let_def)
qed

theorem attachables_located_witness:
  "\<exists>t. attachable_sgid plain_tools (new_gid ''User'' ''1'') = Returns t \<and>
    locate_signed plain_tools t ''attachable'' 5 = Some (new_gid ''User'' ''1'')"
proof -
  have "valid_utf8 (text_bytes (gid_text (new_gid ''User'' ''1'') @ ''?expires_in''))" by code_simp
  then show ?thesis
    using attachables_located [OF plain_tools_laws, of "new_gid ''User'' ''1''" "''attachable''" 5]
    by (simp add: new_gid_def gid_text_def)
qed

text \<open>C?.  Nothing is accepted that was not signed: a message that verifies ends in the keyed hash, under
  the secret of the verifier or of one of its rotations, of the text before it, and its value is
  what that text holds for this purpose and time.\<close>

theorem accepted_messages_are_signed:
  assumes "verify lib v m q now = Inr x"
  shows "\<exists>w \<in> set (v # ver_rotations v). \<exists>encoded payload. m = encoded @ ''--'' @ hex_encode (mac lib w encoded) \<and>
    urlsafe_decode (base64 lib) encoded = Some payload \<and>
    deserialize_with_metadata lib (ver_serializer w) (bytes_text payload) q now (urlsafe_decode (base64 lib)) = Inr x"
proof -
  have "\<exists>w \<in> set (v # ver_rotations v). read_message lib w m q now = Inr x"
    using assms read_rotations_from by (fastforce simp: verify_def split: sum.splits if_splits)
  then show ?thesis using read_message_signed by (fastforce simp: hex_digest_def)
qed

theorem accepted_messages_are_signed_witness:
  "\<exists>m w encoded payload. m = encoded @ ''--'' @ hex_encode (mac plain_tools w encoded) \<and>
    urlsafe_decode (base64 plain_tools) encoded = Some payload \<and>
    deserialize_with_metadata plain_tools (ver_serializer w) (bytes_text payload) (Some ''cookie.a'') 5
      (urlsafe_decode (base64 plain_tools)) = Inr (JStr ''v'')"
proof -
  have "valid_utf8 (text_bytes ''v'')" "valid_utf8 (text_bytes ''cookie.a'')" by code_simp+
  then have "\<exists>m. generate plain_tools (signed_cookie_verifier plain_tools) (JStr ''v'') (Some ''cookie.a'') None = Returns m \<and>
      verify plain_tools (signed_cookie_verifier plain_tools) m (Some ''cookie.a'') 5 = Inr (JStr ''v'')"
    using signed_message_read_back [OF plain_tools_laws, of "signed_cookie_verifier plain_tools" "JStr ''v''" None
        "Some ''cookie.a''" "Some ''cookie.a''" 5]
    by (simp add: signable_def signed_cookie_verifier_def verifier_new_def lasts_def purpose_ok_def expired_at_def)
  then obtain m where "verify plain_tools (signed_cookie_verifier plain_tools) m (Some ''cookie.a'') 5 = Inr (JStr ''v'')"
    by blast
  from accepted_messages_are_signed [OF this] show ?thesis by blast
qed

end
