(* ===== verification/CookieJar.thy ===== *)
theory CookieJar
  imports SignedTokens Uri
begin

section \<open>Cookies\<close>

text \<open>
  \<^verbatim>\<open>crates/kit/src/cookies.rs\<close>: the jar of a request, with its plain, signed and encrypted cookies, the
  headers it writes, and the escaping of values, in \<^verbatim>\<open>rails_compat/src/cookies.rs\<close> and
  \<^verbatim>\<open>params.rs\<close>.  The clock library is a parameter: the instant some calendar years later, and the
  text of an HTTP date.
\<close>

record surroundings =
  web_tools :: tools
  web_now :: instant
  years_from :: "instant \<Rightarrow> int \<Rightarrow> instant"
  httpdate :: "instant \<Rightarrow> string"

subsection \<open>Escaping\<close>

definition stays :: "char \<Rightarrow> bool" where
  "stays c \<longleftrightarrow> is_alphanumeric c \<or> c \<in> {CHR ''*'', CHR ''-'', CHR ''.'', CHR ''_''}"

definition wire_escape :: "string \<Rightarrow> string" where
  "wire_escape raw = concat (map (\<lambda>c.
     if stays c then [c] else if c = CHR '' '' then ''+''
     else [CHR ''%'', hex_upper (of_char c div 16), hex_upper (of_char c mod 16)]) raw)"

fun www_decode :: "string \<Rightarrow> string option" where
  "www_decode [] = Some []"
| "www_decode (c # r) =
     (if c = CHR ''+'' then map_option ((#) (CHR '' '')) (www_decode r)
      else if c = CHR ''%'' then
        (case r of
           a # b # r' \<Rightarrow>
             if is_hexdigit a \<and> is_hexdigit b
             then map_option ((#) (char_of (the (to_digit 16 a) * 16 + the (to_digit 16 b)))) (www_decode r') else None
         | _ \<Rightarrow> None)
      else map_option ((#) c) (www_decode r))"

definition wire_unescape :: "string \<Rightarrow> string" where
  "wire_unescape wire = (case www_decode wire of Some out \<Rightarrow> lossy_text out | None \<Rightarrow> wire)"

subsection \<open>Cookies and the jar\<close>

datatype same_site = SameSiteLax | SameSiteStrict | SameSiteNone

record cookie =
  ck_value :: string
  ck_path :: string
  ck_domain :: "string option"
  ck_expires :: "instant option"
  ck_permanent :: bool
  ck_secure :: bool
  ck_httponly :: bool
  ck_same_site :: "same_site option"
  ck_partitioned :: bool

definition cookie_new :: "string \<Rightarrow> cookie" where
  "cookie_new v =
     \<lparr>ck_value = v, ck_path = ''/'', ck_domain = None, ck_expires = None, ck_permanent = False, ck_secure = False,
      ck_httponly = False, ck_same_site = Some SameSiteLax, ck_partitioned = False\<rparr>"

record delete_options =
  do_path :: string
  do_domain :: "string option"
  do_same_site :: "same_site option"

definition default_delete :: delete_options where
  "default_delete = \<lparr>do_path = ''/'', do_domain = None, do_same_site = Some SameSiteLax\<rparr>"

record jar =
  jar_cookies :: "(string \<times> string) list"
  set_cookies :: "(string \<times> cookie) list"
  delete_cookies :: "(string \<times> delete_options) list"

fun trimmed_parts :: "string list \<Rightarrow> string list" where
  "trimmed_parts [] = []"
| "trimmed_parts (p # ps) = p # map (dropWhile (\<lambda>c. c = CHR '' '')) ps"

fun cookie_parts :: "string list \<Rightarrow> string list \<Rightarrow> (string \<times> string) list" where
  "cookie_parts seen [] = []"
| "cookie_parts seen (part # ps) =
     (if part = [] then cookie_parts seen ps
      else
        (let (k, v) = (case split_once (CHR ''='') part of Some kv \<Rightarrow> kv | None \<Rightarrow> (part, []))
         in if k \<in> set seen then cookie_parts seen ps
            else
              (k, case www_decode v of
                    Some t \<Rightarrow> if valid_utf8 (text_bytes t) then t else v
                  | None \<Rightarrow> v) # cookie_parts (k # seen) ps))"

definition parse_cookie_header :: "string \<Rightarrow> (string \<times> string) list" where
  "parse_cookie_header header = cookie_parts [] (trimmed_parts (split_on (CHR '';'') header))"

fun unseen :: "string list \<Rightarrow> (string \<times> 'a) list \<Rightarrow> (string \<times> 'a) list" where
  "unseen seen [] = []"
| "unseen seen ((k, v) # ps) = (if k \<in> set seen then unseen seen ps else (k, v) # unseen (k # seen) ps)"

definition jar_from_headers :: "string list \<Rightarrow> jar" where
  "jar_from_headers headers =
     \<lparr>jar_cookies = unseen [] (concat (map parse_cookie_header headers)), set_cookies = [], delete_cookies = []\<rparr>"

definition jar_get :: "jar \<Rightarrow> string \<Rightarrow> string option" where
  "jar_get j name = map_of (jar_cookies j) name"

definition jar_contains :: "jar \<Rightarrow> string \<Rightarrow> bool" where
  "jar_contains j name \<longleftrightarrow> jar_get j name \<noteq> None"

definition jar_signed :: "surroundings \<Rightarrow> jar \<Rightarrow> string \<Rightarrow> string option" where
  "jar_signed w j name =
     (case jar_get j name of Some raw \<Rightarrow> verify_signed (web_tools w) name raw (web_now w) | None \<Rightarrow> None)"

definition jar_encrypted :: "surroundings \<Rightarrow> jar \<Rightarrow> string \<Rightarrow> json option" where
  "jar_encrypted w j name =
     (case jar_get j name of Some raw \<Rightarrow> decrypt_cookie (web_tools w) name raw (web_now w) | None \<Rightarrow> None)"

fun upsert :: "(string \<times> 'a) list \<Rightarrow> string \<Rightarrow> 'a \<Rightarrow> (string \<times> 'a) list" where
  "upsert [] name v = [(name, v)]"
| "upsert ((n, x) # r) name v = (if n = name then (n, v) # r else (n, x) # upsert r name v)"

definition resolve_expiry :: "surroundings \<Rightarrow> cookie \<Rightarrow> cookie" where
  "resolve_expiry w c = (if ck_permanent c then c\<lparr>ck_expires := Some (years_from w (web_now w) 20)\<rparr> else c)"

definition write_value :: "jar \<Rightarrow> string \<Rightarrow> cookie \<Rightarrow> jar" where
  "write_value j name c =
     (if jar_get j name \<noteq> Some (ck_value c) \<or> ck_expires c \<noteq> None then
        \<lparr>jar_cookies = upsert (jar_cookies j) name (ck_value c), set_cookies = upsert (set_cookies j) name c,
         delete_cookies = filter (\<lambda>(n, _). n \<noteq> name) (delete_cookies j)\<rparr>
      else j)"

definition jar_set :: "surroundings \<Rightarrow> jar \<Rightarrow> string \<Rightarrow> cookie \<Rightarrow> jar" where
  "jar_set w j name c = write_value j name (resolve_expiry w c)"

definition max_cookie_size :: nat where
  "max_cookie_size = 4096"

definition check_for_overflow :: "string \<Rightarrow> string \<Rightarrow> string + unit" where
  "check_for_overflow name v =
     (let size_total = length name + length v in
      if size_total > max_cookie_size
      then Inl (name @ '' cookie overflowed with size '' @ string_of_nat size_total @ '' bytes'') else Inr ())"

definition write_raw :: "jar \<Rightarrow> string \<Rightarrow> cookie \<Rightarrow> string \<Rightarrow> string + jar" where
  "write_raw j name c raw =
     (case check_for_overflow name raw of Inl e \<Rightarrow> Inl e | Inr _ \<Rightarrow> Inr (write_value j name (c\<lparr>ck_value := raw\<rparr>)))"

definition jar_set_signed :: "surroundings \<Rightarrow> jar \<Rightarrow> string \<Rightarrow> cookie \<Rightarrow> (string + jar) eval_result" where
  "jar_set_signed w j name c0 =
     (let c = resolve_expiry w c0
      in eval_map (write_raw j name c) (sign_cookie (web_tools w) name (ck_value c) (ck_expires c)))"

definition jar_set_encrypted :: "surroundings \<Rightarrow> jar \<Rightarrow> string \<Rightarrow> json \<Rightarrow> cookie \<Rightarrow> byte list \<Rightarrow> (string + jar) eval_result" where
  "jar_set_encrypted w j name v c0 iv =
     (let c = resolve_expiry w c0
      in eval_map (write_raw j name c) (encrypt_cookie (web_tools w) name v (ck_expires c) iv))"

fun remove_first :: "(string \<times> 'a) list \<Rightarrow> string \<Rightarrow> (string \<times> 'a) list" where
  "remove_first [] name = []"
| "remove_first ((n, x) # r) name = (if n = name then r else (n, x) # remove_first r name)"

definition delete_with :: "jar \<Rightarrow> string \<Rightarrow> delete_options \<Rightarrow> jar" where
  "delete_with j name opts =
     (if \<not> jar_contains j name then j
      else j\<lparr>jar_cookies := remove_first (jar_cookies j) name, delete_cookies := upsert (delete_cookies j) name opts\<rparr>)"

definition jar_delete :: "jar \<Rightarrow> string \<Rightarrow> jar" where
  "jar_delete j name = delete_with j name default_delete"

definition is_deleted :: "jar \<Rightarrow> string \<Rightarrow> bool" where
  "is_deleted j name \<longleftrightarrow> list_ex (\<lambda>(n, _). n = name) (delete_cookies j)"

subsection \<open>Headers\<close>

fun same_site_attribute :: "same_site option \<Rightarrow> string" where
  "same_site_attribute None = []"
| "same_site_attribute (Some SameSiteLax) = ''; samesite=lax''"
| "same_site_attribute (Some SameSiteStrict) = ''; samesite=strict''"
| "same_site_attribute (Some SameSiteNone) = ''; samesite=none''"

definition set_cookie_header :: "surroundings \<Rightarrow> string \<Rightarrow> cookie \<Rightarrow> string" where
  "set_cookie_header w name c =
     name @ ''='' @ wire_escape (ck_value c) @
     (case ck_domain c of Some d \<Rightarrow> ''; domain='' @ d | None \<Rightarrow> []) @
     ''; path='' @ ck_path c @
     (case ck_expires c of Some t \<Rightarrow> ''; expires='' @ httpdate w t | None \<Rightarrow> []) @
     (if ck_secure c then ''; secure'' else []) @ (if ck_httponly c then ''; httponly'' else []) @
     same_site_attribute (ck_same_site c) @ (if ck_partitioned c then ''; partitioned'' else [])"

definition delete_cookie_header :: "surroundings \<Rightarrow> string \<Rightarrow> delete_options \<Rightarrow> string" where
  "delete_cookie_header w name opts =
     name @ ''='' @ (case do_domain opts of Some d \<Rightarrow> ''; domain='' @ d | None \<Rightarrow> []) @
     ''; path='' @ do_path opts @ ''; max-age=0; expires='' @ httpdate w 0 @ same_site_attribute (do_same_site opts)"

definition sends :: "bool \<Rightarrow> string \<Rightarrow> cookie \<Rightarrow> bool" where
  "sends ssl host c \<longleftrightarrow> ssl \<or> \<not> ck_secure c \<or> suffix ''.onion'' host"

definition set_cookie_headers :: "surroundings \<Rightarrow> jar \<Rightarrow> bool \<Rightarrow> string \<Rightarrow> string list" where
  "set_cookie_headers w j ssl host =
     map (\<lambda>(name, c). set_cookie_header w name c) (filter (\<lambda>(name, c). sends ssl host c) (set_cookies j)) @
     map (\<lambda>(name, opts). delete_cookie_header w name opts) (delete_cookies j)"

definition signed_cookie_header :: "surroundings \<Rightarrow> signed_cookie \<Rightarrow> string" where
  "signed_cookie_header w c =
     sc_name c @ ''='' @ wire_escape (sc_value c) @ ''; path=/; expires='' @ httpdate w (sc_expires c) @
     (if sc_secure c then ''; secure'' else []) @ (if sc_http_only c then ''; httponly'' else []) @
     ''; samesite='' @ sc_same_site c"

subsection \<open>Values and headers read back\<close>

lemma to_digit_hex_upper: "d < 16 \<Longrightarrow> to_digit 16 (hex_upper d) = Some d"
  by (auto simp: hex_upper_def to_digit_def is_digit_def is_upper_def is_lower_def)

lemma of_char_bound: "(of_char c :: nat) < 256"
  by (metis of_char_mod_256 mod_less_divisor zero_less_numeral)

lemma of_char_half: "of_char c div 16 < (16 :: nat)"
  using of_char_bound [of c] by (intro less_mult_imp_div_less) linarith

lemma char_halves: "char_of (of_char c div 16 * 16 + of_char c mod 16 :: nat) = (c :: char)"
  by simp

lemma www_decode_escape: "www_decode (wire_escape t) = Some t"
proof (induction t)
  case (Cons c t)
  note of_char_half [of c]
  then have "is_hexdigit (hex_upper (of_char c div 16))" "is_hexdigit (hex_upper (of_char c mod 16))"
    "to_digit 16 (hex_upper (of_char c div 16)) = Some (of_char c div 16)"
    "to_digit 16 (hex_upper (of_char c mod 16)) = Some (of_char c mod 16)"
    by (simp_all add: is_hexdigit_def to_digit_hex_upper)
  moreover have "stays c \<Longrightarrow> c \<noteq> CHR ''+'' \<and> c \<noteq> CHR ''%''"
    by (auto simp: stays_def is_alphanumeric_def is_alphabetic_def is_upper_def is_lower_def is_digit_def)
  ultimately show ?case using Cons by (simp add: wire_escape_def char_halves)
qed (simp add: wire_escape_def)

lemma wire_escape_plain: "CHR '';'' \<notin> set (wire_escape t)"
proof -
  have "hex_upper d \<noteq> CHR '';''" if "d < 16" for d
  proof
    assume "hex_upper d = CHR '';''"
    then have "to_digit 16 (CHR '';'') = Some d" using to_digit_hex_upper [OF that] by simp
    then show False by (simp add: to_digit_def is_digit_def is_upper_def is_lower_def)
  qed
  moreover note of_char_half
  moreover have "\<not> stays (CHR '';'')"
    by (simp add: stays_def is_alphanumeric_def is_alphabetic_def is_upper_def is_lower_def is_digit_def)
  ultimately show ?thesis by (auto simp: wire_escape_def) (metis mod_less_divisor zero_less_numeral)+
qed

text \<open>The line a user agent sends, as RFC 6265 has it, with the values as they were set.\<close>

definition cookie_line :: "(string \<times> string) list \<Rightarrow> string" where
  "cookie_line cs = join_with ''; '' (map (\<lambda>(n, v). n @ CHR ''='' # wire_escape v) cs)"

definition cookie_name :: "string \<Rightarrow> bool" where
  "cookie_name n \<longleftrightarrow> n \<noteq> [] \<and> hd n \<noteq> CHR '' '' \<and> CHR '';'' \<notin> set n \<and> CHR ''='' \<notin> set n"

lemma split_parts:
  assumes "list_all (\<lambda>p. CHR '';'' \<notin> set p \<and> (p = [] \<or> hd p \<noteq> CHR '' '')) ps" and "ps \<noteq> []"
  shows "trimmed_parts (split_on (CHR '';'') (join_with ''; '' ps)) = ps \<and>
    map (dropWhile (\<lambda>c. c = CHR '' '')) (split_on (CHR '';'') (CHR '' '' # join_with ''; '' ps)) = ps"
  using assms
proof (induction ps)
  case (Cons p ps)
  have drop: "dropWhile (\<lambda>c. c = CHR '' '') p = p" using Cons.prems by (cases p) auto
  have p: "CHR '';'' \<notin> set p" "CHR '';'' \<notin> set (CHR '' '' # p)" using Cons.prems by auto
  show ?case
  proof (cases "ps = []")
    case True
    then show ?thesis using drop split_on_none [OF p(1)] split_on_none [OF p(2)] by simp
  next
    case False
    then obtain q qs where ps: "ps = q # qs" by (cases ps) auto
    have "map (dropWhile (\<lambda>c. c = CHR '' '')) (split_on (CHR '';'') (CHR '' '' # join_with ''; '' ps)) = ps"
      using Cons False by simp
    then show ?thesis
      using drop split_on_append [OF p(1), of "CHR '' '' # join_with ''; '' ps"]
        split_on_append [OF p(2), of "CHR '' '' # join_with ''; '' ps"] by (simp add: ps)
  qed
qed simp

lemma parts_read:
  assumes "list_all (\<lambda>(n, v). cookie_name n \<and> valid_utf8 (text_bytes v)) cs" and "distinct (map fst cs)"
    and "set (map fst cs) \<inter> set seen = {}"
  shows "cookie_parts seen (map (\<lambda>(n, v). n @ CHR ''='' # wire_escape v) cs) = cs"
  using assms
proof (induction cs arbitrary: seen)
  case (Cons c cs)
  obtain n v where c: "c = (n, v)" by (cases c)
  have "split_once (CHR ''='') (n @ CHR ''='' # wire_escape v) = Some (n, wire_escape v)"
    using Cons.prems(1) by (simp add: split_once_iff cookie_name_def c)
  moreover have "cookie_parts (n # seen) (map (\<lambda>(n, v). n @ CHR ''='' # wire_escape v) cs) = cs"
    using Cons.prems by (intro Cons.IH) (auto simp: c)
  ultimately show ?case using Cons.prems by (auto simp: c www_decode_escape)
qed simp

lemma header_reads:
  assumes "list_all (\<lambda>(n, v). cookie_name n \<and> valid_utf8 (text_bytes v)) cs" and "distinct (map fst cs)"
  shows "parse_cookie_header (cookie_line cs) = cs"
proof (cases "cs = []")
  case True
  then show ?thesis by (simp add: parse_cookie_header_def cookie_line_def)
next
  case False
  let ?ps = "map (\<lambda>(n, v). n @ CHR ''='' # wire_escape v) cs"
  have "list_all (\<lambda>p. CHR '';'' \<notin> set p \<and> (p = [] \<or> hd p \<noteq> CHR '' '')) ?ps"
    using assms(1) wire_escape_plain by (auto simp: list_all_iff cookie_name_def)
  with False show ?thesis
    using parts_read [OF assms, of "[]"] by (simp add: parse_cookie_header_def cookie_line_def split_parts)
qed

lemma unseen_distinct: "distinct (map fst l) \<Longrightarrow> set (map fst l) \<inter> set seen = {} \<Longrightarrow> unseen seen l = l"
  by (induction l arbitrary: seen) auto

lemma unseen_keys: "set (map fst (unseen seen l)) \<inter> set seen = {}"
  by (induction seen l rule: unseen.induct) auto

lemma distinct_unseen: "distinct (map fst (unseen seen l))"
  by (induction seen l rule: unseen.induct) (use unseen_keys in fastforce)+

subsection \<open>The jar and the user agent\<close>

text \<open>What a handler does with the jar.  A cookie that is too large is refused with an error and changes
  nothing.\<close>

datatype jar_op = SetPlain string cookie | SetSigned string cookie
  | SetEncrypted string json cookie "byte list" | Delete string delete_options

fun after_write :: "jar \<Rightarrow> (string + jar) eval_result \<Rightarrow> jar" where
  "after_write j (Returns (Inr j')) = j'"
| "after_write j _ = j"

fun run_op :: "surroundings \<Rightarrow> jar_op \<Rightarrow> jar \<Rightarrow> jar" where
  "run_op w (SetPlain n c) j = jar_set w j n c"
| "run_op w (SetSigned n c) j = after_write j (jar_set_signed w j n c)"
| "run_op w (SetEncrypted n v c iv) j = after_write j (jar_set_encrypted w j n v c iv)"
| "run_op w (Delete n opts) j = delete_with j n opts"

text \<open>The user agent after the response: it applies the headers in their order, for cookies of the whole
  site, and drops the ones that have expired.\<close>

definition after_set :: "instant \<Rightarrow> (string \<rightharpoonup> string) \<Rightarrow> string \<times> cookie \<Rightarrow> (string \<rightharpoonup> string)" where
  "after_set now store nc =
     store(fst nc := (case ck_expires (snd nc) of
       Some t \<Rightarrow> if t \<le> now then None else Some (ck_value (snd nc)) | None \<Rightarrow> Some (ck_value (snd nc))))"

definition after_delete :: "(string \<rightharpoonup> string) \<Rightarrow> string \<times> delete_options \<Rightarrow> (string \<rightharpoonup> string)" where
  "after_delete store no = store(fst no := None)"

definition agent_after :: "surroundings \<Rightarrow> bool \<Rightarrow> string \<Rightarrow> jar \<Rightarrow> (string \<rightharpoonup> string) \<Rightarrow> (string \<rightharpoonup> string)" where
  "agent_after w ssl host j store =
     foldl after_delete
       (foldl (after_set (web_now w)) store (filter (\<lambda>(n, c). sends ssl host c) (set_cookies j)))
       (delete_cookies j)"

text \<open>The jar says what the user agent had before, with the changes on their way to it.\<close>

definition kept :: "surroundings \<Rightarrow> bool \<Rightarrow> string \<Rightarrow> cookie \<Rightarrow> bool" where
  "kept w ssl host c \<longleftrightarrow> sends ssl host c \<and> (\<forall>t. ck_expires c = Some t \<longrightarrow> web_now w < t)"

definition op_kept :: "surroundings \<Rightarrow> bool \<Rightarrow> string \<Rightarrow> jar_op \<Rightarrow> bool" where
  "op_kept w ssl host op = (case op of
     SetPlain n c \<Rightarrow> kept w ssl host (resolve_expiry w c)
   | SetSigned n c \<Rightarrow> kept w ssl host (resolve_expiry w c)
   | SetEncrypted n v c iv \<Rightarrow> kept w ssl host (resolve_expiry w c)
   | Delete n opts \<Rightarrow> True)"

definition jar_agrees :: "surroundings \<Rightarrow> bool \<Rightarrow> string \<Rightarrow> (string \<rightharpoonup> string) \<Rightarrow> jar \<Rightarrow> bool" where
  "jar_agrees w ssl host store j \<longleftrightarrow>
     distinct (map fst (jar_cookies j)) \<and> distinct (map fst (set_cookies j)) \<and>
     list_all (\<lambda>(n, c). kept w ssl host c) (set_cookies j) \<and>
     (\<forall>n. jar_get j n =
       (if n \<in> fst ` set (delete_cookies j) then None
        else case map_of (set_cookies j) n of Some c \<Rightarrow> Some (ck_value c) | None \<Rightarrow> store n))"

lemma upsert_keys: "fst ` set (upsert l n v) = insert n (fst ` set l)"
  by (induction l n v rule: upsert.induct) auto

lemma map_of_upsert: "map_of (upsert l n v) = (map_of l)(n \<mapsto> v)"
  by (induction l n v rule: upsert.induct) (auto simp: fun_eq_iff)

lemma distinct_upsert: "distinct (map fst l) \<Longrightarrow> distinct (map fst (upsert l n v))"
proof (induction l n v rule: upsert.induct)
  case (2 m x r name v)
  then show ?case using upsert_keys [of r name v] by auto
qed simp

lemma upsert_values: "list_all (\<lambda>(n, c). P c) l \<Longrightarrow> P v \<Longrightarrow> list_all (\<lambda>(n, c). P c) (upsert l name v)"
  by (induction l name v rule: upsert.induct) auto

lemma remove_first_keys: "set (remove_first l n) \<subseteq> set l"
  by (induction l n rule: remove_first.induct) auto

lemma map_of_remove_first: "distinct (map fst l) \<Longrightarrow> map_of (remove_first l n) = (map_of l)(n := None)"
  by (induction l n rule: remove_first.induct) (auto simp: fun_eq_iff map_of_eq_None_iff)

lemma distinct_remove_first: "distinct (map fst l) \<Longrightarrow> distinct (map fst (remove_first l n))"
  by (induction l n rule: remove_first.induct) (use remove_first_keys in fastforce)+

lemma write_agrees:
  assumes "jar_agrees w ssl host store j" and "kept w ssl host c"
  shows "jar_agrees w ssl host store (write_value j n c)"
proof (cases "jar_get j n \<noteq> Some (ck_value c) \<or> ck_expires c \<noteq> None")
  case True
  have "fst ` set (filter (\<lambda>(m, _). m \<noteq> n) (delete_cookies j)) = fst ` set (delete_cookies j) - {n}" by force
  with True assms show ?thesis
    by (auto simp: jar_agrees_def write_value_def jar_get_def map_of_upsert distinct_upsert
        intro!: upsert_values [of "kept w ssl host"] split: option.splits)
next
  case False
  then show ?thesis using assms(1) by (auto simp: write_value_def)
qed

lemma delete_agrees:
  assumes "jar_agrees w ssl host store j"
  shows "jar_agrees w ssl host store (delete_with j n opts)"
  using assms upsert_keys [of "delete_cookies j" n opts]
  by (auto simp: jar_agrees_def delete_with_def jar_get_def map_of_remove_first distinct_remove_first)

lemma write_raw_agrees:
  assumes "jar_agrees w ssl host store j" and "kept w ssl host c"
  shows "jar_agrees w ssl host store (after_write j (eval_map (write_raw j n c) m))"
proof -
  have "kept w ssl host (c\<lparr>ck_value := raw\<rparr>)" for raw using assms(2) by (simp add: kept_def sends_def)
  then show ?thesis
    using write_agrees [OF assms(1)] assms(1) by (cases m) (auto simp: write_raw_def split: sum.split)
qed

lemma op_agrees:
  "jar_agrees w ssl host store j \<Longrightarrow> op_kept w ssl host op \<Longrightarrow> jar_agrees w ssl host store (run_op w op j)"
  by (cases op) (simp_all add: op_kept_def jar_set_def jar_set_signed_def jar_set_encrypted_def Let_def
      write_agrees write_raw_agrees delete_agrees)

lemma ops_agree:
  "jar_agrees w ssl host store j \<Longrightarrow> list_all (op_kept w ssl host) ops \<Longrightarrow>
    jar_agrees w ssl host store (fold (run_op w) ops j)"
  by (induction ops arbitrary: j) (auto intro: op_agrees)

lemma received_agrees:
  "jar_agrees w ssl host (map_of (jar_cookies (jar_from_headers hs))) (jar_from_headers hs)"
  by (simp add: jar_agrees_def jar_from_headers_def jar_get_def distinct_unseen)

lemma agent_sets:
  assumes "distinct (map fst l)" and "list_all (\<lambda>(n, c). kept w ssl host c) l"
  shows "foldl (after_set (web_now w)) store l =
    (\<lambda>n. case map_of l n of Some c \<Rightarrow> Some (ck_value c) | None \<Rightarrow> store n)"
  using assms
proof (induction l arbitrary: store)
  case (Cons nc l)
  obtain m c where nc: "nc = (m, c)" by (cases nc)
  have "after_set (web_now w) store nc = store(m \<mapsto> ck_value c)"
    using Cons.prems by (auto simp: after_set_def nc kept_def split: option.splits)
  moreover have "foldl (after_set (web_now w)) (store(m \<mapsto> ck_value c)) l =
      (\<lambda>n. case map_of l n of Some c' \<Rightarrow> Some (ck_value c') | None \<Rightarrow> (store(m \<mapsto> ck_value c)) n)"
    using Cons by simp
  moreover have "map_of l m = None" using Cons.prems by (simp add: nc map_of_eq_None_iff)
  ultimately show ?case by (intro ext) (auto simp: nc split: option.split)
qed simp

lemma agent_deletes: "foldl after_delete store l = (\<lambda>n. if n \<in> fst ` set l then None else store n)"
  by (induction l arbitrary: store) (auto simp: after_delete_def fun_eq_iff)

lemma agreeing_agent:
  assumes "jar_agrees w ssl host store j"
  shows "agent_after w ssl host j store = jar_get j"
proof -
  have "filter (\<lambda>(n, c). sends ssl host c) (set_cookies j) = set_cookies j"
    using assms by (auto simp: jar_agrees_def list_all_iff kept_def intro!: filter_True)
  with assms show ?thesis
    by (auto simp: agent_after_def agent_sets agent_deletes jar_agrees_def fun_eq_iff)
qed

lemma next_jar:
  assumes "list_all (op_kept w ssl host) ops" and "j = fold (run_op w) ops (jar_from_headers hs)"
    and "map_of cs = agent_after w ssl host j (map_of (jar_cookies (jar_from_headers hs)))"
    and "distinct (map fst cs)" and "list_all (\<lambda>(n, v). cookie_name n \<and> valid_utf8 (text_bytes v)) cs"
  shows "jar_get (jar_from_headers [cookie_line cs]) = jar_get j"
proof -
  have "jar_cookies (jar_from_headers [cookie_line cs]) = cs"
    using header_reads [OF assms(5,4)] unseen_distinct [OF assms(4), of "[]"] by (simp add: jar_from_headers_def)
  moreover have "jar_agrees w ssl host (map_of (jar_cookies (jar_from_headers hs))) j"
    unfolding assms(2) by (rule ops_agree [OF received_agrees assms(1)])
  from agreeing_agent [OF this] have "map_of cs = jar_get j" unfolding assms(3) .
  ultimately show ?thesis by (simp add: jar_get_def fun_eq_iff)
qed

text \<open>C?.  Whatever a handler does with the jar, setting plain, signed and encrypted cookies and deleting
  some, in any order and with refused ones in between: when the user agent has applied the headers
  of the response, its next request has the cookies this jar ended with.\<close>

theorem next_request_has_the_jar:
  assumes "list_all (op_kept w ssl host) ops" and "j = fold (run_op w) ops (jar_from_headers hs)"
    and "map_of cs = agent_after w ssl host j (map_of (jar_cookies (jar_from_headers hs)))"
    and "distinct (map fst cs)" and "list_all (\<lambda>(n, v). cookie_name n \<and> valid_utf8 (text_bytes v)) cs"
  shows "jar_get (jar_from_headers [cookie_line cs]) = jar_get j"
  by (rule next_jar [OF assms])

definition example_web :: surroundings where
  "example_web = \<lparr>web_tools = plain_tools, web_now = 1000000000,
     years_from = (\<lambda>t n. t + n * 31536000000000000), httpdate = (\<lambda>t. ''date'')\<rparr>"

theorem next_request_has_the_jar_witness:
  "jar_get (jar_from_headers [cookie_line [(''b'', ''2''), (''c'', ''x y'')]]) =
    jar_get (fold (run_op example_web)
      [SetPlain ''a'' (cookie_new ''1''), SetPlain ''c'' (cookie_new ''x y''), Delete ''a'' default_delete]
      (jar_from_headers [''a=0; b=2'']))"
proof -
  let ?ops = "[SetPlain ''a'' (cookie_new ''1''), SetPlain ''c'' (cookie_new ''x y''), Delete ''a'' default_delete]"
  have hs: "jar_from_headers [''a=0; b=2''] = \<lparr>jar_cookies = [(''a'', ''0''), (''b'', ''2'')], set_cookies = [], delete_cookies = []\<rparr>"
    by code_simp
  have "list_all (op_kept example_web True []) ?ops"
    by (simp add: op_kept_def kept_def sends_def resolve_expiry_def cookie_new_def)
  moreover have "map_of [(''b'', ''2''), (''c'', ''x y'')] =
      agent_after example_web True [] (fold (run_op example_web) ?ops (jar_from_headers [''a=0; b=2'']))
        (map_of (jar_cookies (jar_from_headers [''a=0; b=2''])))"
    unfolding hs
    by (simp add: agent_after_def jar_set_def write_value_def delete_with_def jar_contains_def jar_get_def
        resolve_expiry_def cookie_new_def sends_def after_set_def after_delete_def fun_eq_iff)
  moreover have "list_all (\<lambda>(n, v). cookie_name n \<and> valid_utf8 (text_bytes v)) [(''b'', ''2''), (''c'', ''x y'')]"
    by code_simp
  ultimately show ?thesis by (intro next_request_has_the_jar [OF _ refl]) simp_all
qed

end
