(* ===== verification/WebSession.thy ===== *)
theory WebSession
  imports CookieJar
begin

section \<open>Sessions and the flash\<close>

text \<open>
  \<^verbatim>\<open>crates/kit/src/session.rs\<close>: the session of a request, kept in one encrypted cookie and written only
  when it changed, and the flash in it.  New session ids are random and arguments here.
\<close>

record session_config =
  sess_key :: string
  expire_after_years :: "int option"
  sess_httponly :: bool

definition default_session :: session_config where
  "default_session = \<lparr>sess_key = ''_campfire_session'', expire_after_years = Some 20, sess_httponly = True\<rparr>"

record session =
  sess_config :: session_config
  sess_loaded :: bool
  sess_changed :: bool
  sess_written :: bool
  sess_data :: "(string \<times> json) list"
  sess_cookie :: "(string \<times> json) list option"

definition session_new :: "session_config \<Rightarrow> session" where
  "session_new config =
     \<lparr>sess_config = config, sess_loaded = False, sess_changed = False, sess_written = False, sess_data = [],
      sess_cookie = None\<rparr>"

text \<open>Maps keep the order of their keys; removing a key puts the last one in its place.\<close>

definition swap_remove :: "(string \<times> 'a) list \<Rightarrow> string \<Rightarrow> (string \<times> 'a) list" where
  "swap_remove ms k =
     (if k \<notin> fst ` set ms then ms
      else
        (let i = length (takeWhile (\<lambda>m. fst m \<noteq> k) ms)
         in if i = length ms - 1 then butlast ms else (butlast ms)[i := List.last ms]))"

definition session_cookie_data :: "surroundings \<Rightarrow> jar \<Rightarrow> session \<Rightarrow> (string \<times> json) list" where
  "session_cookie_data w j ss =
     (case sess_cookie ss of
        Some ms \<Rightarrow> ms
      | None \<Rightarrow> (case jar_encrypted w j (sess_key (sess_config ss)) of Some (JObj ms) \<Rightarrow> ms | _ \<Rightarrow> []))"

definition session_load :: "surroundings \<Rightarrow> jar \<Rightarrow> string \<Rightarrow> session \<Rightarrow> session" where
  "session_load w j sid ss =
     (if sess_loaded ss then ss
      else
        (let ms = session_cookie_data w j ss;
             ms' = (if map_of ms ''session_id'' = None \<or> map_of ms ''session_id'' = Some JNull
                    then upsert ms ''session_id'' (JStr sid) else ms)
         in ss\<lparr>sess_data := ms', sess_loaded := True, sess_cookie := Some ms\<rparr>))"

definition session_id :: "session \<Rightarrow> string option" where
  "session_id ss = as_str (map_of (sess_data ss) ''session_id'')"

definition session_public_id :: "surroundings \<Rightarrow> jar \<Rightarrow> session \<Rightarrow> string option \<times> session" where
  "session_public_id w j ss =
     (if sess_written ss then (as_str (map_of (sess_data ss) ''session_id''), ss)
      else
        (let ms = session_cookie_data w j ss
         in (as_str (map_of ms ''session_id''), ss\<lparr>sess_cookie := Some ms\<rparr>)))"

definition session_get :: "session \<Rightarrow> string \<Rightarrow> json option" where
  "session_get ss k = (case map_of (sess_data ss) k of Some JNull \<Rightarrow> None | v \<Rightarrow> v)"

definition session_insert :: "string \<Rightarrow> json \<Rightarrow> session \<Rightarrow> session" where
  "session_insert k v ss =
     (let ss' = ss\<lparr>sess_written := True\<rparr> in
      if map_of (sess_data ss) k \<noteq> Some v
      then ss'\<lparr>sess_data := upsert (sess_data ss) k v, sess_changed := True\<rparr> else ss')"

definition session_remove :: "string \<Rightarrow> session \<Rightarrow> json option \<times> session" where
  "session_remove k ss =
     (let removed = map_of (sess_data ss) k
      in (removed, ss\<lparr>sess_written := True, sess_data := swap_remove (sess_data ss) k,
            sess_changed := sess_changed ss \<or> removed \<noteq> None\<rparr>))"

definition session_reset :: "string \<Rightarrow> session \<Rightarrow> session" where
  "session_reset sid ss =
     ss\<lparr>sess_data := [(''session_id'', JStr sid)], sess_cookie := Some [(''session_id'', JStr sid)],
        sess_loaded := True, sess_changed := True, sess_written := True\<rparr>"

definition not_null :: "(string \<times> json) list \<Rightarrow> (string \<times> json) list" where
  "not_null ms = filter (\<lambda>(k, v). v \<noteq> JNull) ms"

definition session_commit :: "surroundings \<Rightarrow> jar \<Rightarrow> byte list \<Rightarrow> session \<Rightarrow> (string + jar) eval_result" where
  "session_commit w j iv ss =
     (if \<not> sess_changed ss then Returns (Inr j)
      else
        (let ms = not_null (sess_data ss); config = sess_config ss in
         if list_all (\<lambda>(k, v). k = ''session_id'') ms then Returns (Inr (jar_delete j (sess_key config)))
         else
           (let c = (cookie_new [])\<lparr>ck_httponly := sess_httponly config\<rparr>;
                c' = (case expire_after_years config of
                    Some years \<Rightarrow> c\<lparr>ck_expires := Some (years_from w (web_now w) years)\<rparr> | None \<Rightarrow> c)
            in jar_set_encrypted w j (sess_key config) (JObj ms) c' iv)))"

definition preview_commit :: "surroundings \<Rightarrow> jar \<Rightarrow> byte list \<Rightarrow> session \<Rightarrow> (string + jar) eval_result" where
  "preview_commit w j iv ss = session_commit w j iv (ss\<lparr>sess_changed := True\<rparr>)"

subsection \<open>The flash\<close>

record flash =
  flashes :: "(string \<times> json) list"
  discarded :: "string list"

definition empty_flash :: flash where
  "empty_flash = \<lparr>flashes = [], discarded = []\<rparr>"

fun strings_in :: "json option \<Rightarrow> string list" where
  "strings_in (Some (JArr vs)) = List.map_filter (\<lambda>v. as_str (Some v)) vs"
| "strings_in _ = []"

definition flash_from_session :: "json option \<Rightarrow> flash" where
  "flash_from_session stored =
     (case stored of
        Some (JObj ms) \<Rightarrow>
          (let gone = strings_in (map_of ms ''discard'');
               fs = (case map_of ms ''flashes'' of
                   Some (JObj fs) \<Rightarrow> filter (\<lambda>(k, v). k \<notin> set gone) fs | _ \<Rightarrow> [])
           in \<lparr>flashes = fs, discarded = map fst fs\<rparr>)
      | _ \<Rightarrow> empty_flash)"

definition flash_to_session :: "flash \<Rightarrow> json option" where
  "flash_to_session f =
     (let keep = filter (\<lambda>(k, v). k \<notin> set (discarded f)) (flashes f)
      in if keep = [] then None else Some (JObj [(''discard'', JArr []), (''flashes'', JObj keep)]))"

definition flash_get :: "flash \<Rightarrow> string \<Rightarrow> json option" where
  "flash_get f k = map_of (flashes f) k"

definition flash_set :: "string \<Rightarrow> json \<Rightarrow> flash \<Rightarrow> flash" where
  "flash_set k v f = \<lparr>flashes = upsert (flashes f) k v, discarded = filter (\<lambda>d. d \<noteq> k) (discarded f)\<rparr>"

definition flash_discard :: "string option \<Rightarrow> flash \<Rightarrow> flash" where
  "flash_discard k f =
     (let keys = (case k of Some k \<Rightarrow> [k] | None \<Rightarrow> map fst (flashes f))
      in f\<lparr>discarded := foldl (\<lambda>ds d. if d \<in> set ds then ds else ds @ [d]) (discarded f) keys\<rparr>)"

definition flash_now :: "string \<Rightarrow> json \<Rightarrow> flash \<Rightarrow> flash" where
  "flash_now k v f = flash_discard (Some k) (flash_set k v f)"

definition flash_keep :: "string option \<Rightarrow> flash \<Rightarrow> flash" where
  "flash_keep k f =
     (case k of Some k \<Rightarrow> f\<lparr>discarded := filter (\<lambda>d. d \<noteq> k) (discarded f)\<rparr> | None \<Rightarrow> f\<lparr>discarded := []\<rparr>)"

definition flash_delete :: "string \<Rightarrow> flash \<Rightarrow> flash" where
  "flash_delete k f =
     \<lparr>flashes = filter (\<lambda>(n, v). n \<noteq> k) (flashes f), discarded = filter (\<lambda>d. d \<noteq> k) (discarded f)\<rparr>"

subsection \<open>The session of a request\<close>

text \<open>
  The parts of \<^verbatim>\<open>crates/kit/src/ctx.rs\<close> that keep the session, the flash and the forgery token of one
  request, up to its last step, which writes the cookies.
\<close>

record visit =
  v_jar :: jar
  v_session :: session
  v_flash :: "flash option"
  v_token :: "string option"
  v_fallback :: bool

definition visit_new :: "session_config \<Rightarrow> jar \<Rightarrow> visit" where
  "visit_new config j =
     \<lparr>v_jar = j, v_session = session_new config, v_flash = None, v_token = None, v_fallback = False\<rparr>"

definition visit_session :: "surroundings \<Rightarrow> string \<Rightarrow> visit \<Rightarrow> visit" where
  "visit_session w sid v = v\<lparr>v_session := session_load w (v_jar v) sid (v_session v)\<rparr>"

definition visit_flash :: "surroundings \<Rightarrow> string \<Rightarrow> visit \<Rightarrow> visit" where
  "visit_flash w sid v =
     (case v_flash v of
        Some _ \<Rightarrow> v
      | None \<Rightarrow>
          (let v' = visit_session w sid v
           in v'\<lparr>v_flash := Some (flash_from_session (session_get (v_session v') ''flash''))\<rparr>))"

definition peek_flash :: "surroundings \<Rightarrow> string \<Rightarrow> visit \<Rightarrow> flash \<times> visit" where
  "peek_flash w sid v =
     (case v_flash v of
        Some f \<Rightarrow> (f, v)
      | None \<Rightarrow>
          (let v' = visit_session w sid v in (flash_from_session (session_get (v_session v') ''flash''), v')))"

definition reset_session :: "string \<Rightarrow> visit \<Rightarrow> visit" where
  "reset_session sid v = v\<lparr>v_session := session_reset sid (v_session v), v_flash := None, v_token := None\<rparr>"

definition has_key :: "session \<Rightarrow> string \<Rightarrow> bool" where
  "has_key ss k \<longleftrightarrow> map_of (sess_data ss) k \<noteq> None"

definition flash_value :: "flash \<Rightarrow> json" where
  "flash_value f = (case flash_to_session f of Some x \<Rightarrow> x | None \<Rightarrow> JNull)"

definition commit_flash :: "surroundings \<Rightarrow> string \<Rightarrow> visit \<Rightarrow> visit" where
  "commit_flash w sid v =
     (let v' = (case v_flash v of
          None \<Rightarrow> v
        | Some f \<Rightarrow>
            (let u = visit_session w sid (v\<lparr>v_flash := None\<rparr>) in
             if flashes f \<noteq> [] \<or> has_key (v_session u) ''flash''
             then u\<lparr>v_session := session_insert ''flash'' (flash_value f) (v_session u)\<rparr> else u));
          ss = v_session v'
      in if sess_loaded ss \<and> has_key ss ''flash'' \<and> session_get ss ''flash'' = None
         then v'\<lparr>v_session := snd (session_remove ''flash'' ss)\<rparr> else v')"

definition with_token :: "surroundings \<Rightarrow> string \<Rightarrow> visit \<Rightarrow> visit" where
  "with_token w sid v =
     (case v_token v of
        None \<Rightarrow> v
      | Some t \<Rightarrow>
          (let v' = visit_session w sid v
           in v'\<lparr>v_session := session_insert ''_csrf_token'' (JStr t) (v_session v')\<rparr>))"

text \<open>The headers of the response, or the text of an error.\<close>

definition commit_session :: "surroundings \<Rightarrow> bool \<Rightarrow> string \<Rightarrow> string \<Rightarrow> byte list \<Rightarrow> visit
    \<Rightarrow> (string + string list) eval_result \<times> visit" where
  "commit_session w ssl host sid iv v0 =
     (let v = with_token w sid v0 in
      case session_commit w (v_jar v) iv (v_session v) of
        Panics \<Rightarrow> (Panics, v)
      | Returns (Inl e) \<Rightarrow> (Returns (Inl e), v)
      | Returns (Inr j) \<Rightarrow>
          (let headers = set_cookie_headers w j ssl host; v' = v\<lparr>v_jar := j\<rparr> in
           case find (\<lambda>h. v_fallback v \<and> length h \<ge> max_cookie_size) headers of
             Some h \<Rightarrow>
               (Returns (Inl (''session cookie header overflowed with size '' @ string_of_nat (length h) @ '' bytes'')), v')
           | None \<Rightarrow> (Returns (Inr headers), v')))"

text \<open>The end of a request.  When the session does not fit and there is a response for that, the session
  is reset and the cookies are the ones before it was written.\<close>

definition finish_session :: "surroundings \<Rightarrow> bool \<Rightarrow> string \<Rightarrow> string \<Rightarrow> string \<Rightarrow> byte list \<Rightarrow> byte list \<Rightarrow> visit
    \<Rightarrow> (string + string list) eval_result \<times> visit" where
  "finish_session w ssl host sid sid' iv iv' v0 =
     (let v = commit_flash w sid v0 in
      case commit_session w ssl host sid iv v of
        (Returns (Inl e), v') \<Rightarrow>
          if v_fallback v
          then commit_session w ssl host sid' iv'
            (commit_flash w sid' (reset_session sid' (v'\<lparr>v_fallback := False, v_jar := v_jar v\<rparr>)))
          else (Returns (Inl e), v')
      | r \<Rightarrow> r)"

definition session_cookie_fits :: "surroundings \<Rightarrow> string \<Rightarrow> byte list \<Rightarrow> visit \<Rightarrow> bool \<times> visit" where
  "session_cookie_fits w sid iv v0 =
     (let v = visit_session w sid v0;
          ss = (case v_token v of Some t \<Rightarrow> session_insert ''_csrf_token'' (JStr t) (v_session v) | None \<Rightarrow> v_session v)
      in (case session_commit w (v_jar v) iv ss of Returns (Inr _) \<Rightarrow> True | _ \<Rightarrow> False, v))"

definition fits_with_headroom :: "surroundings \<Rightarrow> bool \<Rightarrow> string \<Rightarrow> string \<Rightarrow> byte list \<Rightarrow> nat \<Rightarrow> visit \<Rightarrow> bool \<times> visit" where
  "fits_with_headroom w ssl host sid iv bytes v0 =
     (let v = visit_session w sid v0;
          s1 = (case v_flash v of Some f \<Rightarrow> session_insert ''flash'' (flash_value f) (v_session v) | None \<Rightarrow> v_session v);
          s2 = (case v_token v of Some t \<Rightarrow> session_insert ''_csrf_token'' (JStr t) s1 | None \<Rightarrow> s1)
      in (case preview_commit w (v_jar v) iv s2 of
            Returns (Inr j) \<Rightarrow> list_all (\<lambda>h. length h + bytes < max_cookie_size) (set_cookie_headers w j ssl host)
          | _ \<Rightarrow> False, v))"

subsection \<open>What reaches the next request\<close>

lemma map_of_filter_key: "map_of (filter (\<lambda>(k, v). P k) l) k = (if P k then map_of l k else None)"
  by (induction l) auto

text \<open>C?.  A message in the flash is there for the next request only: what was not discarded is shown, under
  its last value, and is gone after it unless it is kept, which brings all of it to the one after.\<close>

theorem flash_shown_once:
  "flash_get (flash_from_session (flash_to_session f)) k =
     (if k \<in> set (discarded f) then None else flash_get f k) \<and>
   flash_to_session (flash_from_session (flash_to_session f)) = None \<and>
   flash_to_session (flash_keep None (flash_from_session (flash_to_session f))) = flash_to_session f"
proof -
  define K where "K = filter (\<lambda>(k, v). k \<notin> set (discarded f)) (flashes f)"
  have stored: "flash_to_session f = (if K = [] then None else Some (JObj [(''discard'', JArr []), (''flashes'', JObj K)]))"
    by (simp add: flash_to_session_def K_def Let_def)
  have "filter (\<lambda>(k, v). k \<notin> fst ` set K) K = []" by (force simp: filter_empty_conv)
  moreover have "map_of K k = (if k \<in> set (discarded f) then None else flash_get f k)"
    using map_of_filter_key [of "\<lambda>k. k \<notin> set (discarded f)" "flashes f" k] by (simp add: K_def flash_get_def)
  moreover have "flash_from_session (flash_to_session f) = \<lparr>flashes = K, discarded = map fst K\<rparr>"
    by (simp add: stored flash_from_session_def empty_flash_def List.map_filter_def)
  ultimately show ?thesis
    using stored by (simp add: flash_get_def flash_to_session_def flash_keep_def)
qed

lemma commit_agrees:
  assumes "jar_agrees w ssl host store j" and "session_commit w j iv ss = Returns (Inr j')"
    and "\<And>years. expire_after_years (sess_config ss) = Some years \<Longrightarrow> web_now w < years_from w (web_now w) years"
  shows "jar_agrees w ssl host store j'"
proof -
  define c where "c = (let c = (cookie_new [])\<lparr>ck_httponly := sess_httponly (sess_config ss)\<rparr>
    in case expire_after_years (sess_config ss) of
      Some years \<Rightarrow> c\<lparr>ck_expires := Some (years_from w (web_now w) years)\<rparr> | None \<Rightarrow> c)"
  have "kept w ssl host (resolve_expiry w c)"
    using assms(3) by (simp add: kept_def sends_def resolve_expiry_def c_def cookie_new_def Let_def split: option.split)
  then have "jar_agrees w ssl host store (after_write j (jar_set_encrypted w j n v c iv))" for n v
    using write_raw_agrees [OF assms(1)] by (simp add: jar_set_encrypted_def Let_def)
  moreover have "j' = j \<or> j' = jar_delete j (sess_key (sess_config ss)) \<or>
      j' = after_write j (jar_set_encrypted w j (sess_key (sess_config ss)) (JObj (not_null (sess_data ss))) c iv)"
    using assms(2) by (auto simp: session_commit_def c_def Let_def split: if_splits)
  ultimately show ?thesis using assms(1) delete_agrees [OF assms(1)] by (auto simp: jar_delete_def)
qed

abbreviation bare :: "(string \<times> json) list \<Rightarrow> bool" where
  "bare ms \<equiv> list_all (\<lambda>(k, v). k = ''session_id'') ms"

lemma commit_value:
  assumes "session_commit w j iv ss = Returns (Inr j')" and "sess_changed ss" and "\<not> bare (not_null (sess_data ss))"
  shows "\<exists>raw. encrypt_cookie (web_tools w) (sess_key (sess_config ss)) (JObj (not_null (sess_data ss)))
      (map_option (years_from w (web_now w)) (expire_after_years (sess_config ss))) iv = Returns raw \<and>
    jar_get j' (sess_key (sess_config ss)) = Some raw"
proof -
  define c where "c = (let c = (cookie_new [])\<lparr>ck_httponly := sess_httponly (sess_config ss)\<rparr>
    in case expire_after_years (sess_config ss) of
      Some years \<Rightarrow> c\<lparr>ck_expires := Some (years_from w (web_now w) years)\<rparr> | None \<Rightarrow> c)"
  let ?e = "map_option (years_from w (web_now w)) (expire_after_years (sess_config ss))"
  have c: "resolve_expiry w c = c" "ck_expires c = ?e"
    by (simp_all add: resolve_expiry_def c_def cookie_new_def Let_def split: option.split)
  have "jar_set_encrypted w j (sess_key (sess_config ss)) (JObj (not_null (sess_data ss))) c iv = Returns (Inr j')"
    using assms by (simp add: session_commit_def c_def Let_def)
  then obtain raw where raw: "encrypt_cookie (web_tools w) (sess_key (sess_config ss)) (JObj (not_null (sess_data ss))) ?e iv = Returns raw"
    "write_raw j (sess_key (sess_config ss)) c raw = Inr j'"
    by (auto simp: jar_set_encrypted_def c Let_def eval_map_eq_Returns)
  then have "jar_get j' (sess_key (sess_config ss)) = Some raw"
    by (auto simp: write_raw_def write_value_def jar_get_def map_of_upsert split: sum.splits if_splits)
  with raw(1) show ?thesis by blast
qed

lemma commit_deletes:
  assumes "session_commit w j iv ss = Returns (Inr j')" and "sess_changed ss" and "bare (not_null (sess_data ss))"
    and "distinct (map fst (jar_cookies j))"
  shows "jar_get j' (sess_key (sess_config ss)) = None"
proof -
  have "jar_get (jar_delete j n) n = None" for n
    using assms(4)
    by (cases "map_of (jar_cookies j) n")
      (simp_all add: jar_delete_def delete_with_def jar_contains_def jar_get_def map_of_remove_first)
  moreover have "j' = jar_delete j (sess_key (sess_config ss))"
    using assms(1-3) by (simp add: session_commit_def Let_def)
  ultimately show ?thesis by simp
qed

text \<open>What the next request loads, whose jar has the session cookie of this one.\<close>

lemma loaded_next:
  assumes "tool_laws (web_tools w)" and "cipher_laws (web_tools w)" and "length iv = 12"
    and "session_commit w j iv ss = Returns (Inr j')" and "sess_changed ss" and "distinct (map fst (jar_cookies j))"
    and "expire_after_years (sess_config ss) = Some years" and "lasts (Some (years_from w (web_now w) years))"
    and "valid_utf8 (text_bytes (sess_key (sess_config ss)))"
    and "map_of (not_null (sess_data ss)) ''session_id'' \<noteq> None"
    and "json_read (web_tools w) (json_text (web_tools w) (JObj (not_null (sess_data ss)))) = Some (JObj (not_null (sess_data ss)))"
    and "jar_get j2 (sess_key (sess_config ss)) = jar_get j' (sess_key (sess_config ss))"
    and "web_tools w2 = web_tools w" and "\<not> expired_at (Some (years_from w (web_now w) years)) (web_now w2)"
  shows "sess_data (session_load w2 j2 sid (session_new (sess_config ss))) =
    (if bare (not_null (sess_data ss)) then [(''session_id'', JStr sid)] else not_null (sess_data ss))"
proof (cases "bare (not_null (sess_data ss))")
  case True
  have "jar_get j2 (sess_key (sess_config ss)) = None"
    using commit_deletes [OF assms(4,5) True assms(6)] assms(12) by simp
  then show ?thesis
    using True by (simp add: session_load_def session_new_def session_cookie_data_def jar_encrypted_def Let_def)
next
  case False
  let ?ms = "not_null (sess_data ss)" and ?key = "sess_key (sess_config ss)"
  obtain raw where raw: "encrypt_cookie (web_tools w) ?key (JObj ?ms) (Some (years_from w (web_now w) years)) iv = Returns raw"
    "jar_get j' ?key = Some raw"
    using commit_value [OF assms(4,5) False] by (auto simp: assms(7))
  have "decrypt_cookie (web_tools w) ?key raw (web_now w2) = Some (JObj ?ms)"
    using encrypted_cookie_reads [OF assms(1-3,11,9,8), of ?key "web_now w2"] raw(1) assms(14) by auto
  then have "jar_encrypted w2 j2 ?key = Some (JObj ?ms)"
    using raw(2) assms(12,13) by (simp add: jar_encrypted_def)
  moreover have "map_of ?ms ''session_id'' \<noteq> Some JNull"
    by (auto simp: not_null_def dest: map_of_SomeD)
  ultimately show ?thesis
    using False assms(10) by (auto simp: session_load_def session_new_def session_cookie_data_def Let_def)
qed

text \<open>C?.  A session that changed reaches the next request: whatever the handler did with the cookies, once
  the user agent has applied the headers of the response its next request loads the session's data
  without its nulls, or a session of its own when nothing was left but the id; unless twenty years
  have passed.\<close>

theorem session_reaches_next_request:
  assumes "tool_laws (web_tools w)" and "cipher_laws (web_tools w)" and "length iv = 12"
    and "list_all (op_kept w ssl host) ops"
    and "session_commit w (fold (run_op w) ops (jar_from_headers hs)) iv ss = Returns (Inr j')" and "sess_changed ss"
    and "expire_after_years (sess_config ss) = Some years" and "lasts (Some (years_from w (web_now w) years))"
    and "web_now w < years_from w (web_now w) years" and "valid_utf8 (text_bytes (sess_key (sess_config ss)))"
    and "map_of (not_null (sess_data ss)) ''session_id'' \<noteq> None"
    and "json_read (web_tools w) (json_text (web_tools w) (JObj (not_null (sess_data ss)))) = Some (JObj (not_null (sess_data ss)))"
    and "map_of cs = agent_after w ssl host j' (map_of (jar_cookies (jar_from_headers hs)))"
    and "distinct (map fst cs)" and "list_all (\<lambda>(n, v). cookie_name n \<and> valid_utf8 (text_bytes v)) cs"
    and "web_tools w2 = web_tools w" and "\<not> expired_at (Some (years_from w (web_now w) years)) (web_now w2)"
  shows "sess_data (session_load w2 (jar_from_headers [cookie_line cs]) sid (session_new (sess_config ss))) =
    (if bare (not_null (sess_data ss)) then [(''session_id'', JStr sid)] else not_null (sess_data ss))"
proof -
  let ?j = "fold (run_op w) ops (jar_from_headers hs)" and ?store = "map_of (jar_cookies (jar_from_headers hs))"
  have agrees: "jar_agrees w ssl host ?store ?j" by (rule ops_agree [OF received_agrees assms(4)])
  then have distinct: "distinct (map fst (jar_cookies ?j))" by (simp add: jar_agrees_def)
  have "jar_agrees w ssl host ?store j'"
    by (rule commit_agrees [OF agrees assms(5)]) (use assms(7,9) in simp)
  from agreeing_agent [OF this] have "map_of cs = jar_get j'" unfolding assms(13) .
  then have "jar_get (jar_from_headers [cookie_line cs]) = jar_get j'"
    using header_reads [OF assms(15,14)] unseen_distinct [OF assms(14), of "[]"]
    by (simp add: jar_from_headers_def jar_get_def fun_eq_iff)
  then show ?thesis
    by (intro loaded_next [OF assms(1-3,5,6) distinct assms(7,8,10,11,12) _ assms(16,17)]) simp
qed

subsection \<open>A session carried over\<close>

text \<open>The size of an encrypted cookie under the plain libraries.\<close>

lemma length_plain_string: "length (plain_json (JStr s)) = 4 * length s + 2"
proof -
  have "length (letters_of bs) = 4 * length bs" for bs by (induction bs) (simp_all add: letters_of_def)
  then show ?thesis by (simp add: in_quotes_def text_bytes_def)
qed

lemma plain_active: "read_plain (plain_json x) = Some x \<Longrightarrow> active_json plain_tools x = plain_json x"
  by (simp add: active_json_def plain_tools_def escape_unescaped read_plain_as reads_as_def)

lemma plain_string_active: "active_json plain_tools (JStr s) = plain_json (JStr s)"
  by (rule plain_active [OF read_plain_string])

lemma plain_sealed:
  assumes "length iv = 12"
  shows "length (encrypt_with_iv plain_tools k t iv) = 4 * ((length t + 2) div 3) + 44"
    and "list_all is_ascii (encrypt_with_iv plain_tools k t iv)"
proof -
  have b64: "length (b64_encode bs) = 4 * ((length bs + 2) div 3)" "list_all base64_char (b64_encode bs)" for bs
  proof -
    have "base64_char (CHR ''='')" by (simp add: base64_char_def)
    then show "list_all base64_char (b64_encode bs)" using b64_shape [of bs] by (auto simp: list_all_iff)
    show "length (b64_encode bs) = 4 * ((length bs + 2) div 3)" using b64_shape [of bs] by auto
  qed
  have "is_ascii c" if "base64_char c" for c
    using that by (auto simp: is_ascii_def base64_char_def is_alphanumeric_def is_alphabetic_def is_upper_def is_lower_def is_digit_def)
  then have "list_all is_ascii (b64_encode bs)" for bs using b64(2) [of bs] by (auto simp: list_all_iff)
  moreover have "is_ascii (CHR ''-'')" by (simp add: is_ascii_def)
  ultimately show "list_all is_ascii (encrypt_with_iv plain_tools k t iv)"
    by (simp add: encrypt_with_iv_def plain_tools_def b64_engine_def Let_def)
  show "length (encrypt_with_iv plain_tools k t iv) = 4 * ((length t + 2) div 3) + 44"
    using assms by (simp add: encrypt_with_iv_def plain_tools_def b64_engine_def b64(1) text_bytes_def Let_def)
qed

definition example_data :: "(string \<times> json) list" where
  "example_data = [(''session_id'', JStr ''s''), (''user_id'', JInt 7)]"

definition example_session :: session where
  "example_session = (session_new default_session)\<lparr>sess_loaded := True, sess_changed := True, sess_written := True,
     sess_data := example_data @ [(''flash'', JNull)]\<rparr>"

lemma example_not_null: "not_null (sess_data example_session) = example_data"
  by (simp add: example_session_def example_data_def not_null_def)

lemma example_keys: "plain_key ''session_id''" "plain_key ''user_id''"
  by code_simp+

lemma example_reads: "read_plain (plain_json (JObj example_data)) = Some (JObj example_data)"
proof -
  let ?ms = "[(''session_id'', plain_json (JStr ''s''), JStr ''s''), (''user_id'', plain_json (JInt 7), JInt 7)]"
  have "read_plain (object_text (map (\<lambda>(k, t, v). (k, t)) ?ms)) = Some (JObj (map (\<lambda>(k, t, v). (k, v)) ?ms))"
    using read_plain_string [of "''s''"] read_plain_int [of 7] example_keys
    by (intro read_plain_object) (simp_all del: plain_json.simps(1,2))
  then show ?thesis by (simp add: example_data_def del: plain_json.simps(1,2))
qed

lemma example_raw:
  assumes "length iv = 12"
  obtains raw where "encrypt_cookie plain_tools ''_campfire_session'' (JObj example_data) (Some 630720001000000000) iv = Returns raw"
    and "length raw \<le> 4000" and "list_all is_ascii raw"
proof -
  define d where "d = active_json plain_tools (JObj example_data)"
  have d: "length d = 36"
  proof -
    have "string_of_nat 7 = ''7''" by code_simp
    then show ?thesis
      using plain_active [OF example_reads] length_plain_string [of "''s''"]
      by (simp add: d_def example_data_def object_text_def in_quotes_def)
  qed
  define t where "t = serialize_dumped plain_tools NullSerializer d (Some ''cookie._campfire_session'') (Some 630720001000000000)"
  have iso: "length (iso8601_millis plain_tools 630720001000000000) = 14"
    by (simp add: iso8601_millis_def instant_second_def subsec_nanosecond_def plain_tools_def plain_seconds_def
        three_digits_def string_of_nat.simps)
  have b64: "length (std_encode (base64 plain_tools) (text_bytes u)) = 4 * ((length u + 2) div 3)" for u
    using plain_cipher_laws by (simp add: cipher_laws_def text_bytes_def)
  have "length t \<le> 2000"
    using d length_plain_string b64
    by (simp add: t_def serialize_dumped_def uses_envelope_def object_text_def iso plain_string_active in_quotes_def
        del: plain_json.simps)
  moreover have "encrypt_cookie plain_tools ''_campfire_session'' (JObj example_data) (Some 630720001000000000) iv =
      Returns (encrypt_with_iv plain_tools (encrypted_cookie_key plain_tools) t iv)"
    by (simp add: encrypt_cookie_def encrypt_and_sign_def serialize_with_metadata_def cookie_purpose_def t_def d_def)
  ultimately show thesis
    using that plain_sealed [OF assms] by simp
qed

theorem session_reaches_next_request_witness:
  "\<exists>cs j'. session_commit example_web (fold (run_op example_web) [SetPlain ''a'' (cookie_new ''1'')] (jar_from_headers [''b=2'']))
      (replicate 12 0) example_session = Returns (Inr j') \<and>
    sess_data (session_load example_web (jar_from_headers [cookie_line cs]) ''new'' (session_new default_session)) = example_data"
proof -
  let ?key = "''_campfire_session''" and ?iv = "replicate 12 (0 :: byte)" and ?e = "630720001000000000 :: int"
  let ?ops = "[SetPlain ''a'' (cookie_new ''1'')]"
  obtain raw where raw: "encrypt_cookie plain_tools ?key (JObj example_data) (Some ?e) ?iv = Returns raw"
    "length raw \<le> 4000" "list_all is_ascii raw"
    using example_raw [of ?iv] by auto
  have hs: "jar_from_headers [''b=2''] = \<lparr>jar_cookies = [(''b'', ''2'')], set_cookies = [], delete_cookies = []\<rparr>" by code_simp
  define c where "c = (cookie_new raw)\<lparr>ck_httponly := True, ck_expires := Some ?e\<rparr>"
  define j' where "j' = \<lparr>jar_cookies = [(''b'', ''2''), (''a'', ''1''), (?key, raw)],
    set_cookies = [(''a'', cookie_new ''1''), (?key, c)], delete_cookies = []\<rparr>"
  define cs where "cs = [(''b'', ''2''), (''a'', ''1''), (?key, raw)]"
  have web: "web_tools example_web = plain_tools" "web_now example_web = 1000000000"
    "years_from example_web 1000000000 20 = ?e" by (simp_all add: example_web_def)
  have config: "sess_config example_session = default_session" "sess_changed example_session"
    by (simp_all add: example_session_def session_new_def)
  have commit: "session_commit example_web (fold (run_op example_web) ?ops (jar_from_headers [''b=2''])) ?iv example_session =
      Returns (Inr j')"
    using raw(1,2) unfolding hs
    by (simp add: session_commit_def example_not_null config web default_session_def example_data_def [symmetric]
        jar_set_encrypted_def jar_set_def write_raw_def check_for_overflow_def max_cookie_size_def write_value_def
        jar_get_def resolve_expiry_def cookie_new_def c_def j'_def Let_def)
      (simp add: example_data_def)
  have "map_of cs = agent_after example_web True [] j' (map_of (jar_cookies (jar_from_headers [''b=2''])))"
    unfolding hs
    by (simp add: cs_def agent_after_def j'_def c_def cookie_new_def sends_def after_set_def after_delete_def web fun_eq_iff)
  moreover have "list_all (\<lambda>(n, v). cookie_name n \<and> valid_utf8 (text_bytes v)) cs"
  proof -
    have "cookie_name ''b''" "cookie_name ''a''" "cookie_name ?key" "valid_utf8 (text_bytes ''2'')" "valid_utf8 (text_bytes ''1'')"
      by code_simp+
    then show ?thesis using ascii_valid [OF raw(3)] by (simp add: cs_def)
  qed
  moreover have "valid_utf8 (text_bytes ?key)" by code_simp
  moreover have "json_read plain_tools (json_text plain_tools (JObj example_data)) = Some (JObj example_data)"
    using example_reads by (simp add: plain_tools_def del: plain_json.simps)
  ultimately have "sess_data (session_load example_web (jar_from_headers [cookie_line cs]) ''new'' (session_new (sess_config example_session))) =
      (if bare (not_null (sess_data example_session)) then [(''session_id'', JStr ''new'')] else not_null (sess_data example_session))"
    by (intro session_reaches_next_request [OF _ _ _ _ commit config(2), where years = 20 and ssl = True and host = "[]"])
      (simp_all add: plain_tools_laws plain_cipher_laws web config default_session_def example_not_null lasts_def last_second_def
        expired_at_def op_kept_def kept_def sends_def resolve_expiry_def cookie_new_def cs_def example_data_def)
  then show ?thesis
    using commit by (auto simp: config example_not_null example_data_def)
qed

subsection \<open>Sessions that do not fit\<close>

lemma commit_returns: "session_commit w j iv ss \<noteq> Panics"
  by (simp add: session_commit_def jar_set_encrypted_def encrypt_cookie_def encrypt_and_sign_def serialize_with_metadata_def
      Let_def)

lemma find_nothing: "find (\<lambda>x. False) l = None"
  by (induction l) simp_all

lemma reset_commits:
  assumes "\<not> v_fallback v"
  shows "\<exists>hs v'. commit_session w ssl host sid iv (commit_flash w sid (reset_session sid v)) = (Returns (Inr hs), v') \<and>
    sess_data (v_session v') = [(''session_id'', JStr sid)]"
proof -
  let ?v = "reset_session sid v"
  have flash: "commit_flash w sid ?v = ?v"
    by (simp add: commit_flash_def reset_session_def session_reset_def has_key_def)
  have token: "with_token w sid ?v = ?v" by (simp add: with_token_def reset_session_def)
  have "session_commit w (v_jar ?v) iv (v_session ?v) = Returns (Inr (jar_delete (v_jar ?v) (sess_key (sess_config (v_session ?v)))))"
    by (simp add: session_commit_def reset_session_def session_reset_def not_null_def Let_def)
  moreover have "\<not> v_fallback ?v" using assms by (simp add: reset_session_def)
  ultimately show ?thesis
    by (simp add: flash commit_session_def token find_nothing Let_def) (simp add: reset_session_def session_reset_def)
qed

text \<open>C?.  With a response for a session that does not fit, a request always ends with its headers: each of
  them is shorter than the limit, or the session was reset to a new id.\<close>

theorem overflowing_session_answered:
  assumes "v_fallback v"
  shows "\<exists>hs v'. finish_session w ssl host sid sid' iv iv' v = (Returns (Inr hs), v') \<and>
    ((\<exists>h \<in> set hs. max_cookie_size \<le> length h) \<longrightarrow> sess_data (v_session v') = [(''session_id'', JStr sid')])"
proof -
  let ?v = "commit_flash w sid v"
  have loads: "v_fallback (visit_session w sid u) = v_fallback u" for u by (simp add: visit_session_def)
  have fallback: "v_fallback (with_token w sid ?v)" "v_fallback ?v"
    using assms by (simp_all add: with_token_def commit_flash_def loads Let_def split: option.split)
  show ?thesis
  proof (cases "commit_session w ssl host sid iv ?v")
    case (Pair r v')
    show ?thesis
    proof (cases "\<exists>e. r = Returns (Inl e)")
      case True
      then show ?thesis
        using Pair fallback(2) reset_commits [of "v'\<lparr>v_fallback := False, v_jar := v_jar ?v\<rparr>" w ssl host sid' iv']
        by (auto simp: finish_session_def Let_def)
    next
      case False
      have "r \<noteq> Panics"
        using Pair commit_returns by (auto simp: commit_session_def Let_def split: eval_result.splits sum.splits option.splits)
      with False obtain hs where r: "r = Returns (Inr hs)" by (metis eval_result.exhaust sum.exhaust)
      then have "finish_session w ssl host sid sid' iv iv' v = (Returns (Inr hs), v')"
        using Pair by (simp add: finish_session_def Let_def)
      moreover have "\<forall>h \<in> set hs. length h < max_cookie_size"
        using Pair r fallback(1)
        by (auto simp: commit_session_def Let_def find_None_iff not_le split: eval_result.splits sum.splits option.splits)
      ultimately show ?thesis by fastforce
    qed
  qed
qed

theorem overflowing_session_answered_witness:
  "\<exists>hs v'. finish_session example_web True [] ''a'' ''b'' [] []
      ((visit_new default_session (jar_from_headers []))\<lparr>v_fallback := True\<rparr>) = (Returns (Inr hs), v')"
  using overflowing_session_answered
    [of "(visit_new default_session (jar_from_headers []))\<lparr>v_fallback := True\<rparr>" example_web True "[]" "''a''" "''b''" "[]" "[]"]
  by auto

end
