(* ===== verification/Spec2Isabelle.thy ===== *)
theory Spec2Isabelle
  imports WriteSystem RateLimit Forgery TwoFactorSystem JobSystem JobClaims Periodic SyncServer CableConnection WebSocket LinkFetch
    StageHosts DirectRooms Favorites RoomAccess RoomInvariant WebSession
begin

text \<open>
  \<^bold>\<open>Smartfire: the core of a chat server.\<close>

  Smartfire is a chat server in Rust over one SQLite database.  This development models the parts
  of it that carry its own logic and that many parties share: the background jobs
  (\<^verbatim>\<open>crates/jobs\<close>), live updates to browsers (\<^verbatim>\<open>crates/cable\<close>), the write transaction
  (\<^verbatim>\<open>crates/db/src/database.rs\<close>), rooms, memberships and notifications
  (\<^verbatim>\<open>crates/db/src/models\<close>), two-factor authentication, the checks of incoming requests
  (\<^verbatim>\<open>crates/kit\<close>), and outgoing requests to addresses people name (\<^verbatim>\<open>crates/app/src/net\<close>).

  \<^bold>\<open>How the parts interact.\<close>  A request passes the checks of \<open>Request\<close>, \<open>Forgery\<close> and \<open>RateLimit\<close>
  and runs model code inside a write (\<open>WriteQueue\<close>).  Model code changes rows (\<open>Rooms\<close>,
  \<open>Memberships\<close>, \<open>Sidebar\<close>, \<open>TwoFactor\<close>) and registers what must happen after the commit: callbacks,
  jobs and broadcasts.  Committed jobs go to the table the runners claim from (\<open>JobStore\<close>,
  \<open>JobRunner\<close>); committed broadcasts go to the hub (\<open>PubSub\<close>) and the sync ring (\<open>SyncRing\<close>), which
  connections over WebSockets (\<open>WebSocket\<close>, \<open>CableConnection\<close>, \<open>SyncConnection\<close>) read.  Jobs
  that unfurl links go out through \<open>LinkFetch\<close>, \<open>HttpClient\<close> and the guard \<open>NetGuard\<close>.

  \<^bold>\<open>Shared theories.\<close>

  \<^item> \<^verbatim>\<open>Prelude\<close>: timestamps, results that may panic, sorted association lists
    (\<^verbatim>\<open>BTreeMap\<close>), conditional updates of a list of rows, and two locales: \<open>keyed_table\<close> (a table
    with a primary key, interpreted on the tables below) and \<open>invariant_system\<close> (an invariant kept
    by a step relation, interpreted on every system below).  \<^verbatim>\<open>Texts\<close> and \<^verbatim>\<open>Bytes\<close>: the functions on
    characters, texts and bytes of the standard library.  \<^verbatim>\<open>Encoding\<close>
    (\<^verbatim>\<open>rails_compat/src/encoding.rs\<close>): lenient Base64 over the library's codecs
    (\<open>base64_laws\<close>).  \<^verbatim>\<open>IpAddress\<close>: addresses as words, their parser and printer.

  \<^bold>\<open>Background jobs.\<close>

  \<^item> \<^verbatim>\<open>JobStore\<close> (\<^verbatim>\<open>jobs/src/store.rs\<close>, \<^verbatim>\<open>inspect.rs\<close>): the table \<^verbatim>\<open>background_jobs\<close> as a list of
    \<open>job_row\<close> records, and every statement as a function on it.  Shown: a claim respects the queue's
    concurrency and the due order and is exclusive; the truncation of errors.
  \<^item> \<^verbatim>\<open>JobRetry\<close> (\<^verbatim>\<open>kind.rs\<close>, \<^verbatim>\<open>retry.rs\<close>): retry policies, waits with jitter, the classification of
    errors, and the counters kept inside the job's arguments.  Floating point numbers are rationals;
    a conversion that panics is \<open>Panics\<close>.
  \<^item> \<^verbatim>\<open>JobRunner\<close> (\<^verbatim>\<open>runner.rs\<close>, \<^verbatim>\<open>queue.rs\<close>, \<^verbatim>\<open>registry.rs\<close>): one iteration of each loop,
    execution, completion, recovery, shutdown and enqueueing.  The completion loop takes the list of
    results of its writes; the back-off limit bounds their number, and it is shown to end.
  \<^item> \<^verbatim>\<open>JobSystem\<close>: all runners and the operator on one table.  Shown: the concurrency bound over any
    interleaving with prompt heartbeats, the refinement of every statement to an abstract life cycle
    of a job, and the retry budget.  Two theorems show where the bound and the ownership test stop: a
    heartbeat after its lease ran out, and a stale execution of the same runner.
  \<^item> \<^verbatim>\<open>JobClaims\<close> (\<^verbatim>\<open>claims.rs\<close>): conditional updates and leases in a JSON column; \<^verbatim>\<open>Periodic\<close>
    (\<^verbatim>\<open>periodic.rs\<close>): tasks run when their interval passed.

  \<^bold>\<open>Live updates.\<close>

  \<^item> \<^verbatim>\<open>SyncRing\<close> (\<^verbatim>\<open>cable/src/sync.rs\<close>): the bounded ring of publications, resume points, gaps and
    fences.  A ghost history says what was published.  Shown: a read is exact or reports a loss that
    really happened.  \<^verbatim>\<open>SyncConnection\<close> (\<^verbatim>\<open>sync/connection.rs\<close>): one client, its turns, batches and
    disconnects.  \<^verbatim>\<open>SyncServer\<close> (\<^verbatim>\<open>server.rs\<close>): publishing and skipping, and all clients of one engine.
    Shown: no client misses a skipped publication silently.
  \<^item> \<^verbatim>\<open>PubSub\<close> (\<^verbatim>\<open>pubsub.rs\<close>): the hub over any channel with the laws of tokio's broadcast channel
    (\<open>channel_laws\<close>).  Shown: a subscriber gets every frame once and in order or is told it lagged.
  \<^item> \<^verbatim>\<open>CableProtocol\<close> (\<^verbatim>\<open>json.rs\<close>, \<^verbatim>\<open>naming.rs\<close>, \<^verbatim>\<open>protocol.rs\<close>, the upgrade checks of \<^verbatim>\<open>server.rs\<close>) and
    \<^verbatim>\<open>CableConnection\<close> (\<^verbatim>\<open>channel.rs\<close>, \<^verbatim>\<open>connection.rs\<close>): the subscriptions of one Action Cable socket and
    its turns.  Shown: what a remote disconnect still writes, and the bounds of one socket.
  \<^item> \<^verbatim>\<open>WebSocket\<close> (\<^verbatim>\<open>socket.rs\<close>): handshake, frames, fragments, compression and partial writes.
    Shown: both directions read back.  The reader's recursion consumes its stream, so it needs no
    fuel; the writer takes the list of the socket's answers.

  \<^bold>\<open>The write transaction.\<close>

  \<^item> \<^verbatim>\<open>WriteQueue\<close> (\<^verbatim>\<open>db/src/database.rs\<close>, \<^verbatim>\<open>events.rs\<close>): what a write registers, savepoints, the
    commit and the work after it.  \<^verbatim>\<open>WriteCode\<close>: the programs that model code may be; the theorems hold
    for every program.  \<^verbatim>\<open>WriteInside\<close>: an aborted write and a failed savepoint leave no trace.
    \<^verbatim>\<open>WriteCommitted\<close> and \<^verbatim>\<open>WriteSystem\<close>, over any event sink with the laws of the locale
    \<open>committed_sink\<close> (interpreted on the default sink): committed jobs are
    woken, record callbacks run once, settled broadcasts come last, and the write returns.

  \<^bold>\<open>Rooms, memberships and notifications.\<close>

  \<^item> \<^verbatim>\<open>NotificationPolicy\<close> (\<^verbatim>\<open>notification_policy.rs\<close>, \<^verbatim>\<open>user_status_settings.rs\<close>): levels, mutes, quiet
    hours, do-not-disturb, out of office, and what a message sends to whom.  Shown: the SQL
    expressions read preferences as the policy does; quiet hours are one circular window; a silenced
    room is silent.
  \<^item> \<^verbatim>\<open>RoomTables\<close>: the tables as lists of records in one \<open>room_db\<close>; the operations (\<open>op\<close>) that fail
    or return and leave a state, also after an error; the queries; and the numbering of rows by an
    order (locale \<open>numbering\<close>, interpreted as \<open>layout\<close> and as \<open>favorites\<close>).
  \<^item> \<^verbatim>\<open>Memberships\<close> (\<^verbatim>\<open>membership.rs\<close>, \<^verbatim>\<open>stage.rs\<close>), \<^verbatim>\<open>Sidebar\<close> (\<^verbatim>\<open>room_category.rs\<close>,
    \<^verbatim>\<open>workspace_category.rs\<close>) and \<^verbatim>\<open>Rooms\<close> (\<^verbatim>\<open>room.rs\<close>, \<^verbatim>\<open>direct_room.rs\<close>, \<^verbatim>\<open>room_delete.rs\<close>): every
    operation in the order of its statements.  Calls into tables that are not modelled (huddle
    grants, streams, agent grants, activity items, threads, the rendering of notes) are fields of
    \<open>room_env\<close>; they read everything and write the rest of the database only.
  \<^item> \<^verbatim>\<open>RoomInvariant\<close>: over any run of the operations, failed ones included, the tables keep what
    their unique indexes demand.  \<^verbatim>\<open>StageHosts\<close>: a stage keeps a host.  \<^verbatim>\<open>DirectRooms\<close>: a direct room
    is found again by its people.  \<^verbatim>\<open>Favorites\<close> and the last part of \<^verbatim>\<open>Sidebar\<close>: what is dragged lands in
    its place.  \<^verbatim>\<open>RoomAccess\<close>: what a deletion and a message do to everyone's memberships.

  \<^bold>\<open>Signing in and incoming requests.\<close>

  \<^item> \<^verbatim>\<open>Totp\<close> (\<^verbatim>\<open>rails_compat/src/totp.rs\<close>), \<^verbatim>\<open>TwoFactor\<close> (\<^verbatim>\<open>two_factor.rs\<close>, the challenges of
    \<^verbatim>\<open>authentication.rs\<close> and \<^verbatim>\<open>sudo.rs\<close>) and \<^verbatim>\<open>TwoFactorSystem\<close>: codes, backup codes, lockouts.
    Shown, over all transactions of all sessions: no code is accepted twice, and the lockouts
    bound how many wrong codes can be tried.
  \<^item> \<^verbatim>\<open>RateLimit\<close> (\<^verbatim>\<open>kit/src/rate_limit.rs\<close>): counters in shared stores, refined to one fixed window
    per counter.  \<^verbatim>\<open>Request\<close> (\<^verbatim>\<open>request.rs\<close>): the address, host and protocol of a request behind
    proxies; the address cannot be forged.  \<^verbatim>\<open>Forgery\<close> (\<^verbatim>\<open>csrf.rs\<close>, \<^verbatim>\<open>ctx.rs\<close>): exactly which requests
    pass, and that a page's own tokens do.

  \<^bold>\<open>Outgoing requests.\<close>

  \<^item> \<^verbatim>\<open>NetGuard\<close> (\<^verbatim>\<open>app/src/net/guard.rs\<close>), \<^verbatim>\<open>Uri\<close> (\<^verbatim>\<open>richtext/src/uri.rs\<close>), \<^verbatim>\<open>HttpClient\<close>
    (\<^verbatim>\<open>net/http.rs\<close>) and \<^verbatim>\<open>LinkFetch\<close> (\<^verbatim>\<open>net/redirect.rs\<close>, link previews, the image proxy).  What lies
    outside is a \<open>world\<close> whose every answer may depend on everything before it, so a name may resolve
    differently the second time.  Shown: only addresses the guard vetted are ever dialled, over
    every redirect, and fetches and bodies are bounded.

  \<^bold>\<open>How the code is rendered.\<close>  A struct is a record, an enum a datatype, a statement or method a
  function from the old state to the result and the new one; a \<^verbatim>\<open>panic\<close>, a failed \<^verbatim>\<open>assert\<close> and an
  arithmetic overflow are \<open>Panics\<close>.  Unsigned counters that only grow (publication sequences, row
  ids) are \<open>nat\<close> or \<open>int\<close>: they would need centuries to reach the width of their type; where a
  value can reach its bound (delays, attempts, observers, redirects), the bound is written out.
  Masks, addresses, frame lengths and digests are words.  Asynchronous loops are modelled one
  iteration at a time, and their interleavings as step relations, each step being one statement or
  one critical section; SQLite's single writer makes a transaction one step.  Third-party code
  (hashes, compression, Base64, JSON printing, TLS, HTTP framing, name service, time zones) is a
  parameter, with what its documentation promises as a named hypothesis where a theorem needs it.

  \<^bold>\<open>What is not modelled.\<close>  Request handlers (\<^verbatim>\<open>crates/api\<close>, \<^verbatim>\<open>controllers\<close>, \<^verbatim>\<open>messages\<close>, \<^verbatim>\<open>people\<close>,
  \<^verbatim>\<open>rooms\<close>) and views, which call the models and print; the rendering, editing and search of messages,
  threads, agents, calendars, huddles, files and imports among the models; cookies and sessions;
  file storage and image processing; HTML parsing and sanitising over third-party parsers; start-up,
  task spawning, timers and logging; and everything that is not Rust.
\<close>

end
